(* ===== verification/Prelude.thy ===== *)
theory Prelude
  imports Main "HOL-Library.Word" "HOL-Library.While_Combinator"
begin

unbundle bit_operations_syntax

text \<open>
  The vocabulary the other theories share: machine integers, byte buffers, the faults of the C
  abstract machine as values, counted loops that may fault, and the lemmas about them.

  A C function that can leave the defined behaviour of the language (a store past the end of a
  buffer, a null pointer that is followed, a loop that never ends) returns a value of the type
  \<open>'a cres\<close>: \<open>Inl\<close> of the fault, or \<open>Inr\<close> of the result.
\<close>

section \<open>Types\<close>

type_synonym byte = "8 word"
type_synonym u16 = "16 word"
type_synonym u32 = "32 word"

datatype c_fault =
    Out_Of_Bounds   \<comment> \<open>an access outside the object the pointer belongs to\<close>
  | Null_Deref      \<comment> \<open>a null pointer is followed\<close>
  | Diverges        \<comment> \<open>a loop whose guard never becomes false\<close>
  | Released        \<comment> \<open>a block is used or released after it has been released\<close>
  | Bad_Vararg      \<comment> \<open>\<open>va_arg\<close> of a type the caller did not pass\<close>
  | Assert_Failed   \<comment> \<open>\<open>RT_ASSERT\<close> or \<open>EF_ASSERT\<close> stops the system\<close>

type_synonym 'a cres = "c_fault + 'a"

named_theorems c_simps \<open>equations of the fault monad and of buffers\<close>

section \<open>Sequencing and loops\<close>

definition cbind :: "'a cres \<Rightarrow> ('a \<Rightarrow> 'b cres) \<Rightarrow> 'b cres" where
  "cbind m f = (case m of Inl e \<Rightarrow> Inl e | Inr x \<Rightarrow> f x)"

lemma cbind_Inl [simp, c_simps]: "cbind (Inl e) f = Inl e"
  by (simp add: cbind_def)

lemma cbind_Inr [simp, c_simps]: "cbind (Inr x) f = f x"
  by (simp add: cbind_def)

lemma cbind_assoc [c_simps]: "cbind (cbind m f) g = cbind m (\<lambda>x. cbind (f x) g)"
  by (cases m) simp_all

lemma cbind_eq_Inr: "cbind m f = Inr y \<longleftrightarrow> (\<exists>x. m = Inr x \<and> f x = Inr y)"
  by (cases m) simp_all

lemma cbind_Inr_right [simp]: "cbind m Inr = m"
  by (cases m) simp_all

lemma cbind_cong [fundef_cong]:
  "m = n \<Longrightarrow> (\<And>x. n = Inr x \<Longrightarrow> f x = g x) \<Longrightarrow> cbind m f = cbind n g"
  by (cases n) simp_all

text \<open>\<open>for (i \<in> is) body\<close> where the body may fault.\<close>

primrec cfor :: "'i list \<Rightarrow> ('i \<Rightarrow> 's \<Rightarrow> 's cres) \<Rightarrow> 's \<Rightarrow> 's cres" where
  "cfor [] f s = Inr s"
| "cfor (i # is) f s = cbind (f i s) (cfor is f)"

lemma cfor_append: "cfor (is @ js) f s = cbind (cfor is f s) (cfor js f)"
proof (induction "is" arbitrary: s)
  case (Cons a "is")
  have "(\<lambda>x. cfor (is @ js) f x) = (\<lambda>x. cbind (cfor is f x) (cfor js f))"
    by (rule ext) (rule Cons.IH)
  then show ?case by (simp add: cbind_assoc)
qed simp

lemma cfor_Nil [simp]: "cfor [] f = Inr"
  by (rule ext) simp

lemma cfor_single [simp]: "cfor [i] f = f i"
  by (rule ext) simp

lemma cfor_pure:
  "(\<And>i s. i \<in> set is \<Longrightarrow> f i s = Inr (g i s)) \<Longrightarrow> cfor is f s = Inr (fold g is s)"
  by (induction "is" arbitrary: s) simp_all

lemma cfor_fault_first: "f i s = Inl e \<Longrightarrow> cfor (i # is) f s = Inl e"
  by simp

text \<open>
  \<open>for (i = a; i <= b; i++) body\<close> with a 16-bit counter and an \<open>int\<close> bound: the counter is compared
  after promotion and wraps when it is incremented, so a bound of 65535 or more is never passed.
\<close>

definition u16_for :: "u16 \<Rightarrow> int \<Rightarrow> (u16 \<Rightarrow> 's \<Rightarrow> 's cres) \<Rightarrow> 's \<Rightarrow> 's cres" where
  "u16_for a b f s =
     (case while_option
             (\<lambda>(i, r). case r of Inl e \<Rightarrow> False | Inr s \<Rightarrow> uint i \<le> b)
             (\<lambda>(i, r). (i + 1, cbind r (f i)))
             (a, Inr s) of
        None \<Rightarrow> Inl Diverges
      | Some (i, r) \<Rightarrow> r)"

lemma u16_for_unfold:
  "u16_for a b f s = (if uint a \<le> b then cbind (f a s) (u16_for (a + 1) b f) else Inr s)"
proof -
  define g :: "u16 \<times> 'a cres \<Rightarrow> bool" where
    "g = (\<lambda>(i, r). case r of Inl e \<Rightarrow> False | Inr s \<Rightarrow> uint i \<le> b)"
  define c where "c = (\<lambda>(i, r). (i + 1, cbind r (f i)))"
  have *: "u16_for a b f s = (case while_option g c (a, Inr s) of None \<Rightarrow> Inl Diverges | Some (i, r) \<Rightarrow> r)"
    for a s unfolding u16_for_def g_def c_def ..
  have stop: "while_option g c (i, Inl e) = Some (i, Inl e)" for i e
    by (subst while_option_unfold) (simp add: g_def)
  have run: "while_option g c (a, Inr s) =
    (if uint a \<le> b then while_option g c (a + 1, f a s) else Some (a, Inr s))"
    by (subst while_option_unfold) (simp add: g_def c_def)
  show ?thesis
    by (cases "f a s") (simp_all add: * run stop)
qed

definition u16_upto :: "nat \<Rightarrow> nat \<Rightarrow> u16 list" where
  "u16_upto m n = map word_of_nat [m..<n]"

lemma uint_u16_Suc: "uint (a :: u16) < 65535 \<Longrightarrow> uint (a + 1) = uint a + 1"
  using uint_lt2p[of a] by (simp add: uint_word_ariths)

lemma u16_for_eq:
  assumes "b < 65535"
  shows "u16_for a b f s = cfor (u16_upto (unat a) (nat (b + 1))) f s"
proof (induction "nat (b + 1 - uint a)" arbitrary: a s)
  case 0
  then have gt: "\<not> uint a \<le> b" by simp
  then have "nat (b + 1) \<le> unat a" by (simp add: nat_le_iff uint_nat[symmetric])
  then show ?case using gt by (subst u16_for_unfold) (simp add: u16_upto_def)
next
  case (Suc n)
  then have le: "uint a \<le> b" by linarith
  with assms have nxt: "uint (a + 1) = uint a + 1" by (intro uint_u16_Suc) linarith
  then have IH: "u16_for (a + 1) b f s = cfor (u16_upto (unat (a + 1)) (nat (b + 1))) f s" for s
    using Suc.hyps(2) by (intro Suc.hyps(1)) linarith
  have "unat a < nat (b + 1)" using le uint_nat[of a] by linarith
  then have "[unat a..<nat (b + 1)] = unat a # [Suc (unat a)..<nat (b + 1)]"
    by (rule upt_conv_Cons)
  moreover have "unat (a + 1) = Suc (unat a)"
    using nxt by (metis nat_add_distrib nat_one_as_int Suc_eq_plus1 unat_eq_nat_uint uint_ge_0 zero_le_one nat_1)
  ultimately have "u16_upto (unat a) (nat (b + 1)) = a # u16_upto (unat (a + 1)) (nat (b + 1))"
    by (simp add: u16_upto_def)
  moreover have "u16_for a b f s = cbind (f a s) (u16_for (a + 1) b f)"
    using le by (subst u16_for_unfold) simp
  moreover have "u16_for (a + 1) b f = cfor (u16_upto (unat (a + 1)) (nat (b + 1))) f"
    by (rule ext) (rule IH)
  ultimately show ?case by simp
qed

lemma u16_for_diverges:
  assumes "65535 \<le> b" and "\<And>i s. P s \<Longrightarrow> \<exists>s'. f i s = Inr s' \<and> P s'" and "P s"
  shows "u16_for a b f s = Inl Diverges"
proof -
  let ?g = "\<lambda>(i, r). case r of Inl e \<Rightarrow> False | Inr s \<Rightarrow> uint (i :: u16) \<le> b"
  let ?c = "\<lambda>(i, r). (i + 1, cbind r (f i))"
  have "while_option ?g ?c (a, Inr s) = None"
  proof (rule ccontr)
    assume "while_option ?g ?c (a, Inr s) \<noteq> None"
    then obtain t where t: "while_option ?g ?c (a, Inr s) = Some t" by blast
    have "(\<lambda>(i, r). \<exists>s. r = Inr s \<and> P s) t"
      by (rule while_option_rule[OF _ t, where P = "\<lambda>(i, r). \<exists>s. r = Inr s \<and> P s"])
        (use assms(2,3) in \<open>fastforce+\<close>)
    moreover have "\<not> ?g t" using while_option_stop[OF t] .
    moreover have "uint i \<le> b" for i :: u16 using uint_lt2p[of i] assms(1) by simp
    ultimately show False by auto
  qed
  then show ?thesis by (simp add: u16_for_def)
qed

section \<open>Buffers\<close>

definition buf_put :: "nat \<Rightarrow> byte \<Rightarrow> byte list \<Rightarrow> byte list cres" where
  "buf_put i b buf = (if i < length buf then Inr (buf[i := b]) else Inl Out_Of_Bounds)"

definition buf_get :: "nat \<Rightarrow> 'a list \<Rightarrow> 'a cres" where
  "buf_get i buf = (if i < length buf then Inr (buf ! i) else Inl Out_Of_Bounds)"

lemma buf_put_ok [simp, c_simps]: "i < length buf \<Longrightarrow> buf_put i b buf = Inr (buf[i := b])"
  by (simp add: buf_put_def)

lemma buf_put_oob [simp, c_simps]: "length buf \<le> i \<Longrightarrow> buf_put i b buf = Inl Out_Of_Bounds"
  by (simp add: buf_put_def)

lemma buf_put_len: "buf_put i b buf = Inr buf' \<Longrightarrow> length buf' = length buf"
  by (auto simp: buf_put_def split: if_splits)

lemma buf_get_ok [simp, c_simps]: "i < length buf \<Longrightarrow> buf_get i buf = Inr (buf ! i)"
  by (simp add: buf_get_def)

lemma buf_get_oob [simp, c_simps]: "length buf \<le> i \<Longrightarrow> buf_get i buf = Inl Out_Of_Bounds"
  by (simp add: buf_get_def)

text \<open>
  Storing into a slice: \<open>overlay p bs buf\<close> is \<open>buf\<close> with the bytes \<open>bs\<close> stored from offset
  \<open>p\<close> on, as far as the buffer reaches.
\<close>

definition overlay :: "nat \<Rightarrow> 'a list \<Rightarrow> 'a list \<Rightarrow> 'a list" where
  "overlay p bs buf = take p buf @ take (length buf - p) bs @ drop (p + length bs) buf"

lemma length_overlay [simp]: "length (overlay p bs buf) = length buf"
  by (simp add: overlay_def)

lemma overlay_Nil [simp]: "overlay p [] buf = buf"
  by (simp add: overlay_def)

lemma overlay_nth:
  "i < length buf \<Longrightarrow>
   overlay p bs buf ! i = (if p \<le> i \<and> i < p + length bs then bs ! (i - p) else buf ! i)"
  by (auto simp: overlay_def nth_append min_def)

lemma overlay_snoc:
  "p + length bs < length buf \<Longrightarrow>
   (overlay p bs buf)[p + length bs := b] = overlay p (bs @ [b]) buf"
  by (rule nth_equalityI) (auto simp: overlay_nth nth_list_update nth_append)

lemma overlay_Cons:
  "p < length buf \<Longrightarrow> overlay (Suc p) bs (buf[p := b]) = overlay p (b # bs) buf"
  by (rule nth_equalityI) (auto simp: overlay_nth nth_list_update nth_Cons')

lemma overlay_append: "overlay (p + length xs) ys (overlay p xs buf) = overlay p (xs @ ys) buf"
  by (rule nth_equalityI) (auto simp: overlay_nth nth_append)

lemma overlay_full: "length bs = length buf \<Longrightarrow> overlay 0 bs buf = bs"
  by (simp add: overlay_def)

lemma take_overlay: "p + length bs \<le> length buf \<Longrightarrow>
   take (p + length bs) (overlay p bs buf) = take p buf @ bs"
  by (simp add: overlay_def)

section \<open>C strings\<close>

text \<open>The bytes of a string literal, without its terminator.\<close>

definition lit :: "string \<Rightarrow> byte list" where
  "lit s = map (\<lambda>c. word_of_nat (of_char c)) s"

lemma length_lit [simp]: "length (lit s) = length s"
  by (simp add: lit_def)

lemma lit_Nil [simp]: "lit [] = []"
  by (simp add: lit_def)

lemma lit_append: "lit (s @ t) = lit s @ lit t"
  by (simp add: lit_def)

text \<open>The string a buffer holds: its bytes up to the first NUL.\<close>

definition cstr :: "byte list \<Rightarrow> byte list" where
  "cstr buf = takeWhile (\<lambda>b. b \<noteq> 0) buf"

lemma cstr_append_nul [simp]: "0 \<notin> set s \<Longrightarrow> cstr (s @ 0 # t) = s"
  unfolding cstr_def by (subst takeWhile_append2) auto

lemma nul_notin_cstr [simp]: "0 \<notin> set (cstr buf)"
  by (auto simp: cstr_def dest: set_takeWhileD)

lemma cstr_no_nul: "0 \<notin> set s \<Longrightarrow> cstr s = s"
  by (auto simp: cstr_def takeWhile_eq_all_conv)

text \<open>\<open>atoi\<close> of the C library: white space, a sign, digits. Overflow is undefined in C; the value
  here is the unbounded one, and the callers say what they store it in.\<close>

definition is_space :: "byte \<Rightarrow> bool" where
  "is_space b \<longleftrightarrow> b = 32 \<or> (9 \<le> b \<and> b \<le> 13)"

fun atoi_digits :: "byte list \<Rightarrow> int \<Rightarrow> int" where
  "atoi_digits [] acc = acc"
| "atoi_digits (b # s) acc =
     (if 48 \<le> b \<and> b \<le> 57 then atoi_digits s (acc * 10 + (uint b - 48)) else acc)"

definition atoi :: "byte list \<Rightarrow> int" where
  "atoi s = (case dropWhile is_space s of
      [] \<Rightarrow> 0
    | b # t \<Rightarrow> if b = 45 then - atoi_digits t 0
               else if b = 43 then atoi_digits t 0
               else atoi_digits (b # t) 0)"

definition tolower :: "byte \<Rightarrow> byte" where
  "tolower c = (if 65 \<le> c \<and> c \<le> 90 then c + 32 else c)"

section \<open>Words\<close>

text \<open>The two bytes of a half word, most significant first, as the display takes them.\<close>

definition hi8 :: "u16 \<Rightarrow> byte" where
  "hi8 w = ucast (drop_bit 8 w)"

definition lo8 :: "u16 \<Rightarrow> byte" where
  "lo8 w = ucast w"

lemma unat_hi8: "unat (hi8 w) = unat w div 256"
proof -
  have "unat w < 2 ^ 16" using unsigned_less[of w] by simp
  then have "unat w div 256 < 256" by simp
  then show ?thesis
    by (simp add: hi8_def unsigned_ucast_eq unsigned_drop_bit_eq drop_bit_eq_div take_bit_eq_mod unat_div)
qed

lemma unat_lo8: "unat (lo8 w) = unat w mod 256"
  by (simp add: lo8_def unsigned_ucast_eq take_bit_eq_mod)

lemma hi_lo_inject: "hi8 v = hi8 w \<Longrightarrow> lo8 v = lo8 w \<Longrightarrow> v = w"
proof -
  assume "hi8 v = hi8 w" and "lo8 v = lo8 w"
  then have "unat v div 256 = unat w div 256" and "unat v mod 256 = unat w mod 256"
    by (metis unat_hi8, metis unat_lo8)
  then have "unat v = unat w" by (metis div_mult_mod_eq)
  then show "v = w" by (simp only: word_unat_eq_iff)
qed

lemma unat_of_int_small: "0 \<le> i \<Longrightarrow> i < 2 ^ LENGTH('a) \<Longrightarrow>
   unat (word_of_int i :: 'a::len word) = nat i"
  by (simp add: unsigned_of_int take_bit_int_eq_self)

lemma uint_of_int_small: "0 \<le> i \<Longrightarrow> i < 2 ^ LENGTH('a) \<Longrightarrow>
   uint (word_of_int i :: 'a::len word) = i"
  by (simp add: unsigned_of_int take_bit_int_eq_self)

lemma and_not_mask: "(r :: 'a::len word) AND NOT (mask n) = push_bit n (drop_bit n r)"
  by (rule bit_word_eqI) (auto simp: bit_and_iff bit_not_iff bit_mask_iff bit_push_bit_iff bit_drop_bit_eq)

lemma unat_round_down: "unat (push_bit n (drop_bit n (r :: 'a::len word))) = unat r div 2 ^ n * 2 ^ n"
proof -
  have "unat r div 2 ^ n * 2 ^ n \<le> unat r" by simp
  also have "\<dots> < 2 ^ LENGTH('a)" by (rule unsigned_less)
  finally show ?thesis
    unfolding unsigned_push_bit_eq unsigned_drop_bit_eq
    by (simp only: drop_bit_eq_div push_bit_eq_mult take_bit_eq_mod mod_less unsigned_less)
qed

text \<open>Fields put together with shift and or.\<close>

lemma or_field: "y < 2 ^ n \<Longrightarrow> (x * 2 ^ n) OR y = x * 2 ^ n + (y :: nat)"
proof -
  assume "y < 2 ^ n"
  then have y: "take_bit n y = y" by (simp add: take_bit_nat_eq_self)
  have "push_bit n x AND take_bit n y = 0"
    by (rule bit_eqI) (auto simp only: bit_and_iff bit_push_bit_iff bit_take_bit_iff bit_0_eq bot_apply bot_bool_def)
  then show ?thesis using disjunctive_add_eq_or[of "push_bit n x" y] by (simp only: y push_bit_eq_mult)
qed

lemma unat_and_mask: "unat ((r :: 'a::len word) AND mask n) = unat r mod 2 ^ n"
  unfolding take_bit_eq_mask[symmetric] unsigned_take_bit_eq by (rule take_bit_eq_mod)

lemma unat_drop: "unat (drop_bit n (r :: 'a::len word)) = unat r div 2 ^ n"
proof -
  have "unat r < 2 ^ LENGTH('a)" by (rule unsigned_less)
  then show ?thesis unfolding unsigned_drop_bit_eq by (simp only: drop_bit_eq_div take_bit_eq_mod mod_less)
qed

lemma unat_push: "unat r * 2 ^ n < 2 ^ LENGTH('a) \<Longrightarrow> unat (push_bit n (r :: 'a::len word)) = unat r * 2 ^ n"
  unfolding unsigned_push_bit_eq by (simp only: push_bit_eq_mult take_bit_eq_mod mod_less)

text \<open>Two's complement at 32 bits.\<close>

lemma sint_u32: "sint (n :: u32) = (if uint n < 2 ^ 31 then uint n else uint n - 2 ^ 32)"
proof -
  have "sint n = (uint n + 2 ^ 31) mod 2 ^ 32 - 2 ^ 31"
    unfolding sint_uint signed_take_bit_eq_take_bit_shift take_bit_eq_mod by simp
  moreover have "0 \<le> uint n" "uint n < 2 ^ 32" using uint_lt2p[of n] by simp_all
  moreover have "(k + 2 ^ 31) mod 2 ^ 32 = k - 2 ^ 31" if "2 ^ 31 \<le> k" "k < 2 ^ 32" for k :: int
  proof -
    have "k + 2 ^ 31 = (k - 2 ^ 31) + 2 ^ 32" by simp
    then have "(k + 2 ^ 31) mod 2 ^ 32 = (k - 2 ^ 31) mod 2 ^ 32" by (metis mod_add_self2)
    then show ?thesis using that by simp
  qed
  ultimately show ?thesis by (auto simp: not_less)
qed

lemma neg_u32: "sint (n :: u32) < 0 \<Longrightarrow> uint (- n) = - sint n"
proof -
  assume n: "sint n < 0"
  have b: "0 \<le> uint n" "uint n < 2 ^ 32" using uint_lt2p[of n] by simp_all
  have "uint (- n) = (- uint n) mod 2 ^ 32" by (simp add: uint_word_ariths)
  also have "\<dots> = 2 ^ 32 - uint n"
    using n b by (simp add: sint_u32 zmod_zminus1_eq_if split: if_splits)
  finally show ?thesis using n by (simp add: sint_u32 split: if_splits)
qed

end
