(* ===== verification/Panel.thy ===== *)
theory Panel
  imports Prelude
begin

text \<open>
  The interface between what draws and the display driver: a window is opened, and the pixels of the
  window are written one after the other. The driver provides it in \<open>Lcd\<close>; the mixed-text renderer
  and the picture viewer are its clients.

  \<open>emits s w s'\<close> says that the bytes \<open>w\<close> went to the panel between the states \<open>s\<close> and \<open>s'\<close>.
\<close>

section \<open>Writing pixels\<close>

locale pixel_writer =
  fixes emits :: "'s \<Rightarrow> 'w list \<Rightarrow> 's \<Rightarrow> bool"
    and put :: "'c \<Rightarrow> 's \<Rightarrow> 's"
    and px :: "'c \<Rightarrow> 'w list"
  assumes emits_nothing: "emits s [] s"
    and emits_seq: "emits s v t \<Longrightarrow> emits t w u \<Longrightarrow> emits s (v @ w) u"
    and emits_put: "emits s (px c) (put c s)"
begin

lemma puts: "emits s (concat (map px cs)) (fold put cs s)"
proof (induction cs arbitrary: s)
  case (Cons c cs)
  show ?case using emits_seq[OF emits_put Cons.IH] by simp
qed (simp add: emits_nothing)

lemma puts_after: "emits s w t \<Longrightarrow> emits s (w @ concat (map px cs)) (fold put cs t)"
  by (rule emits_seq[OF _ puts])

text \<open>A loop whose rounds write pixels, with faults.\<close>

lemma cfor_puts:
  assumes "\<And>i t. i \<in> set is \<Longrightarrow> f i t = Inr (fold put (cs i) t)"
  shows "cfor is f s = Inr (fold put (concat (map cs is)) s)"
  using assms by (induction "is" arbitrary: s) simp_all

end

section \<open>Windows\<close>

locale window_panel = pixel_writer emits put px
  for emits :: "'s \<Rightarrow> 'w list \<Rightarrow> 's \<Rightarrow> bool" and put :: "'c \<Rightarrow> 's \<Rightarrow> 's" and px :: "'c \<Rightarrow> 'w list" +
  fixes open_window :: "u16 \<Rightarrow> u16 \<Rightarrow> u16 \<Rightarrow> u16 \<Rightarrow> 's \<Rightarrow> int \<times> 's"
    and win :: "u16 \<Rightarrow> u16 \<Rightarrow> u16 \<Rightarrow> u16 \<Rightarrow> 'w list"
    and width :: int and height :: int
  assumes opens: "uint x + uint l \<le> width \<Longrightarrow> uint y + uint w \<le> height \<Longrightarrow>
      emits s (win x y l w) (snd (open_window x y l w s))"
    and refuses: "\<not> (uint x + uint l \<le> width \<and> uint y + uint w \<le> height) \<Longrightarrow>
      open_window x y l w s = (-1, s)"
begin

lemma cell:
  assumes "uint x + uint l \<le> width" "uint y + uint w \<le> height"
  shows "emits s (win x y l w @ concat (map px cs)) (fold put cs (snd (open_window x y l w s)))"
  by (rule puts_after[OF opens[OF assms]])

text \<open>A cell that does not fit leaves its pixels in the window that was open before.\<close>

lemma cell_refused:
  assumes "\<not> (uint x + uint l \<le> width \<and> uint y + uint w \<le> height)"
  shows "emits s (concat (map px cs)) (fold put cs (snd (open_window x y l w s)))"
  by (simp add: refuses[OF assms] puts)

end

end
