(* ===== verification/Lcd.thy ===== *)
theory Lcd
  imports Panel
begin

text \<open>
  The display driver \<open>drivers/drv_lcd.c\<close>: the bus the panel hangs on, the register writes, and the
  operations that move blocks of pixels (\<open>lcd_clear\<close>, \<open>lcd_fill\<close>, \<open>lcd_show_image\<close>). Lines and circles
  are in \<open>Lcd_Draw\<close>, text in \<open>Lcd_Text\<close>.

  The state is the pair of colour globals and the trace of everything the driver did to the pins and
  the SPI bus. What the panel sees of the trace is \<open>sent\<close>: the bytes on the wire, each with the level
  of the data/command pin it was sent under.
\<close>

section \<open>The bus\<close>

datatype lcd_pin = LCD_PWR_PIN | LCD_DC_PIN | LCD_RES_PIN

datatype bus_ev =
    Spi_Attach                    \<comment> \<open>\<open>rt_hw_spi_device_attach("spi3", "spi30", ...)\<close>\<close>
  | Spi_Configure                 \<comment> \<open>\<open>rt_spi_configure\<close>: 8 bits, mode 0, MSB first, 42 MHz\<close>
  | Pin_Mode_Output lcd_pin
  | Pin_Write lcd_pin bool
  | Spi_Send "byte list"
  | Delay_Ticks nat
  | Delay_Ms nat

record lcd =
  BACK_COLOR :: u16
  FORE_COLOR :: u16
  bus :: "bus_ev list"

text \<open>
  What the driver calls and does not decide: the number of bytes \<open>rt_spi_send\<close> reports, whether
  \<open>rt_malloc\<close> has a block (and the junk the block holds), and the address of the string buffer on the
  stack. Each may depend on all that happened before.
\<close>

record lcd_env =
  spi_sent :: "bus_ev list \<Rightarrow> byte list \<Rightarrow> nat"
  heap :: "bus_ev list \<Rightarrow> nat \<Rightarrow> (nat \<Rightarrow> byte) option"
  stack :: nat

definition WHITE :: u16 where "WHITE = 0xFFFF"
definition BLACK :: u16 where "BLACK = 0x0000"
definition RED :: u16 where "RED = 0xF800"

definition lcd_boot :: lcd where
  "lcd_boot = \<lparr>BACK_COLOR = WHITE, FORE_COLOR = BLACK, bus = []\<rparr>"

text \<open>An environment where every call succeeds, for the examples.\<close>

definition plain_env :: lcd_env where
  "plain_env = \<lparr>spi_sent = \<lambda>b bs. length bs, heap = \<lambda>b n. Some (\<lambda>i. 0), stack = 64\<rparr>"

definition emit :: "bus_ev \<Rightarrow> lcd \<Rightarrow> lcd" where
  "emit e s = s\<lparr>bus := bus s @ [e]\<rparr>"

definition pin_write :: "lcd_pin \<Rightarrow> bool \<Rightarrow> lcd \<Rightarrow> lcd" where
  "pin_write p v = emit (Pin_Write p v)"

definition spi_send :: "lcd_env \<Rightarrow> byte list \<Rightarrow> lcd \<Rightarrow> nat \<times> lcd" where
  "spi_send env bs s = (spi_sent env (bus s) bs, emit (Spi_Send bs) s)"

text \<open>\<open>rt_spi_send(spi_dev_lcd, buf, n)\<close> of a buffer: the bus reads \<open>n\<close> bytes of it.\<close>

definition spi_send_buf :: "lcd_env \<Rightarrow> byte list \<Rightarrow> nat \<Rightarrow> lcd \<Rightarrow> lcd cres" where
  "spi_send_buf env buf n s =
     (if n \<le> length buf then Inr (snd (spi_send env (take n buf) s)) else Inl Out_Of_Bounds)"

definition lcd_malloc :: "lcd_env \<Rightarrow> nat \<Rightarrow> lcd \<Rightarrow> byte list option" where
  "lcd_malloc env n s = map_option (\<lambda>junk. map junk [0..<n]) (heap env (bus s) n)"

section \<open>Register writes\<close>

definition lcd_write_cmd :: "lcd_env \<Rightarrow> byte \<Rightarrow> lcd \<Rightarrow> int \<times> lcd" where
  "lcd_write_cmd env cmd s =
     (let s = pin_write LCD_DC_PIN False s;
          (len, s) = spi_send env [cmd] s
      in (if len \<noteq> 1 then -1 else 0, s))"

definition lcd_write_data :: "lcd_env \<Rightarrow> byte \<Rightarrow> lcd \<Rightarrow> int \<times> lcd" where
  "lcd_write_data env data s =
     (let s = pin_write LCD_DC_PIN True s;
          (len, s) = spi_send env [data] s
      in (if len \<noteq> 1 then -1 else 0, s))"

definition lcd_write_half_word :: "lcd_env \<Rightarrow> u16 \<Rightarrow> lcd \<Rightarrow> int \<times> lcd" where
  "lcd_write_half_word env da s =
     (let s = pin_write LCD_DC_PIN True s;
          (len, s) = spi_send env [hi8 da, lo8 da] s
      in (if len \<noteq> 2 then -1 else 0, s))"

text \<open>A list of register writes whose results nobody looks at.\<close>

datatype lcd_reg = Cmd byte | Data byte

primrec lcd_access :: "lcd_env \<Rightarrow> lcd_reg \<Rightarrow> lcd \<Rightarrow> lcd" where
  "lcd_access env (Cmd b) s = snd (lcd_write_cmd env b s)"
| "lcd_access env (Data b) s = snd (lcd_write_data env b s)"

definition lcd_address_set :: "lcd_env \<Rightarrow> u16 \<Rightarrow> u16 \<Rightarrow> u16 \<Rightarrow> u16 \<Rightarrow> lcd \<Rightarrow> lcd" where
  "lcd_address_set env x1 y1 x2 y2 = fold (lcd_access env)
     [Cmd 0x2a, Data (hi8 x1), Data (lo8 x1), Data (hi8 x2), Data (lo8 x2),
      Cmd 0x2b, Data (hi8 y1), Data (lo8 y1), Data (hi8 y2), Data (lo8 y2),
      Cmd 0x2C]"

definition lcd_open_window ::
  "lcd_env \<Rightarrow> u16 \<Rightarrow> u16 \<Rightarrow> u16 \<Rightarrow> u16 \<Rightarrow> lcd \<Rightarrow> int \<times> lcd" where
  "lcd_open_window env x y len wide s =
     (if uint x + uint len > 240 \<or> uint y + uint wide > 240 then (-1, s)
      else (0, lcd_address_set env x y (x + len - 1) (y + wide - 1) s))"

definition lcd_set_color :: "u16 \<Rightarrow> u16 \<Rightarrow> lcd \<Rightarrow> lcd" where
  "lcd_set_color back fore s = s\<lparr>BACK_COLOR := back, FORE_COLOR := fore\<rparr>"

definition lcd_display_on :: "lcd \<Rightarrow> lcd" where
  "lcd_display_on = pin_write LCD_PWR_PIN True"

definition lcd_display_off :: "lcd \<Rightarrow> lcd" where
  "lcd_display_off = pin_write LCD_PWR_PIN False"

definition lcd_enter_sleep :: "lcd_env \<Rightarrow> lcd \<Rightarrow> lcd" where
  "lcd_enter_sleep env s =
     snd (lcd_write_cmd env 0x10 (emit (Delay_Ms 5) (pin_write LCD_PWR_PIN False s)))"

definition lcd_exit_sleep :: "lcd_env \<Rightarrow> lcd \<Rightarrow> lcd" where
  "lcd_exit_sleep env s =
     emit (Delay_Ms 120) (snd (lcd_write_cmd env 0x11 (emit (Delay_Ms 5) (pin_write LCD_PWR_PIN True s))))"

section \<open>Blocks of pixels\<close>

text \<open>\<open>buf[2 * i] = color >> 8; buf[2 * i + 1] = color\<close>\<close>

definition store_color :: "u16 \<Rightarrow> nat \<Rightarrow> byte list \<Rightarrow> byte list cres" where
  "store_color color i buf = cbind (buf_put (2 * i) (hi8 color) buf) (buf_put (2 * i + 1) (lo8 color))"

definition lcd_clear :: "lcd_env \<Rightarrow> u16 \<Rightarrow> lcd \<Rightarrow> lcd cres" where
  "lcd_clear env color s =
     (let s = lcd_address_set env 0 0 239 239 s in
      case lcd_malloc env 5760 s of
        Some buf \<Rightarrow>
          cbind (cfor [0..<2880] (store_color color) buf) (\<lambda>buf.
          cfor [0..<20] (\<lambda>i. spi_send_buf env buf 5760) (pin_write LCD_DC_PIN True s))
      | None \<Rightarrow>
          cfor [0..<240] (\<lambda>i. cfor [0..<240] (\<lambda>j. spi_send_buf env [hi8 color, lo8 color] 2))
            (pin_write LCD_DC_PIN True s))"

definition lcd_draw_point :: "lcd_env \<Rightarrow> u16 \<Rightarrow> u16 \<Rightarrow> lcd \<Rightarrow> lcd" where
  "lcd_draw_point env x y s =
     (let s = lcd_address_set env x y x y s in snd (lcd_write_half_word env (FORE_COLOR s) s))"

definition lcd_draw_point_color :: "lcd_env \<Rightarrow> u16 \<Rightarrow> u16 \<Rightarrow> u16 \<Rightarrow> lcd \<Rightarrow> lcd" where
  "lcd_draw_point_color env x y color s =
     (let s = lcd_address_set env x y x y s in snd (lcd_write_half_word env color s))"

text \<open>The \<open>while (1)\<close> of the fast fill; both numbers count bytes.\<close>

function fill_loop :: "lcd_env \<Rightarrow> u16 \<Rightarrow> nat \<Rightarrow> nat \<Rightarrow> byte list \<Rightarrow> lcd \<Rightarrow> lcd cres" where
  "fill_loop env color sz remain buf s =
     cbind (cfor [0..<sz div 2] (store_color color) buf) (\<lambda>buf.
     cbind (spi_send_buf env buf sz (pin_write LCD_DC_PIN True s)) (\<lambda>s.
     if remain = 0 then Inr s
     else if remain > 5760 then fill_loop env color sz (remain - 5760) buf s
     else fill_loop env color remain 0 buf s))"
  by pat_completeness auto
termination by (relation "measure (\<lambda>(env, color, sz, remain, buf, s). remain)") auto

declare fill_loop.simps [simp del]

definition fill_bytes :: "u16 \<Rightarrow> u16 \<Rightarrow> u16 \<Rightarrow> u16 \<Rightarrow> u32" where
  "fill_bytes x_start y_start x_end y_end =
     word_of_int ((uint x_end - uint x_start) * (uint y_end - uint y_start) * 2)"

definition lcd_fill :: "lcd_env \<Rightarrow> u16 \<Rightarrow> u16 \<Rightarrow> u16 \<Rightarrow> u16 \<Rightarrow> u16 \<Rightarrow> lcd \<Rightarrow> lcd cres" where
  "lcd_fill env x_start y_start x_end y_end color s =
     (let total = unat (fill_bytes x_start y_start x_end y_end);
          sz = (if total > 5760 then 5760 else total);
          size_remain = total - sz;
          s = lcd_address_set env x_start y_start x_end y_end s
      in case lcd_malloc env sz s of
           Some fill_buf \<Rightarrow> fill_loop env color sz size_remain fill_buf s
         | None \<Rightarrow>
             u16_for y_start (uint y_end) (\<lambda>i.
               u16_for x_start (uint x_end) (\<lambda>j s. Inr (snd (lcd_write_half_word env color s)))) s)"

text \<open>\<open>RT_ASSERT(p)\<close> comes first; the driver does not know how long the image object is.\<close>

definition lcd_show_image ::
  "lcd_env \<Rightarrow> u16 \<Rightarrow> u16 \<Rightarrow> u16 \<Rightarrow> u16 \<Rightarrow> byte list option \<Rightarrow> lcd \<Rightarrow> (int \<times> lcd) cres" where
  "lcd_show_image env x y len wide p s =
     (case p of
        None \<Rightarrow> Inl Assert_Failed
      | Some img \<Rightarrow>
          if uint x + uint len > 240 \<or> uint y + uint wide > 240 then Inr (-1, s)
          else
            (let s = lcd_address_set env x y (x + len - 1) (y + wide - 1) s in
             cbind (spi_send_buf env img (unat len * unat wide * 2) (pin_write LCD_DC_PIN True s))
               (\<lambda>s. Inr (0, s))))"

section \<open>Initialisation\<close>

definition rt_hw_lcd_config :: "lcd \<Rightarrow> lcd" where
  "rt_hw_lcd_config = emit Spi_Configure"

definition lcd_gpio_init :: "lcd \<Rightarrow> lcd" where
  "lcd_gpio_init s = fold (\<lambda>f. f)
     [rt_hw_lcd_config,
      emit (Pin_Mode_Output LCD_DC_PIN),
      emit (Pin_Mode_Output LCD_RES_PIN),
      emit (Pin_Mode_Output LCD_PWR_PIN),
      pin_write LCD_PWR_PIN False,
      pin_write LCD_RES_PIN False,
      emit (Delay_Ticks (1000 div 10)),
      pin_write LCD_RES_PIN True] s"

definition init_table :: "lcd_reg list" where
  "init_table =
     [Cmd 0x36, Data 0x00, Cmd 0x3A, Data 0x65,
      Cmd 0xB2, Data 0x0C, Data 0x0C, Data 0x00, Data 0x33, Data 0x33,
      Cmd 0xB7, Data 0x35, Cmd 0xBB, Data 0x19, Cmd 0xC0, Data 0x2C,
      Cmd 0xC2, Data 0x01, Cmd 0xC3, Data 0x12, Cmd 0xC4, Data 0x20,
      Cmd 0xC6, Data 0x0F, Cmd 0xD0, Data 0xA4, Data 0xA1,
      Cmd 0xE0, Data 0xD0, Data 0x04, Data 0x0D, Data 0x11, Data 0x13, Data 0x2B, Data 0x3F,
        Data 0x54, Data 0x4C, Data 0x18, Data 0x0D, Data 0x0B, Data 0x1F, Data 0x23,
      Cmd 0xE1, Data 0xD0, Data 0x04, Data 0x0C, Data 0x11, Data 0x13, Data 0x2C, Data 0x3F,
        Data 0x44, Data 0x51, Data 0x2F, Data 0x1F, Data 0x1F, Data 0x20, Data 0x23,
      Cmd 0x21, Cmd 0x11]"

definition rt_hw_lcd_init :: "lcd_env \<Rightarrow> lcd \<Rightarrow> lcd cres" where
  "rt_hw_lcd_init env s =
     (let s = lcd_gpio_init (emit Spi_Attach s);
          s = emit (Delay_Ms 100) (fold (lcd_access env) init_table s)
      in cbind (lcd_clear env WHITE s) (\<lambda>s.
         Inr (snd (lcd_write_cmd env 0x29 (pin_write LCD_PWR_PIN True s)))))"

section \<open>What the panel sees\<close>

fun wire :: "bool \<Rightarrow> bus_ev list \<Rightarrow> (bool \<times> byte) list" where
  "wire dc [] = []"
| "wire dc (Pin_Write LCD_DC_PIN v # es) = wire v es"
| "wire dc (Spi_Send bs # es) = map (Pair dc) bs @ wire dc es"
| "wire dc (e # es) = wire dc es"

fun dc_level :: "bool \<Rightarrow> bus_ev list \<Rightarrow> bool" where
  "dc_level dc [] = dc"
| "dc_level dc (Pin_Write LCD_DC_PIN v # es) = dc_level v es"
| "dc_level dc (e # es) = dc_level dc es"

lemma wire_append: "wire dc (es @ fs) = wire dc es @ wire (dc_level dc es) fs"
  by (induction dc es rule: wire.induct) simp_all

lemma dc_level_append: "dc_level dc (es @ fs) = dc_level (dc_level dc es) fs"
  by (induction dc es rule: dc_level.induct) simp_all

definition sent :: "lcd \<Rightarrow> (bool \<times> byte) list" where
  "sent s = wire False (bus s)"

definition dc :: "lcd \<Rightarrow> bool" where
  "dc s = dc_level False (bus s)"

text \<open>Bus traffic: the SPI transfers and the pin that tells commands from data.\<close>

fun traffic :: "bus_ev \<Rightarrow> bool" where
  "traffic (Spi_Send bs) = True"
| "traffic (Pin_Write p v) = (p = LCD_DC_PIN)"
| "traffic e = False"

text \<open>
  \<open>emits s w s'\<close>: from \<open>s\<close> to \<open>s'\<close> the driver did nothing but bus traffic, the bytes \<open>w\<close> went over the
  wire, and the colours stayed.
\<close>

definition emits :: "lcd \<Rightarrow> (bool \<times> byte) list \<Rightarrow> lcd \<Rightarrow> bool" where
  "emits s w s' \<longleftrightarrow>
     (\<exists>es. bus s' = bus s @ es \<and> list_all traffic es \<and> wire (dc s) es = w) \<and>
     FORE_COLOR s' = FORE_COLOR s \<and> BACK_COLOR s' = BACK_COLOR s"

lemma emits_sent: "emits s w s' \<Longrightarrow> sent s' = sent s @ w"
  by (auto simp: emits_def sent_def wire_append dc_def)

lemma emits_refl [simp, intro]: "emits s [] s"
  by (simp add: emits_def)

lemma emits_trans: "emits s v t \<Longrightarrow> emits t w u \<Longrightarrow> emits s (v @ w) u"
  unfolding emits_def dc_def by (auto simp: wire_append dc_level_append)

lemma dc_pin_write [simp]: "dc (pin_write LCD_DC_PIN v s) = v"
  by (simp add: dc_def pin_write_def emit_def dc_level_append)

lemma emits_dc [simp]: "emits s [] (pin_write LCD_DC_PIN v s)"
  by (simp add: emits_def pin_write_def emit_def)

lemma emits_spi_send: "emits s (map (Pair (dc s)) bs) (snd (spi_send env bs s))"
  by (simp add: emits_def spi_send_def emit_def)

lemma dc_spi_send [simp]: "dc (snd (spi_send env bs s)) = dc s"
  by (simp add: dc_def spi_send_def emit_def dc_level_append)

lemma emits_after_dc:
  "emits s (map (Pair v) bs) (snd (spi_send env bs (pin_write LCD_DC_PIN v s)))"
  using emits_trans[OF emits_dc emits_spi_send, of s v bs env] by simp

definition half_word :: "u16 \<Rightarrow> (bool \<times> byte) list" where
  "half_word c = [(True, hi8 c), (True, lo8 c)]"

definition pixels :: "u16 list \<Rightarrow> (bool \<times> byte) list" where
  "pixels cs = concat (map half_word cs)"

definition window :: "u16 \<Rightarrow> u16 \<Rightarrow> u16 \<Rightarrow> u16 \<Rightarrow> (bool \<times> byte) list" where
  "window x1 y1 x2 y2 =
     (False, 0x2a) # half_word x1 @ half_word x2 @ (False, 0x2b) # half_word y1 @ half_word y2 @
     [(False, 0x2C)]"

lemma pixels_Nil [simp]: "pixels [] = []"
  and pixels_Cons: "pixels (c # cs) = half_word c @ pixels cs"
  and pixels_append: "pixels (cs @ ds) = pixels cs @ pixels ds"
  by (simp_all add: pixels_def)

lemma length_pixels [simp]: "length (pixels cs) = 2 * length cs"
  by (induction cs) (simp_all add: pixels_Cons half_word_def)

lemma snd_lcd_write_cmd:
  "snd (lcd_write_cmd env b s) = snd (spi_send env [b] (pin_write LCD_DC_PIN False s))"
  and snd_lcd_write_data:
  "snd (lcd_write_data env b s) = snd (spi_send env [b] (pin_write LCD_DC_PIN True s))"
  and snd_lcd_write_half_word:
  "snd (lcd_write_half_word env c s) = snd (spi_send env [hi8 c, lo8 c] (pin_write LCD_DC_PIN True s))"
  by (simp_all add: lcd_write_cmd_def lcd_write_data_def lcd_write_half_word_def spi_send_def Let_def)

lemma emits_half_word: "emits s (half_word c) (snd (lcd_write_half_word env c s))"
  using emits_after_dc[of s True "[hi8 c, lo8 c]" env]
  by (simp add: snd_lcd_write_half_word half_word_def)

fun reg_wire :: "lcd_reg \<Rightarrow> bool \<times> byte" where
  "reg_wire (Cmd b) = (False, b)"
| "reg_wire (Data b) = (True, b)"

lemma emits_access: "emits s [reg_wire a] (lcd_access env a s)"
  using emits_after_dc[of s _ "[_]" env]
  by (cases a) (auto simp: snd_lcd_write_cmd snd_lcd_write_data)

lemma emits_accesses: "emits s (map reg_wire as) (fold (lcd_access env) as s)"
proof (induction "as" arbitrary: s)
  case (Cons a "as")
  show ?case using emits_trans[OF emits_access Cons.IH] by simp
qed simp

lemma emits_address_set: "emits s (window x1 y1 x2 y2) (lcd_address_set env x1 y1 x2 y2 s)"
  using emits_accesses[of s "[Cmd 0x2a, Data (hi8 x1), Data (lo8 x1), Data (hi8 x2), Data (lo8 x2),
      Cmd 0x2b, Data (hi8 y1), Data (lo8 y1), Data (hi8 y2), Data (lo8 y2), Cmd 0x2C]" env]
  unfolding lcd_address_set_def window_def half_word_def by simp

lemma address_set_colors [simp]:
  "FORE_COLOR (lcd_address_set env x1 y1 x2 y2 s) = FORE_COLOR s"
  "BACK_COLOR (lcd_address_set env x1 y1 x2 y2 s) = BACK_COLOR s"
  using emits_address_set by (simp_all add: emits_def)

text \<open>A loop emits what its rounds emit, in order.\<close>

lemma emits_cfor:
  assumes "\<And>i t. i \<in> set is \<Longrightarrow> FORE_COLOR t = FORE_COLOR s \<Longrightarrow> BACK_COLOR t = BACK_COLOR s \<Longrightarrow>
     Q t \<Longrightarrow> \<exists>t'. f i t = Inr t' \<and> emits t (w i) t' \<and> Q t'"
    and "Q s"
  shows "\<exists>s'. cfor is f s = Inr s' \<and> emits s (concat (map w is)) s' \<and> Q s'"
  using assms
proof (induction "is" arbitrary: s)
  case (Cons i "is")
  from Cons.prems(1)[of i s] Cons.prems(2) obtain t
    where t: "f i s = Inr t" "emits s (w i) t" "Q t" by auto
  with Cons.prems(1) have "\<exists>s'. cfor is f t = Inr s' \<and> emits t (concat (map w is)) s' \<and> Q s'"
    by (intro Cons.IH) (auto simp: emits_def)
  with t show ?case by (auto intro: emits_trans)
qed simp

lemma pixel_bytes: "concat (map (\<lambda>c. [hi8 c, lo8 c]) cs) = bs \<Longrightarrow> map (Pair True) bs = pixels cs"
  by (auto simp: pixels_def half_word_def[abs_def] map_concat comp_def)

definition color_bytes :: "u16 list \<Rightarrow> byte list" where
  "color_bytes cs = concat (map (\<lambda>c. [hi8 c, lo8 c]) cs)"

lemma length_color_bytes [simp]: "length (color_bytes cs) = 2 * length cs"
  by (induction cs) (simp_all add: color_bytes_def)

lemma map_color_bytes: "map (Pair True) (color_bytes cs) = pixels cs"
  by (rule pixel_bytes) (simp add: color_bytes_def)

lemma color_bytes_snoc: "color_bytes (cs @ [c]) = color_bytes cs @ [hi8 c, lo8 c]"
  by (simp add: color_bytes_def)

lemma store_color_eq:
  assumes "2 * length cs + 1 < length buf"
  shows "store_color c (length cs) (overlay 0 (color_bytes cs) buf) =
     Inr (overlay 0 (color_bytes (cs @ [c])) buf)"
  using assms overlay_snoc[of 0 "color_bytes cs" buf "hi8 c"]
    overlay_snoc[of 0 "color_bytes cs @ [hi8 c]" buf "lo8 c"]
  by (simp add: store_color_def color_bytes_snoc)

lemma store_colors_eq:
  "2 * n \<le> length buf \<Longrightarrow>
   cfor [0..<n] (store_color c) buf = Inr (overlay 0 (color_bytes (replicate n c)) buf)"
proof (induction n)
  case (Suc n)
  then show ?case
    using store_color_eq[of "replicate n c" buf c]
    by (simp add: cfor_append replicate_append_same)
qed (simp add: color_bytes_def)

lemma take_color_bytes:
  "2 * length cs \<le> length buf \<Longrightarrow>
   take (2 * length cs) (overlay 0 (color_bytes cs) buf) = color_bytes cs"
  using take_overlay[of 0 "color_bytes cs" buf] by simp

definition pixel_run :: "nat \<Rightarrow> u16 \<Rightarrow> (bool \<times> byte) list" where
  "pixel_run n c = pixels (replicate n c)"

lemma pixel_run_0 [simp]: "pixel_run 0 c = []"
  by (simp add: pixel_run_def)

lemma pixel_run_add: "pixel_run (m + n) c = pixel_run m c @ pixel_run n c"
  by (simp add: pixel_run_def replicate_add pixels_append)

lemma length_pixel_run [simp]: "length (pixel_run n c) = 2 * n"
  by (simp add: pixel_run_def)

lemma pixel_runs: "concat (map (\<lambda>i. pixel_run k c) is) = pixel_run (length is * k) c"
  by (induction "is") (simp_all add: pixel_run_add)

lemma emits_send_colors:
  assumes "take n buf = color_bytes cs" "n \<le> length buf" "dc s"
  shows "\<exists>s'. spi_send_buf env buf n s = Inr s' \<and> emits s (pixels cs) s' \<and> dc s'"
  using assms emits_spi_send[of s "color_bytes cs" env]
  by (auto simp: spi_send_buf_def map_color_bytes)

lemma lcd_malloc_length: "lcd_malloc env n s = Some buf \<Longrightarrow> length buf = n"
  by (auto simp: lcd_malloc_def)

text \<open>\<open>lcd_clear\<close>, on either path.\<close>

lemma clear_rounds:
  assumes "take n buf = color_bytes (replicate k c)" "n \<le> length buf"
  shows "\<exists>s'. cfor ks (\<lambda>i. spi_send_buf env buf n) (pin_write LCD_DC_PIN True s) = Inr s' \<and>
    emits s (pixel_run (length ks * k) c) s' \<and> dc s'"
proof -
  have "\<exists>s'. cfor ks (\<lambda>i. spi_send_buf env buf n) (pin_write LCD_DC_PIN True s) = Inr s' \<and>
    emits (pin_write LCD_DC_PIN True s) (concat (map (\<lambda>i. pixel_run k c) ks)) s' \<and> dc s'"
    by (rule emits_cfor) (auto simp: pixel_run_def intro!: emits_send_colors assms)
  then show ?thesis using emits_trans[OF emits_dc] by (fastforce simp: pixel_runs)
qed

lemma clear_points:
  assumes "dc s"
  shows "\<exists>s'. cfor ks (\<lambda>i. cfor js (\<lambda>j. spi_send_buf env [hi8 c, lo8 c] 2)) s = Inr s' \<and>
    emits s (pixel_run (length ks * length js) c) s' \<and> dc s'"
proof -
  have one: "take 2 [hi8 c, lo8 c] = color_bytes [c]" by (simp add: color_bytes_def)
  have row: "\<exists>t'. cfor js (\<lambda>j. spi_send_buf env [hi8 c, lo8 c] 2) t = Inr t' \<and>
    emits t (concat (map (\<lambda>j. pixel_run 1 c) js)) t' \<and> dc t'" if "dc t" for t
    by (rule emits_cfor) (auto simp: pixel_run_def that intro!: emits_send_colors[OF one])
  have "\<exists>s'. cfor ks (\<lambda>i. cfor js (\<lambda>j. spi_send_buf env [hi8 c, lo8 c] 2)) s = Inr s' \<and>
    emits s (concat (map (\<lambda>i. concat (map (\<lambda>j. pixel_run 1 c) js)) ks)) s' \<and> dc s'"
    by (rule emits_cfor) (use row assms in auto)
  then show ?thesis by (simp add: pixel_runs)
qed

lemma lcd_clear_emits:
  "\<exists>s'. lcd_clear env c s = Inr s' \<and>
        emits s (window 0 0 239 239 @ pixel_run (240 * 240) c) s'"
proof -
  define s1 where "s1 = lcd_address_set env 0 0 239 239 s"
  have s1: "emits s (window 0 0 239 239) s1" by (simp add: s1_def emits_address_set)
  have ups: "length [0..<20] = 20" "length [0..<240] = 240" by (simp_all only: length_upt)
  have "\<exists>s'. lcd_clear env c s = Inr s' \<and> emits s1 (pixel_run (240 * 240) c) s'"
  proof (cases "lcd_malloc env 5760 s1")
    case None
    have "\<exists>s'. cfor [0..<240] (\<lambda>i. cfor [0..<240] (\<lambda>j. spi_send_buf env [hi8 c, lo8 c] 2))
        (pin_write LCD_DC_PIN True s1) = Inr s' \<and> emits s1 (pixel_run (240 * 240) c) s'"
      using clear_points[where s = "pin_write LCD_DC_PIN True s1" and env = env and c = c
          and ks = "[0..<240]" and js = "[0..<240]"]
        emits_trans[OF emits_dc[of s1 True]]
      unfolding ups by fastforce
    then show ?thesis by (simp only: lcd_clear_def Let_def s1_def[symmetric] None option.case)
  next
    case (Some buf)
    then have len: "length buf = 5760" by (rule lcd_malloc_length)
    define buf' where "buf' = overlay 0 (color_bytes (replicate 2880 c)) buf"
    have fill: "cfor [0..<2880] (store_color c) buf = Inr buf'"
      unfolding buf'_def by (rule store_colors_eq) (simp add: len)
    have "take (2 * length (replicate 2880 c)) buf' = color_bytes (replicate 2880 c)"
      unfolding buf'_def by (rule take_color_bytes) (simp add: len)
    then have "take 5760 buf' = color_bytes (replicate 2880 c)" by simp
    from clear_rounds[OF this, where env = env and s = s1 and ks = "[0..<20]"]
    have "\<exists>s'. cfor [0..<20] (\<lambda>i. spi_send_buf env buf' 5760) (pin_write LCD_DC_PIN True s1) = Inr s' \<and>
        emits s1 (pixel_run (20 * 2880) c) s'"
      unfolding ups by (simp only: buf'_def length_overlay len) blast
    then show ?thesis
      by (simp only: lcd_clear_def Let_def s1_def[symmetric] Some option.case fill cbind_Inr) simp
  qed
  then show ?thesis using emits_trans[OF s1] by blast
qed

lemma emits_bus:
  "emits s w s' \<Longrightarrow> \<exists>es. bus s' = bus s @ es \<and> list_all traffic es \<and> wire (dc s) es = w"
  by (auto simp: emits_def)

section \<open>Fills\<close>

lemma fill_loop_emits:
  assumes "sz = 2 * k" "remain = 2 * m" "sz \<le> length buf" "remain = 0 \<or> sz = 5760"
  shows "\<exists>s'. fill_loop env c sz remain buf s = Inr s' \<and> emits s (pixel_run (k + m) c) s'"
  using assms
proof (induction env c sz remain buf s arbitrary: k m rule: fill_loop.induct)
  case (1 env c sz remain buf s)
  define buf' where "buf' = overlay 0 (color_bytes (replicate k c)) buf"
  have fill: "cfor [0..<sz div 2] (store_color c) buf = Inr buf'"
    using 1(3,5) store_colors_eq[of k buf c] by (simp add: buf'_def)
  have "take sz buf' = color_bytes (replicate k c)"
    using 1(3,5) take_color_bytes[of "replicate k c" buf] by (simp add: buf'_def)
  then obtain t where t: "spi_send_buf env buf' sz (pin_write LCD_DC_PIN True s) = Inr t"
      and st: "emits s (pixel_run k c) t"
    using emits_send_colors[of sz buf' "replicate k c" "pin_write LCD_DC_PIN True s" env] 1(5)
      emits_trans[OF emits_dc[of s True]]
    by (fastforce simp: buf'_def pixel_run_def)
  show ?case
  proof (cases "remain = 0")
    case True
    then show ?thesis using 1(4) st by (subst fill_loop.simps) (simp add: fill t)
  next
    case False
    with 1(6) have sz: "sz = 5760" by simp
    show ?thesis
    proof (cases "remain > 5760")
      case True
      then have "\<exists>s'. fill_loop env c sz (remain - 5760) buf' t = Inr s' \<and>
          emits t (pixel_run (k + (m - 2880)) c) s'"
        using 1(3-6) sz by (intro 1(1)[OF fill t]) (auto simp: buf'_def)
      moreover have "k + m = k + (k + (m - 2880))" using True sz 1(3,4) by simp
      ultimately show ?thesis
        using True emits_trans[OF st] by (subst fill_loop.simps) (fastforce simp: fill t pixel_run_add)
    next
      case ge: False
      then have "\<exists>s'. fill_loop env c remain 0 buf' t = Inr s' \<and> emits t (pixel_run (m + 0) c) s'"
        using 1(3-6) sz False by (intro 1(2)[OF fill t]) (auto simp: buf'_def)
      then show ?thesis
        using ge False emits_trans[OF st] by (subst fill_loop.simps) (fastforce simp: fill t pixel_run_add)
    qed
  qed
qed

lemma fill_bytes_eq:
  assumes "unat xs \<le> unat xe" "unat xe < 240" "unat ys \<le> unat ye" "unat ye < 240"
  shows "unat (fill_bytes xs ys xe ye) = 2 * ((unat xe - unat xs) * (unat ye - unat ys))"
proof -
  define dx dy where "dx = unat xe - unat xs" and "dy = unat ye - unat ys"
  have "uint xe - uint xs = int dx" "uint ye - uint ys = int dy"
    using assms by (simp_all add: dx_def dy_def)
  then have "fill_bytes xs ys xe ye = word_of_nat (2 * (dx * dy))"
    by (simp add: fill_bytes_def mult.commute)
  then have "unat (fill_bytes xs ys xe ye) = 2 * (dx * dy) mod 2 ^ 32"
    by (simp only: unsigned_of_nat take_bit_eq_mod) simp
  moreover have "dx * dy \<le> 240 * 240" using assms by (intro mult_le_mono) (simp_all add: dx_def dy_def)
  ultimately show ?thesis unfolding dx_def[symmetric] dy_def[symmetric]
    by simp
qed

lemma slow_fill_emits:
  assumes "unat xe < 65535" "unat ye < 65535"
  shows "\<exists>s'. u16_for ys (uint ye) (\<lambda>i. u16_for xs (uint xe)
             (\<lambda>j s. Inr (snd (lcd_write_half_word env c s)))) s = Inr s' \<and>
           emits s (pixel_run ((unat ye + 1 - unat ys) * (unat xe + 1 - unat xs)) c) s'"
proof -
  have len: "length (u16_upto m n) = n - m" for m n by (simp add: u16_upto_def)
  have b: "uint xe < 65535" "uint ye < 65535" using assms uint_nat[of xe] uint_nat[of ye] by linarith+
  have n: "nat (uint xe + 1) = unat xe + 1" "nat (uint ye + 1) = unat ye + 1"
    by (simp_all add: nat_add_distrib)
  have row: "\<exists>t'. u16_for xs (uint xe) (\<lambda>j s. Inr (snd (lcd_write_half_word env c s))) t = Inr t' \<and>
      emits t (pixel_run (unat xe + 1 - unat xs) c) t' \<and> True" for t
  proof -
    have "\<exists>t'. cfor (u16_upto (unat xs) (unat xe + 1))
          (\<lambda>j s. Inr (snd (lcd_write_half_word env c s))) t = Inr t' \<and>
        emits t (concat (map (\<lambda>j. pixel_run 1 c) (u16_upto (unat xs) (unat xe + 1)))) t' \<and> True"
      by (rule emits_cfor) (auto simp: pixel_run_def pixels_Cons emits_half_word)
    then show ?thesis by (simp add: u16_for_eq[OF b(1)] n pixel_runs len)
  qed
  have "\<exists>s'. cfor (u16_upto (unat ys) (unat ye + 1))
        (\<lambda>i. u16_for xs (uint xe) (\<lambda>j s. Inr (snd (lcd_write_half_word env c s)))) s = Inr s' \<and>
      emits s (concat (map (\<lambda>i. pixel_run (unat xe + 1 - unat xs) c)
        (u16_upto (unat ys) (unat ye + 1)))) s' \<and> True"
    by (rule emits_cfor) (use row in auto)
  then show ?thesis by (simp add: u16_for_eq[OF b(2)] n pixel_runs len)
qed

lemma lcd_fill_emits:
  assumes "unat xs \<le> unat xe" "unat xe < 240" "unat ys \<le> unat ye" "unat ye < 240"
  shows "\<exists>s'. lcd_fill env xs ys xe ye c s = Inr s' \<and>
    emits s (window xs ys xe ye @ pixel_run
      (if lcd_malloc env (min 5760 (2 * ((unat xe - unat xs) * (unat ye - unat ys))))
            (lcd_address_set env xs ys xe ye s) = None
       then (unat ye + 1 - unat ys) * (unat xe + 1 - unat xs)
       else (unat xe - unat xs) * (unat ye - unat ys)) c) s'"
proof -
  define n where "n = (unat xe - unat xs) * (unat ye - unat ys)"
  define s1 where "s1 = lcd_address_set env xs ys xe ye s"
  have s1: "emits s (window xs ys xe ye) s1" by (simp add: s1_def emits_address_set)
  have fb: "unat (fill_bytes xs ys xe ye) = 2 * n" using assms by (simp add: fill_bytes_eq n_def)
  have mn: "(if 2 * n > 5760 then 5760 else 2 * n) = min 5760 (2 * n)" by simp
  have eq: "lcd_fill env xs ys xe ye c s = (case lcd_malloc env (min 5760 (2 * n)) s1 of
      Some buf \<Rightarrow> fill_loop env c (min 5760 (2 * n)) (2 * n - min 5760 (2 * n)) buf s1
    | None \<Rightarrow> u16_for ys (uint ye) (\<lambda>i. u16_for xs (uint xe)
             (\<lambda>j s. Inr (snd (lcd_write_half_word env c s)))) s1)"
    by (simp only: lcd_fill_def Let_def fb mn s1_def[symmetric])
  show ?thesis
  proof (cases "lcd_malloc env (min 5760 (2 * n)) s1")
    case None
    have "\<exists>s'. lcd_fill env xs ys xe ye c s = Inr s' \<and>
        emits s1 (pixel_run ((unat ye + 1 - unat ys) * (unat xe + 1 - unat xs)) c) s'"
      unfolding eq None option.case by (rule slow_fill_emits) (use assms in linarith)+
    then show ?thesis
      unfolding n_def[symmetric] s1_def[symmetric] using None emits_trans[OF s1] by auto
  next
    case (Some buf)
    have "\<exists>s'. fill_loop env c (min 5760 (2 * n)) (2 * n - min 5760 (2 * n)) buf s1 = Inr s' \<and>
        emits s1 (pixel_run (min 2880 n + (n - min 2880 n)) c) s'"
      using lcd_malloc_length[OF Some] by (intro fill_loop_emits) (auto simp: min_def)
    then have "\<exists>s'. lcd_fill env xs ys xe ye c s = Inr s' \<and> emits s1 (pixel_run n c) s'"
      unfolding eq Some by simp
    then show ?thesis
      unfolding n_def[symmetric] s1_def[symmetric] using Some emits_trans[OF s1] by auto
  qed
qed

lemma fill_diverges:
  assumes "unat xe < 65535"
  shows "u16_for ys 65535 (\<lambda>i. u16_for xs (uint xe)
     (\<lambda>j s. Inr (snd (lcd_write_half_word env c s)))) s = Inl Diverges"
proof (rule u16_for_diverges[where P = "\<lambda>s. True"])
  fix i :: u16 and s :: lcd
  have b: "uint xe < 65535" using assms uint_nat[of xe] by linarith
  have "u16_for xs (uint xe) (\<lambda>j s. Inr (snd (lcd_write_half_word env c s))) s =
      Inr (fold (\<lambda>j s. snd (lcd_write_half_word env c s)) (u16_upto (unat xs) (nat (uint xe + 1))) s)"
    unfolding u16_for_eq[OF b] by (rule cfor_pure) simp
  then show "\<exists>s'. u16_for xs (uint xe) (\<lambda>j s. Inr (snd (lcd_write_half_word env c s))) s = Inr s' \<and> True"
    by blast
qed simp_all

section \<open>Windows and images\<close>

text \<open>The last row or column of a window that fits on the panel is on the panel.\<close>

lemma window_end:
  fixes x len :: u16
  assumes "uint x + uint len \<le> 240" "0 < len"
  shows "unat (x + len - 1) = unat x + unat len - 1"
proof -
  have l: "1 \<le> unat len" using assms(2) unfolding word_less_nat_alt by simp
  have b: "unat x + unat len \<le> 240" using assms(1) uint_nat[of x] uint_nat[of len] by linarith
  then have "unat (x + len) = unat x + unat len"
    unfolding unat_word_ariths by (intro mod_less) simp
  moreover from this l have "x + len \<noteq> 0" by (metis add_is_0 not_one_le_zero unat_0)
  ultimately show ?thesis by (simp add: unat_minus_one)
qed

lemma lcd_open_window_emits:
  "uint x + uint len \<le> 240 \<Longrightarrow> uint y + uint wide \<le> 240 \<Longrightarrow>
   \<exists>s'. lcd_open_window env x y len wide s = (0, s') \<and>
     emits s (window x y (x + len - 1) (y + wide - 1)) s'"
  by (simp add: lcd_open_window_def emits_address_set)

lemma lcd_open_window_refuses:
  "\<not> (uint x + uint len \<le> 240 \<and> uint y + uint wide \<le> 240) \<Longrightarrow>
   lcd_open_window env x y len wide s = (-1, s)"
  by (auto simp: lcd_open_window_def)

lemma lcd_show_image_emits:
  assumes "uint x + uint len \<le> 240" "uint y + uint wide \<le> 240"
    and "unat len * unat wide * 2 \<le> length img"
  shows "\<exists>s'. lcd_show_image env x y len wide (Some img) s = Inr (0, s') \<and>
     emits s (window x y (x + len - 1) (y + wide - 1) @
              map (Pair True) (take (unat len * unat wide * 2) img)) s'"
  using assms emits_trans[OF emits_address_set emits_after_dc]
  by (simp add: lcd_show_image_def spi_send_buf_def Let_def)

text \<open>The driver provides the panel interface.\<close>

definition draw_pixel :: "lcd_env \<Rightarrow> u16 \<Rightarrow> lcd \<Rightarrow> lcd" where
  "draw_pixel env c s = snd (lcd_write_half_word env c s)"

definition cell_window :: "u16 \<Rightarrow> u16 \<Rightarrow> u16 \<Rightarrow> u16 \<Rightarrow> (bool \<times> byte) list" where
  "cell_window x y l w = window x y (x + l - 1) (y + w - 1)"

interpretation st7789: window_panel emits "draw_pixel env" half_word
    "lcd_open_window env" cell_window 240 240 for env
proof (unfold_locales, goal_cases)
  case (2 s v t w u)
  then show ?case by (rule emits_trans)
qed (auto simp: draw_pixel_def emits_half_word lcd_open_window_def cell_window_def emits_address_set)

section \<open>Properties\<close>

text \<open>C30. \<open>lcd_clear\<close> always returns, and puts the whole panel window and exactly 240 * 240 pixels of
  the colour on the wire, whether or not there is memory for its block buffer.\<close>

theorem lcd_clear_fills_panel:
  "\<exists>s'. lcd_clear env c s = Inr s' \<and>
        emits s (window 0 0 239 239 @ pixel_run (240 * 240) c) s'"
  by (rule lcd_clear_emits)

text \<open>C31. \<open>lcd_fill\<close> of a rectangle on the panel: the window it opens includes both corners, so it has
  \<open>(dx + 1) * (dy + 1)\<close> pixels. The slow path (no memory) sends that many; the fast path sends only
  \<open>dx * dy\<close>, and leaves the last \<open>dx + dy + 1\<close> pixels of the window as they were.\<close>

theorem lcd_fill_pixels:
  assumes "unat xs + dx = unat xe" "unat xe < 240" "unat ys + dy = unat ye" "unat ye < 240"
  shows "\<exists>s' n. lcd_fill env xs ys xe ye c s = Inr s' \<and>
    emits s (window xs ys xe ye @ pixel_run n c) s' \<and>
    (if lcd_malloc env (min 5760 (2 * (dx * dy))) (lcd_address_set env xs ys xe ye s) = None
     then n = (dx + 1) * (dy + 1)
     else n + (dx + dy + 1) = (dx + 1) * (dy + 1))"
proof -
  have d: "unat xe - unat xs = dx" "unat ye - unat ys = dy"
      "unat xe + 1 - unat xs = dx + 1" "unat ye + 1 - unat ys = dy + 1"
    using assms by linarith+
  have "unat xs \<le> unat xe" "unat ys \<le> unat ye" using assms by linarith+
  from lcd_fill_emits[OF this(1) assms(2) this(2) assms(4), of env c s] show ?thesis
    unfolding d mult.commute[of "dy + 1"] by (auto split: if_splits)
qed

lemma lcd_fill_pixels_witness:
  "\<exists>s' n. lcd_fill plain_env
      10 20 12 21 RED lcd_boot = Inr s' \<and>
    emits lcd_boot (window 10 20 12 21 @ pixel_run n RED) s' \<and> n = 2"
  using lcd_fill_pixels[of 10 2 12 20 1 21
      plain_env RED lcd_boot]
  by (simp add: lcd_malloc_def plain_env_def)

text \<open>\<open>lcd_open_window\<close> opens a window exactly when it fits on the panel, and then its last column
  and row are on the panel and the window has \<open>length * wide\<close> pixels; otherwise it reports the error and
  touches nothing.\<close>

theorem lcd_open_window_fits:
  assumes "0 < len" "0 < wide"
  shows "if uint x + uint len \<le> 240 \<and> uint y + uint wide \<le> 240
    then \<exists>s' x2 y2. lcd_open_window env x y len wide s = (0, s') \<and> emits s (window x y x2 y2) s' \<and>
      unat x2 < 240 \<and> unat y2 < 240 \<and>
      (unat x2 + 1 - unat x) * (unat y2 + 1 - unat y) = unat len * unat wide
    else lcd_open_window env x y len wide s = (-1, s)"
proof (cases "uint x + uint len \<le> 240 \<and> uint y + uint wide \<le> 240")
  case True
  have l: "1 \<le> unat len" "1 \<le> unat wide" using assms unfolding word_less_nat_alt by simp_all
  have x2: "unat (x + len - 1) = unat x + unat len - 1" "unat (y + wide - 1) = unat y + unat wide - 1"
    using True assms by (simp_all add: window_end)
  have "unat x + unat len \<le> 240" "unat y + unat wide \<le> 240"
    using True uint_nat[of x] uint_nat[of len] uint_nat[of y] uint_nat[of wide] by linarith+
  with l have "unat (x + len - 1) < 240 \<and> unat (y + wide - 1) < 240 \<and>
      (unat (x + len - 1) + 1 - unat x) * (unat (y + wide - 1) + 1 - unat y) = unat len * unat wide"
    unfolding x2 by auto
  with lcd_open_window_emits[of x len y wide env s] True show ?thesis
    by simp blast
next
  case False
  then show ?thesis unfolding if_not_P[OF False] by (rule lcd_open_window_refuses)
qed

lemma lcd_open_window_fits_witness:
  "lcd_open_window plain_env 200 0 41 1 lcd_boot = (-1, lcd_boot)"
  using lcd_open_window_fits[of 41 1 200 0 plain_env lcd_boot] by simp

text \<open>\<open>lcd_show_image\<close> of an image on the panel puts its window and the first
  \<open>length * wide * 2\<close> bytes of the image on the wire, and reads past the image when it is shorter.\<close>

theorem lcd_show_image_bytes:
  assumes "uint x + uint len \<le> 240" "uint y + uint wide \<le> 240"
  shows "if unat len * unat wide * 2 \<le> length img
    then \<exists>s'. lcd_show_image env x y len wide (Some img) s = Inr (0, s') \<and>
      emits s (window x y (x + len - 1) (y + wide - 1) @
               map (Pair True) (take (unat len * unat wide * 2) img)) s'
    else lcd_show_image env x y len wide (Some img) s = Inl Out_Of_Bounds"
  using assms lcd_show_image_emits[OF assms]
  by (auto simp: lcd_show_image_def spi_send_buf_def Let_def)

lemma lcd_show_image_bytes_witness:
  "\<exists>s'. lcd_show_image plain_env 5 6 1 2 (Some [1, 2, 3, 4, 5]) lcd_boot = Inr (0, s') \<and>
      emits lcd_boot (window 5 6 5 7 @ [(True, 1), (True, 2), (True, 3), (True, 4)]) s'"
  using lcd_show_image_bytes[of 5 1 6 2 "[1, 2, 3, 4, 5]" plain_env lcd_boot] by simp

text \<open>C32. Initialisation: the backlight is off and the panel reset for 100 ms before the first register
  write; the register table goes out as written; the backlight comes on only after the 100 ms of
  settling and after the whole panel was cleared to white, and display-on is the last command.\<close>

theorem rt_hw_lcd_init_order:
  "\<exists>s' table clear. rt_hw_lcd_init env s = Inr s' \<and>
     bus s' = bus s @
       [Spi_Attach, Spi_Configure, Pin_Mode_Output LCD_DC_PIN, Pin_Mode_Output LCD_RES_PIN,
        Pin_Mode_Output LCD_PWR_PIN, Pin_Write LCD_PWR_PIN False, Pin_Write LCD_RES_PIN False,
        Delay_Ticks 100, Pin_Write LCD_RES_PIN True] @ table @ [Delay_Ms 100] @ clear @
       [Pin_Write LCD_PWR_PIN True, Pin_Write LCD_DC_PIN False, Spi_Send [0x29]] \<and>
     list_all traffic (table @ clear) \<and>
     wire (dc s) table = map reg_wire init_table \<and>
     wire (dc_level (dc s) table) clear = window 0 0 239 239 @ pixel_run (240 * 240) WHITE"
proof -
  define s1 where "s1 = lcd_gpio_init (emit Spi_Attach s)"
  have s1: "bus s1 = bus s @
       [Spi_Attach, Spi_Configure, Pin_Mode_Output LCD_DC_PIN, Pin_Mode_Output LCD_RES_PIN,
        Pin_Mode_Output LCD_PWR_PIN, Pin_Write LCD_PWR_PIN False, Pin_Write LCD_RES_PIN False,
        Delay_Ticks 100, Pin_Write LCD_RES_PIN True]" and d1: "dc s1 = dc s"
    by (simp_all add: s1_def lcd_gpio_init_def rt_hw_lcd_config_def emit_def pin_write_def dc_def
        dc_level_append)
  define s2 where "s2 = fold (lcd_access env) init_table s1"
  obtain table where s2: "bus s2 = bus s1 @ table" "list_all traffic table"
      "wire (dc s1) table = map reg_wire init_table"
    using emits_bus[OF emits_accesses[of s1 init_table env]] s2_def by blast
  obtain s3 clear where s3: "lcd_clear env WHITE (emit (Delay_Ms 100) s2) = Inr s3"
      "bus s3 = bus (emit (Delay_Ms 100) s2) @ clear" "list_all traffic clear"
      "wire (dc (emit (Delay_Ms 100) s2)) clear = window 0 0 239 239 @ pixel_run (240 * 240) WHITE"
    using lcd_clear_emits[of env WHITE "emit (Delay_Ms 100) s2"] emits_bus by blast
  have d2: "dc (emit (Delay_Ms 100) s2) = dc_level (dc s) table"
    by (simp add: dc_def emit_def dc_level_append s2(1) d1[unfolded dc_def])
  note w = s3(4)[unfolded d2]
  have "rt_hw_lcd_init env s = Inr (snd (lcd_write_cmd env 0x29 (pin_write LCD_PWR_PIN True s3)))"
    unfolding rt_hw_lcd_init_def Let_def s1_def[symmetric] s2_def[symmetric] s3(1) by simp
  moreover have "bus (snd (lcd_write_cmd env 0x29 (pin_write LCD_PWR_PIN True s3))) = bus s @
       [Spi_Attach, Spi_Configure, Pin_Mode_Output LCD_DC_PIN, Pin_Mode_Output LCD_RES_PIN,
        Pin_Mode_Output LCD_PWR_PIN, Pin_Write LCD_PWR_PIN False, Pin_Write LCD_RES_PIN False,
        Delay_Ticks 100, Pin_Write LCD_RES_PIN True] @ table @ [Delay_Ms 100] @ clear @
       [Pin_Write LCD_PWR_PIN True, Pin_Write LCD_DC_PIN False, Spi_Send [0x29]]"
    by (simp add: snd_lcd_write_cmd spi_send_def emit_def pin_write_def s3(2) s2(1) s1)
  moreover have "list_all traffic (table @ clear)" using s2(2) s3(3) by simp
  moreover have "wire (dc s) table = map reg_wire init_table" using s2(3)[unfolded d1] .
  ultimately show ?thesis using w by blast
qed

end
