(* ===== verification/Lcd_Draw.thy ===== *)
theory Lcd_Draw
  imports Lcd
begin

text \<open>
  Lines, rectangles and circles of \<open>drivers/drv_lcd.c\<close>: the two paths of \<open>lcd_draw_line\<close> (a buffer for
  horizontal lines, the error-accumulating walk for the others), \<open>lcd_draw_rectangle\<close> and
  \<open>lcd_draw_circle\<close>, and what they put on the wire as lists of points.
\<close>

section \<open>Lines\<close>

text \<open>The locals of the general walk: \<open>xerr\<close>, \<open>yerr\<close>, \<open>row\<close>, \<open>col\<close>, and the display.\<close>

type_synonym walk = "int \<times> int \<times> int \<times> int \<times> lcd"

definition sign_of :: "int \<Rightarrow> int" where
  "sign_of d = (if d > 0 then 1 else if d = 0 then 0 else -1)"

definition line_step ::
  "lcd_env \<Rightarrow> int \<Rightarrow> int \<Rightarrow> int \<Rightarrow> int \<Rightarrow> int \<Rightarrow> u16 \<Rightarrow> walk \<Rightarrow> walk cres" where
  "line_step env delta_x delta_y incx incy distance t w =
     (case w of (xerr, yerr, row, col, s) \<Rightarrow>
      let s = lcd_draw_point env (word_of_int row) (word_of_int col) s;
          xerr = xerr + delta_x;
          yerr = yerr + delta_y;
          (xerr, row) = (if xerr > distance then (xerr - distance, row + incx) else (xerr, row));
          (yerr, col) = (if yerr > distance then (yerr - distance, col + incy) else (yerr, col))
      in Inr (xerr, yerr, row, col, s))"

definition lcd_draw_line :: "lcd_env \<Rightarrow> u16 \<Rightarrow> u16 \<Rightarrow> u16 \<Rightarrow> u16 \<Rightarrow> lcd \<Rightarrow> lcd cres" where
  "lcd_draw_line env x1 y1 x2 y2 s =
     (if y1 = y2 then
        (let s = lcd_address_set env x1 y1 x2 y2 s;
             n = unat (word_of_int (uint x2 - uint x1) :: u32)
         in cbind (cfor [0..<n] (store_color (FORE_COLOR s)) (replicate 480 0)) (\<lambda>line_buf.
            spi_send_buf env line_buf (nat ((uint x2 - uint x1) * 2)) (pin_write LCD_DC_PIN True s)))
      else
        (let delta_x = uint x2 - uint x1;
             delta_y = uint y2 - uint y1;
             incx = sign_of delta_x;
             incy = sign_of delta_y;
             delta_x = (if delta_x < 0 then - delta_x else delta_x);
             delta_y = (if delta_y < 0 then - delta_y else delta_y);
             distance = (if delta_x > delta_y then delta_x else delta_y)
         in cbind (u16_for 0 (distance + 1) (line_step env delta_x delta_y incx incy distance)
                     (0, 0, uint x1, uint y1, s))
              (\<lambda>(xerr, yerr, row, col, s). Inr s)))"

definition lcd_draw_rectangle :: "lcd_env \<Rightarrow> u16 \<Rightarrow> u16 \<Rightarrow> u16 \<Rightarrow> u16 \<Rightarrow> lcd \<Rightarrow> lcd cres" where
  "lcd_draw_rectangle env x1 y1 x2 y2 s =
     cbind (lcd_draw_line env x1 y1 x2 y1 s) (\<lambda>s.
     cbind (lcd_draw_line env x1 y1 x1 y2 s) (\<lambda>s.
     cbind (lcd_draw_line env x1 y2 x2 y2 s) (\<lambda>s.
     lcd_draw_line env x2 y1 x2 y2 s)))"

section \<open>Circles\<close>

text \<open>The coordinate \<open>x0 + d\<close>, as a 16-bit argument.\<close>

definition shifted :: "u16 \<Rightarrow> int \<Rightarrow> u16" where
  "shifted x0 d = word_of_int (uint x0 + d)"

definition draw_offsets :: "lcd_env \<Rightarrow> u16 \<Rightarrow> u16 \<Rightarrow> (int \<times> int) list \<Rightarrow> lcd \<Rightarrow> lcd" where
  "draw_offsets env x0 y0 = fold (\<lambda>(dx, dy). lcd_draw_point env (shifted x0 dx) (shifted y0 dy))"

definition octants :: "int \<Rightarrow> int \<Rightarrow> (int \<times> int) list" where
  "octants a b =
     [(- b, - a), (b, - a), (- a, b), (- b, - a), (- a, - b), (b, a), (a, - b), (a, b), (- b, a)]"

function circle_loop :: "lcd_env \<Rightarrow> u16 \<Rightarrow> u16 \<Rightarrow> int \<Rightarrow> int \<Rightarrow> int \<Rightarrow> lcd \<Rightarrow> lcd" where
  "circle_loop env x0 y0 a b di s =
     (if a \<le> b then
        (let s = draw_offsets env x0 y0 (octants a b) s;
             a = a + 1;
             (di, b) = (if di < 0 then (di + (4 * a + 6), b) else (di + (10 + 4 * (a - b)), b - 1));
             s = lcd_draw_point env (shifted x0 a) (shifted y0 b) s
         in circle_loop env x0 y0 a b di s)
      else s)"
  by pat_completeness auto
termination
  by (relation "measure (\<lambda>(env, x0, y0, a, b, di, s). nat (b - a + 1))") (auto split: if_splits)

declare circle_loop.simps [simp del]

definition lcd_draw_circle :: "lcd_env \<Rightarrow> u16 \<Rightarrow> u16 \<Rightarrow> byte \<Rightarrow> lcd \<Rightarrow> lcd" where
  "lcd_draw_circle env x0 y0 r s = circle_loop env x0 y0 0 (uint r) (3 - push_bit 1 (uint r)) s"

section \<open>Points on the wire\<close>

definition point_wire :: "u16 \<Rightarrow> u16 \<times> u16 \<Rightarrow> (bool \<times> byte) list" where
  "point_wire c p = window (fst p) (snd p) (fst p) (snd p) @ half_word c"

lemma emits_draw_point: "emits s (point_wire (FORE_COLOR s) (x, y)) (lcd_draw_point env x y s)"
  by (simp add: lcd_draw_point_def point_wire_def Let_def
      emits_trans[OF emits_address_set emits_half_word])

lemma emits_draw_point_color: "emits s (point_wire c (x, y)) (lcd_draw_point_color env x y c s)"
  by (simp add: lcd_draw_point_color_def point_wire_def Let_def
      emits_trans[OF emits_address_set emits_half_word])

text \<open>
  How far an axis has moved before point \<open>k\<close> is drawn, when its length is \<open>delta\<close> and the longer axis
  has length \<open>d\<close>: \<open>\<lceil>k * delta / d\<rceil> - 1\<close>, and 0 at the start.
\<close>

definition axis :: "nat \<Rightarrow> nat \<Rightarrow> nat \<Rightarrow> nat" where
  "axis d delta k = (k * delta - 1) div d"

lemma axis_step:
  assumes "delta \<le> d" "0 < d"
  shows "axis d delta (Suc k) =
    (if k * delta + delta - axis d delta k * d > d then axis d delta k + 1 else axis d delta k)"
    (is ?thesis1)
    and "axis d delta k * d \<le> k * delta"
proof -
  have "?thesis1 \<and> axis d delta k * d \<le> k * delta"
  proof (cases "k * delta = 0")
    case True
    then show ?thesis using assms by (auto simp: axis_def)
  next
    case False
    define q r where "q = axis d delta k" and "r = (k * delta - 1) mod d"
    have qr: "k * delta = q * d + r + 1" and r: "r < d"
      using False assms div_mult_mod_eq[of "k * delta - 1" d]
      by (simp_all add: q_def r_def axis_def)
    have nxt: "axis d delta (Suc k) = (q * d + (r + delta)) div d"
      using qr by (simp add: axis_def add_ac)
    also have "\<dots> = q + (r + delta) div d" using assms by simp
    also have "(r + delta) div d = (if r + delta \<ge> d then 1 else 0)"
    proof (cases "r + delta \<ge> d")
      case True
      then have "(r + delta) div d = Suc ((r + delta - d) div d)" using assms by (simp add: le_div_geq)
      then show ?thesis using True assms r by simp
    qed simp
    finally show ?thesis using qr q_def by auto
  qed
  then show ?thesis1 "axis d delta k * d \<le> k * delta" by auto
qed

lemma axis_0 [simp]: "axis d delta 0 = 0"
  by (simp add: axis_def)

lemma axis_1: "delta \<le> d \<Longrightarrow> 0 < d \<Longrightarrow> axis d delta 1 = 0"
  by (simp add: axis_def)

lemma axis_end: "delta \<le> d \<Longrightarrow> 0 < d \<Longrightarrow> axis d delta (d + 1) = delta"
proof (cases "delta = 0")
  case False
  assume "delta \<le> d" "0 < d"
  then have "(d + 1) * delta - 1 = delta * d + (delta - 1)" "delta - 1 < d"
    using False by (simp_all add: algebra_simps)
  then show ?thesis using \<open>0 < d\<close> by (simp add: axis_def)
qed (simp add: axis_def)

lemma axis_mono: "j \<le> k \<Longrightarrow> axis d delta j \<le> axis d delta k"
  by (simp add: axis_def div_le_mono diff_le_mono)

lemma axis_next:
  "delta \<le> d \<Longrightarrow> 0 < d \<Longrightarrow> axis d delta (Suc k) = axis d delta k \<or> axis d delta (Suc k) = axis d delta k + 1"
  by (auto simp: axis_step(1)[of delta d k])

lemma axis_major: "0 < d \<Longrightarrow> axis d d k = k - 1"
proof (cases k)
  case (Suc j)
  assume "0 < d"
  then have "k * d - 1 = (d - 1) + j * d" using Suc by simp
  then have "(k * d - 1) div d = j + (d - 1) div d" using \<open>0 < d\<close> by (simp only: div_mult_self1)
  then show ?thesis using \<open>0 < d\<close> Suc by (simp add: axis_def)
qed simp

text \<open>The minor axis stays within one step of the ideal line.\<close>

lemma axis_close:
  assumes "delta \<le> d" "0 < d"
  shows "\<bar>int (axis d delta k) * int d - int (axis d d k) * int delta\<bar> < int d"
proof (cases "k * delta = 0")
  case True
  then have "k = 0 \<or> delta = 0" by simp
  then show ?thesis using assms by (auto simp: axis_def)
next
  case False
  then obtain j where k: "k = Suc j" by (cases k) auto
  define q r where "q = axis d delta k" and "r = (k * delta - 1) mod d"
  have "k * delta = q * d + r + 1" and r: "r < d"
    using False assms div_mult_mod_eq[of "k * delta - 1" d] by (simp_all add: q_def r_def axis_def)
  then have "int (k * delta) = int (q * d + r + 1)" by simp
  then have "int q * int d - int j * int delta = int delta - int r - 1"
    by (simp add: k algebra_simps)
  moreover have "axis d d k = j" using assms by (simp add: axis_major k)
  ultimately show ?thesis
    unfolding q_def[symmetric] abs_less_iff using assms r False by auto
qed

definition line_point :: "u16 \<Rightarrow> u16 \<Rightarrow> u16 \<Rightarrow> u16 \<Rightarrow> nat \<Rightarrow> int \<times> int" where
  "line_point x1 y1 x2 y2 k =
     (let dx = uint x2 - uint x1; dy = uint y2 - uint y1; d = nat (max \<bar>dx\<bar> \<bar>dy\<bar>)
      in (uint x1 + sign_of dx * int (axis d (nat \<bar>dx\<bar>) k),
          uint y1 + sign_of dy * int (axis d (nat \<bar>dy\<bar>) k)))"

text \<open>One axis of the walk: the error term and the coordinate before point \<open>k\<close>.\<close>

lemma walk_axis:
  fixes inc c0 :: int
  assumes "delta \<le> d" "0 < d"
  defines "e \<equiv> \<lambda>k. int k * int delta - int (axis d delta k) * int d"
  defines "c \<equiv> \<lambda>k. c0 + inc * int (axis d delta k)"
  shows "(if e k + int delta > int d then (e k + int delta - int d, c k + inc) else (e k + int delta, c k)) =
    (e (Suc k), c (Suc k))"
proof -
  have "int (k * delta + delta - axis d delta k * d) = e k + int delta"
    using axis_step(2)[OF assms(1,2), of k] by (simp add: e_def of_nat_diff)
  then have "(k * delta + delta - axis d delta k * d > d) = (e k + int delta > int d)"
    by (metis of_nat_less_iff)
  then show ?thesis
    unfolding c_def by (simp add: e_def axis_step(1)[OF assms(1,2)] algebra_simps)
qed

lemma walk_emits:
  fixes x1 y1 x2 y2 :: u16
  assumes "y1 \<noteq> y2"
  defines "dx \<equiv> uint x2 - uint x1" and "dy \<equiv> uint y2 - uint y1"
  defines "d \<equiv> nat (max \<bar>dx\<bar> \<bar>dy\<bar>)"
  shows "\<exists>s'. cfor (map word_of_nat [0..<n])
      (line_step env \<bar>dx\<bar> \<bar>dy\<bar> (sign_of dx) (sign_of dy) (int d)) (0, 0, uint x1, uint y1, s) =
    Inr (int n * \<bar>dx\<bar> - int (axis d (nat \<bar>dx\<bar>) n) * int d,
         int n * \<bar>dy\<bar> - int (axis d (nat \<bar>dy\<bar>) n) * int d,
         fst (line_point x1 y1 x2 y2 n), snd (line_point x1 y1 x2 y2 n), s') \<and>
    emits s (concat (map (\<lambda>k. point_wire (FORE_COLOR s)
      (map_prod word_of_int word_of_int (line_point x1 y1 x2 y2 k))) [0..<n])) s'"
proof (induction n)
  case 0
  then show ?case by (simp add: line_point_def Let_def)
next
  case (Suc n)
  have d: "0 < d" "nat \<bar>dx\<bar> \<le> d" "nat \<bar>dy\<bar> \<le> d"
    using assms(1) by (simp_all add: d_def dy_def dx_def nat_le_iff word_uint_eq_iff)
      (auto simp: max_def word_uint_eq_iff)
  have abs: "int (nat \<bar>dx\<bar>) = \<bar>dx\<bar>" "int (nat \<bar>dy\<bar>) = \<bar>dy\<bar>" by simp_all
  note x = walk_axis[OF d(2) d(1), of n "uint x1" "sign_of dx", unfolded abs]
  note y = walk_axis[OF d(3) d(1), of n "uint y1" "sign_of dy", unfolded abs]
  have lp: "line_point x1 y1 x2 y2 k = (uint x1 + sign_of dx * int (axis d (nat \<bar>dx\<bar>) k),
      uint y1 + sign_of dy * int (axis d (nat \<bar>dy\<bar>) k))" for k
    by (simp add: line_point_def Let_def d_def dx_def dy_def)
  from Suc obtain t where t: "cfor (map word_of_nat [0..<n])
      (line_step env \<bar>dx\<bar> \<bar>dy\<bar> (sign_of dx) (sign_of dy) (int d)) (0, 0, uint x1, uint y1, s) =
    Inr (int n * \<bar>dx\<bar> - int (axis d (nat \<bar>dx\<bar>) n) * int d,
         int n * \<bar>dy\<bar> - int (axis d (nat \<bar>dy\<bar>) n) * int d,
         fst (line_point x1 y1 x2 y2 n), snd (line_point x1 y1 x2 y2 n), t)"
    and st: "emits s (concat (map (\<lambda>k. point_wire (FORE_COLOR s)
      (map_prod word_of_int word_of_int (line_point x1 y1 x2 y2 k))) [0..<n])) t"
    by blast
  have fore: "FORE_COLOR t = FORE_COLOR s" using st by (simp add: emits_def)
  define u where "u = lcd_draw_point env (word_of_int (fst (line_point x1 y1 x2 y2 n)))
     (word_of_int (snd (line_point x1 y1 x2 y2 n))) t"
  have tu: "emits t (point_wire (FORE_COLOR s)
      (map_prod word_of_int word_of_int (line_point x1 y1 x2 y2 n))) u"
    using emits_draw_point[of t] by (simp add: u_def fore map_prod_def split_beta)
  have step: "line_step env \<bar>dx\<bar> \<bar>dy\<bar> (sign_of dx) (sign_of dy) (int d) (word_of_nat n)
      (int n * \<bar>dx\<bar> - int (axis d (nat \<bar>dx\<bar>) n) * int d,
       int n * \<bar>dy\<bar> - int (axis d (nat \<bar>dy\<bar>) n) * int d,
       fst (line_point x1 y1 x2 y2 n), snd (line_point x1 y1 x2 y2 n), t) =
    Inr (int (Suc n) * \<bar>dx\<bar> - int (axis d (nat \<bar>dx\<bar>) (Suc n)) * int d,
         int (Suc n) * \<bar>dy\<bar> - int (axis d (nat \<bar>dy\<bar>) (Suc n)) * int d,
         fst (line_point x1 y1 x2 y2 (Suc n)), snd (line_point x1 y1 x2 y2 (Suc n)), u)"
    unfolding line_step_def Let_def u_def prod.case lp fst_conv snd_conv x y ..
  have "cfor (map word_of_nat [0..<Suc n]) f w = cbind (cfor (map word_of_nat [0..<n]) f w)
      (f (word_of_nat n))" for f :: "u16 \<Rightarrow> walk \<Rightarrow> walk cres" and w
    by (simp add: cfor_append)
  then show ?case using emits_trans[OF st tu] by (simp only: t cbind_Inr step) auto
qed

text \<open>The points of a line, as the coordinates the driver passes on.\<close>

definition line_points :: "u16 \<Rightarrow> u16 \<Rightarrow> u16 \<Rightarrow> u16 \<Rightarrow> (u16 \<times> u16) list" where
  "line_points x1 y1 x2 y2 =
     map (\<lambda>k. map_prod word_of_int word_of_int (line_point x1 y1 x2 y2 k))
       [0..<nat (max \<bar>uint x2 - uint x1\<bar> \<bar>uint y2 - uint y1\<bar>) + 2]"

lemma line_abs: "(if d < 0 then - d else d) = \<bar>d :: int\<bar>"
  and line_max: "(if a > b then a else b) = max a (b :: int)"
  by simp_all

lemma lcd_draw_line_emits:
  assumes "y1 \<noteq> y2" "max \<bar>uint x2 - uint x1\<bar> \<bar>uint y2 - uint y1\<bar> < 65534"
  shows "\<exists>s'. lcd_draw_line env x1 y1 x2 y2 s = Inr s' \<and>
    emits s (concat (map (point_wire (FORE_COLOR s)) (line_points x1 y1 x2 y2))) s'"
proof -
  define d where "d = max \<bar>uint x2 - uint x1\<bar> \<bar>uint y2 - uint y1\<bar>"
  have "0 \<le> d" by (simp add: d_def le_max_iff_disj)
  then have d: "int (nat d) = d" "nat (d + 1 + 1) = nat d + 2" by simp_all
  have b: "d + 1 < 65535" using assms(2) by (simp add: d_def)
  show ?thesis
    using walk_emits[OF assms(1), where n = "nat d + 2" and env = env and s = s and ?x1.0 = x1 and ?x2.0 = x2] assms(1)
    unfolding lcd_draw_line_def Let_def line_abs line_max d_def[symmetric] u16_for_eq[OF b] d
    by (auto simp: u16_upto_def d d_def[symmetric] line_points_def comp_def)
qed

lemma line_step_total: "\<exists>w'. line_step env dx dy ix iy d t w = Inr w'"
  by (cases w) (simp add: line_step_def Let_def split: prod.splits)

lemma lcd_draw_line_diverges_gen:
  assumes "y1 \<noteq> y2" "65534 \<le> max \<bar>uint x2 - uint x1\<bar> \<bar>uint y2 - uint y1\<bar>"
  shows "lcd_draw_line env x1 y1 x2 y2 s = Inl Diverges"
proof -
  have "u16_for 0 (max \<bar>uint x2 - uint x1\<bar> \<bar>uint y2 - uint y1\<bar> + 1) (line_step env dx dy ix iy d) w =
      Inl Diverges" for dx dy ix iy d w
    by (rule u16_for_diverges[where P = "\<lambda>w. True"]) (use assms(2) line_step_total in auto)
  then show ?thesis using assms(1) by (simp add: lcd_draw_line_def Let_def line_abs line_max)
qed

text \<open>The horizontal path.\<close>

lemma store_colors_oob:
  assumes "length buf = 2 * m" "m < n"
  shows "cfor [0..<n] (store_color c) buf = Inl Out_Of_Bounds"
proof -
  obtain k where "n = m + Suc k" using less_imp_Suc_add[OF assms(2)] by auto
  then have "[0..<n] = [0..<m] @ m # [Suc m..<n]"
    using upt_add_eq_append[of 0 m "Suc k"] upt_conv_Cons[OF assms(2)] by simp
  then show ?thesis
    using assms(1) by (simp add: cfor_append store_colors_eq store_color_def)
qed

lemma lcd_draw_line_horizontal_emits:
  assumes "uint x1 \<le> uint x2" "uint x2 - uint x1 \<le> 240"
  shows "\<exists>s'. lcd_draw_line env x1 y x2 y s = Inr s' \<and>
    emits s (window x1 y x2 y @ pixel_run (unat x2 - unat x1) (FORE_COLOR s)) s'"
proof -
  define n where "n = unat x2 - unat x1"
  define s1 where "s1 = lcd_address_set env x1 y x2 y s"
  have dn: "uint x2 - uint x1 = int n" using assms(1)
    using uint_nat[of x1] uint_nat[of x2] unfolding n_def by linarith
  then have n: "n \<le> 240" using assms(2) by simp
  have u: "unat (word_of_int (uint x2 - uint x1) :: u32) = n"
    unfolding dn using n by (simp add: unsigned_of_nat take_bit_eq_mod)
  define buf where "buf = overlay 0 (color_bytes (replicate n (FORE_COLOR s))) (replicate 480 0)"
  have fill: "cfor [0..<n] (store_color (FORE_COLOR s)) (replicate 480 0) = Inr buf"
    unfolding buf_def by (rule store_colors_eq) (simp only: length_replicate, use n in simp)
  have "take (2 * length (replicate n (FORE_COLOR s))) buf = color_bytes (replicate n (FORE_COLOR s))"
    unfolding buf_def by (rule take_color_bytes) (simp only: length_replicate, use n in simp)
  then have "take (n * 2) buf = color_bytes (replicate n (FORE_COLOR s))" by (simp add: mult.commute)
  moreover have "n * 2 \<le> length buf" unfolding buf_def length_overlay length_replicate using n by simp
  ultimately obtain s' where s': "spi_send_buf env buf (n * 2) (pin_write LCD_DC_PIN True s1) = Inr s'"
      "emits (pin_write LCD_DC_PIN True s1) (pixel_run n (FORE_COLOR s)) s'"
    using emits_send_colors[of "n * 2" buf "replicate n (FORE_COLOR s)"
        "pin_write LCD_DC_PIN True s1" env] unfolding pixel_run_def by (metis dc_pin_write)
  have "nat ((uint x2 - uint x1) * 2) = n * 2" unfolding dn by (simp add: nat_mult_distrib)
  then have "lcd_draw_line env x1 y x2 y s = Inr s'"
    unfolding lcd_draw_line_def Let_def by (simp only: u s1_def[symmetric] if_True refl)
      (simp add: s1_def fill[unfolded s1_def] s'(1)[unfolded s1_def])
  then show ?thesis
    using emits_trans[OF emits_address_set[of s x1 y x2 y env] emits_trans[OF emits_dc s'(2)[unfolded s1_def]]]
    by (simp add: n_def)
qed

text \<open>One coordinate of a line: its points lie between the ends.\<close>

lemma coord_between:
  fixes a b :: u16
  assumes "m \<le> nat \<bar>uint b - uint a\<bar>"
  shows "uint (word_of_int (uint a + sign_of (uint b - uint a) * int m) :: u16) =
      uint a + sign_of (uint b - uint a) * int m"
    and "min (uint a) (uint b) \<le> uint a + sign_of (uint b - uint a) * int m"
    and "uint a + sign_of (uint b - uint a) * int m \<le> max (uint a) (uint b)"
proof -
  show lo: "min (uint a) (uint b) \<le> uint a + sign_of (uint b - uint a) * int m"
    and hi: "uint a + sign_of (uint b - uint a) * int m \<le> max (uint a) (uint b)"
    using assms by (auto simp: sign_of_def)
  have "0 \<le> uint a + sign_of (uint b - uint a) * int m"
    using lo uint_ge_0[of a] uint_ge_0[of b] by linarith
  moreover have "uint a + sign_of (uint b - uint a) * int m < 2 ^ 16"
    using hi uint_lt2p[of a] uint_lt2p[of b] by simp
  ultimately show "uint (word_of_int (uint a + sign_of (uint b - uint a) * int m) :: u16) =
      uint a + sign_of (uint b - uint a) * int m"
    by (intro uint_of_int_small) simp_all
qed

definition longer :: "u16 \<Rightarrow> u16 \<Rightarrow> u16 \<Rightarrow> u16 \<Rightarrow> nat" where
  "longer x1 y1 x2 y2 = nat (max \<bar>uint x2 - uint x1\<bar> \<bar>uint y2 - uint y1\<bar>)"

lemma line_points_nth:
  fixes x1 y1 x2 y2 :: u16
  assumes "y1 \<noteq> y2" "k \<le> longer x1 y1 x2 y2 + 1"
  defines "p \<equiv> line_points x1 y1 x2 y2 ! k"
  shows "(uint (fst p), uint (snd p)) = line_point x1 y1 x2 y2 k"
    and "min (uint x1) (uint x2) \<le> uint (fst p)" "uint (fst p) \<le> max (uint x1) (uint x2)"
    and "min (uint y1) (uint y2) \<le> uint (snd p)" "uint (snd p) \<le> max (uint y1) (uint y2)"
proof -
  define d where "d = longer x1 y1 x2 y2"
  have d: "0 < d" "nat \<bar>uint x2 - uint x1\<bar> \<le> d" "nat \<bar>uint y2 - uint y1\<bar> \<le> d"
    using assms(1) by (auto simp: d_def longer_def word_uint_eq_iff)
  have k: "axis d m k \<le> m" if "m \<le> d" for m
    using axis_mono[of k "d + 1" d m] axis_end[OF that d(1)] assms(2) by (simp add: d_def)
  have lp: "line_point x1 y1 x2 y2 k =
      (uint x1 + sign_of (uint x2 - uint x1) * int (axis d (nat \<bar>uint x2 - uint x1\<bar>) k),
       uint y1 + sign_of (uint y2 - uint y1) * int (axis d (nat \<bar>uint y2 - uint y1\<bar>) k))"
    by (simp only: line_point_def Let_def d_def longer_def)
  have p: "p = map_prod word_of_int word_of_int (line_point x1 y1 x2 y2 k)"
    using assms(2) unfolding p_def line_points_def longer_def by (simp del: upt_Suc)
  note x = coord_between[OF k[OF d(2)]] and y = coord_between[OF k[OF d(3)]]
  show "(uint (fst p), uint (snd p)) = line_point x1 y1 x2 y2 k"
    unfolding p lp by (simp only: map_prod_simp fst_conv snd_conv x(1) y(1))
  then have "uint (fst p) = fst (line_point x1 y1 x2 y2 k)" "uint (snd p) = snd (line_point x1 y1 x2 y2 k)"
    by (metis fst_conv, metis snd_conv)
  then show "min (uint x1) (uint x2) \<le> uint (fst p)" "uint (fst p) \<le> max (uint x1) (uint x2)"
    "min (uint y1) (uint y2) \<le> uint (snd p)" "uint (snd p) \<le> max (uint y1) (uint y2)"
    unfolding lp fst_conv snd_conv using x(2,3) y(2,3) by simp_all
qed

lemma length_line_points [simp]: "length (line_points x1 y1 x2 y2) = longer x1 y1 x2 y2 + 2"
  by (simp add: line_points_def longer_def)

definition adjacent :: "u16 \<times> u16 \<Rightarrow> u16 \<times> u16 \<Rightarrow> bool" where
  "adjacent p q \<longleftrightarrow> \<bar>uint (fst q) - uint (fst p)\<bar> \<le> 1 \<and> \<bar>uint (snd q) - uint (snd p)\<bar> \<le> 1"

text \<open>The point is in the rectangle of the two ends, and less than one pixel off the ideal line.\<close>

definition near_line :: "u16 \<Rightarrow> u16 \<Rightarrow> u16 \<Rightarrow> u16 \<Rightarrow> u16 \<times> u16 \<Rightarrow> bool" where
  "near_line x1 y1 x2 y2 p \<longleftrightarrow>
     min (uint x1) (uint x2) \<le> uint (fst p) \<and> uint (fst p) \<le> max (uint x1) (uint x2) \<and>
     min (uint y1) (uint y2) \<le> uint (snd p) \<and> uint (snd p) \<le> max (uint y1) (uint y2) \<and>
     \<bar>(uint (snd p) - uint y1) * (uint x2 - uint x1) - (uint (fst p) - uint x1) * (uint y2 - uint y1)\<bar>
       < int (longer x1 y1 x2 y2)"

lemma sign_of_abs: "sign_of d * \<bar>d\<bar> = d"
  by (simp add: sign_of_def)

lemma abs_sign_le: "\<bar>sign_of d * m\<bar> \<le> \<bar>m\<bar>"
  by (simp add: sign_of_def)

lemma line_points_near:
  assumes "y1 \<noteq> y2"
  shows "list_all (near_line x1 y1 x2 y2) (line_points x1 y1 x2 y2)"
proof -
  define d dx dy where "d = longer x1 y1 x2 y2" and "dx = uint x2 - uint x1" and "dy = uint y2 - uint y1"
  have d: "0 < d" "nat \<bar>dx\<bar> \<le> d" "nat \<bar>dy\<bar> \<le> d" and dd: "nat \<bar>dx\<bar> = d \<or> nat \<bar>dy\<bar> = d"
    using assms by (auto simp: d_def dx_def dy_def longer_def word_uint_eq_iff max_def)
  have md: "nat (max \<bar>dx\<bar> \<bar>dy\<bar>) = d" by (simp add: d_def dx_def dy_def longer_def)
  have signs: "sign_of dy * A * (sign_of dx * \<bar>dx\<bar>) - sign_of dx * B * (sign_of dy * \<bar>dy\<bar>) =
      sign_of dy * (sign_of dx * (A * \<bar>dx\<bar> - B * \<bar>dy\<bar>))" for A B
    by (simp add: algebra_simps)
  have cross: "\<bar>sign_of dy * int (axis d (nat \<bar>dy\<bar>) k) * dx - sign_of dx * int (axis d (nat \<bar>dx\<bar>) k) * dy\<bar>
      < int d" for k
  proof -
    have "sign_of dy * int (axis d (nat \<bar>dy\<bar>) k) * dx - sign_of dx * int (axis d (nat \<bar>dx\<bar>) k) * dy =
        sign_of dy * (sign_of dx * (int (axis d (nat \<bar>dy\<bar>) k) * \<bar>dx\<bar> - int (axis d (nat \<bar>dx\<bar>) k) * \<bar>dy\<bar>))"
      using signs[of "int (axis d (nat \<bar>dy\<bar>) k)" "int (axis d (nat \<bar>dx\<bar>) k)"] unfolding sign_of_abs .
    also have "\<bar>\<dots>\<bar> \<le> \<bar>int (axis d (nat \<bar>dy\<bar>) k) * \<bar>dx\<bar> - int (axis d (nat \<bar>dx\<bar>) k) * \<bar>dy\<bar>\<bar>"
      using abs_sign_le order_trans by blast
    also have "\<dots> < int d"
      using dd axis_close[OF d(2,1), of k] axis_close[OF d(3,1), of k] by (auto simp: abs_minus_commute)
    finally show ?thesis .
  qed
  have "near_line x1 y1 x2 y2 (line_points x1 y1 x2 y2 ! k)" if k: "k \<le> d + 1" for k
  proof -
    note n = line_points_nth[OF assms k[unfolded d_def]]
    from n(1) have "uint (fst (line_points x1 y1 x2 y2 ! k)) = uint x1 + sign_of dx * int (axis d (nat \<bar>dx\<bar>) k)"
      "uint (snd (line_points x1 y1 x2 y2 ! k)) = uint y1 + sign_of dy * int (axis d (nat \<bar>dy\<bar>) k)"
      unfolding line_point_def Let_def dx_def[symmetric] dy_def[symmetric] md by simp_all
    then show ?thesis using n(2-5) cross[of k]
      by (simp only: near_line_def d_def[symmetric] dx_def[symmetric] dy_def[symmetric] add_diff_cancel_left')
  qed
  then show ?thesis by (simp add: list_all_length d_def)
qed

lemma line_points_adjacent:
  assumes "y1 \<noteq> y2"
  shows "successively adjacent (line_points x1 y1 x2 y2)"
proof -
  define d where "d = longer x1 y1 x2 y2"
  have d: "0 < d" "nat \<bar>uint x2 - uint x1\<bar> \<le> d" "nat \<bar>uint y2 - uint y1\<bar> \<le> d"
    using assms by (auto simp: d_def longer_def word_uint_eq_iff)
  have step: "\<bar>(c + sign_of i * int (axis d m (Suc k))) - (c + sign_of i * int (axis d m k))\<bar> \<le> 1"
    if "m \<le> d" for c i m k
    using axis_next[OF that d(1), of k] by (auto simp: sign_of_def)
  have "adjacent (line_points x1 y1 x2 y2 ! k) (line_points x1 y1 x2 y2 ! Suc k)" if k: "k \<le> d" for k
  proof -
    have "k \<le> longer x1 y1 x2 y2 + 1" "Suc k \<le> longer x1 y1 x2 y2 + 1"
      using k by (simp_all add: d_def)
    from line_points_nth(1)[OF assms this(1)] line_points_nth(1)[OF assms this(2)] show ?thesis
      using step[OF d(2)] step[OF d(3)]
      unfolding adjacent_def line_point_def Let_def longer_def[symmetric] d_def[symmetric] prod.inject
      by (elim conjE) (simp only:)
  qed
  then show ?thesis by (simp add: successively_conv_nth d_def)
qed

lemma line_points_ends:
  assumes "y1 \<noteq> y2"
  shows "hd (line_points x1 y1 x2 y2) = (x1, y1)" and "last (line_points x1 y1 x2 y2) = (x2, y2)"
proof -
  define d where "d = longer x1 y1 x2 y2"
  have d: "0 < d" "nat \<bar>uint x2 - uint x1\<bar> \<le> d" "nat \<bar>uint y2 - uint y1\<bar> \<le> d"
    using assms by (auto simp: d_def longer_def word_uint_eq_iff)
  have ne: "line_points x1 y1 x2 y2 \<noteq> []" by (simp add: line_points_def)
  have lp: "line_point x1 y1 x2 y2 k =
      (uint x1 + sign_of (uint x2 - uint x1) * int (axis d (nat \<bar>uint x2 - uint x1\<bar>) k),
       uint y1 + sign_of (uint y2 - uint y1) * int (axis d (nat \<bar>uint y2 - uint y1\<bar>) k))" for k
    by (simp only: line_point_def Let_def d_def longer_def)
  have "line_points x1 y1 x2 y2 ! 0 = (x1, y1)"
    using line_points_nth(1)[OF assms, of 0] by (simp add: lp prod_eq_iff word_uint_eq_iff)
  then show "hd (line_points x1 y1 x2 y2) = (x1, y1)" by (simp add: hd_conv_nth ne)
  have "(uint (fst (line_points x1 y1 x2 y2 ! (d + 1))), uint (snd (line_points x1 y1 x2 y2 ! (d + 1)))) =
      line_point x1 y1 x2 y2 (d + 1)"
    by (rule line_points_nth(1)[OF assms]) (simp add: d_def)
  also have "\<dots> = (uint x2, uint y2)"
    unfolding lp axis_end[OF d(2,1)] axis_end[OF d(3,1)] by (simp add: sign_of_abs)
  finally have "line_points x1 y1 x2 y2 ! (d + 1) = (x2, y2)"
    by (simp add: prod_eq_iff word_uint_eq_iff)
  then show "last (line_points x1 y1 x2 y2) = (x2, y2)" by (simp add: last_conv_nth ne d_def)
qed

section \<open>Properties of lines\<close>

text \<open>C25. A line that is not horizontal is drawn as a chain of points from the first end to the second:
  one more than twice ends can tell apart (the first point is drawn twice), each adjacent to the next,
  all inside the rectangle of the two ends and less than one pixel off the ideal line.\<close>

theorem lcd_draw_line_points:
  assumes "y1 \<noteq> y2" "longer x1 y1 x2 y2 < 65534"
  shows "\<exists>s' ps. lcd_draw_line env x1 y1 x2 y2 s = Inr s' \<and>
    emits s (concat (map (point_wire (FORE_COLOR s)) ps)) s' \<and>
    length ps = longer x1 y1 x2 y2 + 2 \<and> hd ps = (x1, y1) \<and> last ps = (x2, y2) \<and>
    successively adjacent ps \<and> list_all (near_line x1 y1 x2 y2) ps"
proof -
  have "max \<bar>uint x2 - uint x1\<bar> \<bar>uint y2 - uint y1\<bar> < 65534"
    using assms(2) by (simp add: longer_def nat_less_iff)
  from lcd_draw_line_emits[OF assms(1) this] show ?thesis
    using line_points_ends[OF assms(1)] line_points_adjacent[OF assms(1)] line_points_near[OF assms(1)]
      length_line_points by blast
qed

lemma lcd_draw_line_points_witness:
  "\<exists>s' ps. lcd_draw_line plain_env 10 20 14 17 lcd_boot = Inr s' \<and>
    emits lcd_boot (concat (map (point_wire (FORE_COLOR lcd_boot)) ps)) s' \<and>
    length ps = 6 \<and> hd ps = (10, 20) \<and> last ps = (14, 17)"
proof -
  have "longer 10 20 14 17 = 4" by (simp add: longer_def)
  with lcd_draw_line_points[of 20 17 10 14 plain_env lcd_boot] show ?thesis by fastforce
qed

text \<open>C33. The counter of the line loop has 16 bits, so a line that is not horizontal and whose longer side has 65534 pixels
  or more is never finished.\<close>

theorem lcd_draw_line_diverges:
  assumes "y1 \<noteq> y2" "65534 \<le> longer x1 y1 x2 y2"
  shows "lcd_draw_line env x1 y1 x2 y2 s = Inl Diverges"
  using assms by (intro lcd_draw_line_diverges_gen) (auto simp: longer_def)

lemma lcd_draw_line_diverges_witness: "lcd_draw_line plain_env 0 0 0 65535 lcd_boot = Inl Diverges"
  by (rule lcd_draw_line_diverges) (simp_all add: longer_def)

lemma line_horizontal_cases:
  "if uint x1 \<le> uint x2 \<and> uint x2 \<le> uint x1 + 240
   then \<exists>s'. lcd_draw_line env x1 y x2 y s = Inr s' \<and>
     emits s (window x1 y x2 y @ pixel_run (unat x2 - unat x1) (FORE_COLOR s)) s'
   else lcd_draw_line env x1 y x2 y s = Inl Out_Of_Bounds"
proof (cases "uint x1 \<le> uint x2 \<and> uint x2 \<le> uint x1 + 240")
  case True
  then show ?thesis using lcd_draw_line_horizontal_emits[of x1 x2 env y s] by simp
next
  case False
  define n where "n = unat (word_of_int (uint x2 - uint x1) :: u32)"
  have "uint (word_of_int k :: u32) = k mod 2 ^ 32" for k
    by (simp add: unsigned_of_int take_bit_eq_mod)
  then have "uint (word_of_int (uint x2 - uint x1) :: u32) = (uint x2 - uint x1) mod 2 ^ 32" .
  moreover have "240 < (uint x2 - uint x1) mod 2 ^ 32"
  proof (cases "uint x1 \<le> uint x2")
    case True
    have "(uint x2 - uint x1) mod 2 ^ 32 = uint x2 - uint x1"
    proof (rule mod_pos_pos_trivial)
      have "uint x2 < 65536" "(2 :: int) ^ 32 = 4294967296" using uint_lt2p[of x2] by simp_all
      then show "uint x2 - uint x1 < 2 ^ 32" using uint_ge_0[of x1] by linarith
    qed (use True in simp)
    then show ?thesis using False True by linarith
  next
    case neg: False
    have "(uint x2 - uint x1) mod 2 ^ 32 = (uint x2 - uint x1 + 2 ^ 32) mod 2 ^ 32" by simp
    also have "\<dots> = uint x2 - uint x1 + 2 ^ 32"
    proof (rule mod_pos_pos_trivial)
      have "uint x1 < 65536" "(2 :: int) ^ 32 = 4294967296" using uint_lt2p[of x1] by simp_all
      then show "0 \<le> uint x2 - uint x1 + 2 ^ 32" using uint_ge_0[of x2] by linarith
    qed (use neg in simp)
    finally have "(uint x2 - uint x1) mod 2 ^ 32 = uint x2 - uint x1 + 2 ^ 32" .
    moreover have "uint x1 < 65536" "(2 :: int) ^ 32 = 4294967296" using uint_lt2p[of x1] by simp_all
    ultimately show ?thesis using uint_ge_0[of x2] by linarith
  qed
  ultimately have "240 < int n" unfolding n_def by (simp add: unat_eq_nat_uint)
  then have "240 < n" by simp
  moreover have "length (replicate 480 (0 :: byte)) = 2 * 240" by (simp only: length_replicate)
  ultimately have "cfor [0..<n] (store_color c) (replicate 480 0) = Inl Out_Of_Bounds" for c
    using store_colors_oob by blast
  then have "lcd_draw_line env x1 y x2 y s = Inl Out_Of_Bounds"
    by (simp only: lcd_draw_line_def Let_def n_def[symmetric] if_True refl cbind_Inl)
  then show ?thesis unfolding if_not_P[OF False] .
qed

text \<open>The horizontal path: the window it opens includes both ends but it sends one pixel less, so
  the last one is not drawn; from right to left, or over more than 240 pixels, it overruns
  \<open>line_buf\<close>.\<close>

theorem lcd_draw_line_horizontal:
  "if uint x1 \<le> uint x2 \<and> uint x2 \<le> uint x1 + 240
   then \<exists>s'. lcd_draw_line env x1 y x2 y s = Inr s' \<and>
     emits s (window x1 y x2 y @ pixel_run (unat x2 - unat x1) (FORE_COLOR s)) s'
   else lcd_draw_line env x1 y x2 y s = Inl Out_Of_Bounds"
  by (rule line_horizontal_cases)

lemma line_returns:
  assumes "y1 \<noteq> y2" "uint x1 < 240" "uint y1 < 240" "uint x2 < 240" "uint y2 < 240"
  shows "\<exists>s'. lcd_draw_line env x1 y1 x2 y2 s = Inr s'"
proof -
  have "\<bar>uint x2 - uint x1\<bar> < 65534" "\<bar>uint y2 - uint y1\<bar> < 65534"
    using assms uint_ge_0[of x1] uint_ge_0[of x2] uint_ge_0[of y1] uint_ge_0[of y2] by linarith+
  then have "max \<bar>uint x2 - uint x1\<bar> \<bar>uint y2 - uint y1\<bar> < 65534" by simp
  with lcd_draw_line_emits[OF assms(1)] show ?thesis by blast
qed

lemma rectangle_cases:
  assumes "uint x1 < 240" "uint y1 < 240" "uint x2 < 240" "uint y2 < 240"
  shows "if uint x1 \<le> uint x2 then \<exists>s'. lcd_draw_rectangle env x1 y1 x2 y2 s = Inr s'
    else lcd_draw_rectangle env x1 y1 x2 y2 s = Inl Out_Of_Bounds"
proof (cases "uint x1 \<le> uint x2")
  case True
  have hor: "\<exists>s'. lcd_draw_line env x1 y x2 y s = Inr s'" for y s
    using line_horizontal_cases[of x1 x2 env y s] True assms uint_ge_0[of x1] by (auto split: if_splits)
  have ver: "\<exists>s'. lcd_draw_line env x y1 x y2 s = Inr s'" if "uint x < 240" for x s
  proof (cases "y1 = y2")
    case True
    then show ?thesis using line_horizontal_cases[of x x env y2 s] by auto
  qed (use line_returns assms that in blast)
  from hor[of y1 s] obtain s1 where 1: "lcd_draw_line env x1 y1 x2 y1 s = Inr s1" by blast
  from ver[OF assms(1), of s1] obtain s2 where 2: "lcd_draw_line env x1 y1 x1 y2 s1 = Inr s2" by blast
  from hor[of y2 s2] obtain s3 where 3: "lcd_draw_line env x1 y2 x2 y2 s2 = Inr s3" by blast
  from ver[OF assms(3), of s3] obtain s4 where 4: "lcd_draw_line env x2 y1 x2 y2 s3 = Inr s4" by blast
  have "lcd_draw_rectangle env x1 y1 x2 y2 s = Inr s4"
    by (simp only: lcd_draw_rectangle_def 1 2 3 4 cbind_Inr)
  then show ?thesis using True by simp
next
  case False
  then have "lcd_draw_line env x1 y1 x2 y1 s = Inl Out_Of_Bounds"
    using line_horizontal_cases[of x1 x2 env y1 s] by simp
  then show ?thesis using False by (simp add: lcd_draw_rectangle_def)
qed

text \<open>A rectangle with its corners on the panel is drawn exactly when its left side is given
  first; with the sides the other way round its horizontal lines overrun \<open>line_buf\<close>.\<close>

theorem lcd_draw_rectangle_order:
  assumes "uint x1 < 240" "uint y1 < 240" "uint x2 < 240" "uint y2 < 240"
  shows "if uint x1 \<le> uint x2 then \<exists>s'. lcd_draw_rectangle env x1 y1 x2 y2 s = Inr s'
    else lcd_draw_rectangle env x1 y1 x2 y2 s = Inl Out_Of_Bounds"
  by (rule rectangle_cases[OF assms])

lemma lcd_draw_rectangle_order_witness:
  "lcd_draw_rectangle plain_env 30 5 20 9 lcd_boot = Inl Out_Of_Bounds"
  using lcd_draw_rectangle_order[of 30 5 20 9 plain_env lcd_boot] by simp

section \<open>Circles on the wire\<close>

definition offset_wire :: "u16 \<Rightarrow> u16 \<Rightarrow> u16 \<Rightarrow> int \<times> int \<Rightarrow> (bool \<times> byte) list" where
  "offset_wire c x0 y0 p = point_wire c (shifted x0 (fst p), shifted y0 (snd p))"

lemma emits_draw_offsets:
  "emits s (concat (map (offset_wire (FORE_COLOR s) x0 y0) ps)) (draw_offsets env x0 y0 ps s)"
proof (induction ps arbitrary: s)
  case (Cons p ps)
  obtain dx dy where p: "p = (dx, dy)" by (cases p)
  have 1: "emits s (offset_wire (FORE_COLOR s) x0 y0 p)
      (lcd_draw_point env (shifted x0 dx) (shifted y0 dy) s)"
    using emits_draw_point by (simp add: p offset_wire_def)
  then have "FORE_COLOR (lcd_draw_point env (shifted x0 dx) (shifted y0 dy) s) = FORE_COLOR s"
    by (simp add: emits_def)
  with emits_trans[OF 1 Cons.IH] show ?case by (simp add: draw_offsets_def p)
qed (simp add: draw_offsets_def)

text \<open>The points of the loop: \<open>(a, b)\<close> before the first round and after each.\<close>

function circle_points :: "int \<Rightarrow> int \<Rightarrow> int \<Rightarrow> (int \<times> int) list" where
  "circle_points a b di =
     (if a \<le> b then
        (let di' = (if di < 0 then di + (4 * (a + 1) + 6) else di + (10 + 4 * (a + 1 - b)));
             b' = (if di < 0 then b else b - 1)
         in (a, b) # circle_points (a + 1) b' di')
      else [(a, b)])"
  by pat_completeness auto
termination by (relation "measure (\<lambda>(a, b, di). nat (b - a + 1))") (auto split: if_splits)

declare circle_points.simps [simp del]

lemma circle_points_Cons: "\<exists>ps. circle_points a b di = (a, b) # ps"
  by (subst circle_points.simps) (auto simp: Let_def)

text \<open>A round draws the eight mirror images of its point, and the point it goes on to.\<close>

definition round_wire :: "u16 \<Rightarrow> u16 \<Rightarrow> u16 \<Rightarrow> (int \<times> int) \<times> (int \<times> int) \<Rightarrow> (bool \<times> byte) list" where
  "round_wire c x0 y0 r =
     concat (map (offset_wire c x0 y0) (octants (fst (fst r)) (snd (fst r)) @ [snd r]))"

lemma circle_loop_emits:
  "emits s (concat (map (round_wire (FORE_COLOR s) x0 y0) (zip (circle_points a b di) (tl (circle_points a b di)))))
     (circle_loop env x0 y0 a b di s)"
proof (induction a b di arbitrary: s rule: circle_points.induct)
  case (1 a b di)
  show ?case
  proof (cases "a \<le> b")
    case True
    define di' where "di' = (if di < 0 then di + (4 * (a + 1) + 6) else di + (10 + 4 * (a + 1 - b)))"
    define b' where "b' = (if di < 0 then b else b - 1)"
    define t where "t = draw_offsets env x0 y0 (octants a b @ [(a + 1, b')]) s"
    have st: "emits s (round_wire (FORE_COLOR s) x0 y0 ((a, b), (a + 1, b'))) t"
      using emits_draw_offsets[of s x0 y0 "octants a b @ [(a + 1, b')]" env]
      by (simp add: round_wire_def t_def)
    then have c: "FORE_COLOR t = FORE_COLOR s" by (simp add: emits_def)
    have "circle_loop env x0 y0 a b di s = circle_loop env x0 y0 (a + 1) b' di' t"
      by (subst circle_loop.simps) (simp add: True Let_def di'_def b'_def t_def draw_offsets_def)
    moreover have "circle_points a b di = (a, b) # circle_points (a + 1) b' di'"
      by (subst circle_points.simps) (simp add: True Let_def di'_def b'_def)
    moreover obtain ps where "circle_points (a + 1) b' di' = (a + 1, b') # ps" using circle_points_Cons by blast
    moreover have "emits t (concat (map (round_wire (FORE_COLOR t) x0 y0)
        (zip (circle_points (a + 1) b' di') (tl (circle_points (a + 1) b' di')))))
        (circle_loop env x0 y0 (a + 1) b' di' t)"
      using 1[OF True refl refl] by (simp add: di'_def b'_def)
    ultimately show ?thesis using emits_trans[OF st] by (simp add: c)
  next
    case False
    then show ?thesis by (simp add: circle_loop.simps circle_points.simps)
  qed
qed










text \<open>A circle of radius 0 draws its centre, and also the point one right and one above it.\<close>

theorem lcd_draw_circle_zero:
  "emits s (concat (map (offset_wire (FORE_COLOR s) x0 y0) (replicate 9 (0, 0) @ [(1, -1)])))
     (lcd_draw_circle env x0 y0 0 s)"
proof -
  have "circle_points 0 0 3 = [(0, 0), (1, -1)]"
    by (simp add: circle_points.simps)
  with circle_loop_emits[of s x0 y0 0 0 3 env] show ?thesis
    by (simp add: lcd_draw_circle_def round_wire_def octants_def numeral_eq_Suc)
qed

end
