(* ===== verification/Lcd_Font.thy ===== *)
theory Lcd_Font
  imports Prelude
begin

text \<open>
  The three fonts of \<open>drivers/drv_lcd_font.h\<close> that the display driver is compiled with: the glyphs
  from the blank on, one bit per pixel, most significant bit first. Each glyph is written as one
  hexadecimal number, its bytes in the order of the source; a row of \<open>asc2_2412\<close> takes two bytes, of
  which the low half of the second is unused. The tables stop at the closing brace: there is no
  glyph for the tilde.
\<close>

definition glyph_bytes :: "nat \<Rightarrow> nat \<Rightarrow> byte list" where
  "glyph_bytes n v = map (\<lambda>i. word_of_nat (v div 256 ^ (n - 1 - i))) [0..<n]"

lemma length_glyph_bytes [simp]: "length (glyph_bytes n v) = n"
  by (simp add: glyph_bytes_def)

definition asc2_1608 :: "byte list" where
  "asc2_1608 = concat (map (glyph_bytes 16) [
    0x00000000000000000000000000000000, 0x00000010101010101000001010000000,
    0x00000028282828000000000000000000, 0x0000001212167F2424FE284848000000,
    0x000008083E4948683E0B09493E080800, 0x000000609090620C3046090906000000,
    0x0000001C20203030494545623D000000, 0x00000010101010000000000000000000,
    0x00000C08081010101010100808040000, 0x00003010100808080808081010300000,
    0x00000008493E1C6B0800000000000000, 0x0000000000101010FE10101000000000,
    0x00000000000000000000001818102000, 0x00000000000000000038000000000000,
    0x00000000000000000000001818000000, 0x00000002040404080810102020204000,
    0x0000001C22414149414141221C000000, 0x0000001828080808080808083E000000,
    0x0000003E43010102060C10207F000000, 0x0000003E4101031C030101433E000000,
    0x000000060A1A1222427F020202000000, 0x0000007E40407C42010101423C000000,
    0x0000001E3160405E634141231E000000, 0x0000007F030204040808101020000000,
    0x0000003E4141413E634141633E000000, 0x0000003C624141633D0103463C000000,
    0x00000000000018180000001818000000, 0x00000000000018180000001818102000,
    0x0000000000010E3840380E0100000000, 0x0000000000007F00007F000000000000,
    0x000000000040380E010E384000000000, 0x0000003844040C181010001010000000,
    0x0000001E332147494949494720300E00, 0x0000000814141414223E224141000000,
    0x0000007E4141417E434141437E000000, 0x0000001E21404040404040211E000000,
    0x0000007C42414141414141427C000000, 0x0000007F4040407F404040407F000000,
    0x0000007F4040407F4040404040000000, 0x0000001E21404040434141211E000000,
    0x000000414141417F4141414141000000, 0x0000007C10101010101010107C000000,
    0x0000001C040404040404044438000000, 0x00000042444850707848444642000000,
    0x0000004040404040404040407F000000, 0x00000063635555554941414141000000,
    0x00000061615151494945454343000000, 0x0000001C22414141414141221C000000,
    0x0000007E434141437E40404040000000, 0x0000001C22414141414141221E060200,
    0x0000007E434141437C42414140000000, 0x0000001E614040300E0101433E000000,
    0x000000FE101010101010101010000000, 0x0000004141414141414141633E000000,
    0x00000041412222221414141408000000, 0x0000008181815A5A5A66666666000000,
    0x00000041221414081414222241000000, 0x00000082444428381010101010000000,
    0x0000007F03020408081020607F000000, 0x00001C101010101010101010101C0000,
    0x00000040202020101008080404040200, 0x00003808080808080808080808380000,
    0x000000102844C6000000000000000000, 0x000000000000000000000000000000FF,
    0x00301008000000000000000000000000, 0x00000000001C22023E4242463A000000,
    0x00004040407C6442424242645C000000, 0x00000000001C2240404040221C000000,
    0x00000202023E2642424242263A000000, 0x00000000003C26427E4040221C000000,
    0x00000C10107C10101010101010000000, 0x00000000003A2642424242263A02221C,
    0x00004040405C62424242424242000000, 0x0000101000701010101010107C000000,
    0x00000808003808080808080808080870, 0x00004040404448507048484442000000,
    0x0000701010101010101010100E000000, 0x00000000007E49494949494949000000,
    0x00000000005C62424242424242000000, 0x00000000003C6642424242663C000000,
    0x00000000005C6442424242647C404040, 0x00000000003A2642424242263A020202,
    0x00000000003C32202020202020000000, 0x00000000003C4240700E02423C000000,
    0x00000010107E1010101010100E000000, 0x0000000000424242424242463A000000,
    0x00000000004242242424181818000000, 0x000000000081815A5A5A5A2424000000,
    0x00000000004224181818242442000000, 0x00000000004222242414181808081030,
    0x00000000007E0204081020407E000000, 0x00000C10101010106010101010100C00,
    0x00001010101010101010101010101010, 0x00006010101010100C10101010106000])"

lemma length_asc2_1608 [simp]: "length asc2_1608 = 1504"
  by (simp add: asc2_1608_def length_concat)

definition asc2_2412 :: "byte list" where
  "asc2_2412 = concat (map (glyph_bytes 48) [
    0x000000000000000000000000000000000000000000000000000000000000000000000000000000000000000000000000,
    0x000000000000000006000600060006000600060006000600060006000000000006000600060000000000000000000000,
    0x000000000000000019801980198019801980198000000000000000000000000000000000000000000000000000000000,
    0x0000000000000000066004400CC00CC07FF07FF0088019801980FFE0FFE0330033002200220000000000000000000000,
    0x000000000000020002000F801FC03A40320032003A001F0007C002E00260026022E03FC01F8002000200020000000000,
    0x000000000000000078004800CC00CC00CC00484079C00E0073C00240066006600660024003C000000000000000000000,
    0x00000000000000000F801F801800180018000C001E003630633063B061A060E030C03F600E7000000000000000000000,
    0x000000000000000006000600060006000600060000000000000000000000000000000000000000000000000000000000,
    0x0000000000000100020002000600060004000C000C000C000C000C000C000C0004000600060002000200010000000000,
    0x000000000000080004000400060006000200030003000300030003000300030002000600060004000400080000000000,
    0x000000000000000004000400444035800E000E0035804440040004000000000000000000000000000000000000000000,
    0x000000000000000000000000060006000600060006007FE07FE006000600060006000600000000000000000000000000,
    0x000000000000000000000000000000000000000000000000000000000000000006000600060006000C000C0000000000,
    0x0000000000000000000000000000000000000000000000001F001F000000000000000000000000000000000000000000,
    0x000000000000000000000000000000000000000000000000000000000000000006000600060000000000000000000000,
    0x0000000000000000006000C000C001800180030003000600060006000C000C0018001800300030006000000000000000,
    0x00000000000000001E003F80318071C060C060C066C066C060C060C060C071C031803F800E0000000000000000000000,
    0x000000000000000007001F001B0003000300030003000300030003000300030003001FE01FE000000000000000000000,
    0x00000000000000003F007F8041C000C000C000C001C00180030006000C00180030007FC07FC000000000000000000000,
    0x00000000000000003F007F8041C000C000C001C00F800F80018000C000C000C041C07F803F0000000000000000000000,
    0x000000000000000003800380078005800D80098019803180318061807FE07FE001800180018000000000000000000000,
    0x00000000000000003F803F803000300030003F003F8021C000C000C000C000C041807F803E0000000000000000000000,
    0x00000000000000000F001F8038803000700060006F007F8071C060C060C060C031C03F801F0000000000000000000000,
    0x00000000000000007FC07FC00180018001800300030003000600060006000C000C000C00180000000000000000000000,
    0x00000000000000001F003F8071C060C060C031801F003F80318060C060C060C071C03F801F0000000000000000000000,
    0x00000000000000001F003F80718060C060C060C071C03FC01EC000C000C0018023803F001E0000000000000000000000,
    0x000000000000000000000000000000000600060006000000000000000000000006000600060000000000000000000000,
    0x000000000000000000000000000000000600060006000000000000000000000006000600060006000C000C0000000000,
    0x0000000000000000000000000000002001E007801E00700070001E00078001E000200000000000000000000000000000,
    0x00000000000000000000000000000000000000007FE07FE0000000007FE07FE000000000000000000000000000000000,
    0x0000000000000000000000000000400078001E00078000E000E007801E00780040000000000000000000000000000000,
    0x00000000000000000F801FC01060006000E001C003800600060006000000000006000600060000000000000000000000,
    0x00000000000000000000078018C03060306023E0626066606660666066606660626033E0300018001C00078000000000,
    0x0000000000000000060006000F000F000F001F801980198019803FC03FC030C030C06060606000000000000000000000,
    0x00000000000000007F007F8061C060C060C061C07F807F8060C060606060606060E07FC07F8000000000000000000000,
    0x000000000000000007C01FE0382030006000600060006000600060006000300038201FE007C000000000000000000000,
    0x00000000000000007E007F8061C060C0606060606060606060606060606060C061C07F807E0000000000000000000000,
    0x00000000000000007FE07FE060006000600060007FE07FE0600060006000600060007FE07FE000000000000000000000,
    0x00000000000000007FE07FE060006000600060007FC07FC0600060006000600060006000600000000000000000000000,
    0x00000000000000000F801FC03840300060006000600061E061E060606060306038601FE00F8000000000000000000000,
    0x00000000000000006060606060606060606060607FE07FE0606060606060606060606060606000000000000000000000,
    0x00000000000000003FC03FC0060006000600060006000600060006000600060006003FC03FC000000000000000000000,
    0x00000000000000001F801F80018001800180018001800180018001800180018043807F003E0000000000000000000000,
    0x0000000000000000606060C06180630066006C007C007E00760063006380618060C060E0606000000000000000000000,
    0x000000000000000060006000600060006000600060006000600060006000600060007FE07FE000000000000000000000,
    0x000000000000000070E070E070E079E0696069606F606660666066606060606060606060606000000000000000000000,
    0x000000000000000070607060786078606C606C606460666062606360636061E061E060E060E000000000000000000000,
    0x00000000000000000F003FC030C070E0606060606060606060606060606070E030C03FC00F0000000000000000000000,
    0x00000000000000007F807FC060E060606060606060E07FC07F8060006000600060006000600000000000000000000000,
    0x00000000000000000F003FC030C070E0606060606060606060606060606070E030C01F800F00018000C0008000000000,
    0x00000000000000007F007FC060E060606060606060C07FC07F8061C060C0606060606030603000000000000000000000,
    0x00000000000000001F803FC070406000600070003E001F8001C000600060006040E07FC03F8000000000000000000000,
    0x0000000000000000FFF0FFF0060006000600060006000600060006000600060006000600060000000000000000000000,
    0x000000000000000060606060606060606060606060606060606060606060606070E03FC01F8000000000000000000000,
    0x00000000000000006060606030C030C030C030C01980198019801F800F000F000F000600060000000000000000000000,
    0x0000000000000000C030C030C0306060666066606F606F606960696039C039C039C030C030C000000000000000000000,
    0x000000000000000070E030C039C019800F000F00060006000F000F001B80198031C030C060E000000000000000000000,
    0x0000000000000000E070606030C030C019801F800F000600060006000600060006000600060000000000000000000000,
    0x00000000000000007FE07FE000C001C001800300070006000E000C001800380030007FE07FE000000000000000000000,
    0x000000000000078007800600060006000600060006000600060006000600060006000600060006000780078000000000,
    0x0000000000000000600030003000180018000C000C00060006000600030003000180018000C000C00060000000000000,
    0x0000000000000F000F000300030003000300030003000300030003000300030003000300030003000F000F0000000000,
    0x000000000000000007000F800D8018C03060603000000000000000000000000000000000000000000000000000000000,
    0x0000000000000000000000000000000000000000000000000000000000000000000000000000000000000000FFF0FFF0,
    0x0000000018000C0006000300000000000000000000000000000000000000000000000000000000000000000000000000,
    0x000000000000000000000000000000001F003F8021C000C01FC03FC070C060C061C07FC01CC000000000000000000000,
    0x000000000000600060006000600060006F007F80718060C060C060C060C060C071807F806F0000000000000000000000,
    0x000000000000000000000000000000000F003F8030806000600060006000600030803F800F0000000000000000000000,
    0x00000000000000C000C000C000C000C01EC03FC031C060C060C060C060C060C031C03FC01EC000000000000000000000,
    0x000000000000000000000000000000000F003F8031C060C07FC07FC06000600030403FC00F8000000000000000000000,
    0x00000000000001E003E00600060006003FE03FE006000600060006000600060006000600060000000000000000000000,
    0x000000000000000000000000000000001EC03FC031C060C060C060C060C060C031C03FC01EC000C021C03F801F000000,
    0x0000000000006000600060006000600067007F8071C060C060C060C060C060C060C060C060C000000000000000000000,
    0x000000000000060006000000000000003E003E0006000600060006000600060006007FE07FE000000000000000000000,
    0x000000000000030003000000000000001F001F00030003000300030003000300030003000300030003003E003C000000,
    0x0000000000006000600060006000600061C0638067006E007C007C00760067006300618061C000000000000000000000,
    0x000000000000FC00FC000C000C000C000C000C000C000C000C000C000C000C000E0007C003C000000000000000000000,
    0x000000000000000000000000000000006DC07FE066606660666066606660666066606660666000000000000000000000,
    0x0000000000000000000000000000000067007F8071C060C060C060C060C060C060C060C060C000000000000000000000,
    0x000000000000000000000000000000001F003F80318060C060C060C060C060C031803F801F0000000000000000000000,
    0x000000000000000000000000000000006F007F80718060C060C060C060C060C071807F806F0060006000600060000000,
    0x000000000000000000000000000000001EC03FC031C060C060C060C060C060C031C03FC01EC000C000C000C000C00000,
    0x000000000000000000000000000000000CE00DF00F100E000C000C000C000C000C000C000C0000000000000000000000,
    0x000000000000000000000000000000001F803FC0604060007F001F8001C000C041C07F803F0000000000000000000000,
    0x000000000000000000000C000C000C007FC07FC00C000C000C000C000C000C000C000FC007C000000000000000000000,
    0x0000000000000000000000000000000060C060C060C060C060C060C060C060C071C03FC01CC000000000000000000000,
    0x0000000000000000000000000000000060C071C0318031803B801B001B001B000E000E000E0000000000000000000000,
    0x00000000000000000000000000000000C030C03060606660666066603FC039C039C039C030C000000000000000000000,
    0x0000000000000000000000000000000071C031801B001F000E000E000E001F001B00318071C000000000000000000000,
    0x0000000000000000000000000000000060C03180318031801B001B001F000E000E0006000C000C000C00380038000000,
    0x000000000000000000000000000000007FC07FC00380030007000E001C00180030007FC07FC000000000000000000000,
    0x00000000000003C007C00600060006000600060006003C003C000E0006000600060006000600060007C003C000000000,
    0x000000000000060006000600060006000600060006000600060006000600060006000600060006000600060006000600,
    0x0000000000003C003E0006000600060006000600060003C003C007000600060006000600060006003E003C0000000000])"

lemma length_asc2_2412 [simp]: "length asc2_2412 = 4512"
  by (simp add: asc2_2412_def length_concat)

definition asc2_3216 :: "byte list" where
  "asc2_3216 = concat (map (glyph_bytes 64) [
    0x00000000000000000000000000000000000000000000000000000000000000000000000000000000000000000000000000000000000000000000000000000000,
    0x00000000000000000000000001C001C001C001C001C001C001C001C001C001C001C001C001C001C000000000000001C001C001C0000000000000000000000000,
    0x00000000000000000000000006300630063006300630063006300630000000000000000000000000000000000000000000000000000000000000000000000000,
    0x00000000000000000000018C038C030C0318031803187FFF7FFF063006300E300C700C60FFFEFFFE186018C018C018C030C03180000000000000000000000000,
    0x0000000000000000000000800080008003F00FFC0E8C1C801C801C801C800E800FE003F800FC009E008E008E008E109C1FF807F0008000800080008000000000,
    0x0000000000000000000000003C007E00E700C300C300C300E7007E1C3C7801C007003C7870FC01CE01860186018601CE00FC0078000000000000000000000000,
    0x00000000000000000000000007C00FE01E201C001C001C001E000E000F001F003F8333C371E370E370F6707E783C3C3E1FEE07CF000000000000000000000000,
    0x00000000000000000000000001800180018001800180018001800180000000000000000000000000000000000000000000000000000000000000000000000000,
    0x0000000000000000000000300060006000E000C001C001C00180038003800380038003800380038003800380018001C001C000C000E000600060003000000000,
    0x000000000000000000000600030003000380018001C001C000C000E000E000E000E000E000E000E000E000E000C001C001C00180038003000300060000000000,
    0x000000000000000000000000018001802184399C0FF003C003C00FF0399C21840180018000000000000000000000000000000000000000000000000000000000,
    0x00000000000000000000000000000000000000000180018001800180018001807FFE7FFE01800180018001800180018000000000000000000000000000000000,
    0x000000000000000000000000000000000000000000000000000000000000000000000000000000000000000001C001C001C001C0018003800380030000000000,
    0x0000000000000000000000000000000000000000000000000000000000000000000007F007F00000000000000000000000000000000000000000000000000000,
    0x00000000000000000000000000000000000000000000000000000000000000000000000000000000000000000380038003800380000000000000000000000000,
    0x000000000000000000000000001C0038003800700070007000E000E001C001C0038003800380070007000E000E001C001C001C00380038007000000000000000,
    0x00000000000000000000000003E00FF80E381C1C1C1C380E380E380E39CE39CE39CE380E380E380E380E1C1C1C1C0E380FF803E0000000000000000000000000,
    0x00000000000000000000000003E00FE00CE000E000E000E000E000E000E000E000E000E000E000E000E000E000E000E00FFE0FFE000000000000000000000000,
    0x0000000000000000000000000FE03FF8383C201E000E000E000E000E001E003C007C00F800F001E003C007000E001C003FFE3FFE000000000000000000000000,
    0x00000000000000000000000007F01FF8181C000E000E000E000E003C07F007F0003C001C000E000E000E000E001E303C3FF80FE0000000000000000000000000,
    0x000000000000000000000000007000F001F001F00370077006700C700C7018703870307060707FFE7FFE00700070007000700070000000000000000000000000,
    0x0000000000000000000000001FFC1FFC1C001C001C001C001FE01FF8103C001C000E000E000E000E000E000E001C203C3FF81FE0000000000000000000000000,
    0x00000000000000000000000001F807FC0F041E001C001C00380039F03BF83E3C3C1E380E380E380E380E180E1C1C0E3C0FF803F0000000000000000000000000,
    0x0000000000000000000000003FFE3FFE001E001C001C0038003800380070007000F000E000E001E001C001C00380038003800700000000000000000000000000,
    0x00000000000000000000000007F01FFC1C1C380E380E380E380E1C1C07F00FF81E3C1C1C380E380E380E380E3C1E1E3C0FF807F0000000000000000000000000,
    0x00000000000000000000000007E00FF81E383C1C380C380E380E380E380E3C1E1E3E0FEE07CE000E001C001C003C10781FF00FC0000000000000000000000000,
    0x00000000000000000000000000000000000000000000000003800380038003800000000000000000000000000380038003800380000000000000000000000000,
    0x00000000000000000000000000000000000000000000000003800380038003800000000000000000000000000380038003800380030007000700060000000000,
    0x00000000000000000000000000000000000000000002001E007E01F80FC03F00780078003F000FC001F8007E001E000200000000000000000000000000000000,
    0x000000000000000000000000000000000000000000000000000000007FFE7FFE0000000000007FFE7FFE00000000000000000000000000000000000000000000,
    0x0000000000000000000000000000000000000000400078007E001F8003F000FC001E001E00FC03F01F807E007800400000000000000000000000000000000000,
    0x00000000000000000000000003E00FF81C38101C001C003C003C007800F001E003C0038003800380038000000000038003800380000000000000000000000000,
    0x000000000000000000000000000001F807FC0E0E1C0618033003307B61FF618763036303630363036303618771FF307B300018001C000F0403FC00FC00000000,
    0x00000000000000000000000001C003E003E003E003E00770077007700F780E380E380E381FFC1FFC1C1C380E380E380E780F7007000000000000000000000000,
    0x0000000000000000000000003FE03FF83838381C381C381C381C38383FF03FF0383C381C380E380E380E380E381E383C3FF83FE0000000000000000000000000,
    0x00000000000000000000000001F807FC0F0C1E041C001C00380038003800380038003800380038001C001C001E040F0C07FC01F8000000000000000000000000,
    0x0000000000000000000000003FC03FF03878381C381C380C380E380E380E380E380E380E380E380E380C381C381C38783FF03FC0000000000000000000000000,
    0x0000000000000000000000001FFE1FFE1C001C001C001C001C001C001FFC1FFC1C001C001C001C001C001C001C001C001FFE1FFE000000000000000000000000,
    0x0000000000000000000000001FFE1FFE1C001C001C001C001C001C001FFC1FFC1C001C001C001C001C001C001C001C001C001C00000000000000000000000000,
    0x00000000000000000000000001F807FC0F0C1E041C001C00380038003800387E387E380E380E380E1C0E1C0E1C0E0F1E07FE01F8000000000000000000000000,
    0x000000000000000000000000380E380E380E380E380E380E380E380E3FFE3FFE380E380E380E380E380E380E380E380E380E380E000000000000000000000000,
    0x0000000000000000000000001FFC1FFC01C001C001C001C001C001C001C001C001C001C001C001C001C001C001C001C01FFC1FFC000000000000000000000000,
    0x00000000000000000000000007F807F800380038003800380038003800380038003800380038003800380038203830703FF00FC0000000000000000000000000,
    0x0000000000000000000000003807380E381C3838387038E039C03B803F803FC03FC03DE038F038703878383C381C381E380F3807000000000000000000000000,
    0x0000000000000000000000001C001C001C001C001C001C001C001C001C001C001C001C001C001C001C001C001C001C001FFE1FFE000000000000000000000000,
    0x000000000000000000000000781E781E7C3E7C3E7C3E766E766E766E724E73CE73CE718E718E700E700E700E700E700E700E700E000000000000000000000000,
    0x0000000000000000000000003C0E3C0E3E0E3E0E3E0E3B0E3B0E3B8E398E398E38CE38CE38EE386E386E383E383E383E381E381E000000000000000000000000,
    0x00000000000000000000000003E00FF80E381C1C1C1C380E380E380E380E380E380E380E380E380E380E1C1C1C1C0E380FF803E0000000000000000000000000,
    0x0000000000000000000000001FF01FFC1C1E1C0F1C071C071C071C071C0F1C1E1FFC1FF01C001C001C001C001C001C001C001C00000000000000000000000000,
    0x00000000000000000000000003E00FF80E381C1C1C1C380E380E380E380E380E380E380E380E380E380E1C1C1C1C0E380FF803E000700038001C001000000000,
    0x0000000000000000000000003FE03FF03878383C381C381C381C381C381C38383FF03FE038F038783838383C381C381E380E380F000000000000000000000000,
    0x00000000000000000000000003F00FFC1E0C3C043800380038003E001FC00FF803FC003C001E000E000E000E201E383C3FF80FE0000000000000000000000000,
    0x0000000000000000000000007FFF7FFF01C001C001C001C001C001C001C001C001C001C001C001C001C001C001C001C001C001C0000000000000000000000000,
    0x000000000000000000000000381C381C381C381C381C381C381C381C381C381C381C381C381C381C381C381C381C1C380FF007E0000000000000000000000000,
    0x0000000000000000000000007007780F380E380E380E1C1C1C1C1C1C1E3C0E380E380E3807700770077003E003E003E003E001C0000000000000000000000000,
    0x000000000000000000000000E007E007E007700E700E700E73CE73CE73CE73CE3BDC3E7C3E7C3E7C3E7C3C3C3C3C1C381C381818000000000000000000000000,
    0x00000000000000000000000078073C0F1C0E1E1E0F3C073807F003F001E001E001E003F007F007780F3C0E1C1E1E3C0E38077807000000000000000000000000,
    0x000000000000000000000000780F380E3C1E1C1C1E3C0E38077007F003E003E001C001C001C001C001C001C001C001C001C001C0000000000000000000000000,
    0x0000000000000000000000003FFE3FFE001E001C003C0078007000F000E001E003C00380078007000F001E001C003C003FFE3FFE000000000000000000000000,
    0x0000000000000000000003F003F003800380038003800380038003800380038003800380038003800380038003800380038003800380038003F003F000000000,
    0x0000000000000000000000007000380038001C001C001C000E000E000700070003800380038001C001C000E000E000700070007000380038001C000000000000,
    0x0000000000000000000007E007E000E000E000E000E000E000E000E000E000E000E000E000E000E000E000E000E000E000E000E000E000E007E007E000000000,
    0x00000000000000000000000003C003C007E00E700C301818381C700E000000000000000000000000000000000000000000000000000000000000000000000000,
    0x0000000000000000000000000000000000000000000000000000000000000000000000000000000000000000000000000000000000000000000000000000FFFF,
    0x00000000000000000E0007000300018000C000000000000000000000000000000000000000000000000000000000000000000000000000000000000000000000,
    0x0000000000000000000000000000000000000000000007F01FFC181C000E000E07FE0FFE1C0E380E380E381E381E3C3E1FEE07CE000000000000000000000000,
    0x000000000000000000001C001C001C001C001C001C001CF81FFC1F1E1E0E1C071C071C071C071C071C071C071E0E1F1E1FFC1CF8000000000000000000000000,
    0x0000000000000000000000000000000000000000000001F007F80F0C0E001C001C001C001C001C001C001E000E000F0C07F801F0000000000000000000000000,
    0x00000000000000000000000E000E000E000E000E000E07CE0FFE1E3E1C1E380E380E380E380E380E380E380E1C1E1E3E0FFE07CE000000000000000000000000,
    0x0000000000000000000000000000000000000000000003E00FF81E3C1C1C3C0E380E380E3FFE3FFE380038001C041E0C0FF803E0000000000000000000000000,
    0x00000000000000000000007E00FE01E001C001C001C01FFE1FFE01C001C001C001C001C001C001C001C001C001C001C001C001C0000000000000000000000000,
    0x0000000000000000000000000000000000000000000007CE0FEE1E3E1C1E380E380E380E380E380E380E380E1C1E1E3E0FEE07CE000E000E001C083C0FF807E0,
    0x000000000000000000001C001C001C001C001C001C001CF01DF81E3C1E1C1C1C1C1C1C1C1C1C1C1C1C1C1C1C1C1C1C1C1C1C1C1C000000000000000000000000,
    0x0000000000000000000001C001C001C00000000000001FC01FC001C001C001C001C001C001C001C001C001C001C001C03FFE3FFE000000000000000000000000,
    0x0000000000000000000000E000E000E00000000000000FE00FE000E000E000E000E000E000E000E000E000E000E000E000E000E000E000E000E001C01FC01F00,
    0x000000000000000000001C001C001C001C001C001C001C0F1C1E1C3C1C781CF01DE01FC01FE01FE01EF01C781C3C1C1C1C1E1C0F000000000000000000000000,
    0x000000000000000000007F807F80038003800380038003800380038003800380038003800380038003800380038001C001FC007C000000000000000000000000,
    0x00000000000000000000000000000000000000000000771C7FBE71E771C771C771C771C771C771C771C771C771C771C771C771C7000000000000000000000000,
    0x000000000000000000000000000000000000000000001CF01DF81E3C1E1C1C1C1C1C1C1C1C1C1C1C1C1C1C1C1C1C1C1C1C1C1C1C000000000000000000000000,
    0x0000000000000000000000000000000000000000000003E00FF81E3C1C1C380E380E380E380E380E380E380E1C1C1E3C0FF803E0000000000000000000000000,
    0x000000000000000000000000000000000000000000001CF81FFC1F1E1E0E1C071C071C071C071C071C071C071E0E1F1E1FFC1CF81C001C001C001C001C001C00,
    0x0000000000000000000000000000000000000000000007CE0FFE1E3E1C1E380E380E380E380E380E380E380E1C1E1E3E0FFE07CE000E000E000E000E000E000E,
    0x00000000000000000000000000000000000000000000073C077E07C2078007800700070007000700070007000700070007000700000000000000000000000000,
    0x0000000000000000000000000000000000000000000003F00FF81E081C001C001F000FF007F800FC003C001C001C103C1FF807E0000000000000000000000000,
    0x000000000000000000000000000003800380038003803FFE3FFE038003800380038003800380038003800380038003C001FE00FE000000000000000000000000,
    0x000000000000000000000000000000000000000000001C1C1C1C1C1C1C1C1C1C1C1C1C1C1C1C1C1C1C1C1C1C1C3C1E3C0FDC079C000000000000000000000000,
    0x00000000000000000000000000000000000000000000700E381C381C381C1C381C381E780E700E700FF007E007E007E003C003C0000000000000000000000000,
    0x00000000000000000000000000000000000000000000E007E007700E700E718E718E7BDE3BDC3A5C3A5C3E7C1E781C381C381C38000000000000000000000000,
    0x000000000000000000000000000000000000000000003C3C1E780E700FF007E003C003C0018003C007E00FF00E701E783C3C781E000000000000000000000000,
    0x00000000000000000000000000000000000000000000700E381C381C3C3C1C381C381E780E700E7007E007E007E003C003C003800380038007000F003E003C00,
    0x000000000000000000000000000000000000000000001FFC1FFC003C0078007000F001E001C003C0078007000F001E001FFC1FFC000000000000000000000000,
    0x00000000000000000000007C00FC01E001C001C001C001C001C001C001C001C003801F001F00038001C001C001C001C001C001C001C001C001E000FC007C0000,
    0x00000000000000000000018001800180018001800180018001800180018001800180018001800180018001800180018001800180018001800180018001800180,
    0x000000000000000000001F001F8003C001C001C001C001C001C001C001C001C000E0007C007C00E001C001C001C001C001C001C001C001C003C01F801F000000])"

lemma length_asc2_3216 [simp]: "length asc2_3216 = 6016"
  by (simp add: asc2_3216_def length_concat)

text \<open>\<open>ucAscii_1608\<close> of \<open>drivers/ascii.h\<close>, the font of the mixed Chinese and English text: one row of 16
  bytes per character, the blank to the tilde, least significant bit leftmost.\<close>

definition ucAscii_1608 :: "byte list list" where
  "ucAscii_1608 = map (glyph_bytes 16) [
    0x00000000000000000000000000000000, 0x000000183C3C3C181800181800000000,
    0x00000066666600000000000000000000, 0x0000006C6CFE6C6C6CFE6C6C00000000,
    0x0018183C66060C183060663C18180000, 0x00000E1B5B6E30180C76DAD870000000,
    0x0000001C36361C06F66666DC00000000, 0x00000018181800000000000000000000,
    0x0000003018180C0C0C0C0C1818300000, 0x0000000C1818303030303018180C0000,
    0x00000000006C38FE386C000000000000, 0x000000000018187E1818000000000000,
    0x00000000000000000000383830180000, 0x000000000000007E0000000000000000,
    0x00000000000000000000383800000000, 0x0000006060303018180C0C0606000000,
    0x00000078CCECECCCDCDCCC7800000000, 0x00000030383E30303030303000000000,
    0x0000003C66666030180C067E00000000, 0x0000003C666660386066663C00000000,
    0x0000000C0C6C6C6C66FE606000000000, 0x0000007E0606063E6060301E00000000,
    0x00000038180C3E666666663C00000000, 0x0000007E60303018180C0C0C00000000,
    0x0000003C66666E3C7666663C00000000, 0x0000003C666666667C30181C00000000,
    0x00000000003838000000383800000000, 0x00000000003838000000383830180000,
    0x0000006030180C060C18306000000000, 0x0000000000007E007E00000000000000,
    0x000000060C18306030180C0600000000, 0x0000003C666630181800181800000000,
    0x0000007EC3C3F3DBDBF303FE00000000, 0x000000183C6666667E66666600000000,
    0x0000003E6666663E6666663E00000000, 0x0000003C666606060666663C00000000,
    0x0000001E366666666666361E00000000, 0x0000007E0606063E0606067E00000000,
    0x0000007E0606063E0606060600000000, 0x0000003C666606067666667C00000000,
    0x000000666666667E6666666600000000, 0x0000003C181818181818183C00000000,
    0x00000060606060606066663C00000000, 0x000000666636361E3636666600000000,
    0x00000006060606060606067E00000000, 0x000000C6C6EED6D6D6C6C6C600000000,
    0x000000C6C6CEDEF6E6C6C6C600000000, 0x0000003C666666666666663C00000000,
    0x0000003E6666663E0606060600000000, 0x0000003C666666666666663C30600000,
    0x0000003E6666663E3666666600000000, 0x0000003C66060C183060663C00000000,
    0x0000007E181818181818181800000000, 0x00000066666666666666663C00000000,
    0x000000666666666666663C1800000000, 0x000000C6C6C6D6D6D66C6C6C00000000,
    0x00000066662C18183466666600000000, 0x000000666666663C1818181800000000,
    0x0000007E606030180C06067E00000000, 0x0000003C0C0C0C0C0C0C0C0C0C0C3C00,
    0x00000006060C0C181830306060000000, 0x0000003C303030303030303030303C00,
    0x00183C66000000000000000000000000, 0x0000000000000000000000000000FF00,
    0x001C1830000000000000000000000000, 0x00000000003C60607C66667C00000000,
    0x00000006063E66666666663E00000000, 0x00000000003C66060606663C00000000,
    0x00000060607C66666666667C00000000, 0x00000000003C66667E06063C00000000,
    0x000000780C0C0C7E0C0C0C0C00000000, 0x00000000007C66666666667C60603E00,
    0x00000006063E66666666666600000000, 0x00001818001E18181818187E00000000,
    0x00003030003C30303030303030301E00, 0x00000006066666361E36666600000000,
    0x0000001E181818181818187E00000000, 0x00000000007ED6D6D6D6D6C600000000,
    0x00000000003E66666666666600000000, 0x00000000003C66666666663C00000000,
    0x00000000003E66666666663E06060600, 0x00000000007C66666666667C60606000,
    0x000000000066760E0606060600000000, 0x00000000007C06063C60603E00000000,
    0x0000000C0C7E0C0C0C0C0C7800000000, 0x00000000006666666666667C00000000,
    0x000000000066666666663C1800000000, 0x0000000000C6D6D6D6D66C6C00000000,
    0x000000000066663C183C666600000000, 0x00000000006666666666663C30180F00,
    0x00000000007E6030180C067E00000000, 0x000000301818180C060C181818300000,
    0x00000018181818181818181818181800, 0x0000000C1818183060301818180C0000,
    0x0000008EDB7100000000000000000000]"

lemma length_ucAscii_1608 [simp]: "length ucAscii_1608 = 95"
  by (simp add: ucAscii_1608_def)

lemma length_ucAscii_1608_row: "i < 95 \<Longrightarrow> length (ucAscii_1608 ! i) = 16"
proof -
  assume "i < 95"
  moreover have "list_all (\<lambda>r. length r = 16) ucAscii_1608"
    by (simp add: ucAscii_1608_def list_all_iff)
  ultimately show ?thesis by (simp add: list_all_length)
qed

end
