(* ===== verification/Kservice_String.thy ===== *)
theory Kservice_String
  imports Prelude
begin

text \<open>
  The memory and string routines of \<open>rt-thread/src/kservice.c\<close>.

  A buffer is the list of the bytes from the pointer to the end of its object; an access past its
  end is the fault \<open>Out_Of_Bounds\<close>. A read-only C string is the list of its bytes before the NUL:
  reading the empty list is reading the NUL. \<open>char\<close> is unsigned, as on the ARM compiler the
  project is built with, and \<open>long\<close> has 32 bits.
\<close>

section \<open>rt_memset\<close>

text \<open>The bytes of a stored word, least significant first.\<close>

definition word_bytes :: "u32 \<Rightarrow> byte list" where
  "word_bytes w = [ucast w, ucast (drop_bit 8 w), ucast (drop_bit 16 w), ucast (drop_bit 24 w)]"

definition put_word :: "u32 \<Rightarrow> nat \<Rightarrow> byte list \<Rightarrow> byte list cres" where
  "put_word w p buf =
     (if p + 4 \<le> length buf then Inr (overlay p (word_bytes w) buf) else Inl Out_Of_Bounds)"

text \<open>\<open>while (count >= LBLOCKSIZE * 4)\<close>: four words a round.\<close>

fun memset_blocks :: "u32 \<Rightarrow> nat \<Rightarrow> nat \<Rightarrow> byte list \<Rightarrow> (nat \<times> nat \<times> byte list) cres" where
  "memset_blocks w p count buf =
     (if count < 16 then Inr (p, count, buf)
      else cbind (put_word w p buf) (\<lambda>buf.
           cbind (put_word w (p + 4) buf) (\<lambda>buf.
           cbind (put_word w (p + 8) buf) (\<lambda>buf.
           cbind (put_word w (p + 12) buf) (\<lambda>buf.
             memset_blocks w (p + 16) (count - 16) buf)))))"

text \<open>\<open>while (count >= LBLOCKSIZE)\<close>: one word a round.\<close>

fun memset_words :: "u32 \<Rightarrow> nat \<Rightarrow> nat \<Rightarrow> byte list \<Rightarrow> (nat \<times> nat \<times> byte list) cres" where
  "memset_words w p count buf =
     (if count < 4 then Inr (p, count, buf)
      else cbind (put_word w p buf) (\<lambda>buf. memset_words w (p + 4) (count - 4) buf))"

text \<open>\<open>while (count--) *m++ = (char)d\<close>.\<close>

fun memset_bytes :: "byte \<Rightarrow> nat \<Rightarrow> nat \<Rightarrow> byte list \<Rightarrow> byte list cres" where
  "memset_bytes d p 0 buf = Inr buf"
| "memset_bytes d p (Suc count) buf =
     cbind (buf_put p d buf) (\<lambda>buf. memset_bytes d (Suc p) count buf)"

text \<open>\<open>addr\<close> is the address of the buffer: only its alignment matters.\<close>

definition rt_memset :: "nat \<Rightarrow> byte list \<Rightarrow> int \<Rightarrow> nat \<Rightarrow> byte list cres" where
  "rt_memset addr s c count =
     (let d = (word_of_int c :: u32) AND 0xff;
          buffer = (push_bit 8 d) OR d;
          buffer = buffer OR (push_bit 16 buffer)
      in if \<not> count < 4 \<and> addr mod 4 = 0
         then cbind (memset_blocks buffer 0 count s) (\<lambda>(p, count, s).
              cbind (memset_words buffer p count s) (\<lambda>(p, count, s).
                memset_bytes (ucast d) p count s))
         else memset_bytes (ucast d) 0 count s)"

section \<open>rt_memcpy and rt_memmove\<close>

definition copy_word :: "byte list \<Rightarrow> nat \<Rightarrow> byte list \<Rightarrow> byte list cres" where
  "copy_word src p dst =
     (if p + 4 \<le> length src \<and> p + 4 \<le> length dst
      then Inr (overlay p (take 4 (drop p src)) dst) else Inl Out_Of_Bounds)"

definition copy_byte :: "byte list \<Rightarrow> nat \<Rightarrow> byte list \<Rightarrow> byte list cres" where
  "copy_byte src p dst = cbind (buf_get p src) (\<lambda>b. buf_put p b dst)"

fun memcpy_blocks :: "byte list \<Rightarrow> nat \<Rightarrow> nat \<Rightarrow> byte list \<Rightarrow> (nat \<times> nat \<times> byte list) cres" where
  "memcpy_blocks src p len dst =
     (if len < 16 then Inr (p, len, dst)
      else cbind (copy_word src p dst) (\<lambda>dst.
           cbind (copy_word src (p + 4) dst) (\<lambda>dst.
           cbind (copy_word src (p + 8) dst) (\<lambda>dst.
           cbind (copy_word src (p + 12) dst) (\<lambda>dst.
             memcpy_blocks src (p + 16) (len - 16) dst)))))"

fun memcpy_words :: "byte list \<Rightarrow> nat \<Rightarrow> nat \<Rightarrow> byte list \<Rightarrow> (nat \<times> nat \<times> byte list) cres" where
  "memcpy_words src p len dst =
     (if len < 4 then Inr (p, len, dst)
      else cbind (copy_word src p dst) (\<lambda>dst. memcpy_words src (p + 4) (len - 4) dst))"

fun memcpy_bytes :: "byte list \<Rightarrow> nat \<Rightarrow> nat \<Rightarrow> byte list \<Rightarrow> byte list cres" where
  "memcpy_bytes src p 0 dst = Inr dst"
| "memcpy_bytes src p (Suc len) dst =
     cbind (copy_byte src p dst) (\<lambda>dst. memcpy_bytes src (Suc p) len dst)"

text \<open>Source and destination are different objects, as \<open>memcpy\<close> requires.\<close>

definition rt_memcpy :: "nat \<Rightarrow> nat \<Rightarrow> byte list \<Rightarrow> byte list \<Rightarrow> nat \<Rightarrow> byte list cres" where
  "rt_memcpy daddr saddr dst src count =
     (if \<not> count < 16 \<and> saddr mod 4 = 0 \<and> daddr mod 4 = 0
      then cbind (memcpy_blocks src 0 count dst) (\<lambda>(p, len, dst).
           cbind (memcpy_words src p len dst) (\<lambda>(p, len, dst).
             memcpy_bytes src p len dst))
      else memcpy_bytes src 0 count dst)"

text \<open>\<open>rt_memmove\<close> inside one object \<open>m\<close>: from offset \<open>s\<close> to offset \<open>d\<close>.\<close>

fun move_down :: "nat \<Rightarrow> nat \<Rightarrow> nat \<Rightarrow> byte list \<Rightarrow> byte list cres" where
  "move_down d s 0 m = Inr m"
| "move_down d s (Suc n) m =
     cbind (buf_get (s + n) m) (\<lambda>b. cbind (buf_put (d + n) b m) (\<lambda>m. move_down d s n m))"

fun move_up :: "nat \<Rightarrow> nat \<Rightarrow> nat \<Rightarrow> byte list \<Rightarrow> byte list cres" where
  "move_up d s 0 m = Inr m"
| "move_up d s (Suc n) m =
     cbind (buf_get s m) (\<lambda>b. cbind (buf_put d b m) (\<lambda>m. move_up (Suc d) (Suc s) n m))"

definition rt_memmove :: "nat \<Rightarrow> nat \<Rightarrow> nat \<Rightarrow> byte list \<Rightarrow> byte list cres" where
  "rt_memmove dest src n m =
     (if src < dest \<and> dest < src + n then move_down dest src n m else move_up dest src n m)"

section \<open>Comparing and searching\<close>

fun rt_memcmp :: "byte list \<Rightarrow> byte list \<Rightarrow> nat \<Rightarrow> int cres" where
  "rt_memcmp su1 su2 0 = Inr 0"
| "rt_memcmp (a # su1) (b # su2) (Suc count) =
     (let res = uint a - uint b in if res \<noteq> 0 then Inr res else rt_memcmp su1 su2 count)"
| "rt_memcmp _ _ (Suc count) = Inl Out_Of_Bounds"

fun rt_strcmp :: "byte list \<Rightarrow> byte list \<Rightarrow> int" where
  "rt_strcmp (c # cs) (t # ct) = (if c = t then rt_strcmp cs ct else uint c - uint t)"
| "rt_strcmp (c # cs) [] = uint c - 0"
| "rt_strcmp [] (t # ct) = 0 - uint t"
| "rt_strcmp [] [] = 0"

text \<open>The difference is kept in a \<open>signed char\<close>.\<close>

fun rt_strncmp :: "byte list \<Rightarrow> byte list \<Rightarrow> nat \<Rightarrow> int" where
  "rt_strncmp cs ct 0 = 0"
| "rt_strncmp (c # cs) (t # ct) (Suc count) =
     (if c - t \<noteq> 0 then sint (c - t) else rt_strncmp cs ct count)"
| "rt_strncmp (c # cs) [] (Suc count) = sint c"
| "rt_strncmp [] (t # ct) (Suc count) = sint (0 - t)"
| "rt_strncmp [] [] (Suc count) = 0"

definition fold_case :: "byte \<Rightarrow> int" where
  "fold_case b = (let ca = uint b in if 65 \<le> ca \<and> ca \<le> 90 then ca + 32 else ca)"

fun rt_strcasecmp :: "byte list \<Rightarrow> byte list \<Rightarrow> u32" where
  "rt_strcasecmp (c # a) (t # b) =
     (if fold_case c = fold_case t then rt_strcasecmp a b
      else word_of_int (fold_case c - fold_case t))"
| "rt_strcasecmp (c # a) [] = word_of_int (fold_case c - 0)"
| "rt_strcasecmp [] (t # b) = word_of_int (0 - fold_case t)"
| "rt_strcasecmp [] [] = 0"

text \<open>\<open>rt_strlen\<close> and \<open>rt_strnlen\<close> scan a buffer for the NUL.\<close>

fun rt_strlen :: "byte list \<Rightarrow> nat cres" where
  "rt_strlen [] = Inl Out_Of_Bounds"
| "rt_strlen (b # s) = (if b = 0 then Inr 0 else cbind (rt_strlen s) (\<lambda>n. Inr (Suc n)))"

fun rt_strnlen :: "byte list \<Rightarrow> nat \<Rightarrow> nat cres" where
  "rt_strnlen s 0 = (if s = [] then Inl Out_Of_Bounds else Inr 0)"
| "rt_strnlen [] (Suc maxlen) = Inl Out_Of_Bounds"
| "rt_strnlen (b # s) (Suc maxlen) =
     (if b = 0 then Inr 0 else cbind (rt_strnlen s maxlen) (\<lambda>n. Inr (Suc n)))"

text \<open>\<open>rt_strstr\<close>: the suffix of \<open>s1\<close> that starts with \<open>s2\<close>, \<open>None\<close> for the null pointer.\<close>

fun strstr_loop :: "byte list \<Rightarrow> byte list \<Rightarrow> byte list option cres" where
  "strstr_loop s1 s2 =
     (if length s2 \<le> length s1
      then cbind (rt_memcmp s1 s2 (length s2)) (\<lambda>r.
             if r = 0 then Inr (Some s1)
             else (case s1 of [] \<Rightarrow> Inr None | _ # s1' \<Rightarrow> strstr_loop s1' s2))
      else Inr None)"

definition rt_strstr :: "byte list \<Rightarrow> byte list \<Rightarrow> byte list option cres" where
  "rt_strstr s1 s2 = (if length s2 = 0 then Inr (Some s1) else strstr_loop s1 s2)"

section \<open>rt_strncpy\<close>

text \<open>Copying stops at the NUL of the source (the empty list) or after \<open>n\<close> bytes; the rest of
  the \<open>n\<close> bytes is padded with NULs.\<close>

fun strncpy_loop :: "nat \<Rightarrow> byte list \<Rightarrow> nat \<Rightarrow> byte list \<Rightarrow> byte list cres" where
  "strncpy_loop d src 0 dst = Inr dst"
| "strncpy_loop d (b # src) (Suc n) dst =
     cbind (buf_put d b dst) (\<lambda>dst. strncpy_loop (Suc d) src n dst)"
| "strncpy_loop d [] (Suc n) dst = memset_bytes 0 d (Suc n) dst"

definition rt_strncpy :: "byte list \<Rightarrow> byte list \<Rightarrow> nat \<Rightarrow> byte list cres" where
  "rt_strncpy dst src n = strncpy_loop 0 src n dst"


section \<open>Block stores\<close>

declare memset_blocks.simps [simp del] memset_words.simps [simp del]
declare memcpy_blocks.simps [simp del] memcpy_words.simps [simp del]
declare strstr_loop.simps [simp del]

text \<open>
  The blocked loops of \<open>rt_memset\<close> and \<open>rt_memcpy\<close> store a prefix of a known byte sequence; one
  lemma per loop says which, and when it runs off the object.
\<close>

lemma put_word_replicate:
  "word_bytes w = replicate 4 d \<Longrightarrow>
   put_word w p buf =
     (if p + 4 \<le> length buf then Inr (overlay p (replicate 4 d) buf) else Inl Out_Of_Bounds)"
  by (simp add: put_word_def)

lemma overlay_replicate:
  "overlay (p + m) (replicate n d) (overlay p (replicate m d) buf) = overlay p (replicate (m + n) d) buf"
  using overlay_append[of p "replicate m d" "replicate n d" buf] by (simp add: replicate_add)

lemma memset_bytes_eq:
  "memset_bytes d p n buf =
     (if n = 0 \<or> p + n \<le> length buf then Inr (overlay p (replicate n d) buf) else Inl Out_Of_Bounds)"
proof (induction n arbitrary: p buf)
  case (Suc n)
  show ?case
  proof (cases "p < length buf")
    case True
    then have "n = 0 \<Longrightarrow> buf[p := d] = overlay p [d] buf"
      using overlay_Cons[of p buf "[]" d] by simp
    with True Suc show ?thesis by (auto simp: overlay_Cons)
  qed simp
qed simp

lemma memset_words_eq:
  assumes "word_bytes w = replicate 4 d"
  shows "memset_words w p n buf =
     (if n < 4 \<or> p + 4 * (n div 4) \<le> length buf
      then Inr (p + 4 * (n div 4), n mod 4, overlay p (replicate (4 * (n div 4)) d) buf)
      else Inl Out_Of_Bounds)"
proof (induction n arbitrary: p buf rule: less_induct)
  case (less n)
  show ?case
  proof (cases "n < 4")
    case True
    then show ?thesis by (simp add: memset_words.simps)
  next
    case False
    then obtain m where n: "n = m + 4" by (metis le_add_diff_inverse2 not_less)
    have IH: "memset_words w q m b =
     (if m < 4 \<or> q + 4 * (m div 4) \<le> length b
      then Inr (q + 4 * (m div 4), m mod 4, overlay q (replicate (4 * (m div 4)) d) b)
      else Inl Out_Of_Bounds)" for q b
      using less[of m] n by simp
    have div: "(m + 4) div 4 = Suc (m div 4)" by simp
    show ?thesis
      unfolding n memset_words.simps[of w p "m + 4"] div
      by (auto simp: IH put_word_replicate[OF assms] overlay_replicate simp flip: replicate_add)
  qed
qed

lemma memset_blocks_eq:
  assumes "word_bytes w = replicate 4 d"
  shows "memset_blocks w p n buf =
     (if n < 16 \<or> p + 16 * (n div 16) \<le> length buf
      then Inr (p + 16 * (n div 16), n mod 16, overlay p (replicate (16 * (n div 16)) d) buf)
      else Inl Out_Of_Bounds)"
proof (induction n arbitrary: p buf rule: less_induct)
  case (less n)
  show ?case
  proof (cases "n < 16")
    case True
    then show ?thesis by (simp add: memset_blocks.simps)
  next
    case False
    then obtain m where n: "n = m + 16" by (metis le_add_diff_inverse2 not_less)
    have IH: "memset_blocks w q m b =
     (if m < 16 \<or> q + 16 * (m div 16) \<le> length b
      then Inr (q + 16 * (m div 16), m mod 16, overlay q (replicate (16 * (m div 16)) d) b)
      else Inl Out_Of_Bounds)" for q b
      using less[of m] n by simp
    have four: "cbind (put_word w p b) (\<lambda>b. cbind (put_word w (p + 4) b) (\<lambda>b.
        cbind (put_word w (p + 8) b) (\<lambda>b. cbind (put_word w (p + 12) b) f))) =
      (if p + 16 \<le> length b then f (overlay p (replicate 16 d) b) else Inl Out_Of_Bounds)" for b f
      using overlay_replicate[of p 4 4 d b] overlay_replicate[of p 8 4 d b] overlay_replicate[of p 12 4 d b]
      by (auto simp: put_word_replicate[OF assms])
    have div: "(m + 16) div 16 = Suc (m div 16)" by simp
    show ?thesis
      unfolding n memset_blocks.simps[of w p "m + 16"] div
      by (auto simp: IH four overlay_replicate simp flip: replicate_add)
  qed
qed

lemma memset_pattern:
  fixes c :: int
  defines "d \<equiv> (word_of_int c :: u32) AND 0xff"
  defines "b \<equiv> push_bit 8 d OR d"
  shows "word_bytes (b OR push_bit 16 b) = replicate 4 (ucast d)"
    and "ucast d = (word_of_int c :: byte)"
proof -
  have m: "(0xff::u32) = mask 8" by (simp add: mask_eq_exp_minus_1)
  have d: "bit d n \<longleftrightarrow> n < 8 \<and> bit c n" for n
    unfolding d_def m by (auto simp: bit_simps)
  show "ucast d = (word_of_int c :: byte)"
    by (rule bit_word_eqI) (auto simp: bit_simps d)
  have b: "bit b n \<longleftrightarrow> n < 16 \<and> bit c (n mod 8)" for n
    unfolding b_def by (cases "n < 8") (auto simp: bit_or_iff bit_push_bit_iff d le_mod_geq)
  obtain w where w_eq: "w = b OR push_bit 16 b" by simp
  have w: "bit w n \<longleftrightarrow> n < 32 \<and> bit c (n mod 8)" for n
  proof (cases "n < 16")
    case False
    then have "n mod 8 = (n - 16) mod 8" by (simp add: le_mod_geq)
    with False show ?thesis unfolding w_eq by (auto simp: bit_or_iff bit_push_bit_iff b)
  qed (auto simp: w_eq bit_or_iff bit_push_bit_iff b)
  have "ucast (drop_bit (8 * k) w) = (ucast d :: byte)" if "k < 4" for k
  proof (rule bit_word_eqI)
    fix n assume "n < LENGTH(8)"
    then have "n < 8" by simp
    then show "bit (ucast (drop_bit (8 * k) w) :: byte) n = bit (ucast d :: byte) n"
      using that by (simp add: bit_unsigned_iff bit_drop_bit_eq w d)
  qed
  from this[of 0] this[of 1] this[of 2] this[of 3]
  show "word_bytes (b OR push_bit 16 b) = replicate 4 (ucast d)"
    unfolding w_eq[symmetric] by (simp add: word_bytes_def numeral_eq_Suc)
qed

lemma rt_memset_eq:
  "rt_memset addr s c count =
     (if count \<le> length s then Inr (overlay 0 (replicate count (word_of_int c)) s)
      else Inl Out_Of_Bounds)"
proof -
  obtain d b w where d: "d = (word_of_int c :: u32) AND 0xff" and b: "b = push_bit 8 d OR d"
    and w: "w = b OR push_bit 16 b" by simp
  have pat: "word_bytes w = replicate 4 (word_of_int c)" and dc: "ucast d = (word_of_int c :: byte)"
    using memset_pattern[of c] unfolding d b w by simp_all
  define q r where "q = 16 * (count div 16)" and "r = count mod 16"
  define q' r' where "q' = 4 * (r div 4)" and "r' = r mod 4"
  have count: "count = q + (q' + r')" and r: "r = q' + r'" and small: "count < 16 \<Longrightarrow> q = 0"
    "r < 4 \<Longrightarrow> q' = 0"
    by (simp_all add: q_def r_def q'_def r'_def)
  note eqs = memset_blocks_eq[OF pat, of 0 count, folded q_def r_def]
    memset_words_eq[OF pat, of _ r, folded q'_def r'_def]
  have over: "overlay (q + q') (replicate r' e) (overlay 0 (replicate (q + q') e) t) =
      overlay 0 (replicate (q + (q' + r')) e) t" for e :: byte and t
    using overlay_replicate[of 0 "q + q'" r' e t] by (simp add: add.assoc)
  have over': "overlay q (replicate m e) (overlay 0 (replicate q e) t) =
      overlay 0 (replicate (q + m) e) t" for e :: byte and t m
    using overlay_replicate[of 0 q m e t] by simp
  have rest: "cbind (memset_words w q r (overlay 0 (replicate q (word_of_int c)) s))
      (\<lambda>(p, count, s). memset_bytes (ucast d) p count s) =
    (if count \<le> length s \<or> r = 0 then Inr (overlay 0 (replicate count (word_of_int c)) s)
      else Inl Out_Of_Bounds)"
    using small unfolding eqs(2) dc
    by (auto simp: memset_bytes_eq count r over over')
  show ?thesis
  proof (cases "\<not> count < 4 \<and> addr mod 4 = 0")
    case True
    then have "rt_memset addr s c count = cbind (memset_blocks w 0 count s) (\<lambda>(p, count, s).
        cbind (memset_words w p count s) (\<lambda>(p, count, s). memset_bytes (ucast d) p count s))"
      unfolding rt_memset_def Let_def d[symmetric] b[symmetric] w[symmetric] by simp
    also have "\<dots> = (if count \<le> length s then Inr (overlay 0 (replicate count (word_of_int c)) s)
      else Inl Out_Of_Bounds)"
      unfolding eqs(1) using rest small count r by auto
    finally show ?thesis .
  next
    case False
    then show ?thesis
      unfolding rt_memset_def Let_def d[symmetric] b[symmetric] w[symmetric]
      by (auto simp: memset_bytes_eq dc)
  qed
qed

text \<open>C28. \<open>rt_memset\<close>, whatever the alignment of the buffer, stores the low byte of \<open>c\<close> in exactly
  the first \<open>count\<close> bytes, and leaves the object exactly when the buffer is shorter.\<close>

theorem rt_memset_correct:
  "rt_memset addr s c count =
     (if count \<le> length s then Inr (overlay 0 (replicate count (word_of_int c)) s)
      else Inl Out_Of_Bounds)"
  by (rule rt_memset_eq)


section \<open>Block copies\<close>

lemma overlay_slice:
  assumes "p + m \<le> length src"
  shows "overlay (p + m) (take n (drop (p + m) src)) (overlay p (take m (drop p src)) dst) =
    overlay p (take (m + n) (drop p src)) dst"
proof -
  have "length (take m (drop p src)) = m" using assms by simp
  then show ?thesis
    using overlay_append[of p "take m (drop p src)" "take n (drop (p + m) src)" dst]
    by (simp add: take_add add.commute)
qed

lemma memcpy_bytes_eq:
  "memcpy_bytes src p n dst =
     (if n = 0 \<or> p + n \<le> length src \<and> p + n \<le> length dst
      then Inr (overlay p (take n (drop p src)) dst) else Inl Out_Of_Bounds)"
proof (induction n arbitrary: p dst)
  case (Suc n)
  show ?case
  proof (cases "p < length src \<and> p < length dst")
    case True
    then have "take (Suc n) (drop p src) = src ! p # take n (drop (Suc p) src)"
      by (simp add: Cons_nth_drop_Suc[symmetric])
    moreover have "n = 0 \<Longrightarrow> dst[p := src ! p] = overlay p [src ! p] dst"
      using True overlay_Cons[of p dst "[]" "src ! p"] by simp
    ultimately show ?thesis
      using True Suc by (auto simp: copy_byte_def overlay_Cons)
  next
    case False
    then show ?thesis by (auto simp: copy_byte_def buf_get_def not_less)
  qed
qed simp

lemma memcpy_words_eq:
  "memcpy_words src p n dst =
     (if n < 4 \<or> p + 4 * (n div 4) \<le> length src \<and> p + 4 * (n div 4) \<le> length dst
      then Inr (p + 4 * (n div 4), n mod 4, overlay p (take (4 * (n div 4)) (drop p src)) dst)
      else Inl Out_Of_Bounds)"
proof (induction n arbitrary: p dst rule: less_induct)
  case (less n)
  show ?case
  proof (cases "n < 4")
    case True
    then show ?thesis by (simp add: memcpy_words.simps)
  next
    case False
    then obtain m where n: "n = m + 4" by (metis le_add_diff_inverse2 not_less)
    have IH: "memcpy_words src q m b =
     (if m < 4 \<or> q + 4 * (m div 4) \<le> length src \<and> q + 4 * (m div 4) \<le> length b
      then Inr (q + 4 * (m div 4), m mod 4, overlay q (take (4 * (m div 4)) (drop q src)) b)
      else Inl Out_Of_Bounds)" for q b
      using less[of m] n by simp
    have div: "(m + 4) div 4 = Suc (m div 4)" by simp
    show ?thesis
      unfolding n memcpy_words.simps[of src p "m + 4"] div
      by (auto simp: IH copy_word_def overlay_slice)
  qed
qed

lemma memcpy_blocks_eq:
  "memcpy_blocks src p n dst =
     (if n < 16 \<or> p + 16 * (n div 16) \<le> length src \<and> p + 16 * (n div 16) \<le> length dst
      then Inr (p + 16 * (n div 16), n mod 16, overlay p (take (16 * (n div 16)) (drop p src)) dst)
      else Inl Out_Of_Bounds)"
proof (induction n arbitrary: p dst rule: less_induct)
  case (less n)
  show ?case
  proof (cases "n < 16")
    case True
    then show ?thesis by (simp add: memcpy_blocks.simps)
  next
    case False
    then obtain m where n: "n = m + 16" by (metis le_add_diff_inverse2 not_less)
    have IH: "memcpy_blocks src q m b =
     (if m < 16 \<or> q + 16 * (m div 16) \<le> length src \<and> q + 16 * (m div 16) \<le> length b
      then Inr (q + 16 * (m div 16), m mod 16, overlay q (take (16 * (m div 16)) (drop q src)) b)
      else Inl Out_Of_Bounds)" for q b
      using less[of m] n by simp
    have four: "cbind (copy_word src p b) (\<lambda>b. cbind (copy_word src (p + 4) b) (\<lambda>b.
        cbind (copy_word src (p + 8) b) (\<lambda>b. cbind (copy_word src (p + 12) b) f))) =
      (if p + 16 \<le> length src \<and> p + 16 \<le> length b
       then f (overlay p (take 16 (drop p src)) b) else Inl Out_Of_Bounds)" for b f
      using overlay_slice[of p 4 src 4 b] overlay_slice[of p 8 src 4 b] overlay_slice[of p 12 src 4 b]
      by (auto simp: copy_word_def)
    have div: "(m + 16) div 16 = Suc (m div 16)" by simp
    show ?thesis
      unfolding n memcpy_blocks.simps[of src p "m + 16"] div
      by (auto simp: IH four overlay_slice)
  qed
qed

lemma rt_memcpy_eq:
  "rt_memcpy daddr saddr dst src count =
     (if count \<le> length src \<and> count \<le> length dst then Inr (overlay 0 (take count src) dst)
      else Inl Out_Of_Bounds)"
proof -
  define q r where "q = 16 * (count div 16)" and "r = count mod 16"
  define q' r' where "q' = 4 * (r div 4)" and "r' = r mod 4"
  have count: "count = q + (q' + r')" and r: "r = q' + r'" and small: "count < 16 \<Longrightarrow> q = 0"
    "r < 4 \<Longrightarrow> q' = 0"
    by (simp_all add: q_def r_def q'_def r'_def)
  note eqs = memcpy_blocks_eq[of src 0 count, folded q_def r_def]
    memcpy_words_eq[of src _ r, folded q'_def r'_def]
  have over: "q + q' \<le> length src \<Longrightarrow> overlay (q + q') (take r' (drop (q + q') src))
      (overlay 0 (take (q + q') src) t) = overlay 0 (take (q + (q' + r')) src) t" for t
    using overlay_slice[of 0 "q + q'" src r' t] by (simp add: add.assoc)
  have over': "q \<le> length src \<Longrightarrow> overlay q (take m (drop q src)) (overlay 0 (take q src) t) =
      overlay 0 (take (q + m) src) t" for t m
    using overlay_slice[of 0 q src m t] by simp
  have rest: "cbind (memcpy_words src q r (overlay 0 (take q src) dst))
      (\<lambda>(p, len, dst). memcpy_bytes src p len dst) =
    (if count \<le> length src \<and> count \<le> length dst \<or> r = 0
     then Inr (overlay 0 (take count src) dst) else Inl Out_Of_Bounds)"
    if "q \<le> length src" "q \<le> length dst"
    using small that unfolding eqs(2)
    by (auto simp: memcpy_bytes_eq count r over over')
  show ?thesis
  proof (cases "\<not> count < 16 \<and> saddr mod 4 = 0 \<and> daddr mod 4 = 0")
    case True
    then have "rt_memcpy daddr saddr dst src count = cbind (memcpy_blocks src 0 count dst)
        (\<lambda>(p, len, dst). cbind (memcpy_words src p len dst)
          (\<lambda>(p, len, dst). memcpy_bytes src p len dst))"
      unfolding rt_memcpy_def by simp
    also have "\<dots> = (if count \<le> length src \<and> count \<le> length dst
      then Inr (overlay 0 (take count src) dst) else Inl Out_Of_Bounds)"
      unfolding eqs(1) using rest small count r by auto
    finally show ?thesis .
  next
    case False
    then show ?thesis
      unfolding rt_memcpy_def by (auto simp: memcpy_bytes_eq)
  qed
qed

text \<open>C29. \<open>rt_memcpy\<close>, word-wise or byte-wise, copies exactly the first \<open>count\<close> bytes, and leaves
  an object exactly when the source or the destination is shorter.\<close>

theorem rt_memcpy_correct:
  "rt_memcpy daddr saddr dst src count =
     (if count \<le> length src \<and> count \<le> length dst then Inr (overlay 0 (take count src) dst)
      else Inl Out_Of_Bounds)"
  by (rule rt_memcpy_eq)


lemma move_down_eq:
  "s < d \<Longrightarrow> d + n \<le> length m \<Longrightarrow> move_down d s n m = Inr (overlay d (take n (drop s m)) m)"
proof (induction n arbitrary: m)
  case (Suc n)
  let ?m = "m[d + n := m ! (s + n)]"
  have "take n (drop s ?m) = take n (drop s m)"
    using Suc.prems by (simp add: list_eq_iff_nth_eq)
  moreover have "take (Suc n) (drop s m) = take n (drop s m) @ [m ! (s + n)]"
    using Suc.prems by (simp add: take_Suc_conv_app_nth)
  moreover have "overlay d (take n (drop s m)) ?m = (overlay d (take n (drop s m)) m)[d + n := m ! (s + n)]"
    using Suc.prems by (intro nth_equalityI) (auto simp: overlay_nth nth_list_update)
  moreover have "length (take n (drop s m)) = n" using Suc.prems by simp
  ultimately show ?case
    using Suc.prems Suc.IH[of ?m] overlay_snoc[of d "take n (drop s m)" m "m ! (s + n)"]
    by simp
qed simp

lemma move_up_eq:
  "d \<le> s \<or> s + n \<le> d \<Longrightarrow> s + n \<le> length m \<Longrightarrow> d + n \<le> length m \<Longrightarrow>
   move_up d s n m = Inr (overlay d (take n (drop s m)) m)"
proof (induction n arbitrary: d s m)
  case (Suc n)
  let ?m = "m[d := m ! s]"
  have "take n (drop (Suc s) ?m) = take n (drop (Suc s) m)"
    using Suc.prems by (auto simp: list_eq_iff_nth_eq)
  moreover have "take (Suc n) (drop s m) = m ! s # take n (drop (Suc s) m)"
    using Suc.prems by (simp add: Cons_nth_drop_Suc[symmetric])
  ultimately show ?case
    using Suc.prems Suc.IH[of "Suc d" "Suc s" ?m] by (auto simp: overlay_Cons)
qed simp

text \<open>\<open>rt_memmove\<close> moves as if through a copy, however the two ranges overlap.\<close>

theorem rt_memmove_correct:
  assumes "src + n \<le> length m" and "dest + n \<le> length m"
  shows "rt_memmove dest src n m = Inr (overlay dest (take n (drop src m)) m)"
  using assms by (auto simp: rt_memmove_def move_down_eq move_up_eq)

lemma rt_memmove_witness:
  "rt_memmove 1 0 3 [1, 2, 3, 4, 5] = Inr [1, 1, 2, 3, 5]"
  using rt_memmove_correct[of 0 3 "[1, 2, 3, 4, 5]" 1] by (simp add: overlay_def numeral_eq_Suc)

section \<open>Comparison and search\<close>

lemma rt_strcmp_eq_0: "rt_strcmp cs ct = 0 \<longleftrightarrow> cs = ct" if "0 \<notin> set cs" "0 \<notin> set ct"
  using that
  by (induction cs ct rule: rt_strcmp.induct) (auto simp: uint_0_iff simp flip: word_uint_eq_iff)

lemma rt_strncmp_eq_0:
  "0 \<notin> set cs \<Longrightarrow> 0 \<notin> set ct \<Longrightarrow> rt_strncmp cs ct n = 0 \<longleftrightarrow> take n cs = take n ct"
  by (induction cs ct n rule: rt_strncmp.induct) (auto simp: signed_eq_0_iff)

lemma rt_memcmp_eq:
  "n \<le> length xs \<Longrightarrow> n \<le> length ys \<Longrightarrow>
   \<exists>r. rt_memcmp xs ys n = Inr r \<and> (r = 0 \<longleftrightarrow> take n xs = take n ys)"
proof (induction xs ys n rule: rt_memcmp.induct)
  case (2 a su1 b su2 count)
  then show ?case by (cases "a = b") (auto simp: Let_def simp flip: word_uint_eq_iff)
qed simp_all

lemma rt_strlen_eq: "rt_strlen buf = (if 0 \<in> set buf then Inr (length (cstr buf)) else Inl Out_Of_Bounds)"
  by (induction buf) (auto simp: cstr_def)

lemma rt_strlen_cstr [simp]: "0 \<notin> set s \<Longrightarrow> rt_strlen (s @ 0 # t) = Inr (length s)"
  by (simp add: rt_strlen_eq)


text \<open>The sign of \<open>rt_strcmp\<close> is the lexicographic order of the unsigned bytes.\<close>

lemma rt_strcmp_less:
  "0 \<notin> set cs \<Longrightarrow> 0 \<notin> set ct \<Longrightarrow> rt_strcmp cs ct < 0 \<longleftrightarrow> (cs, ct) \<in> lexord {(a, b). a < b}"
proof (induction cs ct rule: rt_strcmp.induct)
  case (1 c cs t ct)
  then show ?case by (auto simp: word_less_def)
next
  case (2 c cs)
  then show ?case by (simp add: not_less)
next
  case (3 t ct)
  then show ?case by (auto simp: uint_0_iff order.strict_iff_order dest: sym)
qed simp


definition first_at :: "byte list \<Rightarrow> byte list \<Rightarrow> nat option" where
  "first_at s2 s1 = find (\<lambda>k. take (length s2) (drop k s1) = s2) [0..<Suc (length s1)]"

lemma find_map: "find P (map f xs) = map_option f (find (P \<circ> f) xs)"
  by (induction xs) simp_all

lemma first_at_Cons:
  "first_at s2 (a # s1) = (if take (length s2) (a # s1) = s2 then Some 0
     else map_option Suc (first_at s2 s1))"
proof -
  have "[0..<Suc (length (a # s1))] = 0 # map Suc [0..<Suc (length s1)]"
    by (simp add: map_Suc_upt upt_conv_Cons del: upt_Suc)
  then show ?thesis
    by (simp add: first_at_def find_map comp_def del: upt_Suc)
qed

lemma first_at_short: "length s1 < length s2 \<Longrightarrow> first_at s2 s1 = None"
  by (auto simp: first_at_def find_None_iff dest!: arg_cong[of _ _ length])

lemma strstr_loop_first:
  "s2 \<noteq> [] \<Longrightarrow> strstr_loop s1 s2 = Inr (map_option (\<lambda>k. drop k s1) (first_at s2 s1))"
proof (induction s1)
  case Nil
  then show ?case by (subst strstr_loop.simps) (simp add: first_at_short)
next
  case (Cons a s1)
  show ?case
  proof (cases "length s2 \<le> length (a # s1)")
    case False
    then show ?thesis by (subst strstr_loop.simps) (simp add: first_at_short)
  next
    case True
    then obtain r where "rt_memcmp (a # s1) s2 (length s2) = Inr r"
      and "r = 0 \<longleftrightarrow> take (length s2) (a # s1) = s2"
      using rt_memcmp_eq[of "length s2" "a # s1" s2] by auto
    with True Cons show ?thesis
      by (subst strstr_loop.simps) (simp add: first_at_Cons option.map_comp comp_def)
  qed
qed

text \<open>\<open>rt_strstr\<close> never leaves its strings and returns the suffix at the least offset where \<open>s2\<close>
  occurs, or the null pointer when it occurs nowhere.\<close>

theorem rt_strstr_first:
  "rt_strstr s1 s2 = Inr (map_option (\<lambda>k. drop k s1)
     (find (\<lambda>k. take (length s2) (drop k s1) = s2) [0..<Suc (length s1)]))"
proof (cases "s2 = []")
  case True
  then show ?thesis by (simp add: rt_strstr_def upt_conv_Cons del: upt_Suc)
qed (simp add: rt_strstr_def strstr_loop_first first_at_def del: upt_Suc)

text \<open>\<open>rt_strncpy\<close> fills exactly \<open>n\<close> bytes: the source, cut or padded with NULs. The result is
  terminated only when the source is shorter than \<open>n\<close>.\<close>

lemma strncpy_loop_eq:
  "strncpy_loop d src n dst =
     (if n = 0 \<or> d + n \<le> length dst
      then Inr (overlay d (take n src @ replicate (n - length src) 0) dst) else Inl Out_Of_Bounds)"
proof (induction d src n dst rule: strncpy_loop.induct)
  case (2 d b src n dst)
  show ?case
  proof (cases "d < length dst")
    case True
    have "n = 0 \<Longrightarrow> dst[d := b] = overlay d [b] dst"
      using True overlay_Cons[of d dst "[]" b] by simp
    with True "2.IH"[of "dst[d := b]"] show ?thesis by (auto simp: overlay_Cons)
  qed simp
qed (simp_all add: memset_bytes_eq del: memset_bytes.simps)

lemma rt_strncpy_eq:
  "rt_strncpy dst src n =
     (if n \<le> length dst
      then Inr (overlay 0 (take n src @ replicate (n - length src) 0) dst) else Inl Out_Of_Bounds)"
  by (auto simp: rt_strncpy_def strncpy_loop_eq)

end
