(* ===== verification/Kservice_Format.thy ===== *)
theory Kservice_Format
  imports Kservice_String
begin

text \<open>
  \<open>print_number\<close> and \<open>rt_vsnprintf\<close> of \<open>rt-thread/src/kservice.c\<close>, as the project configures them:
  \<open>RT_PRINTF_PRECISION\<close> is defined, \<open>RT_PRINTF_LONGLONG\<close> and \<open>RT_PRINTF_SPECIAL\<close> are not, \<open>long\<close> is
  32 bits wide.

  The output pointer \<open>str\<close> is an offset from \<open>buf\<close>; it moves on past \<open>end\<close> while stores stop there.
  A format string is the list of its bytes before the NUL.
\<close>

section \<open>The output cursor\<close>

type_synonym cursor = "nat \<times> byte list"

text \<open>\<open>if (str < end) *str = b; ++ str;\<close>\<close>

definition put :: "nat \<Rightarrow> byte \<Rightarrow> cursor \<Rightarrow> cursor cres" where
  "put en b st = (case st of (str, buf) \<Rightarrow>
     if str < en then cbind (buf_put str b buf) (\<lambda>buf. Inr (Suc str, buf))
     else Inr (Suc str, buf))"

text \<open>\<open>while (n-- > 0)\<close> (or its like) around that store, for a counter that starts at \<open>n\<close>.\<close>

fun put_times :: "nat \<Rightarrow> byte \<Rightarrow> nat \<Rightarrow> cursor \<Rightarrow> cursor cres" where
  "put_times en b 0 st = Inr st"
| "put_times en b (Suc n) st = cbind (put en b st) (put_times en b n)"

fun put_list :: "nat \<Rightarrow> byte list \<Rightarrow> cursor \<Rightarrow> cursor cres" where
  "put_list en [] st = Inr st"
| "put_list en (b # bs) st = cbind (put en b st) (put_list en bs)"

section \<open>print_number\<close>

record fmt_flags =
  ZEROPAD :: bool
  SIGN :: bool
  PLUS :: bool
  SPACE :: bool
  LEFT :: bool
  SPECIAL :: bool
  LARGE :: bool

definition no_flags :: fmt_flags where
  "no_flags = \<lparr>ZEROPAD = False, SIGN = False, PLUS = False, SPACE = False, LEFT = False,
     SPECIAL = False, LARGE = False\<rparr>"

text \<open>\<open>divide\<close> knows two bases: 10, and 16 for everything else.\<close>

definition divide :: "u32 \<Rightarrow> nat \<Rightarrow> u32 \<times> u32" where
  "divide n base = (if base = 10 then (n mod 10, n div 10) else (n mod 16, n div 16))"

definition digit :: "bool \<Rightarrow> u32 \<Rightarrow> byte" where
  "digit large d =
     (if d < 10 then 48 + ucast d else (if large then 65 else 97) + ucast (d - 10))"

text \<open>\<open>tmp\<close>, least significant digit first.\<close>

lemma divide_less: "n \<noteq> 0 \<Longrightarrow> unat (snd (divide n base)) < unat n"
proof -
  assume "n \<noteq> 0"
  then have "0 < unat n" by (simp add: unat_gt_0)
  then show ?thesis by (auto simp: divide_def unat_div)
qed

function tmp_digits :: "bool \<Rightarrow> nat \<Rightarrow> u32 \<Rightarrow> byte list" where
  "tmp_digits large base num =
     (if num = 0 then []
      else digit large (fst (divide num base)) # tmp_digits large base (snd (divide num base)))"
  by pat_completeness auto
termination
  by (relation "measure (\<lambda>(_, _, n). unat n)") (auto simp: divide_less)

declare tmp_digits.simps [simp del]

text \<open>The counter after \<open>while (size-- > 0)\<close>.\<close>

definition run_down :: "int \<Rightarrow> int" where
  "run_down sz = (if sz > 0 then -1 else sz - 1)"

definition print_number ::
  "nat \<Rightarrow> u32 \<Rightarrow> nat \<Rightarrow> int \<Rightarrow> int \<Rightarrow> fmt_flags \<Rightarrow> cursor \<Rightarrow> cursor cres" where
  "print_number en num base s precision fl st =
     (let precision_bak = precision;
          sz = s;
          fl = (if LEFT fl then fl\<lparr>ZEROPAD := False\<rparr> else fl);
          c = (if ZEROPAD fl then 48 else 32);
          neg = (SIGN fl \<and> sint num < 0);
          sign = (if neg then 45
                  else if SIGN fl \<and> PLUS fl then 43
                  else if SIGN fl \<and> SPACE fl then 32 else 0);
          num = (if neg then - num else num);
          tmp = (if num = 0 then [48] else tmp_digits (LARGE fl) base num);
          i = int (length tmp);
          precision = (if i > precision then i else precision);
          sz = sz - precision;
          lead = \<not> (ZEROPAD fl \<or> LEFT fl);
          sz = (if lead \<and> sign \<noteq> 0 \<and> sz > 0 then sz - 1 else sz)
      in cbind (if lead then put_times en 32 (nat sz) st else Inr st) (\<lambda>st.
         let sz = (if lead then run_down sz else sz) in
         cbind (if sign \<noteq> 0 then put en sign st else Inr st) (\<lambda>st.
         let sz = (if sign \<noteq> 0 then sz - 1 else sz) in
         cbind (if \<not> LEFT fl then put_times en c (nat sz) st else Inr st) (\<lambda>st.
         let sz = (if \<not> LEFT fl then run_down sz else sz) in
         cbind (put_times en 48 (nat (precision - i)) st) (\<lambda>st.
         cbind (if precision_bak \<noteq> 0 then put_list en (rev tmp) st else Inr st) (\<lambda>st.
           put_times en 32 (nat sz) st))))))"

section \<open>rt_vsnprintf\<close>

text \<open>The variable arguments: 32-bit integers, pointers to strings (\<open>None\<close> is the null pointer)
  and other pointers.\<close>

datatype fmt_arg = A_Int u32 | A_Str "byte list option" | A_Ptr u32

fun va_int :: "fmt_arg list \<Rightarrow> (u32 \<times> fmt_arg list) cres" where
  "va_int (A_Int n # args) = Inr (n, args)"
| "va_int _ = Inl Bad_Vararg"

fun va_str :: "fmt_arg list \<Rightarrow> (byte list option \<times> fmt_arg list) cres" where
  "va_str (A_Str s # args) = Inr (s, args)"
| "va_str _ = Inl Bad_Vararg"

fun va_ptr :: "fmt_arg list \<Rightarrow> (u32 \<times> fmt_arg list) cres" where
  "va_ptr (A_Ptr p # args) = Inr (p, args)"
| "va_ptr _ = Inl Bad_Vararg"

text \<open>The loop over the flag characters; the format is read after the \<open>%\<close>.\<close>

fun get_flags :: "byte list \<Rightarrow> fmt_flags \<Rightarrow> byte list \<times> fmt_flags" where
  "get_flags [] fl = ([], fl)"
| "get_flags (b # fmt) fl =
     (if b = 45 then get_flags fmt (fl\<lparr>LEFT := True\<rparr>)
      else if b = 43 then get_flags fmt (fl\<lparr>PLUS := True\<rparr>)
      else if b = 32 then get_flags fmt (fl\<lparr>SPACE := True\<rparr>)
      else if b = 35 then get_flags fmt (fl\<lparr>SPECIAL := True\<rparr>)
      else if b = 48 then get_flags fmt (fl\<lparr>ZEROPAD := True\<rparr>)
      else (b # fmt, fl))"

definition isdigit :: "byte \<Rightarrow> bool" where
  "isdigit b = (b - 48 < 10)"

text \<open>\<open>int i\<close>: its 32 bits, which wrap for a width of ten digits and more, and are read with a sign at the end.\<close>

fun skip_atoi :: "byte list \<Rightarrow> u32 \<Rightarrow> int \<times> byte list" where
  "skip_atoi [] i = (sint i, [])"
| "skip_atoi (b # fmt) i =
     (if isdigit b then skip_atoi fmt (i * 10 + ucast b - 48) else (sint i, b # fmt))"

definition get_width ::
  "byte list \<Rightarrow> fmt_flags \<Rightarrow> fmt_arg list \<Rightarrow> (int \<times> fmt_flags \<times> byte list \<times> fmt_arg list) cres" where
  "get_width fmt fl args = (case fmt of
     [] \<Rightarrow> Inr (-1, fl, fmt, args)
   | b # fmt' \<Rightarrow>
       if isdigit b then (let (n, fmt) = skip_atoi fmt 0 in Inr (n, fl, fmt, args))
       else if b = 42 then
         cbind (va_int args) (\<lambda>(n, args).
           if sint n < 0 then Inr (sint (- n), fl\<lparr>LEFT := True\<rparr>, fmt', args)
           else Inr (sint n, fl, fmt', args))
       else Inr (-1, fl, fmt, args))"

definition get_precision ::
  "byte list \<Rightarrow> fmt_arg list \<Rightarrow> (int \<times> byte list \<times> fmt_arg list) cres" where
  "get_precision fmt args = (case fmt of
     [] \<Rightarrow> Inr (-1, fmt, args)
   | b # fmt' \<Rightarrow>
       if b = 46 then
         cbind (case fmt' of
            [] \<Rightarrow> Inr (-1, fmt', args)
          | d # fmt'' \<Rightarrow>
              if isdigit d then (let (n, fmt) = skip_atoi fmt' 0 in Inr (n, fmt, args))
              else if d = 42 then cbind (va_int args) (\<lambda>(n, args). Inr (sint n, fmt'', args))
              else Inr (-1, fmt', args))
           (\<lambda>(precision, fmt, args). Inr (if precision < 0 then 0 else precision, fmt, args))
       else Inr (-1, fmt, args))"

definition get_qualifier :: "byte list \<Rightarrow> byte \<times> byte list" where
  "get_qualifier fmt = (case fmt of
     [] \<Rightarrow> (0, fmt)
   | b # fmt' \<Rightarrow> if b = 104 \<or> b = 108 then (b, fmt') else (0, fmt))"

text \<open>The part of a conversion before its letter: flags, width, precision, qualifier.\<close>

definition parse_spec :: "byte list \<Rightarrow> fmt_arg list \<Rightarrow>
    (int \<times> int \<times> byte \<times> fmt_flags \<times> byte list \<times> fmt_arg list) cres" where
  "parse_spec fmt args =
     (let (fmt, fl) = get_flags fmt no_flags in
      cbind (get_width fmt fl args) (\<lambda>(field_width, fl, fmt, args).
      cbind (get_precision fmt args) (\<lambda>(precision, fmt, args).
      let (qualifier, fmt) = get_qualifier fmt in
      Inr (field_width, precision, qualifier, fl, fmt, args))))"

text \<open>The conversions that end in \<open>print_number\<close>.\<close>

definition conv_int ::
  "nat \<Rightarrow> nat \<Rightarrow> fmt_flags \<Rightarrow> int \<Rightarrow> int \<Rightarrow> byte \<Rightarrow> fmt_arg list \<Rightarrow> cursor \<Rightarrow>
   (fmt_arg list \<times> cursor) cres" where
  "conv_int en base fl field_width precision qualifier args st =
     cbind (va_int args) (\<lambda>(n, args).
       let num = (if qualifier = 104
                  then (if SIGN fl then scast (ucast n :: u16) else ucast (ucast n :: u16))
                  else n)
       in cbind (print_number en num base field_width precision fl st) (\<lambda>st. Inr (args, st)))"

definition conv_char ::
  "nat \<Rightarrow> fmt_flags \<Rightarrow> int \<Rightarrow> fmt_arg list \<Rightarrow> cursor \<Rightarrow> (fmt_arg list \<times> cursor) cres" where
  "conv_char en fl field_width args st =
     cbind (if \<not> LEFT fl then put_times en 32 (nat (field_width - 1)) st else Inr st) (\<lambda>st.
     let field_width = (if \<not> LEFT fl then (if field_width > 0 then 0 else field_width - 1)
                        else field_width) in
     cbind (va_int args) (\<lambda>(n, args).
     cbind (put en (ucast n) st) (\<lambda>st.
     cbind (put_times en 32 (nat (field_width - 1)) st) (\<lambda>st. Inr (args, st)))))"

definition conv_string ::
  "nat \<Rightarrow> fmt_flags \<Rightarrow> int \<Rightarrow> int \<Rightarrow> fmt_arg list \<Rightarrow> cursor \<Rightarrow> (fmt_arg list \<times> cursor) cres" where
  "conv_string en fl field_width precision args st =
     cbind (va_str args) (\<lambda>(s, args).
     let s = (case s of None \<Rightarrow> lit ''(NULL)'' | Some s \<Rightarrow> s);
         len = int (length s);
         len = (if precision > 0 \<and> len > precision then precision else len)
     in cbind (if \<not> LEFT fl then put_times en 32 (nat (field_width - len)) st else Inr st) (\<lambda>st.
        let field_width = (if \<not> LEFT fl
              then (if len < field_width then len - 1 else field_width - 1) else field_width) in
        cbind (put_list en (take (nat len) s) st) (\<lambda>st.
        cbind (put_times en 32 (nat (field_width - len)) st) (\<lambda>st. Inr (args, st)))))"

text \<open>The \<open>switch\<close> over the conversion letter.\<close>

definition convert_letter ::
  "nat \<Rightarrow> byte \<Rightarrow> int \<Rightarrow> int \<Rightarrow> byte \<Rightarrow> fmt_flags \<Rightarrow> fmt_arg list \<Rightarrow> cursor \<Rightarrow>
   (fmt_arg list \<times> cursor) cres" where
  "convert_letter en b field_width precision qualifier fl args st =
     (if b = 99 then conv_char en fl field_width args st
      else if b = 115 then conv_string en fl field_width precision args st
      else if b = 112 then
        (let fw = (if field_width = -1 then 8 else field_width);
             fl = (if field_width = -1 then fl\<lparr>ZEROPAD := True\<rparr> else fl)
         in cbind (va_ptr args) (\<lambda>(p, args).
            cbind (print_number en p 16 fw precision fl st) (\<lambda>st. Inr (args, st))))
      else if b = 37 then cbind (put en 37 st) (\<lambda>st. Inr (args, st))
      else if b = 111 then conv_int en 8 fl field_width precision qualifier args st
      else if b = 88 then
        conv_int en 16 (fl\<lparr>LARGE := True\<rparr>) field_width precision qualifier args st
      else if b = 120 then conv_int en 16 fl field_width precision qualifier args st
      else if b = 100 \<or> b = 105 then
        conv_int en 10 (fl\<lparr>SIGN := True\<rparr>) field_width precision qualifier args st
      else if b = 117 then conv_int en 10 fl field_width precision qualifier args st
      else cbind (put en 37 st) (\<lambda>st. cbind (put en b st) (\<lambda>st. Inr (args, st))))"

text \<open>One conversion; the format is read after the \<open>%\<close>, the result is the format after it. At the
  end of the format the \<open>%\<close> is printed and \<open>-- fmt\<close> lets the loop see the NUL again.\<close>

definition convert ::
  "nat \<Rightarrow> byte list \<Rightarrow> fmt_arg list \<Rightarrow> cursor \<Rightarrow> (byte list \<times> fmt_arg list \<times> cursor) cres" where
  "convert en fmt args st =
     cbind (parse_spec fmt args) (\<lambda>(field_width, precision, qualifier, fl, fmt, args).
       case fmt of
         [] \<Rightarrow> cbind (put en 37 st) (\<lambda>st. Inr ([], args, st))
       | b # fmt \<Rightarrow> cbind (convert_letter en b field_width precision qualifier fl args st)
                      (\<lambda>(args, st). Inr (fmt, args, st)))"

lemma get_flags_length: "length (fst (get_flags fmt fl)) \<le> length fmt"
  by (induction fmt fl rule: get_flags.induct) auto

lemma skip_atoi_length: "length (snd (skip_atoi fmt i)) \<le> length fmt"
  by (induction fmt i rule: skip_atoi.induct) auto

lemma get_width_length: "get_width fmt fl args = Inr (w, fl', fmt', args') \<Longrightarrow> length fmt' \<le> length fmt"
  using skip_atoi_length[of fmt 0]
  by (auto simp: get_width_def cbind_eq_Inr split: list.splits if_splits prod.splits)

lemma get_precision_length: "get_precision fmt args = Inr (p, fmt', args') \<Longrightarrow> length fmt' \<le> length fmt"
  using skip_atoi_length[of "tl fmt" 0]
  by (auto simp: get_precision_def cbind_eq_Inr split: list.splits if_splits prod.splits)

lemma get_qualifier_length: "length (snd (get_qualifier fmt)) \<le> length fmt"
  by (auto simp: get_qualifier_def split: list.splits)

lemma parse_spec_length:
  assumes "parse_spec fmt args = Inr (w, p, q, fl, fmt', args')"
  shows "length fmt' \<le> length fmt"
proof -
  obtain f1 fl1 where 1: "get_flags fmt no_flags = (f1, fl1)" by (cases "get_flags fmt no_flags")
  from assms obtain w2 fl2 f2 a2 where 2: "get_width f1 fl1 args = Inr (w2, fl2, f2, a2)"
    by (auto simp: parse_spec_def 1 cbind_eq_Inr)
  from assms obtain p3 f3 a3 where 3: "get_precision f2 a2 = Inr (p3, f3, a3)"
    by (auto simp: parse_spec_def 1 2 cbind_eq_Inr)
  obtain q4 f4 where 4: "get_qualifier f3 = (q4, f4)" by (cases "get_qualifier f3")
  have "length f4 \<le> length fmt"
    using get_flags_length[of fmt no_flags] get_width_length[OF 2] get_precision_length[OF 3]
      get_qualifier_length[of f3] 1 4 by simp
  then show ?thesis
    using assms by (simp add: parse_spec_def 1 2 3 4)
qed

lemma convert_length:
  assumes c: "convert en fmt args st = Inr (fmt', args', st')"
  shows "length fmt' \<le> length fmt"
proof -
  from c obtain w p q fl f a where spec: "parse_spec fmt args = Inr (w, p, q, fl, f, a)"
    by (auto simp: convert_def cbind_eq_Inr)
  have "fmt' = tl f"
    using c spec by (cases f) (auto simp: convert_def cbind_eq_Inr)
  then show ?thesis using parse_spec_length[OF spec] by simp
qed

function format_loop :: "nat \<Rightarrow> byte list \<Rightarrow> fmt_arg list \<Rightarrow> cursor \<Rightarrow> cursor cres" where
  "format_loop en [] args st = Inr st"
| "format_loop en (b # fmt) args st =
     (if b \<noteq> 37 then cbind (put en b st) (format_loop en fmt args)
      else cbind (convert en fmt args st) (\<lambda>(fmt, args, st). format_loop en fmt args st))"
  by pat_completeness auto
termination
  by (relation "measure (\<lambda>(_, fmt, _, _). length fmt)") (auto dest: convert_length)

text \<open>
  \<open>addr\<close> is the address of \<open>buf\<close>: \<open>end\<close> is \<open>buf + size\<close>, or the last address when that sum wraps.
\<close>

definition fmt_end :: "nat \<Rightarrow> nat \<Rightarrow> nat" where
  "fmt_end addr sz =
     (if (addr + sz) mod 2 ^ 32 < addr then 2 ^ 32 - 1 - addr else sz)"

text \<open>The cursor and the returned length are natural numbers. The source has a pointer and an \<open>rt_int32_t\<close>, which
  are the same as long as the text has less than \<open>2^31\<close> bytes; texts that are longer are not modelled.\<close>

definition rt_vsnprintf ::
  "nat \<Rightarrow> byte list \<Rightarrow> nat \<Rightarrow> byte list \<Rightarrow> fmt_arg list \<Rightarrow> (nat \<times> byte list) cres" where
  "rt_vsnprintf addr buf sz fmt args =
     (let en = fmt_end addr sz in
      cbind (format_loop en fmt args (0, buf)) (\<lambda>(str, buf).
      cbind (if en > 0
             then (if str < en then buf_put str 0 buf else buf_put (en - 1) 0 buf)
             else Inr buf) (\<lambda>buf. Inr (str, buf))))"

definition rt_snprintf ::
  "nat \<Rightarrow> byte list \<Rightarrow> nat \<Rightarrow> byte list \<Rightarrow> fmt_arg list \<Rightarrow> (nat \<times> byte list) cres" where
  "rt_snprintf addr buf sz fmt args = rt_vsnprintf addr buf sz fmt args"

definition rt_vsprintf ::
  "nat \<Rightarrow> byte list \<Rightarrow> byte list \<Rightarrow> fmt_arg list \<Rightarrow> (nat \<times> byte list) cres" where
  "rt_vsprintf addr buf fmt args = rt_vsnprintf addr buf (2 ^ 32 - 1) fmt args"

definition rt_sprintf ::
  "nat \<Rightarrow> byte list \<Rightarrow> byte list \<Rightarrow> fmt_arg list \<Rightarrow> (nat \<times> byte list) cres" where
  "rt_sprintf addr buf fmt args = rt_vsprintf addr buf fmt args"


section \<open>The text a format stands for\<close>

text \<open>
  The specification: what a conversion prints is a byte list that does not depend on the buffer.
  \<open>number_text\<close> puts together sign, padding and digits; \<open>format_text\<close> the whole format.
\<close>

definition number_text :: "u32 \<Rightarrow> nat \<Rightarrow> int \<Rightarrow> int \<Rightarrow> fmt_flags \<Rightarrow> byte list" where
  "number_text num base width precision fl =
     (let neg = SIGN fl \<and> sint num < 0;
          sgn = (if neg then [45] else if SIGN fl \<and> PLUS fl then [43]
                 else if SIGN fl \<and> SPACE fl then [32] else []);
          n = (if neg then - num else num);
          ds = (if n = 0 then [48] else rev (tmp_digits (LARGE fl) base n));
          zeros = replicate (nat (precision - int (length ds))) 48;
          shown = (if precision \<noteq> 0 then ds else []);
          pad = nat (width - max precision (int (length ds)) - int (length sgn))
      in if LEFT fl then sgn @ zeros @ shown @ replicate pad 32
         else if ZEROPAD fl then sgn @ replicate pad 48 @ zeros @ shown
         else replicate pad 32 @ sgn @ zeros @ shown)"

definition char_text :: "byte \<Rightarrow> int \<Rightarrow> fmt_flags \<Rightarrow> byte list" where
  "char_text c width fl =
     (if LEFT fl then c # replicate (nat (width - 1)) 32
      else replicate (nat (width - 1)) 32 @ [c])"

definition string_text :: "byte list option \<Rightarrow> int \<Rightarrow> int \<Rightarrow> fmt_flags \<Rightarrow> byte list" where
  "string_text s width precision fl =
     (let s = (case s of None \<Rightarrow> lit ''(NULL)'' | Some s \<Rightarrow> s);
          shown = (if precision > 0 then take (nat precision) s else s);
          pad = replicate (nat (width - int (length shown))) 32
      in if LEFT fl then shown @ pad else pad @ shown)"

definition letter_text ::
  "byte \<Rightarrow> int \<Rightarrow> int \<Rightarrow> byte \<Rightarrow> fmt_flags \<Rightarrow> fmt_arg list \<Rightarrow> (byte list \<times> fmt_arg list) cres" where
  "letter_text b width precision qualifier fl args =
     (let num = (\<lambda>base fl. cbind (va_int args) (\<lambda>(n, args).
            Inr (number_text (if qualifier = 104
                         then (if SIGN fl then scast (ucast n :: u16) else ucast (ucast n :: u16))
                         else n) base width precision fl, args)))
      in if b = 99 then cbind (va_int args) (\<lambda>(n, args). Inr (char_text (ucast n) width fl, args))
         else if b = 115 then
           cbind (va_str args) (\<lambda>(s, args). Inr (string_text s width precision fl, args))
         else if b = 112 then cbind (va_ptr args) (\<lambda>(p, args).
           Inr (if width = -1 then number_text p 16 8 precision (fl\<lparr>ZEROPAD := True\<rparr>)
                else number_text p 16 width precision fl, args))
         else if b = 37 then Inr ([37], args)
         else if b = 111 then num 8 fl
         else if b = 88 then num 16 (fl\<lparr>LARGE := True\<rparr>)
         else if b = 120 then num 16 fl
         else if b = 100 \<or> b = 105 then num 10 (fl\<lparr>SIGN := True\<rparr>)
         else if b = 117 then num 10 fl
         else Inr ([37, b], args))"

definition convert_text ::
  "byte list \<Rightarrow> fmt_arg list \<Rightarrow> (byte list \<times> byte list \<times> fmt_arg list) cres" where
  "convert_text fmt args =
     cbind (parse_spec fmt args) (\<lambda>(width, precision, qualifier, fl, fmt, args).
       case fmt of
         [] \<Rightarrow> Inr ([37], [], args)
       | b # fmt \<Rightarrow> cbind (letter_text b width precision qualifier fl args)
                      (\<lambda>(t, args). Inr (t, fmt, args)))"

lemma convert_text_length:
  assumes c: "convert_text fmt args = Inr (t, fmt', args')"
  shows "length fmt' \<le> length fmt"
proof -
  from c obtain w p q fl f a where spec: "parse_spec fmt args = Inr (w, p, q, fl, f, a)"
    by (auto simp: convert_text_def cbind_eq_Inr)
  have "fmt' = tl f"
    using c spec by (cases f) (auto simp: convert_text_def cbind_eq_Inr)
  then show ?thesis using parse_spec_length[OF spec] by simp
qed

function format_text :: "byte list \<Rightarrow> fmt_arg list \<Rightarrow> byte list cres" where
  "format_text [] args = Inr []"
| "format_text (b # fmt) args =
     (if b \<noteq> 37 then cbind (format_text fmt args) (\<lambda>t. Inr (b # t))
      else cbind (convert_text fmt args) (\<lambda>(t, fmt, args).
           cbind (format_text fmt args) (\<lambda>u. Inr (t @ u))))"
  by pat_completeness auto
termination
  by (relation "measure (\<lambda>(fmt, _). length fmt)") (auto dest: convert_text_length)

section \<open>The routines print that text\<close>

lemma put_list_append: "put_list en (s @ t) st = cbind (put_list en s st) (put_list en t)"
proof (induction s arbitrary: st)
  case (Cons b s)
  have "put_list en (s @ t) = (\<lambda>st. cbind (put_list en s st) (put_list en t))"
    by (rule ext) (rule Cons.IH)
  then show ?case by (simp add: cbind_assoc)
qed simp

lemma put_times_list: "put_times en b n st = put_list en (replicate n b) st"
proof (induction n arbitrary: st)
  case (Suc n)
  have "put_times en b n = put_list en (replicate n b)" by (rule ext) (rule Suc.IH)
  then show ?case by simp
qed simp

lemma put_list_Nil [simp]: "put_list en [] = Inr"
  by (rule ext) simp

lemma put_list_single: "put en b st = put_list en [b] st"
  by simp

lemma put_list_if: "(if P then put_list en t st else Inr st) = put_list en (if P then t else []) st"
  by simp

lemma put_list_eq:
  "put_list en t (p, buf) =
     (if t = [] \<or> en \<le> p \<or> min en (p + length t) \<le> length buf
      then Inr (p + length t, overlay p (take (en - p) t) buf) else Inl Out_Of_Bounds)"
proof (induction t arbitrary: p buf)
  case (Cons b t)
  show ?case
  proof (cases "p < en")
    case False
    then show ?thesis by (simp add: put_def Cons)
  next
    case en: True
    show ?thesis
    proof (cases "p < length buf")
      case False
      with en show ?thesis by (auto simp: put_def)
    next
      case True
      have "en - p = Suc (en - Suc p)" using en by simp
      then have "overlay p (take (en - p) (b # t)) buf =
          overlay (Suc p) (take (en - Suc p) t) (buf[p := b])"
        using True by (simp add: overlay_Cons)
      with True en show ?thesis by (auto simp: put_def Cons)
    qed
  qed
qed simp

lemma put_list_bind: "cbind (put_list en s st) (\<lambda>st. put_list en t st) = put_list en (s @ t) st"
  by (simp add: put_list_append)

text \<open>\<open>print_number\<close>, with its running counter and its truncated stores, stores exactly the text
  of the number: sign, padding to the width on the asked side, zeros up to the precision, digits.\<close>

theorem print_number_text:
  "print_number en num base width precision fl st =
     put_list en (number_text num base width precision fl) st"
proof -
  define left where "left = LEFT fl"
  define zero where "zero = (ZEROPAD fl \<and> \<not> left)"
  define neg where "neg = (SIGN fl \<and> sint num < 0)"
  define sign :: byte where "sign = (if neg then 45 else if SIGN fl \<and> PLUS fl then 43
    else if SIGN fl \<and> SPACE fl then 32 else 0)"
  define n where "n = (if neg then - num else num)"
  define tmp where "tmp = (if n = 0 then [48] else tmp_digits (LARGE fl) base n)"
  define len where "len = int (length tmp)"
  define prec where "prec = (if len > precision then len else precision)"
  define lead where "lead = (\<not> (zero \<or> left))"
  define s0 where "s0 = (if lead \<and> sign \<noteq> 0 \<and> width - prec > 0 then width - prec - 1 else width - prec)"
  define s1 where "s1 = (if lead then run_down s0 else s0)"
  define s2 where "s2 = (if sign \<noteq> 0 then s1 - 1 else s1)"
  define s3 where "s3 = (if \<not> left then run_down s2 else s2)"
  define sgn where "sgn = (if sign \<noteq> 0 then [sign] else [])"
  define zs :: "byte list" where "zs = replicate (nat (prec - len)) 48"
  define ds where "ds = (if precision \<noteq> 0 then rev tmp else [])"
  have flags: "ZEROPAD (if LEFT fl then fl\<lparr>ZEROPAD := False\<rparr> else fl) = zero"
    "LEFT (if LEFT fl then fl\<lparr>ZEROPAD := False\<rparr> else fl) = left"
    "SIGN (if LEFT fl then fl\<lparr>ZEROPAD := False\<rparr> else fl) = SIGN fl"
    "PLUS (if LEFT fl then fl\<lparr>ZEROPAD := False\<rparr> else fl) = PLUS fl"
    "SPACE (if LEFT fl then fl\<lparr>ZEROPAD := False\<rparr> else fl) = SPACE fl"
    "LARGE (if LEFT fl then fl\<lparr>ZEROPAD := False\<rparr> else fl) = LARGE fl"
    by (simp_all add: left_def zero_def)
  have "print_number en num base width precision fl st =
    put_list en ((if lead then replicate (nat s0) 32 else []) @ sgn @
      (if \<not> left then replicate (nat s2) (if zero then 48 else 32) else []) @ zs @ ds @
      replicate (nat s3) 32) st"
    unfolding print_number_def Let_def flags neg_def[symmetric] sign_def[symmetric] n_def[symmetric]
      tmp_def[symmetric] len_def[symmetric] prec_def[symmetric] lead_def[symmetric] s0_def[symmetric]
      s1_def[symmetric] s2_def[symmetric] s3_def[symmetric]
    unfolding put_times_list put_list_single put_list_if put_list_bind
      sgn_def[symmetric] zs_def[symmetric] ds_def[symmetric]
    by (simp add: put_list_bind)
  moreover have "number_text num base width precision fl =
     (let pad = nat (width - prec - int (length sgn)) in
      if left then sgn @ zs @ ds @ replicate pad 32
      else if zero then sgn @ replicate pad 48 @ zs @ ds
      else replicate pad 32 @ sgn @ zs @ ds)"
  proof -
    have "(if n = 0 then [48] else rev (tmp_digits (LARGE fl) base n)) = rev tmp"
      by (simp add: tmp_def)
    moreover have "replicate (nat (precision - int (length (rev tmp)))) (48 :: byte) = zs"
      by (simp add: zs_def prec_def len_def)
    moreover have "max precision (int (length (rev tmp))) = prec"
      by (simp add: prec_def len_def)
    moreover have "(if neg then [45] else if SIGN fl \<and> PLUS fl then [43]
        else if SIGN fl \<and> SPACE fl then [32] else []) = sgn"
      by (simp add: sgn_def sign_def)
    ultimately show ?thesis
      unfolding number_text_def Let_def neg_def[symmetric] n_def[symmetric] ds_def[symmetric]
      by (simp add: ds_def zero_def left_def diff_diff_eq)
  qed
  ultimately show ?thesis
    by (auto simp: lead_def s0_def s1_def s2_def s3_def run_down_def sgn_def Let_def zero_def)
qed


lemma conv_int_text:
  "conv_int en base fl width precision q args st =
     cbind (va_int args) (\<lambda>(n, args).
       cbind (put_list en (number_text (if q = 104
                  then (if SIGN fl then scast (ucast n :: u16) else ucast (ucast n :: u16))
                  else n) base width precision fl) st) (\<lambda>st. Inr (args, st)))"
  by (simp add: conv_int_def print_number_text Let_def)

lemma conv_char_text:
  "conv_char en fl width args st =
     cbind (va_int args) (\<lambda>(n, args).
       cbind (put_list en (char_text (ucast n) width fl) st) (\<lambda>st. Inr (args, st)))"
  if "va_int args = Inr r"
proof -
  obtain n args' where r: "r = (n, args')" by (cases r)
  show ?thesis
    by (auto simp: conv_char_def that r put_times_list put_list_if char_text_def Let_def
        put_list_append cbind_assoc)
qed

lemma conv_string_text:
  "conv_string en fl width precision args st =
     cbind (va_str args) (\<lambda>(s, args).
       cbind (put_list en (string_text s width precision fl) st) (\<lambda>st. Inr (args, st)))"
proof (cases "va_str args")
  case (Inr r)
  obtain s args' where r: "r = (s, args')" by (cases r)
  define t where "t = (case s of None \<Rightarrow> lit ''(NULL)'' | Some s \<Rightarrow> s)"
  define len where "len = (if precision > 0 \<and> int (length t) > precision then precision else int (length t))"
  have take: "take (nat len) t = (if precision > 0 then take (nat precision) t else t)"
    by (auto simp: len_def)
  have len: "int (length (take (nat len) t)) = len"
    by (auto simp: len_def)
  show ?thesis
    unfolding conv_string_def string_text_def Let_def Inr r cbind_Inr prod.case
      t_def[symmetric] len_def[symmetric] take[symmetric] len
    by (auto simp: put_times_list put_list_append cbind_assoc)
qed (simp add: conv_string_def)

lemma letter_as_text:
  assumes "letter_text b w p q fl args = Inr (t, args')"
  shows "convert_letter en b w p q fl args st = cbind (put_list en t st) (\<lambda>st. Inr (args', st))"
proof (cases "b = 99")
  case True
  with assms show ?thesis
    by (auto simp: letter_text_def convert_letter_def conv_char_text cbind_eq_Inr)
next
  case False
  consider "b = 115" | "b = 112" | "b = 37" | "b = 111" | "b = 88" | "b = 120" | "b = 100" | "b = 105"
    | "b = 117" | "b \<notin> {115, 112, 37, 111, 88, 120, 100, 105, 117}" by blast
  then show ?thesis
    using assms False
    by cases (auto simp: letter_text_def convert_letter_def conv_int_text conv_string_text
        print_number_text cbind_eq_Inr cbind_assoc)
qed

lemma convert_as_text:
  assumes c: "convert_text fmt args = Inr (t, fmt', args')"
  shows "convert en fmt args st = cbind (put_list en t st) (\<lambda>st. Inr (fmt', args', st))"
proof -
  from c obtain w p q fl f a where spec: "parse_spec fmt args = Inr (w, p, q, fl, f, a)"
    by (auto simp: convert_text_def cbind_eq_Inr)
  show ?thesis
  proof (cases f)
    case Nil
    with c spec show ?thesis by (auto simp: convert_text_def convert_def)
  next
    case (Cons b f')
    with c spec have "letter_text b w p q fl a = Inr (t, args')" and "fmt' = f'"
      by (auto simp: convert_text_def cbind_eq_Inr)
    with Cons spec show ?thesis by (simp add: convert_def letter_as_text cbind_assoc)
  qed
qed

lemma format_loop_text:
  "format_text fmt args = Inr t \<Longrightarrow> format_loop en fmt args st = put_list en t st"
proof (induction fmt args arbitrary: st t rule: format_text.induct)
  case (2 b fmt args)
  show ?case
  proof (cases "b = 37")
    case False
    with "2.prems" obtain u where u: "format_text fmt args = Inr u" and t: "t = b # u"
      by (auto simp: cbind_eq_Inr)
    have "format_loop en fmt args = put_list en u"
      by (rule ext) (rule "2.IH"(1)[OF False u])
    with False t show ?thesis by simp
  next
    case True
    with "2.prems" obtain t1 f1 a1 u where c: "convert_text fmt args = Inr (t1, f1, a1)"
      and u: "format_text f1 a1 = Inr u" and t: "t = t1 @ u"
      by (auto simp: cbind_eq_Inr)
    have IH: "format_loop en f1 a1 st' = put_list en u st'" for st'
      using "2.IH"(2)[OF _ c _ refl] True u by simp
    show ?thesis
      by (simp add: True convert_as_text[OF c] IH t put_list_append cbind_assoc)
  qed
qed simp


section \<open>What the callers get\<close>

lemmas fmt_spec_simps =
  parse_spec_def get_width_def get_precision_def get_qualifier_def isdigit_def Let_def

lemma divide_10: "divide n 10 = (n mod 10, n div 10)"
  by (simp add: divide_def)


lemma rt_vsnprintf_eq:
  assumes "format_text fmt args = Inr t"
    and "0 < sz" and "sz \<le> length buf" and "addr + sz < 2 ^ 32"
  shows "rt_vsnprintf addr buf sz fmt args = Inr (length t, overlay 0 (take (sz - 1) t @ [0]) buf)"
proof -
  have en: "fmt_end addr sz = sz" using assms(4) by (simp add: fmt_end_def)
  have loop: "format_loop sz fmt args (0, buf) = Inr (length t, overlay 0 (take sz t) buf)"
    using assms(2,3) by (auto simp: format_loop_text[OF assms(1)] put_list_eq)
  have end_nul: "(overlay 0 (take sz t) buf)[k := 0] = overlay 0 (take (sz - 1) t @ [0]) buf"
    if "k = min (length t) (sz - 1)" for k
    using that assms(2,3)
    by (intro nth_equalityI) (auto simp: overlay_nth nth_list_update nth_append min_def split: if_splits)
  show ?thesis
  proof (cases "length t < sz")
    case True
    with assms(2,3) end_nul[of "length t"] show ?thesis
      by (simp add: rt_vsnprintf_def en loop Let_def)
  next
    case False
    with assms(2,3) end_nul[of "sz - 1"] show ?thesis
      by (simp add: rt_vsnprintf_def en loop Let_def)
  qed
qed

text \<open>C23. \<open>rt_vsnprintf\<close> of a well-formed call prints the text of its format, cut to \<open>size - 1\<close>
  bytes, always terminated, never stores at or past \<open>size\<close>, and returns the length of the whole
  text.\<close>

theorem rt_vsnprintf_text:
  assumes "format_text fmt args = Inr t"
    and "0 < sz" and "sz \<le> length buf" and "addr + sz < 2 ^ 32"
  shows "rt_vsnprintf addr buf sz fmt args = Inr (length t, overlay 0 (take (sz - 1) t @ [0]) buf)"
  by (rule rt_vsnprintf_eq[OF assms])

lemma rt_vsnprintf_text_witness:
  "rt_vsnprintf 64 [9, 9, 9, 9, 9, 9] 5 (lit ''%d %d'') [A_Int 12, A_Int (- 7)] =
     Inr (5, lit ''12 -'' @ [0, 9])"
proof -
  have "format_text (lit ''%d %d'') [A_Int 12, A_Int (- 7)] = Inr (lit ''12 -7'')"
    by (simp add: lit_def convert_text_def fmt_spec_simps letter_text_def number_text_def
        no_flags_def tmp_digits.simps divide_10 digit_def)
  from rt_vsnprintf_text[OF this, of 5 "[9, 9, 9, 9, 9, 9]" 64] show ?thesis
    by (simp add: lit_def overlay_def)
qed

lemma rt_sprintf_eq:
  assumes "format_text fmt args = Inr t" and "addr + length buf < 2 ^ 32 - 1"
  shows "rt_sprintf addr buf fmt args =
     (if length t < length buf then Inr (length t, overlay 0 (t @ [0]) buf)
      else Inl Out_Of_Bounds)"
proof -
  define en where "en = fmt_end addr (2 ^ 32 - 1)"
  have en: "en = 2 ^ 32 - 1 - addr"
  proof (cases "addr = 0")
    case False
    with assms(2) have "(addr + (2 ^ 32 - 1)) mod 2 ^ 32 = addr - 1"
      by (simp add: mod_if)
    with False show ?thesis by (simp add: en_def fmt_end_def)
  qed (simp add: en_def fmt_end_def)
  then have big: "length buf < en" using assms(2) by simp
  have loop: "format_loop en fmt args (0, buf) =
      (if length t \<le> length buf then Inr (length t, overlay 0 t buf) else Inl Out_Of_Bounds)"
    using big by (auto simp: format_loop_text[OF assms(1)] put_list_eq min_def)
  have "(overlay 0 t buf)[length t := 0] = overlay 0 (t @ [0]) buf" if "length t < length buf"
    using that overlay_snoc[of 0 t buf 0] by simp
  then show ?thesis
    using big unfolding rt_sprintf_def rt_vsprintf_def rt_vsnprintf_def en_def[symmetric]
    by (auto simp: loop Let_def)
qed

text \<open>C27. \<open>rt_sprintf\<close> has no bound: it prints the whole text and its NUL, and runs off the buffer
  exactly when the text is not shorter than the buffer.\<close>

theorem rt_sprintf_text:
  assumes "format_text fmt args = Inr t" and "addr + length buf < 2 ^ 32 - 1"
  shows "rt_sprintf addr buf fmt args =
     (if length t < length buf then Inr (length t, overlay 0 (t @ [0]) buf)
      else Inl Out_Of_Bounds)"
  by (rule rt_sprintf_eq[OF assms])

lemma rt_sprintf_text_witness:
  "rt_sprintf 64 [9, 9, 9, 9] (lit ''%d'') [A_Int 123] = Inr (3, lit ''123'' @ [0]) \<and>
   rt_sprintf 64 [9, 9, 9, 9] (lit ''%d'') [A_Int 1234] = Inl Out_Of_Bounds"
proof -
  have "format_text (lit ''%d'') [A_Int 123] = Inr (lit ''123'')"
    and "format_text (lit ''%d'') [A_Int 1234] = Inr (lit ''1234'')"
    by (simp_all add: lit_def convert_text_def fmt_spec_simps letter_text_def number_text_def
        no_flags_def tmp_digits.simps divide_10 digit_def)
  from this[THEN rt_sprintf_text, of 64 "[9, 9, 9, 9]"] show ?thesis
    by (simp add: lit_def overlay_def)
qed

lemma unat_digit: "unat d < 10 \<Longrightarrow> unat (digit large d) = 48 + unat d"
proof -
  assume d: "unat d < 10"
  then have "unat (ucast d :: byte) = unat d" by (simp add: unsigned_ucast_eq take_bit_eq_mod)
  with d show ?thesis by (simp add: digit_def word_less_nat_alt unat_word_ariths)
qed

lemma unat_mod_10: "unat (n mod 10 :: u32) < 10" and unat_mod_10': "unat (n mod 10 :: u32) = unat n mod 10"
  by (simp_all add: unat_mod)

text \<open>The decimal digits, read back.\<close>

lemma atoi_digits_tmp:
  "atoi_digits (rev (tmp_digits large 10 n) @ rest) 0 = atoi_digits rest (int (unat n))"
proof (induction "unat n" arbitrary: n rest rule: less_induct)
  case less
  show ?case
  proof (cases "n = 0")
    case True
    then show ?thesis by (simp add: tmp_digits.simps)
  next
    case False
    let ?d = "digit large (n mod 10)"
    have d: "unat ?d = 48 + unat n mod 10"
      using unat_digit[of "n mod 10" large] unat_mod_10[of n] by (simp add: unat_mod_10')
    have smaller: "unat (n div 10) < unat n"
      using divide_less[OF False, of 10] by (simp add: divide_10)
    have range: "48 \<le> ?d \<and> ?d \<le> 57" and val: "uint ?d - 48 = int (unat n mod 10)"
      using d by (simp_all add: word_le_nat_alt uint_nat)
    have "tmp_digits large 10 n = ?d # tmp_digits large 10 (n div 10)"
      using False by (simp add: tmp_digits.simps[of large 10 n] divide_10)
    then have "atoi_digits (rev (tmp_digits large 10 n) @ rest) 0 =
        atoi_digits (?d # rest) (int (unat (n div 10)))"
      using less[OF smaller, of "?d # rest"] by simp
    also have "\<dots> = atoi_digits rest (int (unat n div 10) * 10 + int (unat n mod 10))"
      using range val by (simp add: unat_div)
    also have "int (unat n div 10) * 10 + int (unat n mod 10) = int (unat n)"
      by (metis mult.commute mult_div_mod_eq of_nat_add of_nat_mult of_nat_numeral)
    finally show ?thesis .
  qed
qed

lemma tmp_digits_range: "d \<in> set (tmp_digits large 10 n) \<Longrightarrow> 48 \<le> d \<and> d \<le> 57"
proof (induction "unat n" arbitrary: n rule: less_induct)
  case less
  show ?case
  proof (cases "n = 0")
    case False
    have "48 \<le> digit large (n mod 10) \<and> digit large (n mod 10) \<le> 57"
      using unat_digit[of "n mod 10" large] unat_mod_10[of n] by (simp add: word_le_nat_alt)
    moreover have "unat (n div 10) < unat n"
      using divide_less[OF False, of 10] by (simp add: divide_10)
    ultimately show ?thesis
      using less False by (auto simp: tmp_digits.simps[of large 10 n] divide_10)
  qed (use less in \<open>simp add: tmp_digits.simps\<close>)
qed

lemma tmp_digits_length: "length (tmp_digits large 10 n) \<le> k" if "unat n < 10 ^ k"
  using that
proof (induction k arbitrary: n)
  case 0
  then show ?case by (simp add: tmp_digits.simps unat_eq_zero)
next
  case (Suc k)
  then have "unat (n div 10) < 10 ^ k" by (simp add: unat_div less_mult_imp_div_less mult.commute)
  with Suc.IH[of "n div 10"] show ?case
    by (simp add: tmp_digits.simps[of large 10 n] divide_10)
qed

text \<open>The conversions the application uses, as equations: \<open>%d\<close>, \<open>%3d\<close> and \<open>%s\<close>.\<close>

abbreviation signed_flags :: fmt_flags where
  "signed_flags \<equiv> no_flags\<lparr>SIGN := True\<rparr>"

definition dec_text :: "int \<Rightarrow> u32 \<Rightarrow> byte list" where
  "dec_text width n = number_text n 10 width (-1) signed_flags"

lemma convert_text_d [c_simps]:
  "convert_text (100 # fmt) (A_Int n # args) = Inr (dec_text (-1) n, fmt, args)"
  by (simp add: convert_text_def fmt_spec_simps letter_text_def dec_text_def)

lemma convert_text_3d [c_simps]:
  "convert_text (51 # 100 # fmt) (A_Int n # args) = Inr (dec_text 3 n, fmt, args)"
  by (simp add: convert_text_def fmt_spec_simps letter_text_def dec_text_def)

lemma convert_text_s [c_simps]:
  "convert_text (115 # fmt) (A_Str (Some s) # args) = Inr (s, fmt, args)"
  by (simp add: convert_text_def fmt_spec_simps letter_text_def string_text_def no_flags_def)

lemma dec_text_eq:
  "dec_text width n =
     (let ds = (if n = 0 then [48]
                else rev (tmp_digits False 10 (if sint n < 0 then - n else n)));
          sgn = (if sint n < 0 then [45] else [])
      in replicate (nat (width - int (length ds) - int (length sgn))) 32 @ sgn @ ds)"
  by (auto simp: dec_text_def number_text_def no_flags_def Let_def)

lemma atoi_skip_spaces: "atoi (replicate k 32 @ s) = atoi s"
  by (induction k) (simp_all add: atoi_def is_space_def)

lemma atoi_digit_first:
  assumes "48 \<le> d" and "d \<le> (57 :: byte)"
  shows "atoi (d # s) = atoi_digits (d # s) 0"
proof -
  have "48 \<le> unat d" and "unat d \<le> 57" using assms by (simp_all add: word_le_nat_alt)
  then have "\<not> is_space d" and "d \<noteq> 45" and "d \<noteq> 43"
    by (auto simp: is_space_def word_le_nat_alt word_unat_eq_iff)
  then show ?thesis by (simp add: atoi_def)
qed

lemma atoi_unsigned:
  "n \<noteq> 0 \<Longrightarrow> atoi (rev (tmp_digits l 10 n)) = int (unat n)"
proof -
  assume "n \<noteq> 0"
  then have "rev (tmp_digits l 10 n) \<noteq> []" by (simp add: tmp_digits.simps)
  then obtain d ds where d: "rev (tmp_digits l 10 n) = d # ds" by (meson neq_Nil_conv)
  then have "d \<in> set (tmp_digits l 10 n)" by (metis list.set_intros(1) set_rev)
  then show ?thesis
    using d atoi_digit_first[of d ds] tmp_digits_range[of d l n] atoi_digits_tmp[of l n "[]"] by simp
qed

text \<open>\<open>atoi\<close> reads back what \<open>%d\<close> prints, at any field width, for every 32-bit value, the
  smallest one included.\<close>

theorem atoi_dec_text: "atoi (dec_text width n) = sint n"
proof -
  define ds where "ds = (if n = 0 then [48]
    else rev (tmp_digits False 10 (if sint n < 0 then - n else n)))"
  have shape: "atoi (dec_text width n) = atoi ((if sint n < 0 then [45] else []) @ ds)"
    by (simp add: dec_text_eq ds_def[symmetric] Let_def atoi_skip_spaces)
  show ?thesis
  proof (cases "sint n < 0")
    case True
    then have "n \<noteq> 0" by auto
    then have "atoi_digits ds 0 = int (unat (- n))"
      using True atoi_digits_tmp[of False "- n" "[]"] by (simp add: ds_def)
    also have "\<dots> = - sint n" using neg_u32[OF True] by simp
    finally show ?thesis using True unfolding shape by (simp add: atoi_def is_space_def)
  next
    case False
    then have "sint n = uint n" using uint_lt2p[of n] by (simp add: sint_u32 not_less split: if_splits)
    then have "sint n = int (unat n)" by simp
    moreover have "atoi ds = int (unat n)"
      using False atoi_unsigned[of n False] by (simp add: ds_def atoi_def is_space_def)
    ultimately show ?thesis using False by (simp add: shape)
  qed
qed

text \<open>\<open>%o\<close> prints the number in hexadecimal, whatever its flags, width and precision: \<open>divide\<close>
  takes every base but 10 for 16.\<close>

theorem octal_prints_hex:
  "letter_text 111 width precision qualifier fl args = letter_text 120 width precision qualifier fl args"
proof -
  have "divide n 8 = divide n 16" for n by (simp add: divide_def)
  then have "tmp_digits large 8 n = tmp_digits large 16 n" for large n
    by (induction large "8 :: nat" n rule: tmp_digits.induct) (subst (1 2) tmp_digits.simps, simp)
  then have "number_text n 8 = number_text n 16" for n
    by (intro ext) (simp only: number_text_def)
  then show ?thesis by (simp add: letter_text_def)
qed

text \<open>A precision of 0 drops every digit of \<open>%d\<close>, not only those of the number 0: just the
  sign of a negative number is printed.\<close>

theorem precision_zero_drops_digits:
  "format_text (lit ''%.0d'') [A_Int n] = Inr (if sint n < 0 then [45] else [])"
  by (auto simp: lit_def convert_text_def fmt_spec_simps letter_text_def no_flags_def number_text_def)

end
