(* ===== verification/Lcd_Text.thy ===== *)
theory Lcd_Text
  imports Lcd_Draw Lcd_Font Kservice_Format
begin

text \<open>
  Text on the display, \<open>drivers/drv_lcd.c\<close>: \<open>lcd_show_char\<close> with its three fonts and its two paths (a
  block buffer, or pixel by pixel when there is no memory), and \<open>lcd_show_string\<close>, which formats its
  arguments into a buffer and lays the characters out from left to right, wrapping lines and clearing
  the panel when it runs past the bottom.
\<close>

section \<open>Characters\<close>

text \<open>\<open>for (t = 0; t < n; t++) ... temp <<= 1\<close>, to the bus and to the buffer.\<close>

primrec send_bits :: "lcd_env \<Rightarrow> nat \<Rightarrow> byte \<Rightarrow> lcd \<Rightarrow> lcd" where
  "send_bits env 0 temp s = s"
| "send_bits env (Suc n) temp s =
     (let colortemp = (if temp AND 0x80 \<noteq> 0 then FORE_COLOR s else BACK_COLOR s)
      in send_bits env n (push_bit 1 temp) (snd (lcd_write_half_word env colortemp s)))"

primrec store_bits :: "lcd \<Rightarrow> nat \<Rightarrow> nat \<Rightarrow> byte \<Rightarrow> byte list \<Rightarrow> byte list cres" where
  "store_bits s 0 i temp buf = Inr buf"
| "store_bits s (Suc n) i temp buf =
     (let colortemp = (if temp AND 0x80 \<noteq> 0 then FORE_COLOR s else BACK_COLOR s)
      in cbind (store_color colortemp i buf) (store_bits s n (Suc i) (push_bit 1 temp)))"

text \<open>
  The loop over the \<open>n\<close> bytes of a glyph that starts at \<open>font[start]\<close>: byte \<open>pos\<close> has \<open>num pos\<close> pixels,
  of which the first goes to place \<open>at pos\<close> of the buffer.
\<close>

definition send_glyph ::
  "lcd_env \<Rightarrow> byte list \<Rightarrow> nat \<Rightarrow> (nat \<Rightarrow> nat) \<Rightarrow> nat \<Rightarrow> lcd \<Rightarrow> lcd cres" where
  "send_glyph env font start num n =
     cfor [0..<n] (\<lambda>pos s. cbind (buf_get (start + pos) font) (\<lambda>temp.
       Inr (send_bits env (num pos) temp s)))"

definition store_glyph ::
  "lcd \<Rightarrow> byte list \<Rightarrow> nat \<Rightarrow> (nat \<Rightarrow> nat) \<Rightarrow> (nat \<Rightarrow> nat) \<Rightarrow> nat \<Rightarrow> byte list \<Rightarrow> byte list cres" where
  "store_glyph s font start num at n =
     cfor [0..<n] (\<lambda>pos buf. cbind (buf_get (start + pos) font) (\<lambda>temp.
       store_bits s (num pos) (at pos) temp buf))"

definition show_glyph ::
  "lcd_env \<Rightarrow> byte list \<Rightarrow> u32 \<Rightarrow> (nat \<Rightarrow> nat) \<Rightarrow> (nat \<Rightarrow> nat) \<Rightarrow> nat \<Rightarrow> u16 \<Rightarrow> u16 \<Rightarrow> u32 \<Rightarrow>
     lcd \<Rightarrow> lcd cres" where
  "show_glyph env font start num at n x y sz s =
     (let s = lcd_address_set env x y (ucast (ucast x + sz div 2 - 1)) (ucast (ucast y + sz - 1)) s
      in case lcd_malloc env (unat (sz * sz)) s of
           None \<Rightarrow> send_glyph env font (unat start) num n s
         | Some font_buf \<Rightarrow>
             cbind (store_glyph s font (unat start) num at n font_buf) (\<lambda>font_buf.
             spi_send_buf env font_buf (unat (sz * sz)) (pin_write LCD_DC_PIN True s)))"

definition lcd_show_char :: "lcd_env \<Rightarrow> u16 \<Rightarrow> u16 \<Rightarrow> byte \<Rightarrow> u32 \<Rightarrow> lcd \<Rightarrow> lcd cres" where
  "lcd_show_char env x y data sz s =
     (if ucast x > 240 - sz div 2 \<or> ucast y > 240 - sz then Inr s
      else
        (let data = data - 32 in
         if sz = 16 then
           show_glyph env asc2_1608 (ucast data * sz * (sz div 2) div 8)
             (\<lambda>pos. 8) (\<lambda>pos. 8 * pos) (unat (sz * (sz div 2) div 8)) x y sz s
         else if sz = 24 then
           show_glyph env asc2_2412 (ucast data * (sz * 16) div 8)
             (\<lambda>pos. if pos mod 2 = 0 then 8 else 4)
             (\<lambda>pos. if pos mod 2 = 0 then 12 * (pos div 2) else 8 + 12 * (pos div 2))
             (unat (sz * 16 div 8)) x y sz s
         else if sz = 32 then
           show_glyph env asc2_3216 (ucast data * sz * (sz div 2) div 8)
             (\<lambda>pos. 8) (\<lambda>pos. 8 * pos) (unat (sz * (sz div 2) div 8)) x y sz s
         else Inr s))"

section \<open>Strings\<close>

text \<open>\<open>while (*p != '\0')\<close> over the string buffer.\<close>

fun string_loop :: "lcd_env \<Rightarrow> u32 \<Rightarrow> u16 \<Rightarrow> u16 \<Rightarrow> byte list \<Rightarrow> lcd \<Rightarrow> lcd cres" where
  "string_loop env sz x y [] s = Inl Out_Of_Bounds"
| "string_loop env sz x y (c # p) s =
     (if c = 0 then Inr s
      else
        (let (x, y) = (if ucast x > 240 - sz div 2 then (0, y + ucast sz) else (x, y))
         in cbind (if ucast y > 240 - sz then cbind (lcd_clear env RED s) (\<lambda>s. Inr (0, 0, s))
                   else Inr (x, y, s)) (\<lambda>(x, y, s).
            cbind (lcd_show_char env x y c sz s) (\<lambda>s.
            string_loop env sz (x + ucast (sz div 2)) y p s))))"

declare string_loop.simps [simp del]

definition lcd_show_string ::
  "lcd_env \<Rightarrow> u16 \<Rightarrow> u16 \<Rightarrow> u32 \<Rightarrow> byte list \<Rightarrow> fmt_arg list \<Rightarrow> lcd \<Rightarrow> (int \<times> lcd) cres" where
  "lcd_show_string env x y sz fmt args s =
     (if sz \<noteq> 16 \<and> sz \<noteq> 24 \<and> sz \<noteq> 32 then Inr (-1, s)
      else cbind (rt_vsnprintf (stack env) (replicate 128 0) 100 fmt args) (\<lambda>(n, buf).
           cbind (string_loop env sz x y buf s) (\<lambda>s. Inr (0, s))))"

definition lcd_show_num ::
  "lcd_env \<Rightarrow> u16 \<Rightarrow> u16 \<Rightarrow> u32 \<Rightarrow> byte \<Rightarrow> u32 \<Rightarrow> lcd \<Rightarrow> lcd cres" where
  "lcd_show_num env x y num len sz s =
     cbind (lcd_show_string env x y sz (lit ''%d'') [A_Int num] s) (\<lambda>(r, s). Inr s)"

section \<open>Glyphs as pixels\<close>

definition byte_bits :: "nat \<Rightarrow> byte \<Rightarrow> bool list" where
  "byte_bits n b = map (\<lambda>t. bit b (7 - t)) [0..<n]"

definition colors :: "lcd \<Rightarrow> bool list \<Rightarrow> u16 list" where
  "colors s = map (\<lambda>b. if b then FORE_COLOR s else BACK_COLOR s)"

definition glyph_bits :: "byte list \<Rightarrow> nat \<Rightarrow> (nat \<Rightarrow> nat) \<Rightarrow> nat \<Rightarrow> bool list" where
  "glyph_bits font start num n = concat (map (\<lambda>p. byte_bits (num p) (font ! (start + p))) [0..<n])"

lemma length_byte_bits [simp]: "length (byte_bits n b) = n"
  by (simp add: byte_bits_def)

lemma length_colors [simp]: "length (colors s bs) = length bs"
  by (simp add: colors_def)

lemma colors_append: "colors s (as @ bs) = colors s as @ colors s bs"
  by (simp add: colors_def)

lemma emits_colors: "emits s w t \<Longrightarrow> colors t = colors s"
  by (rule ext) (simp add: emits_def colors_def)

lemma top_bit: "(temp AND 0x80 \<noteq> 0) = bit (temp :: byte) 7"
proof -
  have "(0x80 :: byte) = push_bit 7 1" by simp
  then show ?thesis by (metis and_exp_eq_0_iff_not_bit push_bit_of_1)
qed

lemma byte_bits_Suc: "n \<le> 7 \<Longrightarrow> byte_bits (Suc n) b = bit b 7 # byte_bits n (push_bit 1 b)"
proof -
  assume "n \<le> 7"
  have "bit (push_bit 1 b) (7 - t) = bit b (7 - Suc t)" if "t < n" for t
  proof -
    have "1 \<le> 7 - t" "7 - t < 8" using that \<open>n \<le> 7\<close> by arith+
    then show ?thesis unfolding bit_push_bit_iff by simp
  qed
  then have "map (\<lambda>t. bit b (7 - Suc t)) [0..<n] = map (\<lambda>t. bit (push_bit 1 b) (7 - t)) [0..<n]"
    by simp
  then show ?thesis
    by (simp add: byte_bits_def upt_conv_Cons map_Suc_upt[symmetric] comp_def del: upt_Suc)
qed

lemma send_bits_emits:
  "n \<le> 8 \<Longrightarrow> emits s (pixels (colors s (byte_bits n temp))) (send_bits env n temp s)"
proof (induction n arbitrary: temp s)
  case 0
  then show ?case by (simp add: byte_bits_def colors_def)
next
  case (Suc n)
  define c t where "c = (if bit temp 7 then FORE_COLOR s else BACK_COLOR s)"
    and "t = snd (lcd_write_half_word env c s)"
  have st: "emits s (half_word c) t" by (simp add: t_def emits_half_word)
  then have "colors t = colors s" by (rule emits_colors)
  with emits_trans[OF st Suc.IH[of t "push_bit 1 temp"]] Suc.prems show ?case
    by (simp add: byte_bits_Suc colors_def pixels_Cons top_bit c_def t_def)
qed

lemma store_bits_eq:
  "n \<le> 8 \<Longrightarrow> 2 * (length cs + n) \<le> length buf \<Longrightarrow>
   store_bits s n (length cs) temp (overlay 0 (color_bytes cs) buf) =
     Inr (overlay 0 (color_bytes (cs @ colors s (byte_bits n temp))) buf)"
proof (induction n arbitrary: temp cs)
  case 0
  then show ?case by (simp add: byte_bits_def colors_def)
next
  case (Suc n)
  define c where "c = (if bit temp 7 then FORE_COLOR s else BACK_COLOR s)"
  have "store_bits s n (length (cs @ [c])) (push_bit 1 temp) (overlay 0 (color_bytes (cs @ [c])) buf) =
      Inr (overlay 0 (color_bytes ((cs @ [c]) @ colors s (byte_bits n (push_bit 1 temp)))) buf)"
    using Suc.prems by (intro Suc.IH) simp_all
  moreover have "colors s (byte_bits (Suc n) temp) = c # colors s (byte_bits n (push_bit 1 temp))"
    using Suc.prems by (simp add: byte_bits_Suc colors_def c_def)
  ultimately show ?case
    using Suc.prems store_color_eq[of cs buf c] by (simp add: top_bit c_def[symmetric])
qed

lemma glyph_bits_Suc:
  "glyph_bits font start num (Suc n) = glyph_bits font start num n @ byte_bits (num n) (font ! (start + n))"
  by (simp add: glyph_bits_def)

lemma send_glyph_emits:
  assumes "start + n \<le> length font" "\<And>p. num p \<le> 8"
  shows "\<exists>s'. send_glyph env font start num n s = Inr s' \<and>
    emits s (pixels (colors s (glyph_bits font start num n))) s'"
  using assms(1)
proof (induction n)
  case 0
  then show ?case by (simp add: send_glyph_def glyph_bits_def colors_def)
next
  case (Suc n)
  then obtain t where t: "send_glyph env font start num n s = Inr t"
    "emits s (pixels (colors s (glyph_bits font start num n))) t" by auto
  then have c: "colors t = colors s" by (simp add: emits_colors)
  have "send_glyph env font start num (Suc n) s = Inr (send_bits env (num n) (font ! (start + n)) t)"
    using t(1) Suc.prems by (simp add: send_glyph_def cfor_append)
  with emits_trans[OF t(2) send_bits_emits[OF assms(2), of t n "font ! (start + n)" env]]
  show ?case by (simp add: glyph_bits_Suc colors_append pixels_append c)
qed

lemma store_glyph_eq:
  assumes "start + n \<le> length font" "\<And>p. num p \<le> 8"
    and "\<And>p. length (glyph_bits font start num p) = at p" and "2 * at n \<le> length buf"
  shows "store_glyph s font start num at n buf =
    Inr (overlay 0 (color_bytes (colors s (glyph_bits font start num n))) buf)"
  using assms(1,4)
proof (induction n)
  case 0
  then show ?case by (simp add: store_glyph_def glyph_bits_def colors_def color_bytes_def)
next
  case (Suc n)
  have at: "at (Suc n) = at n + num n" using assms(3)[of n] assms(3)[of "Suc n"] by (simp add: glyph_bits_Suc)
  with Suc have IH: "store_glyph s font start num at n buf =
      Inr (overlay 0 (color_bytes (colors s (glyph_bits font start num n))) buf)" by simp
  have "store_bits s (num n) (length (colors s (glyph_bits font start num n))) (font ! (start + n))
      (overlay 0 (color_bytes (colors s (glyph_bits font start num n))) buf) =
    Inr (overlay 0 (color_bytes (colors s (glyph_bits font start num n) @
      colors s (byte_bits (num n) (font ! (start + n))))) buf)"
    using Suc.prems assms(2,3) at by (intro store_bits_eq) simp_all
  then show ?case
    using IH Suc.prems assms(3)[of n]
    by (simp add: store_glyph_def cfor_append glyph_bits_Suc colors_append)
qed

lemma show_glyph_emits:
  assumes "unat start + n \<le> length font" "\<And>p. num p \<le> 8"
    and "\<And>p. length (glyph_bits font (unat start) num p) = at p" and "2 * at n = unat (sz * sz)"
  shows "\<exists>s'. show_glyph env font start num at n x y sz s = Inr s' \<and>
    emits s (window x y (ucast (ucast x + sz div 2 - 1)) (ucast (ucast y + sz - 1)) @
             pixels (colors s (glyph_bits font (unat start) num n))) s'"
proof -
  define w where "w = window x y (ucast (ucast x + sz div 2 - 1)) (ucast (ucast y + sz - 1))"
  define t where "t = lcd_address_set env x y (ucast (ucast x + sz div 2 - 1)) (ucast (ucast y + sz - 1)) s"
  define cs where "cs = colors s (glyph_bits font (unat start) num n)"
  have st: "emits s w t" by (simp add: w_def t_def emits_address_set)
  then have c: "colors t = colors s" by (rule emits_colors)
  have "\<exists>s'. show_glyph env font start num at n x y sz s = Inr s' \<and> emits t (pixels cs) s'"
  proof (cases "lcd_malloc env (unat (sz * sz)) t")
    case None
    then show ?thesis
      using send_glyph_emits[OF assms(1,2), where env = env and s = t]
      by (simp add: show_glyph_def Let_def t_def[symmetric] cs_def c)
  next
    case (Some buf)
    have len: "length buf = unat (sz * sz)" using Some by (rule lcd_malloc_length)
    have n: "2 * length cs = unat (sz * sz)" using assms(3,4) by (simp add: cs_def)
    define buf' where "buf' = overlay 0 (color_bytes cs) buf"
    have fill: "store_glyph t font (unat start) num at n buf = Inr buf'"
      using store_glyph_eq[OF assms(1,2,3), where buf = buf and s = t] assms(4) len by (simp add: buf'_def cs_def c)
    have "take (unat (sz * sz)) buf' = color_bytes cs"
      using take_color_bytes[of cs buf] n len by (simp add: buf'_def)
    then obtain s' where "spi_send_buf env buf' (unat (sz * sz)) (pin_write LCD_DC_PIN True t) = Inr s'"
        "emits (pin_write LCD_DC_PIN True t) (pixels cs) s'"
      using emits_send_colors[of "unat (sz * sz)" buf' cs "pin_write LCD_DC_PIN True t" env] len
      by (metis buf'_def dc_pin_write length_overlay order_refl)
    then show ?thesis
      using emits_trans[OF emits_dc[of t True]]
      by (fastforce simp: show_glyph_def Let_def t_def[symmetric] Some fill)
  qed
  then show ?thesis using emits_trans[OF st] unfolding w_def cs_def by blast
qed

lemma show_glyph_oob:
  assumes "length font \<le> unat start" "0 < n"
  shows "show_glyph env font start num at n x y sz s = Inl Out_Of_Bounds"
proof -
  have "[0..<n] = 0 # [1..<n]" using assms(2) by (simp add: upt_conv_Cons)
  then show ?thesis
    using assms(1) by (simp add: show_glyph_def send_glyph_def store_glyph_def Let_def split: option.split)
qed

text \<open>The fonts, by size: the table, the bytes of a glyph, the pixels of a byte and where they start.\<close>

definition font_size :: "u32 \<Rightarrow> bool" where
  "font_size sz \<longleftrightarrow> sz = 16 \<or> sz = 24 \<or> sz = 32"

definition font_of :: "u32 \<Rightarrow> byte list" where
  "font_of sz = (if sz = 16 then asc2_1608 else if sz = 24 then asc2_2412 else asc2_3216)"

definition stride :: "u32 \<Rightarrow> nat" where
  "stride sz = (if sz = 16 then 16 else if sz = 24 then 48 else 64)"

definition byte_pixels :: "u32 \<Rightarrow> nat \<Rightarrow> nat" where
  "byte_pixels sz pos = (if sz = 24 \<and> odd pos then 4 else 8)"

definition byte_start :: "u32 \<Rightarrow> nat \<Rightarrow> nat" where
  "byte_start sz pos = (if sz = 24 then 12 * (pos div 2) + (if odd pos then 8 else 0) else 8 * pos)"

definition glyph :: "u32 \<Rightarrow> byte \<Rightarrow> bool list" where
  "glyph sz c = glyph_bits (font_of sz) ((unat c - 32) * stride sz) (byte_pixels sz) (stride sz)"

lemma font_length: "font_size sz \<Longrightarrow> length (font_of sz) = 94 * stride sz"
  by (auto simp: font_size_def font_of_def stride_def)

lemma byte_start_Suc: "byte_start sz (Suc p) = byte_start sz p + byte_pixels sz p"
  by (auto simp: byte_start_def byte_pixels_def)

lemma length_glyph_bits:
  "length (glyph_bits font start (byte_pixels sz) n) = byte_start sz n"
proof (induction n)
  case 0
  then show ?case by (simp add: glyph_bits_def byte_start_def)
qed (simp add: glyph_bits_Suc byte_start_Suc)

lemma length_glyph: "font_size sz \<Longrightarrow> 2 * length (glyph sz c) = unat (sz * sz)"
  by (auto simp: font_size_def glyph_def length_glyph_bits byte_start_def stride_def)

lemma lcd_show_char_glyph:
  assumes "font_size sz" "\<not> (ucast x > 240 - sz div 2 \<or> ucast y > 240 - sz)"
  shows "lcd_show_char env x y c sz s =
    show_glyph env (font_of sz) (word_of_nat (unat (c - 32) * stride sz))
      (byte_pixels sz) (byte_start sz) (stride sz) x y sz s"
proof -
  define d where "d = c - 32"
  have d: "unat d < 256" using unsigned_less[of d] by simp
  have u: "unat (ucast d :: u32) = unat d" using d by (simp add: unsigned_ucast_eq take_bit_eq_mod)
  have starts: "ucast d * 16 * (16 div 2) div 8 = (word_of_nat (unat d * 16) :: u32)"
    "ucast d * (24 * 16) div 8 = (word_of_nat (unat d * 48) :: u32)"
    "ucast d * 32 * (32 div 2) div 8 = (word_of_nat (unat d * 64) :: u32)"
    using d by (simp_all only: word_unat_eq_iff unat_div unat_word_ariths u unsigned_of_nat take_bit_eq_mod)
      simp_all
  have pix: "byte_pixels 16 = (\<lambda>p. 8)" "byte_pixels 32 = (\<lambda>p. 8)"
    "byte_pixels 24 = (\<lambda>p. if p mod 2 = 0 then 8 else 4)"
    "byte_start 16 = (\<lambda>p. 8 * p)" "byte_start 32 = (\<lambda>p. 8 * p)"
    "byte_start 24 = (\<lambda>p. if p mod 2 = 0 then 12 * (p div 2) else 8 + 12 * (p div 2))"
    by (auto simp: byte_pixels_def byte_start_def fun_eq_iff even_iff_mod_2_eq_zero)
  from assms(1) consider "sz = 16" | "sz = 24" | "sz = 32" by (auto simp: font_size_def)
  then show ?thesis
    using assms(2) by cases
      (simp_all add: lcd_show_char_def Let_def d_def[symmetric] starts[simplified] pix font_of_def
        stride_def)
qed

lemma lcd_show_char_emits:
  assumes "font_size sz" "\<not> (ucast x > 240 - sz div 2 \<or> ucast y > 240 - sz)" "32 \<le> c" "c \<le> 125"
  shows "\<exists>s'. lcd_show_char env x y c sz s = Inr s' \<and>
    emits s (window x y (ucast (ucast x + sz div 2 - 1)) (ucast (ucast y + sz - 1)) @
             pixels (colors s (glyph sz c))) s'"
proof -
  have c: "unat (c - 32) = unat c - 32" "unat c \<le> 125" "32 \<le> unat c"
    using assms(3,4) by (simp_all add: unat_sub_if' word_le_nat_alt)
  have st: "stride sz \<le> 64" by (simp add: stride_def)
  have le: "(unat c - 32) * stride sz \<le> 93 * 64" using c st by (intro mult_le_mono) simp_all
  define w where "w = (word_of_nat (unat (c - 32) * stride sz) :: u32)"
  have start: "unat w = (unat c - 32) * stride sz"
    unfolding w_def c(1) using le by (intro of_nat_inverse[OF refl]) simp
  have "Suc (unat c - 32) * stride sz \<le> 94 * stride sz" using c by (intro mult_le_mono) simp_all
  then have fits: "(unat c - 32) * stride sz + stride sz \<le> length (font_of sz)"
    using font_length[OF assms(1)] by simp
  have area: "2 * byte_start sz (stride sz) = unat (sz * sz)"
    using length_glyph[OF assms(1), of c] by (simp add: glyph_def length_glyph_bits)
  show ?thesis
    unfolding lcd_show_char_glyph[OF assms(1,2)] w_def[symmetric]
    using show_glyph_emits[of w "stride sz" "font_of sz"
        "byte_pixels sz" "byte_start sz" sz env x y s] fits area
    by (simp add: start length_glyph_bits glyph_def[symmetric] byte_pixels_def)
qed

lemma lcd_show_char_oob:
  assumes "font_size sz" "\<not> (ucast x > 240 - sz div 2 \<or> ucast y > 240 - sz)" "c < 32 \<or> 125 < c"
  shows "lcd_show_char env x y c sz s = Inl Out_Of_Bounds"
proof -
  have c: "94 \<le> unat (c - 32)"
  proof (cases "unat c < 32")
    case True
    then show ?thesis using unsigned_less[of c] by (simp add: unat_sub_if')
  next
    case False
    then show ?thesis using assms(3) by (simp add: unat_sub_if' word_less_nat_alt)
  qed
  have st: "stride sz \<le> 64" "0 < stride sz" by (simp_all add: stride_def)
  have "unat (c - 32) < 256" using unsigned_less[of "c - 32"] by simp
  then have le: "unat (c - 32) * stride sz \<le> 256 * 64" using st by (intro mult_le_mono) simp_all
  define w where "w = (word_of_nat (unat (c - 32) * stride sz) :: u32)"
  have start: "unat w = unat (c - 32) * stride sz"
    unfolding w_def using le by (intro of_nat_inverse[OF refl]) simp
  have "94 * stride sz \<le> unat (c - 32) * stride sz" using c by (intro mult_le_mono) simp_all
  then show ?thesis
    unfolding lcd_show_char_glyph[OF assms(1,2)] w_def[symmetric]
    using font_length[OF assms(1)] st by (intro show_glyph_oob) (simp_all add: start)
qed

section \<open>Layout\<close>

datatype cell = Put u16 u16 byte | Clear_Red

fun layout :: "u32 \<Rightarrow> u16 \<Rightarrow> u16 \<Rightarrow> byte list \<Rightarrow> cell list" where
  "layout sz x y [] = []"
| "layout sz x y (c # t) =
     (let (x, y) = (if ucast x > 240 - sz div 2 then (0, y + ucast sz) else (x, y))
      in if ucast y > 240 - sz then Clear_Red # Put 0 0 c # layout sz (ucast (sz div 2)) 0 t
         else Put x y c # layout sz (x + ucast (sz div 2)) y t)"

declare layout.simps [simp del]

fun cell_wire :: "lcd \<Rightarrow> u32 \<Rightarrow> cell \<Rightarrow> (bool \<times> byte) list" where
  "cell_wire s sz (Put x y c) =
     window x y (ucast (ucast x + sz div 2 - 1)) (ucast (ucast y + sz - 1)) @
     pixels (colors s (glyph sz c))"
| "cell_wire s sz Clear_Red = window 0 0 239 239 @ pixel_run (240 * 240) RED"

fun on_panel :: "u32 \<Rightarrow> cell \<Rightarrow> bool" where
  "on_panel sz (Put x y c) \<longleftrightarrow> uint x + uint (sz div 2) \<le> 240 \<and> uint y + uint sz \<le> 240"
| "on_panel sz Clear_Red \<longleftrightarrow> True"

definition printable :: "byte \<Rightarrow> bool" where
  "printable c \<longleftrightarrow> 32 \<le> c \<and> c \<le> 125"

lemma cell_wire_cong: "emits s w t \<Longrightarrow> cell_wire t sz = cell_wire s sz"
proof (rule ext)
  fix c assume "emits s w t"
  then show "cell_wire t sz c = cell_wire s sz c" by (cases c) (simp_all add: emits_colors)
qed

lemma string_loop_emits:
  assumes "font_size sz" "list_all printable t"
  shows "\<exists>s'. string_loop env sz x y (t @ 0 # rest) s = Inr s' \<and>
    emits s (concat (map (cell_wire s sz) (layout sz x y t))) s'"
  using assms(2)
proof (induction t arbitrary: x y s)
  case Nil
  then show ?case by (simp add: string_loop.simps layout.simps)
next
  case (Cons c t)
  define x1 y1 where "x1 = (if ucast x > 240 - sz div 2 then 0 else x)"
    and "y1 = (if ucast x > 240 - sz div 2 then y + ucast sz else y)"
  have c: "32 \<le> c" "c \<le> 125" "c \<noteq> 0" using Cons.prems by (auto simp: printable_def)
  have xy: "(if ucast x > 240 - sz div 2 then (0, y + ucast sz) else (x, y)) = (x1, y1)"
    by (simp add: x1_def y1_def)
  have zero: "\<not> (ucast (0 :: u16) > 240 - sz div 2 \<or> ucast (0 :: u16) > 240 - sz)"
    and x1: "\<not> ucast x1 > 240 - sz div 2"
    using assms(1) by (auto simp: font_size_def x1_def)
  have step: "\<exists>s'. cbind (lcd_show_char env x' y' c sz t')
        (\<lambda>s. string_loop env sz (x' + ucast (sz div 2)) y' (t @ 0 # rest) s) = Inr s' \<and>
      emits t' (cell_wire t' sz (Put x' y' c) @
        concat (map (cell_wire t' sz) (layout sz (x' + ucast (sz div 2)) y' t))) s'"
    if "\<not> (ucast x' > 240 - sz div 2 \<or> ucast y' > 240 - sz)" for x' y' t'
  proof -
    from lcd_show_char_emits[OF assms(1) that c(1,2), of env t'] obtain u
      where u: "lcd_show_char env x' y' c sz t' = Inr u" "emits t' (cell_wire t' sz (Put x' y' c)) u"
      by auto
    from Cons obtain s' where "string_loop env sz (x' + ucast (sz div 2)) y' (t @ 0 # rest) u = Inr s'"
      "emits u (concat (map (cell_wire u sz) (layout sz (x' + ucast (sz div 2)) y' t))) s'"
      by (metis list.pred_inject(2))
    then show ?thesis using u emits_trans[OF u(2)] cell_wire_cong[OF u(2), of sz]
      by (metis cbind_Inr)
  qed
  show ?case
  proof (cases "ucast y1 > 240 - sz")
    case True
    from lcd_clear_emits[of env RED s] obtain u where u: "lcd_clear env RED s = Inr u"
      "emits s (cell_wire s sz Clear_Red) u" by auto
    have "string_loop env sz x y ((c # t) @ 0 # rest) s =
        cbind (lcd_show_char env 0 0 c sz u) (\<lambda>s. string_loop env sz (0 + ucast (sz div 2)) 0 (t @ 0 # rest) s)"
      by (simp add: string_loop.simps(2) c(3) xy True u(1))
    moreover have "layout sz x y (c # t) = Clear_Red # Put 0 0 c # layout sz (0 + ucast (sz div 2)) 0 t"
      by (simp add: layout.simps(2) xy True)
    ultimately show ?thesis
      using step[OF zero, of u] emits_trans[OF u(2)] cell_wire_cong[OF u(2), of sz]
      by (simp only: list.map concat.simps) blast
  next
    case False
    have "string_loop env sz x y ((c # t) @ 0 # rest) s =
        cbind (lcd_show_char env x1 y1 c sz s) (\<lambda>s. string_loop env sz (x1 + ucast (sz div 2)) y1 (t @ 0 # rest) s)"
      by (simp add: string_loop.simps(2) c(3) xy False)
    moreover have "layout sz x y (c # t) = Put x1 y1 c # layout sz (x1 + ucast (sz div 2)) y1 t"
      by (simp add: layout.simps(2) xy False)
    ultimately show ?thesis
      using step[of x1 y1 s] False x1 by (simp only: list.map concat.simps) blast
  qed
qed

lemma fits_iff:
  assumes "font_size sz"
  shows "(ucast (x :: u16) > 240 - sz div 2) = (uint x + uint (sz div 2) > 240)"
    and "(ucast (y :: u16) > 240 - sz) = (uint y + uint sz > 240)"
proof -
  have u: "uint (ucast v :: u32) = uint v" for v :: u16
    using uint_lt2p[of v] by (simp add: unsigned_ucast_eq take_bit_int_eq_self)
  show "(ucast (x :: u16) > 240 - sz div 2) = (uint x + uint (sz div 2) > 240)"
    "(ucast (y :: u16) > 240 - sz) = (uint y + uint sz > 240)"
    using assms by (auto simp: font_size_def word_less_def u)
qed

lemma layout_on_panel: "font_size sz \<Longrightarrow> list_all (on_panel sz) (layout sz x y t)"
proof (induction t arbitrary: x y)
  case (Cons c t)
  define x1 y1 where "x1 = (if ucast x > 240 - sz div 2 then 0 else x)"
    and "y1 = (if ucast x > 240 - sz div 2 then y + ucast sz else y)"
  have xy: "(if ucast x > 240 - sz div 2 then (0, y + ucast sz) else (x, y)) = (x1, y1)"
    by (simp add: x1_def y1_def)
  have x1: "\<not> ucast x1 > 240 - sz div 2" using Cons.prems by (auto simp: font_size_def x1_def)
  have "on_panel sz (Put x1 y1 c)" if "\<not> ucast y1 > 240 - sz"
    using that x1 by (simp add: fits_iff[OF Cons.prems])
  moreover have "on_panel sz (Put 0 0 c)" using Cons.prems by (auto simp: font_size_def)
  ultimately show ?case using Cons by (simp add: layout.simps(2) xy)
qed (simp add: layout.simps)

text \<open>A text that fits on its line is not moved.\<close>

lemma layout_line:
  assumes "font_size sz" "uint x + int (length t) * uint (sz div 2) \<le> 240" "uint y + uint sz \<le> 240"
  shows "layout sz x y t =
    map (\<lambda>k. Put (x + word_of_nat k * ucast (sz div 2)) y (t ! k)) [0..<length t]"
  using assms(2)
proof (induction t arbitrary: x)
  case (Cons c t)
  have h: "uint (ucast (sz div 2) :: u16) = uint (sz div 2)" using assms(1) by (auto simp: font_size_def)
  from Cons.prems have xh: "uint x + uint (sz div 2) + int (length t) * uint (sz div 2) \<le> 240"
    by (simp add: algebra_simps)
  moreover have "0 \<le> int (length t) * uint (sz div 2)" by simp
  ultimately have x1: "uint x + uint (sz div 2) \<le> 240" by linarith
  then have x': "uint (x + ucast (sz div 2)) = uint x + uint (sz div 2)"
    unfolding uint_word_ariths h by (intro mod_pos_pos_trivial) simp_all
  have "\<not> ucast x > 240 - sz div 2" "\<not> ucast y > 240 - sz"
    using x1 assms(3) by (simp_all add: fits_iff[OF assms(1)])
  moreover have "layout sz (x + ucast (sz div 2)) y t =
      map (\<lambda>k. Put (x + ucast (sz div 2) + word_of_nat k * ucast (sz div 2)) y (t ! k)) [0..<length t]"
    using xh by (intro Cons.IH) (simp only: x')
  ultimately show ?case
    by (simp add: layout.simps(2) upt_conv_Cons map_Suc_upt[symmetric] comp_def algebra_simps
        del: upt_Suc)
qed (simp add: layout.simps)

lemma lcd_show_string_emits:
  assumes "font_size sz" "format_text fmt args = Inr t" "list_all printable t"
    and "stack env + 100 < 2 ^ 32"
  shows "\<exists>s'. lcd_show_string env x y sz fmt args s = Inr (0, s') \<and>
    emits s (concat (map (cell_wire s sz) (layout sz x y (take 99 t)))) s' \<and>
    list_all (on_panel sz) (layout sz x y (take 99 t))"
proof -
  define buf :: "byte list" where "buf = replicate 128 0"
  have len: "length buf = 128" by (simp only: buf_def length_replicate)
  have "rt_vsnprintf (stack env) buf 100 fmt args =
      Inr (length t, overlay 0 (take (100 - 1) t @ [0]) buf)"
    using assms(4) by (intro rt_vsnprintf_eq[OF assms(2)]) (simp_all add: len)
  moreover have "overlay 0 (take (100 - 1) t @ [0]) buf =
      take 99 t @ 0 # drop (length (take 99 t) + 1) buf"
    by (simp add: overlay_def len)
  moreover have "list_all printable (take 99 t)"
    using assms(3) set_take_subset[of 99 t] by (auto simp: list_all_iff)
  ultimately show ?thesis
    using string_loop_emits[OF assms(1), of "take 99 t" env x y "drop (length (take 99 t) + 1) buf" s]
      layout_on_panel[OF assms(1)] assms(1)
    by (auto simp: lcd_show_string_def font_size_def buf_def[symmetric])
qed

text \<open>A text that fits on its line is drawn from left to right without moving, one cell of half the
  font size per character.\<close>

lemma lcd_show_string_line:
  assumes "font_size sz" "format_text fmt args = Inr t" "list_all printable t" "length t \<le> 99"
    and "stack env + 100 < 2 ^ 32"
    and "uint x + int (length t) * uint (sz div 2) \<le> 240" "uint y + uint sz \<le> 240"
  shows "\<exists>s'. lcd_show_string env x y sz fmt args s = Inr (0, s') \<and>
    emits s (concat (map (cell_wire s sz)
      (map (\<lambda>k. Put (x + word_of_nat k * ucast (sz div 2)) y (t ! k)) [0..<length t]))) s'"
  using lcd_show_string_emits[OF assms(1,2,3,5), of x y s] layout_line[OF assms(1,6,7)] assms(4)
  by auto

section \<open>Properties\<close>

text \<open>A character that fits: the printable ones up to the closing brace are drawn as their window and
  one pixel per bit of their glyph, as many as the window holds, whether or not there is memory for the
  block buffer; every other byte, the tilde and the bytes of non-ASCII text included, reads outside the
  font table.\<close>

theorem lcd_show_char_cases:
  assumes "font_size sz" "uint x + uint (sz div 2) \<le> 240" "uint y + uint sz \<le> 240"
  shows "2 * length (glyph sz c) = unat (sz * sz) \<and>
    (if 32 \<le> c \<and> c \<le> 125
     then \<exists>s'. lcd_show_char env x y c sz s = Inr s' \<and>
       emits s (window x y (ucast (ucast x + sz div 2 - 1)) (ucast (ucast y + sz - 1)) @
                pixels (colors s (glyph sz c))) s'
     else lcd_show_char env x y c sz s = Inl Out_Of_Bounds)"
proof -
  have fits: "\<not> (ucast x > 240 - sz div 2 \<or> ucast y > 240 - sz)"
    using assms by (simp add: fits_iff)
  show ?thesis
    using length_glyph[OF assms(1)] lcd_show_char_emits[OF assms(1) fits, of c env s]
      lcd_show_char_oob[OF assms(1) fits, of c env s] by (simp add: not_le)
qed

lemma lcd_show_char_cases_witness: "lcd_show_char plain_env 10 10 126 24 lcd_boot = Inl Out_Of_Bounds"
  using lcd_show_char_cases[of 24 10 10 126 plain_env lcd_boot] by (simp add: font_size_def)

text \<open>C21. \<open>lcd_show_string\<close> of a text of printable characters returns 0 and draws its first 99
  characters where the layout puts them, every one of them inside the panel.\<close>

theorem lcd_show_string_layout:
  assumes "font_size sz" "format_text fmt args = Inr t" "list_all printable t"
    and "stack env + 100 < 2 ^ 32"
  shows "\<exists>s'. lcd_show_string env x y sz fmt args s = Inr (0, s') \<and>
    emits s (concat (map (cell_wire s sz) (layout sz x y (take 99 t)))) s' \<and>
    list_all (on_panel sz) (layout sz x y (take 99 t))"
  by (rule lcd_show_string_emits[OF assms])

lemma lcd_show_string_layout_witness:
  "\<exists>s'. lcd_show_string plain_env 230 0 16
      (lit ''a%d'') [A_Int 7] lcd_boot = Inr (0, s') \<and>
    emits lcd_boot (concat (map (cell_wire lcd_boot 16) [Put 230 0 97, Put 0 16 55])) s'"
proof -
  have "format_text (lit ''a%d'') [A_Int 7] = Inr (lit ''a7'')"
    by (simp add: lit_def convert_text_d dec_text_eq tmp_digits.simps divide_10 digit_def c_simps)
  from lcd_show_string_layout[OF _ this, of 16 plain_env 230 0 lcd_boot]
  show ?thesis by (auto simp: font_size_def lit_def printable_def layout.simps plain_env_def)
qed

end
