(* ===== verification/Files.thy ===== *)
theory Files
  imports Prelude
begin

text \<open>
  What the application uses of the POSIX file interface (\<open>components/dfs/src/dfs_posix.c\<close>): opening a
  file for reading, \<open>lseek\<close> from the start, and \<open>read\<close>. The file system below it, a FAT on an SD card,
  is a parameter: the contents of the file of each path.
\<close>

type_synonym files = "byte list \<Rightarrow> byte list option"

record open_file =
  contents :: "byte list"
  pos :: nat

definition open_rdonly :: "files \<Rightarrow> byte list \<Rightarrow> open_file option" where
  "open_rdonly fs path = map_option (\<lambda>c. \<lparr>contents = c, pos = 0\<rparr>) (fs path)"

text \<open>A negative offset is refused and leaves the position alone.\<close>

definition lseek_set :: "int \<Rightarrow> open_file \<Rightarrow> int \<times> open_file" where
  "lseek_set offset f = (if offset < 0 then (-1, f) else (offset, f\<lparr>pos := nat offset\<rparr>))"

definition file_read :: "nat \<Rightarrow> open_file \<Rightarrow> byte list \<times> open_file" where
  "file_read n f =
     (let data = take n (drop (pos f) (contents f)) in (data, f\<lparr>pos := pos f + length data\<rparr>))"

lemma contents_seek [simp]: "contents (snd (lseek_set off f)) = contents f"
  by (simp add: lseek_set_def)

lemma contents_read [simp]: "contents (snd (file_read n f)) = contents f"
  by (simp add: file_read_def Let_def)

text \<open>A read inside the file is complete and moves the position by its size.\<close>

lemma file_read_full:
  "pos f + n \<le> length (contents f) \<Longrightarrow>
   file_read n f = (take n (drop (pos f) (contents f)), f\<lparr>pos := pos f + n\<rparr>)"
  by (simp add: file_read_def Let_def)

end
