(* ===== verification/Display_Ch.thy ===== *)
theory Display_Ch
  imports Lcd Lcd_Font Files
begin

text \<open>
  Mixed Chinese and English text, \<open>drivers/display_ch.c\<close>: ASCII characters from the table in flash,
  two-byte GB2312 characters from the font file on the SD card, and the three string routines, which
  wrap at the right edge and go back to the top past the bottom.
\<close>

section \<open>Characters\<close>

text \<open>What the renderer depends on: the display, the files, and the junk in a fresh stack buffer.\<close>

record ch_env =
  panel :: lcd_env
  files :: files
  junk :: "bus_ev list \<Rightarrow> nat \<Rightarrow> byte"

definition file_location :: "byte list" where
  "file_location = lit ''/HZLIB.bin''"

text \<open>\<open>for (ucColum ...) ... ucTemp >>= 1\<close>\<close>

primrec en_row :: "lcd_env \<Rightarrow> u16 \<Rightarrow> u16 \<Rightarrow> nat \<Rightarrow> byte \<Rightarrow> lcd \<Rightarrow> lcd" where
  "en_row env bg fg 0 ucTemp s = s"
| "en_row env bg fg (Suc n) ucTemp s =
     en_row env bg fg n (drop_bit 1 ucTemp)
       (if ucTemp AND 0x01 \<noteq> 0 then draw_pixel env fg s else draw_pixel env bg s)"

definition lcd_disp_char_en :: "ch_env \<Rightarrow> u16 \<Rightarrow> u16 \<Rightarrow> byte \<Rightarrow> u16 \<Rightarrow> u16 \<Rightarrow> lcd \<Rightarrow> lcd cres" where
  "lcd_disp_char_en env usX usY cChar bg fg s =
     (let rel = cChar - 32;
          s = snd (lcd_open_window (panel env) usX usY 8 16 s)
      in cfor [0..<16] (\<lambda>ucPage s.
           cbind (buf_get (unat rel) ucAscii_1608) (\<lambda>row.
           cbind (buf_get ucPage row) (\<lambda>ucTemp.
           Inr (en_row (panel env) bg fg 8 ucTemp s)))) s)"

definition gbk_pos :: "u16 \<Rightarrow> u32" where
  "gbk_pos c = word_of_int (((uint (hi8 c) - 0xa0 - 16) * 94 + uint (lo8 c) - 0xa0 - 1) * 2 * 16)"

definition GetGBKCode_from_sd :: "files \<Rightarrow> byte list \<Rightarrow> u16 \<Rightarrow> int \<times> byte list" where
  "GetGBKCode_from_sd fs pBuffer c =
     (case open_rdonly fs file_location of
        Some fd \<Rightarrow>
          (let fd = snd (lseek_set (sint (gbk_pos c)) fd);
               (data, fd) = file_read 32 fd
           in (0, overlay 0 data pBuffer))
      | None \<Rightarrow> (-1, pBuffer))"

text \<open>\<open>for (ucColum ...) ... us_Temp <<= 1\<close>\<close>

primrec ch_row :: "lcd_env \<Rightarrow> u16 \<Rightarrow> u16 \<Rightarrow> nat \<Rightarrow> u16 \<Rightarrow> lcd \<Rightarrow> lcd" where
  "ch_row env bg fg 0 us_Temp s = s"
| "ch_row env bg fg (Suc n) us_Temp s =
     ch_row env bg fg n (push_bit 1 us_Temp)
       (if us_Temp AND push_bit 15 1 \<noteq> 0 then draw_pixel env fg s else draw_pixel env bg s)"

definition lcd_disp_char_ch :: "ch_env \<Rightarrow> u16 \<Rightarrow> u16 \<Rightarrow> u16 \<Rightarrow> u16 \<Rightarrow> u16 \<Rightarrow> lcd \<Rightarrow> lcd cres" where
  "lcd_disp_char_ch env x y usChar bg fg s =
     (let fresh = map (junk env (bus s)) [0..<32];
          s = snd (lcd_open_window (panel env) x y 16 16 s);
          (ret, ucBuffer) = GetGBKCode_from_sd (files env) fresh usChar
      in cfor [0..<16] (\<lambda>ucPage s.
           cbind (buf_get (ucPage * 2) ucBuffer) (\<lambda>h.
           cbind (buf_get (ucPage * 2 + 1) ucBuffer) (\<lambda>l.
           Inr (ch_row (panel env) bg fg 16 (push_bit 8 (ucast h) OR ucast l) s)))) s)"

section \<open>Strings\<close>

text \<open>The two wrap tests before a character of width \<open>w\<close>.\<close>

definition wrap :: "int \<Rightarrow> u16 \<Rightarrow> u16 \<Rightarrow> u16 \<times> u16" where
  "wrap w usX usY =
     (let (usX, usY) = (if uint usX - 0 + w > 240 then (0, usY + 16) else (usX, usY))
      in if uint usY - 0 + 16 > 240 then (0, 0) else (usX, usY))"

fun lcd_disp_str_en :: "ch_env \<Rightarrow> u16 \<Rightarrow> u16 \<Rightarrow> byte list \<Rightarrow> u16 \<Rightarrow> u16 \<Rightarrow> lcd \<Rightarrow> lcd cres" where
  "lcd_disp_str_en env usX usY [] bg fg s = Inl Out_Of_Bounds"
| "lcd_disp_str_en env usX usY (c # pStr) bg fg s =
     (if c = 0 then Inr s
      else
        (let (usX, usY) = wrap 8 usX usY
         in cbind (lcd_disp_char_en env usX usY c bg fg s) (\<lambda>s.
            lcd_disp_str_en env (usX + 8) usY pStr bg fg s)))"

text \<open>The two bytes of a character, first byte high.\<close>

definition ch_code :: "byte \<Rightarrow> byte \<Rightarrow> u16" where
  "ch_code usCh_low usCh_high = push_bit 8 (0xffff AND ucast usCh_low) OR ucast usCh_high"

fun lcd_disp_str_ch :: "ch_env \<Rightarrow> u16 \<Rightarrow> u16 \<Rightarrow> byte list \<Rightarrow> u16 \<Rightarrow> u16 \<Rightarrow> lcd \<Rightarrow> lcd cres" where
  "lcd_disp_str_ch env usX usY [] bg fg s = Inl Out_Of_Bounds"
| "lcd_disp_str_ch env usX usY (c # pStr) bg fg s =
     (if c = 0 then Inr s
      else
        (let (usX, usY) = wrap 16 usX usY
         in case pStr of
              [] \<Rightarrow> Inl Out_Of_Bounds
            | c2 # rest \<Rightarrow>
                cbind (lcd_disp_char_ch env usX usY (ch_code c c2) bg fg s) (\<lambda>s.
                lcd_disp_str_ch env (usX + 16) usY rest bg fg s)))"

fun lcd_disp_str_en_ch :: "ch_env \<Rightarrow> u16 \<Rightarrow> u16 \<Rightarrow> byte list \<Rightarrow> u16 \<Rightarrow> u16 \<Rightarrow> lcd \<Rightarrow> lcd cres" where
  "lcd_disp_str_en_ch env usX usY [] bg fg s = Inl Out_Of_Bounds"
| "lcd_disp_str_en_ch env usX usY (c # pStr) bg fg s =
     (if c = 0 then Inr s
      else if c \<le> 126 then
        (let (usX, usY) = wrap 8 usX usY
         in cbind (lcd_disp_char_en env usX usY c bg fg s) (\<lambda>s.
            lcd_disp_str_en_ch env (usX + 8) usY pStr bg fg s))
      else
        (let (usX, usY) = wrap 16 usX usY
         in case pStr of
              [] \<Rightarrow> Inl Out_Of_Bounds
            | c2 # rest \<Rightarrow>
                cbind (lcd_disp_char_ch env usX usY (ch_code c c2) bg fg s) (\<lambda>s.
                lcd_disp_str_en_ch env (usX + 16) usY rest bg fg s)))"

declare lcd_disp_str_en.simps [simp del] lcd_disp_str_ch.simps [simp del]
  lcd_disp_str_en_ch.simps [simp del]

section \<open>The pixels of a character\<close>

definition ink :: "u16 \<Rightarrow> u16 \<Rightarrow> bool list \<Rightarrow> u16 list" where
  "ink bg fg = map (\<lambda>b. if b then fg else bg)"

definition en_pixels :: "u16 \<Rightarrow> u16 \<Rightarrow> byte \<Rightarrow> u16 list" where
  "en_pixels bg fg c =
     ink bg fg (concat (map (\<lambda>row. map (\<lambda>k. bit row k) [0..<8]) (ucAscii_1608 ! unat (c - 32))))"

text \<open>The 32 bytes of a two-byte character: what the file holds there, junk where it holds nothing.\<close>

definition ch_bytes :: "ch_env \<Rightarrow> lcd \<Rightarrow> u16 \<Rightarrow> byte list" where
  "ch_bytes env s c = snd (GetGBKCode_from_sd (files env) (map (junk env (bus s)) [0..<32]) c)"

definition ch_pixels :: "u16 \<Rightarrow> u16 \<Rightarrow> byte list \<Rightarrow> u16 list" where
  "ch_pixels bg fg bs = ink bg fg (concat (map (\<lambda>p.
     map (\<lambda>k. bit (bs ! (2 * p)) (7 - k)) [0..<8] @ map (\<lambda>k. bit (bs ! (2 * p + 1)) (7 - k)) [0..<8])
     [0..<16]))"

lemma low_bit: "(w AND 1 \<noteq> 0) = bit (w :: byte) 0"
  by (simp add: and_one_eq odd_iff_mod_2_eq_one[symmetric] bit_0)

lemma en_row_eq:
  "n + m = 8 \<Longrightarrow> en_row env bg fg n (drop_bit m w) s =
     fold (draw_pixel env) (ink bg fg (map (\<lambda>k. bit w k) [m..<8])) s"
proof (induction n arbitrary: m s)
  case (Suc n)
  then have "[m..<8] = m # [Suc m..<8]" by (simp add: upt_conv_Cons)
  moreover have "drop_bit 1 (drop_bit m w) = drop_bit (Suc m) w" by simp
  ultimately show ?case
    using Suc.IH[of "Suc m"] Suc.prems
    by (simp add: ink_def low_bit[simplified] bit_drop_bit_eq)
qed (simp add: ink_def)

lemma map_nth_row: "length xs = n \<Longrightarrow> map (\<lambda>i. f (xs ! i)) [0..<n] = map f xs"
  by (rule nth_equalityI) simp_all

lemma ink_concat: "ink bg fg (concat bss) = concat (map (ink bg fg) bss)"
  by (simp add: ink_def map_concat)

lemma lcd_disp_char_en_eq:
  assumes "32 \<le> c" "c \<le> 126"
  shows "lcd_disp_char_en env x y c bg fg s =
    Inr (fold (draw_pixel (panel env)) (en_pixels bg fg c) (snd (lcd_open_window (panel env) x y 8 16 s)))"
proof -
  have i: "unat (c - 32) < 95"
    using assms by (simp add: unat_sub_if' word_le_nat_alt)
  define row where "row = ucAscii_1608 ! unat (c - 32)"
  have len: "length row = 16" using length_ucAscii_1608_row[OF i] by (simp add: row_def)
  have "cfor [0..<16] (\<lambda>ucPage s.
      cbind (buf_get (unat (c - 32)) ucAscii_1608) (\<lambda>row. cbind (buf_get ucPage row) (\<lambda>ucTemp.
      Inr (en_row (panel env) bg fg 8 ucTemp s)))) t =
    Inr (fold (draw_pixel (panel env))
      (concat (map (\<lambda>p. ink bg fg (map (\<lambda>k. bit (row ! p) k) [0..<8])) [0..<16])) t)" for t
    by (rule st7789.cfor_puts) (use i len en_row_eq[of 8 0] in \<open>simp add: row_def[symmetric]\<close>)
  moreover have "concat (map (\<lambda>p. ink bg fg (map (\<lambda>k. bit (row ! p) k) [0..<8])) [0..<16]) =
      en_pixels bg fg c"
    unfolding en_pixels_def row_def[symmetric] ink_concat map_map comp_def
    using map_nth_row[OF len, of "\<lambda>r. ink bg fg (map (bit r) [0..<8])"] by simp
  ultimately show ?thesis by (simp only: lcd_disp_char_en_def Let_def)
qed

lemma top_bit16: "(w AND push_bit 15 1 \<noteq> 0) = bit (w :: u16) 15"
  by (metis and_exp_eq_0_iff_not_bit push_bit_of_1)

lemma ch_row_eq:
  "n + m = 16 \<Longrightarrow> ch_row env bg fg n (push_bit m w) s =
     fold (draw_pixel env) (ink bg fg (map (\<lambda>k. bit w (15 - k)) [m..<16])) s"
proof (induction n arbitrary: m s)
  case (Suc n)
  then have u: "[m..<16] = m # [Suc m..<16]" by (simp add: upt_conv_Cons)
  have p: "push_bit 1 (push_bit m w) = push_bit (Suc m) w" by (simp add: push_bit_push_bit)
  have b: "bit (push_bit m w) 15 = bit w (15 - m)"
    using Suc.prems unfolding bit_push_bit_iff by auto
  have "ch_row env bg fg (Suc n) (push_bit m w) s = ch_row env bg fg n (push_bit (Suc m) w)
      (if bit w (15 - m) then draw_pixel env fg s else draw_pixel env bg s)"
    by (simp only: ch_row.simps top_bit16 p b)
  also have "\<dots> = fold (draw_pixel env) (ink bg fg (map (\<lambda>k. bit w (15 - k)) [m..<16])) s"
    using Suc.prems by (subst Suc.IH) (simp_all add: u ink_def)
  finally show ?case .
qed (simp add: ink_def)

lemma ch_word_bits:
  "map (\<lambda>k. bit (push_bit 8 (ucast (h :: byte)) OR ucast (l :: byte) :: u16) (15 - k)) [0..<16] =
   map (\<lambda>k. bit h (7 - k)) [0..<8] @ map (\<lambda>k. bit l (7 - k)) [0..<8]"
proof -
  have hi: "bit (push_bit 8 (ucast h) OR ucast l :: u16) (15 - k) = bit h (7 - k)" if "k < 8" for k
  proof -
    have "15 - k - 8 = 7 - k" "8 \<le> 15 - k" "7 - k < 16" "15 - k < 16" using that by simp_all
    moreover have "\<not> bit l (15 - k)" using that bit_imp_le_length[of l "15 - k"] by auto
    ultimately show ?thesis unfolding bit_or_iff bit_push_bit_iff bit_ucast_iff by simp
  qed
  have lo: "bit (push_bit 8 (ucast h) OR ucast l :: u16) (15 - (k + 8)) = bit l (7 - k)" if "k < 8" for k
  proof -
    have "15 - (k + 8) = 7 - k" "\<not> 8 \<le> 15 - (k + 8)" "7 - k < 8" using that by simp_all
    then show ?thesis unfolding bit_or_iff bit_push_bit_iff bit_ucast_iff by simp
  qed
  have "[0..<16] = [0..<8] @ map (\<lambda>k. k + 8) [0..<8]"
    by (simp add: upt_conv_Cons)
  then show ?thesis by (simp only: map_append map_map comp_def) (use hi lo in auto)
qed

lemma length_GetGBKCode [simp]: "length (snd (GetGBKCode_from_sd fs buf c)) = length buf"
  by (simp add: GetGBKCode_from_sd_def Let_def split: option.split prod.split)

lemma lcd_disp_char_ch_eq:
  "lcd_disp_char_ch env x y c bg fg s =
     Inr (fold (draw_pixel (panel env)) (ch_pixels bg fg (ch_bytes env s c))
       (snd (lcd_open_window (panel env) x y 16 16 s)))"
proof -
  define bs where "bs = ch_bytes env s c"
  have len: "length bs = 32" by (simp add: bs_def ch_bytes_def)
  have "cfor [0..<16] (\<lambda>ucPage s.
      cbind (buf_get (ucPage * 2) bs) (\<lambda>h. cbind (buf_get (ucPage * 2 + 1) bs) (\<lambda>l.
      Inr (ch_row (panel env) bg fg 16 (push_bit 8 (ucast h) OR ucast l) s)))) t =
    Inr (fold (draw_pixel (panel env)) (concat (map (\<lambda>p. ink bg fg
     (map (\<lambda>k. bit (bs ! (2 * p)) (7 - k)) [0..<8] @ map (\<lambda>k. bit (bs ! (2 * p + 1)) (7 - k)) [0..<8]))
     [0..<16])) t)" for t
  proof (rule st7789.cfor_puts)
    fix p t assume "p \<in> set [0..<16 :: nat]"
    then have p: "p * 2 < length bs" "p * 2 + 1 < length bs" by (auto simp: len)
    show "cbind (buf_get (p * 2) bs) (\<lambda>h. cbind (buf_get (p * 2 + 1) bs) (\<lambda>l.
      Inr (ch_row (panel env) bg fg 16 (push_bit 8 (ucast h) OR ucast l) t))) =
      Inr (fold (draw_pixel (panel env)) (ink bg fg (map (\<lambda>k. bit (bs ! (2 * p)) (7 - k)) [0..<8] @
        map (\<lambda>k. bit (bs ! (2 * p + 1)) (7 - k)) [0..<8])) t)"
      using ch_row_eq[of 16 0 "panel env" bg fg "push_bit 8 (ucast (bs ! (p * 2))) OR ucast (bs ! (p * 2 + 1))" t]
      unfolding buf_get_ok[OF p(1)] buf_get_ok[OF p(2)] cbind_Inr ch_word_bits
      by (simp add: mult.commute)
  qed
  then show ?thesis
    unfolding lcd_disp_char_ch_def Let_def bs_def[symmetric] ch_pixels_def ink_concat map_map comp_def
    by (simp add: ch_bytes_def bs_def split_beta)
qed

section \<open>Strings as cells\<close>

datatype tok = En byte | Ch byte byte

fun tok_bytes :: "tok \<Rightarrow> byte list" where
  "tok_bytes (En c) = [c]"
| "tok_bytes (Ch a b) = [a, b]"

fun tok_width :: "tok \<Rightarrow> u16" where
  "tok_width (En c) = 8"
| "tok_width (Ch a b) = 16"

text \<open>Where the glyph of a two-byte character is in the font file: 32 bytes per character, the characters
  of a row of 94 after each other, from row 0xB0 on.\<close>

definition font_offset :: "byte \<Rightarrow> byte \<Rightarrow> int" where
  "font_offset a b = ((uint a - 0xB0) * 94 + (uint b - 0xA1)) * 32"

definition font_glyph :: "byte list \<Rightarrow> byte \<Rightarrow> byte \<Rightarrow> byte list" where
  "font_glyph font a b = take 32 (drop (nat (font_offset a b)) font)"

text \<open>A character the renderer can draw: printable ASCII, or a lead byte above 126 whose glyph is in the
  font file.\<close>

fun drawable :: "byte list \<Rightarrow> tok \<Rightarrow> bool" where
  "drawable font (En c) \<longleftrightarrow> 32 \<le> c \<and> c \<le> 126"
| "drawable font (Ch a b) \<longleftrightarrow> 126 < a \<and> 0 \<le> font_offset a b \<and> nat (font_offset a b) + 32 \<le> length font"

fun tok_pixels :: "byte list \<Rightarrow> u16 \<Rightarrow> u16 \<Rightarrow> tok \<Rightarrow> u16 list" where
  "tok_pixels font bg fg (En c) = en_pixels bg fg c"
| "tok_pixels font bg fg (Ch a b) = ch_pixels bg fg (font_glyph font a b)"

fun place :: "u16 \<Rightarrow> u16 \<Rightarrow> tok list \<Rightarrow> (u16 \<times> u16 \<times> tok) list" where
  "place x y [] = []"
| "place x y (t # ts) =
     (let (x, y) = wrap (uint (tok_width t)) x y in (x, y, t) # place (x + tok_width t) y ts)"

fun tok_wire :: "byte list \<Rightarrow> u16 \<Rightarrow> u16 \<Rightarrow> u16 \<times> u16 \<times> tok \<Rightarrow> (bool \<times> byte) list" where
  "tok_wire font bg fg (x, y, t) =
     cell_window x y (tok_width t) 16 @ pixels (tok_pixels font bg fg t)"

fun tok_on_panel :: "u16 \<times> u16 \<times> tok \<Rightarrow> bool" where
  "tok_on_panel (x, y, t) \<longleftrightarrow> uint x + uint (tok_width t) \<le> 240 \<and> uint y + 16 \<le> 240"

lemma wrap_on_panel:
  "w \<le> 16 \<Longrightarrow> wrap w x y = (x', y') \<Longrightarrow> uint x' + w \<le> 240 \<and> uint y' + 16 \<le> 240"
  by (auto simp: wrap_def Let_def split: if_splits)

lemma tok_width_le: "uint (tok_width t) \<le> 16"
  by (cases t) simp_all

lemma place_on_panel: "list_all tok_on_panel (place x y ts)"
proof (induction ts arbitrary: x y)
  case (Cons t ts)
  obtain x' y' where w: "wrap (uint (tok_width t)) x y = (x', y')" by fastforce
  show ?case using Cons wrap_on_panel[OF tok_width_le w] by (simp add: w)
qed simp

lemma ch_code_eq: "ch_code a b = push_bit 8 (ucast a) OR ucast b"
proof -
  have "(0xffff :: u16) = - 1" by simp
  then show ?thesis by (simp only: ch_code_def and.left_neutral)
qed

lemma ch_code_bytes: "hi8 (ch_code a b) = a" "lo8 (ch_code a b) = b"
proof -
  have no: "\<not> bit b (8 + k)" for k using bit_imp_le_length[of b "8 + k"] by auto
  have "bit (hi8 (ch_code a b)) k = bit a k" if "k < 8" for k
    using that no[of k] unfolding hi8_def ch_code_eq bit_ucast_iff bit_drop_bit_eq comp_def
      bit_or_iff bit_push_bit_iff by simp
  then show "hi8 (ch_code a b) = a" by (intro bit_word_eqI) simp
  have "bit (lo8 (ch_code a b)) k = bit b k" if "k < 8" for k
    using that unfolding lo8_def ch_code_eq bit_ucast_iff bit_or_iff bit_push_bit_iff by simp
  then show "lo8 (ch_code a b) = b" by (intro bit_word_eqI) simp
qed

lemma sint_u32_small: "- (2 ^ 31) \<le> i \<Longrightarrow> i < 2 ^ 31 \<Longrightarrow> sint (word_of_int i :: u32) = i"
  by (simp add: signed_of_int signed_take_bit_int_eq_self)

lemma gbk_pos_eq: "sint (gbk_pos (ch_code a b)) = font_offset a b"
proof -
  have "0 \<le> uint a" "uint a < 256" "0 \<le> uint b" "uint b < 256"
    using uint_lt2p[of a] uint_lt2p[of b] by simp_all
  then have "- (2 ^ 31) \<le> font_offset a b \<and> font_offset a b < 2 ^ 31"
    by (simp add: font_offset_def)
  moreover have "gbk_pos (ch_code a b) = word_of_int (font_offset a b)"
    by (simp only: gbk_pos_def ch_code_bytes font_offset_def) (simp add: algebra_simps)
  ultimately show ?thesis by (simp only: sint_u32_small)
qed

lemma GetGBKCode_glyph:
  assumes "fs file_location = Some font" "length buf = 32"
    and "drawable font (Ch a b)"
  shows "GetGBKCode_from_sd fs buf (ch_code a b) = (0, font_glyph font a b)"
proof -
  have "length (take 32 (drop (nat (font_offset a b)) font)) = length buf" using assms(2,3) by auto
  from overlay_full[OF this] show ?thesis
    using assms
    by (simp add: GetGBKCode_from_sd_def open_rdonly_def gbk_pos_eq lseek_set_def file_read_full
        font_glyph_def Let_def)
qed

text \<open>A character below row 0xB0 of the code, as the punctuation and the units are: its offset is
  negative, the seek fails, and the first glyph of the file is read instead.\<close>

lemma GetGBKCode_symbol:
  assumes "fs file_location = Some font" "32 \<le> length font" "length buf = 32" "font_offset a b < 0"
  shows "GetGBKCode_from_sd fs buf (ch_code a b) = (0, take 32 font)"
  using assms
  by (simp add: GetGBKCode_from_sd_def open_rdonly_def gbk_pos_eq lseek_set_def file_read_full
      overlay_full Let_def)

lemma char_emits:
  assumes "uint x + uint l \<le> 240" "uint y + 16 \<le> 240"
  shows "emits s (cell_window x y l 16 @ pixels cs)
    (fold (draw_pixel env) cs (snd (lcd_open_window env x y l 16 s)))"
  using st7789.cell[of x l y 16 s cs env] assms by (simp add: pixels_def)

lemma tok_char_emits:
  assumes "files env file_location = Some font" "drawable font t" "tok_on_panel (x, y, t)"
  shows "\<exists>s'. (case t of En c \<Rightarrow> lcd_disp_char_en env x y c bg fg s
                | Ch a b \<Rightarrow> lcd_disp_char_ch env x y (ch_code a b) bg fg s) = Inr s' \<and>
    emits s (tok_wire font bg fg (x, y, t)) s'"
proof (cases t)
  case (En c)
  then show ?thesis using assms char_emits[of x 8 y s] by (simp add: lcd_disp_char_en_eq)
next
  case (Ch a b)
  have "ch_bytes env s (ch_code a b) = font_glyph font a b"
    using GetGBKCode_glyph[where fs = "files env" and buf = "map (junk env (bus s)) [0..<32]"
        and font = font and a = a and b = b] assms(1,2)
    by (simp add: ch_bytes_def Ch)
  then show ?thesis using Ch assms char_emits[of x 16 y s] by (simp add: lcd_disp_char_ch_eq)
qed

text \<open>The mixed routine draws the cells of its text, in order.\<close>

lemma lcd_disp_str_en_ch_prefix:
  assumes "files env file_location = Some font" "list_all (drawable font) ts"
  shows "\<exists>x' y' s'. lcd_disp_str_en_ch env x y (concat (map tok_bytes ts) @ tail) bg fg s =
      lcd_disp_str_en_ch env x' y' tail bg fg s' \<and>
    emits s (concat (map (tok_wire font bg fg) (place x y ts))) s'"
  using assms(2)
proof (induction ts arbitrary: x y s)
  case Nil
  have "emits s [] s" by simp
  then show ?case by (simp only: list.map concat.simps append_Nil place.simps) blast
next
  case (Cons t ts)
  obtain x1 y1 where w: "wrap (uint (tok_width t)) x y = (x1, y1)" by fastforce
  have on: "tok_on_panel (x1, y1, t)" using wrap_on_panel[OF tok_width_le w] by simp
  have dr: "drawable font t" using Cons.prems by simp
  obtain u where u: "(case t of En c \<Rightarrow> lcd_disp_char_en env x1 y1 c bg fg s
        | Ch a b \<Rightarrow> lcd_disp_char_ch env x1 y1 (ch_code a b) bg fg s) = Inr u"
    and su: "emits s (tok_wire font bg fg (x1, y1, t)) u"
    using tok_char_emits[OF assms(1) dr on] by blast
  have step: "lcd_disp_str_en_ch env x y (concat (map tok_bytes (t # ts)) @ tail) bg fg s =
      lcd_disp_str_en_ch env (x1 + tok_width t) y1 (concat (map tok_bytes ts) @ tail) bg fg u"
  proof (cases t)
    case (En c)
    then have "c \<noteq> 0" "c \<le> 126" using dr by auto
    then show ?thesis using w u by (simp add: En lcd_disp_str_en_ch.simps)
  next
    case (Ch a b)
    then have "a \<noteq> 0" "\<not> a \<le> 126" using dr by (auto simp: not_le)
    then show ?thesis using w u by (simp add: Ch lcd_disp_str_en_ch.simps)
  qed
  obtain x' y' s' where "lcd_disp_str_en_ch env (x1 + tok_width t) y1 (concat (map tok_bytes ts) @ tail)
      bg fg u = lcd_disp_str_en_ch env x' y' tail bg fg s'"
    "emits u (concat (map (tok_wire font bg fg) (place (x1 + tok_width t) y1 ts))) s'"
    using Cons by (metis list.pred_inject(2))
  then show ?case
    using emits_trans[OF su] by (simp only: step[unfolded list.map concat.simps] w place.simps Let_def
        prod.case list.map concat.simps) blast
qed

lemma lcd_disp_str_en_ch_emits:
  assumes "files env file_location = Some font" "list_all (drawable font) ts"
  shows "\<exists>s'. lcd_disp_str_en_ch env x y (concat (map tok_bytes ts) @ 0 # rest) bg fg s = Inr s' \<and>
    emits s (concat (map (tok_wire font bg fg) (place x y ts))) s'"
  using lcd_disp_str_en_ch_prefix[OF assms, of x y "0 # rest" bg fg s] by (auto simp: lcd_disp_str_en_ch.simps(2))

text \<open>A text of two-byte characters only is drawn alike by both routines.\<close>

lemma lcd_disp_str_ch_eq:
  "list_all (\<lambda>t. \<exists>a b. t = Ch a b \<and> 126 < a) ts \<Longrightarrow>
   lcd_disp_str_ch env x y (concat (map tok_bytes ts) @ 0 # rest) bg fg s =
   lcd_disp_str_en_ch env x y (concat (map tok_bytes ts) @ 0 # rest) bg fg s"
proof (induction ts arbitrary: x y s)
  case (Cons t ts)
  then obtain a b where t: "t = Ch a b" "126 < a" by auto
  then have "a \<noteq> 0" "\<not> a \<le> 126" by (auto simp: not_le)
  with t show ?case using Cons by (auto simp: lcd_disp_str_ch.simps lcd_disp_str_en_ch.simps Let_def split: prod.split intro!: cbind_cong)
qed (simp add: lcd_disp_str_ch.simps lcd_disp_str_en_ch.simps)

lemma lcd_disp_char_ch_total: "\<exists>s'. lcd_disp_char_ch env x y c bg fg s = Inr s'"
  by (simp add: lcd_disp_char_ch_eq)

section \<open>Properties\<close>

text \<open>C22. Mixed text: a zero-terminated string of printable ASCII and of two-byte characters that the font
  file has is drawn as one cell per character, in order, each with the glyph of its character and each
  inside the panel, and nothing else is drawn.\<close>

theorem lcd_disp_str_en_ch_cells:
  assumes "files env file_location = Some font" "list_all (drawable font) ts"
  shows "\<exists>s'. lcd_disp_str_en_ch env x y (concat (map tok_bytes ts) @ 0 # rest) bg fg s = Inr s' \<and>
    emits s (concat (map (tok_wire font bg fg) (place x y ts))) s' \<and>
    map (snd \<circ> snd) (place x y ts) = ts \<and> list_all tok_on_panel (place x y ts)"
proof -
  have "map (snd \<circ> snd) (place x y ts) = ts"
    by (induction ts arbitrary: x y) (auto simp: Let_def split: prod.split)
  moreover obtain x' y' s' where
    "lcd_disp_str_en_ch env x y (concat (map tok_bytes ts) @ 0 # rest) bg fg s =
      lcd_disp_str_en_ch env x' y' (0 # rest) bg fg s'"
    "emits s (concat (map (tok_wire font bg fg) (place x y ts))) s'"
    using lcd_disp_str_en_ch_prefix[OF assms] by blast
  ultimately show ?thesis using place_on_panel by (simp add: lcd_disp_str_en_ch.simps(2))
qed

lemma lcd_disp_str_en_ch_cells_witness:
  "\<exists>s'. lcd_disp_str_en_ch
       \<lparr>panel = plain_env, files = (\<lambda>p. Some (map word_of_nat [0..<64])), junk = (\<lambda>b i. 0)\<rparr>
       232 0 [65, 0xB0, 0xA2, 0] WHITE BLACK lcd_boot = Inr s' \<and>
     emits lcd_boot (concat (map (tok_wire (map word_of_nat [0..<64]) WHITE BLACK)
       [(232, 0, En 65), (0, 16, Ch 0xB0 0xA2)])) s'"
proof -
  define font :: "byte list" where "font = map word_of_nat [0..<64]"
  have len: "length font = 64" unfolding font_def length_map length_upt by simp
  have ts: "list_all (drawable font) [En 65, Ch 0xB0 0xA2]"
    by (simp add: font_offset_def len)
  have "place 232 0 [En 65, Ch 0xB0 0xA2] = [(232, 0, En 65), (0, 16, Ch 0xB0 0xA2)]"
    by (simp add: wrap_def)
  with lcd_disp_str_en_ch_cells[of "\<lparr>panel = plain_env, files = (\<lambda>p. Some font), junk = (\<lambda>b i. 0)\<rparr>",
      OF _ ts, of 232 0 "[]" WHITE BLACK lcd_boot]
  show ?thesis by (simp add: font_def[symmetric] del: place.simps tok_wire.simps)
qed

text \<open>A string cut in the middle of a two-byte character: the lone lead byte takes the terminator as
  its second half, and the loop runs on behind the string.\<close>

theorem lcd_disp_str_en_ch_cut:
  assumes "files env file_location = Some font" "list_all (drawable font) ts" "126 < a"
  shows "lcd_disp_str_en_ch env x y (concat (map tok_bytes ts) @ [a, 0]) bg fg s = Inl Out_Of_Bounds"
proof -
  obtain x' y' s' where "lcd_disp_str_en_ch env x y (concat (map tok_bytes ts) @ [a, 0]) bg fg s =
      lcd_disp_str_en_ch env x' y' [a, 0] bg fg s'"
    using lcd_disp_str_en_ch_prefix[OF assms(1,2)] by blast
  moreover have "a \<noteq> 0" "\<not> a \<le> 126" using assms(3) by (auto simp: not_le)
  ultimately show ?thesis
    by (simp add: lcd_disp_str_en_ch.simps lcd_disp_char_ch_eq Let_def split: prod.split)
qed

lemma lcd_disp_str_en_ch_cut_witness:
  "lcd_disp_str_en_ch \<lparr>panel = plain_env, files = (\<lambda>p. Some []), junk = (\<lambda>b i. 0)\<rparr>
     0 0 [65, 0xB0, 0] WHITE BLACK lcd_boot = Inl Out_Of_Bounds"
  using lcd_disp_str_en_ch_cut[of "\<lparr>panel = plain_env, files = (\<lambda>p. Some []), junk = (\<lambda>b i. 0)\<rparr>" "[]"
      "[En 65]" "0xB0" 0 0 WHITE BLACK lcd_boot] by simp

text \<open>C35. The offset of a two-byte character in the font file: from row 0xB0 on it is the character's
  glyph that is read; for the characters before (punctuation, units such as the degree sign) the offset
  is negative, the seek is refused, and the first glyph of the file is shown instead.\<close>

theorem GetGBKCode_from_sd_glyph:
  assumes "fs file_location = Some font" "length buf = 32" "32 \<le> length font"
    and "nat (font_offset a b) + 32 \<le> length font"
  shows "GetGBKCode_from_sd fs buf (ch_code a b) =
    (0, if 0 \<le> font_offset a b then font_glyph font a b else take 32 font)"
proof (cases "0 \<le> font_offset a b")
  case True
  have "length (font_glyph font a b) = length buf" using assms(2,4) by (simp add: font_glyph_def)
  from overlay_full[OF this] show ?thesis
    using assms True
    by (simp add: GetGBKCode_from_sd_def open_rdonly_def gbk_pos_eq lseek_set_def file_read_full
        font_glyph_def Let_def)
next
  case False
  then show ?thesis using GetGBKCode_symbol[where fs = fs and font = font and buf = buf and a = a and b = b] assms by simp
qed

lemma GetGBKCode_from_sd_glyph_witness:
  "GetGBKCode_from_sd (\<lambda>p. Some (replicate 40 7)) (replicate 32 0) (ch_code 0xA1 0xE3) =
     (0, replicate 32 7)"
proof -
  have "length (replicate n (x :: byte)) = n" for n x by (rule length_replicate)
  then show ?thesis
    using GetGBKCode_from_sd_glyph[of "\<lambda>p. Some (replicate 40 7)" "replicate 40 7" "replicate 32 0"
        "0xA1" "0xE3"]
    by (simp add: font_offset_def)
qed

end
