(* ===== verification/Bmp.thy ===== *)
theory Bmp
  imports Lcd Files
begin

text \<open>
  The picture viewer, \<open>applications/bmp.c\<close>: the header of a BMP file is read into a global, its picture
  data row by row into a heap buffer, and every pixel goes to the display in 5-6-5 colour.
\<close>

section \<open>State\<close>

text \<open>The global \<open>bmp\<close> is written by \<open>read\<close>, so it is modelled by its 70 bytes, and its fields by where
  they are: half words, least significant byte first.\<close>

record BMP_POINT =
  point_x :: u16
  point_y :: u16
  point_r :: byte
  point_g :: byte
  point_b :: byte

record viewer =
  bmp :: "byte list"
  point :: BMP_POINT
  disp :: lcd

definition half_at :: "nat \<Rightarrow> byte list \<Rightarrow> u16" where
  "half_at k bs = word_of_nat (unat (bs ! k) + 256 * unat (bs ! (k + 1)))"

definition pic_data_address_l :: "byte list \<Rightarrow> u16" where "pic_data_address_l bs = half_at 10 bs"
definition pic_data_address_h :: "byte list \<Rightarrow> u16" where "pic_data_address_h bs = half_at 12 bs"
definition pic_w_l :: "byte list \<Rightarrow> u16" where "pic_w_l bs = half_at 18 bs"
definition pic_h_l :: "byte list \<Rightarrow> u16" where "pic_h_l bs = half_at 22 bs"

definition sizeof_BMP_HEAD :: nat where "sizeof_BMP_HEAD = 70"

definition viewer_boot :: "lcd \<Rightarrow> viewer" where
  "viewer_boot s = \<lparr>bmp = replicate 70 0,
     point = \<lparr>point_x = 0, point_y = 0, point_r = 0, point_g = 0, point_b = 0\<rparr>, disp = s\<rparr>"

section \<open>Operations\<close>

definition RGB888ToRGB565 :: "byte \<Rightarrow> byte \<Rightarrow> byte \<Rightarrow> u16" where
  "RGB888ToRGB565 r g b =
     ucast (push_bit 8 (ucast (r AND 0xF8) :: u32) OR push_bit 3 (ucast (g AND 0xFC)) OR
            drop_bit 3 (ucast (b AND 0xF8)))"

definition RGB888ToBGR565 :: "byte \<Rightarrow> byte \<Rightarrow> byte \<Rightarrow> u16" where
  "RGB888ToBGR565 r g b =
     ucast (push_bit 8 (ucast (b AND 0xF8) :: u32) OR push_bit 3 (ucast (g AND 0xFC)) OR
            drop_bit 3 (ucast (r AND 0xF8)))"

definition DrawPixel :: "lcd_env \<Rightarrow> u32 \<Rightarrow> u32 \<Rightarrow> u32 \<Rightarrow> lcd \<Rightarrow> lcd" where
  "DrawPixel env x y Color = lcd_draw_point_color env (ucast x) (ucast y) (ucast Color)"

text \<open>The body of the inner loop, for one pixel.\<close>

definition show_pixel :: "lcd_env \<Rightarrow> byte list \<Rightarrow> nat \<Rightarrow> nat \<Rightarrow> viewer \<Rightarrow> viewer cres" where
  "show_pixel env buffer ty tx v =
     cbind (buf_get (tx * 3 + 2) buffer) (\<lambda>r_data.
     cbind (buf_get (tx * 3 + 1) buffer) (\<lambda>g_data.
     cbind (buf_get (tx * 3 + 0) buffer) (\<lambda>b_data.
     if tx < 240 then
       (let p = \<lparr>point_x = word_of_nat tx, point_y = pic_h_l (bmp v) - 1 - word_of_nat ty,
                 point_r = r_data, point_g = g_data, point_b = b_data\<rparr>;
            color = RGB888ToRGB565 (point_r p) (point_g p) (point_b p)
        in Inr (v\<lparr>point := p, disp := draw_pixel env color (disp v)\<rparr>))
     else Inr v)))"

text \<open>The outer loop; a short \<open>read\<close> leaves the rest of the buffer as it was, and a null buffer is
  passed to \<open>read\<close>.\<close>

definition show_row ::
  "lcd_env \<Rightarrow> nat \<Rightarrow> open_file \<times> byte list option \<times> viewer \<Rightarrow> (open_file \<times> byte list option \<times> viewer) cres"
where
  "show_row env ty st =
     (case st of (fd, buffer, v) \<Rightarrow>
      case buffer of
        None \<Rightarrow> Inl Null_Deref
      | Some buffer \<Rightarrow>
          (let (data, fd) = file_read (unat (pic_w_l (bmp v)) * 3) fd;
               buffer = overlay 0 data buffer
           in cbind (cfor [0..<unat (pic_w_l (bmp v))] (show_pixel env buffer ty) v) (\<lambda>v.
              Inr (fd, Some buffer, v))))"

definition Show_BMP ::
  "lcd_env \<Rightarrow> files \<Rightarrow> u32 \<Rightarrow> u32 \<Rightarrow> byte list \<Rightarrow> viewer \<Rightarrow> viewer cres" where
  "Show_BMP env fs x0 y0 path v =
     (case open_rdonly fs path of
        None \<Rightarrow> Inr v
      | Some fd \<Rightarrow>
          (let (data, fd) = file_read sizeof_BMP_HEAD fd;
               v = v\<lparr>bmp := overlay 0 data (bmp v)\<rparr>
           in if bmp v ! 0 = 66 \<and> bmp v ! 1 = 77 then
                (let fd = snd (lseek_set (sint (push_bit 16 (ucast (pic_data_address_h (bmp v)) :: u32)
                            OR ucast (pic_data_address_l (bmp v)))) fd);
                     w = ucast (pic_w_l (bmp v)); h = ucast (pic_h_l (bmp v));
                     v = v\<lparr>disp := lcd_address_set env (ucast x0) (ucast y0)
                             (ucast (x0 + w - 1)) (ucast (y0 + h - 1)) (disp v)\<rparr>;
                     buffer = lcd_malloc env (unat (pic_w_l (bmp v)) * 3) (disp v)
                 in cbind (cfor [0..<unat (pic_h_l (bmp v))] (show_row env) (fd, buffer, v))
                      (\<lambda>(fd, buffer, v). Inr v))
              else Inr v))"

section \<open>Colours\<close>

text \<open>The colour word, from the high bits of the three channels.\<close>

lemma unat_and_high: "unat (r AND 0xF8) = unat (r :: byte) div 8 * 8" "unat (r AND 0xFC) = unat r div 4 * 4"
proof -
  have "(0xF8 :: byte) = NOT (mask 3)" "(0xFC :: byte) = NOT (mask 2)"
    by (simp_all add: mask_eq_exp_minus_1)
  then show "unat (r AND 0xF8) = unat (r :: byte) div 8 * 8" "unat (r AND 0xFC) = unat r div 4 * 4"
    by (simp_all only: and_not_mask unat_round_down) simp_all
qed

lemma unat_RGB888ToRGB565:
  "unat (RGB888ToRGB565 r g b) = unat r div 8 * 2048 + unat g div 4 * 32 + unat b div 8"
proof -
  have lim: "unat v < 256" for v :: byte using unsigned_less[of v] by simp
  have u: "unat (ucast v :: u32) = unat v" for v :: byte
    using lim[of v] by (simp add: unsigned_ucast_eq take_bit_eq_mod)
  define R G B where "R = unat r div 8" and "G = unat g div 4" and "B = unat b div 8"
  have RGB: "R < 32" "G < 64" "B < 32" using lim[of r] lim[of g] lim[of b] by (simp_all add: R_def G_def B_def)
  have "unat (push_bit 8 (ucast (r AND 0xF8) :: u32)) = R * 2048"
    unfolding unsigned_push_bit_eq u unat_and_high unfolding take_bit_eq_mod push_bit_eq_mult R_def[symmetric]
    using RGB by simp
  moreover have "unat (push_bit 3 (ucast (g AND 0xFC) :: u32)) = G * 32"
    unfolding unsigned_push_bit_eq u unat_and_high unfolding take_bit_eq_mod push_bit_eq_mult G_def[symmetric]
    using RGB by simp
  moreover have "unat (drop_bit 3 (ucast (b AND 0xF8) :: u32)) = B"
    unfolding unsigned_drop_bit_eq u unat_and_high unfolding take_bit_eq_mod drop_bit_eq_div B_def[symmetric]
    using RGB by simp
  moreover have "(R * 2048 OR G * 32) OR B = R * 2048 + G * 32 + B"
    using RGB or_field[of "G * 32" 11 R] or_field[of B 5 "R * 64 + G"] by (simp add: algebra_simps)
  ultimately have "unat (push_bit 8 (ucast (r AND 0xF8) :: u32) OR push_bit 3 (ucast (g AND 0xFC)) OR
      drop_bit 3 (ucast (b AND 0xF8))) = R * 2048 + G * 32 + B"
    by (simp only: unsigned_or_eq or.assoc)
  then show ?thesis
    using RGB by (simp add: RGB888ToRGB565_def unsigned_ucast_eq take_bit_eq_mod R_def G_def B_def)
qed

section \<open>Pictures\<close>

text \<open>The colour of pixel \<open>tx\<close> of row \<open>ty\<close> of picture data that starts at \<open>off\<close>, with \<open>w\<close> pixels per
  row and no padding between rows.\<close>

definition bmp_color :: "byte list \<Rightarrow> nat \<Rightarrow> nat \<Rightarrow> nat \<Rightarrow> nat \<Rightarrow> u16" where
  "bmp_color bs off w ty tx =
     (let k = off + 3 * (ty * w + tx) in RGB888ToRGB565 (bs ! (k + 2)) (bs ! (k + 1)) (bs ! k))"

definition bmp_row :: "byte list \<Rightarrow> nat \<Rightarrow> nat \<Rightarrow> nat \<Rightarrow> u16 list" where
  "bmp_row bs off w ty = map (bmp_color bs off w ty) [0..<w]"

lemma show_pixels_eq:
  assumes "w \<le> 240" "n \<le> w" "3 * w \<le> length buffer" "\<And>i. i < 3 * w \<Longrightarrow> buffer ! i = bs ! (off + 3 * (ty * w) + i)"
  shows "\<exists>p. cfor [0..<n] (show_pixel env buffer ty) v =
    Inr (v\<lparr>point := p, disp := fold (draw_pixel env) (map (bmp_color bs off w ty) [0..<n]) (disp v)\<rparr>)"
  using assms(2)
proof (induction n)
  case 0
  have "v = v\<lparr>point := point v, disp := disp v\<rparr>" by simp
  then show ?case by (metis cfor.simps(1) fold_simps(1) list.map(1) upt_0)
next
  case (Suc n)
  then obtain p where p: "cfor [0..<n] (show_pixel env buffer ty) v =
    Inr (v\<lparr>point := p, disp := fold (draw_pixel env) (map (bmp_color bs off w ty) [0..<n]) (disp v)\<rparr>)"
    by auto
  have n: "n * 3 + 2 < 3 * w" "n * 3 + 1 < 3 * w" "n * 3 < 3 * w" "n < 240" using Suc.prems assms(1) by simp_all
  have c: "RGB888ToRGB565 (buffer ! (n * 3 + 2)) (buffer ! (n * 3 + 1)) (buffer ! (n * 3)) =
      bmp_color bs off w ty n"
    unfolding assms(4)[OF n(1)] assms(4)[OF n(2)] assms(4)[OF n(3)] bmp_color_def Let_def
    by (simp add: algebra_simps)
  have "show_pixel env buffer ty n (v\<lparr>point := q, disp := d\<rparr>) =
      Inr (v\<lparr>point := \<lparr>point_x = word_of_nat n, point_y = pic_h_l (bmp v) - 1 - word_of_nat ty,
        point_r = buffer ! (n * 3 + 2), point_g = buffer ! (n * 3 + 1), point_b = buffer ! (n * 3)\<rparr>,
        disp := draw_pixel env (bmp_color bs off w ty n) d\<rparr>)" for q d
    using n assms(3) by (simp add: show_pixel_def Let_def c[simplified])
  then show ?case by (simp add: cfor_append p) (rule exI, rule refl)
qed

text \<open>The picture data of \<open>h\<close> rows of \<open>w\<close> pixels, all of it in the file.\<close>

lemma show_rows_eq:
  fixes env :: lcd_env
  assumes "pic_w_l (bmp v) = w" "unat w \<le> 240" "length buffer = unat w * 3"
    and "off + 3 * (unat w * h) \<le> length bs" "n \<le> h"
  shows "\<exists>p buffer'. length buffer' = unat w * 3 \<and>
    cfor [0..<n] (show_row env) (\<lparr>contents = bs, pos = off\<rparr>, Some buffer, v) =
    Inr (\<lparr>contents = bs, pos = off + 3 * (n * unat w)\<rparr>, Some buffer',
      v\<lparr>point := p, disp := fold (draw_pixel env) (concat (map (bmp_row bs off (unat w)) [0..<n])) (disp v)\<rparr>)"
  using assms(5)
proof (induction n)
  case 0
  have "v = v\<lparr>point := point v\<rparr>" by simp
  then have "\<exists>p. v = v\<lparr>point := p\<rparr>" by (rule exI)
  then show ?case using assms(3) by simp
next
  case (Suc n)
  define N where "N = unat w"
  from Suc obtain p buffer' where p: "length buffer' = N * 3"
    "cfor [0..<n] (show_row env) (\<lparr>contents = bs, pos = off\<rparr>, Some buffer, v) =
    Inr (\<lparr>contents = bs, pos = off + 3 * (n * N)\<rparr>, Some buffer',
      v\<lparr>point := p, disp := fold (draw_pixel env) (concat (map (bmp_row bs off N) [0..<n])) (disp v)\<rparr>)"
    unfolding N_def by auto
  define v1 where "v1 = v\<lparr>point := p, disp := fold (draw_pixel env) (concat (map (bmp_row bs off N) [0..<n])) (disp v)\<rparr>"
  define data where "data = take (N * 3) (drop (off + 3 * (n * N)) bs)"
  have "(n + 1) * N \<le> h * N" using Suc.prems by (intro mult_le_mono) simp_all
  then have fits: "off + 3 * (n * N) + N * 3 \<le> length bs"
    using assms(4) by (simp add: N_def algebra_simps)
  then have dl: "length data = N * 3" by (simp add: data_def)
  have rd: "file_read (N * 3) \<lparr>contents = bs, pos = off + 3 * (n * N)\<rparr> =
      (data, \<lparr>contents = bs, pos = off + 3 * (n * N) + N * 3\<rparr>)"
    using fits by (simp add: file_read_full data_def)
  have d: "data ! i = bs ! (off + 3 * (n * N) + i)" if "i < 3 * N" for i
    using that fits by (simp add: data_def)
  obtain q where q: "cfor [0..<N] (show_pixel env data n) v1 =
    Inr (v1\<lparr>point := q, disp := fold (draw_pixel env) (map (bmp_color bs off N n) [0..<N]) (disp v1)\<rparr>)"
    using show_pixels_eq[OF _ order_refl _ d, where env = env and v = v1] assms(2) dl
    by (auto simp: N_def[symmetric])
  have ov: "overlay 0 data buffer' = data" using dl p(1) by (simp add: overlay_full)
  have "show_row env n (\<lparr>contents = bs, pos = off + 3 * (n * N)\<rparr>, Some buffer', v1) =
    Inr (\<lparr>contents = bs, pos = off + 3 * (n * N) + N * 3\<rparr>, Some data,
      v1\<lparr>point := q, disp := fold (draw_pixel env) (map (bmp_color bs off N n) [0..<N]) (disp v1)\<rparr>)"
    using assms(1) by (simp add: show_row_def v1_def[symmetric] N_def[symmetric] rd ov q Let_def)
      (simp add: v1_def N_def[symmetric] rd ov q[unfolded v1_def] Let_def)
  then have "cfor [0..<Suc n] (show_row env) (\<lparr>contents = bs, pos = off\<rparr>, Some buffer, v) =
    Inr (\<lparr>contents = bs, pos = off + 3 * (Suc n * N)\<rparr>, Some data,
      v\<lparr>point := q, disp := fold (draw_pixel env) (concat (map (bmp_row bs off N) [0..<Suc n])) (disp v)\<rparr>)"
    by (simp add: cfor_append p(2) v1_def bmp_row_def algebra_simps)
  then show ?case using dl unfolding N_def by blast
qed

section \<open>Properties\<close>

text \<open>\<open>RGB888ToRGB565\<close> keeps the 5, 6 and 5 high bits of red, green and blue, and each can be read
  back from its field.\<close>

theorem RGB888ToRGB565_fields:
  "unat (RGB888ToRGB565 r g b) = unat r div 8 * 2048 + unat g div 4 * 32 + unat b div 8 \<and>
   unat (RGB888ToRGB565 r g b) div 2048 = unat r div 8 \<and>
   unat (RGB888ToRGB565 r g b) div 32 mod 64 = unat g div 4 \<and>
   unat (RGB888ToRGB565 r g b) mod 32 = unat b div 8"
proof -
  have "unat g div 4 < 64" "unat b div 8 < 32"
    using unsigned_less[of g, where 'a = nat] unsigned_less[of b, where 'a = nat] by simp_all
  moreover have "(R * 2048 + G * 32 + B) div 2048 = R \<and> (R * 2048 + G * 32 + B) div 32 mod 64 = G \<and>
      (R * 2048 + G * 32 + B) mod 32 = B" if "G < 64" "B < 32" for R G B :: nat
  proof -
    have "R * 2048 + G * 32 + B = (G * 32 + B) + R * 2048" "R * 2048 + G * 32 + B = B + (R * 64 + G) * 32"
      by simp_all
    then have "(R * 2048 + G * 32 + B) div 2048 = R + (G * 32 + B) div 2048"
      "(R * 2048 + G * 32 + B) div 32 = (R * 64 + G) + B div 32" "(R * 2048 + G * 32 + B) mod 32 = B mod 32"
      by (metis div_mult_self1 zero_neq_numeral, metis div_mult_self1 zero_neq_numeral, metis mod_mult_self1)
    with that show ?thesis by simp
  qed
  ultimately show ?thesis unfolding unat_RGB888ToRGB565 by blast
qed

text \<open>The picture the file holds: the header is complete, the picture data are inside the file, and the
  picture is at most as wide as the panel.\<close>

definition picture :: "byte list \<Rightarrow> nat \<Rightarrow> nat \<Rightarrow> nat \<Rightarrow> bool" where
  "picture bs off w h \<longleftrightarrow> 70 \<le> length bs \<and> bs ! 0 = 66 \<and> bs ! 1 = 77 \<and>
     off = unat (pic_data_address_l bs) \<and> pic_data_address_h bs = 0 \<and>
     w = unat (pic_w_l bs) \<and> h = unat (pic_h_l bs) \<and> w \<le> 240 \<and> off + 3 * (w * h) \<le> length bs"

lemma Show_BMP_emits:
  assumes "fs path = Some bs" "picture bs off w h" "length (bmp v) = 70"
    and "\<And>b n. heap env b n \<noteq> None"
  shows "\<exists>v'. Show_BMP env fs x0 y0 path v = Inr v' \<and>
    emits (disp v) (window (ucast x0) (ucast y0) (ucast (x0 + word_of_nat w - 1)) (ucast (y0 + word_of_nat h - 1)) @
      pixels (concat (map (bmp_row bs off w) [0..<h]))) (disp v') \<and> length (bmp v') = 70"
proof -
  have bs: "70 \<le> length bs" "bs ! 0 = 66" "bs ! 1 = 77" "w \<le> 240" "off + 3 * (w * h) \<le> length bs"
    using assms(2)[unfolded picture_def] by blast+
  have half: "half_at k (take 70 bs) = half_at k bs" if "k < 69" for k
    using that by (simp add: half_at_def)
  have at: "pic_data_address_l (take 70 bs) = pic_data_address_l bs" "pic_w_l (take 70 bs) = pic_w_l bs"
      "pic_h_l (take 70 bs) = pic_h_l bs" "pic_data_address_h (take 70 bs) = 0"
      and wh: "unat (pic_w_l bs) = w" "unat (pic_h_l bs) = h" "unat (pic_data_address_l bs) = off"
    using assms(2) half
    by (simp_all add: pic_data_address_l_def pic_data_address_h_def pic_w_l_def pic_h_l_def picture_def)
  have u32: "(ucast (pic_w_l bs) :: u32) = word_of_nat w" "(ucast (pic_h_l bs) :: u32) = word_of_nat h"
    using wh by (simp_all flip: wh)
  have "uint (pic_data_address_l bs) = int off" "off < 65536"
    using unsigned_less[of "pic_data_address_l bs", where 'a = nat] wh(3) by (metis uint_nat, simp)
  then have "uint (ucast (pic_data_address_l bs) :: u32) = int off" "off < 65536"
    by (simp_all add: unsigned_ucast_eq take_bit_int_eq_self)
  then have seek: "sint (push_bit 16 (ucast (pic_data_address_h (take 70 bs)) :: u32) OR
      ucast (pic_data_address_l (take 70 bs))) = int off"
    by (simp add: at sint_u32)
  define v1 where "v1 = v\<lparr>bmp := take 70 bs\<rparr>"
  have ov: "overlay 0 (take 70 bs) (bmp v) = take 70 bs" using bs(1) assms(3) by (simp add: overlay_full)
  have rd: "file_read sizeof_BMP_HEAD \<lparr>contents = bs, pos = 0\<rparr> = (take 70 bs, \<lparr>contents = bs, pos = 70\<rparr>)"
    using bs(1) by (simp add: file_read_full sizeof_BMP_HEAD_def)
  define v2 where "v2 = v1\<lparr>disp := lcd_address_set env (ucast x0) (ucast y0)
    (ucast (x0 + word_of_nat w - 1)) (ucast (y0 + word_of_nat h - 1)) (disp v1)\<rparr>"
  have e: "emits (disp v) (window (ucast x0) (ucast y0) (ucast (x0 + word_of_nat w - 1))
      (ucast (y0 + word_of_nat h - 1))) (disp v2)"
    by (simp add: v2_def v1_def emits_address_set)
  obtain buffer where b: "lcd_malloc env (w * 3) (disp v2) = Some buffer" "length buffer = w * 3"
    using assms(4)[of "bus (disp v2)" "w * 3"] by (auto simp: lcd_malloc_def)
  have w2: "pic_w_l (bmp v2) = pic_w_l bs" by (simp add: v2_def v1_def at)
  obtain p buffer' where rows: "cfor [0..<h] (show_row env) (\<lparr>contents = bs, pos = off\<rparr>, Some buffer, v2) =
    Inr (\<lparr>contents = bs, pos = off + 3 * (h * w)\<rparr>, Some buffer',
      v2\<lparr>point := p, disp := fold (draw_pixel env) (concat (map (bmp_row bs off w) [0..<h])) (disp v2)\<rparr>)"
    using show_rows_eq[OF w2, of buffer off h bs h env] b(2) bs(4,5) unfolding wh by auto
  have "Show_BMP env fs x0 y0 path v =
      Inr (v2\<lparr>point := p, disp := fold (draw_pixel env) (concat (map (bmp_row bs off w) [0..<h])) (disp v2)\<rparr>)"
    unfolding Show_BMP_def open_rdonly_def assms(1) option.map option.case rd Let_def prod.case ov
      v1_def[symmetric]
    using bs(1-3) rows b(1)
    by (simp add: v1_def at u32 wh seek[unfolded at, simplified] lseek_set_def v2_def)
  then show ?thesis
    using st7789.puts_after[OF e, of "concat (map (bmp_row bs off w) [0..<h])" env] bs(1) by (simp add: pixels_def v2_def v1_def)
qed

text \<open>C36. A picture that is all there is drawn row by row in the order of the file, the rows packed without
  padding, each pixel the 5-6-5 colour of its three bytes (blue, green, red).\<close>

theorem Show_BMP_draws:
  assumes "fs path = Some bs" "picture bs off w h" "length (bmp v) = 70"
    and "\<And>b n. heap env b n \<noteq> None"
  shows "\<exists>v'. Show_BMP env fs x0 y0 path v = Inr v' \<and>
    emits (disp v) (window (ucast x0) (ucast y0) (ucast (x0 + word_of_nat w - 1)) (ucast (y0 + word_of_nat h - 1)) @
      pixels (concat (map (bmp_row bs off w) [0..<h]))) (disp v')"
  using Show_BMP_emits[where fs = fs and env = env, OF assms] by blast

lemma Show_BMP_draws_witness:
  "\<exists>v'. Show_BMP plain_env (\<lambda>p. Some (66 # 77 # replicate 8 0 @ [54, 0] @ replicate 6 0 @ [2, 0, 0, 0, 1, 0] @
        replicate 52 9)) 3 4 [] (viewer_boot lcd_boot) = Inr v' \<and>
    emits lcd_boot (window 3 4 4 4 @ pixels [RGB888ToRGB565 9 9 9, RGB888ToRGB565 9 9 9]) (disp v')"
proof -
  define bs :: "byte list" where "bs = 66 # 77 # replicate 8 0 @ [54, 0] @ replicate 6 0 @
    [2, 0, 0, 0, 1, 0] @ replicate 52 9"
  have len: "length bs = 76" by (simp add: bs_def)
  have "picture bs 54 2 1"
    by (simp add: picture_def len) (simp add: bs_def pic_data_address_l_def pic_data_address_h_def
        pic_w_l_def pic_h_l_def half_at_def nth_append)
  moreover have "concat (map (bmp_row bs 54 2) [0..<1]) = [RGB888ToRGB565 9 9 9, RGB888ToRGB565 9 9 9]"
    by (simp add: bmp_row_def bmp_color_def bs_def upt_conv_Cons nth_append)
  moreover have "length (bmp (viewer_boot lcd_boot)) = 70"
    unfolding viewer_boot_def by (simp only: viewer.simps length_replicate)
  ultimately show ?thesis
    unfolding bs_def[symmetric]
    using Show_BMP_draws[of "\<lambda>p. Some bs" "[]" bs 54 2 1 "viewer_boot lcd_boot" plain_env 3 4]
    by (simp add: viewer_boot_def plain_env_def)
qed

text \<open>What is not a picture draws nothing: a file that cannot be opened, or one without the letters
  BM at its start.\<close>

theorem Show_BMP_ignores:
  assumes "fs path = None \<or> (\<exists>bs. fs path = Some bs \<and> 2 \<le> length bs \<and> (bs ! 0 \<noteq> 66 \<or> bs ! 1 \<noteq> 77))"
    and "length (bmp v) = 70"
  shows "\<exists>v'. Show_BMP env fs x0 y0 path v = Inr v' \<and> disp v' = disp v"
proof (cases "fs path")
  case None
  then show ?thesis by (simp add: Show_BMP_def open_rdonly_def)
next
  case (Some bs)
  with assms(1) have bs: "2 \<le> length bs" "bs ! 0 \<noteq> 66 \<or> bs ! 1 \<noteq> 77" by auto
  have "overlay 0 (take 70 bs) (bmp v) ! 0 = bs ! 0" "overlay 0 (take 70 bs) (bmp v) ! 1 = bs ! 1"
    using bs(1) assms(2) by (auto simp: overlay_nth)
  then show ?thesis
    using bs(2) Some
    by (auto simp: Show_BMP_def open_rdonly_def file_read_def sizeof_BMP_HEAD_def Let_def)
qed

lemma Show_BMP_ignores_witness:
  "\<exists>v'. Show_BMP plain_env (\<lambda>p. Some [66, 66]) 3 4 [] (viewer_boot lcd_boot) = Inr v' \<and> disp v' = lcd_boot"
proof -
  have "length (bmp (viewer_boot lcd_boot)) = 70"
    unfolding viewer_boot_def by (simp only: viewer.simps length_replicate)
  with Show_BMP_ignores[of "\<lambda>p. Some [66, 66]" "[]" "viewer_boot lcd_boot" plain_env 3 4]
  show ?thesis by (simp add: viewer_boot_def)
qed

end
