(* ===== verification/Runs.thy ===== *)
theory Runs
  imports Prelude
begin

text \<open>
  Functions on a state of the program that return a value or fault, put in sequence, and their weakest preconditions.
\<close>

section \<open>Sequencing\<close>

type_synonym ('a, 'st) crun = "'st \<Rightarrow> ('a \<times> 'st) cres"

definition eret :: "'a \<Rightarrow> ('a, 'st) crun" where "eret x st = Inr (x, st)"
definition ebind :: "('a, 'st) crun \<Rightarrow> ('a \<Rightarrow> ('b, 'st) crun) \<Rightarrow> ('b, 'st) crun" where
  "ebind m f st = cbind (m st) (\<lambda>(x, st). f x st)"
definition eget :: "('st \<Rightarrow> 'a) \<Rightarrow> ('a, 'st) crun" where "eget f st = Inr (f st, st)"
definition emod :: "('st \<Rightarrow> 'st) \<Rightarrow> (unit, 'st) crun" where "emod f st = Inr ((), f st)"
definition elift :: "'a cres \<Rightarrow> ('a, 'st) crun" where "elift r st = cbind r (\<lambda>x. Inr (x, st))"
definition eassert :: "bool \<Rightarrow> (unit, 'st) crun" where "eassert b = elift (if b then Inr () else Inl Assert_Failed)"

section \<open>Preconditions\<close>

text \<open>A run ends in a state with \<open>P\<close>, or with a fault that \<open>F\<close> allows.\<close>

definition wp :: "(c_fault \<Rightarrow> bool) \<Rightarrow> ('a, 'st) crun \<Rightarrow> ('a \<Rightarrow> 'st \<Rightarrow> bool) \<Rightarrow> 'st \<Rightarrow> bool" where
  "wp F m P st = (case m st of Inl e \<Rightarrow> F e | Inr (x, st) \<Rightarrow> P x st)"

named_theorems wp_simps \<open>preconditions of the primitives\<close>

lemma wp_eret [wp_simps]: "wp F (eret x) P st = P x st"
  by (simp add: wp_def eret_def)

lemma wp_eret_fun: "wp F (eret x) P = P x"
  by (rule ext) (rule wp_eret)

lemma wp_ebind [wp_simps]: "wp F (ebind m f) P st = wp F m (\<lambda>x. wp F (f x) P) st"
  by (simp add: wp_def ebind_def cbind_def split: sum.split prod.split)

lemma wp_ebind_fun: "wp F (ebind m f) P = wp F m (\<lambda>x. wp F (f x) P)"
  by (rule ext) (rule wp_ebind)

lemma wp_eget [wp_simps]: "wp F (eget f) P st = P (f st) st"
  by (simp add: wp_def eget_def)

lemma wp_emod [wp_simps]: "wp F (emod f) P st = P () (f st)"
  by (simp add: wp_def emod_def)

lemma wp_elift_Inr [wp_simps]: "wp F (elift (Inr x)) P st = P x st"
  by (simp add: wp_def elift_def)

lemma wp_elift_Inl [wp_simps]: "wp F (elift (Inl e)) P st = F e"
  by (simp add: wp_def elift_def)

lemma wp_eassert [wp_simps]: "wp F (eassert b) P st = (if b then P () st else F Assert_Failed)"
  by (simp add: wp_def elift_def eassert_def)

lemma wp_if [wp_simps]: "wp F (if b then m else n) P st = (if b then wp F m P st else wp F n P st)"
  by simp

lemma wp_mono: "wp F m P st \<Longrightarrow> (\<And>x st. P x st \<Longrightarrow> Q x st) \<Longrightarrow> wp F m Q st"
  by (auto simp: wp_def split: sum.splits)

lemma wp_total: "wp (\<lambda>_. False) m P st \<longleftrightarrow> (\<exists>x st'. m st = Inr (x, st') \<and> P x st')"
  by (auto simp: wp_def split: sum.splits)

end
