(* ===== verification/Easyflash.thy ===== *)
theory Easyflash
  imports Runs
begin

text \<open>
  The environment store, \<open>packages/EasyFlash-v4.1.0/src/ef_env.c\<close> and \<open>ef_utils.c\<close>, in the configuration of the project:
  write granularity of one bit (a NOR flash), two sectors of 4096 bytes, both caches on. Addresses and sizes are
  natural numbers below \<open>2 ^ 32\<close>, with the wrap-around written out. The port is a parameter: the functions
  \<open>ef_port_read\<close>, \<open>ef_port_write\<close>, \<open>ef_port_erase\<close> on some store. The lock, the log output and the legacy API for
  strings are left out.
\<close>

section \<open>Constants and types\<close>

definition SECTOR_MAGIC_WORD :: u32 where "SECTOR_MAGIC_WORD = 0x30344645"
definition ENV_MAGIC_WORD :: u32 where "ENV_MAGIC_WORD = 0x3034564B"
definition SECTOR_SIZE :: nat where "SECTOR_SIZE = 4096"
definition ENV_AREA_SIZE :: nat where "ENV_AREA_SIZE = 8192"
definition SECTOR_NUM :: nat where "SECTOR_NUM = 2"
definition SECTOR_HDR_DATA_SIZE :: nat where "SECTOR_HDR_DATA_SIZE = 16"
definition SECTOR_DIRTY_OFFSET :: nat where "SECTOR_DIRTY_OFFSET = 1"
definition ENV_HDR_DATA_SIZE :: nat where "ENV_HDR_DATA_SIZE = 24"
definition ENV_MAGIC_OFFSET :: nat where "ENV_MAGIC_OFFSET = 4"
definition ENV_NAME_LEN_OFFSET :: nat where "ENV_NAME_LEN_OFFSET = 16"
definition EF_ENV_NAME_MAX :: nat where "EF_ENV_NAME_MAX = 32"
definition EF_SEC_REMAIN_THRESHOLD :: nat where "EF_SEC_REMAIN_THRESHOLD = ENV_HDR_DATA_SIZE + EF_ENV_NAME_MAX"
definition EF_GC_EMPTY_SEC_THRESHOLD :: nat where "EF_GC_EMPTY_SEC_THRESHOLD = 1"
definition EF_ENV_CACHE_TABLE_SIZE :: nat where "EF_ENV_CACHE_TABLE_SIZE = 16"
definition EF_SECTOR_CACHE_TABLE_SIZE :: nat where "EF_SECTOR_CACHE_TABLE_SIZE = 4"
definition SECTOR_NOT_COMBINED :: nat where "SECTOR_NOT_COMBINED = 0xFFFFFFFF"
definition FAILED_ADDR :: nat where "FAILED_ADDR = 0xFFFFFFFF"
definition EF_START_ADDR :: nat where "EF_START_ADDR = 0"

text \<open>The enumerations are numbers, as the status tables give them.\<close>

definition SECTOR_STORE_UNUSED :: nat where "SECTOR_STORE_UNUSED = 0"
definition SECTOR_STORE_EMPTY :: nat where "SECTOR_STORE_EMPTY = 1"
definition SECTOR_STORE_USING :: nat where "SECTOR_STORE_USING = 2"
definition SECTOR_STORE_FULL :: nat where "SECTOR_STORE_FULL = 3"
definition SECTOR_STORE_STATUS_NUM :: nat where "SECTOR_STORE_STATUS_NUM = 4"
definition SECTOR_DIRTY_FALSE :: nat where "SECTOR_DIRTY_FALSE = 1"
definition SECTOR_DIRTY_TRUE :: nat where "SECTOR_DIRTY_TRUE = 2"
definition SECTOR_DIRTY_GC :: nat where "SECTOR_DIRTY_GC = 3"
definition SECTOR_DIRTY_STATUS_NUM :: nat where "SECTOR_DIRTY_STATUS_NUM = 4"
definition ENV_PRE_WRITE :: nat where "ENV_PRE_WRITE = 1"
definition ENV_WRITE :: nat where "ENV_WRITE = 2"
definition ENV_PRE_DELETE :: nat where "ENV_PRE_DELETE = 3"
definition ENV_DELETED :: nat where "ENV_DELETED = 4"
definition ENV_ERR_HDR :: nat where "ENV_ERR_HDR = 5"
definition ENV_STATUS_NUM :: nat where "ENV_STATUS_NUM = 6"

datatype EfErrCode =
    EF_NO_ERR | EF_ERASE_ERR | EF_READ_ERR | EF_WRITE_ERR | EF_ENV_NAME_ERR | EF_ENV_NAME_EXIST | EF_ENV_FULL
  | EF_ENV_INIT_FAILED

record sector_meta_data =
  check_ok :: bool
  store_status :: nat
  dirty_status :: nat
  sec_addr :: nat
  sec_magic :: u32
  combined :: nat
  remain :: nat
  empty_env :: nat

record env_node_obj =
  env_status :: nat
  crc_is_ok :: bool
  name_len :: nat
  env_len :: nat
  value_len :: nat
  env_name :: "byte list"
  start_addr :: nat
  value_addr :: nat

record env_cache_node =
  name_crc :: u16
  active :: u16
  cached_addr :: nat

record sector_cache_node =
  cached_sec :: nat
  empty_addr :: nat

text \<open>The state: what is behind the port, the two caches, the flags, and the static locals of \<open>del_env\<close> and of
  \<open>set_env\<close>.\<close>

record 's ef =
  flash_store :: 's
  env_cache_table :: "env_cache_node list"
  sector_cache_table :: "sector_cache_node list"
  gc_request :: bool
  in_recovery_check :: bool
  init_ok :: bool
  last_is_complete_del :: bool
  set_env_node :: env_node_obj
  set_env_sector :: sector_meta_data

text \<open>The port (a read fills a buffer of its size, or leaves it), the default variables, and what local variables
  hold before they are written.\<close>

record 's ef_world =
  port_read :: "nat \<Rightarrow> byte list \<Rightarrow> 's \<Rightarrow> byte list cres"
  port_write :: "nat \<Rightarrow> byte list \<Rightarrow> 's \<Rightarrow> (EfErrCode \<times> 's) cres"
  port_erase :: "nat \<Rightarrow> nat \<Rightarrow> 's \<Rightarrow> (EfErrCode \<times> 's) cres"
  default_env_set :: "(byte list \<times> byte list \<times> nat) list"
  raw :: "nat \<Rightarrow> byte"
  raw_node :: env_node_obj
  raw_sector :: sector_meta_data

section \<open>The port on the state\<close>

type_synonym ('a, 's) run = "('a, 's ef) crun"

text \<open>An uninitialised array of \<open>n\<close> bytes, and the port on the state.\<close>

definition raw_array :: "'s ef_world \<Rightarrow> nat \<Rightarrow> byte list" where "raw_array W n = map (raw W) [0..<n]"

definition rd :: "'s ef_world \<Rightarrow> nat \<Rightarrow> byte list \<Rightarrow> (byte list, 's) run" where
  "rd W addr buf st = cbind (port_read W addr buf (flash_store st)) (\<lambda>bs. Inr (bs, st))"

definition wr :: "'s ef_world \<Rightarrow> nat \<Rightarrow> byte list \<Rightarrow> (EfErrCode, 's) run" where
  "wr W addr bs st = cbind (port_write W addr bs (flash_store st)) (\<lambda>(e, s). Inr (e, st\<lparr>flash_store := s\<rparr>))"

definition er :: "'s ef_world \<Rightarrow> nat \<Rightarrow> nat \<Rightarrow> (EfErrCode, 's) run" where
  "er W addr n st = cbind (port_erase W addr n (flash_store st)) (\<lambda>(e, s). Inr (e, st\<lparr>flash_store := s\<rparr>))"

text \<open>Arithmetic of \<open>uint32_t\<close> and \<open>size_t\<close>.\<close>

definition wadd :: "nat \<Rightarrow> nat \<Rightarrow> nat" where "wadd a b = (a + b) mod 2 ^ 32"
definition wsub :: "nat \<Rightarrow> nat \<Rightarrow> nat" where "wsub a b = (a + 2 ^ 32 - b mod 2 ^ 32) mod 2 ^ 32"

text \<open>A little-endian word of a structure.\<close>

definition le_word :: "nat \<Rightarrow> byte list \<Rightarrow> u32" where
  "le_word k bs = ucast (bs ! k) + push_bit 8 (ucast (bs ! (k + 1))) + push_bit 16 (ucast (bs ! (k + 2))) +
     push_bit 24 (ucast (bs ! (k + 3)))"

definition le_bytes :: "u32 \<Rightarrow> byte list" where
  "le_bytes w = [ucast w, ucast (drop_bit 8 w), ucast (drop_bit 16 w), ucast (drop_bit 24 w)]"

section \<open>Status tables\<close>

text \<open>A table of \<open>n\<close> states has a bit for each state but the first; a state clears its bit.\<close>

definition set_status :: "nat \<Rightarrow> nat \<Rightarrow> nat option \<times> byte list" where
  "set_status status_num status_index =
     (let status_table = replicate ((status_num + 7) div 8) 0xFF
      in if status_index > 0 then
           (let byte_index = (status_index - 1) div 8
            in (Some byte_index, status_table[byte_index :=
                 status_table ! byte_index AND NOT (drop_bit ((status_index - 1) mod 8) 0x80)]))
         else (None, status_table))"

text \<open>The loop counts down from the last state.\<close>

primrec scan_status :: "byte list \<Rightarrow> nat \<Rightarrow> nat" where
  "scan_status status_table 0 = 0"
| "scan_status status_table (Suc n) =
     (if status_table ! (n div 8) AND drop_bit (n mod 8) 0x80 = 0 then Suc n else scan_status status_table n)"

definition get_status :: "byte list \<Rightarrow> nat \<Rightarrow> nat" where
  "get_status status_table status_num = scan_status status_table (status_num - 1)"

definition write_status :: "'s ef_world \<Rightarrow> nat \<Rightarrow> nat \<Rightarrow> nat \<Rightarrow> (EfErrCode, 's) run" where
  "write_status W addr status_num status_index =
     ebind (eassert (status_index < status_num)) (\<lambda>_.
     case set_status status_num status_index of
       (None, status_table) \<Rightarrow> eret EF_NO_ERR
     | (Some byte_index, status_table) \<Rightarrow> wr W (wadd addr byte_index) [status_table ! byte_index])"

definition read_status :: "'s ef_world \<Rightarrow> nat \<Rightarrow> nat \<Rightarrow> (nat, 's) run" where
  "read_status W addr total_num =
     ebind (rd W addr (raw_array W ((total_num + 7) div 8))) (\<lambda>status_table. eret (get_status status_table total_num))"

section \<open>The checksum\<close>

definition crc32_table :: "u32 list" where
  "crc32_table =
    [0x00000000, 0x77073096, 0xee0e612c, 0x990951ba, 0x076dc419, 0x706af48f, 0xe963a535, 0x9e6495a3,
     0x0edb8832, 0x79dcb8a4, 0xe0d5e91e, 0x97d2d988, 0x09b64c2b, 0x7eb17cbd, 0xe7b82d07, 0x90bf1d91,
     0x1db71064, 0x6ab020f2, 0xf3b97148, 0x84be41de, 0x1adad47d, 0x6ddde4eb, 0xf4d4b551, 0x83d385c7,
     0x136c9856, 0x646ba8c0, 0xfd62f97a, 0x8a65c9ec, 0x14015c4f, 0x63066cd9, 0xfa0f3d63, 0x8d080df5,
     0x3b6e20c8, 0x4c69105e, 0xd56041e4, 0xa2677172, 0x3c03e4d1, 0x4b04d447, 0xd20d85fd, 0xa50ab56b,
     0x35b5a8fa, 0x42b2986c, 0xdbbbc9d6, 0xacbcf940, 0x32d86ce3, 0x45df5c75, 0xdcd60dcf, 0xabd13d59,
     0x26d930ac, 0x51de003a, 0xc8d75180, 0xbfd06116, 0x21b4f4b5, 0x56b3c423, 0xcfba9599, 0xb8bda50f,
     0x2802b89e, 0x5f058808, 0xc60cd9b2, 0xb10be924, 0x2f6f7c87, 0x58684c11, 0xc1611dab, 0xb6662d3d,
     0x76dc4190, 0x01db7106, 0x98d220bc, 0xefd5102a, 0x71b18589, 0x06b6b51f, 0x9fbfe4a5, 0xe8b8d433,
     0x7807c9a2, 0x0f00f934, 0x9609a88e, 0xe10e9818, 0x7f6a0dbb, 0x086d3d2d, 0x91646c97, 0xe6635c01,
     0x6b6b51f4, 0x1c6c6162, 0x856530d8, 0xf262004e, 0x6c0695ed, 0x1b01a57b, 0x8208f4c1, 0xf50fc457,
     0x65b0d9c6, 0x12b7e950, 0x8bbeb8ea, 0xfcb9887c, 0x62dd1ddf, 0x15da2d49, 0x8cd37cf3, 0xfbd44c65,
     0x4db26158, 0x3ab551ce, 0xa3bc0074, 0xd4bb30e2, 0x4adfa541, 0x3dd895d7, 0xa4d1c46d, 0xd3d6f4fb,
     0x4369e96a, 0x346ed9fc, 0xad678846, 0xda60b8d0, 0x44042d73, 0x33031de5, 0xaa0a4c5f, 0xdd0d7cc9,
     0x5005713c, 0x270241aa, 0xbe0b1010, 0xc90c2086, 0x5768b525, 0x206f85b3, 0xb966d409, 0xce61e49f,
     0x5edef90e, 0x29d9c998, 0xb0d09822, 0xc7d7a8b4, 0x59b33d17, 0x2eb40d81, 0xb7bd5c3b, 0xc0ba6cad,
     0xedb88320, 0x9abfb3b6, 0x03b6e20c, 0x74b1d29a, 0xead54739, 0x9dd277af, 0x04db2615, 0x73dc1683,
     0xe3630b12, 0x94643b84, 0x0d6d6a3e, 0x7a6a5aa8, 0xe40ecf0b, 0x9309ff9d, 0x0a00ae27, 0x7d079eb1,
     0xf00f9344, 0x8708a3d2, 0x1e01f268, 0x6906c2fe, 0xf762575d, 0x806567cb, 0x196c3671, 0x6e6b06e7,
     0xfed41b76, 0x89d32be0, 0x10da7a5a, 0x67dd4acc, 0xf9b9df6f, 0x8ebeeff9, 0x17b7be43, 0x60b08ed5,
     0xd6d6a3e8, 0xa1d1937e, 0x38d8c2c4, 0x4fdff252, 0xd1bb67f1, 0xa6bc5767, 0x3fb506dd, 0x48b2364b,
     0xd80d2bda, 0xaf0a1b4c, 0x36034af6, 0x41047a60, 0xdf60efc3, 0xa867df55, 0x316e8eef, 0x4669be79,
     0xcb61b38c, 0xbc66831a, 0x256fd2a0, 0x5268e236, 0xcc0c7795, 0xbb0b4703, 0x220216b9, 0x5505262f,
     0xc5ba3bbe, 0xb2bd0b28, 0x2bb45a92, 0x5cb36a04, 0xc2d7ffa7, 0xb5d0cf31, 0x2cd99e8b, 0x5bdeae1d,
     0x9b64c2b0, 0xec63f226, 0x756aa39c, 0x026d930a, 0x9c0906a9, 0xeb0e363f, 0x72076785, 0x05005713,
     0x95bf4a82, 0xe2b87a14, 0x7bb12bae, 0x0cb61b38, 0x92d28e9b, 0xe5d5be0d, 0x7cdcefb7, 0x0bdbdf21,
     0x86d3d2d4, 0xf1d4e242, 0x68ddb3f8, 0x1fda836e, 0x81be16cd, 0xf6b9265b, 0x6fb077e1, 0x18b74777,
     0x88085ae6, 0xff0f6a70, 0x66063bca, 0x11010b5c, 0x8f659eff, 0xf862ae69, 0x616bffd3, 0x166ccf45,
     0xa00ae278, 0xd70dd2ee, 0x4e048354, 0x3903b3c2, 0xa7672661, 0xd06016f7, 0x4969474d, 0x3e6e77db,
     0xaed16a4a, 0xd9d65adc, 0x40df0b66, 0x37d83bf0, 0xa9bcae53, 0xdebb9ec5, 0x47b2cf7f, 0x30b5ffe9,
     0xbdbdf21c, 0xcabac28a, 0x53b39330, 0x24b4a3a6, 0xbad03605, 0xcdd70693, 0x54de5729, 0x23d967bf,
     0xb3667a2e, 0xc4614ab8, 0x5d681b02, 0x2a6f2b94, 0xb40bbe37, 0xc30c8ea1, 0x5a05df1b, 0x2d02ef8d]"

definition ef_calc_crc32 :: "u32 \<Rightarrow> byte list \<Rightarrow> u32" where
  "ef_calc_crc32 crc buf =
     fold (\<lambda>p crc. crc32_table ! unat ((crc XOR ucast p) AND 0xFF) XOR drop_bit 8 crc) buf (crc XOR NOT 0) XOR NOT 0"

section \<open>Caches\<close>

definition in_sector :: "nat \<Rightarrow> nat \<Rightarrow> bool" where
  "in_sector sec addr \<longleftrightarrow> sec < addr \<and> addr < wadd sec SECTOR_SIZE"

text \<open>The loops run over the indices that are left.\<close>

primrec sector_cache_loop ::
  "nat list \<Rightarrow> nat \<Rightarrow> nat \<Rightarrow> nat option \<Rightarrow> sector_cache_node list \<Rightarrow> sector_cache_node list" where
  "sector_cache_loop [] sec addr empty_index t =
     (case empty_index of Some e \<Rightarrow> t[e := \<lparr>cached_sec = sec, empty_addr = addr\<rparr>] | None \<Rightarrow> t)"
| "sector_cache_loop (i # is) sec addr empty_index t =
     (if in_sector sec addr then
        (if cached_sec (t ! i) = sec then t[i := \<lparr>cached_sec = sec, empty_addr = addr\<rparr>]
         else if cached_sec (t ! i) = FAILED_ADDR \<and> empty_index = None then sector_cache_loop is sec addr (Some i) t
         else sector_cache_loop is sec addr empty_index t)
      else if cached_sec (t ! i) = sec then t[i := (t ! i)\<lparr>cached_sec := FAILED_ADDR\<rparr>]
      else sector_cache_loop is sec addr empty_index t)"

definition update_sector_cache :: "nat \<Rightarrow> nat \<Rightarrow> (unit, 's) run" where
  "update_sector_cache sec addr = emod (\<lambda>st. st\<lparr>sector_cache_table :=
     sector_cache_loop [0..<EF_SECTOR_CACHE_TABLE_SIZE] sec addr None (sector_cache_table st)\<rparr>)"

definition get_sector_from_cache :: "nat \<Rightarrow> (nat option, 's) run" where
  "get_sector_from_cache sec = eget (\<lambda>st. map_option empty_addr (find (\<lambda>n. cached_sec n = sec) (sector_cache_table st)))"

definition name_code :: "byte list \<Rightarrow> u16" where
  "name_code name = ucast (drop_bit 16 (ef_calc_crc32 0 name))"

primrec env_cache_loop ::
  "nat list \<Rightarrow> u16 \<Rightarrow> nat \<Rightarrow> nat option \<Rightarrow> nat option \<Rightarrow> u16 \<Rightarrow> env_cache_node list \<Rightarrow> env_cache_node list" where
  "env_cache_loop [] code addr empty_index min_activity_index min_activity t =
     (case empty_index of
        Some e \<Rightarrow> t[e := \<lparr>name_crc = code, active = 0, cached_addr = addr\<rparr>]
      | None \<Rightarrow> (case min_activity_index of
          Some m \<Rightarrow> t[m := \<lparr>name_crc = code, active = 0, cached_addr = addr\<rparr>]
        | None \<Rightarrow> t))"
| "env_cache_loop (i # is) code addr empty_index min_activity_index min_activity t =
     (if addr \<noteq> FAILED_ADDR then
        (if name_crc (t ! i) = code then t[i := (t ! i)\<lparr>cached_addr := addr\<rparr>]
         else if cached_addr (t ! i) = FAILED_ADDR \<and> empty_index = None then
           env_cache_loop is code addr (Some i) min_activity_index min_activity t
         else if cached_addr (t ! i) \<noteq> FAILED_ADDR then
           (let t = (if active (t ! i) > 0 then t[i := (t ! i)\<lparr>active := active (t ! i) - 1\<rparr>] else t)
            in if active (t ! i) < min_activity
               then env_cache_loop is code addr empty_index (Some i) (active (t ! i)) t
               else env_cache_loop is code addr empty_index min_activity_index min_activity t)
         else env_cache_loop is code addr empty_index min_activity_index min_activity t)
      else if name_crc (t ! i) = code then t[i := (t ! i)\<lparr>cached_addr := FAILED_ADDR, active := 0\<rparr>]
      else env_cache_loop is code addr empty_index min_activity_index min_activity t)"

definition update_env_cache :: "byte list \<Rightarrow> nat \<Rightarrow> (unit, 's) run" where
  "update_env_cache name addr = emod (\<lambda>st. st\<lparr>env_cache_table :=
     env_cache_loop [0..<EF_ENV_CACHE_TABLE_SIZE] (name_code name) addr None None 0xFFFF (env_cache_table st)\<rparr>)"

text \<open>\<open>strncmp\<close> of a string with an array, as far as the string goes.\<close>

fun same_chars :: "byte list \<Rightarrow> byte list \<Rightarrow> bool cres" where
  "same_chars [] bs = Inr True"
| "same_chars (a # as) [] = Inl Out_Of_Bounds"
| "same_chars (a # as) (b # bs) = (if a \<noteq> b then Inr False else if a = 0 then Inr True else same_chars as bs)"

primrec env_from_cache_loop :: "'s ef_world \<Rightarrow> byte list \<Rightarrow> nat list \<Rightarrow> (nat option, 's) run" where
  "env_from_cache_loop W name [] = eret None"
| "env_from_cache_loop W name (i # is) =
     ebind (eget (\<lambda>st. env_cache_table st ! i)) (\<lambda>n.
     if cached_addr n \<noteq> FAILED_ADDR \<and> name_crc n = name_code name then
       ebind (rd W (wadd (cached_addr n) ENV_HDR_DATA_SIZE) (raw_array W EF_ENV_NAME_MAX)) (\<lambda>saved_name.
       ebind (elift (same_chars name saved_name)) (\<lambda>same.
       if same then
         ebind (emod (\<lambda>st. st\<lparr>env_cache_table := (env_cache_table st)[i := n\<lparr>active :=
             (if active n \<ge> 0xFFFF - of_nat EF_ENV_CACHE_TABLE_SIZE then 0xFFFF else active n + of_nat EF_ENV_CACHE_TABLE_SIZE)\<rparr>]\<rparr>)) (\<lambda>_.
         eret (Some (cached_addr n)))
       else env_from_cache_loop W name is))
     else env_from_cache_loop W name is)"

definition get_env_from_cache :: "'s ef_world \<Rightarrow> byte list \<Rightarrow> (nat option, 's) run" where
  "get_env_from_cache W name = env_from_cache_loop W name [0..<EF_ENV_CACHE_TABLE_SIZE]"

section \<open>Searching the flash\<close>

text \<open>One byte of \<open>continue_ff_addr\<close>: the start of the last run of 0xFF, and the last byte.\<close>

definition ff_byte :: "nat \<times> byte \<Rightarrow> nat \<times> byte \<Rightarrow> nat \<times> byte" where
  "ff_byte = (\<lambda>(a, b) (addr, last_data). (if last_data \<noteq> 0xFF \<and> b = 0xFF then a else addr, b))"

function ff_loop :: "'s ef_world \<Rightarrow> nat \<Rightarrow> nat \<Rightarrow> nat \<times> byte \<Rightarrow> (nat \<times> byte, 's) run" where
  "ff_loop W start stop acc =
     (if start < stop then
        (let read_size = (if start + 32 < stop then 32 else stop - start)
         in ebind (rd W start (raw_array W read_size)) (\<lambda>buf.
            ff_loop W (start + 32) stop (fold ff_byte (zip [start..<start + read_size] buf) acc)))
      else eret acc)"
  by pat_completeness auto
termination by (relation "measure (\<lambda>(_, start, stop, _). stop - start)") auto

declare ff_loop.simps [simp del]

definition continue_ff_addr :: "'s ef_world \<Rightarrow> nat \<Rightarrow> nat \<Rightarrow> (nat, 's) run" where
  "continue_ff_addr W start stop =
     ebind (ff_loop W start stop (start, 0)) (\<lambda>(addr, last_data). eret (if last_data = 0xFF then addr else stop))"

text \<open>The chunks of 32 bytes overlap by four, so that a magic word is found across them.\<close>

definition magic_in :: "nat \<Rightarrow> nat \<Rightarrow> nat \<Rightarrow> byte list \<Rightarrow> nat option" where
  "magic_in start stop start_bak buf =
     map_option (\<lambda>i. wsub (start + i) ENV_MAGIC_OFFSET)
       (find (\<lambda>i. start + i < stop \<and> le_word i buf = ENV_MAGIC_WORD \<and> wsub (start + i) ENV_MAGIC_OFFSET \<ge> start_bak) [0..<28])"

function magic_loop :: "'s ef_world \<Rightarrow> nat \<Rightarrow> nat \<Rightarrow> nat \<Rightarrow> (nat, 's) run" where
  "magic_loop W start stop start_bak =
     (if start < stop then
        ebind (rd W start (raw_array W 32)) (\<lambda>buf.
        case magic_in start stop start_bak buf of
          Some a \<Rightarrow> eret a
        | None \<Rightarrow> magic_loop W (start + 28) stop start_bak)
      else eret FAILED_ADDR)"
  by pat_completeness auto
termination by (relation "measure (\<lambda>(_, start, stop, _). stop - start)") auto

declare magic_loop.simps [simp del]

text \<open>\<open>EF_ALIGN_DOWN(addr, SECTOR_SIZE)\<close>\<close>

definition sector_of :: "nat \<Rightarrow> nat" where "sector_of addr = addr div SECTOR_SIZE * SECTOR_SIZE"

definition find_next_env_addr :: "'s ef_world \<Rightarrow> nat \<Rightarrow> nat \<Rightarrow> (nat, 's) run" where
  "find_next_env_addr W start stop =
     ebind (get_sector_from_cache (sector_of start)) (\<lambda>empty_env.
     if empty_env = Some start then eret FAILED_ADDR else magic_loop W start stop start)"

definition get_next_env_addr :: "'s ef_world \<Rightarrow> sector_meta_data \<Rightarrow> env_node_obj \<Rightarrow> (nat, 's) run" where
  "get_next_env_addr W sector pre_env =
     (if store_status sector = SECTOR_STORE_EMPTY then eret FAILED_ADDR
      else if start_addr pre_env = FAILED_ADDR then eret (wadd (sec_addr sector) SECTOR_HDR_DATA_SIZE)
      else if start_addr pre_env \<le> wadd (sec_addr sector) SECTOR_SIZE then
        ebind (find_next_env_addr W
            (if crc_is_ok pre_env then wadd (start_addr pre_env) (env_len pre_env) else wadd (start_addr pre_env) 1)
            (wadd (sec_addr sector) (SECTOR_SIZE - SECTOR_HDR_DATA_SIZE))) (\<lambda>addr.
        eret (if addr > wadd (sec_addr sector) SECTOR_SIZE \<or> env_len pre_env = 0 then FAILED_ADDR else addr))
      else eret FAILED_ADDR)"

section \<open>Reading nodes and sectors\<close>

text \<open>The checksum of the bytes behind the checksum, in chunks of 32.\<close>

function crc_loop :: "'s ef_world \<Rightarrow> nat \<Rightarrow> nat \<Rightarrow> nat \<Rightarrow> u32 \<Rightarrow> (u32, 's) run" where
  "crc_loop W base len crc_data_len calc_crc32 =
     (if len < crc_data_len then
        (let n = (if len + 32 < crc_data_len then 32 else crc_data_len - len)
         in ebind (rd W (wadd base len) (raw_array W n)) (\<lambda>buf.
            crc_loop W base (len + n) crc_data_len (ef_calc_crc32 calc_crc32 buf)))
      else eret calc_crc32)"
  by pat_completeness auto
termination by (relation "measure (\<lambda>(_, _, len, n, _). n - len)") auto

declare crc_loop.simps [simp del]

definition read_env :: "'s ef_world \<Rightarrow> env_node_obj \<Rightarrow> (EfErrCode \<times> env_node_obj, 's) run" where
  "read_env W env =
     ebind (rd W (start_addr env) (raw_array W 24)) (\<lambda>env_hdr.
     let env = env\<lparr>env_status := get_status (take 1 env_hdr) ENV_STATUS_NUM, env_len := unat (le_word 8 env_hdr)\<rparr>
     in if env_len env = 0xFFFFFFFF \<or> env_len env > ENV_AREA_SIZE \<or> env_len env < ENV_NAME_LEN_OFFSET then
          (let err = (env_status env \<noteq> ENV_ERR_HDR);
               env = env\<lparr>env_len := ENV_HDR_DATA_SIZE, env_status := ENV_ERR_HDR\<rparr>
           in ebind (if err then write_status W (start_addr env) ENV_STATUS_NUM ENV_ERR_HDR else eret EF_NO_ERR) (\<lambda>_.
              eret (EF_READ_ERR, env\<lparr>crc_is_ok := False\<rparr>)))
        else
          ebind (eassert (\<not> (env_len env > SECTOR_SIZE - SECTOR_HDR_DATA_SIZE \<and> env_len env < ENV_AREA_SIZE))) (\<lambda>_.
          ebind (crc_loop W (wadd (start_addr env) ENV_NAME_LEN_OFFSET) 0 (env_len env - ENV_NAME_LEN_OFFSET) 0) (\<lambda>calc_crc32.
          if calc_crc32 \<noteq> le_word 12 env_hdr then eret (EF_READ_ERR, env\<lparr>crc_is_ok := False\<rparr>)
          else
            (let env_name_addr = wadd (start_addr env) ENV_HDR_DATA_SIZE; n = unat (env_hdr ! 16)
             in ebind (rd W env_name_addr (take n (env_name env))) (\<lambda>name.
                ebind (elift (if n \<le> EF_ENV_NAME_MAX then Inr () else Inl Out_Of_Bounds)) (\<lambda>_.
                eret (EF_NO_ERR, env\<lparr>crc_is_ok := True, env_name := name @ drop n (env_name env),
                  value_addr := wadd env_name_addr n, value_len := unat (le_word 20 env_hdr), name_len := n\<rparr>)))))))"

text \<open>The walk over the nodes of a sector; the fuel is the number of nodes it may see.\<close>

primrec meta_loop ::
  "'s ef_world \<Rightarrow> nat \<Rightarrow> sector_meta_data \<Rightarrow> env_node_obj \<Rightarrow> (EfErrCode \<times> sector_meta_data, 's) run" where
  "meta_loop W 0 sector env_meta = elift (Inl Diverges)"
| "meta_loop W (Suc fuel) sector env_meta =
     ebind (get_next_env_addr W sector env_meta) (\<lambda>start.
     if start = FAILED_ADDR then eret (EF_NO_ERR, sector)
     else
       ebind (read_env W (env_meta\<lparr>start_addr := start\<rparr>)) (\<lambda>(_, env_meta).
       if \<not> crc_is_ok env_meta \<and> env_status env_meta \<noteq> ENV_PRE_WRITE \<and> env_status env_meta \<noteq> ENV_ERR_HDR
       then eret (EF_READ_ERR, sector\<lparr>remain := 0\<rparr>)
       else meta_loop W fuel
         (sector\<lparr>empty_env := wadd (empty_env sector) (env_len env_meta), remain := wsub (remain sector) (env_len env_meta)\<rparr>)
         env_meta))"

definition read_sector_meta_data ::
  "'s ef_world \<Rightarrow> nat \<Rightarrow> sector_meta_data \<Rightarrow> bool \<Rightarrow> (EfErrCode \<times> sector_meta_data, 's) run" where
  "read_sector_meta_data W addr sector traversal =
     ebind (eassert (addr mod SECTOR_SIZE = 0)) (\<lambda>_.
     ebind (rd W addr (raw_array W 16)) (\<lambda>sec_hdr.
     let sector = sector\<lparr>sec_addr := addr, sec_magic := le_word 4 sec_hdr\<rparr>
     in if sec_magic sector \<noteq> SECTOR_MAGIC_WORD
        then eret (EF_ENV_INIT_FAILED, sector\<lparr>check_ok := False, combined := SECTOR_NOT_COMBINED\<rparr>)
        else
          (let sector = sector\<lparr>check_ok := True, combined := unat (le_word 8 sec_hdr),
                 store_status := get_status (take 1 sec_hdr) SECTOR_STORE_STATUS_NUM,
                 dirty_status := get_status (take 1 (drop 1 sec_hdr)) SECTOR_DIRTY_STATUS_NUM\<rparr>
           in if \<not> traversal then eret (EF_NO_ERR, sector)
              else
                (let sector = sector\<lparr>remain := 0, empty_env := wadd addr SECTOR_HDR_DATA_SIZE\<rparr>
                 in if store_status sector = SECTOR_STORE_EMPTY
                    then eret (EF_NO_ERR, sector\<lparr>remain := SECTOR_SIZE - SECTOR_HDR_DATA_SIZE\<rparr>)
                    else if store_status sector = SECTOR_STORE_USING then
                      ebind (get_sector_from_cache addr) (\<lambda>hit.
                      case hit of
                        Some a \<Rightarrow> eret (EF_NO_ERR, sector\<lparr>empty_env := a, remain := wsub SECTOR_SIZE (wsub a addr)\<rparr>)
                      | None \<Rightarrow>
                          ebind (meta_loop W (Suc SECTOR_SIZE) (sector\<lparr>remain := SECTOR_SIZE - SECTOR_HDR_DATA_SIZE\<rparr>)
                              ((raw_node W)\<lparr>start_addr := FAILED_ADDR\<rparr>)) (\<lambda>(result, sector).
                          ebind (continue_ff_addr W (empty_env sector) (wadd addr SECTOR_SIZE)) (\<lambda>ff_addr.
                          let sector = (if empty_env sector \<noteq> ff_addr
                                then sector\<lparr>empty_env := ff_addr, remain := wsub SECTOR_SIZE (wsub ff_addr addr)\<rparr> else sector)
                          in ebind (update_sector_cache addr (empty_env sector)) (\<lambda>_. eret (result, sector)))))
                    else eret (EF_NO_ERR, sector)))))"

definition get_next_sector_addr :: "sector_meta_data \<Rightarrow> nat" where
  "get_next_sector_addr pre_sec =
     (if sec_addr pre_sec = FAILED_ADDR then EF_START_ADDR
      else let next_addr = (if combined pre_sec = SECTOR_NOT_COMBINED then wadd (sec_addr pre_sec) SECTOR_SIZE
                            else (sec_addr pre_sec + combined pre_sec * SECTOR_SIZE) mod 2 ^ 32)
           in if next_addr < EF_START_ADDR + ENV_AREA_SIZE then next_addr else FAILED_ADDR)"

text \<open>The two iterators, with one unit of fuel for each sector and each node; a callback says whether to stop.\<close>

primrec node_loop ::
  "'s ef_world \<Rightarrow> nat \<Rightarrow> (env_node_obj \<Rightarrow> 'a \<Rightarrow> (bool \<times> 'a, 's) run) \<Rightarrow> sector_meta_data \<Rightarrow> env_node_obj \<Rightarrow> 'a \<Rightarrow>
     (bool \<times> env_node_obj \<times> 'a, 's) run" where
  "node_loop W 0 callback sector env arg = elift (Inl Diverges)"
| "node_loop W (Suc fuel) callback sector env arg =
     ebind (get_next_env_addr W sector env) (\<lambda>start.
     let env = env\<lparr>start_addr := start\<rparr>
     in if start = FAILED_ADDR then eret (False, env, arg)
        else ebind (read_env W env) (\<lambda>(_, env).
             ebind (callback env arg) (\<lambda>(stop, arg).
             if stop then eret (True, env, arg) else node_loop W fuel callback sector env arg)))"

primrec env_sectors ::
  "'s ef_world \<Rightarrow> nat \<Rightarrow> (env_node_obj \<Rightarrow> 'a \<Rightarrow> (bool \<times> 'a, 's) run) \<Rightarrow> sector_meta_data \<Rightarrow> env_node_obj \<Rightarrow> 'a \<Rightarrow>
     (env_node_obj \<times> 'a, 's) run" where
  "env_sectors W 0 callback sector env arg = elift (Inl Diverges)"
| "env_sectors W (Suc fuel) callback sector env arg =
     (let addr = get_next_sector_addr sector
      in if addr = FAILED_ADDR then eret (env, arg)
         else ebind (read_sector_meta_data W addr sector False) (\<lambda>(result, sector).
              if result \<noteq> EF_NO_ERR then env_sectors W fuel callback sector env arg
              else if store_status sector = SECTOR_STORE_USING \<or> store_status sector = SECTOR_STORE_FULL then
                ebind (node_loop W (Suc SECTOR_SIZE) callback sector (env\<lparr>start_addr := FAILED_ADDR\<rparr>) arg) (\<lambda>(stop, env, arg).
                if stop then eret (env, arg) else env_sectors W fuel callback sector env arg)
              else env_sectors W fuel callback sector env arg))"

definition env_iterator ::
  "'s ef_world \<Rightarrow> (env_node_obj \<Rightarrow> 'a \<Rightarrow> (bool \<times> 'a, 's) run) \<Rightarrow> env_node_obj \<Rightarrow> 'a \<Rightarrow> (env_node_obj \<times> 'a, 's) run" where
  "env_iterator W callback env arg =
     env_sectors W (Suc SECTOR_NUM) callback ((raw_sector W)\<lparr>sec_addr := FAILED_ADDR\<rparr>) env arg"

primrec sector_loop ::
  "'s ef_world \<Rightarrow> nat \<Rightarrow> nat \<Rightarrow> (sector_meta_data \<Rightarrow> 'a \<Rightarrow> (bool \<times> 'a, 's) run) \<Rightarrow> bool \<Rightarrow> sector_meta_data \<Rightarrow> 'a \<Rightarrow>
     (sector_meta_data \<times> 'a, 's) run" where
  "sector_loop W 0 status callback traversal_env sector arg = elift (Inl Diverges)"
| "sector_loop W (Suc fuel) status callback traversal_env sector arg =
     (let addr = get_next_sector_addr sector
      in if addr = FAILED_ADDR then eret (sector, arg)
         else ebind (read_sector_meta_data W addr sector False) (\<lambda>(_, sector).
              if status = SECTOR_STORE_UNUSED \<or> status = store_status sector then
                ebind (if traversal_env then read_sector_meta_data W addr sector True else eret (EF_NO_ERR, sector)) (\<lambda>(_, sector).
                ebind (callback sector arg) (\<lambda>(stop, arg).
                if stop then eret (sector, arg) else sector_loop W fuel status callback traversal_env sector arg))
              else sector_loop W fuel status callback traversal_env sector arg))"

definition sector_iterator ::
  "'s ef_world \<Rightarrow> sector_meta_data \<Rightarrow> nat \<Rightarrow> 'a \<Rightarrow> (sector_meta_data \<Rightarrow> 'a \<Rightarrow> (bool \<times> 'a, 's) run) \<Rightarrow> bool \<Rightarrow>
     (sector_meta_data \<times> 'a, 's) run" where
  "sector_iterator W sector status arg callback traversal_env =
     sector_loop W (Suc SECTOR_NUM) status callback traversal_env (sector\<lparr>sec_addr := FAILED_ADDR\<rparr>) arg"

section \<open>Finding a variable\<close>

definition find_env_cb :: "byte list \<Rightarrow> env_node_obj \<Rightarrow> bool \<Rightarrow> (bool \<times> bool, 's) run" where
  "find_env_cb key env find_ok =
     (if length key \<noteq> name_len env then eret (False, find_ok)
      else if crc_is_ok env \<and> env_status env = ENV_WRITE then
        ebind (elift (same_chars key (env_name env))) (\<lambda>same. eret (if same then (True, True) else (False, find_ok)))
      else eret (False, find_ok))"

definition find_env_no_cache :: "'s ef_world \<Rightarrow> byte list \<Rightarrow> env_node_obj \<Rightarrow> (bool \<times> env_node_obj, 's) run" where
  "find_env_no_cache W key env =
     ebind (env_iterator W (find_env_cb key) env False) (\<lambda>(env, find_ok). eret (find_ok, env))"

definition find_env :: "'s ef_world \<Rightarrow> byte list \<Rightarrow> env_node_obj \<Rightarrow> (bool \<times> env_node_obj, 's) run" where
  "find_env W key env =
     ebind (get_env_from_cache W key) (\<lambda>hit.
     case hit of
       Some a \<Rightarrow> ebind (read_env W (env\<lparr>start_addr := a\<rparr>)) (\<lambda>(_, env). eret (True, env))
     | None \<Rightarrow>
         ebind (find_env_no_cache W key env) (\<lambda>(find_ok, env).
         ebind (if find_ok then update_env_cache key (start_addr env) else eret ()) (\<lambda>_.
         eret (find_ok, env))))"

text \<open>\<open>get_env\<close> into a buffer: the number of bytes read, what is written to \<open>*value_len\<close> (nothing when there is no
  such variable), and the buffer.\<close>

definition get_env :: "'s ef_world \<Rightarrow> byte list \<Rightarrow> byte list \<Rightarrow> (nat \<times> nat option \<times> byte list, 's) run" where
  "get_env W key value_buf =
     ebind (find_env W key (raw_node W)) (\<lambda>(found, env).
     if found then
       (let read_len = (if length value_buf > value_len env then value_len env else length value_buf)
        in ebind (rd W (value_addr env) (take read_len value_buf)) (\<lambda>data.
           eret (read_len, Some (value_len env), data @ drop read_len value_buf)))
     else eret (0, None, value_buf))"

definition ef_get_env_blob :: "'s ef_world \<Rightarrow> byte list \<Rightarrow> byte list \<Rightarrow> (nat \<times> nat option \<times> byte list, 's) run" where
  "ef_get_env_blob W key value_buf =
     ebind (eget init_ok) (\<lambda>ok. if \<not> ok then eret (0, None, value_buf) else get_env W key value_buf)"

definition ef_get_env_obj :: "'s ef_world \<Rightarrow> byte list \<Rightarrow> env_node_obj \<Rightarrow> (bool \<times> env_node_obj, 's) run" where
  "ef_get_env_obj W key env = ebind (eget init_ok) (\<lambda>ok. if \<not> ok then eret (False, env) else find_env W key env)"

definition ef_is_str :: "byte list \<Rightarrow> bool" where
  "ef_is_str value = list_all (\<lambda>b. 32 \<le> b \<and> b < 127) value"

definition EF_STR_ENV_VALUE_MAX_SIZE :: nat where "EF_STR_ENV_VALUE_MAX_SIZE = 128"

text \<open>The characters of the string that is returned; the buffer is a static one.\<close>

definition ef_get_env :: "'s ef_world \<Rightarrow> byte list \<Rightarrow> (byte list option, 's) run" where
  "ef_get_env W key =
     ebind (ef_get_env_blob W key (raw_array W EF_STR_ENV_VALUE_MAX_SIZE)) (\<lambda>(get_size, _, value).
     eret (if get_size > 0 \<and> ef_is_str (take get_size value) then Some (take get_size value) else None))"

definition ef_read_env_value :: "'s ef_world \<Rightarrow> env_node_obj \<Rightarrow> byte list \<Rightarrow> (nat \<times> byte list, 's) run" where
  "ef_read_env_value W env value_buf =
     ebind (eget init_ok) (\<lambda>ok.
     if ok \<and> crc_is_ok env then
       (let read_len = (if length value_buf > value_len env then value_len env else length value_buf)
        in ebind (rd W (value_addr env) (take read_len value_buf)) (\<lambda>data. eret (read_len, data @ drop read_len value_buf)))
     else eret (0, value_buf))"

section \<open>Writing headers\<close>

definition format_sector :: "'s ef_world \<Rightarrow> nat \<Rightarrow> nat \<Rightarrow> (EfErrCode, 's) run" where
  "format_sector W addr combined_value =
     ebind (eassert (addr mod SECTOR_SIZE = 0)) (\<lambda>_.
     ebind (er W addr SECTOR_SIZE) (\<lambda>result.
     if result = EF_NO_ERR then
       ebind (wr W addr (snd (set_status SECTOR_STORE_STATUS_NUM SECTOR_STORE_EMPTY) @
           snd (set_status SECTOR_DIRTY_STATUS_NUM SECTOR_DIRTY_FALSE) @ [0xFF, 0xFF] @
           le_bytes SECTOR_MAGIC_WORD @ le_bytes (word_of_nat combined_value) @ le_bytes 0xFFFFFFFF)) (\<lambda>result.
       ebind (update_sector_cache addr (wadd addr SECTOR_SIZE)) (\<lambda>_. eret result))
     else eret result))"

text \<open>The flag \<open>*is_full\<close> is given and returned.\<close>

definition update_sec_status :: "'s ef_world \<Rightarrow> sector_meta_data \<Rightarrow> nat \<Rightarrow> bool \<Rightarrow> (EfErrCode \<times> bool, 's) run" where
  "update_sec_status W sector new_env_len is_full =
     (if store_status sector = SECTOR_STORE_EMPTY then
        ebind (write_status W (sec_addr sector) SECTOR_STORE_STATUS_NUM SECTOR_STORE_USING) (\<lambda>result. eret (result, is_full))
      else if store_status sector = SECTOR_STORE_USING then
        (if remain sector < EF_SEC_REMAIN_THRESHOLD \<or> wsub (remain sector) new_env_len < EF_SEC_REMAIN_THRESHOLD then
           ebind (write_status W (sec_addr sector) SECTOR_STORE_STATUS_NUM SECTOR_STORE_FULL) (\<lambda>result.
           ebind (update_sector_cache (sec_addr sector) (wadd (sec_addr sector) SECTOR_SIZE)) (\<lambda>_. eret (result, True)))
         else eret (EF_NO_ERR, False))
      else eret (EF_NO_ERR, is_full))"

section \<open>Allocation\<close>

definition sector_statistics_cb :: "sector_meta_data \<Rightarrow> nat \<times> nat \<Rightarrow> (bool \<times> nat \<times> nat, 's) run" where
  "sector_statistics_cb sector = (\<lambda>(empty_sector, using_sector).
     if check_ok sector \<and> store_status sector = SECTOR_STORE_EMPTY then eret (False, empty_sector + 1, using_sector)
     else if check_ok sector \<and> store_status sector = SECTOR_STORE_USING then eret (False, empty_sector, using_sector + 1)
     else eret (False, empty_sector, using_sector))"

definition alloc_env_cb :: "nat \<Rightarrow> sector_meta_data \<Rightarrow> nat \<Rightarrow> (bool \<times> nat, 's) run" where
  "alloc_env_cb env_size sector env_addr =
     ebind (eget gc_request) (\<lambda>gc.
     if check_ok sector \<and> remain sector > env_size \<and>
        (dirty_status sector = SECTOR_DIRTY_FALSE \<or> dirty_status sector = SECTOR_DIRTY_TRUE \<and> \<not> gc)
     then eret (True, empty_env sector) else eret (False, env_addr))"

definition alloc_env :: "'s ef_world \<Rightarrow> sector_meta_data \<Rightarrow> nat \<Rightarrow> (nat \<times> sector_meta_data, 's) run" where
  "alloc_env W sector env_size =
     ebind (sector_iterator W sector SECTOR_STORE_UNUSED (0, 0) sector_statistics_cb False) (\<lambda>(sector, empty_sector, using_sector).
     ebind (if using_sector > 0 then sector_iterator W sector SECTOR_STORE_USING FAILED_ADDR (alloc_env_cb env_size) True
            else eret (sector, FAILED_ADDR)) (\<lambda>(sector, env_addr).
     if empty_sector > 0 \<and> env_addr = FAILED_ADDR then
       ebind (eget gc_request) (\<lambda>gc.
       if empty_sector > EF_GC_EMPTY_SEC_THRESHOLD \<or> gc then
         ebind (sector_iterator W sector SECTOR_STORE_EMPTY env_addr (alloc_env_cb env_size) True) (\<lambda>(sector, env_addr).
         eret (env_addr, sector))
       else ebind (emod (\<lambda>st. st\<lparr>gc_request := True\<rparr>)) (\<lambda>_. eret (env_addr, sector)))
     else eret (env_addr, sector)))"

section \<open>Deleting and moving\<close>

text \<open>\<open>del_env\<close> of a node that has been found, with the key or without.\<close>

definition del_node :: "'s ef_world \<Rightarrow> byte list option \<Rightarrow> env_node_obj \<Rightarrow> bool \<Rightarrow> (EfErrCode, 's) run" where
  "del_node W key old_env complete_del =
     ebind (if \<not> complete_del then
              ebind (write_status W (start_addr old_env) ENV_STATUS_NUM ENV_PRE_DELETE) (\<lambda>result.
              ebind (emod (\<lambda>st. st\<lparr>last_is_complete_del := True\<rparr>)) (\<lambda>_. eret result))
            else
              ebind (write_status W (start_addr old_env) ENV_STATUS_NUM ENV_DELETED) (\<lambda>result.
              ebind (eget last_is_complete_del) (\<lambda>last.
              ebind (if \<not> last \<and> result = EF_NO_ERR then
                       (case key of
                          Some key \<Rightarrow> update_env_cache key FAILED_ADDR
                        | None \<Rightarrow> update_env_cache (take (name_len old_env) (env_name old_env)) FAILED_ADDR)
                     else eret ()) (\<lambda>_.
              ebind (emod (\<lambda>st. st\<lparr>last_is_complete_del := False\<rparr>)) (\<lambda>_. eret result))))) (\<lambda>result.
     let dirty_status_addr = wadd (sector_of (start_addr old_env)) SECTOR_DIRTY_OFFSET
     in if result = EF_NO_ERR then
          ebind (read_status W dirty_status_addr SECTOR_DIRTY_STATUS_NUM) (\<lambda>status.
          if status = SECTOR_DIRTY_FALSE then write_status W dirty_status_addr SECTOR_DIRTY_STATUS_NUM SECTOR_DIRTY_TRUE
          else eret result)
        else eret result)"

definition del_env :: "'s ef_world \<Rightarrow> byte list \<Rightarrow> (EfErrCode, 's) run" where
  "del_env W key =
     ebind (find_env W key (raw_node W)) (\<lambda>(found, env).
     if found then del_node W (Some key) env True else eret EF_ENV_NAME_ERR)"

text \<open>Copying in chunks of 32 bytes; the result is that of the last write.\<close>

function copy_loop :: "'s ef_world \<Rightarrow> nat \<Rightarrow> nat \<Rightarrow> nat \<Rightarrow> nat \<Rightarrow> EfErrCode \<Rightarrow> (EfErrCode, 's) run" where
  "copy_loop W src dst len n_bytes result =
     (if len < n_bytes then
        (let n = (if len + 32 < n_bytes then 32 else n_bytes - len)
         in ebind (rd W (wadd src len) (raw_array W n)) (\<lambda>buf.
            ebind (wr W (wadd dst len) buf) (\<lambda>result. copy_loop W src dst (len + n) n_bytes result)))
      else eret result)"
  by pat_completeness auto
termination by (relation "measure (\<lambda>(_, _, _, len, n, _). n - len)") auto

declare copy_loop.simps [simp del]

definition move_env :: "'s ef_world \<Rightarrow> env_node_obj \<Rightarrow> (EfErrCode, 's) run" where
  "move_env W env =
     ebind (if env_status env = ENV_WRITE then del_node W None env False else eret EF_NO_ERR) (\<lambda>_.
     ebind (alloc_env W (raw_sector W) (env_len env)) (\<lambda>(env_addr, sector).
     if env_addr = FAILED_ADDR then eret EF_ENV_FULL
     else
       ebind (eget in_recovery_check) (\<lambda>recovery.
       ebind (if recovery then find_env_no_cache W (cstr (take (name_len env) (env_name env))) (raw_node W)
              else eret (False, env)) (\<lambda>(already, _).
       ebind (if already then eret EF_NO_ERR
              else
                ebind (update_sec_status W sector (env_len env) False) (\<lambda>_.
                ebind (write_status W env_addr ENV_STATUS_NUM ENV_PRE_WRITE) (\<lambda>_.
                ebind (copy_loop W (wadd (start_addr env) ENV_MAGIC_OFFSET) (wadd env_addr ENV_MAGIC_OFFSET) 0
                    (wsub (env_len env) ENV_MAGIC_OFFSET) EF_NO_ERR) (\<lambda>result.
                ebind (write_status W env_addr ENV_STATUS_NUM ENV_WRITE) (\<lambda>_.
                ebind (update_sector_cache (sector_of env_addr)
                    (wadd (wadd (wadd env_addr ENV_HDR_DATA_SIZE) (name_len env)) (value_len env))) (\<lambda>_.
                ebind (update_env_cache (take (name_len env) (env_name env)) env_addr) (\<lambda>_.
                eret result))))))) (\<lambda>result.
       ebind (del_node W None env True) (\<lambda>_. eret result))))))"

section \<open>Garbage collection\<close>

definition gc_check_cb :: "sector_meta_data \<Rightarrow> nat \<Rightarrow> (bool \<times> nat, 's) run" where
  "gc_check_cb sector empty_sec = eret (False, if check_ok sector then empty_sec + 1 else empty_sec)"

text \<open>The nodes of a sector are moved one after the other; whether a move succeeds is only logged.\<close>

primrec gc_loop :: "'s ef_world \<Rightarrow> nat \<Rightarrow> sector_meta_data \<Rightarrow> env_node_obj \<Rightarrow> (unit, 's) run" where
  "gc_loop W 0 sector env = elift (Inl Diverges)"
| "gc_loop W (Suc fuel) sector env =
     ebind (get_next_env_addr W sector env) (\<lambda>start.
     if start = FAILED_ADDR then eret ()
     else
       ebind (read_env W (env\<lparr>start_addr := start\<rparr>)) (\<lambda>(_, env).
       ebind (if crc_is_ok env \<and> (env_status env = ENV_WRITE \<or> env_status env = ENV_PRE_DELETE)
              then move_env W env else eret EF_NO_ERR) (\<lambda>_.
       gc_loop W fuel sector env)))"

definition do_gc :: "'s ef_world \<Rightarrow> sector_meta_data \<Rightarrow> unit \<Rightarrow> (bool \<times> unit, 's) run" where
  "do_gc W sector _ =
     (if check_ok sector \<and> (dirty_status sector = SECTOR_DIRTY_TRUE \<or> dirty_status sector = SECTOR_DIRTY_GC) then
        ebind (write_status W (wadd (sec_addr sector) SECTOR_DIRTY_OFFSET) SECTOR_DIRTY_STATUS_NUM SECTOR_DIRTY_GC) (\<lambda>_.
        ebind (gc_loop W (Suc SECTOR_SIZE) sector ((raw_node W)\<lparr>start_addr := FAILED_ADDR\<rparr>)) (\<lambda>_.
        ebind (format_sector W (sec_addr sector) SECTOR_NOT_COMBINED) (\<lambda>_. eret (False, ()))))
      else eret (False, ()))"

definition gc_collect :: "'s ef_world \<Rightarrow> (unit, 's) run" where
  "gc_collect W =
     ebind (sector_iterator W (raw_sector W) SECTOR_STORE_EMPTY 0 gc_check_cb False) (\<lambda>(sector, empty_sec).
     ebind (if empty_sec \<le> EF_GC_EMPTY_SEC_THRESHOLD
            then ebind (sector_iterator W sector SECTOR_STORE_UNUSED () (do_gc W) False) (\<lambda>_. eret ())
            else eret ()) (\<lambda>_.
     emod (\<lambda>st. st\<lparr>gc_request := False\<rparr>)))"

definition new_env :: "'s ef_world \<Rightarrow> sector_meta_data \<Rightarrow> nat \<Rightarrow> (nat \<times> sector_meta_data, 's) run" where
  "new_env W sector env_size =
     ebind (alloc_env W sector env_size) (\<lambda>(env_addr, sector).
     ebind (eget gc_request) (\<lambda>gc.
     if env_addr = FAILED_ADDR \<and> gc then ebind (gc_collect W) (\<lambda>_. alloc_env W sector env_size)
     else eret (env_addr, sector)))"

definition new_env_by_kv :: "'s ef_world \<Rightarrow> sector_meta_data \<Rightarrow> nat \<Rightarrow> nat \<Rightarrow> (nat \<times> sector_meta_data, 's) run" where
  "new_env_by_kv W sector key_len buf_len = new_env W sector (wadd (wadd ENV_HDR_DATA_SIZE key_len) buf_len)"

section \<open>Setting\<close>

text \<open>\<open>align_write\<close> at a granularity of a byte: all of it, and nothing remains.\<close>

definition align_write :: "'s ef_world \<Rightarrow> nat \<Rightarrow> byte list \<Rightarrow> (EfErrCode, 's) run" where
  "align_write W addr buf = wr W addr buf"

text \<open>The header without its first four bytes: magic, len, crc32, name_len and its padding, value_len.\<close>

definition env_hdr_bytes :: "nat \<Rightarrow> u32 \<Rightarrow> nat \<Rightarrow> nat \<Rightarrow> byte list" where
  "env_hdr_bytes len crc n v =
     le_bytes ENV_MAGIC_WORD @ le_bytes (word_of_nat len) @ le_bytes crc @ [word_of_nat n, 0xFF, 0xFF, 0xFF] @ le_bytes (word_of_nat v)"

definition write_env_hdr :: "'s ef_world \<Rightarrow> nat \<Rightarrow> byte list \<Rightarrow> (EfErrCode, 's) run" where
  "write_env_hdr W addr hdr =
     ebind (write_status W addr ENV_STATUS_NUM ENV_PRE_WRITE) (\<lambda>result.
     if result \<noteq> EF_NO_ERR then eret result else wr W (wadd addr ENV_MAGIC_OFFSET) hdr)"

definition when_ok :: "EfErrCode \<Rightarrow> (EfErrCode, 's) run \<Rightarrow> (EfErrCode, 's) run" where
  "when_ok result m = (if result = EF_NO_ERR then m else eret result)"

definition create_env_blob :: "'s ef_world \<Rightarrow> sector_meta_data \<Rightarrow> byte list \<Rightarrow> byte list \<Rightarrow> (EfErrCode, 's) run" where
  "create_env_blob W sector key value =
     (if length key > EF_ENV_NAME_MAX then eret EF_ENV_NAME_ERR
      else
        (let n = length key; v = length value; len = wadd (wadd ENV_HDR_DATA_SIZE n) v
         in if len > SECTOR_SIZE - SECTOR_HDR_DATA_SIZE then eret EF_ENV_FULL
            else
              ebind (if empty_env sector \<noteq> FAILED_ADDR then eret (empty_env sector, sector) else new_env W sector len) (\<lambda>(env_addr, sector).
              if env_addr = FAILED_ADDR then eret EF_ENV_FULL
              else
                ebind (update_sec_status W sector len False) (\<lambda>(result, is_full).
                ebind (when_ok result
                    (let hdr = drop 12 (env_hdr_bytes len 0 n v);
                         crc = ef_calc_crc32 (ef_calc_crc32 (ef_calc_crc32 0 hdr) key) value
                     in write_env_hdr W env_addr (env_hdr_bytes len crc n v))) (\<lambda>result.
                ebind (when_ok result
                    (ebind (align_write W (wadd env_addr ENV_HDR_DATA_SIZE) key) (\<lambda>result.
                     ebind (if \<not> is_full then update_sector_cache (sec_addr sector) (wadd (wadd (wadd env_addr ENV_HDR_DATA_SIZE) n) v)
                            else eret ()) (\<lambda>_.
                     ebind (update_env_cache key env_addr) (\<lambda>_. eret result))))) (\<lambda>result.
                ebind (when_ok result (align_write W (wadd (wadd env_addr ENV_HDR_DATA_SIZE) n) value)) (\<lambda>result.
                ebind (when_ok result (write_status W env_addr ENV_STATUS_NUM ENV_WRITE)) (\<lambda>result.
                ebind (if result = EF_NO_ERR \<and> is_full then emod (\<lambda>st. st\<lparr>gc_request := True\<rparr>) else eret ()) (\<lambda>_.
                eret result)))))))))"

definition ef_del_env :: "'s ef_world \<Rightarrow> byte list \<Rightarrow> (EfErrCode, 's) run" where
  "ef_del_env W key = ebind (eget init_ok) (\<lambda>ok. if \<not> ok then eret EF_ENV_INIT_FAILED else del_env W key)"

definition set_env :: "'s ef_world \<Rightarrow> byte list \<Rightarrow> byte list option \<Rightarrow> (EfErrCode, 's) run" where
  "set_env W key value_buf =
     (case value_buf of
        None \<Rightarrow> del_env W key
      | Some value \<Rightarrow>
          ebind (eget set_env_sector) (\<lambda>sector.
          ebind (new_env_by_kv W sector (length key) (length value)) (\<lambda>(env_addr, sector).
          ebind (emod (\<lambda>st. st\<lparr>set_env_sector := sector\<rparr>)) (\<lambda>_.
          if env_addr = FAILED_ADDR then eret EF_ENV_FULL
          else
            ebind (eget set_env_node) (\<lambda>env.
            ebind (find_env W key env) (\<lambda>(env_is_found, env).
            ebind (emod (\<lambda>st. st\<lparr>set_env_node := env\<rparr>)) (\<lambda>_.
            ebind (if env_is_found then del_node W (Some key) env False else eret EF_NO_ERR) (\<lambda>result.
            ebind (when_ok result (create_env_blob W sector key value)) (\<lambda>result.
            ebind (if env_is_found \<and> result = EF_NO_ERR then del_node W (Some key) env True else eret result) (\<lambda>result.
            ebind (eget gc_request) (\<lambda>gc.
            ebind (if gc then gc_collect W else eret ()) (\<lambda>_. eret result))))))))))))"

definition ef_set_env_blob :: "'s ef_world \<Rightarrow> byte list \<Rightarrow> byte list option \<Rightarrow> (EfErrCode, 's) run" where
  "ef_set_env_blob W key value_buf =
     ebind (eget init_ok) (\<lambda>ok. if \<not> ok then eret EF_ENV_INIT_FAILED else set_env W key value_buf)"

definition ef_set_env :: "'s ef_world \<Rightarrow> byte list \<Rightarrow> byte list \<Rightarrow> (EfErrCode, 's) run" where
  "ef_set_env W key value = ef_set_env_blob W key (Some value)"

definition ef_save_env :: "EfErrCode" where "ef_save_env = EF_NO_ERR"

section \<open>Starting\<close>

text \<open>The sectors are formatted in turn, up to the first failure; what creating a variable returns is not looked at.
  A value of length 0 is a string.\<close>

primrec format_all :: "'s ef_world \<Rightarrow> nat list \<Rightarrow> (EfErrCode, 's) run" where
  "format_all W [] = eret EF_NO_ERR"
| "format_all W (addr # addrs) =
     ebind (format_sector W addr SECTOR_NOT_COMBINED) (\<lambda>result. when_ok result (format_all W addrs))"

primrec create_all :: "'s ef_world \<Rightarrow> (byte list \<times> byte list \<times> nat) list \<Rightarrow> (unit, 's) run" where
  "create_all W [] = eret ()"
| "create_all W (d # ds) =
     (case d of (key, value, len) \<Rightarrow>
      ebind (create_env_blob W ((raw_sector W)\<lparr>empty_env := FAILED_ADDR\<rparr>) key (if len = 0 then cstr value else take len value)) (\<lambda>_.
      create_all W ds))"

definition ef_env_set_default :: "'s ef_world \<Rightarrow> (EfErrCode, 's) run" where
  "ef_env_set_default W =
     ebind (eassert (default_env_set W \<noteq> [])) (\<lambda>_.
     ebind (format_all W [EF_START_ADDR, EF_START_ADDR + SECTOR_SIZE]) (\<lambda>result.
     when_ok result (ebind (create_all W (default_env_set W)) (\<lambda>_. eret result))))"

definition check_sec_hdr_cb :: "'s ef_world \<Rightarrow> sector_meta_data \<Rightarrow> nat \<Rightarrow> (bool \<times> nat, 's) run" where
  "check_sec_hdr_cb W sector failed_count =
     (if \<not> check_ok sector
      then ebind (format_sector W (sec_addr sector) SECTOR_NOT_COMBINED) (\<lambda>_. eret (False, failed_count + 1))
      else eret (False, failed_count))"

definition check_and_recovery_gc_cb :: "'s ef_world \<Rightarrow> sector_meta_data \<Rightarrow> unit \<Rightarrow> (bool \<times> unit, 's) run" where
  "check_and_recovery_gc_cb W sector _ =
     (if check_ok sector \<and> dirty_status sector = SECTOR_DIRTY_GC then
        ebind (emod (\<lambda>st. st\<lparr>gc_request := True\<rparr>)) (\<lambda>_.
        ebind (gc_collect W) (\<lambda>_. eret (False, ())))
      else eret (False, ()))"

definition check_and_recovery_env_cb :: "'s ef_world \<Rightarrow> env_node_obj \<Rightarrow> unit \<Rightarrow> (bool \<times> unit, 's) run" where
  "check_and_recovery_env_cb W env _ =
     (if crc_is_ok env \<and> env_status env = ENV_PRE_DELETE then
        ebind (move_env W env) (\<lambda>result. eret (result \<noteq> EF_NO_ERR, ()))
      else if env_status env = ENV_PRE_WRITE then
        ebind (write_status W (start_addr env) ENV_STATUS_NUM ENV_ERR_HDR) (\<lambda>_. eret (True, ()))
      else eret (False, ()))"

text \<open>\<open>__retry\<close>, once for each unit of fuel.\<close>

primrec recovery_loop :: "nat \<Rightarrow> 's ef_world \<Rightarrow> env_node_obj \<Rightarrow> (unit, 's) run" where
  "recovery_loop 0 W env = elift (Inl Diverges)"
| "recovery_loop (Suc fuel) W env =
     ebind (env_iterator W (check_and_recovery_env_cb W) env ()) (\<lambda>(env, _).
     ebind (eget gc_request) (\<lambda>gc.
     if gc then ebind (gc_collect W) (\<lambda>_. recovery_loop fuel W env) else eret ()))"

definition ef_load_env :: "nat \<Rightarrow> 's ef_world \<Rightarrow> (EfErrCode, 's) run" where
  "ef_load_env fuel W =
     ebind (emod (\<lambda>st. st\<lparr>in_recovery_check := True\<rparr>)) (\<lambda>_.
     ebind (sector_iterator W (raw_sector W) SECTOR_STORE_UNUSED 0 (check_sec_hdr_cb W) False) (\<lambda>(sector, check_failed_count).
     ebind (if check_failed_count = SECTOR_NUM then ef_env_set_default W else eret EF_NO_ERR) (\<lambda>_.
     ebind (sector_iterator W sector SECTOR_STORE_UNUSED () (check_and_recovery_gc_cb W) False) (\<lambda>_.
     ebind (recovery_loop fuel W (raw_node W)) (\<lambda>_.
     ebind (emod (\<lambda>st. st\<lparr>in_recovery_check := False\<rparr>)) (\<lambda>_. eret EF_NO_ERR))))))"

definition ef_env_init :: "nat \<Rightarrow> 's ef_world \<Rightarrow> (EfErrCode, 's) run" where
  "ef_env_init fuel W =
     ebind (eget init_ok) (\<lambda>ok.
     if ok then eret EF_NO_ERR
     else
       ebind (emod (\<lambda>st. st\<lparr>sector_cache_table := map (\<lambda>n. n\<lparr>cached_sec := FAILED_ADDR\<rparr>) (sector_cache_table st),
           env_cache_table := map (\<lambda>n. n\<lparr>cached_addr := FAILED_ADDR\<rparr>) (env_cache_table st)\<rparr>)) (\<lambda>_.
       ebind (ef_load_env fuel W) (\<lambda>result.
       ebind (if result = EF_NO_ERR then emod (\<lambda>st. st\<lparr>init_ok := True\<rparr>) else eret ()) (\<lambda>_.
       eret result))))"

text \<open>The static variables before \<open>main\<close>.\<close>

definition zero_node :: env_node_obj where
  "zero_node = \<lparr>env_status = 0, crc_is_ok = False, name_len = 0, env_len = 0, value_len = 0,
     env_name = replicate EF_ENV_NAME_MAX 0, start_addr = 0, value_addr = 0\<rparr>"

definition zero_sector :: sector_meta_data where
  "zero_sector = \<lparr>check_ok = False, store_status = 0, dirty_status = 0, sec_addr = 0, sec_magic = 0, combined = 0,
     remain = 0, empty_env = 0\<rparr>"

definition ef_boot :: "'s \<Rightarrow> 's ef" where
  "ef_boot s = \<lparr>flash_store = s,
     env_cache_table = replicate EF_ENV_CACHE_TABLE_SIZE \<lparr>name_crc = 0, active = 0, cached_addr = 0\<rparr>,
     sector_cache_table = replicate EF_SECTOR_CACHE_TABLE_SIZE \<lparr>cached_sec = 0, empty_addr = 0\<rparr>,
     gc_request = False, in_recovery_check = False, init_ok = False, last_is_complete_del = False,
     set_env_node = zero_node, set_env_sector = zero_sector\<rparr>"

end
