(* ===== verification/Easyflash_Store.thy ===== *)
theory Easyflash_Store
  imports Easyflash
begin

text \<open>
  What the environment store does on a NOR flash that works: the interface to the flash as a locale, then a variable
  from its creation to its being read back.
\<close>

lemma wp_when_ok [wp_simps]: "wp F (when_ok result m) P st = (if result = EF_NO_ERR then wp F m P st else P result st)"
  by (simp add: when_ok_def wp_eret)

section \<open>Memory\<close>

lemma FF_and [simp]: "(0xFF :: byte) AND b = b"
proof -
  have "(0xFF :: byte) = mask 8" by (simp add: mask_eq_exp_minus_1)
  moreover have "mask 8 AND b = b"
    by (rule bit_word_eqI) (simp add: bit_and_iff bit_mask_iff)
  ultimately show ?thesis by (simp only:)
qed

definition bytes_at :: "(nat \<Rightarrow> byte) \<Rightarrow> nat \<Rightarrow> nat \<Rightarrow> byte list" where
  "bytes_at c a n = map c [a..<a + n]"

lemma length_bytes_at [simp]: "length (bytes_at c a n) = n"
  by (simp add: bytes_at_def)

lemma bytes_at_nth [simp]: "i < n \<Longrightarrow> bytes_at c a n ! i = c (a + i)"
  by (simp add: bytes_at_def)

lemma bytes_at_0 [simp]: "bytes_at c a 0 = []"
  by (simp add: bytes_at_def)

lemma bytes_at_eqI: "length xs = n \<Longrightarrow> (\<And>i. i < n \<Longrightarrow> c (a + i) = xs ! i) \<Longrightarrow> bytes_at c a n = xs"
  by (rule nth_equalityI) simp_all

lemma bytes_at_add: "bytes_at c a (m + n) = bytes_at c a m @ bytes_at c (a + m) n"
  by (rule nth_equalityI) (auto simp: nth_append)

lemma take_bytes_at: "k \<le> n \<Longrightarrow> take k (bytes_at c a n) = bytes_at c a k"
  by (rule nth_equalityI) auto

lemma drop_bytes_at: "k \<le> n \<Longrightarrow> drop k (bytes_at c a n) = bytes_at c (a + k) (n - k)"
  by (rule nth_equalityI) (auto simp: add.assoc)

lemma bytes_at_split:
  assumes "bytes_at c a n = xs @ ys"
  shows "bytes_at c a (length xs) = xs" "bytes_at c (a + length xs) (length ys) = ys"
proof -
  have "n = length xs + length ys" using arg_cong[where f = length, OF assms] by simp
  then have "bytes_at c a (length xs) @ bytes_at c (a + length xs) (length ys) = xs @ ys"
    using assms bytes_at_add by metis
  then show "bytes_at c a (length xs) = xs" "bytes_at c (a + length xs) (length ys) = ys" by simp_all
qed

lemma bytes_at_cong: "(\<And>k. a \<le> k \<Longrightarrow> k < a + n \<Longrightarrow> c k = d k) \<Longrightarrow> bytes_at c a n = bytes_at d a n"
  by (rule bytes_at_eqI) auto

text \<open>A write to a NOR flash only clears bits.\<close>

definition burn :: "nat \<Rightarrow> byte list \<Rightarrow> (nat \<Rightarrow> byte) \<Rightarrow> nat \<Rightarrow> byte" where
  "burn a bs c k = (if a \<le> k \<and> k < a + length bs then c k AND bs ! (k - a) else c k)"

definition wipe :: "nat \<Rightarrow> nat \<Rightarrow> (nat \<Rightarrow> byte) \<Rightarrow> nat \<Rightarrow> byte" where
  "wipe a n c k = (if a \<le> k \<and> k < a + n then 0xFF else c k)"

definition blank :: "(nat \<Rightarrow> byte) \<Rightarrow> nat \<Rightarrow> nat \<Rightarrow> bool" where
  "blank c lo hi \<longleftrightarrow> (\<forall>k. lo \<le> k \<and> k < hi \<longrightarrow> c k = 0xFF)"

lemma burn_outside: "k < a \<or> a + length bs \<le> k \<Longrightarrow> burn a bs c k = c k"
  by (auto simp: burn_def)

lemma burn_blank: "blank c lo hi \<Longrightarrow> lo \<le> a \<Longrightarrow> a + length bs \<le> hi \<Longrightarrow> bytes_at (burn a bs c) a (length bs) = bs"
  by (rule bytes_at_eqI) (auto simp: burn_def blank_def)

lemma bytes_at_burn_outside: "b + n \<le> a \<or> a + length bs \<le> b \<Longrightarrow> bytes_at (burn a bs c) b n = bytes_at c b n"
  by (rule bytes_at_cong) (auto simp: burn_def)

lemma blank_burn: "blank c lo hi \<Longrightarrow> hi \<le> a \<or> a + length bs \<le> lo \<Longrightarrow> blank (burn a bs c) lo hi"
  by (auto simp: blank_def burn_def)

lemma blank_mono: "blank c lo hi \<Longrightarrow> lo \<le> lo' \<Longrightarrow> hi' \<le> hi \<Longrightarrow> blank c lo' hi'"
  by (auto simp: blank_def)

section \<open>Status bytes\<close>

text \<open>The byte that is written for a state, and what the reader makes of one that was written several times.\<close>

definition status_byte :: "nat \<Rightarrow> byte" where
  "status_byte k = NOT (drop_bit (k - 1) 0x80)"

lemma status_mask: "i < 8 \<Longrightarrow> drop_bit i (0x80 :: byte) = push_bit (7 - i) 1"
proof -
  assume "i < 8"
  then consider "i = 0" | "i = 1" | "i = 2" | "i = 3" | "i = 4" | "i = 5" | "i = 6" | "i = 7" by linarith
  then show ?thesis by cases (simp_all add: push_bit_eq_mult)
qed

lemma status_clear: "i < 8 \<Longrightarrow> ((b :: byte) AND drop_bit i 0x80 = 0) = (\<not> bit b (7 - i))"
  by (simp only: status_mask bit_iff_and_push_bit_not_eq_0 not_not)

lemma set_status_small:
  assumes "0 < k" "k < n" "n \<le> 9"
  shows "set_status n k = (Some 0, (replicate ((n + 7) div 8) 0xFF)[0 := status_byte k])"
proof -
  have "0 < (n + 7) div 8" using assms by simp
  then have "replicate ((n + 7) div 8) (0xFF :: byte) ! 0 = 0xFF" by (simp only: nth_replicate)
  moreover have "(k - 1) div 8 = 0" "(k - 1) mod 8 = k - 1" using assms by simp_all
  ultimately show ?thesis using assms by (simp add: set_status_def status_byte_def Let_def)
qed

lemma scan_status_write:
  assumes "0 < k" "k \<le> 8" "m \<le> 8"
  shows "scan_status [b AND status_byte k] m = (if k \<le> m then max (scan_status [b] m) k else scan_status [b] m)"
  using assms(3)
proof (induction m)
  case (Suc m)
  have "bit (status_byte k) (7 - m) = (m \<noteq> k - 1)"
    using assms Suc.prems by (auto simp: status_byte_def status_mask bit_not_iff bit_push_bit_iff bit_exp_iff)
  then have "((b AND status_byte k) AND drop_bit m 0x80 = 0) = (b AND drop_bit m 0x80 = 0 \<or> m = k - 1)"
    using Suc.prems by (auto simp: status_clear bit_and_iff)
  moreover have "scan_status [b] m \<le> m" by (induction m) simp_all
  ultimately show ?case using Suc assms(1) by (auto simp: max_def not_le not_less_eq_eq dest: le_antisym)
qed simp

lemma get_status_write:
  "0 < k \<Longrightarrow> k < n \<Longrightarrow> n \<le> 9 \<Longrightarrow> get_status [b AND status_byte k] n = max (get_status [b] n) k"
  by (simp add: get_status_def scan_status_write)

lemma get_status_FF [simp]: "n \<le> 9 \<Longrightarrow> get_status [0xFF] n = 0"
proof -
  have "scan_status [0xFF] m = 0" if "m \<le> 8" for m
    using that
  proof (induction m)
    case (Suc m)
    then have "drop_bit m (0x80 :: byte) = push_bit (7 - m) 1" by (intro status_mask) simp
    moreover have "push_bit (7 - m) (1 :: byte) \<noteq> 0" by (simp add: push_bit_eq_mult)
    ultimately show ?case using Suc by simp
  qed simp
  then show "n \<le> 9 \<Longrightarrow> get_status [0xFF] n = 0" by (simp add: get_status_def)
qed

section \<open>Numbers\<close>

lemma wadd_small [simp]: "a + b < 4294967296 \<Longrightarrow> wadd a b = a + b"
  by (simp add: wadd_def)

lemma wsub_small: "b \<le> a \<Longrightarrow> a < 4294967296 \<Longrightarrow> wsub a b = a - b"
proof -
  assume "b \<le> a" "a < 4294967296"
  then have "wsub a b = (a - b + 4294967296) mod 4294967296" by (simp add: wsub_def)
  also have "\<dots> = a - b" using \<open>a < 4294967296\<close> by (simp only: mod_add_self2) simp
  finally show ?thesis .
qed

lemma length_le_bytes [simp]: "length (le_bytes w) = 4"
  by (simp add: le_bytes_def)

lemma le_word_bytes [simp]: "le_word 0 (le_bytes w @ bs) = w"
proof -
  have t: "(ucast (ucast v :: byte) :: u32) = take_bit 8 v" for v :: u32
    by (rule bit_word_eqI) (simp add: bit_ucast_iff bit_take_bit_iff)
  have "drop_bit 24 w = take_bit 8 (drop_bit 24 w)"
    by (rule bit_word_eqI) (auto simp: bit_take_bit_iff bit_drop_bit_eq dest: bit_imp_le_length)
  moreover have "drop_bit 16 w = push_bit 8 (drop_bit 24 w) + take_bit 8 (drop_bit 16 w)"
    using bits_ident[of 8 "drop_bit 16 w"] by simp
  moreover have "drop_bit 8 w = push_bit 8 (drop_bit 16 w) + take_bit 8 (drop_bit 8 w)"
    using bits_ident[of 8 "drop_bit 8 w"] by simp
  moreover have "w = push_bit 8 (drop_bit 8 w) + take_bit 8 w" using bits_ident[of 8 w] by simp
  ultimately have "w = push_bit 8 (push_bit 8 (push_bit 8 (take_bit 8 (drop_bit 24 w)) + take_bit 8 (drop_bit 16 w)) +
      take_bit 8 (drop_bit 8 w)) + take_bit 8 w"
    by metis
  also have "\<dots> = le_word 0 (le_bytes w @ bs)"
    by (simp add: le_word_def le_bytes_def t push_bit_add ac_simps)
  finally show ?thesis by simp
qed

lemma le_word_append:
  assumes "length xs = k"
  shows "le_word k (xs @ ys) = le_word 0 ys"
proof -
  have "(xs @ ys) ! (k + i) = ys ! i" for i by (simp add: nth_append assms)
  from this[of 0] this[of 1] this[of 2] this[of 3] show ?thesis unfolding le_word_def by (simp only: add_0 add_0_right)
qed

section \<open>The checksum\<close>

lemma ef_calc_crc32_append: "ef_calc_crc32 (ef_calc_crc32 c xs) ys = ef_calc_crc32 c (xs @ ys)"
  by (simp add: ef_calc_crc32_def xor.assoc)

lemma length_raw_array [simp]: "length (raw_array W n) = n"
  by (simp add: raw_array_def)

section \<open>The flash\<close>

text \<open>The contents of the partition are \<open>cells\<close>; reading, writing and erasing inside it succeed.\<close>

definition PART_SIZE :: nat where "PART_SIZE = 524288"

locale nor_port =
  fixes W :: "'s ef_world" and cells :: "'s \<Rightarrow> nat \<Rightarrow> byte"
  assumes port_reads: "addr + length buf \<le> PART_SIZE \<Longrightarrow> port_read W addr buf s = Inr (bytes_at (cells s) addr (length buf))"
    and port_writes: "addr + length bs \<le> PART_SIZE \<Longrightarrow>
      \<exists>s'. port_write W addr bs s = Inr (EF_NO_ERR, s') \<and> cells s' = burn addr bs (cells s)"
    and port_erases: "addr mod SECTOR_SIZE = 0 \<Longrightarrow> addr + SECTOR_SIZE \<le> PART_SIZE \<Longrightarrow>
      \<exists>s'. port_erase W addr SECTOR_SIZE s = Inr (EF_NO_ERR, s') \<and> cells s' = wipe addr SECTOR_SIZE (cells s)"
    and raw_name: "length (env_name (raw_node W)) = EF_ENV_NAME_MAX"
begin

definition mem :: "'s ef \<Rightarrow> nat \<Rightarrow> byte" where "mem st = cells (flash_store st)"

lemma wp_rd: "addr + length buf \<le> PART_SIZE \<Longrightarrow> wp F (rd W addr buf) P st = P (bytes_at (mem st) addr (length buf)) st"
  by (simp add: wp_def rd_def port_reads mem_def)

lemma wp_wr:
  assumes "addr + length bs \<le> PART_SIZE"
    and "\<And>s. cells s = burn addr bs (mem st) \<Longrightarrow> P EF_NO_ERR (st\<lparr>flash_store := s\<rparr>)"
  shows "wp F (wr W addr bs) P st"
  using port_writes[OF assms(1), of "flash_store st"] assms(2) by (auto simp: wp_def wr_def mem_def)

lemma wp_er:
  assumes "addr mod SECTOR_SIZE = 0" "addr + SECTOR_SIZE \<le> PART_SIZE"
    and "\<And>s. cells s = wipe addr SECTOR_SIZE (mem st) \<Longrightarrow> P EF_NO_ERR (st\<lparr>flash_store := s\<rparr>)"
  shows "wp F (er W addr SECTOR_SIZE) P st"
  using port_erases[OF assms(1,2), of "flash_store st"] assms(3) by (auto simp: wp_def er_def mem_def)

lemma mem_store [simp]: "mem (st\<lparr>flash_store := s\<rparr>) = cells s"
  by (simp add: mem_def)

lemma mem_caches [simp]:
  "mem (st\<lparr>env_cache_table := x\<rparr>) = mem st" "mem (st\<lparr>sector_cache_table := y\<rparr>) = mem st"
  "mem (st\<lparr>gc_request := b\<rparr>) = mem st" "mem (st\<lparr>last_is_complete_del := b\<rparr>) = mem st"
  "mem (st\<lparr>set_env_node := e\<rparr>) = mem st" "mem (st\<lparr>set_env_sector := sec\<rparr>) = mem st"
  by (simp_all add: mem_def)

lemma wp_crc_loop:
  assumes "base + N \<le> PART_SIZE" "len \<le> N"
  shows "wp F (crc_loop W base len N c) P st = P (ef_calc_crc32 c (bytes_at (mem st) (base + len) (N - len))) st"
  using assms
proof (induction "N - len" arbitrary: len c rule: less_induct)
  case less
  show ?case
  proof (cases "len < N")
    case False
    then show ?thesis using less.prems
      by (subst crc_loop.simps) (simp add: wp_eret ef_calc_crc32_def xor.assoc)
  next
    case True
    define n where "n = (if len + 32 < N then 32 else N - len)"
    have n: "len + n \<le> N" "0 < n" using True by (auto simp: n_def)
    have w: "wadd base len = base + len" using less.prems by (simp add: PART_SIZE_def)
    have "wp F (crc_loop W base len N c) P st = wp F (crc_loop W base (len + n) N
        (ef_calc_crc32 c (bytes_at (mem st) (base + len) n))) P st"
      using True n less.prems
      by (subst crc_loop.simps) (simp add: wp_simps wp_rd w n_def[symmetric])
    also have "\<dots> = P (ef_calc_crc32 (ef_calc_crc32 c (bytes_at (mem st) (base + len) n))
        (bytes_at (mem st) (base + (len + n)) (N - (len + n)))) st"
      using n less.prems by (intro less.hyps) auto
    also have "bytes_at (mem st) (base + len) n @ bytes_at (mem st) (base + (len + n)) (N - (len + n)) =
        bytes_at (mem st) (base + len) (N - len)"
      using bytes_at_add[of "mem st" "base + len" n "N - (len + n)"] n by (simp add: add.assoc)
    ultimately show ?thesis by (simp add: ef_calc_crc32_append)
  qed
qed

end

section \<open>A stored variable\<close>

definition node_crc :: "byte list \<Rightarrow> byte list \<Rightarrow> u32" where
  "node_crc key value = ef_calc_crc32 0 ([word_of_nat (length key), 0xFF, 0xFF, 0xFF] @ le_bytes (word_of_nat (length value)) @ key @ value)"

definition node_size :: "byte list \<Rightarrow> byte list \<Rightarrow> nat" where
  "node_size key value = 24 + length key + length value"

definition node_bytes :: "byte list \<Rightarrow> byte list \<Rightarrow> byte list" where
  "node_bytes key value = env_hdr_bytes (node_size key value) (node_crc key value) (length key) (length value) @ key @ value"

definition stored :: "(nat \<Rightarrow> byte) \<Rightarrow> nat \<Rightarrow> byte list \<Rightarrow> byte list \<Rightarrow> bool" where
  "stored c a key value \<longleftrightarrow> bytes_at c (a + 4) (node_size key value - 4) = node_bytes key value"

lemma length_env_hdr_bytes [simp]: "length (env_hdr_bytes len crc n v) = 20"
  by (simp add: env_hdr_bytes_def)

lemma length_node_bytes [simp]: "length (node_bytes key value) = 20 + length key + length value"
  by (simp add: node_bytes_def)

lemma le_word_drop: "k + 4 \<le> length bs \<Longrightarrow> le_word k bs = le_word 0 (drop k bs)"
  by (simp add: le_word_def)

lemma hdr_fields:
  assumes "length s = 4"
  shows "le_word 8 (s @ env_hdr_bytes len crc n v) = word_of_nat len"
    and "le_word 12 (s @ env_hdr_bytes len crc n v) = crc"
    and "(s @ env_hdr_bytes len crc n v) ! 16 = word_of_nat n"
    and "le_word 20 (s @ env_hdr_bytes len crc n v) = word_of_nat v"
  using assms le_word_bytes[of "word_of_nat v" "[]"]
  by (simp_all add: le_word_drop[of 8] le_word_drop[of 12] le_word_drop[of 20] env_hdr_bytes_def nth_append)

lemma stored_parts:
  assumes "stored c a key value"
  shows "bytes_at c (a + 4) 20 = env_hdr_bytes (node_size key value) (node_crc key value) (length key) (length value)"
    and "bytes_at c (a + 16) (8 + length key + length value) =
      [word_of_nat (length key), 0xFF, 0xFF, 0xFF] @ le_bytes (word_of_nat (length value)) @ key @ value"
    and "bytes_at c (a + 24) (length key) = key"
    and "bytes_at c (a + (24 + length key)) (length value) = value"
proof -
  have b: "bytes_at c (a + 4) (node_size key value - 4) =
      env_hdr_bytes (node_size key value) (node_crc key value) (length key) (length value) @ key @ value"
    using assms by (simp add: stored_def node_bytes_def)
  show "bytes_at c (a + 4) 20 = env_hdr_bytes (node_size key value) (node_crc key value) (length key) (length value)"
    using bytes_at_split(1)[OF b] by simp
  have kv: "bytes_at c (a + 24) (length key + length value) = key @ value"
    using bytes_at_split(2)[OF b] by (simp add: add.commute)
  show "bytes_at c (a + 24) (length key) = key" using bytes_at_split(1)[OF kv] .
  show "bytes_at c (a + (24 + length key)) (length value) = value" using bytes_at_split(2)[OF kv] by (simp add: ac_simps)
  have d: "bytes_at c (a + 4 + 12) (node_size key value - 4 - 12) = drop 12 (node_bytes key value)"
    using drop_bytes_at[of 12 "node_size key value - 4" c "a + 4"] assms unfolding stored_def
    by (simp add: node_size_def add.assoc)
  then show "bytes_at c (a + 16) (8 + length key + length value) =
      [word_of_nat (length key), 0xFF, 0xFF, 0xFF] @ le_bytes (word_of_nat (length value)) @ key @ value"
    by (simp add: node_size_def node_bytes_def env_hdr_bytes_def add.assoc)
qed

text \<open>What \<open>read_env\<close> makes of it.\<close>

definition node_of :: "env_node_obj \<Rightarrow> (nat \<Rightarrow> byte) \<Rightarrow> nat \<Rightarrow> byte list \<Rightarrow> byte list \<Rightarrow> env_node_obj" where
  "node_of env c a key value = env\<lparr>env_status := get_status [c a] ENV_STATUS_NUM,
     env_len := node_size key value, crc_is_ok := True, env_name := key @ drop (length key) (env_name env),
     value_addr := a + (24 + length key), value_len := length value, name_len := length key\<rparr>"

definition fits :: "byte list \<Rightarrow> byte list \<Rightarrow> bool" where
  "fits key value \<longleftrightarrow> length key \<le> 32 \<and> node_size key value \<le> 4080"

context nor_port
begin

lemma wp_read_env:
  assumes "stored (mem st) a key value" "fits key value" "a + 4096 \<le> PART_SIZE"
    and "length (env_name env) = 32" "start_addr env = a"
  shows "wp F (read_env W env) P st = P (EF_NO_ERR, node_of env (mem st) a key value) st"
proof -
  have le: "length key \<le> 32" "24 + length key + length value \<le> 4080" "a + 4096 \<le> 524288"
    using assms by (simp_all add: fits_def node_size_def PART_SIZE_def)
  have h: "bytes_at (mem st) a 24 = bytes_at (mem st) a 4 @
      env_hdr_bytes (node_size key value) (node_crc key value) (length key) (length value)"
    using bytes_at_add[of "mem st" a 4 20] stored_parts(1)[OF assms(1)] by simp
  have t: "take (Suc 0) (bytes_at (mem st) a 4) = [mem st a]"
    by (subst take_bytes_at) (simp_all add: bytes_at_def)
  have n: "24 \<le> node_size key value" "node_size key value \<le> 4080" "node_size key value - 16 = 8 + length key + length value"
    using le by (simp_all add: node_size_def)
  have u: "unat (word_of_nat (node_size key value) :: u32) = node_size key value"
    "unat (word_of_nat (length value) :: u32) = length value" "unat (word_of_nat (length key) :: byte) = length key"
    using le n unfolding unsigned_of_nat by (simp_all add: take_bit_nat_eq_self)
  have c: "wadd a 16 = a + 16" "wadd a 24 = a + 24" "wadd (a + 24) (length key) = a + (24 + length key)"
    using le by simp_all
  show ?thesis
    unfolding read_env_def
    using assms(3-5) le n
    by (simp add: wp_simps wp_rd PART_SIZE_def h hdr_fields t u Let_def c wp_crc_loop stored_parts[OF assms(1)]
       ENV_STATUS_NUM_def ENV_AREA_SIZE_def ENV_NAME_LEN_OFFSET_def SECTOR_SIZE_def SECTOR_HDR_DATA_SIZE_def
       ENV_HDR_DATA_SIZE_def EF_ENV_NAME_MAX_def node_of_def node_crc_def)
qed

lemma wp_write_status:
  assumes "0 < k" "k < n" "n \<le> 9" "addr < PART_SIZE"
    and "\<And>s. cells s = burn addr [status_byte k] (mem st) \<Longrightarrow> P EF_NO_ERR (st\<lparr>flash_store := s\<rparr>)"
  shows "wp F (write_status W addr n k) P st"
proof -
  have "0 < (n + 7) div 8" using assms(1,2) by simp
  moreover have "wadd addr 0 = addr" using assms(4) by (simp add: PART_SIZE_def)
  ultimately show ?thesis
    unfolding write_status_def using assms
    by (simp add: wp_simps set_status_small[OF assms(1-3)] wp_wr)
qed

lemma wp_read_status:
  assumes "0 < n" "n \<le> 8" "addr < PART_SIZE"
  shows "wp F (read_status W addr n) P st = P (get_status [mem st addr] n) st"
proof -
  have "(n + 7) div 8 = 1" using assms by auto
  moreover have "scan_status (bytes_at (mem st) addr 1) k = scan_status [mem st addr] k" if "k \<le> 8" for k
    using that by (induction k) auto
  ultimately show ?thesis using assms
    by (simp add: read_status_def wp_simps wp_rd PART_SIZE_def get_status_def)
qed

end

text \<open>The sector after a node of \<open>n\<close> bytes: whether it is full, and its status byte.\<close>

definition fills :: "sector_meta_data \<Rightarrow> nat \<Rightarrow> bool" where
  "fills sector n \<longleftrightarrow> store_status sector = SECTOR_STORE_USING \<and>
     (remain sector < EF_SEC_REMAIN_THRESHOLD \<or> wsub (remain sector) n < EF_SEC_REMAIN_THRESHOLD)"

definition mark :: "sector_meta_data \<Rightarrow> nat \<Rightarrow> (nat \<Rightarrow> byte) \<Rightarrow> nat \<Rightarrow> byte" where
  "mark sector n c =
     (if store_status sector = SECTOR_STORE_EMPTY then burn (sec_addr sector) [status_byte SECTOR_STORE_USING] c
      else if fills sector n then burn (sec_addr sector) [status_byte SECTOR_STORE_FULL] c else c)"

definition drop_sector :: "nat \<Rightarrow> sector_cache_node list \<Rightarrow> sector_cache_node list" where
  "drop_sector sec t = sector_cache_loop [0..<EF_SECTOR_CACHE_TABLE_SIZE] sec (wadd sec SECTOR_SIZE) None t"

definition put_sector :: "nat \<Rightarrow> nat \<Rightarrow> sector_cache_node list \<Rightarrow> sector_cache_node list" where
  "put_sector sec addr t = sector_cache_loop [0..<EF_SECTOR_CACHE_TABLE_SIZE] sec addr None t"

definition put_env :: "byte list \<Rightarrow> nat \<Rightarrow> env_cache_node list \<Rightarrow> env_cache_node list" where
  "put_env name addr t = env_cache_loop [0..<EF_ENV_CACHE_TABLE_SIZE] (name_code name) addr None None 0xFFFF t"

lemmas ef_states = SECTOR_STORE_UNUSED_def SECTOR_STORE_EMPTY_def SECTOR_STORE_USING_def SECTOR_STORE_FULL_def
  SECTOR_STORE_STATUS_NUM_def SECTOR_DIRTY_FALSE_def SECTOR_DIRTY_TRUE_def SECTOR_DIRTY_GC_def
  SECTOR_DIRTY_STATUS_NUM_def ENV_PRE_WRITE_def ENV_WRITE_def ENV_PRE_DELETE_def ENV_DELETED_def ENV_ERR_HDR_def
  ENV_STATUS_NUM_def

context nor_port
begin

lemma wp_update_sec_status:
  assumes "sec_addr sector < PART_SIZE"
    and "\<And>s. cells s = mark sector n (mem st) \<Longrightarrow>
      P (EF_NO_ERR, fills sector n)
        (st\<lparr>flash_store := s, sector_cache_table :=
           (if fills sector n then drop_sector (sec_addr sector) (sector_cache_table st) else sector_cache_table st)\<rparr>)"
  shows "wp F (update_sec_status W sector n False) P st"
proof -
  have f: "fills sector n \<Longrightarrow> store_status sector = SECTOR_STORE_USING" by (simp add: fills_def)
  have m: "cells (flash_store st) = mem st" by (simp add: mem_def)
  have i: "st\<lparr>flash_store := flash_store st, sector_cache_table := sector_cache_table st\<rparr> = st" by simp
  consider "store_status sector = SECTOR_STORE_EMPTY" | "fills sector n"
    | "store_status sector \<noteq> SECTOR_STORE_EMPTY" "\<not> fills sector n" by blast
  then show ?thesis
  proof cases
    case 1
    then have "\<not> fills sector n" using f by (auto simp: ef_states)
    then show ?thesis unfolding update_sec_status_def using 1 assms
      by (auto simp: wp_simps ef_states mark_def intro!: wp_write_status)
  next
    case 2
    then show ?thesis unfolding update_sec_status_def using f[OF 2] assms
      by (auto simp: wp_simps ef_states mark_def fills_def update_sector_cache_def drop_sector_def intro!: wp_write_status)
  next
    case 3
    then show ?thesis unfolding update_sec_status_def using assms(2)[of "flash_store st"]
      by (auto simp: wp_simps mark_def fills_def m i)
  qed
qed

end

text \<open>The flash after a node has been written into a blank place.\<close>

definition put_node :: "nat \<Rightarrow> byte list \<Rightarrow> byte list \<Rightarrow> (nat \<Rightarrow> byte) \<Rightarrow> nat \<Rightarrow> byte" where
  "put_node a key value c =
     burn a [status_byte ENV_WRITE] (burn (a + (24 + length key)) value (burn (a + 24) key
       (burn (a + 4) (env_hdr_bytes (node_size key value) (node_crc key value) (length key) (length value))
         (burn a [status_byte ENV_PRE_WRITE] c))))"

lemma put_node_stored:
  assumes "blank c a (a + node_size key value)"
  shows "stored (put_node a key value c) a key value"
    and "get_status [put_node a key value c a] ENV_STATUS_NUM = ENV_WRITE"
    and "k < a \<or> a + node_size key value \<le> k \<Longrightarrow> put_node a key value c k = c k"
proof -
  let ?h = "env_hdr_bytes (node_size key value) (node_crc key value) (length key) (length value)"
  let ?c = "put_node a key value c"
  have n: "node_size key value = 24 + length key + length value" by (simp add: node_size_def)
  have "bytes_at ?c (a + 4) 20 = ?h" "bytes_at ?c (a + 4 + 20) (length key) = key"
    "bytes_at ?c (a + 4 + 20 + length key) (length value) = value"
    using assms unfolding put_node_def
    by (auto simp: burn_def blank_def n intro!: bytes_at_eqI)
  then show "stored ?c a key value"
    unfolding stored_def node_bytes_def using bytes_at_add[of ?c "a + 4" 20 "length key + length value"]
      bytes_at_add[of ?c "a + 4 + 20" "length key" "length value"]
    by (simp add: n)
  have "?c a = 0xFF AND status_byte ENV_PRE_WRITE AND status_byte ENV_WRITE"
    using assms unfolding put_node_def by (simp add: burn_def blank_def n)
  then show "get_status [?c a] ENV_STATUS_NUM = ENV_WRITE"
    by (simp only: and.assoc[symmetric])
      (simp add: ef_states get_status_write del: FF_and)
  show "?c k = c k" if "k < a \<or> a + node_size key value \<le> k"
    using that unfolding put_node_def by (auto simp: burn_def n)
qed

context nor_port
begin

lemma wp_create_env_blob:
  assumes "fits key value" "sec_addr sector < a" "a + 4096 \<le> PART_SIZE" "empty_env sector = a"
    and "\<And>s. cells s = put_node a key value (mark sector (node_size key value) (mem st)) \<Longrightarrow>
      P EF_NO_ERR (st\<lparr>flash_store := s,
        sector_cache_table := (if fills sector (node_size key value) then drop_sector (sec_addr sector) (sector_cache_table st)
           else put_sector (sec_addr sector) (a + node_size key value) (sector_cache_table st)),
        env_cache_table := put_env key a (env_cache_table st),
        gc_request := (gc_request st \<or> fills sector (node_size key value))\<rparr>)"
  shows "wp F (create_env_blob W sector key value) P st"
proof -
  have le: "length key \<le> 32" "24 + length key + length value \<le> 4080" "a + 4096 \<le> 524288"
    using assms by (simp_all add: fits_def node_size_def PART_SIZE_def)
  have n: "wadd (wadd ENV_HDR_DATA_SIZE (length key)) (length value) = node_size key value" 
    "wadd (wadd a ENV_HDR_DATA_SIZE) (length key) = a + (24 + length key)" "wadd a ENV_HDR_DATA_SIZE = a + 24"
    "wadd (a + (24 + length key)) (length value) = a + node_size key value" "wadd a ENV_MAGIC_OFFSET = a + 4"
    using le by (simp_all add: ENV_HDR_DATA_SIZE_def ENV_MAGIC_OFFSET_def node_size_def)
  have m: "node_size key value \<le> 4080" "node_size key value = 24 + length key + length value"
    using le by (simp_all add: node_size_def)
  have crc: "ef_calc_crc32 (ef_calc_crc32 (ef_calc_crc32 0 (drop 12 (env_hdr_bytes len x (length key) (length value)))) key) value
      = node_crc key value" for len x
    by (simp add: env_hdr_bytes_def node_crc_def ef_calc_crc32_append)
  have d: "EF_ENV_NAME_MAX = 32" "SECTOR_SIZE - SECTOR_HDR_DATA_SIZE = 4080" "a \<noteq> FAILED_ADDR"
    using le by (simp_all add: EF_ENV_NAME_MAX_def SECTOR_SIZE_def SECTOR_HDR_DATA_SIZE_def FAILED_ADDR_def)
  have st: "0 < ENV_PRE_WRITE" "ENV_PRE_WRITE < ENV_STATUS_NUM" "ENV_STATUS_NUM \<le> 9" "0 < ENV_WRITE" "ENV_WRITE < ENV_STATUS_NUM"
    by (simp_all add: ef_states)
  have r: "a + 4 + 20 \<le> PART_SIZE" "a + 24 + length key \<le> PART_SIZE" "a + (24 + length key) + length value \<le> PART_SIZE"
    "a < PART_SIZE" "sec_addr sector < PART_SIZE"
    using le assms(2) by (simp_all add: PART_SIZE_def)
  have g: "\<not> 32 < length key" "\<not> 4080 < node_size key value" using le m by simp_all
  have w: "wadd (a + 24) (length key) = a + (24 + length key)" using le by simp
  note s = wp_simps n w crc d assms(4) g update_sector_cache_def update_env_cache_def
  show ?thesis
    unfolding create_env_blob_def write_env_hdr_def align_write_def Let_def n crc
    apply (simp add: s)
    apply (rule wp_update_sec_status[OF r(5)])
    apply (simp add: s)
    apply (rule conjI; rule impI)
    apply (rule wp_write_status[OF st(1-3) r(4)], simp add: s, (rule wp_wr, use le in \<open>simp add: PART_SIZE_def\<close>, simp add: s)+,
        rule wp_write_status[OF st(4,5,3) r(4)], simp add: s)
    apply (rule back_subst[of "P EF_NO_ERR", OF assms(5)])
     apply (unfold put_node_def, assumption)
    apply (cases st, simp add: put_env_def drop_sector_def put_sector_def)
    apply (rule wp_write_status[OF st(1-3) r(4)], simp add: s, (rule wp_wr, use le in \<open>simp add: PART_SIZE_def\<close>, simp add: s)+,
        rule wp_write_status[OF st(4,5,3) r(4)], simp add: s)
    apply (rule back_subst[of "P EF_NO_ERR", OF assms(5)])
     apply (unfold put_node_def, assumption)
    apply (cases st, simp add: put_env_def drop_sector_def put_sector_def)
    done
qed

end

end
