(* ===== verification/Easyflash_Cache.thy ===== *)
theory Easyflash_Cache
  imports Easyflash_Store
begin

text \<open>
  The two caches of the environment store. An entry of the variable cache has 16 bits of the checksum of a name and an
  address; the rules here say which entry an update goes to and that a look-up finds it.
\<close>

section \<open>The variable cache\<close>

text \<open>The entry a name has: the first one with its code.\<close>

definition cached :: "env_cache_node list \<Rightarrow> u16 \<Rightarrow> nat option" where
  "cached t code = map_option cached_addr (find (\<lambda>n. name_crc n = code) t)"

text \<open>Behind an entry with a code no other one with that code is in use.\<close>

definition codes_once :: "env_cache_node list \<Rightarrow> bool" where
  "codes_once t \<longleftrightarrow> (\<forall>i j. i < j \<longrightarrow> j < length t \<longrightarrow> name_crc (t ! i) = name_crc (t ! j) \<longrightarrow> cached_addr (t ! j) = FAILED_ADDR)"

lemma find_first:
  "i < length t \<Longrightarrow> Q (t ! i) \<Longrightarrow> (\<And>j. j < i \<Longrightarrow> \<not> Q (t ! j)) \<Longrightarrow> find Q t = Some (t ! i)"
proof (induction t arbitrary: i)
  case (Cons x t)
  show ?case
  proof (cases i)
    case (Suc j)
    have "\<not> Q x" using Cons.prems(3)[of 0] Suc by simp
    moreover have "find Q t = Some (t ! j)"
      using Cons.prems Suc by (intro Cons.IH) force+
    ultimately show ?thesis using Suc by simp
  qed (use Cons.prems in simp)
qed simp

text \<open>One step of the aging of the entries an update passes by.\<close>

definition aged :: "env_cache_node list \<Rightarrow> env_cache_node list \<Rightarrow> bool" where
  "aged t u \<longleftrightarrow> length u = length t \<and>
     (\<forall>i<length t. name_crc (u ! i) = name_crc (t ! i) \<and> cached_addr (u ! i) = cached_addr (t ! i))"

lemma aged_refl: "aged t t" by (simp add: aged_def)

lemma aged_step: "aged t u \<Longrightarrow> i < length t \<Longrightarrow> aged t (u[i := (u ! i)\<lparr>active := x\<rparr>])"
  by (auto simp: aged_def nth_list_update)

definition goes_to :: "env_cache_node list \<Rightarrow> u16 \<Rightarrow> nat \<Rightarrow> env_cache_node list \<Rightarrow> bool" where
  "goes_to t code addr r \<longleftrightarrow> (\<exists>i v u. i < length t \<and> aged t u \<and> r = u[i := v] \<and> name_crc v = code \<and> cached_addr v = addr \<and>
     (\<forall>j<i. name_crc (t ! j) \<noteq> code) \<and> (name_crc (t ! i) = code \<or> (\<forall>j<length t. name_crc (t ! j) \<noteq> code)))"

lemma goes_toI:
  "i < length t \<Longrightarrow> aged t u \<Longrightarrow> name_crc v = code \<Longrightarrow> cached_addr v = addr \<Longrightarrow> (\<And>j. j < i \<Longrightarrow> name_crc (t ! j) \<noteq> code) \<Longrightarrow>
   name_crc (t ! i) = code \<or> (\<forall>j<length t. name_crc (t ! j) \<noteq> code) \<Longrightarrow> goes_to t code addr (u[i := v])"
  unfolding goes_to_def by blast

lemma env_cache_loop_put:
  assumes "addr \<noteq> FAILED_ADDR" "aged t u" "k \<le> length t"
    and "\<And>j. j < k \<Longrightarrow> name_crc (t ! j) \<noteq> code" "\<And>e. ei = Some e \<Longrightarrow> e < k" "\<And>m. mi = Some m \<Longrightarrow> m < k"
    and "k = 0 \<or> ei \<noteq> None \<or> mi \<noteq> None" "mi = None \<Longrightarrow> ma = 0xFFFF" "0 < length t"
  shows "goes_to t code addr (env_cache_loop [k..<length t] code addr ei mi ma u)"
  using assms(2-8)
proof (induction "length t - k" arbitrary: k ei mi ma u)
  case 0
  then have k: "k = length t" by simp
  then obtain i where i: "ei = Some i \<or> ei = None \<and> mi = Some i" using 0(7) assms(9) by (cases ei; cases mi) auto
  then have "i < k" using 0(5,6) by auto
  then have nc: "name_crc (t ! j) \<noteq> code" if "j < i" for j using that 0(4) by simp
  have "goes_to t code addr (u[i := \<lparr>name_crc = code, active = 0, cached_addr = addr\<rparr>])"
    using 0(2,4) k \<open>i < k\<close> nc by (intro goes_toI) auto
  then show ?case using i k by (cases ei) simp_all
next
  case (Suc d)
  then have k: "k < length t" "[k..<length t] = k # [Suc k..<length t]" by (simp_all add: upt_rec)
  have u: "length u = length t" "name_crc (u ! k) = name_crc (t ! k)" "cached_addr (u ! k) = cached_addr (t ! k)"
    using Suc.prems(1) k(1) by (simp_all add: aged_def)
  note prems = Suc.prems
  show ?case
  proof (cases "name_crc (t ! k) = code")
    case True
    then show ?thesis using prems k u assms(1) by (auto intro!: goes_toI)
  next
    case False
    have less: "name_crc (t ! j) \<noteq> code" if "j < Suc k" for j using that False prems(3) by (cases "j = k") auto
    note IH = Suc.hyps(1)[where k = "Suc k"]
    have d: "d = length t - Suc k" using Suc.hyps(2) by simp
    show ?thesis
    proof (cases "cached_addr (t ! k) = FAILED_ADDR")
      case F: True
      have "goes_to t code addr (env_cache_loop [Suc k..<length t] code addr (if ei = None then Some k else ei) mi ma u)"
        using d prems k(1) by (intro IH less) (auto simp: less_Suc_eq split: if_splits)
      then show ?thesis using k u F False assms(1) by (cases ei) simp_all
    next
      case F: False
      define u' where "u' = (if active (u ! k) > 0 then u[k := (u ! k)\<lparr>active := active (u ! k) - 1\<rparr>] else u)"
      have u': "aged t u'" using prems(1) k(1) aged_step by (auto simp: u'_def)
      have lt: "mi \<noteq> None \<or> active (u' ! k) < ma"
      proof (cases mi)
        case None
        have m: "active (u ! k) \<le> 0xFFFF" using unsigned_less[of "active (u ! k)", where ?'a = nat] by (simp add: word_le_nat_alt)
        have "active (u ! k) - 1 < 0xFFFF" if "0 < active (u ! k)"
        proof -
          have "active (u ! k) \<noteq> 0" using that by auto
          from unat_minus_one[OF this] show ?thesis using m that by (simp add: word_less_nat_alt word_le_nat_alt)
        qed
        then have "active (u' ! k) < 0xFFFF" using k(1) u(1) by (auto simp: u'_def word_gt_0)
        then show ?thesis using prems(7) None by simp
      qed simp
      have "goes_to t code addr (env_cache_loop [Suc k..<length t] code addr ei
          (if active (u' ! k) < ma then Some k else mi) (if active (u' ! k) < ma then active (u' ! k) else ma) u')"
        using d prems(4-7) k(1) lt by (intro IH less u') (auto simp: less_Suc_eq split: if_splits)
      then show ?thesis using k u F False assms(1) by (simp add: Let_def u'_def[symmetric] split: if_splits)
    qed
  qed
qed

lemma put_env_goes:
  "addr \<noteq> FAILED_ADDR \<Longrightarrow> length t = EF_ENV_CACHE_TABLE_SIZE \<Longrightarrow> goes_to t (name_code name) addr (put_env name addr t)"
  unfolding put_env_def
  using env_cache_loop_put[of addr t t 0 "name_code name" None None] by (simp add: aged_refl EF_ENV_CACHE_TABLE_SIZE_def)

lemma goes_to_length: "goes_to t code addr r \<Longrightarrow> length r = length t"
  by (auto simp: goes_to_def aged_def)

lemma goes_to_entry:
  assumes "goes_to t code addr r" "j < length t" "cached_addr (r ! j) \<noteq> FAILED_ADDR"
  shows "name_crc (r ! j) = code \<and> cached_addr (r ! j) = addr \<or>
    name_crc (r ! j) = name_crc (t ! j) \<and> cached_addr (r ! j) = cached_addr (t ! j)"
proof -
  obtain i v u where "i < length t" "aged t u" "r = u[i := v]" "name_crc v = code" "cached_addr v = addr"
    using assms(1) unfolding goes_to_def by blast
  then show ?thesis using assms(2) by (cases "j = i") (auto simp: aged_def)
qed

lemma goes_to_cached: "goes_to t code addr r \<Longrightarrow> cached r code = Some addr"
proof -
  assume "goes_to t code addr r"
  then obtain i v u where i: "i < length t" "aged t u" "r = u[i := v]" "name_crc v = code" "cached_addr v = addr"
    "\<forall>j<i. name_crc (t ! j) \<noteq> code" unfolding goes_to_def by blast
  then have "find (\<lambda>n. name_crc n = code) r = Some (r ! i)"
    by (intro find_first) (auto simp: aged_def)
  then show ?thesis using i by (simp add: cached_def aged_def)
qed

lemma goes_to_once:
  assumes "goes_to t code addr r" "codes_once t"
  shows "codes_once r"
proof -
  obtain i v u where r: "i < length t" "aged t u" "r = u[i := v]" "name_crc v = code"
    "\<forall>j<i. name_crc (t ! j) \<noteq> code" "name_crc (t ! i) = code \<or> (\<forall>j<length t. name_crc (t ! j) \<noteq> code)"
    using assms(1) unfolding goes_to_def by blast
  show ?thesis
    unfolding codes_once_def
  proof (intro allI impI)
    fix a b assume ab: "a < b" "b < length r" "name_crc (r ! a) = name_crc (r ! b)"
    then have l: "a < length t" "b < length t" using r by (simp_all add: aged_def)
    have e: "name_crc (r ! j) = (if j = i then code else name_crc (t ! j))"
      "j \<noteq> i \<Longrightarrow> cached_addr (r ! j) = cached_addr (t ! j)" if "j < length t" for j
      using r that by (auto simp: aged_def)
    have once: "name_crc (t ! x) = name_crc (t ! b) \<Longrightarrow> x < b \<Longrightarrow> cached_addr (t ! b) = FAILED_ADDR" for x
      using assms(2) l unfolding codes_once_def by blast
    show "cached_addr (r ! b) = FAILED_ADDR"
    proof (cases "b = i")
      case True
      then show ?thesis using ab(1,3) e(1)[OF l(1)] e(1)[OF l(2)] r(5) by simp
    next
      case b: False
      then have "cached_addr (r ! b) = cached_addr (t ! b)" "name_crc (r ! b) = name_crc (t ! b)" using e l by simp_all
      moreover have "name_crc (t ! (if a = i then i else a)) = name_crc (t ! b)"
        using ab(3) e(1)[OF l(1)] e(1)[OF l(2)] b r(6) l by (auto split: if_splits)
      ultimately show ?thesis using once[of a] ab(1) by (auto split: if_splits)
    qed
  qed
qed

text \<open>Dropping a name: the entry with its code, if there is one.\<close>

lemma env_cache_loop_drop:
  assumes "k \<le> length t" "\<And>j. j < k \<Longrightarrow> name_crc (t ! j) \<noteq> code"
  shows "(\<forall>j<length t. name_crc (t ! j) \<noteq> code) \<and> env_cache_loop [k..<length t] code FAILED_ADDR None None ma t = t \<or>
    (\<exists>i<length t. name_crc (t ! i) = code \<and> (\<forall>j<i. name_crc (t ! j) \<noteq> code) \<and>
       env_cache_loop [k..<length t] code FAILED_ADDR None None ma t = t[i := (t ! i)\<lparr>cached_addr := FAILED_ADDR, active := 0\<rparr>])"
  using assms
proof (induction "length t - k" arbitrary: k)
  case 0
  then show ?case by simp
next
  case (Suc d)
  then have k: "k < length t" "[k..<length t] = k # [Suc k..<length t]" by (simp_all add: upt_rec)
  show ?case
  proof (cases "name_crc (t ! k) = code")
    case True
    then show ?thesis using k Suc.prems by auto
  next
    case False
    then have "name_crc (t ! j) \<noteq> code" if "j < Suc k" for j using that Suc.prems(2) by (cases "j = k") auto
    then show ?thesis using Suc.hyps(1)[of "Suc k"] Suc.hyps(2) k False by simp
  qed
qed

definition drop_env :: "byte list \<Rightarrow> env_cache_node list \<Rightarrow> env_cache_node list" where
  "drop_env name t = env_cache_loop [0..<EF_ENV_CACHE_TABLE_SIZE] (name_code name) FAILED_ADDR None None 0xFFFF t"

lemma drop_env_cases:
  assumes "length t = EF_ENV_CACHE_TABLE_SIZE"
  obtains "\<And>j. j < length t \<Longrightarrow> name_crc (t ! j) \<noteq> name_code name" "drop_env name t = t"
  | i where "i < length t" "name_crc (t ! i) = name_code name" "\<And>j. j < i \<Longrightarrow> name_crc (t ! j) \<noteq> name_code name"
      "drop_env name t = t[i := (t ! i)\<lparr>cached_addr := FAILED_ADDR, active := 0\<rparr>]"
  using env_cache_loop_drop[of 0 t "name_code name"] assms unfolding drop_env_def by auto

lemma length_drop_env [simp]: "length t = EF_ENV_CACHE_TABLE_SIZE \<Longrightarrow> length (drop_env name t) = length t"
  by (erule drop_env_cases[of t name]) simp_all

lemma drop_env_entry:
  assumes "length t = EF_ENV_CACHE_TABLE_SIZE" "codes_once t" "j < length t" "cached_addr (drop_env name t ! j) \<noteq> FAILED_ADDR"
  shows "drop_env name t ! j = t ! j" "name_crc (t ! j) \<noteq> name_code name"
proof -
  have "drop_env name t ! j = t ! j \<and> name_crc (t ! j) \<noteq> name_code name"
  proof (rule drop_env_cases[OF assms(1), of name])
    fix i assume i: "i < length t" "name_crc (t ! i) = name_code name" "\<And>j. j < i \<Longrightarrow> name_crc (t ! j) \<noteq> name_code name"
      "drop_env name t = t[i := (t ! i)\<lparr>cached_addr := FAILED_ADDR, active := 0\<rparr>]"
    then have ne: "j \<noteq> i" using assms(3,4) by auto
    then have d: "drop_env name t ! j = t ! j" using i by simp
    have "name_crc (t ! j) \<noteq> name_code name"
    proof
      assume c: "name_crc (t ! j) = name_code name"
      then have "i < j" using i(3)[of j] ne by force
      then show False using assms(2-4) i(2) c d unfolding codes_once_def by metis
    qed
    then show ?thesis using d by simp
  qed (use assms(3) in auto)
  then show "drop_env name t ! j = t ! j" "name_crc (t ! j) \<noteq> name_code name" by simp_all
qed

lemma drop_env_once:
  assumes "length t = EF_ENV_CACHE_TABLE_SIZE" "codes_once t"
  shows "codes_once (drop_env name t)"
proof (rule drop_env_cases[OF assms(1), of name])
  fix i assume i: "i < length t" "name_crc (t ! i) = name_code name"
    "drop_env name t = t[i := (t ! i)\<lparr>cached_addr := FAILED_ADDR, active := 0\<rparr>]"
  show ?thesis
    using assms(2) i unfolding codes_once_def by (auto simp: nth_list_update)
qed (use assms(2) in simp)

section \<open>Looking up\<close>

lemma same_chars_prefix: "length key \<le> length bs \<Longrightarrow> take (length key) bs = key \<Longrightarrow> same_chars key bs = Inr True"
  by (induction key bs rule: same_chars.induct) auto

lemma same_chars_other:
  "0 \<notin> set key \<Longrightarrow> length key \<le> length bs \<Longrightarrow> take (length key) bs \<noteq> key \<Longrightarrow> same_chars key bs = Inr False"
  by (induction key bs rule: same_chars.induct) auto

definition touch :: "nat \<Rightarrow> env_cache_node list \<Rightarrow> env_cache_node list" where
  "touch i t = t[i := (t ! i)\<lparr>active := (if active (t ! i) \<ge> 0xFFFF - of_nat EF_ENV_CACHE_TABLE_SIZE then 0xFFFF
     else active (t ! i) + of_nat EF_ENV_CACHE_TABLE_SIZE)\<rparr>]"

lemma length_touch [simp]: "length (touch i t) = length t"
  by (simp add: touch_def)

lemma touch_aged: "i < length t \<Longrightarrow> aged t (touch i t)"
  unfolding touch_def by (intro aged_step aged_refl)

lemma aged_once: "aged t u \<Longrightarrow> codes_once t \<Longrightarrow> codes_once u"
  by (auto simp: codes_once_def aged_def)

context nor_port
begin

lemma wp_cache_hit:
  assumes "length (env_cache_table st) = EF_ENV_CACHE_TABLE_SIZE" "k \<le> i" "i < EF_ENV_CACHE_TABLE_SIZE"
    and "\<And>j. j < i \<Longrightarrow> name_crc (env_cache_table st ! j) \<noteq> name_code name"
    and "name_crc (env_cache_table st ! i) = name_code name" "cached_addr (env_cache_table st ! i) = a" "a \<noteq> FAILED_ADDR"
    and "a + 4096 \<le> PART_SIZE" "length name \<le> 32" "bytes_at (mem st) (a + 24) (length name) = name"
  shows "wp F (env_from_cache_loop W name [k..<EF_ENV_CACHE_TABLE_SIZE]) P st =
    P (Some a) (st\<lparr>env_cache_table := touch i (env_cache_table st)\<rparr>)"
  using assms(2)
proof (induction "i - k" arbitrary: k)
  case 0
  then have k: "k = i" "[i..<EF_ENV_CACHE_TABLE_SIZE] = i # [Suc i..<EF_ENV_CACHE_TABLE_SIZE]"
    using assms(3) by (simp_all add: upt_rec)
  have "wadd a ENV_HDR_DATA_SIZE = a + 24" using assms(8) by (simp add: ENV_HDR_DATA_SIZE_def PART_SIZE_def)
  moreover have "same_chars name (bytes_at (mem st) (a + 24) 32) = Inr True"
    using assms(9,10) by (intro same_chars_prefix) (simp_all add: take_bytes_at)
  ultimately show ?case using assms k
    by (simp add: wp_simps wp_rd EF_ENV_NAME_MAX_def touch_def)
next
  case (Suc d)
  then have "[k..<EF_ENV_CACHE_TABLE_SIZE] = k # [Suc k..<EF_ENV_CACHE_TABLE_SIZE]" "k < i"
    using assms(3) by (simp_all add: upt_rec)
  then show ?case using Suc assms(4)[of k] by (simp add: wp_simps)
qed

lemma wp_find_env_hit:
  assumes "length (env_cache_table st) = EF_ENV_CACHE_TABLE_SIZE" "cached (env_cache_table st) (name_code key) = Some a"
    and "stored (mem st) a key value" "fits key value" "a + 4096 \<le> PART_SIZE" "length (env_name env) = 32"
    and "\<And>i. i < EF_ENV_CACHE_TABLE_SIZE \<Longrightarrow> P (True, node_of (env\<lparr>start_addr := a\<rparr>) (mem st) a key value)
      (st\<lparr>env_cache_table := touch i (env_cache_table st)\<rparr>)"
  shows "wp F (find_env W key env) P st"
proof -
  let ?t = "env_cache_table st"
  obtain i where i: "i < length ?t" "name_crc (?t ! i) = name_code key" "cached_addr (?t ! i) = a"
    "\<And>j. j < i \<Longrightarrow> name_crc (?t ! j) \<noteq> name_code key"
    using assms(2) unfolding cached_def by (auto simp: find_Some_iff)
  have "a \<noteq> FAILED_ADDR" using assms(5) by (simp add: PART_SIZE_def FAILED_ADDR_def)
  moreover have "length key \<le> 32" using assms(4) by (simp add: fits_def)
  ultimately show ?thesis
    unfolding find_env_def get_env_from_cache_def
    using i assms stored_parts(3)[OF assms(3)]
    by (simp add: wp_simps wp_cache_hit[where i = i] wp_read_env)
qed

end

end
