(* ===== verification/Easyflash_Walk.thy ===== *)
theory Easyflash_Walk
  imports Easyflash_Cache
begin

text \<open>
  A sector whose variables lie one behind the other, and the walks of the code over it: from node to node, over the
  header, and to the place where the next variable goes.
\<close>

section \<open>Nodes one behind the other\<close>

type_synonym node = "byte list \<times> byte list \<times> nat"

fun node_len :: "node \<Rightarrow> nat" where "node_len (k, v, s) = node_size k v"

definition span :: "node list \<Rightarrow> nat" where
  "span ns = sum_list (map node_len ns)"

lemma span_simps [simp]: "span [] = 0" "span ((k, v, s) # ns) = node_size k v + span ns" "span (xs @ ys) = span xs + span ys"
  by (simp_all add: span_def)

fun laid :: "(nat \<Rightarrow> byte) \<Rightarrow> nat \<Rightarrow> node list \<Rightarrow> bool" where
  "laid c a [] = True"
| "laid c a ((k, v, s) # ns) = (stored c a k v \<and> fits k v \<and> 0 \<notin> set k \<and> get_status [c a] ENV_STATUS_NUM = s \<and>
     (s = ENV_WRITE \<or> s = ENV_PRE_DELETE \<or> s = ENV_DELETED) \<and> laid c (a + node_size k v) ns)"

lemma laid_append [simp]: "laid c a (xs @ ys) = (laid c a xs \<and> laid c (a + span xs) ys)"
  by (induction c a xs rule: laid.induct) (auto simp: add.assoc)

lemma laid_cong: "(\<And>k. a \<le> k \<Longrightarrow> k < a + span ns \<Longrightarrow> c k = d k) \<Longrightarrow> laid c a ns = laid d a ns"
proof (induction c a ns rule: laid.induct)
  case (2 c a k v s ns)
  have n: "24 \<le> node_size k v" by (simp add: node_size_def)
  have "c a = d a" using 2(2)[of a] n by simp
  moreover have "stored c a k v = stored d a k v"
    unfolding stored_def using 2(2) n by (subst bytes_at_cong[where d = d]) auto
  moreover have "laid c (a + node_size k v) ns = laid d (a + node_size k v) ns"
    using 2 by (intro 2(1)) auto
  ultimately show ?case by simp
qed simp

section \<open>A sector\<close>

definition sec_cached :: "sector_cache_node list \<Rightarrow> nat \<Rightarrow> nat option" where
  "sec_cached t sec = map_option empty_addr (find (\<lambda>n. cached_sec n = sec) t)"

definition sec_store :: "(nat \<Rightarrow> byte) \<Rightarrow> nat \<Rightarrow> nat" where
  "sec_store c sec = get_status [c sec] SECTOR_STORE_STATUS_NUM"

definition sec_dirty :: "(nat \<Rightarrow> byte) \<Rightarrow> nat \<Rightarrow> nat" where
  "sec_dirty c sec = get_status [c (sec + 1)] SECTOR_DIRTY_STATUS_NUM"

definition sector_ok :: "(nat \<Rightarrow> byte) \<Rightarrow> nat \<Rightarrow> node list \<Rightarrow> bool" where
  "sector_ok c sec ns \<longleftrightarrow> (sec = 0 \<or> sec = 4096) \<and>
     bytes_at c (sec + 4) 8 = le_bytes SECTOR_MAGIC_WORD @ le_bytes 0xFFFFFFFF \<and>
     (sec_store c sec = SECTOR_STORE_EMPTY \<or> sec_store c sec = SECTOR_STORE_USING \<or> sec_store c sec = SECTOR_STORE_FULL) \<and>
     (sec_store c sec = SECTOR_STORE_EMPTY \<longleftrightarrow> ns = []) \<and>
     laid c (sec + 16) ns \<and> span ns \<le> 4080 \<and> blank c (sec + 16 + span ns) (sec + 4096)"

text \<open>The cached end of a sector is the end of its nodes.\<close>

definition cache_end :: "sector_cache_node list \<Rightarrow> nat \<Rightarrow> nat \<Rightarrow> bool" where
  "cache_end t sec e \<longleftrightarrow> (\<forall>x. sec_cached t sec = Some x \<longrightarrow> x = e)"

section \<open>From node to node\<close>

text \<open>What the walk holds when it is about to come to \<open>b\<close>.\<close>

definition before :: "env_node_obj \<Rightarrow> nat \<Rightarrow> nat \<Rightarrow> bool" where
  "before env sec b \<longleftrightarrow> start_addr env = FAILED_ADDR \<and> b = sec + 16 \<or>
     crc_is_ok env \<and> env_len env \<noteq> 0 \<and> sec + 16 \<le> start_addr env \<and> start_addr env + env_len env = b"

lemma before_node_of:
  "sec + 16 \<le> a \<Longrightarrow> start_addr env = a \<Longrightarrow> before (node_of env c a k v) sec (a + node_size k v)"
  by (simp add: before_def node_of_def node_size_def)

lemma sector_of_inside: "sec mod 4096 = 0 \<Longrightarrow> sec \<le> a \<Longrightarrow> a < sec + 4096 \<Longrightarrow> sector_of a = sec"
proof -
  assume *: "sec mod 4096 = 0" "sec \<le> a" "a < sec + 4096"
  define q where "q = sec div 4096"
  have "sec = q * 4096" using *(1) by (auto simp: q_def)
  then have "a div 4096 = q" using *(2,3) by (intro div_nat_eqI) simp_all
  then show ?thesis using \<open>sec = q * 4096\<close> by (simp add: sector_of_def SECTOR_SIZE_def)
qed

lemma le_word_FF: "(\<And>i. i < 4 \<Longrightarrow> bs ! (k + i) = 0xFF) \<Longrightarrow> le_word k bs = 0xFFFFFFFF"
proof -
  assume *: "\<And>i. i < 4 \<Longrightarrow> bs ! (k + i) = 0xFF"
  have "bs ! k = 0xFF" "bs ! (k + 1) = 0xFF" "bs ! (k + 2) = 0xFF" "bs ! (k + 3) = 0xFF"
    using *[of 0] *[of 1] *[of 2] *[of 3] by simp_all
  then show ?thesis by (simp add: le_word_def push_bit_eq_mult)
qed

lemma stored_magic:
  assumes "stored c a k v"
  shows "le_word 4 (bytes_at c a 32) = ENV_MAGIC_WORD"
proof -
  have "bytes_at c (a + 4) (4 + 16) = le_bytes ENV_MAGIC_WORD @ drop 4 (env_hdr_bytes (node_size k v) (node_crc k v) (length k) (length v))"
    using stored_parts(1)[OF assms] by (simp add: env_hdr_bytes_def)
  then have "bytes_at c (a + 4) 4 = le_bytes ENV_MAGIC_WORD"
    by (metis bytes_at_split(1) length_le_bytes)
  moreover have "drop 4 (bytes_at c a 32) = bytes_at c (a + 4) 4 @ bytes_at c (a + 8) 24"
    using bytes_at_add[of c "a + 4" 4 24] by (simp add: drop_bytes_at add.commute)
  ultimately show ?thesis by (simp add: le_word_drop[of 4])
qed

context nor_port
begin

lemma wp_get_sector_from_cache [wp_simps]:
  "wp F (get_sector_from_cache sec) P st = P (sec_cached (sector_cache_table st) sec) st"
  by (simp add: get_sector_from_cache_def wp_eget sec_cached_def)

lemma wp_magic_hit:
  assumes "stored (mem st) b k v" "4 \<le> b" "b + 4 < stop" "b + 4096 \<le> PART_SIZE"
  shows "wp F (magic_loop W b stop b) P st = P b st"
proof -
  have c: "[0..<28] ! i = i" if "i < 28" for i using that by (simp del: upt_rec_numeral)
  have w: "wsub (b + i) ENV_MAGIC_OFFSET = b + i - 4" if "i < 28" for i
    using that assms(2,4) by (simp add: ENV_MAGIC_OFFSET_def wsub_small PART_SIZE_def)
  have "find (\<lambda>i. b + i < stop \<and> le_word i (bytes_at (mem st) b 32) = ENV_MAGIC_WORD \<and> wsub (b + i) ENV_MAGIC_OFFSET \<ge> b) [0..<28]
      = Some ([0..<28] ! 4)"
    using assms stored_magic[OF assms(1)] by (intro find_first) (auto simp: c w simp del: upt_rec_numeral)
  then have "magic_in b stop b (bytes_at (mem st) b 32) = Some b"
    using assms(2) by (simp add: magic_in_def c w del: upt_rec_numeral)
  then show ?thesis
    using assms by (subst magic_loop.simps) (simp add: wp_simps wp_rd PART_SIZE_def)
qed

lemma wp_magic_miss:
  assumes "blank (mem st) b (stop + 16)" "stop + 32 \<le> PART_SIZE"
  shows "wp F (magic_loop W b stop x) P st = P FAILED_ADDR st"
  using assms(1)
proof (induction "stop - b" arbitrary: b rule: less_induct)
  case less
  show ?case
  proof (cases "b < stop")
    case True
    have "le_word i (bytes_at (mem st) b 32) = 0xFFFFFFFF" if "i < 28" "b + i < stop" for i
      using that less.prems by (intro le_word_FF) (simp add: blank_def)
    then have "magic_in b stop x (bytes_at (mem st) b 32) = None"
      by (auto simp: magic_in_def find_None_iff ENV_MAGIC_WORD_def simp del: upt_rec_numeral)
    moreover have "wp F (magic_loop W (b + 28) stop x) P st = P FAILED_ADDR st"
      using True less.prems by (intro less.hyps) (auto elim: blank_mono)
    ultimately show ?thesis using True assms(2)
      by (subst magic_loop.simps) (simp add: wp_simps wp_rd PART_SIZE_def)
  qed (subst magic_loop.simps, simp add: wp_simps)
qed

lemma wp_get_next:
  assumes "sec = 0 \<or> sec = 4096" "sec_addr sector = sec" "store_status sector \<noteq> SECTOR_STORE_EMPTY"
    and "before env sec b" "laid (mem st) b ns" "b + span ns \<le> sec + 4096" "blank (mem st) (b + span ns) (sec + 4096)"
    and "cache_end (sector_cache_table st) sec (b + span ns)" "ns \<noteq> [] \<or> start_addr env \<noteq> FAILED_ADDR" "sec + 16 \<le> b"
  shows "wp F (get_next_env_addr W sector env) P st = P (if ns = [] then FAILED_ADDR else b) st"
proof (cases "start_addr env = FAILED_ADDR")
  case True
  then have "b = sec + 16" "ns \<noteq> []" using assms(1,4,6,9) by (auto simp: before_def FAILED_ADDR_def)
  then show ?thesis using True assms(1-3)
    by (auto simp: get_next_env_addr_def wp_simps SECTOR_HDR_DATA_SIZE_def)
next
  case False
  then have e: "crc_is_ok env" "env_len env \<noteq> 0" "sec + 16 \<le> start_addr env" "start_addr env + env_len env = b"
    using assms(4) by (auto simp: before_def)
  have w: "wadd (start_addr env) (env_len env) = b" "wadd sec SECTOR_SIZE = sec + 4096" "wadd sec (SECTOR_SIZE - SECTOR_HDR_DATA_SIZE) = sec + 4080"
    using assms(1,6) e by (auto simp: SECTOR_SIZE_def SECTOR_HDR_DATA_SIZE_def)
  have n: "wp F (find_next_env_addr W b (sec + 4080)) Q st = Q (if ns = [] then FAILED_ADDR else b) st" for Q
  proof (cases ns)
    case Nil
    have "wp F (magic_loop W b (sec + 4080) b) Q st = Q FAILED_ADDR st"
      using assms Nil by (intro wp_magic_miss) (auto simp: PART_SIZE_def)
    then show ?thesis using Nil by (simp add: find_next_env_addr_def wp_simps)
  next
    case (Cons x ms)
    obtain k v s where x: "x = (k, v, s)" by (cases x)
    then have b: "stored (mem st) b k v" "b + 24 \<le> sec + 4096" "0 < span ns"
      using assms(5,6) Cons by (auto simp: node_size_def)
    have "sector_of b = sec" using assms(1,10) b by (intro sector_of_inside) auto
    then have "sec_cached (sector_cache_table st) (sector_of b) \<noteq> Some b"
      using assms(8) b(3) by (auto simp: cache_end_def)
    moreover have "wp F (magic_loop W b (sec + 4080) b) Q st = Q b st"
      using assms(1,10) b by (intro wp_magic_hit) (auto simp: PART_SIZE_def)
    ultimately show ?thesis using Cons by (simp add: find_next_env_addr_def wp_simps)
  qed
  show ?thesis
    using False e assms(1,2,3,6) w
    by (auto simp: get_next_env_addr_def wp_simps n FAILED_ADDR_def)
qed


end

section \<open>Reading the header\<close>

definition headed :: "sector_meta_data \<Rightarrow> (nat \<Rightarrow> byte) \<Rightarrow> nat \<Rightarrow> sector_meta_data" where
  "headed sector c sec = sector\<lparr>sec_addr := sec, sec_magic := SECTOR_MAGIC_WORD, check_ok := True,
     combined := SECTOR_NOT_COMBINED, store_status := sec_store c sec, dirty_status := sec_dirty c sec\<rparr>"

lemma header_fields:
  assumes "sector_ok c sec ns"
  shows "le_word 4 (bytes_at c sec 16) = SECTOR_MAGIC_WORD" "le_word 8 (bytes_at c sec 16) = 0xFFFFFFFF"
    "get_status (take 1 (bytes_at c sec 16)) n = get_status [c sec] n"
    "get_status (take 1 (drop 1 (bytes_at c sec 16))) n = get_status [c (sec + 1)] n"
proof -
  have b: "bytes_at c (sec + 4) 8 = le_bytes SECTOR_MAGIC_WORD @ le_bytes 0xFFFFFFFF"
    using assms by (simp add: sector_ok_def)
  have d: "drop 4 (bytes_at c sec 16) = le_bytes SECTOR_MAGIC_WORD @ le_bytes 0xFFFFFFFF @ bytes_at c (sec + 12) 4"
    using bytes_at_add[of c "sec + 4" 8 4] by (simp add: drop_bytes_at b add.commute)
  then show "le_word 4 (bytes_at c sec 16) = SECTOR_MAGIC_WORD" by (simp add: le_word_drop[of 4])
  have "drop 8 (bytes_at c sec 16) = drop 4 (drop 4 (bytes_at c sec 16))" by simp
  then have "drop 8 (bytes_at c sec 16) = le_bytes 0xFFFFFFFF @ bytes_at c (sec + 12) 4" unfolding d by simp
  then show "le_word 8 (bytes_at c sec 16) = 0xFFFFFFFF" by (simp add: le_word_drop[of 8])
  show "get_status (take 1 (bytes_at c sec 16)) n = get_status [c sec] n"
    by (subst take_bytes_at) (simp_all add: bytes_at_def)
  have "take 1 (drop 1 (bytes_at c sec 16)) = bytes_at c (sec + 1) 1"
    by (subst drop_bytes_at, simp, subst take_bytes_at) simp_all
  then show "get_status (take 1 (drop 1 (bytes_at c sec 16))) n = get_status [c (sec + 1)] n"
    by (simp only:) (simp add: bytes_at_def)
qed

context nor_port
begin

lemma wp_read_header:
  assumes "sector_ok (mem st) sec ns"
  shows "wp F (read_sector_meta_data W sec sector False) P st = P (EF_NO_ERR, headed sector (mem st) sec) st"
proof -
  have "sec mod SECTOR_SIZE = 0" "sec + 16 \<le> PART_SIZE" using assms by (auto simp: sector_ok_def SECTOR_SIZE_def PART_SIZE_def)
  then show ?thesis
    unfolding read_sector_meta_data_def using header_fields[OF assms]
    by (simp add: wp_simps wp_rd Let_def headed_def sec_store_def sec_dirty_def SECTOR_NOT_COMBINED_def)
qed

end

section \<open>Finding a variable in a sector\<close>

text \<open>The object a node has been read into.\<close>

definition node_at :: "env_node_obj \<Rightarrow> (nat \<Rightarrow> byte) \<Rightarrow> nat \<Rightarrow> byte list \<Rightarrow> byte list \<Rightarrow> bool" where
  "node_at env c a k v \<longleftrightarrow> start_addr env = a \<and> env_status env = get_status [c a] ENV_STATUS_NUM \<and>
     env_len env = node_size k v \<and> crc_is_ok env \<and> take (length k) (env_name env) = k \<and> length (env_name env) = 32 \<and>
     value_addr env = a + (24 + length k) \<and> value_len env = length v \<and> name_len env = length k \<and> length k \<le> 32"

lemma node_at_of:
  "fits k v \<Longrightarrow> length (env_name env) = 32 \<Longrightarrow> start_addr env = a \<Longrightarrow> node_at (node_of env c a k v) c a k v"
  by (simp add: node_at_def node_of_def fits_def)

lemma before_node_at: "node_at env c a k v \<Longrightarrow> sec + 16 \<le> a \<Longrightarrow> before env sec (a + node_size k v)"
  by (simp add: before_def node_at_def node_size_def)

fun find_live :: "nat \<Rightarrow> byte list \<Rightarrow> node list \<Rightarrow> (nat \<times> byte list) option" where
  "find_live a key [] = None"
| "find_live a key ((k, v, s) # ns) =
     (if k = key \<and> s = ENV_WRITE then Some (a, v) else find_live (a + node_size k v) key ns)"

lemma length_span: "24 * length ns \<le> span ns"
  by (induction ns) (auto simp: node_size_def)

context nor_port
begin

lemma wp_find_env_cb:
  assumes "node_at env c a k v" "0 \<notin> set key"
  shows "wp F (find_env_cb key env False) P st =
    (if k = key \<and> env_status env = ENV_WRITE then P (True, True) st else P (False, False) st)"
proof -
  have n: "name_len env = length k" "crc_is_ok env" "take (length k) (env_name env) = k" "length (env_name env) = 32"
    and l: "length k \<le> length (env_name env)"
    using assms(1) by (simp_all add: node_at_def)
  show ?thesis
  proof (cases "length key = length k")
    case True
    have "same_chars key (env_name env) = Inr (k = key)"
    proof (cases "k = key")
      case True
      then show ?thesis using n(3) l by (simp add: same_chars_prefix)
    next
      case False
      have "take (length key) (env_name env) = k" using n(3) \<open>length key = length k\<close> by (simp only:)
      with False have "take (length key) (env_name env) \<noteq> key" by simp
      with \<open>length key = length k\<close> show ?thesis using False l assms(2) by (simp add: same_chars_other)
    qed
    then show ?thesis using True n(1,2) by (auto simp: find_env_cb_def wp_simps)
  qed (use n(1) in \<open>auto simp: find_env_cb_def wp_simps\<close>)
qed

lemma wp_node_loop_find:
  assumes "sec = 0 \<or> sec = 4096" "sec_addr sector = sec" "store_status sector \<noteq> SECTOR_STORE_EMPTY"
    and "cache_end (sector_cache_table st) sec e" "e \<le> sec + 4096" "blank (mem st) e (sec + 4096)" "0 \<notin> set key"
    and "before env sec b" "laid (mem st) b ns" "b + span ns = e" "ns \<noteq> [] \<or> start_addr env \<noteq> FAILED_ADDR" "sec + 16 \<le> b"
    and "length ns < fuel" "length (env_name env) = 32"
    and "\<And>env a v. find_live b key ns = Some (a, v) \<Longrightarrow> node_at env (mem st) a key v \<Longrightarrow> P (True, env, True) st"
    and "\<And>env. find_live b key ns = None \<Longrightarrow> length (env_name env) = 32 \<Longrightarrow> P (False, env, False) st"
  shows "wp F (node_loop W fuel (find_env_cb key) sector env False) P st"
  using assms(8-)
proof (induction ns arbitrary: b env fuel)
  case Nil
  then obtain f where f: "fuel = Suc f" by (cases fuel) auto
  have "wp F (get_next_env_addr W sector env) Q st = Q FAILED_ADDR st" for Q
    using wp_get_next[OF assms(1-3) Nil(1), of st "[]"] Nil assms(4-6) by simp
  then show ?case using Nil f by (simp add: wp_simps Let_def)
next
  case (Cons x ns)
  obtain k v s where x: "x = (k, v, s)" by (cases x)
  obtain f where f: "fuel = Suc f" using Cons.prems(6) by (cases fuel) auto
  have n: "stored (mem st) b k v" "fits k v" "get_status [mem st b] ENV_STATUS_NUM = s" "laid (mem st) (b + node_size k v) ns"
    using Cons.prems(2) by (simp_all add: x)
  have bl: "b + 4096 \<le> PART_SIZE" "b \<noteq> FAILED_ADDR"
    using Cons.prems(3) assms(1,5) by (auto simp: PART_SIZE_def FAILED_ADDR_def)
  let ?env = "node_of (env\<lparr>start_addr := b\<rparr>) (mem st) b k v"
  have at: "node_at ?env (mem st) b k v" using n(2) Cons.prems(7) by (intro node_at_of) simp_all
  then have st: "env_status ?env = s" using n(3) by (simp add: node_at_def)
  have next1: "wp F (get_next_env_addr W sector env) Q st = Q b st" for Q
    using wp_get_next[OF assms(1-3) Cons.prems(1), of st "x # ns"] Cons.prems assms(4-6) by simp
  have read: "wp F (read_env W (env\<lparr>start_addr := b\<rparr>)) Q st = Q (EF_NO_ERR, ?env) st" for Q
    using n bl Cons.prems(7) by (intro wp_read_env) simp_all
  have rest: "wp F (node_loop W f (find_env_cb key) sector ?env False) P st" if "\<not> (k = key \<and> s = ENV_WRITE)"
  proof (rule Cons.IH[OF before_node_at[OF at Cons.prems(5)] n(4)])
    show "ns \<noteq> [] \<or> start_addr ?env \<noteq> FAILED_ADDR" "length (env_name ?env) = 32" using at bl by (simp_all add: node_at_def)
    show "b + node_size k v + span ns = e" "sec + 16 \<le> b + node_size k v" "length ns < f"
      using Cons.prems(3,5,6) by (simp_all add: x f)
  qed (use that Cons.prems(8,9) in \<open>auto simp: x\<close>)
  show ?case
    using bl(2) Cons.prems(8) at st rest unfolding f
    by (auto simp: wp_simps Let_def next1 read wp_find_env_cb[OF at assms(7)] x)
qed

end

end
