(* ===== verification/Easyflash_Map.thy ===== *)
theory Easyflash_Map
  imports Easyflash_Walk
begin

text \<open>
  The environment store as a map from names to values: what the two sectors hold, the invariant of the state, and
  that the operations of \<open>ef_env.c\<close> read, set and delete entries of the map.
\<close>

section \<open>The contents of the store\<close>

fun live_from :: "nat \<Rightarrow> node list \<Rightarrow> (nat \<times> byte list \<times> byte list) list" where
  "live_from a [] = []"
| "live_from a ((k, v, s) # ns) = (if s = ENV_WRITE then [(a, k, v)] else []) @ live_from (a + node_size k v) ns"

text \<open>\<open>N sec\<close> are the nodes of the sector at \<open>sec\<close>.\<close>

definition live :: "(nat \<Rightarrow> node list) \<Rightarrow> (nat \<times> byte list \<times> byte list) list" where
  "live N = live_from 16 (N 0) @ live_from 4112 (N 4096)"

definition keys_of :: "(nat \<times> byte list \<times> byte list) list \<Rightarrow> byte list list" where
  "keys_of L = map (\<lambda>(a, k, v). k) L"

definition contents :: "(nat \<times> byte list \<times> byte list) list \<Rightarrow> byte list \<rightharpoonup> byte list" where
  "contents L = map_of (map snd L)"

definition store_ok :: "(nat \<Rightarrow> byte) \<Rightarrow> (nat \<Rightarrow> node list) \<Rightarrow> bool" where
  "store_ok c N \<longleftrightarrow> sector_ok c 0 (N 0) \<and> sector_ok c 4096 (N 4096)"

lemma sector_ok_store: "store_ok c N \<Longrightarrow> sec = 0 \<or> sec = 4096 \<Longrightarrow> sector_ok c sec (N sec)"
  by (auto simp: store_ok_def)

lemma live_from_append [simp]: "live_from a (xs @ ys) = live_from a xs @ live_from (a + span xs) ys"
  by (induction a xs rule: live_from.induct) (simp_all add: add.assoc)

lemma find_live_from: "find_live a key ns = map_option (\<lambda>(a, k, v). (a, v)) (find (\<lambda>(a, k, v). k = key) (live_from a ns))"
  by (induction a key ns rule: find_live.induct) simp_all

lemma live_from_stored:
  "laid c b ns \<Longrightarrow> (a, k, v) \<in> set (live_from b ns) \<Longrightarrow>
   stored c a k v \<and> fits k v \<and> 0 \<notin> set k \<and> get_status [c a] ENV_STATUS_NUM = ENV_WRITE \<and> b \<le> a \<and> a + node_size k v \<le> b + span ns"
proof (induction c b ns rule: laid.induct)
  case (2 c b k' v' s ns)
  then show ?case by (fastforce split: if_splits)
qed simp

lemma live_stored:
  assumes "store_ok c N" "(a, k, v) \<in> set (live N)"
  shows "stored c a k v" "fits k v" "0 \<notin> set k" "get_status [c a] ENV_STATUS_NUM = ENV_WRITE" "a + 4096 \<le> PART_SIZE" "16 \<le> a"
proof -
  have "laid c 16 (N 0)" "laid c 4112 (N 4096)" "span (N 0) \<le> 4080" "span (N 4096) \<le> 4080"
    using assms(1) by (auto simp: store_ok_def sector_ok_def)
  then have "stored c a k v \<and> fits k v \<and> 0 \<notin> set k \<and> get_status [c a] ENV_STATUS_NUM = ENV_WRITE \<and> 16 \<le> a \<and> a + 4096 \<le> PART_SIZE"
    using assms(2) live_from_stored[of c 16 "N 0" a k v] live_from_stored[of c 4112 "N 4096" a k v]
    by (auto simp: live_def PART_SIZE_def)
  then show "stored c a k v" "fits k v" "0 \<notin> set k" "get_status [c a] ENV_STATUS_NUM = ENV_WRITE" "a + 4096 \<le> PART_SIZE" "16 \<le> a"
    by simp_all
qed

section \<open>The caches are right\<close>

definition env_cache_ok :: "env_cache_node list \<Rightarrow> (nat \<times> byte list \<times> byte list) list \<Rightarrow> bool" where
  "env_cache_ok t L \<longleftrightarrow> length t = EF_ENV_CACHE_TABLE_SIZE \<and> codes_once t \<and>
     (\<forall>i<length t. cached_addr (t ! i) \<noteq> FAILED_ADDR \<longrightarrow>
        (\<exists>k v. (cached_addr (t ! i), k, v) \<in> set L \<and> name_crc (t ! i) = name_code k))"

definition secs_once :: "sector_cache_node list \<Rightarrow> bool" where
  "secs_once t \<longleftrightarrow> (\<forall>i j. i < j \<longrightarrow> j < length t \<longrightarrow> cached_sec (t ! i) = cached_sec (t ! j) \<longrightarrow> cached_sec (t ! j) = FAILED_ADDR)"

definition sec_entries :: "sector_cache_node list \<Rightarrow> nat \<Rightarrow> nat \<Rightarrow> bool" where
  "sec_entries t sec e \<longleftrightarrow> (\<forall>i<length t. cached_sec (t ! i) = sec \<longrightarrow> empty_addr (t ! i) = e)"

definition sec_cache_ok :: "sector_cache_node list \<Rightarrow> (nat \<Rightarrow> node list) \<Rightarrow> bool" where
  "sec_cache_ok t N \<longleftrightarrow> length t = EF_SECTOR_CACHE_TABLE_SIZE \<and> secs_once t \<and>
     sec_entries t 0 (16 + span (N 0)) \<and> sec_entries t 4096 (4112 + span (N 4096))"

lemma sec_entries_end: "sec_entries t sec e \<Longrightarrow> cache_end t sec e"
  by (auto simp: sec_entries_def cache_end_def sec_cached_def find_Some_iff)

lemma sec_cache_ok_end:
  "sec_cache_ok t N \<Longrightarrow> sec = 0 \<or> sec = 4096 \<Longrightarrow> cache_end t sec (sec + 16 + span (N sec))"
  by (auto simp: sec_cache_ok_def intro: sec_entries_end)

text \<open>No other name has the 16 bits of the checksum that this one has.\<close>

definition clear :: "byte list \<Rightarrow> (nat \<times> byte list \<times> byte list) list \<Rightarrow> bool" where
  "clear key L \<longleftrightarrow> (\<forall>(a, k, v)\<in>set L. name_code k = name_code key \<longrightarrow> k = key)"

lemma env_cache_ok_aged: "env_cache_ok t L \<Longrightarrow> aged t u \<Longrightarrow> env_cache_ok u L"
  unfolding env_cache_ok_def using aged_once[of t u] by (auto simp: aged_def)

lemma goes_to_other:
  assumes "goes_to t code addr r" "codes_once t" "j < length t" "cached_addr (r ! j) \<noteq> FAILED_ADDR"
  shows "name_crc (r ! j) = code \<and> cached_addr (r ! j) = addr \<or>
    name_crc (r ! j) = name_crc (t ! j) \<and> cached_addr (r ! j) = cached_addr (t ! j) \<and> name_crc (t ! j) \<noteq> code"
proof -
  obtain i v u where r: "i < length t" "aged t u" "r = u[i := v]" "name_crc v = code" "cached_addr v = addr"
    "\<forall>j<i. name_crc (t ! j) \<noteq> code" "name_crc (t ! i) = code \<or> (\<forall>j<length t. name_crc (t ! j) \<noteq> code)"
    using assms(1) unfolding goes_to_def by blast
  show ?thesis
  proof (cases "j = i")
    case False
    then have e: "name_crc (r ! j) = name_crc (t ! j)" "cached_addr (r ! j) = cached_addr (t ! j)"
      using r(2,3) assms(3) by (auto simp: aged_def)
    have "name_crc (t ! j) \<noteq> code"
    proof
      assume c: "name_crc (t ! j) = code"
      then have "i < j" "name_crc (t ! i) = code" using False r(6,7) assms(3) by (auto simp: neq_iff)
      then show False using assms(2-4) e c unfolding codes_once_def by metis
    qed
    then show ?thesis using e by simp
  qed (use r assms(3) in \<open>simp add: aged_def\<close>)
qed

lemma env_cache_ok_put:
  assumes "env_cache_ok t L" "a \<noteq> FAILED_ADDR" "(a, k, v) \<in> set L'"
    and "\<And>a' k' v'. (a', k', v') \<in> set L \<Longrightarrow> name_code k' \<noteq> name_code k \<Longrightarrow> (a', k', v') \<in> set L'"
  shows "env_cache_ok (put_env k a t) L'"
proof -
  have g: "goes_to t (name_code k) a (put_env k a t)" using assms(1,2) by (intro put_env_goes) (simp_all add: env_cache_ok_def)
  note len = goes_to_length[OF g]
  show ?thesis
    unfolding env_cache_ok_def
  proof (intro conjI allI impI)
    fix i assume i: "i < length (put_env k a t)" "cached_addr (put_env k a t ! i) \<noteq> FAILED_ADDR"
    then have "i < length t" using len by simp
    from goes_to_other[OF g _ this i(2)] assms(1)
    consider "name_crc (put_env k a t ! i) = name_code k" "cached_addr (put_env k a t ! i) = a"
      | "name_crc (put_env k a t ! i) = name_crc (t ! i)" "cached_addr (put_env k a t ! i) = cached_addr (t ! i)" "name_crc (t ! i) \<noteq> name_code k"
      by (auto simp: env_cache_ok_def)
    then show "\<exists>k' v'. (cached_addr (put_env k a t ! i), k', v') \<in> set L' \<and> name_crc (put_env k a t ! i) = name_code k'"
    proof cases
      case 2
      then obtain k' v' where "(cached_addr (t ! i), k', v') \<in> set L" "name_crc (t ! i) = name_code k'"
        using assms(1) i(2) \<open>i < length t\<close> by (auto simp: env_cache_ok_def)
      then show ?thesis using 2 assms(4) by metis
    qed (use assms(3) in auto)
  qed (use assms(1) g len goes_to_once in \<open>auto simp: env_cache_ok_def\<close>)
qed

lemma env_cache_ok_drop:
  assumes "env_cache_ok t L" "\<And>a' k' v'. (a', k', v') \<in> set L \<Longrightarrow> name_code k' \<noteq> name_code k \<Longrightarrow> (a', k', v') \<in> set L'"
  shows "env_cache_ok (drop_env k t) L'"
proof -
  have t: "length t = EF_ENV_CACHE_TABLE_SIZE" "codes_once t" using assms(1) by (simp_all add: env_cache_ok_def)
  show ?thesis
    unfolding env_cache_ok_def
  proof (intro conjI allI impI)
    fix i assume i: "i < length (drop_env k t)" "cached_addr (drop_env k t ! i) \<noteq> FAILED_ADDR"
    then have l: "i < length t" using t(1) by simp
    note e = drop_env_entry[OF t l i(2)]
    then obtain k' v' where "(cached_addr (t ! i), k', v') \<in> set L" "name_crc (t ! i) = name_code k'"
      using assms(1) i(2) l by (auto simp: env_cache_ok_def)
    then show "\<exists>k' v'. (cached_addr (drop_env k t ! i), k', v') \<in> set L' \<and> name_crc (drop_env k t ! i) = name_code k'"
      using e assms(2) by metis
  qed (use t drop_env_once in simp_all)
qed

section \<open>Finding a variable\<close>

lemma next_sector [simp]:
  "get_next_sector_addr (s\<lparr>sec_addr := FAILED_ADDR\<rparr>) = 0" "get_next_sector_addr (headed s c 0) = 4096"
  "get_next_sector_addr (headed s c 4096) = FAILED_ADDR"
  by (simp_all add: get_next_sector_addr_def headed_def EF_START_ADDR_def FAILED_ADDR_def SECTOR_NOT_COMBINED_def
      SECTOR_SIZE_def ENV_AREA_SIZE_def Let_def)

lemma headed_fields [simp]:
  "sec_addr (headed s c sec) = sec" "store_status (headed s c sec) = sec_store c sec" "check_ok (headed s c sec)"
  "dirty_status (headed s c sec) = sec_dirty c sec"
  by (simp_all add: headed_def)

context nor_port
begin

lemma wp_cache_miss:
  assumes "\<And>i. i \<in> set is \<Longrightarrow> name_crc (env_cache_table st ! i) = name_code name \<Longrightarrow> cached_addr (env_cache_table st ! i) = FAILED_ADDR"
  shows "wp F (env_from_cache_loop W name is) P st = P None st"
  using assms by (induction "is") (auto simp: wp_simps)

lemma wp_env_sectors_step:
  assumes "sector_ok (mem st) sec ns" "get_next_sector_addr sector = sec" "cache_end (sector_cache_table st) sec (sec + 16 + span ns)"
    and "0 \<notin> set key" "length (env_name env) = 32"
    and "\<And>env a v. find_live (sec + 16) key ns = Some (a, v) \<Longrightarrow> node_at env (mem st) a key v \<Longrightarrow> P (env, True) st"
    and "\<And>env. find_live (sec + 16) key ns = None \<Longrightarrow> length (env_name env) = 32 \<Longrightarrow>
      wp F (env_sectors W fuel (find_env_cb key) (headed sector (mem st) sec) env False) P st"
  shows "wp F (env_sectors W (Suc fuel) (find_env_cb key) sector env False) P st"
proof -
  have sec: "sec = 0 \<or> sec = 4096" "sec \<noteq> FAILED_ADDR" "span ns \<le> 4080" "laid (mem st) (sec + 16) ns"
    "blank (mem st) (sec + 16 + span ns) (sec + 4096)"
    using assms(1) by (auto simp: sector_ok_def FAILED_ADDR_def)
  show ?thesis
  proof (cases "ns = []")
    case True
    then have "sec_store (mem st) sec = SECTOR_STORE_EMPTY" using assms(1) by (simp add: sector_ok_def)
    then show ?thesis using True assms sec
      by (simp add: wp_simps wp_read_header[OF assms(1)] ef_states Let_def)
  next
    case False
    then have st: "sec_store (mem st) sec = SECTOR_STORE_USING \<or> sec_store (mem st) sec = SECTOR_STORE_FULL"
      "sec_store (mem st) sec \<noteq> SECTOR_STORE_EMPTY"
      using assms(1) by (auto simp: sector_ok_def)
    have "length ns < Suc SECTOR_SIZE" using length_span[of ns] sec(3) by (simp add: SECTOR_SIZE_def)
    then have "wp F (node_loop W (Suc SECTOR_SIZE) (find_env_cb key) (headed sector (mem st) sec) (env\<lparr>start_addr := FAILED_ADDR\<rparr>) False)
        (\<lambda>(stop, env, arg). wp F (if stop then eret (env, arg)
           else env_sectors W fuel (find_env_cb key) (headed sector (mem st) sec) env arg) P) st"
      using assms sec st False
      by (intro wp_node_loop_find[where sec = sec and e = "sec + 16 + span ns" and ns = ns and b = "sec + 16"])
        (auto simp: before_def wp_simps del: node_loop.simps)
    then show ?thesis using assms(2) sec(2) st
      by (simp add: wp_simps wp_read_header[OF assms(1)] Let_def case_prod_beta' del: node_loop.simps cong: if_cong)
  qed
qed

lemma wp_find_env_no_cache:
  assumes "store_ok (mem st) N" "sec_cache_ok (sector_cache_table st) N" "0 \<notin> set key" "length (env_name env) = 32"
    and "\<And>env a v. find (\<lambda>(a, k, v). k = key) (live N) = Some (a, key, v) \<Longrightarrow> node_at env (mem st) a key v \<Longrightarrow> P (True, env) st"
    and "\<And>env. find (\<lambda>(a, k, v). k = key) (live N) = None \<Longrightarrow> length (env_name env) = 32 \<Longrightarrow> P (False, env) st"
  shows "wp F (find_env_no_cache W key env) P st"
proof -
  let ?f = "\<lambda>L. find (\<lambda>(a, k, v). k = key) L"
  have ok: "sector_ok (mem st) 0 (N 0)" "sector_ok (mem st) 4096 (N 4096)" using assms(1) by (simp_all add: store_ok_def)
  have c: "cache_end (sector_cache_table st) 0 (0 + 16 + span (N 0))" "cache_end (sector_cache_table st) 4096 (4096 + 16 + span (N 4096))"
    using sec_cache_ok_end[OF assms(2), of 0] sec_cache_ok_end[OF assms(2), of 4096] by simp_all
  have app: "?f (xs @ ys) = (case ?f xs of Some x \<Rightarrow> Some x | None \<Rightarrow> ?f ys)" for xs ys by (induction xs) auto
  have key: "?f L = Some (a, k, v) \<Longrightarrow> k = key" for L a k v by (induction L) (auto split: if_splits)
  have some: "find_live b key ns = Some (a, v) \<longleftrightarrow> ?f (live_from b ns) = Some (a, key, v)" for a b v ns
    using key by (fastforce simp: find_live_from)
  have none: "find_live b key ns = None \<longleftrightarrow> ?f (live_from b ns) = None" for b ns
    by (simp add: find_live_from)
  have "wp F (env_sectors W (Suc (Suc (Suc 0))) (find_env_cb key) ((raw_sector W)\<lparr>sec_addr := FAILED_ADDR\<rparr>) env False)
      (\<lambda>(env, ok). P (ok, env)) st"
  proof (rule wp_env_sectors_step[OF ok(1) next_sector(1) c(1) assms(3,4)])
    fix e a v assume "find_live (0 + 16) key (N 0) = Some (a, v)" "node_at e (mem st) a key v"
    then show "(case (e, True) of (env, ok) \<Rightarrow> P (ok, env)) st" using assms(5) by (simp add: live_def app some)
  next
    fix e :: env_node_obj assume n: "find_live (0 + 16) key (N 0) = None" "length (env_name e) = 32"
    show "wp F (env_sectors W (Suc (Suc 0)) (find_env_cb key) (headed ((raw_sector W)\<lparr>sec_addr := FAILED_ADDR\<rparr>) (mem st) 0) e False)
      (\<lambda>(env, ok). P (ok, env)) st"
    proof (rule wp_env_sectors_step[OF ok(2) next_sector(2) c(2) assms(3) n(2)])
      fix e a v assume "find_live (4096 + 16) key (N 4096) = Some (a, v)" "node_at e (mem st) a key v"
      then show "(case (e, True) of (env, ok) \<Rightarrow> P (ok, env)) st" using assms(5) n by (simp add: live_def app some none)
    next
      fix e :: env_node_obj assume "find_live (4096 + 16) key (N 4096) = None" "length (env_name e) = 32"
      then show "wp F (env_sectors W (Suc 0) (find_env_cb key)
          (headed (headed ((raw_sector W)\<lparr>sec_addr := FAILED_ADDR\<rparr>) (mem st) 0) (mem st) 4096) e False) (\<lambda>(env, ok). P (ok, env)) st"
        using assms(6) n by (simp add: wp_simps live_def app none Let_def)
    qed
  qed
  then show ?thesis
    unfolding find_env_no_cache_def env_iterator_def SECTOR_NUM_def
    by (simp add: wp_simps wp_eret_fun case_prod_beta' numeral_2_eq_2 del: env_sectors.simps)
qed

text \<open>\<open>find_env\<close>: the variable with its node, or nothing; of the state only the age of cache entries and, after a search
  in the flash, the cache changes.\<close>

lemma wp_find_env:
  assumes "store_ok (mem st) N" "sec_cache_ok (sector_cache_table st) N" "env_cache_ok (env_cache_table st) (live N)"
    and "clear key (live N)" "0 \<notin> set key" "length key \<le> 32" "length (env_name env) = 32"
    and "\<And>env a v t. (a, key, v) \<in> set (live N) \<Longrightarrow> node_at env (mem st) a key v \<Longrightarrow> env_cache_ok t (live N) \<Longrightarrow>
      P (True, env) (st\<lparr>env_cache_table := t\<rparr>)"
    and "\<And>env. key \<notin> set (keys_of (live N)) \<Longrightarrow> length (env_name env) = 32 \<Longrightarrow> P (False, env) st"
  shows "wp F (find_env W key env) P st"
proof (cases "\<exists>i<EF_ENV_CACHE_TABLE_SIZE. name_crc (env_cache_table st ! i) = name_code key \<and> cached_addr (env_cache_table st ! i) \<noteq> FAILED_ADDR")
  case True
  let ?t = "env_cache_table st"
  from True obtain i where i: "i < length ?t" "name_crc (?t ! i) = name_code key" "cached_addr (?t ! i) \<noteq> FAILED_ADDR"
    using assms(3) by (auto simp: env_cache_ok_def)
  then obtain k v where kv: "(cached_addr (?t ! i), k, v) \<in> set (live N)" "name_crc (?t ! i) = name_code k"
    using assms(3) by (auto simp: env_cache_ok_def)
  then have "k = key" using assms(4) i(2) by (fastforce simp: clear_def)
  define a where "a = cached_addr (?t ! i)"
  have l: "(a, key, v) \<in> set (live N)" using kv \<open>k = key\<close> by (simp add: a_def)
  note s = live_stored[OF assms(1) l]
  have nofirst: "name_crc (?t ! j) \<noteq> name_code key" if "j < i" for j
    using that i assms(3) unfolding env_cache_ok_def codes_once_def by metis
  have c: "cached ?t (name_code key) = Some a"
    unfolding cached_def using i nofirst by (subst find_first[of i]) (auto simp: a_def)
  have at: "node_at (node_of (env\<lparr>start_addr := a\<rparr>) (mem st) a key v) (mem st) a key v"
    using s(2) assms(7) by (intro node_at_of) simp_all
  show ?thesis
  proof (rule wp_find_env_hit[OF _ c s(1,2,5) assms(7)])
    show "length ?t = EF_ENV_CACHE_TABLE_SIZE" using assms(3) by (simp add: env_cache_ok_def)
    fix j assume "j < EF_ENV_CACHE_TABLE_SIZE"
    then have "env_cache_ok (touch j ?t) (live N)"
      using assms(3) by (intro env_cache_ok_aged[OF assms(3)] touch_aged) (simp add: env_cache_ok_def)
    then show "P (True, node_of (env\<lparr>start_addr := a\<rparr>) (mem st) a key v) (st\<lparr>env_cache_table := touch j ?t\<rparr>)"
      by (rule assms(8)[OF l at])
  qed
next
  case False
  then have "wp F (get_env_from_cache W key) Q st = Q None st" for Q
    unfolding get_env_from_cache_def by (intro wp_cache_miss) auto
  moreover have "wp F (find_env_no_cache W key env) (\<lambda>(ok, env). wp F (ebind (if ok then update_env_cache key (start_addr env) else eret ())
      (\<lambda>_. eret (ok, env))) P) st"
  proof (rule wp_find_env_no_cache[OF assms(1,2,5,7)])
    fix e a v assume f: "find (\<lambda>(a, k, v). k = key) (live N) = Some (a, key, v)" and n: "node_at e (mem st) a key v"
    have l: "(a, key, v) \<in> set (live N)" using f by (metis find_Some_iff nth_mem)
    have "a \<noteq> FAILED_ADDR" using live_stored(5)[OF assms(1) l] by (simp add: PART_SIZE_def FAILED_ADDR_def)
    then have "env_cache_ok (put_env key a (env_cache_table st)) (live N)"
      using env_cache_ok_put[OF assms(3) _ l] by simp
    then have "P (True, e) (st\<lparr>env_cache_table := put_env key a (env_cache_table st)\<rparr>)"
      by (rule assms(8)[OF l n])
    moreover have "start_addr e = a" using n by (simp add: node_at_def)
    ultimately show "(case (True, e) of (ok, env) \<Rightarrow> wp F (ebind (if ok then update_env_cache key (start_addr env) else eret ())
      (\<lambda>_. eret (ok, env))) P) st" by (simp add: wp_simps update_env_cache_def put_env_def)
  next
    fix e :: env_node_obj assume f: "find (\<lambda>(a, k, v). k = key) (live N) = None" and n: "length (env_name e) = 32"
    have "key \<notin> set (keys_of (live N))" using f by (auto simp: find_None_iff keys_of_def)
    then show "(case (False, e) of (ok, env) \<Rightarrow> wp F (ebind (if ok then update_env_cache key (start_addr env) else eret ())
      (\<lambda>_. eret (ok, env))) P) st" using n assms(9) by (simp add: wp_simps)
  qed
  ultimately show ?thesis by (simp add: find_env_def wp_simps case_prod_beta')
qed

end

section \<open>The sector cache\<close>

text \<open>What an update does: it replaces the entry of the sector or a free one, or frees the entry of the sector.\<close>

definition sec_goes :: "sector_cache_node list \<Rightarrow> nat \<Rightarrow> nat \<Rightarrow> sector_cache_node list \<Rightarrow> bool" where
  "sec_goes t sec e r \<longleftrightarrow> r = t \<and> (\<forall>j<length t. cached_sec (t ! j) \<noteq> sec) \<or>
     (\<exists>i<length t. r = t[i := \<lparr>cached_sec = sec, empty_addr = e\<rparr>] \<and>
        (\<forall>j<i. cached_sec (t ! j) \<noteq> sec) \<and> (cached_sec (t ! i) = sec \<or> (\<forall>j<length t. cached_sec (t ! j) \<noteq> sec))) \<or>
     (\<exists>i<length t. r = t[i := (t ! i)\<lparr>cached_sec := FAILED_ADDR\<rparr>] \<and> cached_sec (t ! i) = sec \<and> (\<forall>j<i. cached_sec (t ! j) \<noteq> sec))"

lemma sector_cache_loop_goes:
  assumes "k \<le> length t" "\<And>j. j < k \<Longrightarrow> cached_sec (t ! j) \<noteq> sec" "\<And>i. ei = Some i \<Longrightarrow> i < k"
  shows "sec_goes t sec e (sector_cache_loop [k..<length t] sec e ei t)"
  using assms
proof (induction "length t - k" arbitrary: k ei)
  case 0
  then have k: "k = length t" by simp
  show ?case
  proof (cases ei)
    case (Some a)
    then show ?thesis using 0 k unfolding sec_goes_def by (intro disjI2 disjI1 exI[of _ a]) simp
  qed (use 0 k in \<open>simp add: sec_goes_def\<close>)
next
  case (Suc d)
  then have k: "k < length t" "[k..<length t] = k # [Suc k..<length t]" by (simp_all add: upt_rec)
  show ?case
  proof (cases "cached_sec (t ! k) = sec")
    case True
    then show ?thesis using k Suc.prems(2) by (auto simp: sec_goes_def)
  next
    case False
    then have l: "cached_sec (t ! j) \<noteq> sec" if "j < Suc k" for j using that Suc.prems(2) by (cases "j = k") auto
    have "sec_goes t sec e (sector_cache_loop [Suc k..<length t] sec e i t)" if "i = ei \<or> i = Some k" for i
      using Suc.hyps(2) k that Suc.prems(3) by (intro Suc.hyps(1) l) (auto simp: less_Suc_eq)
    then show ?thesis using k False by simp
  qed
qed

lemma put_sector_goes: "length t = EF_SECTOR_CACHE_TABLE_SIZE \<Longrightarrow> sec_goes t sec e (put_sector sec e t)"
  unfolding put_sector_def using sector_cache_loop_goes[of 0 t sec None e] by simp

lemma drop_sector_put: "drop_sector sec t = put_sector sec (wadd sec SECTOR_SIZE) t"
  by (simp add: drop_sector_def put_sector_def)

lemma sec_goes_keeps:
  assumes "sec_goes t sec e r" "secs_once t"
  shows "length r = length t" "secs_once r"
    "s \<noteq> FAILED_ADDR \<Longrightarrow> s \<noteq> sec \<Longrightarrow> sec_entries t s x \<Longrightarrow> sec_entries r s x" "sec \<noteq> FAILED_ADDR \<Longrightarrow> sec_entries r sec e"
proof -
  consider "r = t" "\<forall>j<length t. cached_sec (t ! j) \<noteq> sec"
    | i where "i < length t" "r = t[i := \<lparr>cached_sec = sec, empty_addr = e\<rparr>]" "\<forall>j<i. cached_sec (t ! j) \<noteq> sec"
        "cached_sec (t ! i) = sec \<or> (\<forall>j<length t. cached_sec (t ! j) \<noteq> sec)"
    | i where "i < length t" "r = t[i := (t ! i)\<lparr>cached_sec := FAILED_ADDR\<rparr>]" "cached_sec (t ! i) = sec" "\<forall>j<i. cached_sec (t ! j) \<noteq> sec"
    using assms(1) unfolding sec_goes_def by blast
  note cases = this
  show "length r = length t" by (rule cases) simp_all
  have once: "a < b \<Longrightarrow> b < length t \<Longrightarrow> cached_sec (t ! a) = cached_sec (t ! b) \<Longrightarrow> cached_sec (t ! b) = FAILED_ADDR" for a b
    using assms(2) unfolding secs_once_def by blast
  show "secs_once r"
  proof (rule cases)
    fix i assume i: "i < length t" "r = t[i := \<lparr>cached_sec = sec, empty_addr = e\<rparr>]" "\<forall>j<i. cached_sec (t ! j) \<noteq> sec"
        "cached_sec (t ! i) = sec \<or> (\<forall>j<length t. cached_sec (t ! j) \<noteq> sec)"
    show ?thesis
      unfolding secs_once_def i(2)
    proof (intro allI impI)
      fix a b assume ab: "a < b" "b < length (t[i := \<lparr>cached_sec = sec, empty_addr = e\<rparr>])"
        "cached_sec (t[i := \<lparr>cached_sec = sec, empty_addr = e\<rparr>] ! a) = cached_sec (t[i := \<lparr>cached_sec = sec, empty_addr = e\<rparr>] ! b)"
      then show "cached_sec (t[i := \<lparr>cached_sec = sec, empty_addr = e\<rparr>] ! b) = FAILED_ADDR"
        using once[of a b] i by (auto simp: nth_list_update split: if_splits)
    qed
  next
    fix i assume "i < length t" "r = t[i := (t ! i)\<lparr>cached_sec := FAILED_ADDR\<rparr>]"
    then show ?thesis using once unfolding secs_once_def by (auto simp: nth_list_update)
  qed (use assms(2) in simp)
  show "s \<noteq> FAILED_ADDR \<Longrightarrow> s \<noteq> sec \<Longrightarrow> sec_entries t s x \<Longrightarrow> sec_entries r s x"
    by (rule cases) (auto simp: sec_entries_def nth_list_update)
  have only: "cached_sec (t ! j) \<noteq> sec" if "j < length t" "j \<noteq> i" "\<forall>j<i. cached_sec (t ! j) \<noteq> sec" "sec \<noteq> FAILED_ADDR"
      "cached_sec (t ! i) = sec \<or> (\<forall>j<length t. cached_sec (t ! j) \<noteq> sec)" for i j
    using once[of i j] that by (cases "j < i") auto
  show "sec \<noteq> FAILED_ADDR \<Longrightarrow> sec_entries r sec e"
  proof (rule cases)
    fix i assume f: "sec \<noteq> FAILED_ADDR" and i: "i < length t" "r = t[i := \<lparr>cached_sec = sec, empty_addr = e\<rparr>]"
      "\<forall>j<i. cached_sec (t ! j) \<noteq> sec" "cached_sec (t ! i) = sec \<or> (\<forall>j<length t. cached_sec (t ! j) \<noteq> sec)"
    show ?thesis using i(1,2) only[OF _ _ i(3) f i(4)] by (auto simp: sec_entries_def nth_list_update)
  next
    fix i assume f: "sec \<noteq> FAILED_ADDR" and i: "i < length t" "r = t[i := (t ! i)\<lparr>cached_sec := FAILED_ADDR\<rparr>]"
      "cached_sec (t ! i) = sec" "\<forall>j<i. cached_sec (t ! j) \<noteq> sec"
    show ?thesis using i(1,2) f only[OF _ _ i(4) f disjI1[OF i(3)]] by (auto simp: sec_entries_def nth_list_update)
  qed (auto simp: sec_entries_def)
qed

lemma sector_cache_loop_drop:
  assumes "k \<le> length t" "\<And>j. j < k \<Longrightarrow> cached_sec (t ! j) \<noteq> sec" "\<not> in_sector sec e" "secs_once t" "sec \<noteq> FAILED_ADDR" "j < length t"
  shows "cached_sec (sector_cache_loop [k..<length t] sec e None t ! j) \<noteq> sec"
  using assms(1,2)
proof (induction "length t - k" arbitrary: k)
  case 0
  then show ?case using assms(6) by simp
next
  case (Suc d)
  then have k: "k < length t" "[k..<length t] = k # [Suc k..<length t]" by (simp_all add: upt_rec)
  show ?case
  proof (cases "cached_sec (t ! k) = sec")
    case True
    have "cached_sec (t ! j) \<noteq> sec" if "j \<noteq> k"
      using that True Suc.prems(2)[of j] assms(4)[unfolded secs_once_def, rule_format, of k j] assms(5,6) by (cases "j < k") auto
    then show ?thesis using k True assms(3,5) by (auto simp: nth_list_update)
  next
    case False
    then have "cached_sec (t ! j) \<noteq> sec" if "j < Suc k" for j using that Suc.prems(2) by (cases "j = k") auto
    then show ?thesis using Suc.hyps(1)[of "Suc k"] Suc.hyps(2) k False assms(3) by simp
  qed
qed

lemma sec_cache_ok_put:
  assumes "sec_cache_ok t N" "sec = 0 \<or> sec = 4096" "e = sec + 16 + span (N' sec)" "\<And>s. s \<noteq> sec \<Longrightarrow> N' s = N s"
  shows "sec_cache_ok (put_sector sec e t) N'"
proof -
  have t: "length t = EF_SECTOR_CACHE_TABLE_SIZE" "secs_once t" using assms(1) by (simp_all add: sec_cache_ok_def)
  have f: "sec \<noteq> FAILED_ADDR" "(0 :: nat) \<noteq> FAILED_ADDR" "(4096 :: nat) \<noteq> FAILED_ADDR" using assms(2) by (auto simp: FAILED_ADDR_def)
  note p = sec_goes_keeps[OF put_sector_goes[OF t(1), of sec e] t(2)]
  show ?thesis
    using assms p(1,2) p(3)[OF f(2)] p(3)[OF f(3)] p(4)[OF f(1)] by (auto simp: sec_cache_ok_def)
qed

lemma sec_cache_ok_drop:
  assumes "sec_cache_ok t N" "sec = 0 \<or> sec = 4096" "\<And>s. s \<noteq> sec \<Longrightarrow> N' s = N s"
  shows "sec_cache_ok (drop_sector sec t) N'"
proof -
  have t: "length t = EF_SECTOR_CACHE_TABLE_SIZE" "secs_once t" using assms(1) by (simp_all add: sec_cache_ok_def)
  have f: "sec \<noteq> FAILED_ADDR" "(0 :: nat) \<noteq> FAILED_ADDR" "(4096 :: nat) \<noteq> FAILED_ADDR" using assms(2) by (auto simp: FAILED_ADDR_def)
  note p = sec_goes_keeps[OF put_sector_goes[OF t(1), of sec "wadd sec SECTOR_SIZE", folded drop_sector_put] t(2)]
  have "\<not> in_sector sec (wadd sec SECTOR_SIZE)" by (simp add: in_sector_def)
  then have "cached_sec (drop_sector sec t ! j) \<noteq> sec" if "j < length t" for j
    using sector_cache_loop_drop[of 0 t sec "wadd sec SECTOR_SIZE" j] t f(1) that by (simp add: drop_sector_def)
  then have "sec_entries (drop_sector sec t) sec x" for x using p(1) by (simp add: sec_entries_def)
  then show ?thesis
    using assms p(1,2) p(3)[OF f(2)] p(3)[OF f(3)] by (auto simp: sec_cache_ok_def)
qed

section \<open>The room of a sector\<close>

lemma ff_run: "(\<And>i. i < length bs \<Longrightarrow> bs ! i = 0xFF) \<Longrightarrow> fold ff_byte (zip [a..<a + length bs] bs) (x, l) =
    (if bs = [] then (x, l) else (if l \<noteq> 0xFF then a else x, 0xFF))"
proof (induction bs arbitrary: a x l)
  case (Cons b bs)
  have "b = 0xFF" using Cons.prems[of 0] by simp
  moreover have "bs ! i = 0xFF" if "i < length bs" for i using Cons.prems[of "Suc i"] that by simp
  then have "fold ff_byte (zip [Suc a..<Suc a + length bs] bs) (y, 0xFF) = (y, 0xFF)" for y
    using Cons.IH[of "Suc a" y "0xFF"] by auto
  moreover have "[a..<a + length (b # bs)] = a # [Suc a..<Suc a + length bs]" by (simp add: upt_rec)
  ultimately show ?case by (simp add: ff_byte_def)
qed simp

text \<open>A sector in use, with its end and its room.\<close>

definition measured :: "sector_meta_data \<Rightarrow> (nat \<Rightarrow> byte) \<Rightarrow> nat \<Rightarrow> node list \<Rightarrow> sector_meta_data" where
  "measured sector c sec ns = (headed sector c sec)\<lparr>empty_env := sec + 16 + span ns, remain := 4080 - span ns\<rparr>"

context nor_port
begin

lemma wp_ff_loop:
  assumes "blank (mem st) e stop" "stop + 32 \<le> PART_SIZE" "e \<le> start" "start = e \<and> acc = (e, 0) \<or> e < start \<and> acc = (e, 0xFF)"
  shows "wp F (ff_loop W start stop acc) P st = P (e, if start = e \<and> e \<ge> stop then 0 else 0xFF) st"
  using assms(3,4)
proof (induction "stop - start" arbitrary: start acc rule: less_induct)
  case less
  show ?case
  proof (cases "start < stop")
    case True
    define n where "n = (if start + 32 < stop then 32 else stop - start)"
    have n: "0 < n" "start + n \<le> stop" using True by (auto simp: n_def)
    have b: "bytes_at (mem st) start n ! i = 0xFF" if "i < n" for i
      using that assms(1) less.prems(1) n by (simp add: blank_def)
    have "bytes_at (mem st) start n \<noteq> []" using n(1) by (metis length_bytes_at list.size(3) less_irrefl)
    then have "fold ff_byte (zip [start..<start + n] (bytes_at (mem st) start n)) acc = (e, 0xFF)"
      using ff_run[of "bytes_at (mem st) start n" start "fst acc" "snd acc"] b n less.prems(2) by auto
    moreover have "wp F (ff_loop W (start + 32) stop (e, 0xFF)) P st = P (e, 0xFF) st"
      using True less.prems(1) less.hyps[of "start + 32" "(e, 0xFF)"] by auto
    ultimately show ?thesis using True n assms(2)
      by (subst ff_loop.simps) (auto simp: wp_simps wp_rd Let_def n_def[symmetric])
  next
    case False
    then show ?thesis using less.prems by (subst ff_loop.simps) (auto simp: wp_simps)
  qed
qed

lemma wp_continue_ff:
  "blank (mem st) e stop \<Longrightarrow> stop + 32 \<le> PART_SIZE \<Longrightarrow> e \<le> stop \<Longrightarrow> wp F (continue_ff_addr W e stop) P st = P e st"
  by (auto simp: continue_ff_addr_def wp_simps wp_ff_loop[where e = e])

lemma wp_meta_loop:
  assumes "sec = 0 \<or> sec = 4096" "sec_addr sector = sec" "store_status sector \<noteq> SECTOR_STORE_EMPTY"
    and "cache_end (sector_cache_table st) sec e" "e \<le> sec + 4096" "blank (mem st) e (sec + 4096)"
    and "before env sec b" "laid (mem st) b ns" "b + span ns = e" "ns \<noteq> [] \<or> start_addr env \<noteq> FAILED_ADDR" "sec + 16 \<le> b"
    and "length ns < fuel" "length (env_name env) = 32" "empty_env sector = b" "remain sector = sec + 4096 - b"
  shows "wp F (meta_loop W fuel sector env) P st = P (EF_NO_ERR, sector\<lparr>empty_env := e, remain := sec + 4096 - e\<rparr>) st"
  using assms(2,3,7-)
proof (induction ns arbitrary: b env fuel sector)
  case Nil
  then obtain f where f: "fuel = Suc f" by (cases fuel) auto
  have "wp F (get_next_env_addr W sector env) Q st = Q FAILED_ADDR st" for Q
    using wp_get_next[OF assms(1) Nil(1,2,3), of st "[]"] Nil assms(4-6) by simp
  then have "wp F (meta_loop W fuel sector env) P st = P (EF_NO_ERR, sector) st" by (simp add: f wp_simps)
  moreover have "sector\<lparr>empty_env := e, remain := sec + 4096 - e\<rparr> = sector" using Nil(5,10,11) by (cases sector) simp
  ultimately show ?case by (simp only:)
next
  case (Cons x ns)
  obtain k v s where x: "x = (k, v, s)" by (cases x)
  obtain f where f: "fuel = Suc f" using Cons.prems(8) by (cases fuel) auto
  have n: "stored (mem st) b k v" "fits k v" "laid (mem st) (b + node_size k v) ns"
    using Cons.prems(4) by (simp_all add: x)
  have bl: "b + 4096 \<le> PART_SIZE" "b \<noteq> FAILED_ADDR" "b + node_size k v \<le> sec + 4096"
    using Cons.prems(5) assms(1,5) by (auto simp: PART_SIZE_def FAILED_ADDR_def x)
  let ?env = "node_of (env\<lparr>start_addr := b\<rparr>) (mem st) b k v"
  have at: "node_at ?env (mem st) b k v" using n(2) Cons.prems(9) by (intro node_at_of) simp_all
  let ?sector = "sector\<lparr>empty_env := b + node_size k v, remain := sec + 4096 - (b + node_size k v)\<rparr>"
  have next1: "wp F (get_next_env_addr W sector env) Q st = Q b st" for Q
    using wp_get_next[OF assms(1) Cons.prems(1-3), of st "x # ns"] Cons.prems assms(4-6) by simp
  have read: "wp F (read_env W (env\<lparr>start_addr := b\<rparr>)) Q st = Q (EF_NO_ERR, ?env) st" for Q
    using n bl Cons.prems(9) by (intro wp_read_env) simp_all
  have "wp F (meta_loop W f ?sector ?env) P st = P (EF_NO_ERR, ?sector\<lparr>empty_env := e, remain := sec + 4096 - e\<rparr>) st"
  proof (rule Cons.IH[OF _ _ before_node_at[OF at Cons.prems(7)] n(3)])
    show "ns \<noteq> [] \<or> start_addr ?env \<noteq> FAILED_ADDR" "length (env_name ?env) = 32" using at bl by (simp_all add: node_at_def)
    show "b + node_size k v + span ns = e" "sec + 16 \<le> b + node_size k v" "length ns < f" "sec_addr ?sector = sec"
      "store_status ?sector \<noteq> SECTOR_STORE_EMPTY"
      using Cons.prems by (simp_all add: x f)
  qed simp_all
  moreover have "wadd b (node_size k v) = b + node_size k v" "wsub (sec + 4096 - b) (node_size k v) = sec + 4096 - (b + node_size k v)"
    using bl assms(1) by (auto simp: wsub_small)
  ultimately show ?case
    using bl(2) at Cons.prems(10,11) unfolding f
    by (simp add: wp_simps Let_def next1 read node_at_def)
qed

lemma wp_read_sector:
  assumes "sector_ok (mem st) sec (N sec)" "sec_cache_ok (sector_cache_table st) N"
    and "sec_store (mem st) sec = SECTOR_STORE_EMPTY \<or> sec_store (mem st) sec = SECTOR_STORE_USING"
    and "\<And>t. sec_cache_ok t N \<Longrightarrow> P (EF_NO_ERR, measured sector (mem st) sec (N sec)) (st\<lparr>sector_cache_table := t\<rparr>)"
  shows "wp F (read_sector_meta_data W sec sector True) P st"
proof -
  let ?t = "sector_cache_table st" and ?e = "sec + 16 + span (N sec)" and ?c = "mem st"
  have sec: "sec = 0 \<or> sec = 4096" "span (N sec) \<le> 4080" "laid ?c (sec + 16) (N sec)" "blank ?c ?e (sec + 4096)"
    "N sec = [] \<longleftrightarrow> sec_store ?c sec = SECTOR_STORE_EMPTY"
    using assms(1) by (auto simp: sector_ok_def)
  have m: "sec mod SECTOR_SIZE = 0" "sec + 16 \<le> PART_SIZE" "wadd sec 16 = sec + 16" "wadd sec SECTOR_SIZE = sec + 4096"
    "SECTOR_SIZE - 16 = 4080" "SECTOR_HDR_DATA_SIZE = 16"
    "get_status [?c (Suc sec)] SECTOR_DIRTY_STATUS_NUM = sec_dirty ?c sec"
    using sec(1) by (auto simp: SECTOR_SIZE_def PART_SIZE_def SECTOR_HDR_DATA_SIZE_def sec_dirty_def)
  have w: "wsub ?e sec = 16 + span (N sec)" "wsub SECTOR_SIZE (16 + span (N sec)) = 4080 - span (N sec)"
    using sec(1,2) by (auto simp: wsub_small SECTOR_SIZE_def)
  note h = header_fields[OF assms(1), unfolded One_nat_def]
  note s = wp_simps wp_rd Let_def headed_def sec_store_def[symmetric] sec_dirty_def[symmetric] SECTOR_NOT_COMBINED_def measured_def h m w
  have ne: "SECTOR_STORE_USING \<noteq> SECTOR_STORE_EMPTY" by (simp add: ef_states)
  note goal = assms(4)[OF assms(2)]
  consider (E) "sec_store ?c sec = SECTOR_STORE_EMPTY" | (C) x where "sec_store ?c sec = SECTOR_STORE_USING" "sec_cached ?t sec = Some x"
    | (M) "sec_store ?c sec = SECTOR_STORE_USING" "sec_cached ?t sec = None"
    using assms(3) by fastforce
  then show ?thesis
  proof cases
    case E
    then show ?thesis using goal sec(5) unfolding read_sector_meta_data_def by (simp add: s)
  next
    case C
    then have "x = ?e" using sec_cache_ok_end[OF assms(2) sec(1)] by (simp add: cache_end_def)
    then show ?thesis using goal C unfolding read_sector_meta_data_def by (simp add: s ne)
  next
    case M
    have l: "length (N sec) < Suc SECTOR_SIZE" using length_span[of "N sec"] sec(2) by (simp add: SECTOR_SIZE_def)
    have nn: "N sec \<noteq> []" using M(1) sec(5) ne by auto
    have en: "length (env_name ((raw_node W)\<lparr>start_addr := FAILED_ADDR\<rparr>)) = 32" "before ((raw_node W)\<lparr>start_addr := FAILED_ADDR\<rparr>) sec (sec + 16)"
      using raw_name by (simp_all add: EF_ENV_NAME_MAX_def before_def)
    note meta = wp_meta_loop[where sec = sec and e = "?e" and b = "sec + 16" and ns = "N sec" and fuel = "Suc SECTOR_SIZE",
        OF sec(1) _ _ sec_cache_ok_end[OF assms(2) sec(1)] _ sec(4) en(2) sec(3) refl disjI1[OF nn] order.refl l en(1)]
    have ff: "wp F (continue_ff_addr W ?e (sec + 4096)) Q st = Q ?e st" for Q
      using sec(1,2) by (intro wp_continue_ff[OF sec(4)]) (auto simp: PART_SIZE_def)
    have ok: "sec_cache_ok (put_sector sec ?e ?t) N" by (intro sec_cache_ok_put[OF assms(2) sec(1)]) simp_all
    show ?thesis
      unfolding read_sector_meta_data_def
      using M ne sec(1,2) assms(4)[OF ok]
      by (simp add: s meta ff update_sector_cache_def put_sector_def del: meta_loop.simps)
  qed
qed

end

end
