(* ===== verification/Easyflash_Alloc.thy ===== *)
theory Easyflash_Alloc
  imports Easyflash_Map
begin

text \<open>
  Where the next variable goes: \<open>alloc_env\<close> and its iterations over the sectors.
\<close>

section \<open>The place for a node\<close>

definition open_for :: "(nat \<Rightarrow> byte) \<Rightarrow> (nat \<Rightarrow> node list) \<Rightarrow> bool \<Rightarrow> nat \<Rightarrow> nat \<Rightarrow> bool" where
  "open_for c N gc sz sec \<longleftrightarrow> sz < 4080 - span (N sec) \<and>
     (sec_dirty c sec = SECTOR_DIRTY_FALSE \<or> sec_dirty c sec = SECTOR_DIRTY_TRUE \<and> \<not> gc)"

definition place_in :: "nat \<Rightarrow> (nat \<Rightarrow> byte) \<Rightarrow> (nat \<Rightarrow> node list) \<Rightarrow> bool \<Rightarrow> nat \<Rightarrow> nat option" where
  "place_in w c N gc sz = find (\<lambda>sec. sec_store c sec = w \<and> open_for c N gc sz sec) [0, 4096]"

definition count_in :: "nat \<Rightarrow> (nat \<Rightarrow> byte) \<Rightarrow> nat" where
  "count_in w c = length (filter (\<lambda>sec. sec_store c sec = w) [0, 4096])"

definition alloc_place :: "(nat \<Rightarrow> byte) \<Rightarrow> (nat \<Rightarrow> node list) \<Rightarrow> bool \<Rightarrow> nat \<Rightarrow> nat option" where
  "alloc_place c N gc sz =
     (case place_in SECTOR_STORE_USING c N gc sz of
        Some sec \<Rightarrow> Some sec
      | None \<Rightarrow> if count_in SECTOR_STORE_EMPTY c > 1 \<or> gc then place_in SECTOR_STORE_EMPTY c N gc sz else None)"

text \<open>The request for a collection after a search.\<close>

definition asks_gc :: "(nat \<Rightarrow> byte) \<Rightarrow> (nat \<Rightarrow> node list) \<Rightarrow> bool \<Rightarrow> nat \<Rightarrow> bool" where
  "asks_gc c N gc sz \<longleftrightarrow> gc \<or> count_in SECTOR_STORE_EMPTY c = 1 \<and> place_in SECTOR_STORE_USING c N gc sz = None"

lemma next_measured [simp]:
  "get_next_sector_addr (measured s c 0 ns) = 4096" "get_next_sector_addr (measured s c 4096 ns) = FAILED_ADDR"
  by (simp_all add: get_next_sector_addr_def headed_def measured_def EF_START_ADDR_def FAILED_ADDR_def SECTOR_NOT_COMBINED_def
      SECTOR_SIZE_def ENV_AREA_SIZE_def Let_def)

lemma measured_fields [simp]:
  "sec_addr (measured s c sec ns) = sec" "store_status (measured s c sec ns) = sec_store c sec" "check_ok (measured s c sec ns)"
  "dirty_status (measured s c sec ns) = sec_dirty c sec" "remain (measured s c sec ns) = 4080 - span ns"
  "empty_env (measured s c sec ns) = sec + 16 + span ns"
  by (simp_all add: measured_def headed_def)

context nor_port
begin

lemma wp_statistics:
  assumes "store_ok (mem st) N"
    and "\<And>s. P (s, count_in SECTOR_STORE_EMPTY (mem st), count_in SECTOR_STORE_USING (mem st)) st"
  shows "wp F (sector_iterator W sector SECTOR_STORE_UNUSED (0, 0) sector_statistics_cb False) P st"
proof -
  have ok: "sector_ok (mem st) 0 (N 0)" "sector_ok (mem st) 4096 (N 4096)" using assms(1) by (simp_all add: store_ok_def)
  have "(0 :: nat) \<noteq> FAILED_ADDR" "(4096 :: nat) \<noteq> FAILED_ADDR" by (simp_all add: FAILED_ADDR_def)
  then show ?thesis
    unfolding sector_iterator_def SECTOR_NUM_def numeral_2_eq_2
    using assms(2)[of "headed (headed (sector\<lparr>sec_addr := FAILED_ADDR\<rparr>) (mem st) 0) (mem st) 4096"]
    by (auto simp: wp_simps wp_read_header[OF ok(1)] wp_read_header[OF ok(2)] sector_statistics_cb_def Let_def count_in_def ef_states
        split: if_splits)
qed

lemma wp_alloc_step:
  assumes "store_ok (mem st) N" "sec_cache_ok (sector_cache_table st) N" "sec = 0 \<or> sec = 4096"
    and "w = SECTOR_STORE_EMPTY \<or> w = SECTOR_STORE_USING" "get_next_sector_addr sector = sec"
    and "\<And>s t. sec_store (mem st) sec = w \<Longrightarrow> open_for (mem st) N (gc_request st) sz sec \<Longrightarrow> sec_cache_ok t N \<Longrightarrow>
      P (measured s (mem st) sec (N sec), sec + 16 + span (N sec)) (st\<lparr>sector_cache_table := t\<rparr>)"
    and "\<And>s t. \<not> (sec_store (mem st) sec = w \<and> open_for (mem st) N (gc_request st) sz sec) \<Longrightarrow> sec_cache_ok t N \<Longrightarrow>
      get_next_sector_addr s = (if sec = 0 then 4096 else FAILED_ADDR) \<Longrightarrow>
      wp F (sector_loop W fuel w (alloc_env_cb sz) True s arg) P (st\<lparr>sector_cache_table := t\<rparr>)"
  shows "wp F (sector_loop W (Suc fuel) w (alloc_env_cb sz) True sector arg) P st"
proof -
  have ok: "sector_ok (mem st) sec (N sec)" by (rule sector_ok_store[OF assms(1,3)])
  have f: "sec \<noteq> FAILED_ADDR" "SECTOR_STORE_UNUSED \<noteq> w" using assms(3,4) by (auto simp: FAILED_ADDR_def ef_states)
  have n: "get_next_sector_addr (headed s c sec) = (if sec = 0 then 4096 else FAILED_ADDR)"
    "get_next_sector_addr (measured s c sec ns) = (if sec = 0 then 4096 else FAILED_ADDR)" for s c ns
    using assms(3) by auto
  have i: "st\<lparr>sector_cache_table := sector_cache_table st\<rparr> = st" by simp
  have g: "gc_request (st\<lparr>sector_cache_table := t\<rparr>) = gc_request st" for t by simp
  show ?thesis
  proof (cases "sec_store (mem st) sec = w")
    case False
    then show ?thesis
      using assms(7)[OF _ assms(2) n(1)[of sector "mem st"]] f assms(5)
      by (simp add: wp_simps wp_read_header[OF ok] Let_def i)
  next
    case True
    have "wp F (read_sector_meta_data W sec (headed sector (mem st) sec) True) (\<lambda>(_, s). wp F (ebind (alloc_env_cb sz s arg)
        (\<lambda>(stop, arg). if stop then eret (s, arg) else sector_loop W fuel w (alloc_env_cb sz) True s arg)) P) st"
    proof (rule wp_read_sector[where N = N, OF ok assms(2)])
      show "sec_store (mem st) sec = SECTOR_STORE_EMPTY \<or> sec_store (mem st) sec = SECTOR_STORE_USING" using True assms(4) by simp
      fix t assume t: "sec_cache_ok t N"
      let ?s = "measured (headed sector (mem st) sec) (mem st) sec (N sec)"
      show "(case (EF_NO_ERR, ?s) of (_, s) \<Rightarrow> wp F (ebind (alloc_env_cb sz s arg)
        (\<lambda>(stop, arg). if stop then eret (s, arg) else sector_loop W fuel w (alloc_env_cb sz) True s arg)) P) (st\<lparr>sector_cache_table := t\<rparr>)"
      proof (cases "open_for (mem st) N (gc_request st) sz sec")
        case o: True
        then show ?thesis using assms(6)[OF True o t] by (simp add: wp_simps alloc_env_cb_def open_for_def)
      next
        case o: False
        then show ?thesis using assms(7)[OF _ t n(2)] by (auto simp: wp_simps alloc_env_cb_def open_for_def)
      qed
    qed
    then show ?thesis
      using f assms(5) True by (simp add: wp_simps wp_read_header[OF ok] Let_def case_prod_beta')
  qed
qed

lemma wp_alloc_in:
  assumes "store_ok (mem st) N" "sec_cache_ok (sector_cache_table st) N" "w = SECTOR_STORE_EMPTY \<or> w = SECTOR_STORE_USING"
    and "\<And>sec s t. place_in w (mem st) N (gc_request st) sz = Some sec \<Longrightarrow> sec_cache_ok t N \<Longrightarrow>
      P (measured s (mem st) sec (N sec), sec + 16 + span (N sec)) (st\<lparr>sector_cache_table := t\<rparr>)"
    and "\<And>s t. place_in w (mem st) N (gc_request st) sz = None \<Longrightarrow> sec_cache_ok t N \<Longrightarrow>
      P (s, FAILED_ADDR) (st\<lparr>sector_cache_table := t\<rparr>)"
  shows "wp F (sector_iterator W sector w FAILED_ADDR (alloc_env_cb sz) True) P st"
  unfolding sector_iterator_def SECTOR_NUM_def numeral_2_eq_2
proof (rule wp_alloc_step[OF assms(1,2) _ assms(3) next_sector(1)], goal_cases)
  case (2 s t)
  then show ?case using assms(4)[of 0 t s] by (simp add: place_in_def)
next
  case (3 s t)
  let ?st = "st\<lparr>sector_cache_table := t\<rparr>"
  have next1: "get_next_sector_addr s = 4096" using 3 by simp
  show ?case
  proof (rule wp_alloc_step[where N = N and sz = sz, OF _ _ _ assms(3) next1], goal_cases)
    case (4 s' t')
    then show ?case using 3 assms(4)[of 4096 t' s'] by (auto simp: place_in_def)
  next
    case (5 s' t')
    then show ?case using 3 assms(5)[of t' s'] by (auto simp: place_in_def wp_simps)
  qed (use assms(1) 3 in simp_all)
qed simp


lemma wp_alloc_env:
  assumes "store_ok (mem st) N" "sec_cache_ok (sector_cache_table st) N"
    and "\<And>sec s t. alloc_place (mem st) N (gc_request st) sz = Some sec \<Longrightarrow> sec_cache_ok t N \<Longrightarrow>
      P (sec + 16 + span (N sec), measured s (mem st) sec (N sec)) (st\<lparr>sector_cache_table := t\<rparr>)"
    and "\<And>s t. alloc_place (mem st) N (gc_request st) sz = None \<Longrightarrow> sec_cache_ok t N \<Longrightarrow>
      P (FAILED_ADDR, s) (st\<lparr>sector_cache_table := t, gc_request := asks_gc (mem st) N (gc_request st) sz\<rparr>)"
  shows "wp F (alloc_env W sector sz) P st"
proof -
  let ?c = "mem st" and ?gc = "gc_request st"
  have f: "sec + 16 + span (N sec) \<noteq> FAILED_ADDR" if "sec \<in> {0, 4096}" for sec
    using that assms(1) by (auto simp: store_ok_def sector_ok_def FAILED_ADDR_def)
  have in01: "sec \<in> {0, 4096}" if "place_in w ?c N gc sz = Some sec" for w gc sec
    using that by (auto simp: place_in_def split: if_splits)
  have self: "gc_request st = b \<Longrightarrow> st\<lparr>sector_cache_table := t, gc_request := b\<rparr> = st\<lparr>sector_cache_table := t\<rparr>" for t b
    by simp
  let ?n = "count_in SECTOR_STORE_EMPTY ?c"
  define rest where "rest = (\<lambda>e (sector, env_addr). if 0 < e \<and> env_addr = FAILED_ADDR then
       ebind (eget gc_request) (\<lambda>gc. if e > EF_GC_EMPTY_SEC_THRESHOLD \<or> gc then
         ebind (sector_iterator W sector SECTOR_STORE_EMPTY env_addr (alloc_env_cb sz) True) (\<lambda>(sector, env_addr). eret (env_addr, sector))
       else ebind (emod (\<lambda>st. st\<lparr>gc_request := True\<rparr>)) (\<lambda>_. eret (env_addr, sector)))
     else eret (env_addr, sector))"
  define search where "search = (\<lambda>sector u. if (0 :: nat) < u then sector_iterator W sector SECTOR_STORE_USING FAILED_ADDR (alloc_env_cb sz) True
            else eret (sector, FAILED_ADDR))"
  have eq: "alloc_env W sector sz = ebind (sector_iterator W sector SECTOR_STORE_UNUSED (0, 0) sector_statistics_cb False)
      (\<lambda>(sector, e, u). ebind (search sector u) (rest e))"
    unfolding alloc_env_def rest_def search_def by (rule refl)
  have found: "wp F (rest ?n (measured s ?c sec (N sec), sec + 16 + span (N sec))) P (st\<lparr>sector_cache_table := t\<rparr>)"
    if "place_in SECTOR_STORE_USING ?c N ?gc sz = Some sec" "sec_cache_ok t N" for s sec t
    using that f[OF in01[OF that(1)]] assms(3)[OF _ that(2)] by (simp add: rest_def wp_simps alloc_place_def)
  have none: "wp F (rest ?n (s, FAILED_ADDR)) P (st\<lparr>sector_cache_table := t\<rparr>)"
    if no: "place_in SECTOR_STORE_USING ?c N ?gc sz = None" and t: "sec_cache_ok t N" for s t
  proof (cases "count_in SECTOR_STORE_EMPTY ?c > 1 \<or> 0 < count_in SECTOR_STORE_EMPTY ?c \<and> ?gc")
    case True
    let ?st = "st\<lparr>sector_cache_table := t\<rparr>"
    have "wp F (sector_iterator W s SECTOR_STORE_EMPTY FAILED_ADDR (alloc_env_cb sz) True) (\<lambda>(sector, a). P (a, sector)) ?st"
    proof (rule wp_alloc_in[where N = N])
      fix sec s' t' assume p: "place_in SECTOR_STORE_EMPTY (mem ?st) N (gc_request ?st) sz = Some sec" and t': "sec_cache_ok t' N"
      show "(case (measured s' (mem ?st) sec (N sec), sec + 16 + span (N sec)) of (sector, a) \<Rightarrow> P (a, sector)) (?st\<lparr>sector_cache_table := t'\<rparr>)"
        using assms(3)[OF _ t'] p no True by (auto simp: alloc_place_def)
    next
      fix s' t' assume p: "place_in SECTOR_STORE_EMPTY (mem ?st) N (gc_request ?st) sz = None" and t': "sec_cache_ok t' N"
      have "asks_gc ?c N ?gc sz = ?gc" using True by (auto simp: asks_gc_def)
      then show "(case (s', FAILED_ADDR) of (sector, a) \<Rightarrow> P (a, sector)) (?st\<lparr>sector_cache_table := t'\<rparr>)"
        using assms(4)[OF _ t'] p no True by (auto simp: alloc_place_def self)
    qed (use assms(1) t in simp_all)
    then show ?thesis using True by (auto simp: rest_def wp_simps wp_eret_fun case_prod_beta' EF_GC_EMPTY_SEC_THRESHOLD_def)
  next
    case False
    have "alloc_place ?c N ?gc sz = None"
    proof (cases "count_in SECTOR_STORE_EMPTY ?c = 0")
      case True
      then have "place_in SECTOR_STORE_EMPTY ?c N ?gc sz = None" by (auto simp: count_in_def place_in_def split: if_splits)
      then show ?thesis using no by (simp add: alloc_place_def)
    qed (use False no in \<open>auto simp: alloc_place_def\<close>)
    from assms(4)[OF this t] show ?thesis
      using False no by (auto simp: rest_def wp_simps asks_gc_def EF_GC_EMPTY_SEC_THRESHOLD_def self)
  qed
  have using0: "place_in SECTOR_STORE_USING ?c N ?gc sz = None" if "count_in SECTOR_STORE_USING ?c = 0"
    using that by (auto simp: count_in_def place_in_def split: if_splits)
  show ?thesis
    unfolding eq wp_ebind
  proof (rule wp_statistics[OF assms(1)])
    fix s
    have "wp F (search s (count_in SECTOR_STORE_USING ?c)) (\<lambda>x. wp F (rest ?n x) P) st"
    proof (cases "count_in SECTOR_STORE_USING ?c = 0")
      case True
      have "st\<lparr>sector_cache_table := sector_cache_table st\<rparr> = st" by simp
      then show ?thesis using none[OF using0[OF True] assms(2), of s] True by (simp add: wp_simps search_def)
    next
      case False
      have "wp F (sector_iterator W s SECTOR_STORE_USING FAILED_ADDR (alloc_env_cb sz) True) (\<lambda>x. wp F (rest ?n x) P) st"
        by (rule wp_alloc_in[OF assms(1,2)]) (use found none in auto)
      then show ?thesis using False by (simp add: search_def)
    qed
    then show "wp F (case (s, ?n, count_in SECTOR_STORE_USING ?c) of (sector, e, u) \<Rightarrow> ebind (search sector u) (rest e)) P st"
      by (simp add: wp_ebind)
  qed
qed

end

end
