(* ===== verification/Easyflash_Update.thy ===== *)
theory Easyflash_Update
  imports Easyflash_Alloc
begin

text \<open>
  What deleting and creating a variable does to the nodes of the store: a status is advanced, a node is appended.
\<close>

section \<open>Nodes and their addresses\<close>

fun placed :: "nat \<Rightarrow> node list \<Rightarrow> (nat \<times> node) list" where
  "placed b [] = []"
| "placed b ((k, v, t) # ns) = (b, k, v, t) # placed (b + node_size k v) ns"

fun set_at :: "nat \<Rightarrow> nat \<Rightarrow> nat \<Rightarrow> node list \<Rightarrow> node list" where
  "set_at b a s [] = []"
| "set_at b a s ((k, v, t) # ns) = (k, v, if b = a then s else t) # set_at (b + node_size k v) a s ns"

lemma node_size_pos [simp]: "0 < node_size k v" "node_size k v \<noteq> 0"
  by (simp_all add: node_size_def)

lemma placed_append [simp]: "placed b (xs @ ys) = placed b xs @ placed (b + span xs) ys"
  by (induction b xs rule: placed.induct) (simp_all add: add.assoc)

lemma placed_bounds: "(a, k, v, t) \<in> set (placed b ns) \<Longrightarrow> b \<le> a \<and> a + node_size k v \<le> b + span ns"
  by (induction b ns rule: placed.induct) auto

lemma span_set_at [simp]: "span (set_at b a s ns) = span ns"
  by (induction b a s ns rule: set_at.induct) simp_all

lemma set_at_Nil [simp]: "set_at b a s ns = [] \<longleftrightarrow> ns = []"
  by (cases "(b, a, s, ns)" rule: set_at.cases) simp_all

lemma set_at_append: "set_at b a s (xs @ ys) = set_at b a s xs @ set_at (b + span xs) a s ys"
  by (induction b a s xs rule: set_at.induct) (simp_all add: add.assoc)

lemma set_at_before: "a < b \<Longrightarrow> set_at b a s ns = ns"
  by (induction b a s ns rule: set_at.induct) simp_all

lemma placed_set_at: "placed b (set_at b a s ns) = map (\<lambda>(a', k, v, t). (a', k, v, if a' = a then s else t)) (placed b ns)"
  by (induction b a s ns rule: set_at.induct) simp_all

lemma live_from_placed: "live_from b ns = map (\<lambda>(a, k, v, t). (a, k, v)) (filter (\<lambda>(a, k, v, t). t = ENV_WRITE) (placed b ns))"
  by (induction b ns rule: live_from.induct) simp_all

lemma live_from_iff: "(a, k, v) \<in> set (live_from b ns) \<longleftrightarrow> (a, k, v, ENV_WRITE) \<in> set (placed b ns)"
  by (force simp: live_from_placed)

lemma live_from_set_at:
  "s \<noteq> ENV_WRITE \<Longrightarrow> set (live_from b (set_at b a s ns)) = {x \<in> set (live_from b ns). fst x \<noteq> a}"
  by (force simp: live_from_iff placed_set_at split: if_splits)

lemma stored_cong: "(\<And>i. a + 4 \<le> i \<Longrightarrow> i < a + node_size k v \<Longrightarrow> c i = d i) \<Longrightarrow> stored c a k v = stored d a k v"
  unfolding stored_def by (subst bytes_at_cong[where d = d]) auto

text \<open>The byte of a status is advanced.\<close>

lemma laid_set_at:
  assumes "laid c b ns" "(a, k, v, t) \<in> set (placed b ns)" "t \<le> s" "s = ENV_PRE_DELETE \<or> s = ENV_DELETED"
  shows "laid (burn a [status_byte s] c) b (set_at b a s ns)"
  using assms(1,2)
proof (induction c b ns rule: laid.induct)
  case (2 c b k' v' t' ns)
  have n: "24 \<le> node_size k' v'" by (simp add: node_size_def)
  show ?case
  proof (cases "b = a")
    case True
    then have "t' = t" using 2(3) placed_bounds[of a k v t "b + node_size k' v'" ns] n by auto
    have "stored (burn a [status_byte s] c) b k' v'"
      using 2(2) True by (subst stored_cong[where d = c]) (auto simp: burn_def)
    moreover have "burn a [status_byte s] c b = c b AND status_byte s" using True by (simp add: burn_def)
    then have "get_status [burn a [status_byte s] c b] ENV_STATUS_NUM = s"
      using 2(2) \<open>t' = t\<close> assms(3,4) by (auto simp: get_status_write ef_states max_def)
    moreover have "laid (burn a [status_byte s] c) (b + node_size k' v') ns"
      using 2(2) True n by (subst laid_cong[where d = c]) (auto simp: burn_def)
    ultimately show ?thesis using 2(2) True n assms(4) by (simp add: set_at_before)
  next
    case False
    then have in2: "(a, k, v, t) \<in> set (placed (b + node_size k' v') ns)" using 2(3) by auto
    then have ge: "b + node_size k' v' \<le> a" using placed_bounds by blast
    have "stored (burn a [status_byte s] c) b k' v'"
      using 2(2) ge n by (subst stored_cong[where d = c]) (auto simp: burn_def)
    moreover have "burn a [status_byte s] c b = c b" using ge n by (simp add: burn_def)
    ultimately show ?thesis using 2 in2 False by simp
  qed
qed simp

lemma placed_stored:
  "laid c b ns \<Longrightarrow> (a, k, v, t) \<in> set (placed b ns) \<Longrightarrow>
   stored c a k v \<and> fits k v \<and> 0 \<notin> set k \<and> get_status [c a] ENV_STATUS_NUM = t \<and> (t = ENV_WRITE \<or> t = ENV_PRE_DELETE \<or> t = ENV_DELETED)"
  by (induction c b ns rule: laid.induct) auto

section \<open>The store with a status advanced\<close>

definition has_node :: "(nat \<Rightarrow> node list) \<Rightarrow> nat \<Rightarrow> nat \<Rightarrow> byte list \<Rightarrow> byte list \<Rightarrow> nat \<Rightarrow> bool" where
  "has_node N sec a k v t \<longleftrightarrow> (sec = 0 \<or> sec = 4096) \<and> (a, k, v, t) \<in> set (placed (sec + 16) (N sec))"

definition advance :: "nat \<Rightarrow> nat \<Rightarrow> nat \<Rightarrow> (nat \<Rightarrow> node list) \<Rightarrow> nat \<Rightarrow> node list" where
  "advance sec a s N = N(sec := set_at (sec + 16) a s (N sec))"

definition dirtied :: "nat \<Rightarrow> (nat \<Rightarrow> byte) \<Rightarrow> nat \<Rightarrow> byte" where
  "dirtied sec c = (if sec_dirty c sec = SECTOR_DIRTY_FALSE then burn (sec + 1) [status_byte SECTOR_DIRTY_TRUE] c else c)"

lemma sector_ok_cong:
  assumes "\<And>k. sec \<le> k \<Longrightarrow> k < sec + 4096 \<Longrightarrow> c k = d k"
  shows "sector_ok c sec ns = sector_ok d sec ns"
proof (cases "span ns \<le> 4080")
  case True
  have "laid c (sec + 16) ns = laid d (sec + 16) ns" using assms True by (intro laid_cong) auto
  moreover have "bytes_at c (sec + 4) 8 = bytes_at d (sec + 4) 8" using assms by (intro bytes_at_cong) auto
  moreover have "blank c (sec + 16 + span ns) (sec + 4096) = blank d (sec + 16 + span ns) (sec + 4096)"
    using assms by (auto simp: blank_def)
  ultimately show ?thesis using assms[of sec] by (simp add: sector_ok_def sec_store_def)
qed (simp add: sector_ok_def)

lemma sector_ok_second:
  assumes "sector_ok c sec ns" "length bs = 1"
  shows "sector_ok (burn (sec + 1) bs c) sec ns"
proof -
  have "laid (burn (sec + 1) bs c) (sec + 16) ns = laid c (sec + 16) ns" using assms(2) by (intro laid_cong) (auto simp: burn_def)
  moreover have "bytes_at (burn (sec + 1) bs c) (sec + 4) 8 = bytes_at c (sec + 4) 8" using assms(2) by (intro bytes_at_cong) (auto simp: burn_def)
  ultimately show ?thesis using assms by (auto simp: sector_ok_def sec_store_def burn_def blank_def)
qed

lemma store_ok_dirtied:
  assumes "store_ok c N" "sec = 0 \<or> sec = 4096"
  shows "store_ok (dirtied sec c) N"
proof -
  have "sector_ok (burn (sec + 1) [status_byte SECTOR_DIRTY_TRUE] c) s (N s)" if "s = 0 \<or> s = 4096" for s
  proof (cases "s = sec")
    case True
    then show ?thesis using sector_ok_second[of c sec "N sec" "[status_byte SECTOR_DIRTY_TRUE]"] assms by (auto simp: store_ok_def)
  next
    case False
    then show ?thesis using assms that by (subst sector_ok_cong[where d = c]) (auto simp: burn_def store_ok_def)
  qed
  then show ?thesis using assms(1) by (simp add: dirtied_def store_ok_def)
qed

lemma store_ok_advance:
  assumes "store_ok c N" "has_node N sec a k v t" "t \<le> s" "s = ENV_PRE_DELETE \<or> s = ENV_DELETED"
  shows "store_ok (burn a [status_byte s] c) (advance sec a s N)"
proof -
  let ?c = "burn a [status_byte s] c"
  have sec: "sec = 0 \<or> sec = 4096" and p: "(a, k, v, t) \<in> set (placed (sec + 16) (N sec))"
    using assms(2) by (auto simp: has_node_def)
  have ok: "sector_ok c sec (N sec)" by (rule sector_ok_store[OF assms(1) sec])
  have b: "sec + 16 \<le> a" "a + 24 \<le> sec + 16 + span (N sec)" "span (N sec) \<le> 4080"
    using placed_bounds[OF p] ok by (auto simp: node_size_def sector_ok_def)
  have "laid ?c (sec + 16) (set_at (sec + 16) a s (N sec))"
    using ok p assms(3,4) by (intro laid_set_at) (auto simp: sector_ok_def)
  moreover have "bytes_at ?c (sec + 4) 8 = bytes_at c (sec + 4) 8" using b by (intro bytes_at_cong) (auto simp: burn_def)
  moreover have "blank ?c (sec + 16 + span (N sec)) (sec + 4096)" using ok b by (auto simp: sector_ok_def blank_def burn_def)
  ultimately have "sector_ok ?c sec (set_at (sec + 16) a s (N sec))"
    using ok b by (auto simp: sector_ok_def sec_store_def burn_def)
  moreover have "sector_ok ?c s' (N s')" if "s' \<noteq> sec" "s' = 0 \<or> s' = 4096" for s'
    using that sec b sector_ok_store[OF assms(1) that(2)] by (subst sector_ok_cong[where d = c]) (auto simp: burn_def)
  ultimately show ?thesis using sec by (auto simp: store_ok_def advance_def)
qed

lemma live_iff: "(a, k, v) \<in> set (live N) \<longleftrightarrow> has_node N 0 a k v ENV_WRITE \<or> has_node N 4096 a k v ENV_WRITE"
  by (auto simp: live_def has_node_def live_from_iff)

lemma has_node_bounds:
  assumes "store_ok c N" "has_node N sec a k v t"
  shows "sec + 16 \<le> a" "a + node_size k v \<le> sec + 4096" "sector_of a = sec" "stored c a k v" "fits k v" "0 \<notin> set k"
    "get_status [c a] ENV_STATUS_NUM = t"
proof -
  have sec: "sec = 0 \<or> sec = 4096" and p: "(a, k, v, t) \<in> set (placed (sec + 16) (N sec))"
    using assms(2) by (auto simp: has_node_def)
  have ok: "sector_ok c sec (N sec)" by (rule sector_ok_store[OF assms(1) sec])
  show *: "sec + 16 \<le> a" "a + node_size k v \<le> sec + 4096"
    using placed_bounds[OF p] ok by (auto simp: sector_ok_def)
  show "sector_of a = sec" using * sec node_size_pos(1)[of k v] by (intro sector_of_inside) (auto simp del: node_size_pos)
  show "stored c a k v" "fits k v" "0 \<notin> set k" "get_status [c a] ENV_STATUS_NUM = t"
    using placed_stored[OF _ p, of c] ok by (auto simp: sector_ok_def)
qed

lemma live_advance:
  assumes "store_ok c N" "has_node N sec a k v t" "s \<noteq> ENV_WRITE"
  shows "set (live (advance sec a s N)) = {x \<in> set (live N). fst x \<noteq> a}"
proof -
  have sec: "sec = 0 \<or> sec = 4096" using assms(2) by (auto simp: has_node_def)
  have other: "(a, y) \<notin> set (live_from (s' + 16) (N s'))" if "s' \<noteq> sec" "s' = 0 \<or> s' = 4096" for y s'
  proof
    assume y: "(a, y) \<in> set (live_from (s' + 16) (N s'))"
    obtain k' v' where "y = (k', v')" by (cases y)
    then have "has_node N s' a k' v' ENV_WRITE" using that y by (auto simp: has_node_def live_from_iff)
    then show False using has_node_bounds(3)[OF assms(1)] assms(2) that(1) by metis
  qed
  from sec show ?thesis
    using other[where s' = 0] other[where s' = 4096] live_from_set_at[OF assms(3), of "sec + 16" a "N sec"]
    by (auto simp: live_def advance_def)
qed

section \<open>One address, one node\<close>

lemma placed_unique:
  "(a, k, v, t) \<in> set (placed b ns) \<Longrightarrow> (a, k', v', t') \<in> set (placed b ns) \<Longrightarrow> k = k' \<and> v = v' \<and> t = t'"
proof (induction b ns rule: placed.induct)
  case (2 b k0 v0 t0 ns)
  have "(a, x) \<in> set (placed (b + node_size k0 v0) ns) \<Longrightarrow> a \<noteq> b" for x
    using placed_bounds[of a "fst x" "fst (snd x)" "snd (snd x)" "b + node_size k0 v0" ns] by auto
  then show ?case using 2 by auto
qed simp

lemma has_node_unique:
  assumes "store_ok c N" "has_node N sec a k v t" "has_node N sec' a k' v' t'"
  shows "sec = sec' \<and> k = k' \<and> v = v' \<and> t = t'"
proof -
  have "sec = sec'" using has_node_bounds(3)[OF assms(1,2)] has_node_bounds(3)[OF assms(1,3)] by simp
  then show ?thesis using assms(2,3) placed_unique by (auto simp: has_node_def)
qed

lemma live_sector: "(a, k, v) \<in> set (live N) \<Longrightarrow> \<exists>sec. has_node N sec a k v ENV_WRITE"
  by (auto simp: live_iff)

lemma has_node_advance:
  "has_node N sec a k v t \<Longrightarrow> has_node (advance sec a s N) sec a k v s"
  by (force simp: has_node_def advance_def placed_set_at)

section \<open>The map\<close>

text \<open>Every name is live once.\<close>

definition single :: "(nat \<times> byte list \<times> byte list) list \<Rightarrow> bool" where
  "single L \<longleftrightarrow> (\<forall>a v a' v' k. (a, k, v) \<in> set L \<longrightarrow> (a', k, v') \<in> set L \<longrightarrow> a = a' \<and> v = v')"

lemma contents_iff: "single L \<Longrightarrow> contents L k = Some v \<longleftrightarrow> (\<exists>a. (a, k, v) \<in> set L)"
proof
  assume "contents L k = Some v"
  then have "(k, v) \<in> snd ` set L" unfolding contents_def by (metis map_of_SomeD set_map)
  then show "\<exists>a. (a, k, v) \<in> set L" by force
next
  assume s: "single L" and "\<exists>a. (a, k, v) \<in> set L"
  then obtain a where a: "(a, k, v) \<in> set L" by blast
  then have "contents L k \<noteq> None" unfolding contents_def map_of_eq_None_iff by force
  then obtain v' where v': "contents L k = Some v'" by blast
  then have "(k, v') \<in> snd ` set L" unfolding contents_def by (metis map_of_SomeD set_map)
  then obtain a' where "(a', k, v') \<in> set L" by force
  then show "contents L k = Some v" using s a v' unfolding single_def by blast
qed

lemma contents_eqI:
  assumes "single L" "\<And>k v. (\<exists>a. (a, k, v) \<in> set L) = (m k = Some v)"
  shows "contents L = m"
proof (rule ext)
  fix k
  have "contents L k = Some v \<longleftrightarrow> m k = Some v" for v
    by (simp only: contents_iff[OF assms(1)] assms(2))
  from this[of "the (m k)"] this[of "the (contents L k)"] show "contents L k = m k"
    by (cases "m k"; cases "contents L k") simp_all
qed

lemma contents_update:
  assumes "single L" "set L' = insert (a, k, v) {x \<in> set L. fst (snd x) \<noteq> k}"
  shows "single L'" "contents L' = (contents L)(k \<mapsto> v)"
proof -
  have m: "(b, x, y) \<in> set L' \<longleftrightarrow> (if x = k then b = a \<and> y = v else (b, x, y) \<in> set L)" for b x y
    using assms(2) by auto
  show s: "single L'"
    unfolding single_def
  proof (intro allI impI)
    fix b y b' y' x assume "(b, x, y) \<in> set L'" "(b', x, y') \<in> set L'"
    then have "if x = k then b = a \<and> y = v \<and> b' = a \<and> y' = v else (b, x, y) \<in> set L \<and> (b', x, y') \<in> set L"
      unfolding m by (simp split: if_splits)
    then show "b = b' \<and> y = y'" using assms(1) unfolding single_def by (metis (full_types))
  qed
  show "contents L' = (contents L)(k \<mapsto> v)"
  proof (rule contents_eqI[OF s])
    fix x y
    show "(\<exists>a. (a, x, y) \<in> set L') = (((contents L)(k \<mapsto> v)) x = Some y)"
      using contents_iff[OF assms(1), of x y] assms(2) by (cases "x = k") auto
  qed
qed

lemma contents_delete:
  assumes "single L" "set L' = {x \<in> set L. fst (snd x) \<noteq> k}"
  shows "single L'" "contents L' = (contents L)(k := None)"
proof -
  show s: "single L'" using assms unfolding single_def by auto
  show "contents L' = (contents L)(k := None)"
  proof (rule contents_eqI[OF s])
    fix x y
    show "(\<exists>a. (a, x, y) \<in> set L') = (((contents L)(k := None)) x = Some y)"
      using contents_iff[OF assms(1), of x y] assms(2) by (cases "x = k") auto
  qed
qed

section \<open>A node appended\<close>

definition append_node :: "nat \<Rightarrow> byte list \<Rightarrow> byte list \<Rightarrow> (nat \<Rightarrow> node list) \<Rightarrow> nat \<Rightarrow> node list" where
  "append_node sec k v N = N(sec := N sec @ [(k, v, ENV_WRITE)])"

lemma live_append:
  "sec = 0 \<or> sec = 4096 \<Longrightarrow> set (live (append_node sec k v N)) = insert (sec + 16 + span (N sec), k, v) (set (live N))"
  by (auto simp: live_def append_node_def)

lemma has_node_append: "has_node N s a k' v' t \<Longrightarrow> has_node (append_node sec k v N) s a k' v' t"
  by (auto simp: has_node_def append_node_def)

lemma store_ok_append:
  assumes "store_ok c N" "sec = 0 \<or> sec = 4096" "fits k v" "0 \<notin> set k" "span (N sec) + node_size k v \<le> 4080"
    and "sec_addr sector = sec" "store_status sector = sec_store c sec" "sec_store c sec \<noteq> SECTOR_STORE_FULL"
  shows "store_ok (put_node (sec + 16 + span (N sec)) k v (mark sector n c)) (append_node sec k v N)"
proof -
  let ?a = "sec + 16 + span (N sec)" and ?d = "mark sector n c"
  let ?c = "put_node ?a k v ?d"
  have ok: "sector_ok c sec (N sec)" by (rule sector_ok_store[OF assms(1,2)])
  have d: "?d x = c x" if "x \<noteq> sec" for x using that assms(6) by (auto simp: mark_def burn_def)
  have b: "blank ?d ?a (?a + node_size k v)" using ok assms(5) d by (auto simp: sector_ok_def blank_def)
  note p = put_node_stored[OF b]
  have out: "?c x = c x" if "x \<noteq> sec" "x < ?a \<or> ?a + node_size k v \<le> x" for x using p(3) d that by simp
  have st: "sec_store ?c sec = SECTOR_STORE_USING \<or> sec_store ?c sec = SECTOR_STORE_FULL"
  proof -
    have "?c sec = ?d sec" by (intro p(3)) simp
    moreover have "sec_store c sec = SECTOR_STORE_EMPTY \<or> sec_store c sec = SECTOR_STORE_USING"
      using ok assms(8) by (auto simp: sector_ok_def)
    ultimately show ?thesis using assms(6,7)
      by (auto simp: sec_store_def mark_def burn_def get_status_write ef_states fills_def)
  qed
  have "laid ?c (sec + 16) (N sec)" using ok out by (subst laid_cong[where d = c]) (auto simp: sector_ok_def)
  then have "laid ?c (sec + 16) (N sec @ [(k, v, ENV_WRITE)])" using p(1,2) assms(3,4) by simp
  moreover have "bytes_at ?c (sec + 4) 8 = bytes_at c (sec + 4) 8" using out by (intro bytes_at_cong) auto
  moreover have "blank ?c (sec + 16 + (span (N sec) + node_size k v)) (sec + 4096)"
    using ok out by (auto simp: sector_ok_def blank_def)
  ultimately have "sector_ok ?c sec (N sec @ [(k, v, ENV_WRITE)])"
    using ok st assms(5) by (auto simp: sector_ok_def ef_states)
  moreover have "sector_ok ?c s (N s)" if "s \<noteq> sec" "s = 0 \<or> s = 4096" for s
    using that assms(2,5) sector_ok_store[OF assms(1) that(2)] by (subst sector_ok_cong[where d = c]) (auto intro!: out)
  ultimately show ?thesis using assms(2) by (auto simp: store_ok_def append_node_def)
qed

section \<open>Deleting a node\<close>

lemma last_store [simp]:
  "st\<lparr>last_is_complete_del := b, flash_store := s\<rparr> = st\<lparr>flash_store := s, last_is_complete_del := b\<rparr>"
  by simp

context nor_port
begin

lemma wp_dirty:
  assumes "sec = 0 \<or> sec = 4096" "\<And>s. cells s = dirtied sec (mem st) \<Longrightarrow> P EF_NO_ERR (st\<lparr>flash_store := s\<rparr>)"
  shows "wp F (ebind (read_status W (wadd sec SECTOR_DIRTY_OFFSET) SECTOR_DIRTY_STATUS_NUM) (\<lambda>status.
          if status = SECTOR_DIRTY_FALSE then write_status W (wadd sec SECTOR_DIRTY_OFFSET) SECTOR_DIRTY_STATUS_NUM SECTOR_DIRTY_TRUE
          else eret EF_NO_ERR)) P st"
proof -
  have w: "wadd sec SECTOR_DIRTY_OFFSET = sec + 1" "sec + 1 < PART_SIZE"
    using assms(1) by (auto simp: SECTOR_DIRTY_OFFSET_def PART_SIZE_def)
  have n: "0 < SECTOR_DIRTY_STATUS_NUM" "SECTOR_DIRTY_STATUS_NUM \<le> 8" "0 < SECTOR_DIRTY_TRUE" "SECTOR_DIRTY_TRUE < SECTOR_DIRTY_STATUS_NUM"
    by (simp_all add: ef_states)
  have same: "st\<lparr>flash_store := flash_store st\<rparr> = st" by simp
  show ?thesis
  proof (cases "sec_dirty (mem st) sec = SECTOR_DIRTY_FALSE")
    case True
    have "wp F (write_status W (sec + 1) SECTOR_DIRTY_STATUS_NUM SECTOR_DIRTY_TRUE) P st"
      using n w(2) assms(2) True by (intro wp_write_status) (auto simp: dirtied_def)
    then show ?thesis using True by (simp only: w wp_ebind wp_read_status[OF n(1,2) w(2)]) (simp add: sec_dirty_def)
  next
    case False
    then have "P EF_NO_ERR st" using assms(2)[of "flash_store st"] by (simp add: dirtied_def mem_def same)
    then show ?thesis using False
      by (simp only: w wp_ebind wp_read_status[OF n(1,2) w(2)]) (simp add: sec_dirty_def wp_eret)
  qed
qed

lemma wp_del_node_pre:
  assumes "sector_of a = sec" "sec = 0 \<or> sec = 4096" "start_addr env = a" "a + 24 \<le> sec + 4096"
    and "\<And>s. cells s = dirtied sec (burn a [status_byte ENV_PRE_DELETE] (mem st)) \<Longrightarrow>
      P EF_NO_ERR (st\<lparr>flash_store := s, last_is_complete_del := True\<rparr>)"
  shows "wp F (del_node W key env False) P st"
proof -
  have n: "0 < ENV_PRE_DELETE" "ENV_PRE_DELETE < ENV_STATUS_NUM" "ENV_STATUS_NUM \<le> 9" "a < PART_SIZE"
    using assms(2,4) by (auto simp: ef_states PART_SIZE_def)
  have "wp F (write_status W a ENV_STATUS_NUM ENV_PRE_DELETE) (\<lambda>r. wp F (ebind (emod (\<lambda>st. st\<lparr>last_is_complete_del := True\<rparr>))
     (\<lambda>_. eret r)) (\<lambda>r. wp F (if r = EF_NO_ERR then ebind (read_status W (wadd sec SECTOR_DIRTY_OFFSET) SECTOR_DIRTY_STATUS_NUM) (\<lambda>status.
          if status = SECTOR_DIRTY_FALSE then write_status W (wadd sec SECTOR_DIRTY_OFFSET) SECTOR_DIRTY_STATUS_NUM SECTOR_DIRTY_TRUE
          else eret EF_NO_ERR) else eret r) P)) st"
  proof (rule wp_write_status[OF n])
    fix s assume s: "cells s = burn a [status_byte ENV_PRE_DELETE] (mem st)"
    let ?st = "st\<lparr>flash_store := s, last_is_complete_del := True\<rparr>"
    have "wp F (ebind (read_status W (wadd sec SECTOR_DIRTY_OFFSET) SECTOR_DIRTY_STATUS_NUM) (\<lambda>status.
          if status = SECTOR_DIRTY_FALSE then write_status W (wadd sec SECTOR_DIRTY_OFFSET) SECTOR_DIRTY_STATUS_NUM SECTOR_DIRTY_TRUE
          else eret EF_NO_ERR)) P ?st"
    proof (rule wp_dirty[OF assms(2)])
      fix s' assume "cells s' = dirtied sec (mem ?st)"
      then show "P EF_NO_ERR (?st\<lparr>flash_store := s'\<rparr>)" using assms(5)[of s'] s by simp
    qed
    then show "wp F (ebind (emod (\<lambda>st. st\<lparr>last_is_complete_del := True\<rparr>))
     (\<lambda>_. eret EF_NO_ERR)) (\<lambda>r. wp F (if r = EF_NO_ERR then ebind (read_status W (wadd sec SECTOR_DIRTY_OFFSET) SECTOR_DIRTY_STATUS_NUM) (\<lambda>status.
          if status = SECTOR_DIRTY_FALSE then write_status W (wadd sec SECTOR_DIRTY_OFFSET) SECTOR_DIRTY_STATUS_NUM SECTOR_DIRTY_TRUE
          else eret EF_NO_ERR) else eret r) P) (st\<lparr>flash_store := s\<rparr>)"
      by (simp only: wp_ebind wp_emod wp_eret if_True simp_thms)
  qed
  then show ?thesis
    by (simp add: del_node_def assms(1,3) Let_def wp_simps del: if_split cong: if_cong)
qed


lemma wp_del_node_full:
  assumes "sector_of a = sec" "sec = 0 \<or> sec = 4096" "start_addr env = a" "a + 24 \<le> sec + 4096"
    and "name = (case key of Some k \<Rightarrow> k | None \<Rightarrow> take (name_len env) (env_name env))"
    and "\<And>s. cells s = dirtied sec (burn a [status_byte ENV_DELETED] (mem st)) \<Longrightarrow>
      P EF_NO_ERR (st\<lparr>flash_store := s, env_cache_table := (if last_is_complete_del st then env_cache_table st
          else drop_env name (env_cache_table st)), last_is_complete_del := False\<rparr>)"
  shows "wp F (del_node W key env True) P st"
proof -
  have n: "0 < ENV_DELETED" "ENV_DELETED < ENV_STATUS_NUM" "ENV_STATUS_NUM \<le> 9" "a < PART_SIZE"
    using assms(2,4) by (auto simp: ef_states PART_SIZE_def)
  define M where "M = ebind (read_status W (wadd sec SECTOR_DIRTY_OFFSET) SECTOR_DIRTY_STATUS_NUM) (\<lambda>status.
          if status = SECTOR_DIRTY_FALSE then write_status W (wadd sec SECTOR_DIRTY_OFFSET) SECTOR_DIRTY_STATUS_NUM SECTOR_DIRTY_TRUE
          else eret EF_NO_ERR)"
  let ?st = "\<lambda>s. st\<lparr>flash_store := s, env_cache_table := (if last_is_complete_del st then env_cache_table st
          else drop_env name (env_cache_table st)), last_is_complete_del := False\<rparr>"
  have M: "wp F M P (?st s)" if s: "cells s = burn a [status_byte ENV_DELETED] (mem st)" for s
    unfolding M_def
  proof (rule wp_dirty[OF assms(2)])
    fix s' assume "cells s' = dirtied sec (mem (?st s))"
    then have "P EF_NO_ERR (?st s')" using s by (intro assms(6)) simp
    moreover have "(?st s)\<lparr>flash_store := s'\<rparr> = ?st s'" by simp
    ultimately show "P EF_NO_ERR ((?st s)\<lparr>flash_store := s'\<rparr>)" by (simp only:)
  qed
  have up: "(case key of Some k \<Rightarrow> update_env_cache k FAILED_ADDR | None \<Rightarrow> update_env_cache (take (name_len env) (env_name env)) FAILED_ADDR)
      = emod (\<lambda>st. st\<lparr>env_cache_table := drop_env name (env_cache_table st)\<rparr>)"
    by (cases key) (simp_all add: assms(5) update_env_cache_def drop_env_def)
  have "?st s = st\<lparr>flash_store := s, last_is_complete_del := False\<rparr>" if "last_is_complete_del st" for s
    using that by simp
  then have M1: "wp F M P (st\<lparr>flash_store := s, last_is_complete_del := False\<rparr>)"
    if "cells s = burn a [status_byte ENV_DELETED] (mem st)" "last_is_complete_del st" for s
    using M[OF that(1)] that(2) by (simp only:)
  have M2: "wp F M P (st\<lparr>flash_store := s, env_cache_table := drop_env name (env_cache_table st), last_is_complete_del := False\<rparr>)"
    if "cells s = burn a [status_byte ENV_DELETED] (mem st)" "\<not> last_is_complete_del st" for s
    using M[OF that(1)] that(2) by (simp only: if_False)
  show ?thesis
    unfolding del_node_def assms(1,3) up Let_def
    apply (simp only: wp_ebind if_True if_False simp_thms not_True_eq_False)
    apply (rule wp_write_status[OF n])
    apply (cases "last_is_complete_del st")
    using M1 M2
     apply (simp_all add: wp_eget wp_emod wp_eret wp_ebind M_def[symmetric] del: last_store)
    done
qed

end

section \<open>The operations on the nodes\<close>

text \<open>What the memory is after a deletion and a creation, for the nodes.\<close>

lemma advanced_ok:
  assumes "store_ok c N" "has_node N sec a k v t" "t \<le> s" "s = ENV_PRE_DELETE \<or> s = ENV_DELETED"
  shows "store_ok (dirtied sec (burn a [status_byte s] c)) (advance sec a s N)"
  using assms store_ok_dirtied[OF store_ok_advance[OF assms]] by (simp add: has_node_def)

lemma sec_cache_ok_advance: "sec_cache_ok t (advance sec a s N) = sec_cache_ok t N"
  by (simp add: sec_cache_ok_def advance_def)

lemma sec_store_dirtied: "sec = 0 \<or> sec = 4096 \<Longrightarrow> sec' = 0 \<or> sec' = 4096 \<Longrightarrow> sec_store (dirtied sec c) sec' = sec_store c sec'"
  by (auto simp: sec_store_def dirtied_def burn_def)

lemma sec_store_advanced:
  assumes "store_ok c N" "has_node N sec a k v t" "sec' = 0 \<or> sec' = 4096"
  shows "sec_store (dirtied sec (burn a [s] c)) sec' = sec_store c sec'"
proof -
  have "sec = 0 \<or> sec = 4096" using assms(2) by (simp add: has_node_def)
  moreover have "a \<noteq> sec'" using has_node_bounds(1,2)[OF assms(1,2)] node_size_pos(1)[of k v] calculation assms(3) by auto
  ultimately show ?thesis using sec_store_dirtied[OF _ assms(3)] by (simp add: sec_store_def burn_def)
qed

end
