(* ===== verification/Easyflash_Set.thy ===== *)
theory Easyflash_Set
  imports Easyflash_Update
begin

text \<open>
  Setting and deleting a variable as updates of the map, as long as no collection runs.
\<close>

section \<open>How full a sector is\<close>

text \<open>A sector counts as full from the second node on, when less than 56 bytes are left.\<close>

definition is_full :: "node list \<Rightarrow> bool" where
  "is_full ns \<longleftrightarrow> 2 \<le> length ns \<and> 4024 < span ns"

definition stage :: "node list \<Rightarrow> nat" where
  "stage ns = (if ns = [] then SECTOR_STORE_EMPTY else if is_full ns then SECTOR_STORE_FULL else SECTOR_STORE_USING)"

definition packed :: "node list \<Rightarrow> bool" where
  "packed ns \<longleftrightarrow> (\<forall>i<length ns. \<not> is_full (take i ns)) \<and> (ns \<noteq> [] \<longrightarrow> span ns < 4080)"

text \<open>The statuses of the sectors are what the nodes make them, and an empty sector is clean.\<close>

definition tidy :: "(nat \<Rightarrow> byte) \<Rightarrow> (nat \<Rightarrow> node list) \<Rightarrow> bool" where
  "tidy c N \<longleftrightarrow> (\<forall>sec\<in>{0, 4096}. sec_store c sec = stage (N sec) \<and> packed (N sec) \<and>
     (N sec = [] \<longrightarrow> sec_dirty c sec = SECTOR_DIRTY_FALSE))"

definition settled :: "(nat \<Rightarrow> node list) \<Rightarrow> bool" where
  "settled N \<longleftrightarrow> (\<forall>sec\<in>{0, 4096}. \<forall>(k, v, t)\<in>set (N sec). t \<noteq> ENV_PRE_DELETE)"

lemma sizes_set_at: "map node_len (set_at b a s ns) = map node_len ns"
  by (induction b a s ns rule: set_at.induct) simp_all

lemma same_sizes:
  assumes "map node_len xs = map node_len ys"
  shows "span xs = span ys" "length xs = length ys" "span (take i xs) = span (take i ys)" "is_full xs = is_full ys"
    "stage xs = stage ys" "packed xs = packed ys"
proof -
  show s: "span xs = span ys" and l: "length xs = length ys" using assms by (simp add: span_def, metis length_map)
  show t: "span (take i xs) = span (take i ys)" for i using assms by (simp add: span_def flip: take_map)
  show f: "is_full xs = is_full ys" by (simp add: is_full_def s l)
  have "is_full (take i xs) = is_full (take i ys)" for i by (simp add: is_full_def t l)
  moreover have "xs = [] \<longleftrightarrow> ys = []" using l by auto
  ultimately show "stage xs = stage ys" "packed xs = packed ys" by (simp_all add: stage_def packed_def f s l)
qed

lemma packed_snoc:
  assumes "packed ns" "\<not> is_full ns" "span ns + node_size k v < 4080"
  shows "packed (ns @ [(k, v, t)])"
proof -
  have "\<not> is_full (take i (ns @ [(k, v, t)]))" if "i < Suc (length ns)" for i
    using that assms(1,2) by (cases "i = length ns") (simp_all add: packed_def)
  then show ?thesis using assms(3) by (simp add: packed_def)
qed

lemma stage_cases:
  "stage ns = SECTOR_STORE_EMPTY \<longleftrightarrow> ns = []" "stage ns = SECTOR_STORE_FULL \<longleftrightarrow> is_full ns"
  "stage ns = SECTOR_STORE_USING \<longleftrightarrow> ns \<noteq> [] \<and> \<not> is_full ns"
  by (auto simp: stage_def ef_states is_full_def)

lemma fills_iff:
  assumes "sector = measured s c sec ns" "sec_store c sec = stage ns" "\<not> is_full ns" "span ns + node_size k v < 4080"
  shows "fills sector (node_size k v) = is_full (ns @ [(k, v, t)])"
proof -
  have "wsub (4080 - span ns) (node_size k v) = 4080 - span ns - node_size k v" using assms(4) by (intro wsub_small) auto
  then show ?thesis
    using assms by (cases "ns = []")
      (auto simp: fills_def stage_cases EF_SEC_REMAIN_THRESHOLD_def ENV_HDR_DATA_SIZE_def EF_ENV_NAME_MAX_def is_full_def Suc_le_eq)
qed

lemma sec_dirty_other:
  assumes "sec' = 0 \<or> sec' = 4096" "sec = 0 \<or> sec = 4096" "sec' \<noteq> sec" "a \<noteq> sec' + 1"
  shows "sec_dirty (dirtied sec (burn a [x] c)) sec' = sec_dirty c sec'"
  using assms by (auto simp: sec_dirty_def dirtied_def burn_def)

lemma tidy_advance:
  assumes "store_ok c N" "tidy c N" "has_node N sec a k v t"
  shows "tidy (dirtied sec (burn a [x] c)) (advance sec a s N)"
proof -
  have sec: "sec = 0 \<or> sec = 4096" and ne: "N sec \<noteq> []" using assms(3) by (auto simp: has_node_def)
  note b = has_node_bounds(1,2)[OF assms(1,3)]
  have a: "a \<noteq> sec' + 1" if "sec' = 0 \<or> sec' = 4096" for sec' using b node_size_pos(1)[of k v] sec that by auto
  note sizes = same_sizes[OF sizes_set_at[of "sec + 16" a s "N sec"]]
  show ?thesis
    unfolding tidy_def
  proof (intro ballI conjI impI)
    fix sec' :: nat assume s': "sec' \<in> {0, 4096}"
    have t: "sec_store c sec' = stage (N sec')" "packed (N sec')" "N sec' = [] \<Longrightarrow> sec_dirty c sec' = SECTOR_DIRTY_FALSE"
      using assms(2) s' by (auto simp: tidy_def)
    show "sec_store (dirtied sec (burn a [x] c)) sec' = stage (advance sec a s N sec')"
      using sec_store_advanced[OF assms(1,3)] s' t sizes by (auto simp: advance_def)
    show "packed (advance sec a s N sec')" using t sizes by (auto simp: advance_def)
    assume "advance sec a s N sec' = []"
    then have "sec' \<noteq> sec" "N sec' = []" using ne by (auto simp: advance_def split: if_splits)
    then show "sec_dirty (dirtied sec (burn a [x] c)) sec' = SECTOR_DIRTY_FALSE"
      using sec_dirty_other[of sec' sec a x c] s' sec a t by auto
  qed
qed

lemma put_node_outside: "k < a \<or> a + node_size key value \<le> k \<Longrightarrow> put_node a key value c k = c k"
  unfolding put_node_def by (auto simp: burn_def node_size_def)

declare get_status_write [simp]

lemma tidy_append:
  assumes "tidy c N" "sec = 0 \<or> sec = 4096" "\<not> is_full (N sec)" "span (N sec) + node_size k v < 4080"
    and "sector = measured s c' sec (N sec)" "sec_store c' sec = sec_store c sec"
  shows "tidy (put_node (sec + 16 + span (N sec)) k v (mark sector (node_size k v) c)) (append_node sec k v N)"
proof -
  let ?a = "sec + 16 + span (N sec)" and ?d = "mark sector (node_size k v) c"
  let ?c = "put_node ?a k v ?d" and ?N = "append_node sec k v N"
  have sn: "sec_store c sec = stage (N sec)" using assms(1,2) by (auto simp: tidy_def)
  have d: "?d x = c x" if "x \<noteq> sec" for x using that assms(5) by (auto simp: mark_def burn_def)
  have out: "?c x = c x" if "x \<noteq> sec" "x < ?a \<or> ?a + node_size k v \<le> x" for x using put_node_outside d that by simp
  have f: "fills sector (node_size k v) = is_full (N sec @ [(k, v, ENV_WRITE)])"
    using fills_iff[of sector s c' sec "N sec" k v] assms sn by simp
  have "?c sec = ?d sec" by (intro put_node_outside) simp
  moreover have "store_status sector = stage (N sec)" "sec_addr sector = sec" using assms(5,6) sn by simp_all
  ultimately have st: "sec_store ?c sec = stage (N sec @ [(k, v, ENV_WRITE)])"
    using sn assms(3) by (cases "N sec = []")
      (auto simp: sec_store_def mark_def burn_def f stage_def ef_states is_full_def max_def)
  show ?thesis
    unfolding tidy_def
  proof (intro ballI conjI impI)
    fix sec' :: nat assume s': "sec' \<in> {0, 4096}"
    have t: "sec_store c sec' = stage (N sec')" "packed (N sec')" "N sec' = [] \<Longrightarrow> sec_dirty c sec' = SECTOR_DIRTY_FALSE"
      using assms(1) s' by (auto simp: tidy_def)
    have o: "?c sec' = c sec'" "?c (sec' + 1) = c (sec' + 1)" if "sec' \<noteq> sec"
      using that s' assms(2,4) by (auto intro!: out)
    show "sec_store ?c sec' = stage (?N sec')"
      using st t o by (cases "sec' = sec") (auto simp: append_node_def sec_store_def)
    show "packed (?N sec')" using t packed_snoc assms(3,4) by (auto simp: append_node_def)
    assume "?N sec' = []"
    then show "sec_dirty ?c sec' = SECTOR_DIRTY_FALSE" using t o by (auto simp: append_node_def sec_dirty_def split: if_splits)
  qed
qed

lemma settled_append: "settled N \<Longrightarrow> settled (append_node sec k v N)"
  by (auto simp: settled_def append_node_def ef_states)

section \<open>The place is a good one\<close>

lemma place_in_sec: "place_in w c N gc sz = Some sec \<Longrightarrow> (sec = 0 \<or> sec = 4096) \<and> sec_store c sec = w \<and> open_for c N gc sz sec"
  by (auto simp: place_in_def split: if_splits)

lemma place_ok:
  assumes "alloc_place c N gc sz = Some sec" "tidy c N"
  shows "sec = 0 \<or> sec = 4096" "\<not> is_full (N sec)" "span (N sec) + sz < 4080"
proof -
  obtain w where "w = SECTOR_STORE_EMPTY \<or> w = SECTOR_STORE_USING" "place_in w c N gc sz = Some sec"
    using assms(1) by (auto simp: alloc_place_def split: option.splits if_splits)
  then have *: "sec = 0 \<or> sec = 4096" "sec_store c sec = SECTOR_STORE_EMPTY \<or> sec_store c sec = SECTOR_STORE_USING"
    "sz < 4080 - span (N sec)"
    using place_in_sec[of w c N gc sz sec] by (auto simp: open_for_def)
  then have "sec_store c sec = stage (N sec)" using assms(2) by (auto simp: tidy_def)
  then show "sec = 0 \<or> sec = 4096" "\<not> is_full (N sec)" "span (N sec) + sz < 4080"
    using * by (auto simp: stage_cases is_full_def)
qed

section \<open>Creating\<close>

lemma append_facts:
  assumes "store_ok c N" "tidy c N" "fits k v" "0 \<notin> set k" "sec = 0 \<or> sec = 4096" "\<not> is_full (N sec)"
    and "span (N sec) + node_size k v < 4080" "sector = measured sx c' sec (N sec)" "sec_store c' sec = sec_store c sec"
  shows "store_ok (put_node (sec + 16 + span (N sec)) k v (mark sector (node_size k v) c)) (append_node sec k v N)"
    and "tidy (put_node (sec + 16 + span (N sec)) k v (mark sector (node_size k v) c)) (append_node sec k v N)"
    and "x = 0 \<or> x = 4096 \<Longrightarrow> sec_dirty (put_node (sec + 16 + span (N sec)) k v (mark sector (node_size k v) c)) x = sec_dirty c x"
    and "fills sector (node_size k v) = is_full (N sec @ [(k, v, ENV_WRITE)])"
    and "sec_addr sector = sec" "empty_env sector = sec + 16 + span (N sec)"
proof -
  let ?a = "sec + 16 + span (N sec)"
  show f: "sec_addr sector = sec" "empty_env sector = ?a" using assms(8) by simp_all
  have sn: "sec_store c sec = stage (N sec)" using assms(2,5) by (auto simp: tidy_def)
  show "fills sector (node_size k v) = is_full (N sec @ [(k, v, ENV_WRITE)])"
    using fills_iff[of sector sx c' sec "N sec" k v] assms sn by simp
  show "tidy (put_node ?a k v (mark sector (node_size k v) c)) (append_node sec k v N)"
    using tidy_append[OF assms(2,5,6,7,8,9)] .
  show "store_ok (put_node ?a k v (mark sector (node_size k v) c)) (append_node sec k v N)"
    using assms f sn by (intro store_ok_append) (auto simp: stage_cases)
  show "x = 0 \<or> x = 4096 \<Longrightarrow> sec_dirty (put_node ?a k v (mark sector (node_size k v) c)) x = sec_dirty c x"
  proof -
    assume "x = 0 \<or> x = 4096"
    then have "x + 1 < ?a \<or> ?a + node_size k v \<le> x + 1" "x + 1 \<noteq> sec" using assms(5,7) by auto
    then show ?thesis using f(1) by (simp add: sec_dirty_def put_node_outside mark_def burn_def)
  qed
qed

context nor_port
begin

lemma wp_create_node:
  assumes "store_ok (mem st) N" "sec_cache_ok (sector_cache_table st) N" "tidy (mem st) N" "fits k v" "0 \<notin> set k"
    and "sec = 0 \<or> sec = 4096" "\<not> is_full (N sec)" "span (N sec) + node_size k v < 4080"
    and "sector = measured sx c' sec (N sec)" "sec_store c' sec = sec_store (mem st) sec"
    and "\<And>s t. store_ok (cells s) (append_node sec k v N) \<Longrightarrow> tidy (cells s) (append_node sec k v N) \<Longrightarrow>
      sec_cache_ok t (append_node sec k v N) \<Longrightarrow>
      (\<And>x. x = 0 \<or> x = 4096 \<Longrightarrow> sec_dirty (cells s) x = sec_dirty (mem st) x) \<Longrightarrow>
      P EF_NO_ERR (st\<lparr>flash_store := s, sector_cache_table := t, env_cache_table := put_env k (sec + 16 + span (N sec)) (env_cache_table st),
        gc_request := (gc_request st \<or> is_full (N sec @ [(k, v, ENV_WRITE)]))\<rparr>)"
  shows "wp F (create_env_blob W sector k v) P st"
proof -
  let ?a = "sec + 16 + span (N sec)" and ?N = "append_node sec k v N"
  note facts = append_facts[OF assms(1,3-10)]
  note f = facts(5,6) and fl = facts(4)
  have N: "?N s = N s" if "s \<noteq> sec" for s using that by (simp add: append_node_def)
  have cache: "sec_cache_ok (if fills sector (node_size k v) then drop_sector sec (sector_cache_table st)
      else put_sector sec (?a + node_size k v) (sector_cache_table st)) ?N"
    using sec_cache_ok_drop[OF assms(2,6), of ?N] sec_cache_ok_put[OF assms(2,6), of "?a + node_size k v" ?N]
    by (simp add: append_node_def)
  have a: "sec_addr sector < ?a" "?a + 4096 \<le> PART_SIZE" using f(1) assms(6,8) by (auto simp: PART_SIZE_def)
  show ?thesis
  proof (rule wp_create_env_blob[OF assms(4) a f(2)])
    fix s assume e: "cells s = put_node ?a k v (mark sector (node_size k v) (mem st))"
    then show "P EF_NO_ERR (st\<lparr>flash_store := s,
        sector_cache_table := (if fills sector (node_size k v) then drop_sector (sec_addr sector) (sector_cache_table st)
           else put_sector (sec_addr sector) (?a + node_size k v) (sector_cache_table st)),
        env_cache_table := put_env k ?a (env_cache_table st),
        gc_request := (gc_request st \<or> fills sector (node_size k v))\<rparr>)"
      using assms(11)[of s, OF facts(1)[folded e] facts(2)[folded e] cache facts(3)[folded e]] by (simp only: f(1) fl)
  qed
qed

end

text \<open>A sector with a node that is not live is marked as dirty.\<close>

definition is_live :: "node \<Rightarrow> bool" where "is_live = (\<lambda>(k, v, t). t = ENV_WRITE)"

definition known :: "(nat \<Rightarrow> byte) \<Rightarrow> (nat \<Rightarrow> node list) \<Rightarrow> bool" where
  "known c N \<longleftrightarrow> (\<forall>sec\<in>{0, 4096}. sec_dirty c sec = SECTOR_DIRTY_TRUE \<or>
     sec_dirty c sec = SECTOR_DIRTY_FALSE \<and> (\<forall>x\<in>set (N sec). is_live x))"

lemma known_advance:
  assumes "store_ok c N" "known c N" "has_node N sec a k v t"
  shows "known (dirtied sec (burn a [x] c)) (advance sec a s N)"
proof -
  have sec: "sec = 0 \<or> sec = 4096" using assms(3) by (simp add: has_node_def)
  note b = has_node_bounds(1,2)[OF assms(1,3)]
  have a: "a \<noteq> 1" "a \<noteq> 4097" using b node_size_pos(1)[of k v] sec by auto
  let ?c = "dirtied sec (burn a [x] c)"
  have "sec_dirty (burn a [x] c) sec = sec_dirty c sec" using a sec by (auto simp: sec_dirty_def burn_def)
  moreover have "sec_dirty (burn (sec + 1) [status_byte SECTOR_DIRTY_TRUE] (burn a [x] c)) sec = max (sec_dirty c sec) SECTOR_DIRTY_TRUE"
    using a sec by (auto simp: sec_dirty_def burn_def ef_states)
  ultimately have "sec_dirty ?c sec = SECTOR_DIRTY_TRUE"
    using assms(2) sec by (auto simp: dirtied_def known_def ef_states)
  moreover have "sec_dirty ?c s' = sec_dirty c s'" if "s' = 0 \<or> s' = 4096" "s' \<noteq> sec" for s'
    using that a sec by (intro sec_dirty_other) auto
  ultimately have d: "sec_dirty ?c s' = (if s' = sec then SECTOR_DIRTY_TRUE else sec_dirty c s')" if "s' \<in> {0, 4096}" for s'
    using that by simp
  show ?thesis
    unfolding known_def
  proof
    fix s' :: nat assume s': "s' \<in> {0, 4096}"
    show "sec_dirty ?c s' = SECTOR_DIRTY_TRUE \<or> sec_dirty ?c s' = SECTOR_DIRTY_FALSE \<and> (\<forall>x\<in>set (advance sec a s N s'). is_live x)"
      using d[OF s'] assms(2)[unfolded known_def, rule_format, OF s'] by (cases "s' = sec") (simp_all add: advance_def)
  qed
qed

lemma known_append:
  assumes "known c N" "\<And>x. x = 0 \<or> x = 4096 \<Longrightarrow> sec_dirty d x = sec_dirty c x"
  shows "known d (append_node sec k v N)"
  using assms(1) assms(2)[of 0] assms(2)[of 4096] by (auto simp: known_def append_node_def is_live_def)

section \<open>The invariant\<close>

definition ef_inv :: "(nat \<Rightarrow> byte) \<Rightarrow> 's ef \<Rightarrow> (nat \<Rightarrow> node list) \<Rightarrow> bool" where
  "ef_inv c st N \<longleftrightarrow> store_ok c N \<and> tidy c N \<and> settled N \<and> single (live N) \<and>
     sec_cache_ok (sector_cache_table st) N \<and> env_cache_ok (env_cache_table st) (live N) \<and>
     \<not> last_is_complete_del st \<and> \<not> in_recovery_check st \<and> init_ok st \<and> length (env_name (set_env_node st)) = 32"

text \<open>\<open>set_env\<close> once there is a place, up to the collection at its end.\<close>

definition replace_env :: "'s ef_world \<Rightarrow> byte list \<Rightarrow> byte list \<Rightarrow> sector_meta_data \<Rightarrow> (EfErrCode, 's) run" where
  "replace_env W key value sector =
     ebind (eget set_env_node) (\<lambda>env.
     ebind (find_env W key env) (\<lambda>(env_is_found, env).
     ebind (emod (\<lambda>st. st\<lparr>set_env_node := env\<rparr>)) (\<lambda>_.
     ebind (if env_is_found then del_node W (Some key) env False else eret EF_NO_ERR) (\<lambda>result.
     ebind (when_ok result (create_env_blob W sector key value)) (\<lambda>result.
     if env_is_found \<and> result = EF_NO_ERR then del_node W (Some key) env True else eret result)))))"

lemma settled_advance: "settled N \<Longrightarrow> settled (advance sec a ENV_DELETED (advance sec a s N))"
proof -
  have *: "set (set_at b a ENV_DELETED (set_at b a s ns)) \<subseteq> {(k, v, t). (k, v, t) \<in> set ns \<or> t = ENV_DELETED}" for b ns
    by (induction b a s ns rule: set_at.induct) auto
  assume "settled N"
  then show ?thesis using *[of "sec + 16" "N sec"] by (fastforce simp: settled_def advance_def ef_states)
qed

lemma set_at_twice: "set_at b a s (set_at b a t ns) = set_at b a s ns"
  by (induction b a t ns rule: set_at.induct) simp_all

text \<open>The old node deleted, the new one appended, as the code does it.\<close>

definition replaced :: "nat \<Rightarrow> nat \<Rightarrow> nat \<Rightarrow> byte list \<Rightarrow> byte list \<Rightarrow> (nat \<Rightarrow> node list) \<Rightarrow> nat \<Rightarrow> node list" where
  "replaced sec0 a0 sec k v N = advance sec0 a0 ENV_DELETED (append_node sec k v (advance sec0 a0 ENV_PRE_DELETE N))"

lemma settled_replaced:
  assumes "store_ok c N" "settled N" "has_node N sec0 a0 k0 v0 t0"
  shows "settled (replaced sec0 a0 sec k v N)"
proof -
  have b: "a0 + node_size k0 v0 \<le> sec0 + 16 + span (N sec0)" using placed_bounds assms(3) by (auto simp: has_node_def)
  have "replaced sec0 a0 sec k v N = append_node sec k v (advance sec0 a0 ENV_DELETED (advance sec0 a0 ENV_PRE_DELETE N))"
    using b node_size_pos(1)[of k0 v0]
    by (auto simp: replaced_def append_node_def advance_def set_at_append set_at_twice)
  then show ?thesis using settled_append[OF settled_advance[OF assms(2)]] by simp
qed

lemma live_key:
  assumes "store_ok c N" "single (live N)" "has_node N sec0 a0 k v0 ENV_WRITE" "x \<in> set (live N)"
  shows "fst x \<noteq> a0 \<longleftrightarrow> fst (snd x) \<noteq> k"
proof -
  have l0: "(a0, k, v0) \<in> set (live N)" using assms(3) by (auto simp: live_iff has_node_def)
  obtain a' k' v' where x: "x = (a', k', v')" by (cases x)
  then obtain sec' where h: "has_node N sec' a' k' v' ENV_WRITE" using assms(4) live_sector by blast
  show ?thesis
  proof
    assume "fst x \<noteq> a0"
    then show "fst (snd x) \<noteq> k" using assms(2,4) l0 x unfolding single_def by auto
  next
    assume "fst (snd x) \<noteq> k"
    then show "fst x \<noteq> a0" using has_node_unique[OF assms(1,3), of sec' k' v' ENV_WRITE] h x by auto
  qed
qed

lemma live_replaced:
  assumes "store_ok c N" "single (live N)" "has_node N sec0 a0 k v0 ENV_WRITE" "sec = 0 \<or> sec = 4096"
    and "store_ok c' (append_node sec k v (advance sec0 a0 ENV_PRE_DELETE N))"
  shows "set (live (replaced sec0 a0 sec k v N)) = insert (sec + 16 + span (N sec), k, v) {x \<in> set (live N). fst (snd x) \<noteq> k}"
    "\<And>x. x \<in> set (live N) \<Longrightarrow> fst x \<noteq> a0 \<longleftrightarrow> fst (snd x) \<noteq> k"
proof -
  let ?N1 = "advance sec0 a0 ENV_PRE_DELETE N"
  show key: "fst x \<noteq> a0 \<longleftrightarrow> fst (snd x) \<noteq> k" if "x \<in> set (live N)" for x
    by (rule live_key[OF assms(1-3) that])
  have h1: "has_node ?N1 sec0 a0 k v0 ENV_PRE_DELETE" by (rule has_node_advance[OF assms(3)])
  have d: "ENV_PRE_DELETE \<noteq> ENV_WRITE" "ENV_DELETED \<noteq> ENV_WRITE" by (simp_all add: ef_states)
  have a: "a0 \<noteq> sec + 16 + span (N sec)"
  proof
    assume "a0 = sec + 16 + span (N sec)"
    then have "has_node (append_node sec k v ?N1) sec a0 k v ENV_WRITE"
      using assms(4) by (simp add: has_node_def append_node_def advance_def)
    then show False using has_node_unique[OF assms(5) has_node_append[OF h1]] d by blast
  qed
  show "set (live (replaced sec0 a0 sec k v N)) = insert (sec + 16 + span (N sec), k, v) {x \<in> set (live N). fst (snd x) \<noteq> k}"
    unfolding replaced_def live_advance[OF assms(5) has_node_append[OF h1] d(2)] live_append[OF assms(4)]
      live_advance[OF assms(1,3) d(1)]
    using key a by (auto simp: advance_def)
qed


context nor_port
begin

lemma wp_replace_env:
  assumes "ef_inv (mem st) st N" "clear key (live N)" "fits key value" "0 \<notin> set key"
    and "sec = 0 \<or> sec = 4096" "\<not> is_full (N sec)" "span (N sec) + node_size key value < 4080"
    and "sector = measured sx (mem st) sec (N sec)"
    and "\<And>st' N'. ef_inv (mem st') st' N' \<Longrightarrow> contents (live N') = (contents (live N))(key \<mapsto> value) \<Longrightarrow>
      (\<And>x. x \<noteq> sec \<Longrightarrow> N' x = [] \<longleftrightarrow> N x = []) \<Longrightarrow> (known (mem st) N \<Longrightarrow> known (mem st') N') \<Longrightarrow> P EF_NO_ERR st'"
  shows "wp F (replace_env W key value sector) P st"
proof -
  have inv: "store_ok (mem st) N" "tidy (mem st) N" "settled N" "single (live N)" "sec_cache_ok (sector_cache_table st) N"
    "env_cache_ok (env_cache_table st) (live N)" "\<not> last_is_complete_del st" "\<not> in_recovery_check st" "init_ok st"
    "length (env_name (set_env_node st)) = 32"
    using assms(1) by (simp_all add: ef_inv_def)
  have k: "length key \<le> 32" using assms(3) by (simp add: fits_def)
  show ?thesis
    unfolding replace_env_def wp_ebind wp_eget
  proof (rule wp_find_env[OF inv(1,5,6) assms(2,4) k inv(10)])
    fix env a0 v0 t assume l0: "(a0, key, v0) \<in> set (live N)" and at: "node_at env (mem st) a0 key v0" and t: "env_cache_ok t (live N)"
    let ?st = "st\<lparr>env_cache_table := t, set_env_node := env\<rparr>"
    obtain sec0 where h0: "has_node N sec0 a0 key v0 ENV_WRITE" using live_sector[OF l0] by blast
    then have sec0: "sec0 = 0 \<or> sec0 = 4096" by (simp add: has_node_def)
    note b0 = has_node_bounds[OF inv(1) h0]
    have a0: "a0 + 24 \<le> sec0 + 4096" using b0(2) by (simp add: node_size_def)
    have start: "start_addr env = a0" using at by (simp add: node_at_def)
    let ?N1 = "advance sec0 a0 ENV_PRE_DELETE N"
    note sizes = same_sizes[OF sizes_set_at[of "sec0 + 16" a0 ENV_PRE_DELETE "N sec0"]]
    have N1: "span (?N1 x) = span (N x)" "is_full (?N1 x) = is_full (N x)" for x using sizes by (simp_all add: advance_def)
    have h1: "has_node ?N1 sec0 a0 key v0 ENV_PRE_DELETE" by (rule has_node_advance[OF h0])
    have "wp F (del_node W (Some key) env False) (\<lambda>r. wp F (when_ok r (create_env_blob W sector key value))
        (\<lambda>r. wp F (if r = EF_NO_ERR then del_node W (Some key) env True else eret r) P)) ?st"
    proof (rule wp_del_node_pre[OF b0(3) sec0 start a0], simp only: wp_when_ok if_True simp_thms)
      fix s1
      let ?st1 = "?st\<lparr>flash_store := s1, last_is_complete_del := True\<rparr>"
      assume s1: "cells s1 = dirtied sec0 (burn a0 [status_byte ENV_PRE_DELETE] (mem ?st))"
      have ok1: "store_ok (cells s1) ?N1" "tidy (cells s1) ?N1"
        using advanced_ok[OF inv(1) h0, of ENV_PRE_DELETE] tidy_advance[OF inv(1,2) h0] s1 by (simp_all add: ef_states)
      have st1: "sec_store (mem st) sec = sec_store (cells s1) sec"
        using sec_store_advanced[OF inv(1) h0 assms(5)] s1 by simp
      show "wp F (create_env_blob W sector key value) (\<lambda>r. wp F (if r = EF_NO_ERR then del_node W (Some key) env True else eret r) P) ?st1"
      proof (rule wp_create_node[where N = ?N1 and sec = sec and c' = "mem st" and sx = sx])
        show "store_ok (mem ?st1) ?N1" "sec_cache_ok (sector_cache_table ?st1) ?N1" "tidy (mem ?st1) ?N1" "fits key value" "0 \<notin> set key"
          "sec = 0 \<or> sec = 4096" "\<not> is_full (?N1 sec)" "span (?N1 sec) + node_size key value < 4080"
          "sector = measured sx (mem st) sec (?N1 sec)" "sec_store (mem st) sec = sec_store (mem ?st1) sec"
          using ok1 inv assms N1 st1 by (simp_all add: sec_cache_ok_advance measured_def)
        fix s2 t2
        let ?N2 = "append_node sec key value ?N1" and ?a = "sec + 16 + span (?N1 sec)"
        let ?st2 = "?st1\<lparr>flash_store := s2, sector_cache_table := t2, env_cache_table := put_env key ?a (env_cache_table ?st1),
          gc_request := gc_request ?st1 \<or> is_full (?N1 sec @ [(key, value, ENV_WRITE)])\<rparr>"
        assume s2: "store_ok (cells s2) ?N2" "tidy (cells s2) ?N2" "sec_cache_ok t2 ?N2"
          and d2: "\<And>x. x = 0 \<or> x = 4096 \<Longrightarrow> sec_dirty (cells s2) x = sec_dirty (mem ?st1) x"
        have h2: "has_node ?N2 sec0 a0 key v0 ENV_PRE_DELETE" by (rule has_node_append[OF h1])
        show "wp F (if EF_NO_ERR = EF_NO_ERR then del_node W (Some key) env True else eret EF_NO_ERR) P ?st2"
          unfolding simp_thms if_True
        proof (rule wp_del_node_full[OF b0(3) sec0 start a0 refl])
          fix s3
          let ?st3 = "?st2\<lparr>flash_store := s3, env_cache_table := (if last_is_complete_del ?st2 then env_cache_table ?st2
            else drop_env (case Some key of Some k \<Rightarrow> k | None \<Rightarrow> take (name_len env) (env_name env)) (env_cache_table ?st2)),
            last_is_complete_del := False\<rparr>"
          let ?N3 = "replaced sec0 a0 sec key value N"
          assume s3: "cells s3 = dirtied sec0 (burn a0 [status_byte ENV_DELETED] (mem ?st2))"
          have ok3: "store_ok (cells s3) ?N3" "tidy (cells s3) ?N3"
            using advanced_ok[OF s2(1) h2, of ENV_DELETED] tidy_advance[OF s2(1,2) h2] s3
            by (simp_all add: ef_states replaced_def)
          note live = live_replaced[OF inv(1,4) h0 assms(5) s2(1)]
          have a: "?a \<noteq> FAILED_ADDR" using assms(5,7) N1 by (auto simp: FAILED_ADDR_def)
          have "env_cache_ok (put_env key ?a t) (live ?N3)"
            using live(1) N1 by (intro env_cache_ok_put[OF t a, where v = "value"]) auto
          then have "ef_inv (mem ?st3) ?st3 ?N3"
            using ok3 s2(3) inv settled_replaced[OF inv(1,3) h0] contents_update(1)[OF inv(4) live(1)] at
            by (simp add: ef_inv_def sec_cache_ok_advance replaced_def node_at_def)
          moreover have "contents (live ?N3) = (contents (live N))(key \<mapsto> value)" by (rule contents_update(2)[OF inv(4) live(1)])
          moreover have "known (mem st) N \<Longrightarrow> known (mem ?st3) ?N3"
          proof -
            assume kn: "known (mem st) N"
            have "known (mem ?st1) ?N1" using known_advance[OF inv(1) kn h0] s1 by simp
            then have "known (cells s2) ?N2" using d2 by (rule known_append)
            then show ?thesis using known_advance[OF s2(1) _ h2] s3 by (simp add: replaced_def)
          qed
          moreover have "?N3 x = [] \<longleftrightarrow> N x = []" if "x \<noteq> sec" for x using that by (simp add: append_node_def advance_def replaced_def)
          ultimately show "P EF_NO_ERR ?st3" by (intro assms(9))
        qed
      qed
    qed
    then show "wp F (case (True, env) of (env_is_found, env) \<Rightarrow>
     ebind (emod (\<lambda>st. st\<lparr>set_env_node := env\<rparr>)) (\<lambda>_.
     ebind (if env_is_found then del_node W (Some key) env False else eret EF_NO_ERR) (\<lambda>result.
     ebind (when_ok result (create_env_blob W sector key value)) (\<lambda>result.
     if env_is_found \<and> result = EF_NO_ERR then del_node W (Some key) env True else eret result)))) P (st\<lparr>env_cache_table := t\<rparr>)"
      by (simp add: wp_ebind wp_ebind_fun wp_emod)
  next
    fix env :: env_node_obj assume nokey: "key \<notin> set (keys_of (live N))" and len: "length (env_name env) = 32"
    let ?st = "st\<lparr>set_env_node := env\<rparr>"
    have "wp F (create_env_blob W sector key value) P ?st"
    proof (rule wp_create_node[where N = N and sec = sec and c' = "mem st"])
      show "store_ok (mem ?st) N" "sec_cache_ok (sector_cache_table ?st) N" "tidy (mem ?st) N" "fits key value" "0 \<notin> set key"
        "sec = 0 \<or> sec = 4096" "\<not> is_full (N sec)" "span (N sec) + node_size key value < 4080" "sector = measured sx (mem st) sec (N sec)"
        "sec_store (mem st) sec = sec_store (mem ?st) sec"
        using inv assms by simp_all
      fix s t
      let ?N = "append_node sec key value N"
      let ?st' = "?st\<lparr>flash_store := s, sector_cache_table := t,
        env_cache_table := put_env key (sec + 16 + span (N sec)) (env_cache_table ?st),
        gc_request := gc_request ?st \<or> is_full (N sec @ [(key, value, ENV_WRITE)])\<rparr>"
      assume s: "store_ok (cells s) ?N" "tidy (cells s) ?N" "sec_cache_ok t ?N"
        and d: "\<And>x. x = 0 \<or> x = 4096 \<Longrightarrow> sec_dirty (cells s) x = sec_dirty (mem ?st) x"
      have no: "fst (snd x) \<noteq> key" if "x \<in> set (live N)" for x
        using nokey that by (cases x) (force simp: keys_of_def)
      have live: "set (live ?N) = insert (sec + 16 + span (N sec), key, value) {x \<in> set (live N). fst (snd x) \<noteq> key}"
      proof -
        have "{x \<in> set (live N). fst (snd x) \<noteq> key} = set (live N)" using no by blast
        then show ?thesis using live_append[OF assms(5)] by (simp only:)
      qed
      have a: "sec + 16 + span (N sec) \<noteq> FAILED_ADDR" using assms(5,7) by (auto simp: FAILED_ADDR_def)
      have "env_cache_ok (put_env key (sec + 16 + span (N sec)) (env_cache_table st)) (live ?N)"
        using live by (intro env_cache_ok_put[OF inv(6) a, where v = "value"]) auto
      then have "ef_inv (mem ?st') ?st' ?N"
        using s inv settled_append contents_update(1)[OF inv(4) live] len by (simp add: ef_inv_def)
      moreover have "contents (live ?N) = (contents (live N))(key \<mapsto> value)" by (rule contents_update(2)[OF inv(4) live])
      moreover have "known (mem st) N \<Longrightarrow> known (mem ?st') ?N" using known_append[OF _ d] by simp
      moreover have "?N x = [] \<longleftrightarrow> N x = []" if "x \<noteq> sec" for x using that by (simp add: append_node_def)
      ultimately show "P EF_NO_ERR ?st'" by (intro assms(9))
    qed
    then show "wp F (case (False, env) of (env_is_found, env) \<Rightarrow>
     ebind (emod (\<lambda>st. st\<lparr>set_env_node := env\<rparr>)) (\<lambda>_.
     ebind (if env_is_found then del_node W (Some key) env False else eret EF_NO_ERR) (\<lambda>result.
     ebind (when_ok result (create_env_blob W sector key value)) (\<lambda>result.
     if env_is_found \<and> result = EF_NO_ERR then del_node W (Some key) env True else eret result)))) P st"
      by (simp add: wp_simps wp_eret_fun)
  qed
qed

end

end
