(* ===== verification/Easyflash_Ops.thy ===== *)
theory Easyflash_Ops
  imports Easyflash_Set
begin

text \<open>
  Reading and deleting a variable, and setting one that finds a place at once.
\<close>

lemma ef_inv_cache: "ef_inv c st N \<Longrightarrow> env_cache_ok t (live N) \<Longrightarrow> ef_inv c (st\<lparr>env_cache_table := t\<rparr>) N"
  by (simp add: ef_inv_def)

text \<open>What a read of the variable gives: as much of the value as the buffer takes, and its length.\<close>

definition blob :: "byte list option \<Rightarrow> byte list \<Rightarrow> nat \<times> nat option \<times> byte list" where
  "blob v buf = (case v of
       None \<Rightarrow> (0, None, buf)
     | Some v \<Rightarrow> (min (length buf) (length v), Some (length v), take (length buf) v @ drop (length v) buf))"

lemma keys_of_iff: "k \<in> set (keys_of L) \<longleftrightarrow> (\<exists>a v. (a, k, v) \<in> set L)"
  by (force simp: keys_of_def)

lemma contents_None: "k \<notin> set (keys_of L) \<Longrightarrow> contents L k = None"
  by (force simp: contents_def keys_of_def map_of_eq_None_iff)

context nor_port
begin

lemma wp_get_env:
  assumes "ef_inv (mem st) st N" "clear key (live N)" "0 \<notin> set key" "length key \<le> 32"
    and "\<And>t. ef_inv (mem st) (st\<lparr>env_cache_table := t\<rparr>) N \<Longrightarrow> P (blob (contents (live N) key) buf) (st\<lparr>env_cache_table := t\<rparr>)"
  shows "wp F (ef_get_env_blob W key buf) P st"
proof -
  have inv: "store_ok (mem st) N" "sec_cache_ok (sector_cache_table st) N" "env_cache_ok (env_cache_table st) (live N)" "init_ok st"
    "single (live N)"
    using assms(1) by (simp_all add: ef_inv_def)
  have "wp F (get_env W key buf) P st"
    unfolding get_env_def wp_ebind
  proof (rule wp_find_env[OF inv(1,2,3) assms(2-4) raw_name[unfolded EF_ENV_NAME_MAX_def]])
    fix env a v t assume l: "(a, key, v) \<in> set (live N)" and at: "node_at env (mem st) a key v" and t: "env_cache_ok t (live N)"
    have e: "value_addr env = a + (24 + length key)" "value_len env = length v" using at by (simp_all add: node_at_def)
    note s = live_stored[OF inv(1) l]
    have b: "a + (24 + length key) + length v \<le> PART_SIZE" using s(2,5) by (simp add: fits_def node_size_def)
    define n where "n = min (length buf) (length v)"
    have n: "(if length buf > length v then length v else length buf) = n" "n \<le> length v" "n \<le> length buf" by (auto simp: n_def)
    have d: "bytes_at (mem st) (a + (24 + length key)) n = take n v"
      using take_bytes_at[OF n(2), of "mem st" "a + (24 + length key)"] stored_parts(4)[OF s(1)] by simp
    have "contents (live N) key = Some v" using contents_iff[OF inv(5)] l by blast
    moreover have "take n v @ drop n buf = take (length buf) v @ drop (length v) buf" by (simp add: n_def min_def)
    ultimately have bl: "blob (contents (live N) key) buf = (n, Some (length v), take n v @ drop n buf)"
      by (simp add: blob_def n_def)
    show "wp F (case (True, env) of (found, env) \<Rightarrow> if found then
       (let read_len = (if length buf > value_len env then value_len env else length buf)
        in ebind (rd W (value_addr env) (take read_len buf)) (\<lambda>data.
           eret (read_len, Some (value_len env), data @ drop read_len buf)))
     else eret (0, None, buf)) P (st\<lparr>env_cache_table := t\<rparr>)"
      unfolding prod.case if_True Let_def e n(1)
      using assms(5)[OF ef_inv_cache[OF assms(1) t]] b n(2,3) by (simp add: wp_simps wp_rd min_absorb2 d bl)
  next
    fix env :: env_node_obj assume "key \<notin> set (keys_of (live N))"
    then have "blob (contents (live N) key) buf = (0, None, buf)" by (simp add: blob_def contents_None)
    then show "wp F (case (False, env) of (found, env) \<Rightarrow> if found then
       (let read_len = (if length buf > value_len env then value_len env else length buf)
        in ebind (rd W (value_addr env) (take read_len buf)) (\<lambda>data.
           eret (read_len, Some (value_len env), data @ drop read_len buf)))
     else eret (0, None, buf)) P st"
      using assms(5)[OF ef_inv_cache[OF assms(1) inv(3)]] by (simp add: wp_simps)
  qed
  then show ?thesis using inv(4) by (simp add: ef_get_env_blob_def wp_simps)
qed

lemma wp_delete:
  assumes "ef_inv (mem st) st N" "clear key (live N)" "0 \<notin> set key" "length key \<le> 32"
    and "\<And>st' N'. ef_inv (mem st') st' N' \<Longrightarrow> contents (live N') = (contents (live N))(key := None) \<Longrightarrow>
      (\<And>x. N' x = [] \<longleftrightarrow> N x = []) \<Longrightarrow> gc_request st' = gc_request st \<Longrightarrow> (known (mem st) N \<Longrightarrow> known (mem st') N') \<Longrightarrow>
      P (if contents (live N) key = None then EF_ENV_NAME_ERR else EF_NO_ERR) st'"
  shows "wp F (del_env W key) P st"
proof -
  have inv: "store_ok (mem st) N" "tidy (mem st) N" "settled N" "single (live N)" "sec_cache_ok (sector_cache_table st) N"
    "env_cache_ok (env_cache_table st) (live N)" "\<not> last_is_complete_del st" "\<not> in_recovery_check st" "init_ok st"
    "length (env_name (set_env_node st)) = 32"
    using assms(1) by (simp_all add: ef_inv_def)
  show ?thesis
    unfolding del_env_def wp_ebind
  proof (rule wp_find_env[OF inv(1,5,6) assms(2-4) raw_name[unfolded EF_ENV_NAME_MAX_def]])
    fix env a v t assume l: "(a, key, v) \<in> set (live N)" and at: "node_at env (mem st) a key v" and t: "env_cache_ok t (live N)"
    obtain sec where h: "has_node N sec a key v ENV_WRITE" using live_sector[OF l] by blast
    then have sec: "sec = 0 \<or> sec = 4096" by (simp add: has_node_def)
    note b = has_node_bounds[OF inv(1) h]
    let ?N = "advance sec a ENV_DELETED N" and ?st = "st\<lparr>env_cache_table := t\<rparr>"
    have "wp F (del_node W (Some key) env True) P ?st"
    proof (rule wp_del_node_full[where name = key, OF b(3) sec])
      show "start_addr env = a" using at by (simp add: node_at_def)
      show "a + 24 \<le> sec + 4096" using b(2) by (simp add: node_size_def)
      fix s assume s: "cells s = dirtied sec (burn a [status_byte ENV_DELETED] (mem ?st))"
      have live: "set (live ?N) = {x \<in> set (live N). fst (snd x) \<noteq> key}"
        using live_advance[OF inv(1) h, of ENV_DELETED] live_key[OF inv(1,4) h] by (auto simp: ef_states)
      have "?N = advance sec a ENV_DELETED (advance sec a ENV_DELETED N)" by (simp add: advance_def set_at_twice fun_eq_iff)
      then have "settled ?N" using settled_advance[OF inv(3)] by metis
      moreover have "store_ok (cells s) ?N" "tidy (cells s) ?N"
        using advanced_ok[OF inv(1) h, of ENV_DELETED] tidy_advance[OF inv(1,2) h] s by (simp_all add: ef_states)
      moreover have "env_cache_ok (drop_env key t) (live ?N)" using live by (intro env_cache_ok_drop[OF t]) auto
      ultimately have "ef_inv (cells s) (?st\<lparr>flash_store := s, env_cache_table := (if last_is_complete_del ?st then env_cache_table ?st
          else drop_env key (env_cache_table ?st)), last_is_complete_del := False\<rparr>) ?N"
        using inv contents_delete(1)[OF inv(4) live] by (simp add: ef_inv_def sec_cache_ok_advance)
      moreover have "contents (live N) key = Some v" using contents_iff[OF inv(4)] l by blast
      ultimately show "P EF_NO_ERR (?st\<lparr>flash_store := s, env_cache_table := (if last_is_complete_del ?st then env_cache_table ?st
          else drop_env key (env_cache_table ?st)), last_is_complete_del := False\<rparr>)"
        using assms(5)[of "?st\<lparr>flash_store := s, env_cache_table := (if last_is_complete_del ?st then env_cache_table ?st
          else drop_env key (env_cache_table ?st)), last_is_complete_del := False\<rparr>" ?N]
          contents_delete(2)[OF inv(4) live] known_advance[OF inv(1) _ h] s by (simp add: advance_def)
    qed simp
    then show "wp F (case (True, env) of (found, env) \<Rightarrow> if found then del_node W (Some key) env True else eret EF_ENV_NAME_ERR) P ?st"
      by simp
  next
    fix env :: env_node_obj assume n: "key \<notin> set (keys_of (live N))"
    then have "contents (live N) key = None" by (rule contents_None)
    then show "wp F (case (False, env) of (found, env) \<Rightarrow> if found then del_node W (Some key) env True else eret EF_ENV_NAME_ERR) P st"
      using assms(5)[OF assms(1)] by (simp add: wp_simps fun_upd_idem)
  qed
qed

end

end
