(* ===== verification/Easyflash_Gc.thy ===== *)
theory Easyflash_Gc
  imports Easyflash_Ops
begin

text \<open>
  The collection: the nodes of a dirty sector are moved to the other sector, and it is formatted. When the other
  sector is empty no variable is lost.
\<close>

section \<open>Moving a node\<close>

lemma burn_append: "burn a (xs @ ys) c = burn (a + length xs) ys (burn a xs c)"
  by (rule ext) (auto simp: burn_def nth_append not_le diff_diff_left)

lemma burn_Nil [simp]: "burn a [] c = c"
  by (rule ext) (auto simp: burn_def)

lemma put_node_burn: "put_node a k v c = burn a [status_byte ENV_WRITE] (burn (a + 4) (node_bytes k v) (burn a [status_byte ENV_PRE_WRITE] c))"
  by (simp add: put_node_def node_bytes_def burn_append add.assoc)

context nor_port
begin

lemma wp_copy_loop:
  assumes "src + n \<le> PART_SIZE" "dst + n \<le> PART_SIZE" "src + n \<le> dst \<or> dst + n \<le> src" "len \<le> n"
    and "\<And>s. cells s = burn (dst + len) (bytes_at (mem st) (src + len) (n - len)) (mem st) \<Longrightarrow> P EF_NO_ERR (st\<lparr>flash_store := s\<rparr>)"
  shows "wp F (copy_loop W src dst len n EF_NO_ERR) P st"
  using assms(4,5)
proof (induction "n - len" arbitrary: len st rule: less_induct)
  case less
  show ?case
  proof (cases "len < n")
    case False
    have "st\<lparr>flash_store := flash_store st\<rparr> = st" by simp
    then show ?thesis using False less.prems(1) less.prems(2)[of "flash_store st"]
      by (subst copy_loop.simps) (simp add: wp_simps mem_def)
  next
    case True
    define m where "m = (if len + 32 < n then 32 else n - len)"
    have m: "0 < m" "len + m \<le> n" using True by (auto simp: m_def)
    have w: "wadd src len = src + len" "wadd dst len = dst + len" "src + len + m \<le> PART_SIZE" "dst + len + m \<le> PART_SIZE"
      using assms(1,2) m by (simp_all add: PART_SIZE_def)
    have "wp F (wr W (dst + len) (bytes_at (mem st) (src + len) m)) (\<lambda>r. wp F (copy_loop W src dst (len + m) n r) P) st"
    proof (rule wp_wr)
      fix s assume s: "cells s = burn (dst + len) (bytes_at (mem st) (src + len) m) (mem st)"
      show "wp F (copy_loop W src dst (len + m) n EF_NO_ERR) P (st\<lparr>flash_store := s\<rparr>)"
      proof (rule less.hyps)
        fix s' assume s': "cells s' = burn (dst + (len + m)) (bytes_at (mem (st\<lparr>flash_store := s\<rparr>)) (src + (len + m)) (n - (len + m))) (mem (st\<lparr>flash_store := s\<rparr>))"
        have "bytes_at (cells s) (src + (len + m)) (n - (len + m)) = bytes_at (mem st) (src + (len + m)) (n - (len + m))"
          unfolding s using assms(3) m by (intro bytes_at_burn_outside) auto
        moreover have "bytes_at (mem st) (src + len) (n - len) =
            bytes_at (mem st) (src + len) m @ bytes_at (mem st) (src + (len + m)) (n - (len + m))"
          using bytes_at_add[of "mem st" "src + len" m "n - (len + m)"] m by (simp add: add.assoc)
        ultimately have "cells s' = burn (dst + len) (bytes_at (mem st) (src + len) (n - len)) (mem st)"
          using s s' by (simp add: burn_append add.assoc)
        then show "P EF_NO_ERR (st\<lparr>flash_store := s, flash_store := s'\<rparr>)" using less.prems(2) by simp
      qed (use m in auto)
    qed (use w in simp)
    then show ?thesis
      using True w by (subst copy_loop.simps) (simp add: wp_simps wp_rd m_def[symmetric])
  qed
qed

end

text \<open>With a collection under way the place for a node of the dirty sector is the other one.\<close>

lemma place_other:
  assumes "tidy c N" "A = 0 \<and> B = 4096 \<or> A = 4096 \<and> B = 0" "sec_dirty c A = SECTOR_DIRTY_GC" "sec_dirty c B = SECTOR_DIRTY_FALSE"
    and "\<not> is_full (N B)" "span (N B) + sz < 4080"
  shows "alloc_place c N True sz = Some B"
proof -
  have "sec_store c B = stage (N B)" using assms(1,2) by (auto simp: tidy_def)
  then have st: "sec_store c B = SECTOR_STORE_EMPTY \<or> sec_store c B = SECTOR_STORE_USING" using assms(5) by (simp add: stage_def)
  have o: "open_for c N True sz B" "\<not> open_for c N True sz A"
    using assms(3,4,6) by (auto simp: open_for_def ef_states)
  have "place_in w c N True sz = (if sec_store c B = w then Some B else None)" for w
    using assms(2) o by (elim disjE conjE) (simp_all add: place_in_def)
  then show ?thesis using st by (elim disjE) (simp_all add: alloc_place_def ef_states)
qed

text \<open>What is left of \<open>move_env\<close> once there is a place.\<close>

definition copy_node :: "'s ef_world \<Rightarrow> env_node_obj \<Rightarrow> nat \<Rightarrow> sector_meta_data \<Rightarrow> (EfErrCode, 's) run" where
  "copy_node W env env_addr sector =
     ebind (update_sec_status W sector (env_len env) False) (\<lambda>_.
     ebind (write_status W env_addr ENV_STATUS_NUM ENV_PRE_WRITE) (\<lambda>_.
     ebind (copy_loop W (wadd (start_addr env) ENV_MAGIC_OFFSET) (wadd env_addr ENV_MAGIC_OFFSET) 0
         (wsub (env_len env) ENV_MAGIC_OFFSET) EF_NO_ERR) (\<lambda>result.
     ebind (write_status W env_addr ENV_STATUS_NUM ENV_WRITE) (\<lambda>_.
     ebind (update_sector_cache (sector_of env_addr)
         (wadd (wadd (wadd env_addr ENV_HDR_DATA_SIZE) (name_len env)) (value_len env))) (\<lambda>_.
     ebind (update_env_cache (take (name_len env) (env_name env)) env_addr) (\<lambda>_.
     eret result))))))"

context nor_port
begin

lemma wp_copy_node:
  assumes "store_ok (mem st) N" "tidy (mem st) N" "sec_cache_ok (sector_cache_table st) N"
    and "A = 0 \<and> B = 4096 \<or> A = 4096 \<and> B = 0" "has_node N A a k v t" "node_at env c0 a k v"
    and "\<not> is_full (N B)" "span (N B) + node_size k v < 4080"
    and "sector = measured sx c' B (N B)" "sec_store c' B = sec_store (mem st) B"
    and "\<And>s t. store_ok (cells s) (append_node B k v N) \<Longrightarrow> tidy (cells s) (append_node B k v N) \<Longrightarrow>
      sec_cache_ok t (append_node B k v N) \<Longrightarrow>
      (\<And>x. x = 0 \<or> x = 4096 \<Longrightarrow> sec_dirty (cells s) x = sec_dirty (mem st) x) \<Longrightarrow>
      P EF_NO_ERR (st\<lparr>flash_store := s, sector_cache_table := t, env_cache_table := put_env k (B + 16 + span (N B)) (env_cache_table st)\<rparr>)"
  shows "wp F (copy_node W env (B + 16 + span (N B)) sector) P st"
proof -
  let ?n = "node_size k v" and ?N = "append_node B k v N"
  define dst where "dst = B + 16 + span (N B)"
  note h = has_node_bounds[OF assms(1,5)]
  have B: "B = 0 \<or> B = 4096" using assms(4) by auto
  note facts = append_facts[OF assms(1,2) h(5,6) B assms(7-10), folded dst_def]
  have e: "env_len env = ?n" "start_addr env = a" "name_len env = length k" "value_len env = length v" "take (length k) (env_name env) = k"
    using assms(6) by (simp_all add: node_at_def)
  have n: "?n = 24 + length k + length v" by (simp add: node_size_def)
  have r: "dst + 24 \<le> dst + ?n" "dst + ?n < B + 4096" "B + 16 \<le> dst" using assms(8) n by (simp_all add: dst_def)
  have sec: "sector_of dst = B" using B r by (intro sector_of_inside) auto
  have w: "wadd (start_addr env) ENV_MAGIC_OFFSET = a + 4" "wadd dst ENV_MAGIC_OFFSET = dst + 4" "wsub (env_len env) ENV_MAGIC_OFFSET = ?n - 4"
    "wadd (wadd (wadd dst ENV_HDR_DATA_SIZE) (name_len env)) (value_len env) = dst + ?n"
    using h(2) r B assms(4) by (auto simp: e n ENV_MAGIC_OFFSET_def ENV_HDR_DATA_SIZE_def wsub_small)
  have st: "0 < ENV_PRE_WRITE" "ENV_PRE_WRITE < ENV_STATUS_NUM" "ENV_STATUS_NUM \<le> 9" "dst < PART_SIZE" "0 < ENV_WRITE" "ENV_WRITE < ENV_STATUS_NUM"
    using r B by (auto simp: ef_states PART_SIZE_def)
  have copy: "a + 4 + (?n - 4) \<le> PART_SIZE" "dst + 4 + (?n - 4) \<le> PART_SIZE" "a + 4 + (?n - 4) \<le> dst + 4 \<or> dst + 4 + (?n - 4) \<le> a + 4"
    using h(1,2) r B assms(4) n by (auto simp: PART_SIZE_def)
  have addr: "sec_addr sector < PART_SIZE" using facts(5) B by (auto simp: PART_SIZE_def)
  have src: "bytes_at (burn dst [x] (mark sector ?n (mem st))) (a + 4) (?n - 4) = node_bytes k v" for x
  proof -
    have "bytes_at (burn dst [x] (mark sector ?n (mem st))) (a + 4) (?n - 4) = bytes_at (mem st) (a + 4) (?n - 4)"
      using h(1,2) r assms(4) facts(5) by (intro bytes_at_cong) (auto simp: burn_def mark_def)
    then show ?thesis using h(4) by (simp add: stored_def)
  qed
  have N: "?N x = N x" if "x \<noteq> B" for x using that by (simp add: append_node_def)
  show ?thesis
    unfolding copy_node_def dst_def[symmetric] wp_ebind w w(3)[unfolded e(1)] e(1) sec
  proof (rule wp_update_sec_status[OF addr], rule wp_write_status[OF st(1-4)], rule wp_copy_loop[OF copy le0],
      rule wp_write_status[OF st(5,6,3,4)], unfold wp_simps update_sector_cache_def update_env_cache_def put_sector_def[symmetric] put_env_def[symmetric] e(3,5))
    fix s1 s2 s3 s4
    let ?t = "if fills sector ?n then drop_sector (sec_addr sector) (sector_cache_table st) else sector_cache_table st"
    let ?st1 = "st\<lparr>flash_store := s1, sector_cache_table := ?t\<rparr>"
    assume s1: "cells s1 = mark sector ?n (mem st)" and s2: "cells s2 = burn dst [status_byte ENV_PRE_WRITE] (mem ?st1)"
      and s3: "cells s3 = burn (dst + 4 + 0) (bytes_at (mem (?st1\<lparr>flash_store := s2\<rparr>)) (a + 4 + 0) (?n - 4 - 0)) (mem (?st1\<lparr>flash_store := s2\<rparr>))"
      and s4: "cells s4 = burn dst [status_byte ENV_WRITE] (mem (?st1\<lparr>flash_store := s2, flash_store := s3\<rparr>))"
    have c: "cells s4 = put_node dst k v (mark sector ?n (mem st))"
      using s1 s2 s3 s4 src by (simp add: put_node_burn)
    have t: "sec_cache_ok ?t N"
      using sec_cache_ok_drop[OF assms(3) B, of N] assms(3) facts(5) by simp
    have ok: "sec_cache_ok (put_sector B (dst + ?n) ?t) ?N"
      by (rule sec_cache_ok_put[OF t B _ N]) (simp_all add: append_node_def dst_def)
    let ?st4 = "?st1\<lparr>flash_store := s2, flash_store := s3, flash_store := s4\<rparr>"
    let ?st5 = "?st4\<lparr>sector_cache_table := put_sector B (dst + ?n) (sector_cache_table ?st4)\<rparr>"
    show "P EF_NO_ERR (?st5\<lparr>env_cache_table := put_env k dst (env_cache_table ?st5)\<rparr>)"
      using assms(11)[of s4, OF facts(1)[folded c] facts(2)[folded c] ok facts(3)[folded c]] by (simp add: dst_def)
  qed
qed


lemma wp_move_env:
  assumes "ef_inv (mem st) st N" "gc_request st" "A = 0 \<and> B = 4096 \<or> A = 4096 \<and> B = 0"
    and "sec_dirty (mem st) A = SECTOR_DIRTY_GC" "sec_dirty (mem st) B = SECTOR_DIRTY_FALSE"
    and "has_node N A a k v ENV_WRITE" "node_at env (mem st) a k v" "\<not> is_full (N B)" "span (N B) + node_size k v < 4080"
    and "\<And>st'. ef_inv (mem st') st' (replaced A a B k v N) \<Longrightarrow> gc_request st' \<Longrightarrow> sec_dirty (mem st') A = SECTOR_DIRTY_GC \<Longrightarrow>
      sec_dirty (mem st') B = SECTOR_DIRTY_FALSE \<Longrightarrow> contents (live (replaced A a B k v N)) = contents (live N) \<Longrightarrow> P EF_NO_ERR st'"
  shows "wp F (move_env W env) P st"
proof -
  have inv: "store_ok (mem st) N" "tidy (mem st) N" "settled N" "single (live N)" "sec_cache_ok (sector_cache_table st) N"
    "env_cache_ok (env_cache_table st) (live N)" "\<not> last_is_complete_del st" "\<not> in_recovery_check st" "init_ok st"
    "length (env_name (set_env_node st)) = 32"
    using assms(1) by (simp_all add: ef_inv_def)
  have AB: "A = 0 \<or> A = 4096" "B = 0 \<or> B = 4096" "A \<noteq> B" using assms(3) by auto
  let ?N1 = "advance A a ENV_PRE_DELETE N" and ?n = "node_size k v"
  note b = has_node_bounds[OF inv(1) assms(6)]
  have l: "(a, k, v) \<in> set (live N)" using assms(6) by (auto simp: live_iff has_node_def)
  have e: "env_len env = ?n" "start_addr env = a" "env_status env = ENV_WRITE"
    using assms(7) live_stored(4)[OF inv(1) l] by (simp_all add: node_at_def)
  have a: "a + 24 \<le> A + 4096" "a \<noteq> A + 1" "a \<noteq> B + 1" using b(1,2) AB by (auto simp: node_size_def)
  have N1B: "?N1 B = N B" using AB(3) by (simp add: advance_def)
  have h1: "has_node ?N1 A a k v ENV_PRE_DELETE" by (rule has_node_advance[OF assms(6)])
  have dirty: "sec_dirty (dirtied A (burn a [x] c)) A = SECTOR_DIRTY_GC" "sec_dirty (dirtied A (burn a [x] c)) B = SECTOR_DIRTY_FALSE"
    if "sec_dirty c A = SECTOR_DIRTY_GC" "sec_dirty c B = SECTOR_DIRTY_FALSE" for c x
    using that a AB sec_dirty_other[of B A a x c] by (auto simp: dirtied_def sec_dirty_def burn_def ef_states)
  define rest where "rest = (\<lambda>(env_addr, sector). if env_addr = FAILED_ADDR then eret EF_ENV_FULL
     else
       ebind (eget in_recovery_check) (\<lambda>recovery.
       ebind (if recovery then find_env_no_cache W (cstr (take (name_len env) (env_name env))) (raw_node W)
              else eret (False, env)) (\<lambda>(already, _).
       ebind (if already then eret EF_NO_ERR else copy_node W env env_addr sector) (\<lambda>result.
       ebind (del_node W None env True) (\<lambda>_. eret result)))))"
  have eq: "move_env W env = ebind (del_node W None env False) (\<lambda>_. ebind (alloc_env W (raw_sector W) ?n) rest)"
    unfolding move_env_def rest_def copy_node_def e(1,3) by simp
  show ?thesis
    unfolding eq wp_ebind
  proof (rule wp_del_node_pre[OF b(3) AB(1) e(2) a(1)])
    fix s1
    let ?st1 = "st\<lparr>flash_store := s1, last_is_complete_del := True\<rparr>"
    assume s1: "cells s1 = dirtied A (burn a [status_byte ENV_PRE_DELETE] (mem st))"
    have ok1: "store_ok (mem ?st1) ?N1" "tidy (mem ?st1) ?N1" "sec_cache_ok (sector_cache_table ?st1) ?N1"
      using advanced_ok[OF inv(1) assms(6), of ENV_PRE_DELETE] tidy_advance[OF inv(1,2) assms(6)] s1 inv(5)
      by (simp_all add: ef_states sec_cache_ok_advance)
    have d1: "sec_dirty (mem ?st1) A = SECTOR_DIRTY_GC" "sec_dirty (mem ?st1) B = SECTOR_DIRTY_FALSE" using dirty[OF assms(4,5)] s1 by simp_all
    have p1: "alloc_place (mem ?st1) ?N1 (gc_request ?st1) ?n = Some B"
      using place_other[OF ok1(2) assms(3) d1, of ?n] assms(2,8,9) by (simp add: N1B)
    show "wp F (alloc_env W (raw_sector W) ?n) (\<lambda>x. wp F (rest x) P) ?st1"
    proof (rule wp_alloc_env[OF ok1(1,3)])
      fix sec s t assume "alloc_place (mem ?st1) ?N1 (gc_request ?st1) ?n = Some sec" and t: "sec_cache_ok t ?N1"
      then have sec: "sec = B" using p1 by simp
      let ?st2 = "?st1\<lparr>sector_cache_table := t\<rparr>" and ?dst = "B + 16 + span (?N1 B)"
      let ?N2 = "append_node B k v ?N1"
      have dst: "?dst \<noteq> FAILED_ADDR" using AB(2) assms(9) by (auto simp: N1B FAILED_ADDR_def)
      have "wp F (copy_node W env ?dst (measured s (mem ?st1) B (?N1 B))) (\<lambda>r. wp F (del_node W None env True) (\<lambda>_. P r)) ?st2"
      proof (rule wp_copy_node[OF _ _ _ assms(3) h1 assms(7) _ _ refl])
        show "store_ok (mem ?st2) ?N1" "tidy (mem ?st2) ?N1" "sec_cache_ok (sector_cache_table ?st2) ?N1"
          "\<not> is_full (?N1 B)" "span (?N1 B) + ?n < 4080" "sec_store (mem ?st1) B = sec_store (mem ?st2) B"
          using ok1 t assms(8,9) by (simp_all add: N1B)
        fix s2 t2
        let ?st3 = "?st2\<lparr>flash_store := s2, sector_cache_table := t2, env_cache_table := put_env k ?dst (env_cache_table ?st2)\<rparr>"
        assume s2: "store_ok (cells s2) ?N2" "tidy (cells s2) ?N2" "sec_cache_ok t2 ?N2"
          and d2: "\<And>x. x = 0 \<or> x = 4096 \<Longrightarrow> sec_dirty (cells s2) x = sec_dirty (mem ?st2) x"
        have d2': "sec_dirty (cells s2) A = SECTOR_DIRTY_GC" "sec_dirty (cells s2) B = SECTOR_DIRTY_FALSE"
          using d2[OF AB(1)] d2[OF AB(2)] d1 by simp_all
        have h2: "has_node ?N2 A a k v ENV_PRE_DELETE" by (rule has_node_append[OF h1])
        show "wp F (del_node W None env True) (\<lambda>_. P EF_NO_ERR) ?st3"
        proof (rule wp_del_node_full[OF b(3) AB(1) e(2) a(1) refl])
          fix s3
          let ?st4 = "?st3\<lparr>flash_store := s3, env_cache_table := (if last_is_complete_del ?st3 then env_cache_table ?st3
            else drop_env (case None of Some k \<Rightarrow> k | None \<Rightarrow> take (name_len env) (env_name env)) (env_cache_table ?st3)),
            last_is_complete_del := False\<rparr>"
          let ?N3 = "replaced A a B k v N"
          assume s3: "cells s3 = dirtied A (burn a [status_byte ENV_DELETED] (mem ?st3))"
          have ok3: "store_ok (cells s3) ?N3" "tidy (cells s3) ?N3"
            using advanced_ok[OF s2(1) h2, of ENV_DELETED] tidy_advance[OF s2(1,2) h2] s3
            by (simp_all add: ef_states replaced_def)
          note live = live_replaced[OF inv(1,4) assms(6) AB(2) s2(1)]
          have "env_cache_ok (put_env k ?dst (env_cache_table st)) (live ?N3)"
            using live(1) by (intro env_cache_ok_put[OF inv(6) dst, where v = v]) (auto simp: N1B)
          then have "ef_inv (mem ?st4) ?st4 ?N3"
            using ok3 s2(3) inv settled_replaced[OF inv(1,3) assms(6)] contents_update(1)[OF inv(4) live(1)]
            by (simp add: ef_inv_def sec_cache_ok_advance replaced_def)
          moreover have "contents (live ?N3) = contents (live N)"
            using contents_update(2)[OF inv(4) live(1)] l by (simp add: contents_iff[OF inv(4)] fun_upd_idem exI)
          ultimately show "P EF_NO_ERR ?st4"
            using assms(2) dirty[OF d2', of "status_byte ENV_DELETED"] s3 by (intro assms(10)) simp_all
        qed
      qed
      then show "wp F (rest (sec + 16 + span (?N1 sec), measured s (mem ?st1) sec (?N1 sec))) P ?st2"
        using dst inv(8) by (simp add: rest_def sec wp_simps wp_eret_fun wp_ebind_fun)
    next
      fix s t assume "alloc_place (mem ?st1) ?N1 (gc_request ?st1) ?n = None"
      then show "wp F (rest (FAILED_ADDR, s)) P (?st1\<lparr>sector_cache_table := t, gc_request := asks_gc (mem ?st1) ?N1 (gc_request ?st1) ?n\<rparr>)"
        using p1 by simp
    qed
  qed
qed

end

section \<open>The nodes of a sector, one after the other\<close>

lemma set_at_after: "b + span ns \<le> a \<Longrightarrow> set_at b a s ns = ns"
  by (induction b a s ns rule: set_at.induct) (auto simp: node_size_def)

lemma set_at_here: "set_at b (b + span pre) s (pre @ (k, v, t) # ns) = pre @ (k, v, s) # ns"
  by (simp add: set_at_append set_at_after set_at_before)

lemma replaced_here:
  assumes "A = 0 \<and> B = 4096 \<or> A = 4096 \<and> B = 0" "N A = pre @ (k, v, t) # ns" "a = A + 16 + span pre"
  shows "replaced A a B k v N = N(A := pre @ (k, v, ENV_DELETED) # ns, B := N B @ [(k, v, ENV_WRITE)])"
  using assms by (auto simp: replaced_def advance_def append_node_def set_at_here fun_eq_iff)


context nor_port
begin

lemma wp_gc_loop:
  assumes "A = 0 \<and> B = 4096 \<or> A = 4096 \<and> B = 0" "sec_addr sector = A" "store_status sector \<noteq> SECTOR_STORE_EMPTY"
    and "ef_inv (mem st) st N" "gc_request st" "sec_dirty (mem st) A = SECTOR_DIRTY_GC" "sec_dirty (mem st) B = SECTOR_DIRTY_FALSE"
    and "N A = pre @ ns" "length (N B) \<le> length pre" "span (N B) \<le> span pre" "\<forall>x\<in>set pre. \<not> is_live x"
    and "before env A (A + 16 + span pre)" "ns \<noteq> [] \<or> start_addr env \<noteq> FAILED_ADDR" "length ns < fuel" "length (env_name env) = 32"
    and "\<And>st' N'. ef_inv (mem st') st' N' \<Longrightarrow> gc_request st' \<Longrightarrow> sec_dirty (mem st') B = SECTOR_DIRTY_FALSE \<Longrightarrow>
      contents (live N') = contents (live N) \<Longrightarrow> N' A \<noteq> [] \<Longrightarrow> \<forall>x\<in>set (N' A). \<not> is_live x \<Longrightarrow> N' B = N B @ filter is_live ns \<Longrightarrow> P () st'"
  shows "wp F (gc_loop W fuel sector env) P st"
  using assms(4-)
proof (induction ns arbitrary: pre env fuel st N P)
  case Nil
  note inv = Nil(1)[unfolded ef_inv_def]
  obtain f where f: "fuel = Suc f" using Nil(11) by (cases fuel) auto
  have A: "A = 0 \<or> A = 4096" using assms(1) by auto
  have ok: "sector_ok (mem st) A (N A)" using sector_ok_store[of "mem st" N A] inv A by blast
  have ne: "N A \<noteq> []"
  proof
    assume "N A = []"
    then have "sec_dirty (mem st) A = SECTOR_DIRTY_FALSE" using inv A by (auto simp: tidy_def)
    then show False using Nil(3) by (simp add: ef_states)
  qed
  have "wp F (get_next_env_addr W sector env) Q st = Q FAILED_ADDR st" for Q
    using wp_get_next[OF A assms(2,3) Nil(9), of st "[]"] Nil(5,10) ok inv sec_cache_ok_end[of "sector_cache_table st" N A]
    by (auto simp: sector_ok_def add.commute)
  then have "wp F (gc_loop W fuel sector env) P st = P () st" by (simp add: f wp_simps)
  moreover have "P () st" using Nil(8) ne by (intro Nil(13)[OF Nil(1,2,4) refl]) (simp_all add: Nil(5))
  ultimately show ?case by simp
next
  case (Cons x ns)
  obtain k v s where x: "x = (k, v, s)" by (cases x)
  obtain f where f: "fuel = Suc f" using Cons.prems(11) by (cases fuel) auto
  note inv = Cons.prems(1)[unfolded ef_inv_def]
  have A: "A = 0 \<or> A = 4096" "B = 0 \<or> B = 4096" "A \<noteq> B" using assms(1) by auto
  let ?b = "A + 16 + span pre"
  have ok: "sector_ok (mem st) A (pre @ x # ns)" using sector_ok_store[of "mem st" N A] inv A Cons.prems(5) by metis
  have n: "stored (mem st) ?b k v" "fits k v" "get_status [mem st ?b] ENV_STATUS_NUM = s" "s = ENV_WRITE \<or> s = ENV_PRE_DELETE \<or> s = ENV_DELETED"
    "span pre + node_size k v + span ns \<le> 4080"
    using ok by (simp_all add: sector_ok_def x)
  have s: "s \<noteq> ENV_PRE_DELETE" using inv A Cons.prems(5) by (fastforce simp: settled_def x)
  have bl: "?b + 4096 \<le> PART_SIZE" "?b \<noteq> FAILED_ADDR" using A n(5) by (auto simp: PART_SIZE_def FAILED_ADDR_def)
  let ?env = "node_of (env\<lparr>start_addr := ?b\<rparr>) (mem st) ?b k v"
  have at: "node_at ?env (mem st) ?b k v" using n(2) Cons.prems(12) by (intro node_at_of) simp_all
  then have es: "env_status ?env = s" "crc_is_ok ?env" using n(3) by (simp_all add: node_at_def)
  have next1: "wp F (get_next_env_addr W sector env) Q st = Q ?b st" for Q
    using wp_get_next[OF A(1) assms(2,3) Cons.prems(9), of st "x # ns"] ok Cons.prems(5) inv
      sec_cache_ok_end[of "sector_cache_table st" N A] A(1)
    by (simp add: sector_ok_def add.assoc)
  have read: "wp F (read_env W (env\<lparr>start_addr := ?b\<rparr>)) Q st = Q (EF_NO_ERR, ?env) st" for Q
    using n bl Cons.prems(12) by (intro wp_read_env) simp_all
  have before: "before ?env A (A + 16 + span (pre @ [(k, v, ENV_DELETED)]))" using before_node_at[OF at, of A] by (simp add: add.assoc)
  have ie: "start_addr ?env \<noteq> FAILED_ADDR" "length (env_name ?env) = 32" using at bl by (simp_all add: node_at_def)
  have fl: "length ns < f" using Cons.prems(11) by (simp add: f)
  have step: "wp F (if crc_is_ok ?env \<and> (env_status ?env = ENV_WRITE \<or> env_status ?env = ENV_PRE_DELETE) then move_env W ?env else eret EF_NO_ERR)
      (\<lambda>_. wp F (gc_loop W f sector ?env) P) st"
  proof (cases "s = ENV_WRITE")
    case True
    have h: "has_node N A ?b k v ENV_WRITE" using A(1) Cons.prems(5) by (auto simp: has_node_def x True)
    have pk: "packed (N A)" using inv A by (auto simp: tidy_def)
    then have "\<not> is_full pre" using Cons.prems(5) unfolding packed_def by (metis append_eq_conv_conj length_append less_add_same_cancel1 length_greater_0_conv list.distinct(1))
    then have nf: "\<not> is_full (N B)" using Cons.prems(6,7) by (auto simp: is_full_def)
    have sp: "span (N B) + node_size k v < 4080" using pk Cons.prems(5,7) by (simp add: packed_def x)
    have mv: "wp F (move_env W ?env) (\<lambda>_. wp F (gc_loop W f sector ?env) P) st"
    proof (rule wp_move_env[OF Cons.prems(1,2) assms(1) Cons.prems(3,4) h at nf sp])
      fix st' let ?N = "replaced A ?b B k v N"
      assume st': "ef_inv (mem st') st' ?N" "gc_request st'" "sec_dirty (mem st') A = SECTOR_DIRTY_GC"
        "sec_dirty (mem st') B = SECTOR_DIRTY_FALSE" "contents (live ?N) = contents (live N)"
      have N: "?N A = (pre @ [(k, v, ENV_DELETED)]) @ ns" "?N B = N B @ [(k, v, ENV_WRITE)]"
        using replaced_here[where N = N and A = A and B = B and pre = pre, OF assms(1) _ refl] Cons.prems(5) A(3) by (simp_all add: x)
      show "wp F (gc_loop W f sector ?env) P st'"
      proof (rule Cons.IH[OF st'(1-4) N(1) _ _ _ before disjI2[OF ie(1)] fl ie(2)])
        show "length (?N B) \<le> length (pre @ [(k, v, ENV_DELETED)])" "span (?N B) \<le> span (pre @ [(k, v, ENV_DELETED)])"
          "\<forall>x\<in>set (pre @ [(k, v, ENV_DELETED)]). \<not> is_live x"
          using Cons.prems(6-8) N(2) by (auto simp: is_live_def ef_states)
        fix st'' N'' assume "ef_inv (mem st'') st'' N''" "gc_request st''" "sec_dirty (mem st'') B = SECTOR_DIRTY_FALSE"
          "contents (live N'') = contents (live ?N)" "N'' A \<noteq> []" "\<forall>x\<in>set (N'' A). \<not> is_live x" "N'' B = ?N B @ filter is_live ns"
        then show "P () st''" using st'(5) N(2) by (intro Cons.prems(13)[of st'' N'']) (simp_all add: x True is_live_def)
      qed
    qed
    show ?thesis using mv es True by (simp only: if_True simp_thms)
  next
    case False
    then have sd: "s = ENV_DELETED" "\<not> is_live x" using n(4) s by (auto simp: x is_live_def)
    have "wp F (gc_loop W f sector ?env) P st"
    proof (rule Cons.IH[OF Cons.prems(1-4), of "pre @ [(k, v, ENV_DELETED)]"])
      show "N A = (pre @ [(k, v, ENV_DELETED)]) @ ns" using Cons.prems(5) by (simp add: x sd)
      show "length (N B) \<le> length (pre @ [(k, v, ENV_DELETED)])" "span (N B) \<le> span (pre @ [(k, v, ENV_DELETED)])"
        "\<forall>x\<in>set (pre @ [(k, v, ENV_DELETED)]). \<not> is_live x"
        using Cons.prems(6-8) by (auto simp: is_live_def ef_states)
    qed (use before ie fl Cons.prems(13) sd in auto)
    then show ?thesis using es sd(1) by (simp add: wp_simps ef_states)
  qed
  show ?case
    unfolding f using bl(2) step by (simp add: wp_simps next1 read)
qed

end

section \<open>Formatting\<close>

definition header_bytes :: "byte list" where
  "header_bytes = [status_byte SECTOR_STORE_EMPTY, status_byte SECTOR_DIRTY_FALSE, 0xFF, 0xFF] @
     le_bytes SECTOR_MAGIC_WORD @ le_bytes 0xFFFFFFFF @ le_bytes 0xFFFFFFFF"

definition formatted :: "nat \<Rightarrow> (nat \<Rightarrow> byte) \<Rightarrow> nat \<Rightarrow> byte" where
  "formatted A c = burn A header_bytes (wipe A SECTOR_SIZE c)"

lemma length_header_bytes [simp]: "length header_bytes = 16"
  by (simp add: header_bytes_def)

lemma formatted_outside: "k < A \<or> A + 4096 \<le> k \<Longrightarrow> formatted A c k = c k"
  by (auto simp: formatted_def burn_def wipe_def SECTOR_SIZE_def)

lemma formatted_at: "i < 16 \<Longrightarrow> formatted A c (A + i) = header_bytes ! i"
  by (simp add: formatted_def burn_def wipe_def SECTOR_SIZE_def)

lemma get_status_byte: "0 < k \<Longrightarrow> k < n \<Longrightarrow> n \<le> 9 \<Longrightarrow> get_status [status_byte k] n = k"
  using get_status_write[of k n "0xFF"] by simp

lemma formatted_fields:
  assumes "A = 0 \<or> A = 4096"
  shows "sec_store (formatted A c) A = SECTOR_STORE_EMPTY" "sec_dirty (formatted A c) A = SECTOR_DIRTY_FALSE" "sector_ok (formatted A c) A []"
proof -
  have b: "formatted A c A = status_byte SECTOR_STORE_EMPTY" "formatted A c (A + 1) = status_byte SECTOR_DIRTY_FALSE"
    using formatted_at[of 0 A c] formatted_at[of 1 A c] by (simp_all add: header_bytes_def)
  show st: "sec_store (formatted A c) A = SECTOR_STORE_EMPTY" and "sec_dirty (formatted A c) A = SECTOR_DIRTY_FALSE"
    unfolding sec_store_def sec_dirty_def b by (simp_all add: get_status_byte ef_states)
  have "bytes_at (formatted A c) (A + 4) 8 = take 8 (drop 4 header_bytes)"
    by (rule bytes_at_eqI) (use formatted_at[of _ A c] in \<open>simp_all add: add.assoc\<close>)
  moreover have "blank (formatted A c) (A + 16) (A + 4096)"
    by (auto simp: blank_def formatted_def burn_def wipe_def SECTOR_SIZE_def)
  ultimately show "sector_ok (formatted A c) A []"
    using assms st by (simp add: sector_ok_def header_bytes_def)
qed

lemma formatted_other:
  assumes "A = 0 \<and> B = 4096 \<or> A = 4096 \<and> B = 0"
  shows "sec_store (formatted A c) B = sec_store c B" "sec_dirty (formatted A c) B = sec_dirty c B"
    "sector_ok (formatted A c) B ns = sector_ok c B ns"
proof -
  have o: "formatted A c k = c k" if "B \<le> k" "k < B + 4096" for k using that assms by (intro formatted_outside) auto
  show "sec_store (formatted A c) B = sec_store c B" "sec_dirty (formatted A c) B = sec_dirty c B"
    using o by (simp_all add: sec_store_def sec_dirty_def)
  show "sector_ok (formatted A c) B ns = sector_ok c B ns" by (rule sector_ok_cong) (rule o)
qed

lemma live_from_none: "\<forall>x\<in>set ns. \<not> is_live x \<Longrightarrow> live_from b ns = []"
  by (induction b ns rule: live_from.induct) (auto simp: is_live_def)

lemma ef_inv_formatted:
  assumes "ef_inv c st N" "A = 0 \<and> (B :: nat) = 4096 \<or> A = 4096 \<and> B = 0" "\<forall>x\<in>set (N A). \<not> is_live x"
  shows "ef_inv (formatted A c) (st\<lparr>flash_store := s, sector_cache_table := drop_sector A (sector_cache_table st)\<rparr>) (N(A := []))"
    and "live (N(A := [])) = live N"
proof -
  have A: "A = 0 \<or> A = 4096" "B = 0 \<or> B = 4096" "A \<noteq> B" using assms(2) by auto
  note inv = assms(1)[unfolded ef_inv_def]
  note f = formatted_fields[OF A(1), of c] formatted_other[OF assms(2), of c]
  show l: "live (N(A := [])) = live N" using assms(2) live_from_none[OF assms(3)] by (auto simp: live_def)
  have c: "sec_cache_ok (drop_sector A (sector_cache_table st)) (N(A := []))"
    using inv A by (intro sec_cache_ok_drop[where N = N]) auto
  have ok: "store_ok (formatted A c) (N(A := []))" using inv f assms(2) by (auto simp: store_ok_def)
  have "tidy (formatted A c) (N(A := []))"
    unfolding tidy_def
  proof (intro ballI conjI impI)
    fix sec :: nat assume "sec \<in> {0, 4096}"
    then have sec: "sec = A \<or> sec = B" using assms(2) by auto
    have t: "sec_store c B = stage (N B)" "packed (N B)" "N B = [] \<Longrightarrow> sec_dirty c B = SECTOR_DIRTY_FALSE"
      using inv A by (auto simp: tidy_def)
    show "sec_store (formatted A c) sec = stage ((N(A := [])) sec)" using sec f t A(3) by (auto simp: stage_def)
    show "packed ((N(A := [])) sec)" using sec t A(3) by (auto simp: packed_def)
    show "sec_dirty (formatted A c) sec = SECTOR_DIRTY_FALSE" if "(N(A := [])) sec = []" using that sec f t A(3) by auto
  qed
  moreover have "settled (N(A := []))" using inv by (auto simp: settled_def)
  ultimately show "ef_inv (formatted A c) (st\<lparr>flash_store := s, sector_cache_table := drop_sector A (sector_cache_table st)\<rparr>) (N(A := []))"
    using inv ok c by (simp add: ef_inv_def l)
qed

context nor_port
begin

lemma wp_format_sector:
  assumes "A = 0 \<or> A = 4096"
    and "\<And>s. cells s = formatted A (mem st) \<Longrightarrow>
      P EF_NO_ERR (st\<lparr>flash_store := s, sector_cache_table := drop_sector A (sector_cache_table st)\<rparr>)"
  shows "wp F (format_sector W A SECTOR_NOT_COMBINED) P st"
proof -
  have m: "A mod SECTOR_SIZE = 0" "A + SECTOR_SIZE \<le> PART_SIZE" "A + 16 \<le> PART_SIZE" using assms(1) by (auto simp: SECTOR_SIZE_def PART_SIZE_def)
  have h: "snd (set_status SECTOR_STORE_STATUS_NUM SECTOR_STORE_EMPTY) @
      snd (set_status SECTOR_DIRTY_STATUS_NUM SECTOR_DIRTY_FALSE) @ [0xFF, 0xFF] @
      le_bytes SECTOR_MAGIC_WORD @ le_bytes (word_of_nat SECTOR_NOT_COMBINED) @ le_bytes 0xFFFFFFFF = header_bytes"
    by (simp add: set_status_small ef_states header_bytes_def SECTOR_NOT_COMBINED_def)
  have "wp F (er W A SECTOR_SIZE) (\<lambda>r. wp F (if r = EF_NO_ERR then
       ebind (wr W A header_bytes) (\<lambda>result.
       ebind (update_sector_cache A (wadd A SECTOR_SIZE)) (\<lambda>_. eret result)) else eret r) P) st"
  proof (rule wp_er[OF m(1,2)])
    fix s assume s: "cells s = wipe A SECTOR_SIZE (mem st)"
    have "wp F (wr W A header_bytes) (\<lambda>r. wp F (ebind (update_sector_cache A (wadd A SECTOR_SIZE)) (\<lambda>_. eret r)) P) (st\<lparr>flash_store := s\<rparr>)"
    proof (rule wp_wr)
      fix s' assume "cells s' = burn A header_bytes (mem (st\<lparr>flash_store := s\<rparr>))"
      then show "wp F (ebind (update_sector_cache A (wadd A SECTOR_SIZE)) (\<lambda>_. eret EF_NO_ERR)) P (st\<lparr>flash_store := s, flash_store := s'\<rparr>)"
        using assms(2)[of s'] s by (simp add: formatted_def update_sector_cache_def drop_sector_def wp_simps)
    qed (use m in simp)
    then show "wp F (if EF_NO_ERR = EF_NO_ERR then
       ebind (wr W A header_bytes) (\<lambda>result.
       ebind (update_sector_cache A (wadd A SECTOR_SIZE)) (\<lambda>_. eret result)) else eret EF_NO_ERR) P (st\<lparr>flash_store := s\<rparr>)"
      by (simp add: wp_ebind)
  qed
  then show ?thesis unfolding format_sector_def h using m(1) by (simp add: wp_ebind wp_eassert)
qed

end

end
