(* ===== verification/Easyflash_Collect.thy ===== *)
theory Easyflash_Collect
  imports Easyflash_Gc
begin

text \<open>
  The collection as a whole, and setting a variable with the collections it may start: as long as one sector is kept
  empty, the store is the map.
\<close>

section \<open>Collecting one sector\<close>

lemma scan_status_le: "scan_status t n \<le> n"
  by (induction n) simp_all

lemma gc_mark:
  assumes "ef_inv c st N" "A = 0 \<and> (B :: nat) = 4096 \<or> A = 4096 \<and> B = 0" "N A \<noteq> []"
  shows "ef_inv (burn (A + 1) [status_byte SECTOR_DIRTY_GC] c) st N"
    and "sec_dirty (burn (A + 1) [status_byte SECTOR_DIRTY_GC] c) A = SECTOR_DIRTY_GC"
    and "sec_dirty (burn (A + 1) [status_byte SECTOR_DIRTY_GC] c) B = sec_dirty c B"
    and "sec_store (burn (A + 1) [status_byte SECTOR_DIRTY_GC] c) A = sec_store c A"
proof -
  let ?d = "burn (A + 1) [status_byte SECTOR_DIRTY_GC] c"
  note inv = assms(1)[unfolded ef_inv_def]
  have "get_status [c (A + 1)] SECTOR_DIRTY_STATUS_NUM \<le> SECTOR_DIRTY_GC"
    using scan_status_le[of "[c (A + 1)]" 3] by (simp add: get_status_def ef_states)
  then show "sec_dirty ?d A = SECTOR_DIRTY_GC" by (simp add: sec_dirty_def burn_def ef_states)
  have o: "?d k = c k" if "B \<le> k" "k < B + 4096" for k using that assms(2) by (auto simp: burn_def)
  show b: "sec_dirty ?d B = sec_dirty c B" using o by (simp add: sec_dirty_def)
  show st: "sec_store ?d A = sec_store c A" by (simp add: sec_store_def burn_def)
  have stB: "sec_store ?d B = sec_store c B" using o by (simp add: sec_store_def)
  have "sector_ok ?d A (N A)" using inv assms(2) by (intro sector_ok_second) (auto simp: store_ok_def)
  moreover have "sector_ok ?d B (N B) = sector_ok c B (N B)" by (rule sector_ok_cong) (rule o)
  ultimately have "store_ok ?d N" using inv assms(2) by (auto simp: store_ok_def)
  moreover have "tidy ?d N"
    unfolding tidy_def
  proof
    fix sec :: nat assume s: "sec \<in> {0, 4096}"
    then have "sec = A \<or> sec = B" using assms(2) by auto
    then show "sec_store ?d sec = stage (N sec) \<and> packed (N sec) \<and> (N sec = [] \<longrightarrow> sec_dirty ?d sec = SECTOR_DIRTY_FALSE)"
      using inv[THEN conjunct2, THEN conjunct1, unfolded tidy_def, rule_format, OF s] st stB b assms(3) by auto
  qed
  ultimately show "ef_inv ?d st N" using inv by (simp add: ef_inv_def)
qed

lemma sec_empty: "tidy c N \<Longrightarrow> sec = 0 \<or> sec = 4096 \<Longrightarrow> sec_store c sec = SECTOR_STORE_EMPTY \<longleftrightarrow> N sec = []"
proof -
  assume "tidy c N" "sec = 0 \<or> sec = 4096"
  then have "sec_store c sec = stage (N sec)" by (auto simp: tidy_def)
  then show ?thesis by (simp add: stage_cases(1))
qed

lemma wp_emod_fun: "wp F (emod f) P = (\<lambda>st. P () (f st))"
  by (rule ext) (rule wp_emod)

text \<open>How much the live nodes take.\<close>

definition live_size :: "(nat \<Rightarrow> node list) \<Rightarrow> nat" where
  "live_size N = span (filter is_live (N 0)) + span (filter is_live (N 4096))"

definition pristine :: "(nat \<Rightarrow> byte) \<Rightarrow> (nat \<Rightarrow> node list) \<Rightarrow> bool" where
  "pristine c N \<longleftrightarrow> (\<forall>sec\<in>{0, 4096}. sec_dirty c sec = SECTOR_DIRTY_FALSE \<and> (\<forall>x\<in>set (N sec). is_live x))"

definition spare :: "(nat \<Rightarrow> node list) \<Rightarrow> bool" where
  "spare N \<longleftrightarrow> N 0 = [] \<or> N 4096 = []"

context nor_port
begin

lemma wp_do_gc:
  assumes "A = 0 \<and> B = 4096 \<or> A = 4096 \<and> B = 0" "ef_inv (mem st) st N" "gc_request st" "N B = []"
    and "sec_dirty (mem st) A = SECTOR_DIRTY_TRUE" "sector = headed s0 (mem st) A"
    and "\<And>st' N'. ef_inv (mem st') st' N' \<Longrightarrow> gc_request st' \<Longrightarrow> contents (live N') = contents (live N) \<Longrightarrow> spare N' \<Longrightarrow>
      pristine (mem st') N' \<Longrightarrow> live_size N' = live_size N \<Longrightarrow> P (False, ()) st'"
  shows "wp F (do_gc W sector ()) P st"
proof -
  note inv = assms(2)[unfolded ef_inv_def]
  have A: "A = 0 \<or> A = 4096" "B = 0 \<or> B = 4096" "A \<noteq> B" using assms(1) by auto
  have ne: "N A \<noteq> []"
  proof
    assume "N A = []"
    then have "sec_dirty (mem st) A = SECTOR_DIRTY_FALSE" using inv A by (auto simp: tidy_def)
    then show False using assms(5) by (simp add: ef_states)
  qed
  have dB: "sec_dirty (mem st) B = SECTOR_DIRTY_FALSE" using inv A(2) assms(4) by (auto simp: tidy_def)
  have st: "sec_store (mem st) A = stage (N A)" using inv A by (auto simp: tidy_def)
  have ok: "sector_ok (mem st) A (N A)" using sector_ok_store[of "mem st" N A] inv A by blast
  have w: "wadd (sec_addr sector) SECTOR_DIRTY_OFFSET = A + 1" "A + 1 < PART_SIZE" "sec_addr sector = A" "store_status sector \<noteq> SECTOR_STORE_EMPTY"
    "check_ok sector" "dirty_status sector = SECTOR_DIRTY_TRUE"
    using A(1) assms(5,6) ne st by (auto simp: SECTOR_DIRTY_OFFSET_def PART_SIZE_def stage_cases)
  have n: "0 < SECTOR_DIRTY_GC" "SECTOR_DIRTY_GC < SECTOR_DIRTY_STATUS_NUM" "SECTOR_DIRTY_STATUS_NUM \<le> 9" by (simp_all add: ef_states)
  let ?env = "(raw_node W)\<lparr>start_addr := FAILED_ADDR\<rparr>"
  have "wp F (write_status W (A + 1) SECTOR_DIRTY_STATUS_NUM SECTOR_DIRTY_GC)
      (\<lambda>_. wp F (gc_loop W (Suc SECTOR_SIZE) sector ?env) (\<lambda>_. wp F (format_sector W A SECTOR_NOT_COMBINED) (\<lambda>_. P (False, ())))) st"
  proof (rule wp_write_status[OF n w(2)])
    fix s1 let ?st1 = "st\<lparr>flash_store := s1\<rparr>"
    assume s1: "cells s1 = burn (A + 1) [status_byte SECTOR_DIRTY_GC] (mem st)"
    note g = gc_mark[OF assms(2,1) ne, folded s1]
    have g1: "ef_inv (mem ?st1) ?st1 N" using g(1) by (simp add: ef_inv_def)
    show "wp F (gc_loop W (Suc SECTOR_SIZE) sector ?env) (\<lambda>_. wp F (format_sector W A SECTOR_NOT_COMBINED) (\<lambda>_. P (False, ()))) ?st1"
    proof (rule wp_gc_loop[where pre = "[]" and ns = "N A", OF assms(1) w(3,4) g1])
      show "gc_request ?st1" "sec_dirty (mem ?st1) A = SECTOR_DIRTY_GC" "sec_dirty (mem ?st1) B = SECTOR_DIRTY_FALSE"
        using assms(3) g dB by simp_all
      show "before ?env A (A + 16 + span [])" by (simp add: before_def)
      have "span (N A) \<le> 4080" using ok by (simp add: sector_ok_def)
      then show "length (N A) < Suc SECTOR_SIZE" using length_span[of "N A"] by (simp add: SECTOR_SIZE_def)
      show "length (env_name ?env) = 32" using raw_name by (simp add: EF_ENV_NAME_MAX_def)
      fix st' N' assume st': "ef_inv (mem st') st' N'" "gc_request st'" "sec_dirty (mem st') B = SECTOR_DIRTY_FALSE"
        "contents (live N') = contents (live N)" "\<forall>x\<in>set (N' A). \<not> is_live x" "N' B = N B @ filter is_live (N A)"
      show "wp F (format_sector W A SECTOR_NOT_COMBINED) (\<lambda>_. P (False, ())) st'"
      proof (rule wp_format_sector[OF A(1)])
        fix s assume s: "cells s = formatted A (mem st')"
        let ?st = "st'\<lparr>flash_store := s, sector_cache_table := drop_sector A (sector_cache_table st')\<rparr>" and ?N = "N'(A := [])"
        note f = ef_inv_formatted[OF st'(1) assms(1) st'(5)]
        have "pristine (mem ?st) ?N"
          using formatted_fields(2)[OF A(1)] formatted_other(2)[OF assms(1)] s st'(3,6) assms(1,4)
          by (auto simp: pristine_def)
        moreover have "live_size ?N = live_size N" using assms(1,4) st'(6) by (auto simp: live_size_def)
        moreover have "spare ?N" using A(1) by (auto simp: spare_def)
        ultimately show "P (False, ()) ?st" using f st'(2,4) s by (intro assms(7)[where N' = ?N]) simp_all
      qed
    qed (use ne assms(4) in simp_all)
  qed
  then show ?thesis unfolding do_gc_def using w by (simp add: wp_simps wp_eret_fun wp_ebind_fun del: gc_loop.simps)
qed

lemma wp_do_gc_clean:
  assumes "sec_dirty (mem st) A = SECTOR_DIRTY_FALSE"
  shows "wp F (do_gc W (headed s0 (mem st) A) ()) P st = P (False, ()) st"
  using assms by (simp add: do_gc_def wp_simps ef_states)

lemma wp_gc_check:
  assumes "store_ok (mem st) N" "\<And>s. P (s, count_in SECTOR_STORE_EMPTY (mem st)) st"
  shows "wp F (sector_iterator W sector SECTOR_STORE_EMPTY 0 gc_check_cb False) P st"
proof -
  have ok: "sector_ok (mem st) 0 (N 0)" "sector_ok (mem st) 4096 (N 4096)" using assms(1) by (simp_all add: store_ok_def)
  have f: "(0 :: nat) \<noteq> FAILED_ADDR" "(4096 :: nat) \<noteq> FAILED_ADDR" "SECTOR_STORE_UNUSED \<noteq> SECTOR_STORE_EMPTY"
    by (simp_all add: FAILED_ADDR_def ef_states)
  have "P (s, count_in SECTOR_STORE_EMPTY (mem st)) st" for s by (rule assms(2))
  then show ?thesis
    unfolding sector_iterator_def SECTOR_NUM_def numeral_2_eq_2 using f
    by (cases "sec_store (mem st) 0 = SECTOR_STORE_EMPTY"; cases "sec_store (mem st) 4096 = SECTOR_STORE_EMPTY")
      (simp_all add: wp_simps wp_read_header[OF ok(1)] wp_read_header[OF ok(2)] gc_check_cb_def Let_def count_in_def)
qed


lemma wp_gc_step:
  assumes "sector_ok (mem st) sec ns" "get_next_sector_addr sector = sec"
  shows "wp F (sector_loop W (Suc fuel) SECTOR_STORE_UNUSED (do_gc W) False sector ()) P st =
    wp F (do_gc W (headed sector (mem st) sec) ()) (\<lambda>(stop, u). wp F (if stop then eret (headed sector (mem st) sec, u)
      else sector_loop W fuel SECTOR_STORE_UNUSED (do_gc W) False (headed sector (mem st) sec) u) P) st"
proof -
  have "sec \<noteq> FAILED_ADDR" using assms(1) by (auto simp: sector_ok_def FAILED_ADDR_def)
  then show ?thesis
    by (simp add: wp_simps assms(2) wp_read_header[OF assms(1)] Let_def case_prod_beta' wp_ebind_fun wp_eret_fun cong: if_cong)
qed

lemma wp_gc_sectors:
  assumes "ef_inv (mem st) st N" "known (mem st) N" "spare N" "gc_request st"
    and "\<And>s st' N'. ef_inv (mem st') st' N' \<Longrightarrow> gc_request st' \<Longrightarrow> contents (live N') = contents (live N) \<Longrightarrow> spare N' \<Longrightarrow>
      pristine (mem st') N' \<Longrightarrow> live_size N' = live_size N \<Longrightarrow> P (s, ()) st'"
  shows "wp F (sector_iterator W sector SECTOR_STORE_UNUSED () (do_gc W) False) P st"
proof -
  note inv = assms(1)[unfolded ef_inv_def]
  have ok: "sector_ok (mem st) 0 (N 0)" "sector_ok (mem st) 4096 (N 4096)" using inv by (simp_all add: store_ok_def)
  let ?s = "sector\<lparr>sec_addr := FAILED_ADDR\<rparr>"
  have last: "wp F (sector_loop W (Suc 0) SECTOR_STORE_UNUSED (do_gc W) False (headed s (mem st') 4096) ()) P st'"
    if "ef_inv (mem st'') st'' N'" "st'' = st'" "gc_request st'" "contents (live N') = contents (live N)" "spare N'" "pristine (mem st') N'" "live_size N' = live_size N"
    for s st' st'' N'
    using that assms(5) by (simp add: wp_simps)
  have second: "wp F (sector_loop W (Suc (Suc 0)) SECTOR_STORE_UNUSED (do_gc W) False (headed s c 0) ()) P st'"
    if st': "ef_inv (mem st') st' N'" "gc_request st'" "contents (live N') = contents (live N)" "spare N'" "pristine (mem st') N'" "live_size N' = live_size N"
    for s c st' N'
  proof -
    have ok': "sector_ok (mem st') 4096 (N' 4096)" using st'(1) by (simp add: ef_inv_def store_ok_def)
    have "sec_dirty (mem st') 4096 = SECTOR_DIRTY_FALSE" using st'(5) by (simp add: pristine_def)
    then show ?thesis
      using st' by (simp add: wp_gc_step[OF ok' next_sector(2)] wp_do_gc_clean last del: sector_loop.simps)
  qed
  show ?thesis
  proof (cases "pristine (mem st) N")
    case True
    then have "sec_dirty (mem st) 0 = SECTOR_DIRTY_FALSE" by (simp add: pristine_def)
    then show ?thesis
      unfolding sector_iterator_def SECTOR_NUM_def numeral_2_eq_2
      using True assms by (simp add: wp_gc_step[OF ok(1) next_sector(1)] wp_do_gc_clean second del: sector_loop.simps)
  next
    case False
    then obtain A B :: nat where AB: "A = 0 \<and> B = 4096 \<or> A = 4096 \<and> B = 0" "sec_dirty (mem st) A = SECTOR_DIRTY_TRUE"
      using assms(2) by (auto simp: pristine_def known_def)
    have A: "N A \<noteq> []"
    proof
      assume "N A = []"
      then have "sec_dirty (mem st) A = SECTOR_DIRTY_FALSE" using inv AB(1) by (auto simp: tidy_def)
      then show False using AB(2) by (simp add: ef_states)
    qed
    then have B: "N B = []" using AB(1) assms(3) by (auto simp: spare_def)
    then have dB: "sec_dirty (mem st) B = SECTOR_DIRTY_FALSE" using inv AB(1) by (auto simp: tidy_def)
    have gc: "wp F (do_gc W (headed s0 (mem st) A) ()) Q st"
      if "\<And>st' N'. ef_inv (mem st') st' N' \<Longrightarrow> gc_request st' \<Longrightarrow> contents (live N') = contents (live N) \<Longrightarrow> spare N' \<Longrightarrow>
      pristine (mem st') N' \<Longrightarrow> live_size N' = live_size N \<Longrightarrow> Q (False, ()) st'" for s0 Q
      by (rule wp_do_gc[OF AB(1) assms(1,4) B AB(2) refl]) (rule that)
    from AB(1) show ?thesis
    proof (elim disjE conjE)
      assume a: "A = 0" "B = 4096"
      show ?thesis
        unfolding sector_iterator_def SECTOR_NUM_def numeral_2_eq_2 wp_gc_step[OF ok(1) next_sector(1)]
        by (rule gc[unfolded a]) (simp add: second del: sector_loop.simps)
    next
      assume a: "A = 4096" "B = 0"
      have "wp F (do_gc W (headed (headed ?s (mem st) 0) (mem st) 4096) ()) (\<lambda>(stop, u). wp F (if stop then eret (headed (headed ?s (mem st) 0) (mem st) 4096, u)
          else sector_loop W (Suc 0) SECTOR_STORE_UNUSED (do_gc W) False (headed (headed ?s (mem st) 0) (mem st) 4096) u) P) st"
        by (rule gc[unfolded a]) (simp add: wp_simps assms(5))
      then show ?thesis
        unfolding sector_iterator_def SECTOR_NUM_def numeral_2_eq_2 wp_gc_step[OF ok(1) next_sector(1)]
        using dB a by (simp add: wp_do_gc_clean wp_gc_step[OF ok(2) next_sector(2)] del: sector_loop.simps)
    qed
  qed
qed

text \<open>The collection keeps the map and the live nodes, and afterwards nothing is dirty and a sector is empty.\<close>

lemma wp_gc_collect:
  assumes "ef_inv (mem st) st N" "known (mem st) N" "spare N" "gc_request st"
    and "\<And>st' N'. ef_inv (mem st') st' N' \<Longrightarrow> \<not> gc_request st' \<Longrightarrow> contents (live N') = contents (live N) \<Longrightarrow> spare N' \<Longrightarrow>
      pristine (mem st') N' \<Longrightarrow> live_size N' = live_size N \<Longrightarrow> P () st'"
  shows "wp F (gc_collect W) P st"
proof -
  note inv = assms(1)[unfolded ef_inv_def]
  have fin: "P () (st'\<lparr>gc_request := False\<rparr>)"
    if "ef_inv (mem st') st' N'" "contents (live N') = contents (live N)" "spare N'" "pristine (mem st') N'" "live_size N' = live_size N" for st' N'
    using that by (intro assms(5)[of _ N']) (simp_all add: ef_inv_def)
  show ?thesis
    unfolding gc_collect_def wp_ebind
  proof (rule wp_gc_check)
    show "store_ok (mem st) N" using inv by simp
    fix s
    have "wp F (if count_in SECTOR_STORE_EMPTY (mem st) \<le> EF_GC_EMPTY_SEC_THRESHOLD
            then ebind (sector_iterator W s SECTOR_STORE_UNUSED () (do_gc W) False) (\<lambda>_. eret ()) else eret ())
          (\<lambda>_. wp F (emod (\<lambda>st. st\<lparr>gc_request := False\<rparr>)) P) st"
    proof (cases "count_in SECTOR_STORE_EMPTY (mem st) \<le> EF_GC_EMPTY_SEC_THRESHOLD")
      case True
      have "wp F (sector_iterator W s SECTOR_STORE_UNUSED () (do_gc W) False) (\<lambda>x st. P () (st\<lparr>gc_request := False\<rparr>)) st"
        by (rule wp_gc_sectors[OF assms(1-4)]) (rule fin)
      then show ?thesis using True by (simp add: wp_simps wp_eret_fun wp_emod_fun)
    next
      case False
      then have "sec_store (mem st) 0 = SECTOR_STORE_EMPTY" "sec_store (mem st) 4096 = SECTOR_STORE_EMPTY"
        by (auto simp: count_in_def EF_GC_EMPTY_SEC_THRESHOLD_def split: if_splits)
      then have "N 0 = []" "N 4096 = []" using sec_empty[of "mem st" N] inv by simp_all
      then have "pristine (mem st) N" using inv by (auto simp: tidy_def pristine_def)
      then show ?thesis using False fin[OF assms(1) refl assms(3)] by (simp add: wp_simps)
    qed
    then show "wp F (case (s, count_in SECTOR_STORE_EMPTY (mem st)) of (sector, empty_sec) \<Rightarrow>
     ebind (if empty_sec \<le> EF_GC_EMPTY_SEC_THRESHOLD
            then ebind (sector_iterator W sector SECTOR_STORE_UNUSED () (do_gc W) False) (\<lambda>_. eret ())
            else eret ()) (\<lambda>_.
     emod (\<lambda>st. st\<lparr>gc_request := False\<rparr>))) P st" by (simp only: prod.case wp_ebind)
  qed
qed

end

end
