(* ===== verification/Easyflash_Kv.thy ===== *)
theory Easyflash_Kv
  imports Easyflash_Collect
begin

text \<open>
  Setting a variable: the place, before or after a collection, the new node, and the collection at the end.
\<close>

lemma ebind_assoc: "ebind (ebind m f) g = ebind m (\<lambda>x. ebind (f x) g)"
  by (rule ext) (simp add: ebind_def cbind_assoc case_prod_beta')

lemma ebind_pair: "ebind (case x of (a, b) \<Rightarrow> f a b) g = (case x of (a, b) \<Rightarrow> ebind (f a b) g)"
  by (cases x) simp

text \<open>The store between two calls, as long as no call has failed: a sector is empty and no collection is asked for.\<close>

definition ready :: "(nat \<Rightarrow> byte) \<Rightarrow> 's ef \<Rightarrow> (nat \<Rightarrow> node list) \<Rightarrow> bool" where
  "ready c st N \<longleftrightarrow> ef_inv c st N \<and> known c N \<and> spare N \<and> \<not> gc_request st"

lemma pristine_known: "pristine c N \<Longrightarrow> known c N"
  by (auto simp: pristine_def known_def)

lemma place_spare:
  assumes "alloc_place c N False sz = Some sec" "tidy c N" "spare N"
  shows "N (4096 - sec) = []"
proof -
  have e: "sec_store c s = SECTOR_STORE_EMPTY \<longleftrightarrow> N s = []" if "s = 0 \<or> s = 4096" for s by (rule sec_empty[OF assms(2) that])
  show ?thesis
  proof (cases "place_in SECTOR_STORE_USING c N False sz")
    case None
    then have "count_in SECTOR_STORE_EMPTY c > 1" using assms(1) by (auto simp: alloc_place_def split: if_splits)
    then have "N 0 = []" "N 4096 = []" using e[of 0] e[of 4096] by (auto simp: count_in_def split: if_splits)
    moreover have "sec = 0 \<or> sec = 4096" by (rule place_ok(1)[OF assms(1,2)])
    ultimately show ?thesis by auto
  next
    case (Some s)
    then have "s = sec" using assms(1) by (simp add: alloc_place_def)
    then have u: "sec = 0 \<or> sec = 4096" "sec_store c sec = SECTOR_STORE_USING" using place_in_sec[OF Some] by auto
    then have "sec_store c sec \<noteq> SECTOR_STORE_EMPTY" by (simp add: ef_states)
    then have "N sec \<noteq> []" using e[OF u(1)] by simp
    then show ?thesis using assms(3) u(1) by (auto simp: spare_def)
  qed
qed

lemma filter_live: "\<forall>x\<in>set ns. is_live x \<Longrightarrow> filter is_live ns = ns"
  by (simp add: filter_id_conv)

lemma place_pristine:
  assumes "pristine c N" "tidy c N" "spare N" "live_size N + sz \<le> 4024"
  shows "alloc_place c N False sz \<noteq> None"
proof -
  have p: "sec_dirty c s = SECTOR_DIRTY_FALSE" "filter is_live (N s) = N s" "sec_store c s = stage (N s)" if "s = 0 \<or> s = 4096" for s
    using assms(1,2) that filter_live[of "N s"] by (auto simp: pristine_def tidy_def)
  then have l: "live_size N = span (N 0) + span (N 4096)" by (simp add: live_size_def)
  have o: "open_for c N False sz s" if "s = 0 \<or> s = 4096" for s
    using p(1)[OF that] assms(4) l that by (auto simp: open_for_def)
  show ?thesis
  proof (cases "N 0 = [] \<and> N 4096 = []")
    case True
    then have "sec_store c 0 = SECTOR_STORE_EMPTY" "sec_store c 4096 = SECTOR_STORE_EMPTY" using p(3) by (simp_all add: stage_def)
    then show ?thesis using o[of 0] by (simp add: alloc_place_def place_in_def count_in_def split: option.split)
  next
    case False
    then obtain A where A: "A = 0 \<or> A = 4096" "N A \<noteq> []" by auto
    moreover have "\<not> is_full (N A)" using A(1) assms(4) l by (auto simp: is_full_def)
    ultimately have "sec_store c A = SECTOR_STORE_USING" using p(3) by (simp add: stage_def)
    then have "place_in SECTOR_STORE_USING c N False sz \<noteq> None"
      using o A(1) unfolding place_in_def find_None_iff by auto
    then show ?thesis by (auto simp: alloc_place_def)
  qed
qed

lemma count_spare:
  assumes "tidy c N" "spare N" "count_in SECTOR_STORE_EMPTY c \<noteq> 1"
  shows "N 0 = [] \<and> N 4096 = []"
proof -
  have "sec_store c s = SECTOR_STORE_EMPTY \<longleftrightarrow> N s = []" if "s = 0 \<or> s = 4096" for s by (rule sec_empty[OF assms(1) that])
  then show ?thesis using assms(2,3) by (auto simp: count_in_def spare_def split: if_splits)
qed

context nor_port
begin

lemma wp_new_env:
  assumes "ready (mem st) st N"
    and "\<And>sec s st' N'. ready (mem st') st' N' \<Longrightarrow> contents (live N') = contents (live N) \<Longrightarrow> sec = 0 \<or> sec = 4096 \<Longrightarrow>
      \<not> is_full (N' sec) \<Longrightarrow> span (N' sec) + sz < 4080 \<Longrightarrow> N' (4096 - sec) = [] \<Longrightarrow>
      P (sec + 16 + span (N' sec), measured s (mem st') sec (N' sec)) st'"
    and "\<And>s st' N'. ef_inv (mem st') st' N' \<Longrightarrow> contents (live N') = contents (live N) \<Longrightarrow> 4024 < live_size N + sz \<Longrightarrow>
      P (FAILED_ADDR, s) st'"
  shows "wp F (new_env W sector sz) P st"
proof -
  have r: "ef_inv (mem st) st N" "known (mem st) N" "spare N" "\<not> gc_request st" using assms(1) by (simp_all add: ready_def)
  note inv = r(1)[unfolded ef_inv_def]
  have found: "P (sec + 16 + span (M sec), measured s (mem st') sec (M sec)) (st'\<lparr>sector_cache_table := t\<rparr>)"
    if "alloc_place (mem st') M (gc_request st') sz = Some sec" "sec_cache_ok t M" "ready (mem st') st' M" "contents (live M) = contents (live N)"
    for sec s st' M t
  proof -
    have ti: "tidy (mem st') M" "spare M" "\<not> gc_request st'" using that(3) by (simp_all add: ready_def ef_inv_def)
    then have pl: "alloc_place (mem st') M False sz = Some sec" using that(1) by simp
    have "ready (mem st') (st'\<lparr>sector_cache_table := t\<rparr>) M" using that(2,3) by (simp add: ready_def ef_inv_def)
    then show ?thesis using assms(2)[of "st'\<lparr>sector_cache_table := t\<rparr>" M sec s] that(4) place_ok[OF pl ti(1)] place_spare[OF pl ti(1,2)] by simp
  qed
  have f: "sec + 16 + span (N sec) \<noteq> FAILED_ADDR" if "alloc_place (mem st) N g sz = Some sec" for g sec
    using place_ok[OF that] inv by (auto simp: FAILED_ADDR_def)
  show ?thesis
    unfolding new_env_def wp_ebind
  proof (rule wp_alloc_env)
    show "store_ok (mem st) N" "sec_cache_ok (sector_cache_table st) N" using inv by simp_all
    fix sec s t assume p: "alloc_place (mem st) N (gc_request st) sz = Some sec" and t: "sec_cache_ok t N"
    show "wp F (case (sec + 16 + span (N sec), measured s (mem st) sec (N sec)) of (env_addr, sector) \<Rightarrow>
     ebind (eget gc_request) (\<lambda>gc.
     if env_addr = FAILED_ADDR \<and> gc then ebind (gc_collect W) (\<lambda>_. alloc_env W sector sz)
     else eret (env_addr, sector))) P (st\<lparr>sector_cache_table := t\<rparr>)"
      using found[OF p t assms(1) refl] f[OF p] by (simp add: wp_simps)
  next
    fix s t assume p: "alloc_place (mem st) N (gc_request st) sz = None" and t: "sec_cache_ok t N"
    let ?st = "st\<lparr>sector_cache_table := t, gc_request := asks_gc (mem st) N (gc_request st) sz\<rparr>"
    have i: "ef_inv (mem ?st) ?st N" using r(1) t by (simp add: ef_inv_def)
    have "wp F (if gc_request ?st then ebind (gc_collect W) (\<lambda>_. alloc_env W s sz) else eret (FAILED_ADDR, s)) P ?st"
    proof (cases "gc_request ?st")
      case False
      have "place_in SECTOR_STORE_USING (mem st) N False sz = None" using p r(4) by (auto simp: alloc_place_def split: option.splits)
      then have "count_in SECTOR_STORE_EMPTY (mem st) \<noteq> 1" using False r(4) by (auto simp: asks_gc_def)
      then have e: "N 0 = [] \<and> N 4096 = []" using count_spare inv r(3) by blast
      then have "pristine (mem st) N" using inv by (auto simp: tidy_def pristine_def)
      then have "4024 < live_size N + sz" using place_pristine[of "mem st" N sz] inv r(3,4) p by fastforce
      then show ?thesis using False assms(3)[OF i refl, of s] by (simp add: wp_simps)
    next
      case True
      have "wp F (gc_collect W) (\<lambda>_. wp F (alloc_env W s sz) P) ?st"
      proof (rule wp_gc_collect[OF i _ r(3) True])
        show "known (mem ?st) N" using r(2) by simp
        fix st' M assume M: "ef_inv (mem st') st' M" "\<not> gc_request st'" "contents (live M) = contents (live N)" "spare M"
          "pristine (mem st') M" "live_size M = live_size N"
        have rM: "ready (mem st') st' M" using M pristine_known by (simp add: ready_def)
        note invM = M(1)[unfolded ef_inv_def]
        show "wp F (alloc_env W s sz) P st'"
        proof (rule wp_alloc_env)
          show "store_ok (mem st') M" "sec_cache_ok (sector_cache_table st') M" using invM by simp_all
          fix sec s t assume "alloc_place (mem st') M (gc_request st') sz = Some sec" "sec_cache_ok t M"
          then show "P (sec + 16 + span (M sec), measured s (mem st') sec (M sec)) (st'\<lparr>sector_cache_table := t\<rparr>)"
            using rM M(3) by (rule found)
        next
          fix s t assume pM: "alloc_place (mem st') M (gc_request st') sz = None" and t: "sec_cache_ok t M"
          let ?st' = "st'\<lparr>sector_cache_table := t, gc_request := asks_gc (mem st') M (gc_request st') sz\<rparr>"
          have "ef_inv (mem ?st') ?st' M" using M(1) t by (simp add: ef_inv_def)
          moreover have "4024 < live_size N + sz" using place_pristine[OF M(5) _ M(4), of sz] invM M(2,6) pM by fastforce
          ultimately show "P (FAILED_ADDR, s) ?st'" using M(3) by (intro assms(3)[where N' = M]) simp_all
        qed
      qed
      then show ?thesis using True by (simp add: wp_ebind)
    qed
    then show "wp F (case (FAILED_ADDR, s) of (env_addr, sector) \<Rightarrow>
     ebind (eget gc_request) (\<lambda>gc.
     if env_addr = FAILED_ADDR \<and> gc then ebind (gc_collect W) (\<lambda>_. alloc_env W sector sz)
     else eret (env_addr, sector))) P ?st" by (simp add: wp_ebind wp_eget)
  qed
qed

text \<open>Setting a variable updates the map, or fails and leaves it when the live nodes and the new one take more than
  4024 bytes.\<close>

lemma wp_set_env:
  assumes "ready (mem st) st N" "clear key (live N)" "fits key value" "0 \<notin> set key"
    and "\<And>st' N'. ready (mem st') st' N' \<Longrightarrow> contents (live N') = (contents (live N))(key \<mapsto> value) \<Longrightarrow> P EF_NO_ERR st'"
    and "\<And>st' N'. ef_inv (mem st') st' N' \<Longrightarrow> contents (live N') = contents (live N) \<Longrightarrow>
      4024 < live_size N + node_size key value \<Longrightarrow> P EF_ENV_FULL st'"
  shows "wp F (ef_set_env_blob W key (Some value)) P st"
proof -
  have "init_ok st" using assms(1) by (simp add: ready_def ef_inv_def)
  have sz: "wadd (wadd ENV_HDR_DATA_SIZE (length key)) (length value) = node_size key value"
    using assms(3) by (simp add: fits_def node_size_def ENV_HDR_DATA_SIZE_def)
  define tail where "tail = (\<lambda>result :: EfErrCode. ebind (eget gc_request) (\<lambda>gc. ebind (if gc then gc_collect W else eret ()) (\<lambda>_. eret result)))"
  have eq: "set_env W key (Some value) = ebind (eget set_env_sector) (\<lambda>sector.
          ebind (new_env W sector (node_size key value)) (\<lambda>(env_addr, sector).
          ebind (emod (\<lambda>st. st\<lparr>set_env_sector := sector\<rparr>)) (\<lambda>_.
          if env_addr = FAILED_ADDR then eret EF_ENV_FULL
          else ebind (replace_env W key value sector) tail)))"
    unfolding set_env_def new_env_by_kv_def sz replace_env_def tail_def by (simp only: option.case ebind_assoc ebind_pair sz)
  have clear': "clear key (live M)" if e: "contents (live M) = contents (live N)" and i: "ef_inv c st' M" for M c st'
  proof -
    have "name_code k = name_code key \<longrightarrow> k = key" if m: "(a, k, v) \<in> set (live M)" for a k v
    proof -
      have "contents (live M) k = Some v" using contents_iff[of "live M"] m i by (auto simp: ef_inv_def)
      then have "contents (live N) k = Some v" using e by simp
      then have "(k, v) \<in> snd ` set (live N)" unfolding contents_def by (metis map_of_SomeD set_map)
      then show ?thesis using assms(2) by (force simp: clear_def)
    qed
    then show ?thesis unfolding clear_def by blast
  qed
  have "wp F (set_env W key (Some value)) P st"
    unfolding eq wp_ebind wp_eget
  proof (rule wp_new_env[OF assms(1)])
    fix sec s st' M assume M: "ready (mem st') st' M" "contents (live M) = contents (live N)" "sec = 0 \<or> sec = 4096" "\<not> is_full (M sec)"
      "span (M sec) + node_size key value < 4080" "M (4096 - sec) = []"
    let ?s = "measured s (mem st') sec (M sec)" let ?st = "st'\<lparr>set_env_sector := ?s\<rparr>"
    have r: "ef_inv (mem ?st) ?st M" "known (mem ?st) M" using M(1) by (simp_all add: ready_def ef_inv_def)
    have "wp F (replace_env W key value ?s) (\<lambda>x. wp F (tail x) P) ?st"
    proof (rule wp_replace_env[where sx = s and sec = sec, OF r(1) clear' assms(3,4) M(3-5)])
      show "contents (live M) = contents (live N)" "ef_inv (mem ?st) ?st M" by (fact M(2), fact r(1))
      show "?s = measured s (mem ?st) sec (M sec)" by simp
      fix st'' N' assume N': "ef_inv (mem st'') st'' N'" "contents (live N') = (contents (live M))(key \<mapsto> value)"
        "\<And>x. x \<noteq> sec \<Longrightarrow> (N' x = []) = (M x = [])" and kn: "known (mem ?st) M \<Longrightarrow> known (mem st'') N'"
      have "4096 - sec \<noteq> sec" using M(3) by auto
      then have "N' (4096 - sec) = []" using N'(3) M(6) by blast
      then have sp: "spare N'" using M(3) by (auto simp: spare_def)
      show "wp F (tail EF_NO_ERR) P st''"
      proof (cases "gc_request st''")
        case True
        have "wp F (gc_collect W) (\<lambda>_. P EF_NO_ERR) st''"
        proof (rule wp_gc_collect[OF N'(1) kn[OF r(2)] sp True])
          fix s3 N3 assume "ef_inv (mem s3) s3 N3" "\<not> gc_request s3" "contents (live N3) = contents (live N')" "spare N3" "pristine (mem s3) N3"
          then show "P EF_NO_ERR s3" using N'(2) M(2) pristine_known by (intro assms(5)[where N' = N3]) (simp_all add: ready_def)
        qed
        then show ?thesis using True by (simp add: tail_def wp_simps wp_eret_fun)
      next
        case False
        then have "ready (mem st'') st'' N'" using N'(1) kn[OF r(2)] sp by (simp add: ready_def)
        then show ?thesis using False assms(5)[of st'' N'] N'(2) M(2) by (simp add: tail_def wp_simps)
      qed
    qed
    moreover have "sec + 16 + span (M sec) \<noteq> FAILED_ADDR" using M(3,5) by (auto simp: FAILED_ADDR_def)
    ultimately show "wp F (case (sec + 16 + span (M sec), ?s) of (env_addr, sector) \<Rightarrow>
          ebind (emod (\<lambda>st. st\<lparr>set_env_sector := sector\<rparr>)) (\<lambda>_.
          if env_addr = FAILED_ADDR then eret EF_ENV_FULL
          else ebind (replace_env W key value sector) tail)) P st'" by (simp add: wp_simps wp_ebind_fun)
  next
    fix s st' M assume M: "ef_inv (mem st') st' M" "contents (live M) = contents (live N)" "4024 < live_size N + node_size key value"
    have "ef_inv (mem st') (st'\<lparr>set_env_sector := s\<rparr>) M" using M(1) by (simp add: ef_inv_def)
    then show "wp F (case (FAILED_ADDR, s) of (env_addr, sector) \<Rightarrow>
          ebind (emod (\<lambda>st. st\<lparr>set_env_sector := sector\<rparr>)) (\<lambda>_.
          if env_addr = FAILED_ADDR then eret EF_ENV_FULL
          else ebind (replace_env W key value sector) tail)) P st'"
      using assms(6)[of "st'\<lparr>set_env_sector := s\<rparr>" M] M(2,3) by (simp add: wp_simps)
  qed
  then show ?thesis using \<open>init_ok st\<close> by (simp add: ef_set_env_blob_def wp_simps)
qed

end

end
