(* ===== verification/Easyflash_Boot.thy ===== *)
theory Easyflash_Boot
  imports Easyflash_Kv
begin

text \<open>
  Starting: \<open>ef_env_init\<close> on a flash that a settled store was left on, and on one that was never used.
\<close>

section \<open>Nothing to recover\<close>

lemma ebind_eret: "ebind (eret x) f = f x"
  by (rule ext) (simp add: ebind_def eret_def)

text \<open>What a settled store is on the flash.\<close>

definition flash_ok :: "(nat \<Rightarrow> byte) \<Rightarrow> (nat \<Rightarrow> node list) \<Rightarrow> bool" where
  "flash_ok c N \<longleftrightarrow> store_ok c N \<and> tidy c N \<and> settled N \<and> single (live N) \<and> known c N \<and> spare N"

lemma ready_flash: "ready c st N \<Longrightarrow> flash_ok c N"
  by (simp add: ready_def ef_inv_def flash_ok_def)

text \<open>The caches as the start leaves them.\<close>

definition no_entries :: "'s ef \<Rightarrow> bool" where
  "no_entries st \<longleftrightarrow> length (env_cache_table st) = EF_ENV_CACHE_TABLE_SIZE \<and> length (sector_cache_table st) = EF_SECTOR_CACHE_TABLE_SIZE \<and>
     (\<forall>n\<in>set (env_cache_table st). cached_addr n = FAILED_ADDR) \<and> (\<forall>n\<in>set (sector_cache_table st). cached_sec n = FAILED_ADDR)"

lemma no_sectors: "no_entries st \<Longrightarrow> sec_cache_ok (sector_cache_table st) N"
  by (auto simp: no_entries_def sec_cache_ok_def secs_once_def sec_entries_def FAILED_ADDR_def dest: nth_mem)

lemma no_names: "no_entries st \<Longrightarrow> env_cache_ok (env_cache_table st) L"
  by (auto simp: no_entries_def env_cache_ok_def codes_once_def dest: nth_mem)

context nor_port
begin

lemma wp_node_loop_skip:
  assumes "sec = 0 \<or> sec = 4096" "sec_addr sector = sec" "store_status sector \<noteq> SECTOR_STORE_EMPTY"
    and "cache_end (sector_cache_table st) sec e" "e \<le> sec + 4096" "blank (mem st) e (sec + 4096)"
    and "before env sec b" "laid (mem st) b ns" "b + span ns = e" "ns \<noteq> [] \<or> start_addr env \<noteq> FAILED_ADDR" "sec + 16 \<le> b"
    and "length ns < fuel" "length (env_name env) = 32" "\<forall>(k, v, t)\<in>set ns. t \<noteq> ENV_PRE_DELETE"
    and "\<And>env. length (env_name env) = 32 \<Longrightarrow> P (False, env, ()) st"
  shows "wp F (node_loop W fuel (check_and_recovery_env_cb W) sector env ()) P st"
  using assms(7-)
proof (induction ns arbitrary: b env fuel)
  case Nil
  then obtain f where f: "fuel = Suc f" by (cases fuel) auto
  have "wp F (get_next_env_addr W sector env) Q st = Q FAILED_ADDR st" for Q
    using wp_get_next[OF assms(1-3) Nil(1), of st "[]"] Nil assms(4-6) by simp
  then show ?case using Nil f by (simp add: wp_simps Let_def)
next
  case (Cons x ns)
  obtain k v s where x: "x = (k, v, s)" by (cases x)
  obtain f where f: "fuel = Suc f" using Cons.prems(6) by (cases fuel) auto
  have n: "stored (mem st) b k v" "fits k v" "get_status [mem st b] ENV_STATUS_NUM = s" "laid (mem st) (b + node_size k v) ns"
    "s = ENV_WRITE \<or> s = ENV_DELETED"
    using Cons.prems(2,8) by (auto simp: x)
  have bl: "b + 4096 \<le> PART_SIZE" "b \<noteq> FAILED_ADDR"
    using Cons.prems(3) assms(1,5) by (auto simp: PART_SIZE_def FAILED_ADDR_def)
  let ?env = "node_of (env\<lparr>start_addr := b\<rparr>) (mem st) b k v"
  have at: "node_at ?env (mem st) b k v" using n(2) Cons.prems(7) by (intro node_at_of) simp_all
  then have st: "env_status ?env \<noteq> ENV_PRE_DELETE" "env_status ?env \<noteq> ENV_PRE_WRITE" using n(3,5) by (auto simp: node_at_def ef_states)
  have next1: "wp F (get_next_env_addr W sector env) Q st = Q b st" for Q
    using wp_get_next[OF assms(1-3) Cons.prems(1), of st "x # ns"] Cons.prems assms(4-6) by simp
  have read: "wp F (read_env W (env\<lparr>start_addr := b\<rparr>)) Q st = Q (EF_NO_ERR, ?env) st" for Q
    using n bl Cons.prems(7) by (intro wp_read_env) simp_all
  have rest: "wp F (node_loop W f (check_and_recovery_env_cb W) sector ?env ()) P st"
  proof (rule Cons.IH[OF before_node_at[OF at Cons.prems(5)] n(4)])
    show "ns \<noteq> [] \<or> start_addr ?env \<noteq> FAILED_ADDR" "length (env_name ?env) = 32" using at bl by (simp_all add: node_at_def)
    show "b + node_size k v + span ns = e" "sec + 16 \<le> b + node_size k v" "length ns < f"
      using Cons.prems(3,5,6) by (simp_all add: x f)
  qed (use Cons.prems(8,9) in simp_all)
  have skip: "check_and_recovery_env_cb W ?env () = eret (False, ())" using st by (simp add: check_and_recovery_env_cb_def)
  show ?case
    using bl(2) rest unfolding f
    by (simp add: wp_simps Let_def next1 read skip)
qed

lemma wp_env_sectors_skip:
  assumes "sector_ok (mem st) sec ns" "get_next_sector_addr sector = sec" "cache_end (sector_cache_table st) sec (sec + 16 + span ns)"
    and "length (env_name env) = 32" "\<forall>(k, v, t)\<in>set ns. t \<noteq> ENV_PRE_DELETE"
    and "\<And>env. length (env_name env) = 32 \<Longrightarrow>
      wp F (env_sectors W fuel (check_and_recovery_env_cb W) (headed sector (mem st) sec) env ()) P st"
  shows "wp F (env_sectors W (Suc fuel) (check_and_recovery_env_cb W) sector env ()) P st"
proof -
  have sec: "sec = 0 \<or> sec = 4096" "sec \<noteq> FAILED_ADDR" "span ns \<le> 4080" "laid (mem st) (sec + 16) ns"
    "blank (mem st) (sec + 16 + span ns) (sec + 4096)"
    using assms(1) by (auto simp: sector_ok_def FAILED_ADDR_def)
  show ?thesis
  proof (cases "ns = []")
    case True
    then have "sec_store (mem st) sec = SECTOR_STORE_EMPTY" using assms(1) by (simp add: sector_ok_def)
    then show ?thesis using assms(2,4,6) sec
      by (simp add: wp_simps wp_read_header[OF assms(1)] ef_states Let_def)
  next
    case False
    then have st: "sec_store (mem st) sec = SECTOR_STORE_USING \<or> sec_store (mem st) sec = SECTOR_STORE_FULL"
      "sec_store (mem st) sec \<noteq> SECTOR_STORE_EMPTY"
      using assms(1) by (auto simp: sector_ok_def)
    have "length ns < Suc SECTOR_SIZE" using length_span[of ns] sec(3) by (simp add: SECTOR_SIZE_def)
    then have "wp F (node_loop W (Suc SECTOR_SIZE) (check_and_recovery_env_cb W) (headed sector (mem st) sec) (env\<lparr>start_addr := FAILED_ADDR\<rparr>) ())
        (\<lambda>(stop, env, arg). wp F (if stop then eret (env, arg)
           else env_sectors W fuel (check_and_recovery_env_cb W) (headed sector (mem st) sec) env arg) P) st"
      using assms sec st False
      by (intro wp_node_loop_skip[where sec = sec and e = "sec + 16 + span ns" and ns = ns and b = "sec + 16"])
        (auto simp: before_def wp_simps del: node_loop.simps)
    then show ?thesis using assms(2) sec(2) st
      by (simp add: wp_simps wp_read_header[OF assms(1)] Let_def case_prod_beta' del: node_loop.simps cong: if_cong)
  qed
qed

lemma wp_recovery_loop:
  assumes "store_ok (mem st) N" "settled N" "sec_cache_ok (sector_cache_table st) N" "\<not> gc_request st" "length (env_name env) = 32"
    and "P () st"
  shows "wp F (recovery_loop (Suc fuel) W env) P st"
proof -
  have ok: "sector_ok (mem st) 0 (N 0)" "sector_ok (mem st) 4096 (N 4096)" using assms(1) by (simp_all add: store_ok_def)
  have c: "cache_end (sector_cache_table st) 0 (0 + 16 + span (N 0))" "cache_end (sector_cache_table st) 4096 (4096 + 16 + span (N 4096))"
    using sec_cache_ok_end[OF assms(3), of 0] sec_cache_ok_end[OF assms(3), of 4096] by simp_all
  have s: "\<forall>(k, v, t)\<in>set (N 0). t \<noteq> ENV_PRE_DELETE" "\<forall>(k, v, t)\<in>set (N 4096). t \<noteq> ENV_PRE_DELETE"
    using assms(2) by (simp_all add: settled_def)
  have "wp F (env_sectors W (Suc (Suc (Suc 0))) (check_and_recovery_env_cb W) ((raw_sector W)\<lparr>sec_addr := FAILED_ADDR\<rparr>) env ())
      (\<lambda>(env, _). wp F (ebind (eget gc_request) (\<lambda>gc. if gc then ebind (gc_collect W) (\<lambda>_. recovery_loop fuel W env) else eret ())) P) st"
    by (rule wp_env_sectors_skip[OF ok(1) next_sector(1) c(1) assms(5) s(1)],
        rule wp_env_sectors_skip[OF ok(2) next_sector(2) c(2) _ s(2)], assumption)
      (simp add: wp_simps Let_def assms(4,6))
  then show ?thesis
    by (simp add: env_iterator_def SECTOR_NUM_def wp_simps case_prod_beta' numeral_2_eq_2 del: env_sectors.simps)
qed

lemma wp_clean_gc:
  assumes "store_ok (mem st) N" "known (mem st) N" "\<And>s. P (s, ()) st"
  shows "wp F (sector_iterator W sector SECTOR_STORE_UNUSED () (check_and_recovery_gc_cb W) False) P st"
proof -
  have ok: "sector_ok (mem st) 0 (N 0)" "sector_ok (mem st) 4096 (N 4096)" using assms(1) by (simp_all add: store_ok_def)
  have f: "(0 :: nat) \<noteq> FAILED_ADDR" "(4096 :: nat) \<noteq> FAILED_ADDR" by (simp_all add: FAILED_ADDR_def)
  have d: "sec_dirty (mem st) 0 \<noteq> SECTOR_DIRTY_GC" "sec_dirty (mem st) 4096 \<noteq> SECTOR_DIRTY_GC"
    using assms(2) by (auto simp: known_def ef_states)
  show ?thesis
    unfolding sector_iterator_def SECTOR_NUM_def numeral_2_eq_2 using f d assms(3)
    by (simp add: wp_simps wp_read_header[OF ok(1)] wp_read_header[OF ok(2)] check_and_recovery_gc_cb_def Let_def)
qed

lemma wp_check_headers:
  assumes "store_ok (mem st) N" "\<And>s. P (s, 0) st"
  shows "wp F (sector_iterator W sector SECTOR_STORE_UNUSED 0 (check_sec_hdr_cb W) False) P st"
proof -
  have ok: "sector_ok (mem st) 0 (N 0)" "sector_ok (mem st) 4096 (N 4096)" using assms(1) by (simp_all add: store_ok_def)
  have f: "(0 :: nat) \<noteq> FAILED_ADDR" "(4096 :: nat) \<noteq> FAILED_ADDR" by (simp_all add: FAILED_ADDR_def)
  show ?thesis
    unfolding sector_iterator_def SECTOR_NUM_def numeral_2_eq_2 using f assms(2)
    by (simp add: wp_simps wp_read_header[OF ok(1)] wp_read_header[OF ok(2)] check_sec_hdr_cb_def Let_def)
qed

end

section \<open>Starting on a used flash\<close>

text \<open>The state before the start: what the linker leaves, with the flash.\<close>

definition after_boot :: "'s ef \<Rightarrow> bool" where
  "after_boot st \<longleftrightarrow> length (env_cache_table st) = EF_ENV_CACHE_TABLE_SIZE \<and> length (sector_cache_table st) = EF_SECTOR_CACHE_TABLE_SIZE \<and>
     \<not> gc_request st \<and> \<not> in_recovery_check st \<and> \<not> init_ok st \<and> \<not> last_is_complete_del st \<and> length (env_name (set_env_node st)) = 32"

lemma fresh_boot: "after_boot (ef_boot s)"
  by (simp add: after_boot_def ef_boot_def zero_node_def EF_ENV_NAME_MAX_def)

definition cleared :: "'s ef \<Rightarrow> 's ef" where
  "cleared st = st\<lparr>sector_cache_table := map (\<lambda>n. n\<lparr>cached_sec := FAILED_ADDR\<rparr>) (sector_cache_table st),
     env_cache_table := map (\<lambda>n. n\<lparr>cached_addr := FAILED_ADDR\<rparr>) (env_cache_table st), in_recovery_check := True\<rparr>"

lemma cleared_no_entries: "after_boot st \<Longrightarrow> no_entries (cleared st)"
  by (simp add: after_boot_def no_entries_def cleared_def)

text \<open>What follows the check of the headers and, on a blank flash, the default variables.\<close>

definition recover :: "nat \<Rightarrow> 's ef_world \<Rightarrow> sector_meta_data \<Rightarrow> (unit, 's) run" where
  "recover fuel W sector =
     ebind (sector_iterator W sector SECTOR_STORE_UNUSED () (check_and_recovery_gc_cb W) False) (\<lambda>_.
     ebind (recovery_loop fuel W (raw_node W)) (\<lambda>_.
     emod (\<lambda>st. st\<lparr>in_recovery_check := False, init_ok := True\<rparr>)))"

context nor_port
begin

lemma wp_ef_env_init:
  assumes "after_boot st"
    and "wp F (sector_iterator W (raw_sector W) SECTOR_STORE_UNUSED 0 (check_sec_hdr_cb W) False)
      (\<lambda>(sector, n). wp F (if n = SECTOR_NUM then ef_env_set_default W else eret EF_NO_ERR)
        (\<lambda>_. wp F (recover fuel W sector) (\<lambda>_. P EF_NO_ERR))) (cleared st)"
  shows "wp F (ef_env_init fuel W) P st"
proof -
  have i: "\<not> init_ok st" using assms(1) by (simp add: after_boot_def)
  have c: "st\<lparr>sector_cache_table := map (\<lambda>n. n\<lparr>cached_sec := FAILED_ADDR\<rparr>) (sector_cache_table st),
     env_cache_table := map (\<lambda>n. n\<lparr>cached_addr := FAILED_ADDR\<rparr>) (env_cache_table st), in_recovery_check := True\<rparr> = cleared st"
    by (simp add: cleared_def)
  show ?thesis
    using assms(2) unfolding ef_env_init_def ef_load_env_def recover_def
    by (simp add: i wp_simps c case_prod_beta' wp_ebind_fun wp_emod_fun wp_eret_fun del: recovery_loop.simps)
qed

lemma wp_recover:
  assumes "flash_ok (mem st) N" "sec_cache_ok (sector_cache_table st) N" "env_cache_ok (env_cache_table st) (live N)"
    "\<not> gc_request st" "\<not> last_is_complete_del st" "length (env_name (set_env_node st)) = 32"
    and "\<And>st'. ready (mem st') st' N \<Longrightarrow> flash_store st' = flash_store st \<Longrightarrow> P () st'"
  shows "wp F (recover (Suc fuel) W sector) P st"
proof -
  note ok = assms(1)[unfolded flash_ok_def]
  let ?st = "st\<lparr>in_recovery_check := False, init_ok := True\<rparr>"
  have m: "mem ?st = mem st" by (simp add: mem_def)
  have "ready (mem ?st) ?st N" using assms(2-6) ok unfolding m by (simp add: ready_def ef_inv_def)
  then have p: "P () ?st" by (intro assms(7)) simp_all
  show ?thesis
    unfolding recover_def wp_ebind
  proof (rule wp_clean_gc)
    show "store_ok (mem st) N" "known (mem st) N" using ok by simp_all
    show "wp F (recovery_loop (Suc fuel) W (raw_node W)) (\<lambda>x. wp F (emod (\<lambda>st. st\<lparr>in_recovery_check := False, init_ok := True\<rparr>)) P) st"
      by (rule wp_recovery_loop[where N = N]) (use ok assms(2,4) p raw_name in \<open>simp_all add: wp_simps EF_ENV_NAME_MAX_def\<close>)
  qed
qed


lemma mem_cleared [simp]: "mem (cleared st) = mem st"
  by (simp add: mem_def cleared_def)

lemma wp_init_used:
  assumes "after_boot st" "flash_ok (mem st) N"
    and "\<And>st'. ready (mem st') st' N \<Longrightarrow> flash_store st' = flash_store st \<Longrightarrow> P EF_NO_ERR st'"
  shows "wp F (ef_env_init (Suc fuel) W) P st"
proof (rule wp_ef_env_init[OF assms(1)], rule wp_check_headers[where N = N])
  let ?st = "cleared st"
  have n: "no_entries ?st" by (rule cleared_no_entries[OF assms(1)])
  show "store_ok (mem ?st) N" using assms(2) by (simp add: flash_ok_def)
  fix s
  have "wp F (recover (Suc fuel) W s) (\<lambda>_. P EF_NO_ERR) ?st"
  proof (rule wp_recover)
    show "flash_ok (mem ?st) N" using assms(2) by simp
    show "sec_cache_ok (sector_cache_table ?st) N" "env_cache_ok (env_cache_table ?st) (live N)"
      using no_sectors[OF n] no_names[OF n] by simp_all
    show "\<not> gc_request ?st" "\<not> last_is_complete_del ?st" "length (env_name (set_env_node ?st)) = 32"
      using assms(1) by (simp_all add: after_boot_def cleared_def)
    fix st' assume "ready (mem st') st' N" "flash_store st' = flash_store ?st"
    then show "P EF_NO_ERR st'" using assms(3) by (simp add: cleared_def)
  qed
  then show "(case (s, 0) of (sector, n) \<Rightarrow> wp F (if n = SECTOR_NUM then ef_env_set_default W else eret EF_NO_ERR)
        (\<lambda>_. wp F (recover (Suc fuel) W sector) (\<lambda>_. P EF_NO_ERR))) ?st"
    by (simp add: SECTOR_NUM_def wp_simps)
qed

end

section \<open>Starting on a flash that was never used\<close>

definition headless :: "(nat \<Rightarrow> byte) \<Rightarrow> nat \<Rightarrow> bool" where
  "headless c sec \<longleftrightarrow> le_word 4 (bytes_at c sec 16) \<noteq> SECTOR_MAGIC_WORD"

lemma headless_cong: "(\<And>k. sec \<le> k \<Longrightarrow> k < sec + 16 \<Longrightarrow> c k = d k) \<Longrightarrow> headless c sec = headless d sec"
  using bytes_at_cong[of sec 16 c d] by (simp add: headless_def)

lemma both_formatted: "store_ok (formatted 4096 (formatted 0 c)) (\<lambda>_. [])"
  using formatted_fields(3)[of 0 c] formatted_fields(3)[of 4096 "formatted 0 c"] formatted_other(3)[of 4096 0 "formatted 0 c" "[]"]
  by (simp add: store_ok_def)

lemma both_fields:
  assumes "sec = 0 \<or> sec = 4096"
  shows "sec_store (formatted 4096 (formatted 0 c)) sec = SECTOR_STORE_EMPTY" "sec_dirty (formatted 4096 (formatted 0 c)) sec = SECTOR_DIRTY_FALSE"
  using assms formatted_fields(1,2)[of 0 c] formatted_fields(1,2)[of 4096 "formatted 0 c"] formatted_other(1,2)[of 4096 0 "formatted 0 c"]
  by auto

lemma both_tidy: "tidy (formatted 4096 (formatted 0 c)) (\<lambda>_. [])"
  by (auto simp: tidy_def both_fields stage_def packed_def)

text \<open>The first variable on two formatted sectors.\<close>

definition first_node :: "byte list \<Rightarrow> byte list \<Rightarrow> nat \<Rightarrow> node list" where
  "first_node k v = append_node 0 k v (\<lambda>_. [])"

lemma live_first: "live (first_node k v) = [(16, k, v)]"
  by (simp add: live_def first_node_def append_node_def)

definition booting :: "'s ef \<Rightarrow> (nat \<Rightarrow> node list) \<Rightarrow> bool" where
  "booting st N \<longleftrightarrow> sec_cache_ok (sector_cache_table st) N \<and> env_cache_ok (env_cache_table st) (live N) \<and>
     \<not> gc_request st \<and> \<not> last_is_complete_del st \<and> length (env_name (set_env_node st)) = 32"

lemma booting_drop: "booting st (\<lambda>_. []) \<Longrightarrow> sec = 0 \<or> sec = 4096 \<Longrightarrow>
    booting (st\<lparr>flash_store := s, sector_cache_table := drop_sector sec (sector_cache_table st)\<rparr>) (\<lambda>_. [])"
  by (simp add: booting_def sec_cache_ok_drop[where N = "\<lambda>_. []"])

context nor_port
begin

lemma wp_no_header:
  assumes "headless (mem st) sec" "sec = 0 \<or> sec = 4096"
    and "\<And>s. sec_addr s = sec \<Longrightarrow> combined s = SECTOR_NOT_COMBINED \<Longrightarrow> \<not> check_ok s \<Longrightarrow> P (EF_ENV_INIT_FAILED, s) st"
  shows "wp F (read_sector_meta_data W sec sector False) P st"
proof -
  have "sec mod SECTOR_SIZE = 0" "sec + 16 \<le> PART_SIZE" using assms(2) by (auto simp: SECTOR_SIZE_def PART_SIZE_def)
  then show ?thesis
    unfolding read_sector_meta_data_def using assms(1,3)
    by (simp add: wp_simps wp_rd Let_def headless_def)
qed

lemma wp_hdr_step:
  assumes "headless (mem st) sec" "sec = 0 \<or> sec = 4096" "get_next_sector_addr sector = sec"
    and "\<And>s s'. get_next_sector_addr s = (if sec = 0 then 4096 else FAILED_ADDR) \<Longrightarrow> cells s' = formatted sec (mem st) \<Longrightarrow>
      wp F (sector_loop W fuel SECTOR_STORE_UNUSED (check_sec_hdr_cb W) False s (n + 1)) P
        (st\<lparr>flash_store := s', sector_cache_table := drop_sector sec (sector_cache_table st)\<rparr>)"
  shows "wp F (sector_loop W (Suc fuel) SECTOR_STORE_UNUSED (check_sec_hdr_cb W) False sector n) P st"
proof -
  have f: "sec \<noteq> FAILED_ADDR" using assms(2) by (auto simp: FAILED_ADDR_def)
  have "wp F (read_sector_meta_data W sec sector False) (\<lambda>(_, s). wp F (ebind (check_sec_hdr_cb W s n) (\<lambda>(stop, n).
      if stop then eret (s, n) else sector_loop W fuel SECTOR_STORE_UNUSED (check_sec_hdr_cb W) False s n)) P) st"
  proof (rule wp_no_header[OF assms(1,2)])
    fix s :: sector_meta_data assume s: "sec_addr s = sec" "combined s = SECTOR_NOT_COMBINED" "\<not> check_ok s"
    have n: "get_next_sector_addr s = (if sec = 0 then 4096 else FAILED_ADDR)"
      using s(1,2) f assms(2) by (auto simp: get_next_sector_addr_def SECTOR_SIZE_def EF_START_ADDR_def ENV_AREA_SIZE_def Let_def)
    have "wp F (format_sector W sec SECTOR_NOT_COMBINED) (\<lambda>_. wp F (sector_loop W fuel SECTOR_STORE_UNUSED (check_sec_hdr_cb W) False s (n + 1)) P) st"
      by (rule wp_format_sector[OF assms(2)]) (rule assms(4)[OF n])
    then show "(case (EF_ENV_INIT_FAILED, s) of (_, s) \<Rightarrow> wp F (ebind (check_sec_hdr_cb W s n) (\<lambda>(stop, n).
      if stop then eret (s, n) else sector_loop W fuel SECTOR_STORE_UNUSED (check_sec_hdr_cb W) False s n)) P) st"
      using s by (simp add: check_sec_hdr_cb_def wp_simps wp_eret_fun wp_ebind_fun)
  qed
  then show ?thesis using f assms(3) by (simp add: wp_simps Let_def case_prod_beta' wp_ebind_fun wp_eret_fun cong: if_cong)
qed


lemma wp_create_alloc:
  assumes "fits key value" "empty_env s = FAILED_ADDR"
    and "wp F (new_env W s (node_size key value)) (\<lambda>(a, s') st. a \<noteq> FAILED_ADDR \<and> empty_env s' = a \<and> wp F (create_env_blob W s' key value) P st) st"
  shows "wp F (create_env_blob W s key value) P st"
proof -
  have le: "length key \<le> EF_ENV_NAME_MAX" "wadd (wadd ENV_HDR_DATA_SIZE (length key)) (length value) = node_size key value"
    "node_size key value \<le> SECTOR_SIZE - SECTOR_HDR_DATA_SIZE"
    using assms(1) by (simp_all add: fits_def node_size_def EF_ENV_NAME_MAX_def ENV_HDR_DATA_SIZE_def SECTOR_SIZE_def SECTOR_HDR_DATA_SIZE_def)
  define rest where "rest = (\<lambda>(env_addr, sector).
              if env_addr = FAILED_ADDR then eret EF_ENV_FULL
              else
                ebind (update_sec_status W sector (node_size key value) False) (\<lambda>(result, is_full).
                ebind (when_ok result
                    (let hdr = drop 12 (env_hdr_bytes (node_size key value) 0 (length key) (length value));
                         crc = ef_calc_crc32 (ef_calc_crc32 (ef_calc_crc32 0 hdr) key) value
                     in write_env_hdr W env_addr (env_hdr_bytes (node_size key value) crc (length key) (length value)))) (\<lambda>result.
                ebind (when_ok result
                    (ebind (align_write W (wadd env_addr ENV_HDR_DATA_SIZE) key) (\<lambda>result.
                     ebind (if \<not> is_full then update_sector_cache (sec_addr sector) (wadd (wadd (wadd env_addr ENV_HDR_DATA_SIZE) (length key)) (length value))
                            else eret ()) (\<lambda>_.
                     ebind (update_env_cache key env_addr) (\<lambda>_. eret result))))) (\<lambda>result.
                ebind (when_ok result (align_write W (wadd (wadd env_addr ENV_HDR_DATA_SIZE) (length key)) value)) (\<lambda>result.
                ebind (when_ok result (write_status W env_addr ENV_STATUS_NUM ENV_WRITE)) (\<lambda>result.
                ebind (if result = EF_NO_ERR \<and> is_full then emod (\<lambda>st. st\<lparr>gc_request := True\<rparr>) else eret ()) (\<lambda>_.
                eret result)))))))"
  have c: "create_env_blob W s' key value =
      ebind (if empty_env s' \<noteq> FAILED_ADDR then eret (empty_env s', s') else new_env W s' (node_size key value)) rest" for s'
    using le unfolding create_env_blob_def Let_def rest_def by (simp only: not_le[symmetric] if_True if_False not_not simp_thms)
  have "wp F (rest x) P st'" if "(case x of (a, s') \<Rightarrow> \<lambda>st. a \<noteq> FAILED_ADDR \<and> empty_env s' = a \<and> wp F (create_env_blob W s' key value) P st) st'" for x st'
    using that by (cases x) (auto simp: c wp_simps)
  then show ?thesis
    unfolding c[of s] using assms(2) by (simp add: wp_ebind) (rule wp_mono[OF assms(3)])
qed

lemma wp_create_first:
  assumes "mem st = formatted 4096 (formatted 0 c)" "booting st (\<lambda>_. [])"
    and "fits k v" "node_size k v < 4080" "0 \<notin> set k" "empty_env s0 = FAILED_ADDR"
    and "\<And>st'. flash_ok (mem st') (first_node k v) \<Longrightarrow> booting st' (first_node k v) \<Longrightarrow> P EF_NO_ERR st'"
  shows "wp F (create_env_blob W s0 k v) P st"
proof (rule wp_create_alloc[OF assms(3,6)])
  let ?Z = "\<lambda>_ :: nat. [] :: node list" and ?n = "node_size k v" and ?N = "first_node k v"
  note b = assms(2)[unfolded booting_def]
  have ok: "store_ok (mem st) ?Z" "tidy (mem st) ?Z" "known (mem st) ?Z" "sec_cache_ok (sector_cache_table st) ?Z"
    using b both_formatted both_tidy both_fields(2) by (simp_all add: assms(1) known_def)
  have pl: "alloc_place (mem st) ?Z False ?n = Some 0"
    using assms(4) both_fields by (simp add: assms(1) alloc_place_def place_in_def count_in_def open_for_def ef_states)
  have create: "wp F (create_env_blob W (measured s1 (mem st) 0 []) k v) P (st\<lparr>sector_cache_table := t1\<rparr>)" if "sec_cache_ok t1 ?Z" for s1 t1
  proof (rule wp_create_node[where N = ?Z and sec = 0 and c' = "mem st" and sx = s1])
    let ?st1 = "st\<lparr>sector_cache_table := t1\<rparr>"
    fix s2 t2
    let ?st2 = "?st1\<lparr>flash_store := s2, sector_cache_table := t2, env_cache_table := put_env k (0 + 16 + span (?Z 0)) (env_cache_table ?st1),
      gc_request := gc_request ?st1 \<or> is_full (?Z 0 @ [(k, v, ENV_WRITE)])\<rparr>"
    assume s2: "store_ok (cells s2) (append_node 0 k v ?Z)" "tidy (cells s2) (append_node 0 k v ?Z)" "sec_cache_ok t2 (append_node 0 k v ?Z)"
      "\<And>x. x = 0 \<or> x = 4096 \<Longrightarrow> sec_dirty (cells s2) x = sec_dirty (mem ?st1) x"
    have "known (cells s2) ?N" unfolding first_node_def using s2(4) ok(3) by (intro known_append[where c = "mem ?st1"]) simp_all
    then have fo: "flash_ok (mem ?st2) ?N"
      using s2(1,2) by (simp add: flash_ok_def settled_def single_def spare_def live_first ef_states) (simp add: first_node_def append_node_def ef_states)
    have e: "env_cache_ok (env_cache_table st) []" using b by (simp add: live_def)
    have "env_cache_ok (put_env k 16 (env_cache_table st)) (live ?N)"
      by (rule env_cache_ok_put[OF e, where v = v]) (simp_all add: live_first FAILED_ADDR_def)
    then have "booting ?st2 ?N" using b s2(3) by (simp add: booting_def is_full_def first_node_def)
    then show "P EF_NO_ERR ?st2" by (rule assms(7)[OF fo])
  qed (use ok that assms(3-5) in \<open>simp_all add: is_full_def\<close>)
  have "wp F (alloc_env W s0 ?n) (\<lambda>(a, s'). wp F (ebind (eget gc_request) (\<lambda>gc. if a = FAILED_ADDR \<and> gc
      then ebind (gc_collect W) (\<lambda>_. alloc_env W s' ?n) else eret (a, s')))
      (\<lambda>(a, s') st. a \<noteq> FAILED_ADDR \<and> empty_env s' = a \<and> wp F (create_env_blob W s' k v) P st)) st"
  proof (rule wp_alloc_env[OF ok(1,4)], goal_cases)
    case (1 sec s1 t1)
    then show ?case using pl b create by (simp add: wp_simps FAILED_ADDR_def)
  next
    case (2 s1 t1)
    then show ?case using pl b by simp
  qed
  then show "wp F (new_env W s0 ?n) (\<lambda>(a, s') st. a \<noteq> FAILED_ADDR \<and> empty_env s' = a \<and> wp F (create_env_blob W s' k v) P st) st"
    by (simp add: new_env_def wp_ebind case_prod_beta')
qed

lemma wp_set_default:
  assumes "booting st (\<lambda>_. [])" "default_env_set W = [(k, v, 0)]" "fits k (cstr v)" "node_size k (cstr v) < 4080" "0 \<notin> set k"
    and "\<And>st'. flash_ok (mem st') (first_node k (cstr v)) \<Longrightarrow> booting st' (first_node k (cstr v)) \<Longrightarrow> P EF_NO_ERR st'"
  shows "wp F (ef_env_set_default W) P st"
proof -
  let ?s0 = "(raw_sector W)\<lparr>empty_env := FAILED_ADDR\<rparr>"
  let ?Q = "\<lambda>r. wp F (when_ok r (ebind (create_env_blob W ?s0 k (cstr v)) (\<lambda>_. eret r))) P"
  have "wp F (format_sector W 0 SECTOR_NOT_COMBINED) (\<lambda>r. wp F (when_ok r (format_sector W 4096 SECTOR_NOT_COMBINED)) ?Q) st"
  proof (rule wp_format_sector)
    fix s1 assume s1: "cells s1 = formatted 0 (mem st)"
    let ?st1 = "st\<lparr>flash_store := s1, sector_cache_table := drop_sector 0 (sector_cache_table st)\<rparr>"
    have "wp F (format_sector W 4096 SECTOR_NOT_COMBINED) ?Q ?st1"
    proof (rule wp_format_sector)
      fix s2 assume s2: "cells s2 = formatted 4096 (mem ?st1)"
      let ?st2 = "?st1\<lparr>flash_store := s2, sector_cache_table := drop_sector 4096 (sector_cache_table ?st1)\<rparr>"
      have "wp F (create_env_blob W ?s0 k (cstr v)) (\<lambda>_. P EF_NO_ERR) ?st2"
      proof (rule wp_create_first)
        show "mem ?st2 = formatted 4096 (formatted 0 (mem st))" using s1 s2 by simp
        show "booting ?st2 (\<lambda>_. [])" using booting_drop[OF booting_drop[OF assms(1), of 0 s1], of 4096 s2] by simp
      qed (use assms(3-6) in simp_all)
      then show "?Q EF_NO_ERR ?st2" by (simp add: wp_simps wp_eret_fun)
    qed simp
    then show "wp F (when_ok EF_NO_ERR (format_sector W 4096 SECTOR_NOT_COMBINED)) ?Q ?st1" by (simp add: when_ok_def)
  qed simp
  moreover have "ebind (format_sector W 4096 SECTOR_NOT_COMBINED) (\<lambda>r. when_ok r (eret EF_NO_ERR)) = format_sector W 4096 SECTOR_NOT_COMBINED"
    by (rule ext) (auto simp: ebind_def when_ok_def eret_def cbind_def split: sum.split)
  ultimately show ?thesis
    unfolding ef_env_set_default_def
    by (simp add: wp_simps assms(2) EF_START_ADDR_def SECTOR_SIZE_def ebind_assoc ebind_eret wp_ebind_fun)
qed

lemma wp_init_blank:
  assumes "after_boot st" "headless (mem st) 0" "headless (mem st) 4096" "default_env_set W = [(k, v, 0)]"
    and "fits k (cstr v)" "node_size k (cstr v) < 4080" "0 \<notin> set k"
    and "\<And>st' N. ready (mem st') st' N \<Longrightarrow> contents (live N) = [k \<mapsto> cstr v] \<Longrightarrow> P EF_NO_ERR st'"
  shows "wp F (ef_env_init (Suc fuel) W) P st"
proof (rule wp_ef_env_init[OF assms(1)])
  have b: "booting (cleared st) (\<lambda>_. [])"
    using no_sectors[OF cleared_no_entries[OF assms(1)]] no_names[OF cleared_no_entries[OF assms(1)]] assms(1)
    by (simp add: booting_def after_boot_def) (simp add: cleared_def)
  have h2: "headless (formatted 0 (mem st)) 4096"
    using assms(3) headless_cong[of 4096 "formatted 0 (mem st)" "mem st"] formatted_outside[of _ 0 "mem st"] by simp
  have defaults: "wp F (ef_env_set_default W) (\<lambda>_. wp F (recover (Suc fuel) W sector) (\<lambda>_. P EF_NO_ERR)) st'"
    if "booting st' (\<lambda>_. [])" for sector st'
  proof (rule wp_set_default[OF that assms(4-7)])
    fix st2 assume "flash_ok (mem st2) (first_node k (cstr v))" "booting st2 (first_node k (cstr v))"
    then show "wp F (recover (Suc fuel) W sector) (\<lambda>_. P EF_NO_ERR) st2"
      by (intro wp_recover) (auto simp: booting_def live_first contents_def intro: assms(8))
  qed
  show "wp F (sector_iterator W (raw_sector W) SECTOR_STORE_UNUSED 0 (check_sec_hdr_cb W) False)
      (\<lambda>(sector, n). wp F (if n = SECTOR_NUM then ef_env_set_default W else eret EF_NO_ERR)
        (\<lambda>_. wp F (recover (Suc fuel) W sector) (\<lambda>_. P EF_NO_ERR))) (cleared st)"
    unfolding sector_iterator_def SECTOR_NUM_def numeral_2_eq_2
  proof (rule wp_hdr_step[OF _ _ next_sector(1)], goal_cases)
    case (3 s s')
    note st = 3
    show ?case
    proof (rule wp_hdr_step[where sec = 4096], goal_cases)
      case (4 s2 s2')
      then show ?case using defaults[OF booting_drop[OF booting_drop[OF b, of 0 s'], of 4096 s2']] by (simp add: wp_simps)
    qed (use h2 st in simp_all)
  qed (use assms(2) in simp_all)
qed

end

end
