(* ===== verification/Fal.thy ===== *)
theory Fal
  imports Prelude
begin

text \<open>
  The flash abstraction layer, \<open>packages/fal-v0.5.0\<close>, as the project configures it
  (\<open>ports/fal/fal_cfg.h\<close>): a table of flash devices, a table of named partitions on them, and bounded
  access to a partition. \<open>'f\<close> is the contents of the flash chips, which only the device operations
  touch. The package is compiled with \<open>FAL_DEBUG\<close>, so a failed assertion stops the system.
\<close>

section \<open>Devices and partitions\<close>

record 'f fal_flash_dev =
  dev_name :: "byte list"
  dev_addr :: u32
  dev_len :: u32
  blk_size :: u32
  op_init :: "('f \<Rightarrow> 'f) option"
  op_read :: "int \<Rightarrow> byte list \<Rightarrow> u32 \<Rightarrow> 'f \<Rightarrow> (int \<times> byte list) cres"
  op_write :: "int \<Rightarrow> byte list \<Rightarrow> u32 \<Rightarrow> 'f \<Rightarrow> (int \<times> 'f) cres"
  op_erase :: "int \<Rightarrow> u32 \<Rightarrow> 'f \<Rightarrow> (int \<times> 'f) cres"
  write_gran :: u32

record fal_partition =
  magic_word :: u32
  part_name :: "byte list"
  flash_name :: "byte list"
  part_offset :: u32
  part_len :: u32
  part_reserved :: u32

definition FAL_PART_MAGIC_WROD :: u32 where "FAL_PART_MAGIC_WROD = 0x45503130"

definition partition :: "string \<Rightarrow> string \<Rightarrow> u32 \<Rightarrow> u32 \<Rightarrow> fal_partition" where
  "partition n d off l = \<lparr>magic_word = FAL_PART_MAGIC_WROD, part_name = lit n, flash_name = lit d,
     part_offset = off, part_len = l, part_reserved = 0\<rparr>"

definition partition_table_def :: "fal_partition list" where
  "partition_table_def =
    [partition ''bootloader'' ''onchip_flash'' 0 (64 * 1024),
     partition ''app'' ''onchip_flash'' (64 * 1024) (448 * 1024),
     partition ''easyflash'' ''nor_flash'' 0 (512 * 1024),
     partition ''download'' ''nor_flash'' (512 * 1024) (1024 * 1024),
     partition ''wifi_image'' ''nor_flash'' ((512 + 1024) * 1024) (512 * 1024),
     partition ''font'' ''nor_flash'' ((512 + 1024 + 512) * 1024) (7 * 1024 * 1024),
     partition ''filesystem'' ''nor_flash'' ((512 + 1024 + 512 + 7 * 1024) * 1024) (7 * 1024 * 1024)]"

text \<open>The three static \<open>init_ok\<close> flags, the table in use, and the flash.\<close>

record 'f fal =
  flash_init_ok :: bool
  part_init_ok :: bool
  fal_init_ok :: bool
  partition_table :: "fal_partition list"
  partition_table_len :: nat
  flash :: 'f

definition fal_boot :: "'f \<Rightarrow> 'f fal" where
  "fal_boot f = \<lparr>flash_init_ok = False, part_init_ok = False, fal_init_ok = False,
     partition_table = [], partition_table_len = 0, flash = f\<rparr>"

section \<open>\<open>fal_flash.c\<close>\<close>

definition fal_flash_init :: "'f fal_flash_dev list \<Rightarrow> 'f fal \<Rightarrow> int \<times> 'f fal" where
  "fal_flash_init device_table s =
     (if flash_init_ok s then (0, s)
      else (0, s\<lparr>flash := fold (\<lambda>d f. case op_init d of Some init \<Rightarrow> init f | None \<Rightarrow> f) device_table (flash s),
                 flash_init_ok := True\<rparr>))"

text \<open>\<open>!strncmp(name, device_table[i]->name, FAL_DEV_NAME_MAX)\<close> of two strings.\<close>

definition same_name :: "byte list \<Rightarrow> byte list \<Rightarrow> bool" where
  "same_name a b \<longleftrightarrow> take 24 (cstr a) = take 24 (cstr b)"

fun find_device :: "'f fal_flash_dev list \<Rightarrow> byte list \<Rightarrow> 'f fal_flash_dev option" where
  "find_device [] name = None"
| "find_device (d # ds) name = (if same_name name (dev_name d) then Some d else find_device ds name)"

definition fal_flash_device_find ::
  "'f fal_flash_dev list \<Rightarrow> byte list \<Rightarrow> 'f fal \<Rightarrow> 'f fal_flash_dev option cres" where
  "fal_flash_device_find device_table name s =
     (if \<not> flash_init_ok s then Inl Assert_Failed else Inr (find_device device_table name))"

section \<open>\<open>fal_partition.c\<close>\<close>

text \<open>The check of \<open>fal_partition_init\<close>: every partition of a known device starts inside it.\<close>

fun check_table :: "'f fal_flash_dev list \<Rightarrow> fal_partition list \<Rightarrow> bool" where
  "check_table device_table [] = True"
| "check_table device_table (p # ps) =
     (case find_device device_table (flash_name p) of
        None \<Rightarrow> check_table device_table ps
      | Some d \<Rightarrow> if sint (part_offset p) \<ge> sint (dev_len d) then False else check_table device_table ps)"

definition fal_partition_init :: "'f fal_flash_dev list \<Rightarrow> 'f fal \<Rightarrow> (int \<times> 'f fal) cres" where
  "fal_partition_init device_table s =
     (if part_init_ok s then Inr (int (partition_table_len s), s)
      else
        (let s = s\<lparr>partition_table := partition_table_def,
                   partition_table_len := length partition_table_def\<rparr>
         in if \<not> flash_init_ok s then Inl Assert_Failed
            else if check_table device_table partition_table_def
            then (let s = s\<lparr>part_init_ok := True\<rparr> in Inr (int (partition_table_len s), s))
            else (let s = s\<lparr>partition_table_len := 0\<rparr> in Inr (int (partition_table_len s), s))))"

fun find_partition :: "byte list \<Rightarrow> nat \<Rightarrow> fal_partition list \<Rightarrow> fal_partition option cres" where
  "find_partition name 0 table = Inr None"
| "find_partition name (Suc n) [] = Inl Out_Of_Bounds"
| "find_partition name (Suc n) (p # ps) =
     (if cstr name = cstr (part_name p) then Inr (Some p) else find_partition name n ps)"

definition fal_partition_find :: "byte list \<Rightarrow> 'f fal \<Rightarrow> fal_partition option cres" where
  "fal_partition_find name s =
     (if \<not> part_init_ok s then Inl Assert_Failed
      else find_partition name (partition_table_len s) (partition_table s))"

definition fal_get_partition_table :: "'f fal \<Rightarrow> (fal_partition list \<times> nat) cres" where
  "fal_get_partition_table s =
     (if \<not> part_init_ok s then Inl Assert_Failed else Inr (partition_table s, partition_table_len s))"

definition fal_set_partition_table_temp ::
  "fal_partition list option \<Rightarrow> nat \<Rightarrow> 'f fal \<Rightarrow> 'f fal cres" where
  "fal_set_partition_table_temp table len s =
     (if \<not> part_init_ok s then Inl Assert_Failed
      else case table of
             None \<Rightarrow> Inl Assert_Failed
           | Some t \<Rightarrow> Inr (s\<lparr>partition_table_len := len, partition_table := t\<rparr>))"

text \<open>\<open>part->offset + addr\<close>, passed as a \<open>long\<close>.\<close>

definition dev_offset :: "fal_partition \<Rightarrow> u32 \<Rightarrow> int" where
  "dev_offset part addr = sint (part_offset part + addr)"

definition fal_partition_read ::
  "'f fal_flash_dev list \<Rightarrow> fal_partition option \<Rightarrow> u32 \<Rightarrow> byte list option \<Rightarrow> u32 \<Rightarrow> 'f fal \<Rightarrow>
     (int \<times> byte list) cres" where
  "fal_partition_read device_table part addr buf sz s =
     (case (part, buf) of
        (Some part, Some buf) \<Rightarrow>
          if addr + sz > part_len part then Inr (-1, buf)
          else cbind (fal_flash_device_find device_table (flash_name part) s) (\<lambda>dev.
            case dev of
              None \<Rightarrow> Inr (-1, buf)
            | Some dev \<Rightarrow> op_read dev (dev_offset part addr) buf sz (flash s))
      | _ \<Rightarrow> Inl Assert_Failed)"

definition fal_partition_write ::
  "'f fal_flash_dev list \<Rightarrow> fal_partition option \<Rightarrow> u32 \<Rightarrow> byte list option \<Rightarrow> u32 \<Rightarrow> 'f fal \<Rightarrow>
     (int \<times> 'f fal) cres" where
  "fal_partition_write device_table part addr buf sz s =
     (case (part, buf) of
        (Some part, Some buf) \<Rightarrow>
          if addr + sz > part_len part then Inr (-1, s)
          else cbind (fal_flash_device_find device_table (flash_name part) s) (\<lambda>dev.
            case dev of
              None \<Rightarrow> Inr (-1, s)
            | Some dev \<Rightarrow>
                cbind (op_write dev (dev_offset part addr) buf sz (flash s)) (\<lambda>(ret, f).
                Inr (ret, s\<lparr>flash := f\<rparr>)))
      | _ \<Rightarrow> Inl Assert_Failed)"

definition fal_partition_erase ::
  "'f fal_flash_dev list \<Rightarrow> fal_partition option \<Rightarrow> u32 \<Rightarrow> u32 \<Rightarrow> 'f fal \<Rightarrow> (int \<times> 'f fal) cres" where
  "fal_partition_erase device_table part addr sz s =
     (case part of
        Some part \<Rightarrow>
          if addr + sz > part_len part then Inr (-1, s)
          else cbind (fal_flash_device_find device_table (flash_name part) s) (\<lambda>dev.
            case dev of
              None \<Rightarrow> Inr (-1, s)
            | Some dev \<Rightarrow>
                cbind (op_erase dev (dev_offset part addr) sz (flash s)) (\<lambda>(ret, f).
                Inr (ret, s\<lparr>flash := f\<rparr>)))
      | None \<Rightarrow> Inl Assert_Failed)"

text \<open>\<open>part->len\<close> is read before the assertion on \<open>part\<close>.\<close>

definition fal_partition_erase_all ::
  "'f fal_flash_dev list \<Rightarrow> fal_partition option \<Rightarrow> 'f fal \<Rightarrow> (int \<times> 'f fal) cres" where
  "fal_partition_erase_all device_table part s =
     (case part of
        None \<Rightarrow> Inl Null_Deref
      | Some p \<Rightarrow> fal_partition_erase device_table part 0 (part_len p) s)"

section \<open>\<open>fal.c\<close>\<close>

definition fal_init :: "'f fal_flash_dev list \<Rightarrow> 'f fal \<Rightarrow> (int \<times> 'f fal) cres" where
  "fal_init device_table s =
     (let (result, s) = fal_flash_init device_table s
      in cbind (if result < 0 then Inr (result, s) else fal_partition_init device_table s) (\<lambda>(result, s).
         if result > 0 \<and> \<not> fal_init_ok s then Inr (result, s\<lparr>fal_init_ok := True\<rparr>)
         else if result \<le> 0 then Inr (result, s\<lparr>fal_init_ok := False\<rparr>)
         else Inr (result, s)))"

definition fal_init_check :: "'f fal \<Rightarrow> bool" where
  "fal_init_check s = fal_init_ok s"

section \<open>The configured table\<close>

text \<open>Two partitions that share no byte of a device.\<close>

definition disjoint_parts :: "fal_partition \<Rightarrow> fal_partition \<Rightarrow> bool" where
  "disjoint_parts p q \<longleftrightarrow> flash_name p \<noteq> flash_name q \<or>
     uint (part_offset p) + uint (part_len p) \<le> uint (part_offset q) \<or>
     uint (part_offset q) + uint (part_len q) \<le> uint (part_offset p)"

definition part_fits :: "int \<Rightarrow> int \<Rightarrow> fal_partition \<Rightarrow> bool" where
  "part_fits len blk p \<longleftrightarrow> uint (part_offset p) + uint (part_len p) \<le> len \<and>
     uint (part_offset p) mod blk = 0 \<and> uint (part_len p) mod blk = 0"

fun pairwise_list :: "('a \<Rightarrow> 'a \<Rightarrow> bool) \<Rightarrow> 'a list \<Rightarrow> bool" where
  "pairwise_list P [] = True"
| "pairwise_list P (x # xs) = (list_all (P x) xs \<and> pairwise_list P xs)"

lemma dev_offset_eq:
  assumes "uint (part_offset p) + uint addr < 2 ^ 31"
  shows "dev_offset p addr = uint (part_offset p) + uint addr"
proof -
  have "uint (part_offset p + addr) = uint (part_offset p) + uint addr"
    using assms unfolding uint_word_ariths by (intro mod_pos_pos_trivial) simp_all
  then show ?thesis using assms by (simp add: dev_offset_def sint_u32)
qed

lemma bound_iff:
  assumes "uint (addr :: u32) + uint sz < 2 ^ 32"
  shows "(addr + sz > l) = (uint addr + uint sz > uint l)"
proof -
  have "uint (addr + sz) = uint addr + uint sz"
    using assms unfolding uint_word_ariths by (intro mod_pos_pos_trivial) simp_all
  then show ?thesis by (simp add: word_less_def)
qed

section \<open>Properties\<close>

text \<open>The configured partitions are pairwise disjoint, each lies inside its device (512 KB on chip,
  16 MB of serial flash) and starts and ends on an erase block (2048 and 4096 bytes), and their names
  differ.\<close>

theorem partition_table_ok:
  "pairwise_list disjoint_parts partition_table_def \<and>
   list_all (\<lambda>p. if flash_name p = lit ''onchip_flash'' then part_fits (512 * 1024) 2048 p
                 else flash_name p = lit ''nor_flash'' \<and> part_fits (16 * 1024 * 1024) 4096 p)
     partition_table_def \<and>
   distinct (map part_name partition_table_def)"
  by (simp add: partition_table_def_def partition_def disjoint_parts_def part_fits_def lit_def)

text \<open>A device of byte cells that keeps to its range, for the examples.\<close>

definition ram_device :: "string \<Rightarrow> u32 \<Rightarrow> (int \<Rightarrow> byte) fal_flash_dev" where
  "ram_device n l = \<lparr>dev_name = lit n, dev_addr = 0, dev_len = l, blk_size = 4096, op_init = None,
     op_read = (\<lambda>off buf n f. Inr (sint n, map (\<lambda>k. f (off + int k)) [0..<length buf])),
     op_write = (\<lambda>off buf n f. Inr (sint n, \<lambda>k. if off \<le> k \<and> k < off + uint n then buf ! nat (k - off) else f k)),
     op_erase = (\<lambda>off n f. Inr (sint n, \<lambda>k. if off \<le> k \<and> k < off + uint n then 255 else f k)), write_gran = 0\<rparr>"

definition ram_devices :: "(int \<Rightarrow> byte) fal_flash_dev list" where
  "ram_devices = [ram_device ''onchip_flash'' (512 * 1024), ram_device ''nor_flash'' (16 * 1024 * 1024)]"

text \<open>The bounds test adds in 32 bits: an address and a size whose sum wraps past zero pass it, and
  the device is asked for far more than the partition holds.\<close>

theorem fal_partition_write_wraps:
  assumes "2 ^ 32 \<le> uint addr + uint sz" "uint addr + uint sz \<le> 2 ^ 32 + uint (part_len p)"
    and "find_device devs (flash_name p) = Some dev" "flash_init_ok s"
  shows "fal_partition_write devs (Some p) addr (Some buf) sz s =
    cbind (op_write dev (dev_offset p addr) buf sz (flash s)) (\<lambda>(ret, f). Inr (ret, s\<lparr>flash := f\<rparr>))"
proof -
  have "uint (addr + sz) = (uint addr + uint sz - 2 ^ 32 + 2 ^ 32) mod 2 ^ 32"
    by (simp add: uint_word_ariths)
  also have "\<dots> = uint addr + uint sz - 2 ^ 32"
    using assms(1) uint_lt2p[of addr] uint_lt2p[of sz]
    by (simp only: mod_add_self2) (intro mod_pos_pos_trivial; simp)
  finally have "\<not> addr + sz > part_len p" using assms(2) by (simp add: word_less_def)
  then show ?thesis using assms(3,4) by (simp add: fal_partition_write_def fal_flash_device_find_def)
qed

lemma fal_partition_write_wraps_witness:
  "fal_partition_write ram_devices (Some (partition_table_def ! 0)) 0xFFFFFF00 (Some []) 0x200
     ((fal_boot (\<lambda>k. 0))\<lparr>flash_init_ok := True\<rparr>) =
   cbind (op_write (ram_device ''onchip_flash'' (512 * 1024)) (dev_offset (partition_table_def ! 0) 0xFFFFFF00) [] 0x200 (\<lambda>k. 0))
     (\<lambda>(ret, f). Inr (ret, (fal_boot (\<lambda>k. 0))\<lparr>flash_init_ok := True, flash := f\<rparr>))"
proof -
  have dev: "find_device ram_devices (flash_name (partition_table_def ! 0)) =
      Some (ram_device ''onchip_flash'' (512 * 1024))"
    by (simp add: ram_devices_def partition_table_def_def partition_def same_name_def ram_device_def)
  show ?thesis
    using fal_partition_write_wraps[OF _ _ dev, of "0xFFFFFF00" "0x200" "(fal_boot (\<lambda>k. 0))\<lparr>flash_init_ok := True\<rparr>" "[]"]
    by (simp add: partition_table_def_def partition_def fal_boot_def)
qed

text \<open>With the two devices of the project, \<open>fal_init\<close> finds the seven partitions, and each of their
  names then finds its own entry.\<close>

theorem fal_init_finds:
  assumes "map dev_name devs = [lit ''onchip_flash'', lit ''nor_flash'']"
    and "map dev_len devs = [512 * 1024, 16 * 1024 * 1024]"
  shows "\<exists>s. fal_init devs (fal_boot f) = Inr (7, s) \<and> fal_init_check s \<and>
    list_all (\<lambda>p. fal_partition_find (part_name p) s = Inr (Some p)) partition_table_def \<and>
    fal_partition_find (lit ''nand'') s = Inr None"
proof -
  obtain d1 d2 where devs: "devs = [d1, d2]" and n: "dev_name d1 = lit ''onchip_flash''" "dev_name d2 = lit ''nor_flash''"
    and l: "dev_len d1 = 512 * 1024" "dev_len d2 = 16 * 1024 * 1024"
    using assms by (auto simp: map_eq_Cons_conv)
  have names: "same_name (lit ''onchip_flash'') (lit ''onchip_flash'')"
    "\<not> same_name (lit ''nor_flash'') (lit ''onchip_flash'')" "same_name (lit ''nor_flash'') (lit ''nor_flash'')"
    by (simp_all add: same_name_def cstr_def lit_def)
  have f: "find_device devs (lit ''onchip_flash'') = Some d1" "find_device devs (lit ''nor_flash'') = Some d2"
    by (simp_all add: devs n names)
  have c: "check_table devs partition_table_def"
    by (simp add: partition_table_def_def partition_def f l)
  define s where "s = snd (projr (fal_init devs (fal_boot f)))"
  have s: "fal_init devs (fal_boot f) = Inr (7, s)" "part_init_ok s" "partition_table s = partition_table_def"
    "partition_table_len s = Suc (Suc (Suc (Suc (Suc (Suc (Suc 0))))))" "fal_init_ok s"
    using c by (simp_all add: s_def fal_init_def fal_boot_def fal_flash_init_def fal_partition_init_def
        Let_def partition_table_def_def)
  have "list_all (\<lambda>p. fal_partition_find (part_name p) s = Inr (Some p)) partition_table_def \<and>
      fal_partition_find (lit ''nand'') s = Inr None"
    by (simp add: fal_partition_find_def s partition_table_def_def partition_def cstr_def lit_def)
  then show ?thesis using s(1,5) by (auto simp: fal_init_check_def)
qed

lemma fal_init_finds_witness:
  "\<exists>s. fal_init ram_devices (fal_boot (\<lambda>k. 0)) = Inr (7, s) \<and> fal_init_check s"
  using fal_init_finds[of ram_devices "\<lambda>k. 0"] by (auto simp: ram_devices_def ram_device_def)

end
