(* ===== verification/Fal_Port.thy ===== *)
theory Fal_Port
  imports Fal
begin

text \<open>
  The two flash devices of the project, \<open>ports/fal/fal_flash_stm32l4_port.c\<close> (the on-chip flash, through
  the vendor's HAL) and \<open>ports/fal/fal_flash_sfud_port.c\<close> (the serial flash, through SFUD). The HAL and
  SFUD are parameters.
\<close>

section \<open>The on-chip flash\<close>

type_synonym memory = "u32 \<Rightarrow> byte"

record chip =
  mem :: memory
  locked :: bool

text \<open>\<open>HAL_FLASH_Program\<close> of a double word and \<open>HAL_FLASHEx_Erase\<close> of a bank, a first page and a number of
  pages; the flag is \<open>HAL_OK\<close>.\<close>

record hal =
  hal_program :: "u32 \<Rightarrow> 64 word \<Rightarrow> memory \<Rightarrow> bool \<times> memory"
  hal_erase :: "nat \<Rightarrow> u32 \<Rightarrow> u32 \<Rightarrow> memory \<Rightarrow> bool \<times> memory"

definition FLASH_START_ADRESS :: u32 where "FLASH_START_ADRESS = 0x08000000"
definition FLASH_END_ADDRESS :: u32 where "FLASH_END_ADDRESS = 0x08080000"
definition FLASH_PAGE_SIZE :: u32 where "FLASH_PAGE_SIZE = 0x800"

definition l4_addr :: "int \<Rightarrow> u32" where
  "l4_addr offset = FLASH_START_ADRESS + word_of_int offset"

definition l4_read :: "int \<Rightarrow> byte list \<Rightarrow> u32 \<Rightarrow> chip \<Rightarrow> (int \<times> byte list) cres" where
  "l4_read offset buf sz c =
     (let addr = l4_addr offset in
      if addr + sz > FLASH_END_ADDRESS then Inr (-1, buf)
      else cbind (cfor [0..<unat sz] (\<lambda>i. buf_put i (mem c (addr + word_of_nat i))) buf)
             (\<lambda>buf. Inr (sint sz, buf)))"

text \<open>\<open>write_data = (write_data) | (temp_data << 8*j)\<close>\<close>

fun pack :: "nat \<Rightarrow> byte list \<Rightarrow> 64 word \<Rightarrow> 64 word" where
  "pack j [] write_data = write_data"
| "pack j (b # bs) write_data = pack (Suc j) bs (write_data OR push_bit (8 * j) (ucast b))"

text \<open>\<open>*(uint64_t*)addr\<close>, least significant byte first.\<close>

definition read64 :: "memory \<Rightarrow> u32 \<Rightarrow> 64 word" where
  "read64 m addr = pack 0 (map (\<lambda>j. m (addr + word_of_nat j)) [0..<8]) 0"

text \<open>The loop over the double words; \<open>n\<close> is \<open>size - i\<close>, the buffer is what is left of it.\<close>

function program_loop :: "hal \<Rightarrow> u32 \<Rightarrow> byte list \<Rightarrow> nat \<Rightarrow> memory \<Rightarrow> (int \<times> memory) cres" where
  "program_loop h addr buf n m =
     (if n = 0 then Inr (0, m)
      else
        (let k = (if n < 8 then n else 8) in
         if length buf < k then Inl Out_Of_Bounds
         else
           (let write_data = pack 0 (take k buf) 0;
                (ok, m) = hal_program h addr write_data m
            in if ok then
                 if read64 m addr \<noteq> write_data then Inr (-1, m)
                 else program_loop h (addr + 8) (drop k buf) (n - k) m
               else Inr (-1, m))))"
  by pat_completeness auto
termination by (relation "measure (\<lambda>(h, addr, buf, n, m). n)") (auto split: if_splits)

declare program_loop.simps [simp del]

definition l4_write :: "hal \<Rightarrow> int \<Rightarrow> byte list \<Rightarrow> u32 \<Rightarrow> chip \<Rightarrow> (int \<times> chip) cres" where
  "l4_write h offset buf sz c =
     (let addr = l4_addr offset in
      if addr + sz > FLASH_END_ADDRESS then Inr (-1, c)
      else
        (let c = c\<lparr>locked := False\<rparr> in
         if sz < 1 then Inr (-1, c)
         else cbind (program_loop h addr buf (unat sz) (mem c)) (\<lambda>(status, m).
              let c = c\<lparr>mem := m, locked := True\<rparr>
              in if status \<noteq> 0 then Inr (status, c) else Inr (sint sz, c))))"

definition l4_erase :: "hal \<Rightarrow> int \<Rightarrow> u32 \<Rightarrow> chip \<Rightarrow> (int \<times> chip) cres" where
  "l4_erase h offset sz c =
     (let addr = l4_addr offset in
      if addr + sz > FLASH_END_ADDRESS then Inr (-1, c)
      else
        (let Page = (if addr < 0x08040000 then (addr - FLASH_START_ADRESS) div FLASH_PAGE_SIZE
                     else (addr - FLASH_START_ADRESS) div FLASH_PAGE_SIZE + 128);
             NbrOfPages = (if sz mod FLASH_PAGE_SIZE = 0 then sz div FLASH_PAGE_SIZE
                           else sz div FLASH_PAGE_SIZE + 1);
             m = (if Page < 128 \<and> NbrOfPages + Page > 128 then
                    if NbrOfPages + Page > 256 then mem c
                    else
                      (let (ok, m) = hal_erase h 1 Page (128 - Page) (mem c)
                       in if \<not> ok then m else snd (hal_erase h 2 256 (NbrOfPages - (128 - Page)) m))
                  else if Page < 128 \<and> NbrOfPages + Page \<le> 128 then snd (hal_erase h 1 Page NbrOfPages (mem c))
                  else if Page \<ge> 256 \<and> NbrOfPages + Page \<le> 384 then snd (hal_erase h 2 Page NbrOfPages (mem c))
                  else mem c)
         in Inr (sint sz, c\<lparr>mem := m, locked := True\<rparr>)))"

definition stm32l4_onchip_flash :: "hal \<Rightarrow> chip fal_flash_dev" where
  "stm32l4_onchip_flash h = \<lparr>dev_name = lit ''onchip_flash'', dev_addr = 0x08000000, dev_len = 512 * 1024,
     blk_size = 2048, op_init = None, op_read = l4_read, op_write = l4_write h, op_erase = l4_erase h, write_gran = 0\<rparr>"

section \<open>The serial flash\<close>

text \<open>SFUD: find, read, write, erase; the flag is \<open>SFUD_SUCCESS\<close>.\<close>

record 'f sfud =
  sfud_find :: "'f \<Rightarrow> 'f option"
  sfud_read :: "u32 \<Rightarrow> u32 \<Rightarrow> 'f \<Rightarrow> byte list"
  sfud_write :: "u32 \<Rightarrow> byte list \<Rightarrow> 'f \<Rightarrow> bool \<times> 'f"
  sfud_erase :: "u32 \<Rightarrow> u32 \<Rightarrow> 'f \<Rightarrow> bool \<times> 'f"

definition fal_sfud_init :: "'f sfud \<Rightarrow> 'f \<Rightarrow> int \<times> 'f" where
  "fal_sfud_init d f = (case sfud_find d f of None \<Rightarrow> (-1, f) | Some g \<Rightarrow> (0, g))"

definition nor_read :: "'f sfud \<Rightarrow> int \<Rightarrow> byte list \<Rightarrow> u32 \<Rightarrow> 'f \<Rightarrow> (int \<times> byte list) cres" where
  "nor_read d offset buf sz f =
     (if length buf < unat sz then Inl Out_Of_Bounds
      else Inr (sint sz, overlay 0 (sfud_read d (0 + word_of_int offset) sz f) buf))"

definition nor_write :: "'f sfud \<Rightarrow> int \<Rightarrow> byte list \<Rightarrow> u32 \<Rightarrow> 'f \<Rightarrow> (int \<times> 'f) cres" where
  "nor_write d offset buf sz f =
     (if length buf < unat sz then Inl Out_Of_Bounds
      else (let (ok, f) = sfud_write d (0 + word_of_int offset) (take (unat sz) buf) f
            in Inr (if \<not> ok then -1 else sint sz, f)))"

definition nor_erase :: "'f sfud \<Rightarrow> int \<Rightarrow> u32 \<Rightarrow> 'f \<Rightarrow> (int \<times> 'f) cres" where
  "nor_erase d offset sz f =
     (let (ok, f) = sfud_erase d (0 + word_of_int offset) sz f in Inr (if \<not> ok then -1 else sint sz, f))"

definition nor_flash0 :: "'f sfud \<Rightarrow> 'f fal_flash_dev" where
  "nor_flash0 d = \<lparr>dev_name = lit ''nor_flash'', dev_addr = 0, dev_len = 16 * 1024 * 1024, blk_size = 4096,
     op_init = Some (\<lambda>f. snd (fal_sfud_init d f)), op_read = nor_read d, op_write = nor_write d,
     op_erase = nor_erase d, write_gran = 0\<rparr>"

section \<open>Double words\<close>


lemma bit_byte_at:
  fixes b :: byte
  assumes "n < 64"
  shows "bit (push_bit (8 * j) (ucast b :: 64 word)) n \<longleftrightarrow> n div 8 = j \<and> bit b (n mod 8)"
proof (cases "8 * j \<le> n \<and> n < 8 * j + 8")
  case True
  then have "n div 8 = j" by (metis (no_types, lifting) add.commute div_nat_eqI mult.commute mult_Suc_right)
  moreover from this have "n - 8 * j = n mod 8" by (metis minus_mult_div_eq_mod)
  ultimately show ?thesis using True assms by (auto simp: bit_push_bit_iff bit_unsigned_iff)
next
  case False
  then have "n div 8 \<noteq> j" by auto
  moreover have "\<not> bit (push_bit (8 * j) (ucast b :: 64 word)) n"
  proof
    assume "bit (push_bit (8 * j) (ucast b :: 64 word)) n"
    then have "8 * j \<le> n" and "bit b (n - 8 * j)" by (auto simp: bit_push_bit_iff bit_unsigned_iff)
    then show False using False bit_imp_le_length[of b "n - 8 * j"] by auto
  qed
  ultimately show ?thesis by simp
qed

lemma bit_pack:
  "n < 64 \<Longrightarrow> bit (pack j bs w) n \<longleftrightarrow>
     bit w n \<or> (j \<le> n div 8 \<and> n div 8 < j + length bs \<and> bit (bs ! (n div 8 - j)) (n mod 8))"
proof (induction j bs w rule: pack.induct)
  case (2 j b bs w)
  consider "n div 8 < j" | "n div 8 = j" | "j < n div 8" by linarith
  then show ?case
  proof cases
    case 3
    then have "n div 8 - j = Suc (n div 8 - Suc j)" by linarith
    then show ?thesis using 2 3 by (simp add: bit_or_iff bit_byte_at)
  qed (use 2 in \<open>simp_all add: bit_or_iff bit_byte_at\<close>)
qed auto

lemma pack_append: "pack j (xs @ ys) w = pack (j + length xs) ys (pack j xs w)"
  by (induction j xs w rule: pack.induct) simp_all

lemma pack_zeros [simp]: "pack j (replicate n 0) w = w"
  by (induction n arbitrary: j) simp_all

lemma pack_nth:
  assumes "pack 0 xs 0 = pack 0 ys 0" "length xs = length ys" "i < length xs" "length xs \<le> 8"
  shows "xs ! i = ys ! i"
proof (rule bit_eqI)
  fix n
  assume "possible_bit TYPE(byte) n"
  then have n: "n < 8" by simp
  have "bit (pack 0 xs 0) (8 * i + n) = bit (pack 0 ys 0) (8 * i + n)" using assms(1) by simp
  moreover have "(8 * i + n) div 8 = i" "(8 * i + n) mod 8 = n" using n by auto
  moreover have "8 * i + n < 64" using n assms(3,4) by linarith
  ultimately show "bit (xs ! i) n = bit (ys ! i) n"
    using assms(2,3) bit_pack[of "8 * i + n" 0 xs 0] bit_pack[of "8 * i + n" 0 ys 0] by simp
qed

lemma read64_pack:
  assumes "read64 m addr = pack 0 bs 0" "length bs \<le> 8" "i < length bs"
  shows "m (addr + word_of_nat i) = bs ! i"
proof -
  let ?z = "bs @ replicate (8 - length bs) 0"
  have "pack 0 (map (\<lambda>j. m (addr + word_of_nat j)) [0..<8]) 0 = pack 0 ?z 0"
    using assms by (simp add: read64_def pack_append)
  from pack_nth[OF this, of i] assms show ?thesis by (simp add: nth_append)
qed

section \<open>The loop over the double words\<close>

text \<open>Programming a double word changes no other byte.\<close>

definition hal_frame :: "hal \<Rightarrow> bool" where
  "hal_frame h \<longleftrightarrow> (\<forall>a d m x. 8 \<le> unat (x - a) \<longrightarrow> snd (hal_program h a d m) x = m x)"

text \<open>Programming an erased double word of the flash, at an address that is a multiple of eight, succeeds and stores
  it. At other addresses the HAL answers with an error.\<close>

definition double_word_at :: "u32 \<Rightarrow> bool" where
  "double_word_at a \<longleftrightarrow> unat a mod 8 = 0 \<and> 0x08000000 \<le> unat a \<and> unat a + 8 \<le> 0x08080000"

definition hal_stores :: "hal \<Rightarrow> bool" where
  "hal_stores h \<longleftrightarrow> (\<forall>a d m. double_word_at a \<longrightarrow> (\<forall>j<8. m (a + word_of_nat j) = 0xFF) \<longrightarrow>
     fst (hal_program h a d m) \<and> read64 (snd (hal_program h a d m)) a = d)"

lemma unat_shift:
  fixes x a :: u32
  shows "8 \<le> unat (x - a) \<Longrightarrow> unat (x - (a + 8)) = unat (x - a) - 8"
proof -
  assume "8 \<le> unat (x - a)"
  then have "(8::u32) \<le> x - a" by (simp add: word_le_nat_alt)
  then have "unat (x - a - 8) = unat (x - a) - unat (8::u32)" by (rule unat_sub)
  moreover have "x - a - 8 = x - (a + 8)" by simp
  moreover have "unat (8::u32) = 8" by simp
  ultimately show ?thesis by metis
qed

lemma unat_before:
  fixes a :: u32
  assumes "i < 8"
  shows "unat ((a + word_of_nat i) - (a + 8)) = 2 ^ 32 - 8 + i"
proof -
  have "(a + word_of_nat i) - (a + 8) = (word_of_nat (2 ^ 32 - 8 + i) :: u32)" by simp
  then show ?thesis using assms by (simp only: unat_of_nat) simp
qed

lemma program_loop_ok:
  assumes "hal_frame h" "program_loop h addr buf n m = Inr (0, m')" "n \<le> 0x80000"
  shows "n \<le> length buf \<and> (\<forall>i<n. m' (addr + word_of_nat i) = buf ! i) \<and>
     (\<forall>x. n + 7 < unat (x - addr) \<longrightarrow> m' x = m x)"
  using assms
proof (induction n arbitrary: addr buf m rule: less_induct)
  case (less n)
  show ?case
  proof (cases "n = 0")
    case True
    then show ?thesis using less.prems by (simp add: program_loop.simps)
  next
    case False
    define k where "k = (if n < 8 then n else 8)"
    have k8: "k \<le> 8" "0 < k" "k \<le> n" "k < 8 \<Longrightarrow> k = n" using False by (auto simp: k_def split: if_splits)
    obtain ok m1 where p: "hal_program h addr (pack 0 (take k buf) 0) m = (ok, m1)" by fastforce
    have k: "k \<le> length buf" "read64 m1 addr = pack 0 (take k buf) 0"
      and rest: "program_loop h (addr + 8) (drop k buf) (n - k) m1 = Inr (0, m')"
      using False less.prems(2) p
      by (auto simp: program_loop.simps[of h addr buf n m] k_def[symmetric] Let_def split: if_splits)
    have IH: "n - k \<le> length (drop k buf)"
        "\<And>i. i < n - k \<Longrightarrow> m' (addr + 8 + word_of_nat i) = drop k buf ! i"
        "\<And>x. n - k + 7 < unat (x - (addr + 8)) \<Longrightarrow> m' x = m1 x"
      using less.IH[OF _ less.prems(1) rest] k8 less.prems(3) by auto
    have m1: "\<And>x. 8 \<le> unat (x - addr) \<Longrightarrow> m1 x = m x"
      using less.prems(1) p unfolding hal_frame_def by (metis snd_conv)
    have "m' (addr + word_of_nat i) = buf ! i" if "i < n" for i
    proof (cases "i < k")
      case True
      then have "m' (addr + word_of_nat i) = m1 (addr + word_of_nat i)"
        using IH(3)[of "addr + word_of_nat i"] unat_before[of i addr] k8 less.prems(3) by simp
      also have "\<dots> = take k buf ! i" using read64_pack[OF k(2), of i] k True k8 by simp
      finally show ?thesis using True by simp
    next
      case False
      then have "k = 8" using that k8 by linarith
      moreover have "addr + 8 + word_of_nat (i - 8) = addr + word_of_nat i"
        using False \<open>k = 8\<close> by (simp add: of_nat_diff)
      ultimately show ?thesis using IH(2)[of "i - 8"] that False k by simp
    qed
    moreover have "m' x = m x" if "n + 7 < unat (x - addr)" for x
    proof -
      have "8 \<le> unat (x - addr)" using that k8 by linarith
      moreover from this have "unat (x - (addr + 8)) = unat (x - addr) - 8" by (rule unat_shift)
      moreover have "n - k + 7 < unat (x - addr) - 8 \<or> n - k = 0" using that k8 by linarith
      ultimately show ?thesis using IH(3)[of x] m1[of x] rest by (auto simp: program_loop.simps)
    qed
    ultimately show ?thesis using IH(1) k by auto
  qed
qed

text \<open>Whatever the outcome, only the double words from the first to the one of the last byte are programmed.\<close>

lemma program_loop_frame:
  assumes "hal_frame h" "program_loop h addr buf n m = Inr (st, m')" "8 * ((n + 7) div 8) \<le> unat (x - addr)"
  shows "m' x = m x"
  using assms(2,3)
proof (induction n arbitrary: addr buf m rule: less_induct)
  case (less n)
  show ?case
  proof (cases "n = 0")
    case True
    then show ?thesis using less.prems by (simp add: program_loop.simps)
  next
    case False
    define k where "k = (if n < 8 then n else 8)"
    have k: "0 < k" "k \<le> n" using False by (simp_all add: k_def)
    obtain ok m1 where p: "hal_program h addr (pack 0 (take k buf) 0) m = (ok, m1)" by fastforce
    have far: "8 \<le> unat (x - addr)" using less.prems(2) False by (auto intro: order_trans[rotated])
    then have m1: "m1 x = m x" using assms(1) p unfolding hal_frame_def by (metis snd_conv)
    from less.prems(1) False p consider "m' = m1"
      | "program_loop h (addr + 8) (drop k buf) (n - k) m1 = Inr (st, m')"
      by (auto simp: program_loop.simps[of h addr buf n m] k_def[symmetric] Let_def split: if_splits)
    then show ?thesis
    proof cases
      case 2
      have "8 * ((n - k + 7) div 8) \<le> 8 * ((n + 7) div 8) - 8" using False by (simp add: k_def le_div_geq)
      then have "8 * ((n - k + 7) div 8) \<le> unat (x - (addr + 8))" using less.prems(2) unat_shift[OF far] by linarith
      from less.IH[OF _ 2 this] k m1 show ?thesis by simp
    qed (use m1 in simp)
  qed
qed

lemma program_loop_status: "program_loop h addr buf n m = Inr (st, m') \<Longrightarrow> st = 0 \<or> st = -1"
proof (induction n arbitrary: addr buf m rule: less_induct)
  case (less n)
  show ?case
  proof (rule ccontr)
    assume no: "\<not> (st = 0 \<or> st = -1)"
    with less.prems have "n \<noteq> 0" using program_loop.simps[of h addr buf 0 m] by (cases "n = 0") simp_all
    define k where "k = (if n < 8 then n else 8)"
    obtain ok m1 where p: "hal_program h addr (pack 0 (take k buf) 0) m = (ok, m1)" by fastforce
    have "program_loop h (addr + 8) (drop k buf) (n - k) m1 = Inr (st, m')"
      using less.prems no p \<open>n \<noteq> 0\<close>
      by (auto simp: program_loop.simps[of h addr buf n m] k_def[symmetric] Let_def split: if_splits)
    moreover have "n - k < n" using \<open>n \<noteq> 0\<close> by (simp add: k_def)
    ultimately show False using less.IH no by blast
  qed
qed

text \<open>On an erased range a faithful HAL makes the loop succeed.\<close>

lemma program_loop_stores:
  assumes "hal_frame h" "hal_stores h" "n \<le> length buf" "n \<le> 0x80000"
    "\<forall>x. unat (x - addr) < 8 * ((n + 7) div 8) \<longrightarrow> m x = 0xFF"
    and "unat addr mod 8 = 0" "0x08000000 \<le> unat addr" "unat addr + 8 * ((n + 7) div 8) \<le> 0x08080000"
  shows "\<exists>m'. program_loop h addr buf n m = Inr (0, m')"
  using assms(3-)
proof (induction n arbitrary: addr buf m rule: less_induct)
  case (less n)
  show ?case
  proof (cases "n = 0")
    case True
    then show ?thesis by (simp add: program_loop.simps)
  next
    case False
    define k where "k = (if n < 8 then n else 8)"
    have k8: "k \<le> 8" "0 < k" "k \<le> n" "k < 8 \<Longrightarrow> k = n" using False by (auto simp: k_def split: if_splits)
    obtain ok m1 where p: "hal_program h addr (pack 0 (take k buf) 0) m = (ok, m1)" by fastforce
    have "m (addr + word_of_nat j) = 0xFF" if "j < 8" for j
    proof -
      have "unat (addr + word_of_nat j - addr) = j" using that by (simp add: unat_of_nat)
      moreover have "8 \<le> 8 * ((n + 7) div 8)" using False by simp
      ultimately show ?thesis using less.prems(3) that by (metis order_less_le_trans)
    qed
    moreover have dw: "double_word_at addr" using False less.prems(4-6) by (auto simp: double_word_at_def intro: order_trans[rotated])
    ultimately have ok: "ok" "read64 m1 addr = pack 0 (take k buf) 0"
      using assms(2) p unfolding hal_stores_def by (metis fst_conv snd_conv)+
    have next8: "unat (addr + 8) = unat addr + 8" using dw by (simp add: double_word_at_def unat_plus_if_size word_size)
    have m1: "m1 x = 0xFF" if x: "unat (x - (addr + 8)) < 8 * ((n - k + 7) div 8)" for x
    proof (cases "8 \<le> unat (x - addr)")
      case True
      have "k = 8" using x k8 by (cases "k < 8") auto
      then have "8 * ((n + 7) div 8) = 8 * ((n - k + 7) div 8) + 8"
        using k8 by (simp add: le_div_geq)
      then have "m x = 0xFF" using less.prems(3) x unat_shift[OF True] by auto
      then show ?thesis using assms(1) p True unfolding hal_frame_def by (metis snd_conv)
    next
      case False
      have "x = addr + word_of_nat (unat (x - addr))" by simp
      then have "unat (x - (addr + 8)) = 2 ^ 32 - 8 + unat (x - addr)"
        using False unat_before[of "unat (x - addr)" addr] by auto
      then show ?thesis using x less.prems(2) by simp
    qed
    have "8 * ((n - k + 7) div 8) \<le> 8 * ((n + 7) div 8) - 8" "8 \<le> 8 * ((n + 7) div 8)" using False by (simp_all add: k_def le_div_geq)
    then have "unat (addr + 8) + 8 * ((n - k + 7) div 8) \<le> 0x08080000" using less.prems(6) next8 by linarith
    then have "\<exists>m'. program_loop h (addr + 8) (drop k buf) (n - k) m1 = Inr (0, m')"
      by (intro less.IH) (use less.prems k8 m1 next8 in auto)
    then show ?thesis
      using False p ok less.prems(1) k8
      by (simp add: program_loop.simps[of h addr buf n m] k_def[symmetric] Let_def)
  qed
qed

section \<open>Writing and reading back\<close>

lemma l4_in_range:
  assumes "0 \<le> off" "off + uint sz \<le> 0x80000"
  shows "\<not> l4_addr off + sz > FLASH_END_ADDRESS" "unat (l4_addr off) = 0x08000000 + nat off"
    "unat sz \<le> 0x80000"
proof -
  have s: "unat sz = nat (uint sz)" by simp
  have b: "0 \<le> uint sz" by simp
  then have "off \<le> 0x80000" "uint sz \<le> 0x80000" using assms by linarith+
  then have o: "unat (word_of_int off :: u32) = nat off" 
    using assms(1) by (simp add: unat_of_int_small)
  then show a: "unat (l4_addr off) = 0x08000000 + nat off"
    using \<open>off \<le> 0x80000\<close> by (simp add: l4_addr_def FLASH_START_ADRESS_def unat_plus_if_size word_size)
  show z: "unat sz \<le> 0x80000" using \<open>uint sz \<le> 0x80000\<close> s by linarith
  have "nat off + unat sz \<le> 0x80000" using assms s b by linarith
  then have "unat (l4_addr off + sz) = 0x08000000 + nat off + unat sz"
    using a z by (simp add: unat_plus_if_size word_size)
  then show "\<not> l4_addr off + sz > FLASH_END_ADDRESS"
    using \<open>nat off + unat sz \<le> 0x80000\<close> by (simp add: word_less_nat_alt FLASH_END_ADDRESS_def)
qed

lemma fill_loop:
  "n \<le> length buf \<Longrightarrow> cfor [0..<n] (\<lambda>i. buf_put i (g i)) buf = Inr (overlay 0 (map g [0..<n]) buf)"
proof (induction n)
  case (Suc n)
  then show ?case
    using overlay_snoc[of 0 "map g [0..<n]" buf "g n"] by (simp add: cfor_append cbind_def)
qed simp

lemma l4_read_bytes:
  assumes "0 \<le> off" "off + uint sz \<le> 0x80000" "unat sz \<le> length dst"
  shows "l4_read off dst sz c =
    Inr (sint sz, overlay 0 (map (\<lambda>i. mem c (l4_addr off + word_of_nat i)) [0..<unat sz]) dst)"
  using l4_in_range(1)[OF assms(1,2)] assms(3)
  by (simp add: l4_read_def Let_def fill_loop cbind_def)

text \<open>Whatever the HAL does, a write that reports success reads back.\<close>

lemma l4_write_back:
  assumes "hal_frame h" "0 \<le> off" "off + uint sz \<le> 0x80000" "0 < sz"
    "l4_write h off buf sz c = Inr (r, c')" "r \<noteq> -1" "unat sz \<le> length dst"
  shows "r = sint sz \<and> locked c' \<and> l4_read off dst sz c' = Inr (sint sz, overlay 0 (take (unat sz) buf) dst) \<and>
    (\<forall>x. unat sz + 7 < unat (x - l4_addr off) \<longrightarrow> mem c' x = mem c x)"
proof -
  note range = l4_in_range[OF assms(2,3)]
  have sz: "\<not> sz < 1" using assms(4) by (simp add: word_less_nat_alt)
  obtain st m where loop: "program_loop h (l4_addr off) buf (unat sz) (mem c) = Inr (st, m)"
    and c': "c' = c\<lparr>mem := m, locked := True\<rparr>" and r: "r = (if st \<noteq> 0 then st else sint sz)"
    using assms(5) range(1) sz by (auto simp: l4_write_def Let_def cbind_def split: sum.splits if_splits)
  have "st = 0" using program_loop_status[OF loop] r assms(6) by (auto split: if_splits)
  note fin = program_loop_ok[OF assms(1) loop[unfolded this] range(3)]
  have "map (\<lambda>i. m (l4_addr off + word_of_nat i)) [0..<unat sz] = take (unat sz) buf"
    using fin by (intro nth_equalityI) auto
  then show ?thesis using fin c' r \<open>st = 0\<close> assms(7) by (simp add: l4_read_bytes[OF assms(2,3)])
qed

text \<open>From a multiple of eight the double words of a range end where the next multiple of eight is.\<close>

lemma double_words_fit:
  fixes a z l :: nat
  assumes "a + z \<le> l" "a mod 8 = 0" "l mod 8 = 0"
  shows "a + 8 * ((z + 7) div 8) \<le> l"
proof -
  obtain b m where e: "a = 8 * b" "l = 8 * m" using assms(2,3) by (metis mod_0_imp_dvd dvd_def)
  then have "z + 7 < 8 * (m - b) + 8" using assms(1) by simp
  then have "(z + 7) div 8 < m - b + 1" by (simp add: less_mult_imp_div_less)
  then show ?thesis using assms(1) e by simp
qed

text \<open>A HAL that programs erased double words makes the write of an erased range succeed.\<close>

lemma l4_write_stores:
  assumes "hal_frame h" "hal_stores h" "0 \<le> off" "off + uint sz \<le> 0x80000" "0 < sz" "unat sz \<le> length buf"
    "\<forall>x. unat (x - l4_addr off) < 8 * ((unat sz + 7) div 8) \<longrightarrow> mem c x = 0xFF" "off mod 8 = 0"
  shows "\<exists>c'. l4_write h off buf sz c = Inr (sint sz, c') \<and> locked c' \<and>
    (\<forall>dst. unat sz \<le> length dst \<longrightarrow>
       l4_read off dst sz c' = Inr (sint sz, overlay 0 (take (unat sz) buf) dst))"
proof -
  note range = l4_in_range[OF assms(3,4)]
  have sz: "\<not> sz < 1" using assms(5) by (simp add: word_less_nat_alt)
  have n8: "nat off mod 8 = 0" using assms(3,8) by (simp add: nat_mod_distrib[of off 8, simplified, symmetric])
  have "int (unat sz) = uint sz" by simp
  then have "nat off + unat sz \<le> 0x80000" using assms(3,4) by linarith
  then have "nat off + 8 * ((unat sz + 7) div 8) \<le> 0x80000" using n8 by (rule double_words_fit) simp
  then have addr8: "unat (l4_addr off) mod 8 = 0" "0x08000000 \<le> unat (l4_addr off)"
    "unat (l4_addr off) + 8 * ((unat sz + 7) div 8) \<le> 0x08080000"
    using range(2) n8 by (simp_all add: mod_simps(1)[symmetric])
  obtain m where loop: "program_loop h (l4_addr off) buf (unat sz) (mem c) = Inr (0, m)"
    using program_loop_stores[OF assms(1,2,6) range(3) assms(7) addr8] by blast
  note fin = program_loop_ok[OF assms(1) loop range(3)]
  have "map (\<lambda>i. m (l4_addr off + word_of_nat i)) [0..<unat sz] = take (unat sz) buf"
    using fin by (intro nth_equalityI) auto
  then show ?thesis using loop sz range(1)
    by (simp add: l4_write_def Let_def cbind_def l4_read_bytes[OF assms(3,4)])
qed

text \<open>A write in a partition of the chip, and what its double words reach.\<close>

lemma onchip_range:
  assumes "uint (part_offset p) + uint (part_len p) \<le> 0x80000" "uint addr + uint (sz :: u32) \<le> uint (part_len p)"
  shows "dev_offset p addr = uint (part_offset p) + uint addr" "0 \<le> dev_offset p addr" "dev_offset p addr + uint sz \<le> 0x80000"
proof -
  have pos: "0 \<le> uint (part_offset p)" "0 \<le> uint addr" "0 \<le> uint sz" by simp_all
  have "uint (part_offset p) + uint addr < 2147483648" using pos assms by linarith
  then show o: "dev_offset p addr = uint (part_offset p) + uint addr" by (intro dev_offset_eq) simp
  show "0 \<le> dev_offset p addr" "dev_offset p addr + uint sz \<le> 0x80000" using o pos assms by linarith+
qed

lemma l4_write_frame:
  assumes "hal_frame h" "l4_write h off buf sz c = Inr (r, c')" "8 * ((unat sz + 7) div 8) \<le> unat (x - l4_addr off)"
  shows "mem c' x = mem c x"
  using assms(2) program_loop_frame[OF assms(1) _ assms(3)]
  by (auto simp: l4_write_def Let_def cbind_eq_Inr split: if_splits)

lemma unat_diff_add: "unat (x - (a + b) :: u32) = (if unat b \<le> unat (x - a) then unat (x - a) - unat b else unat (x - a) + 2 ^ 32 - unat b)"
proof -
  have "x - (a + b) = x - a - b" by simp
  then show ?thesis by (simp only: unat_sub_if_size word_size) simp
qed

lemma outside_double_words:
  assumes "dev_offset p addr = uint (part_offset p) + uint addr" "uint addr + uint (sz :: u32) \<le> uint (part_len p)"
    and "uint (part_offset p) + uint (part_len p) \<le> 0x80000" "uint (part_offset p) mod 8 = 0" "uint (part_len p) mod 8 = 0"
    and "uint addr mod 8 = 0"
    and "unat (x - FLASH_START_ADRESS) < unat (part_offset p) \<or>
      unat (part_offset p) + unat (part_len p) \<le> unat (x - FLASH_START_ADRESS)"
  shows "8 * ((unat sz + 7) div 8) \<le> unat (x - l4_addr (dev_offset p addr))"
proof -
  define o' l a z where "o' = unat (part_offset p)" and "l = unat (part_len p)" and "a = unat addr" and "z = unat sz"
  have u: "uint (part_offset p) = int o'" "uint (part_len p) = int l" "uint addr = int a" "uint sz = int z"
    by (simp_all add: o'_def l_def a_def z_def)
  have n: "a + z \<le> l" "o' + l \<le> 0x80000" "o' mod 8 = 0" "l mod 8 = 0" "a mod 8 = 0"
    using assms(2-6) unfolding u by presburger+
  have z8: "a + 8 * ((z + 7) div 8) \<le> l" by (rule double_words_fit[OF n(1,5,4)])
  have "unat (word_of_int (dev_offset p addr) :: u32) = o' + a"
    using n unat_of_int_small[of "int o' + int a", where 'a = 32] unfolding assms(1) u by simp
  then have "unat (x - l4_addr (dev_offset p addr)) =
      (if o' + a \<le> unat (x - FLASH_START_ADRESS) then unat (x - FLASH_START_ADRESS) - (o' + a)
       else unat (x - FLASH_START_ADRESS) + 2 ^ 32 - (o' + a))"
    unfolding l4_addr_def unat_diff_add by simp
  then show ?thesis using assms(7) z8 n unfolding z_def[symmetric] o'_def[symmetric] l_def[symmetric]
    by (auto split: if_splits)
qed

section \<open>Erasing\<close>

text \<open>Pages \<open>p\<close> to \<open>p + n - 1\<close> of the 256 of the chip, erased.\<close>

definition erased :: "nat \<Rightarrow> nat \<Rightarrow> memory \<Rightarrow> memory" where
  "erased p n m = (\<lambda>x. let a = unat (x - FLASH_START_ADRESS) in if 2048 * p \<le> a \<and> a < 2048 * (p + n) then 0xFF else m x)"

text \<open>The HAL numbers the pages of bank 1 from 0 and those of bank 2 from 256.\<close>

definition hal_erases :: "hal \<Rightarrow> bool" where
  "hal_erases h \<longleftrightarrow> (\<forall>p n m.
     (unat p + unat n \<le> 128 \<longrightarrow> hal_erase h 1 p n m = (True, erased (unat p) (unat n) m)) \<and>
     (256 \<le> unat p \<and> unat p + unat n \<le> 384 \<longrightarrow>
        hal_erase h 2 p n m = (True, erased (unat p - 128) (unat n) m)))"

lemma erased_erased: "erased (p + n) k (erased p n m) = erased p (n + k) m"
  by (auto simp: erased_def Let_def fun_eq_iff)

definition pages :: "u32 \<Rightarrow> nat" where
  "pages sz = (unat sz + 2047) div 2048"

lemma ceil_page: "(n + 2047) div 2048 = (if n mod 2048 = 0 then n div 2048 else n div 2048 + (1::nat))"
proof (cases "n mod 2048 = 0")
  case True
  then show ?thesis by auto
next
  case False
  have "n = 2048 * (n div 2048) + n mod 2048" "n mod 2048 < 2048" by simp_all
  with False have "(n + 2047) div 2048 = n div 2048 + 1" by linarith
  then show ?thesis using False by simp
qed

lemma l4_pages:
  assumes "0 \<le> off" "off + uint sz \<le> 0x80000"
  shows "unat ((l4_addr off - FLASH_START_ADRESS) div FLASH_PAGE_SIZE) = nat off div 2048"
    "l4_addr off < 0x08040000 \<longleftrightarrow> nat off div 2048 < 128"
    "unat (if sz mod FLASH_PAGE_SIZE = 0 then sz div FLASH_PAGE_SIZE else sz div FLASH_PAGE_SIZE + 1) = pages sz"
    "nat off div 2048 + pages sz \<le> 256"
proof -
  note range = l4_in_range[OF assms]
  have s: "unat sz = nat (uint sz)" by simp
  have "0 \<le> uint sz" by simp
  then have le: "nat off + unat sz \<le> 0x80000" using assms s by linarith
  have "FLASH_START_ADRESS \<le> l4_addr off" using range(2) by (simp add: word_le_nat_alt FLASH_START_ADRESS_def)
  then have d: "unat (l4_addr off - FLASH_START_ADRESS) = nat off"
    using range(2) by (simp add: unat_sub FLASH_START_ADRESS_def)
  then show "unat ((l4_addr off - FLASH_START_ADRESS) div FLASH_PAGE_SIZE) = nat off div 2048"
    by (simp add: unat_div FLASH_PAGE_SIZE_def)
  show "l4_addr off < 0x08040000 \<longleftrightarrow> nat off div 2048 < 128"
    using range(2) by (simp add: word_less_nat_alt) linarith
  have m: "unat (sz mod FLASH_PAGE_SIZE) = unat sz mod 2048" "unat (sz div FLASH_PAGE_SIZE) = unat sz div 2048"
    by (simp_all add: unat_mod unat_div FLASH_PAGE_SIZE_def)
  have "sz mod FLASH_PAGE_SIZE = 0 \<longleftrightarrow> unat sz mod 2048 = 0" using m(1) by (metis unat_0 unat_eq_zero)
  moreover have "unat (sz div FLASH_PAGE_SIZE + 1) = unat sz div 2048 + 1"
    using m(2) range(3) by (simp add: unat_plus_if_size word_size)
  ultimately show "unat (if sz mod FLASH_PAGE_SIZE = 0 then sz div FLASH_PAGE_SIZE else sz div FLASH_PAGE_SIZE + 1) = pages sz"
    using m(2) ceil_page[of "unat sz"] by (simp add: pages_def)
  show "nat off div 2048 + pages sz \<le> 256" using le unfolding pages_def by linarith
qed

lemma l4_erase_eq:
  assumes "hal_erases h" "0 \<le> off" "off + uint sz \<le> 0x80000"
  shows "l4_erase h off sz c =
    Inr (sint sz, c\<lparr>mem := erased (nat off div 2048) (pages sz) (mem c), locked := True\<rparr>)"
proof -
  define P where "P = (l4_addr off - FLASH_START_ADRESS) div FLASH_PAGE_SIZE"
  define N where "N = (if sz mod FLASH_PAGE_SIZE = 0 then sz div FLASH_PAGE_SIZE else sz div FLASH_PAGE_SIZE + 1)"
  define p n where "p = nat off div 2048" and "n = pages sz"
  note facts = l4_pages[OF assms(2,3), folded P_def N_def p_def n_def]
  have bnd: "n \<le> 256" "p \<le> 256" using facts(4) by linarith+
  have PN: "unat (N + P) = n + p" using facts bnd by (simp add: unat_plus_if_size word_size)
  have P2: "unat (P + 128) = p + 128" using facts bnd by (simp add: unat_plus_if_size word_size)
  have PN2: "unat (N + (P + 128)) = n + (p + 128)" using facts P2 bnd by (simp add: unat_plus_if_size word_size)
  have e1: "unat q + unat k \<le> 128 \<Longrightarrow> hal_erase h 1 q k m = (True, erased (unat q) (unat k) m)"
    and e2: "256 \<le> unat q \<Longrightarrow> unat q + unat k \<le> 384 \<Longrightarrow> hal_erase h 2 q k m = (True, erased (unat q - 128) (unat k) m)" for q k m
    using assms(1) unfolding hal_erases_def by blast+
  have out: "\<not> l4_addr off + sz > FLASH_END_ADDRESS" by (rule l4_in_range(1)[OF assms(2,3)])
  note code = l4_erase_def Let_def P_def[symmetric] N_def[symmetric]
  consider "p < 128" "n + p \<le> 128" | "p < 128" "128 < n + p" | "128 \<le> p" by linarith
  then show ?thesis
  proof cases
    case 1
    then have "P < 128" "\<not> N + P > 128" "N + P \<le> 128" using facts(1) PN by (simp_all add: word_less_nat_alt word_le_nat_alt)
    moreover have "hal_erase h 1 P N (mem c) = (True, erased p n (mem c))" using e1[of P N] 1 facts by simp
    ultimately show ?thesis using 1 facts out by (simp add: code p_def n_def)
  next
    case 2
    then have "P < 128" "N + P > 128" "\<not> N + P > 256" using facts PN by (simp_all add: word_less_nat_alt word_le_nat_alt)
    have a: "unat (128 - P) = 128 - p" using 2 facts(1) by (simp add: unat_sub word_le_nat_alt)
    have b: "unat (N - (128 - P)) = n - (128 - p)" using 2 facts a by (subst unat_sub) (simp_all add: word_le_nat_alt)
    have x: "hal_erase h 1 P (128 - P) (mem c) = (True, erased p (128 - p) (mem c))" using e1[of P "128 - P"] 2 facts a by simp
    have "hal_erase h 2 256 (N - (128 - P)) (erased p (128 - p) (mem c)) =
      (True, erased 128 (n - (128 - p)) (erased p (128 - p) (mem c)))"
      using e2[of 256 "N - (128 - P)"] b facts(4) by simp
    moreover have "erased 128 (n - (128 - p)) (erased p (128 - p) (mem c)) = erased p n (mem c)"
      using erased_erased[of p "128 - p" "n - (128 - p)" "mem c"] 2 by simp
    ultimately show ?thesis using 2 x facts out \<open>P < 128\<close> \<open>N + P > 128\<close> \<open>\<not> N + P > 256\<close>
      by (simp add: code p_def n_def)
  next
    case 3
    then have "\<not> P + 128 < 128" "P + 128 \<ge> 256" "N + (P + 128) \<le> 384"
      using facts P2 PN2 by (simp_all add: word_less_nat_alt word_le_nat_alt)
    moreover have "hal_erase h 2 (P + 128) N (mem c) = (True, erased p n (mem c))"
      using e2[of "P + 128" N] P2 3 facts by simp
    ultimately show ?thesis using 3 facts out by (simp add: code p_def n_def)
  qed
qed

section \<open>A HAL on a memory\<close>

text \<open>A HAL that programs the double words of the flash and erases at once, for the examples.\<close>

definition ram_hal :: hal where
  "ram_hal = \<lparr>
     hal_program = (\<lambda>a d m. if double_word_at a
       then (True, \<lambda>x. if unat (x - a) < 8 then ucast (drop_bit (8 * unat (x - a)) d) else m x) else (False, m)),
     hal_erase = (\<lambda>b p n m. (True, erased (if b = 1 then unat p else unat p - 128) (unat n) m))\<rparr>"

definition blank_chip :: chip where
  "blank_chip = \<lparr>mem = (\<lambda>x. 0xFF), locked = True\<rparr>"

lemma pack_unpack: "pack 0 (map (\<lambda>j. ucast (drop_bit (8 * j) d)) [0..<8]) 0 = d"
proof (rule bit_word_eqI)
  fix n
  assume "n < LENGTH(64)"
  then have n: "n < 64" by simp
  then have d8: "n div 8 < 8" by (simp add: div_less_iff_less_mult)
  have "map (\<lambda>j. ucast (drop_bit (8 * j) d) :: byte) [0..<8] ! (n div 8) = ucast (drop_bit (8 * (n div 8)) d)"
    using d8 by (subst nth_map) (simp_all add: nth_upt del: upt_rec_numeral)
  then show "bit (pack 0 (map (\<lambda>j. ucast (drop_bit (8 * j) d)) [0..<8]) 0) n = bit d n"
    using n d8 by (simp add: bit_pack[OF n] bit_unsigned_iff bit_drop_bit_eq del: upt_rec_numeral)
qed

lemma ram_hal_laws: "hal_frame ram_hal" "hal_stores ram_hal" "hal_erases ram_hal"
proof -
  show "hal_frame ram_hal" by (simp add: hal_frame_def ram_hal_def)
  have "unat (a + word_of_nat j - a :: u32) = j" if "j < 8" for a j
    using that by (simp add: unat_of_nat)
  then have "map (\<lambda>j. snd (hal_program ram_hal a d m) (a + word_of_nat j)) [0..<8] =
      map (\<lambda>j. ucast (drop_bit (8 * j) d)) [0..<8]" if "double_word_at a" for a d m
    using that by (intro map_cong refl) (simp add: ram_hal_def)
  then have "read64 (snd (hal_program ram_hal a d m)) a = d" if "double_word_at a" for a d m
    unfolding read64_def using that by (simp only: pack_unpack)
  moreover have "fst (hal_program ram_hal a d m)" if "double_word_at a" for a d m using that by (simp add: ram_hal_def)
  ultimately show "hal_stores ram_hal" unfolding hal_stores_def by blast
  show "hal_erases ram_hal" by (auto simp: hal_erases_def ram_hal_def)
qed

section \<open>Properties\<close>

text \<open>C24. Through the flash abstraction layer, on the on-chip driver: a write inside a partition that does not
  report -1 has stored the data, whatever the HAL answers, since the driver compares every double word; it
  returns the size, locks the flash again, and reading the same range gives the bytes back.\<close>

theorem onchip_partition_roundtrip:
  assumes "hal_frame h" "find_device devs (flash_name p) = Some (stm32l4_onchip_flash h)" "flash_init_ok s"
    and "uint (part_offset p) + uint (part_len p) \<le> 0x80000" "uint addr + uint sz \<le> uint (part_len p)" "0 < sz"
    and "fal_partition_write devs (Some p) addr (Some buf) sz s = Inr (r, s')" "r \<noteq> -1" "unat sz \<le> length dst"
  shows "r = sint sz \<and> locked (flash s') \<and>
    fal_partition_read devs (Some p) addr (Some dst) sz s' = Inr (sint sz, overlay 0 (take (unat sz) buf) dst)"
proof -
  have pos: "0 \<le> uint (part_offset p)" "0 \<le> uint addr" "0 \<le> uint sz" by simp_all
  note in_range = onchip_range(2,3)[OF assms(4,5)]
  have "uint addr + uint sz < 4294967296" using pos assms(4,5) by linarith
  then have le: "\<not> addr + sz > part_len p" using bound_iff[of addr sz] assms(5) by simp
  obtain c' where w: "l4_write h (dev_offset p addr) buf sz (flash s) = Inr (r, c')" and s': "s' = s\<lparr>flash := c'\<rparr>"
    using assms(2,3,7) le
    by (auto simp: fal_partition_write_def fal_flash_device_find_def stm32l4_onchip_flash_def cbind_eq_Inr)
  from l4_write_back[OF assms(1) in_range assms(6) w assms(8,9)] show ?thesis
    using assms(2,3) le s' by (simp add: fal_partition_read_def fal_flash_device_find_def stm32l4_onchip_flash_def)
qed

lemma onchip_partition_roundtrip_witness:
  "\<exists>s'. fal_partition_write [stm32l4_onchip_flash ram_hal] (Some (partition_table_def ! 1)) 16 (Some [7, 8, 9]) 3
       ((fal_boot blank_chip)\<lparr>flash_init_ok := True\<rparr>) = Inr (3, s') \<and>
     fal_partition_read [stm32l4_onchip_flash ram_hal] (Some (partition_table_def ! 1)) 16 (Some [0, 0, 0]) 3 s' =
       Inr (3, [7, 8, 9])"
proof -
  define p where "p = partition_table_def ! 1"
  define s where "s = (fal_boot blank_chip)\<lparr>flash_init_ok := True\<rparr>"
  have p: "part_offset p = 64 * 1024" "part_len p = 448 * 1024" "flash_name p = lit ''onchip_flash''"
    by (simp_all add: p_def partition_table_def_def partition_def)
  have s: "flash_init_ok s" "flash s = blank_chip" by (simp_all add: s_def fal_boot_def)
  have f: "find_device [stm32l4_onchip_flash ram_hal] (flash_name p) = Some (stm32l4_onchip_flash ram_hal)"
    by (simp add: p same_name_def stm32l4_onchip_flash_def)
  have "\<exists>c'. l4_write ram_hal (dev_offset p 16) [7, 8, 9] 3 blank_chip = Inr (sint (3::u32), c')"
    using l4_write_stores[OF ram_hal_laws(1,2), of "dev_offset p 16" 3 "[7, 8, 9]" blank_chip]
    by (auto simp: dev_offset_def p blank_chip_def)
  then obtain c' where "l4_write ram_hal (dev_offset p 16) [7, 8, 9] 3 blank_chip = Inr (3, c')" by auto
  then have w: "fal_partition_write [stm32l4_onchip_flash ram_hal] (Some p) 16 (Some [7, 8, 9]) 3 s =
      Inr (3, s\<lparr>flash := c'\<rparr>)"
    using f s by (simp add: fal_partition_write_def fal_flash_device_find_def p stm32l4_onchip_flash_def)
  from onchip_partition_roundtrip[OF ram_hal_laws(1) f s(1) _ _ _ w, of "[0, 0, 0]"]
  have "fal_partition_read [stm32l4_onchip_flash ram_hal] (Some p) 16 (Some [0, 0, 0]) 3 (s\<lparr>flash := c'\<rparr>) =
      Inr (3, [7, 8, 9])"
    by (simp add: p overlay_def)
  with w show ?thesis unfolding p_def[symmetric] s_def[symmetric] by blast
qed

text \<open>C38. A write through the abstraction layer to a partition of the on-chip flash, at an address that is a multiple
  of eight and whose sum with the size does not wrap in 32 bits, changes no byte outside the partition, whether it
  succeeds or fails in the middle, although the driver programs whole double words and so more bytes than it was given;
  the partition starts and ends at multiples of eight, as those of the table do. All that is used of the HAL is that
  programming a double word changes no other byte.\<close>

theorem onchip_write_isolated:
  assumes "hal_frame h" "find_device devs (flash_name p) = Some (stm32l4_onchip_flash h)"
    and "uint (part_offset p) + uint (part_len p) \<le> 0x80000" "uint (part_offset p) mod 8 = 0" "uint (part_len p) mod 8 = 0"
    and "uint addr mod 8 = 0" "uint addr + uint sz < 2 ^ 32"
    and "fal_partition_write devs (Some p) addr (Some buf) sz s = Inr (r, s')"
    and "unat (x - FLASH_START_ADRESS) < unat (part_offset p) \<or>
      unat (part_offset p) + unat (part_len p) \<le> unat (x - FLASH_START_ADRESS)"
  shows "mem (flash s') x = mem (flash s) x"
proof (cases "addr + sz > part_len p")
  case True
  then show ?thesis using assms(8) by (simp add: fal_partition_write_def)
next
  case False
  then have le: "uint addr + uint sz \<le> uint (part_len p)" using bound_iff[OF assms(7)] by simp
  note in_part = onchip_range[OF assms(3) le]
  obtain c' where w: "l4_write h (dev_offset p addr) buf sz (flash s) = Inr (r, c')" and s': "s' = s\<lparr>flash := c'\<rparr>"
    using assms(2,8) False
    by (auto simp: fal_partition_write_def fal_flash_device_find_def stm32l4_onchip_flash_def cbind_eq_Inr split: if_splits)
  have "8 * ((unat sz + 7) div 8) \<le> unat (x - l4_addr (dev_offset p addr))"
    by (rule outside_double_words[OF in_part(1) le assms(3-6,9)])
  then show ?thesis using l4_write_frame[OF assms(1) w] by (simp add: s')
qed

text \<open>The partition \<open>app\<close> follows the partition of the boot loader, and a write of three bytes in the last double word
  of the latter ends with it.\<close>

lemma onchip_write_isolated_witness:
  "\<exists>r s'. fal_partition_write [stm32l4_onchip_flash ram_hal] (Some (partition_table_def ! 0)) 65528 (Some [1, 2, 3]) 3
       ((fal_boot blank_chip)\<lparr>flash_init_ok := True\<rparr>) = Inr (r, s') \<and> mem (flash s') 0x08010000 = 0xFF"
proof -
  define p where "p = partition_table_def ! 0"
  define s where "s = (fal_boot blank_chip)\<lparr>flash_init_ok := True\<rparr>"
  have p: "part_offset p = 0" "part_len p = 64 * 1024" "flash_name p = lit ''onchip_flash''"
    by (simp_all add: p_def partition_table_def_def partition_def)
  have s: "flash_init_ok s" "flash s = blank_chip" by (simp_all add: s_def fal_boot_def)
  have f: "find_device [stm32l4_onchip_flash ram_hal] (flash_name p) = Some (stm32l4_onchip_flash ram_hal)"
    by (simp add: p same_name_def stm32l4_onchip_flash_def)
  obtain c' where "l4_write ram_hal (dev_offset p 65528) [1, 2, 3] 3 blank_chip = Inr (3, c')"
    using l4_write_stores[OF ram_hal_laws(1,2), of "dev_offset p 65528" 3 "[1, 2, 3]" blank_chip]
    by (auto simp: dev_offset_def p blank_chip_def)
  then have w: "fal_partition_write [stm32l4_onchip_flash ram_hal] (Some p) 65528 (Some [1, 2, 3]) 3 s = Inr (3, s\<lparr>flash := c'\<rparr>)"
    using f s by (simp add: fal_partition_write_def fal_flash_device_find_def p stm32l4_onchip_flash_def)
  have "mem (flash (s\<lparr>flash := c'\<rparr>)) 0x08010000 = mem (flash s) 0x08010000"
    by (rule onchip_write_isolated[OF ram_hal_laws(1) f _ _ _ _ _ w]) (simp_all add: p FLASH_START_ADRESS_def)
  then show ?thesis using w s(2) by (auto simp: p_def s_def blank_chip_def)
qed

text \<open>With a HAL that programs erased double words at addresses that are multiples of eight, writing an erased range
  of the on-chip flash that starts at such an address succeeds, and the range reads back as the bytes written.\<close>

theorem l4_write_succeeds:
  assumes "hal_frame h" "hal_stores h" "0 \<le> off" "off + uint sz \<le> 0x80000" "0 < sz" "unat sz \<le> length buf"
    "\<forall>x. unat (x - l4_addr off) < 8 * ((unat sz + 7) div 8) \<longrightarrow> mem c x = 0xFF" "off mod 8 = 0"
  shows "\<exists>c'. l4_write h off buf sz c = Inr (sint sz, c') \<and> locked c' \<and>
    (\<forall>dst. unat sz \<le> length dst \<longrightarrow>
       l4_read off dst sz c' = Inr (sint sz, overlay 0 (take (unat sz) buf) dst))"
  using l4_write_stores[OF assms] .

lemma l4_write_succeeds_witness:
  "\<exists>c'. l4_write ram_hal 0x3FFF8 [1, 2, 3, 4, 5, 6, 7, 8, 9, 10] 10 blank_chip = Inr (10, c') \<and> locked c'"
  using l4_write_succeeds[OF ram_hal_laws(1,2), where off = "0x3FFF8" and sz = 10 and buf = "[1, 2, 3, 4, 5, 6, 7, 8, 9, 10]" and c = blank_chip]
  by (auto simp: blank_chip_def)

text \<open>Erasing the on-chip flash: for a range in the chip the code computes the bank and page numbers so
  that exactly the pages from that of the offset, as many as the size rounded up, are erased, across the
  two banks.\<close>

theorem l4_erase_pages:
  assumes "hal_erases h" "0 \<le> off" "off + uint sz \<le> 0x80000"
  shows "l4_erase h off sz c =
    Inr (sint sz, c\<lparr>mem := erased (nat off div 2048) (pages sz) (mem c), locked := True\<rparr>)"
  by (rule l4_erase_eq[OF assms])

lemma l4_erase_pages_witness:
  "l4_erase ram_hal 0x3F800 0x1000 blank_chip = Inr (4096, blank_chip\<lparr>mem := erased 127 2 (\<lambda>x. 0xFF)\<rparr>)"
  using l4_erase_pages[OF ram_hal_laws(3), where off = "0x3F800" and sz = "0x1000" and c = blank_chip]
  by (simp add: pages_def blank_chip_def)

text \<open>The erase operation reports the full size even when every HAL erase fails and nothing was erased:
  the status that the code records is not returned.\<close>

theorem l4_erase_hides_failure:
  assumes "\<forall>b p n m. hal_erase h b p n m = (False, m)" "0 \<le> off" "off + uint sz \<le> 0x80000"
  shows "l4_erase h off sz c = Inr (sint sz, c\<lparr>locked := True\<rparr>)"
  using l4_in_range(1)[OF assms(2,3)] assms(1) by (simp add: l4_erase_def Let_def)

lemma l4_erase_hides_failure_witness:
  "l4_erase (ram_hal\<lparr>hal_erase := \<lambda>b p n m. (False, m)\<rparr>) 0 0x800 blank_chip = Inr (2048, blank_chip)"
  using l4_erase_hides_failure[where h = "ram_hal\<lparr>hal_erase := \<lambda>b p n m. (False, m)\<rparr>" and off = 0 and sz = "0x800" and c = blank_chip]
  by (simp add: blank_chip_def)

end
