(* ===== verification/Easyflash_Port.thy ===== *)
theory Easyflash_Port
  imports Easyflash_Boot Fal_Port
begin

text \<open>
  The port of the environment store, \<open>ports/easyflash/ef_fal_port.c\<close>: the store lives in the partition \<open>easyflash\<close> of
  the flash abstraction layer, on the serial flash. The lock is left out. With a serial flash that works, the port is
  the interface the store was verified against.
\<close>

section \<open>The port\<close>

definition FAL_EF_PART_NAME :: "byte list" where "FAL_EF_PART_NAME = lit ''easyflash''"

definition port_default_env_set :: "(byte list \<times> byte list \<times> nat) list" where
  "port_default_env_set = [(lit ''boot_times'', lit ''0'', 0)]"

text \<open>\<open>ef_port_init\<close> gives the default variables and sets \<open>part\<close>.\<close>

definition ef_port_init :: "'f fal \<Rightarrow> (EfErrCode \<times> (byte list \<times> byte list \<times> nat) list \<times> fal_partition) cres" where
  "ef_port_init s = cbind (fal_partition_find FAL_EF_PART_NAME s) (\<lambda>part.
     case part of None \<Rightarrow> Inl Assert_Failed | Some part \<Rightarrow> Inr (EF_NO_ERR, port_default_env_set, part))"

text \<open>What \<open>fal_partition_read\<close> returns is not looked at.\<close>

definition ef_port_read :: "'f fal_flash_dev list \<Rightarrow> fal_partition option \<Rightarrow> nat \<Rightarrow> byte list \<Rightarrow> 'f fal \<Rightarrow> byte list cres" where
  "ef_port_read devs part addr buf s =
     cbind (fal_partition_read devs part (word_of_nat addr) (Some buf) (word_of_nat (length buf)) s) (\<lambda>(_, buf). Inr buf)"

definition ef_port_erase :: "'f fal_flash_dev list \<Rightarrow> fal_partition option \<Rightarrow> nat \<Rightarrow> nat \<Rightarrow> 'f fal \<Rightarrow> (EfErrCode \<times> 'f fal) cres" where
  "ef_port_erase devs part addr n s =
     (if addr mod SECTOR_SIZE \<noteq> 0 then Inl Assert_Failed
      else cbind (fal_partition_erase devs part (word_of_nat addr) (word_of_nat n) s) (\<lambda>(r, s).
           Inr (if r < 0 then EF_ERASE_ERR else EF_NO_ERR, s)))"

definition ef_port_write :: "'f fal_flash_dev list \<Rightarrow> fal_partition option \<Rightarrow> nat \<Rightarrow> byte list \<Rightarrow> 'f fal \<Rightarrow> (EfErrCode \<times> 'f fal) cres" where
  "ef_port_write devs part addr bs s =
     cbind (fal_partition_write devs part (word_of_nat addr) (Some bs) (word_of_nat (length bs)) s) (\<lambda>(r, s).
       Inr (if r < 0 then EF_WRITE_ERR else EF_NO_ERR, s))"

text \<open>What the locals of the store hold before they are written.\<close>

record locals =
  raw_bytes :: "nat \<Rightarrow> byte"
  local_node :: env_node_obj
  local_sector :: sector_meta_data

text \<open>The store on a partition; of the state \<open>fs\<close> of the abstraction layer only the flash changes.\<close>

definition ef_part_world ::
  "'f fal_flash_dev list \<Rightarrow> fal_partition option \<Rightarrow> (byte list \<times> byte list \<times> nat) list \<Rightarrow> locals \<Rightarrow> 'f fal \<Rightarrow> 'f ef_world" where
  "ef_part_world devs part defaults J fs = \<lparr>
     port_read = (\<lambda>addr buf f. ef_port_read devs part addr buf (fs\<lparr>flash := f\<rparr>)),
     port_write = (\<lambda>addr bs f. cbind (ef_port_write devs part addr bs (fs\<lparr>flash := f\<rparr>)) (\<lambda>(e, s). Inr (e, flash s))),
     port_erase = (\<lambda>addr n f. cbind (ef_port_erase devs part addr n (fs\<lparr>flash := f\<rparr>)) (\<lambda>(e, s). Inr (e, flash s))),
     default_env_set = defaults, raw = raw_bytes J, raw_node = local_node J, raw_sector = local_sector J\<rparr>"

text \<open>\<open>easyflash_init\<close> of \<open>easyflash.c\<close>: the port, then the store. The world is what the later calls use.\<close>

definition easyflash_init ::
  "nat \<Rightarrow> 'f fal_flash_dev list \<Rightarrow> locals \<Rightarrow> 'f fal \<Rightarrow> (EfErrCode \<times> 'f ef_world \<times> 'f ef) cres" where
  "easyflash_init fuel devs J fs =
     cbind (ef_port_init fs) (\<lambda>(result, defaults, part).
     let W = ef_part_world devs (Some part) defaults J fs; st = ef_boot (flash fs)
     in if result = EF_NO_ERR then cbind (ef_env_init fuel W st) (\<lambda>(result, st). Inr (result, W, st))
        else Inr (result, W, st))"

section \<open>A serial flash that works\<close>

text \<open>What SFUD documents of its three operations on a flash with sectors of 4096 bytes: a read gives the bytes, a write
  clears bits, an erase of a sector sets them.\<close>

definition CHIP_SIZE :: nat where "CHIP_SIZE = 16 * 1024 * 1024"

locale sfud_chip =
  fixes d :: "'f sfud" and cell :: "'f \<Rightarrow> nat \<Rightarrow> byte"
  assumes chip_reads: "a + n \<le> CHIP_SIZE \<Longrightarrow> sfud_read d (word_of_nat a) (word_of_nat n) f = bytes_at (cell f) a n"
    and chip_writes: "a + length bs \<le> CHIP_SIZE \<Longrightarrow> \<exists>f'. sfud_write d (word_of_nat a) bs f = (True, f') \<and> cell f' = burn a bs (cell f)"
    and chip_erases: "a mod 4096 = 0 \<Longrightarrow> a + 4096 \<le> CHIP_SIZE \<Longrightarrow>
      \<exists>f'. sfud_erase d (word_of_nat a) 4096 f = (True, f') \<and> cell f' = wipe a 4096 (cell f)"

text \<open>The system around the store: the table of devices holds the serial flash, the abstraction layer is initialised,
  and the arrays of the locals have their size.\<close>

definition ef_part :: fal_partition where "ef_part = partition ''easyflash'' ''nor_flash'' 0 (512 * 1024)"

definition system_world :: "'f fal_flash_dev list \<Rightarrow> locals \<Rightarrow> 'f fal \<Rightarrow> 'f ef_world" where
  "system_world devs J fs = ef_part_world devs (Some ef_part) port_default_env_set J fs"

locale ef_system = sfud_chip d cell for d :: "'f sfud" and cell +
  fixes devs :: "'f fal_flash_dev list" and J :: locals and fs :: "'f fal"
  assumes has_device: "find_device devs (lit ''nor_flash'') = Some (nor_flash0 d)"
    and fal_ready: "flash_init_ok fs"
    and local_name: "length (env_name (local_node J)) = EF_ENV_NAME_MAX"

lemma ef_part_fields: "part_offset ef_part = 0" "part_len ef_part = 0x80000" "flash_name ef_part = lit ''nor_flash''"
  by (simp_all add: ef_part_def partition_def)

lemma small_word:
  assumes "a + n \<le> PART_SIZE"
  shows "\<not> (word_of_nat a + word_of_nat n > (0x80000 :: u32))" "dev_offset ef_part (word_of_nat a) = int a"
    "unat (word_of_nat n :: u32) = n" "sint (word_of_nat n :: u32) \<ge> 0" "0 + word_of_int (int a) = (word_of_nat a :: u32)"
proof -
  have n: "a < 2 ^ 31" "n < 2 ^ 31" "a + n < 2 ^ 31" using assms by (simp_all add: PART_SIZE_def)
  have u: "unat (word_of_nat k :: u32) = k" if "k < 2 ^ 31" for k
    using that unfolding unsigned_of_nat by (simp add: take_bit_nat_eq_self)
  have "(word_of_nat a + word_of_nat n :: u32) = word_of_nat (a + n)" by simp
  then have "unat (word_of_nat a + word_of_nat n :: u32) = a + n" using u[OF n(3)] by metis
  then show "\<not> (word_of_nat a + word_of_nat n > (0x80000 :: u32))"
    using assms by (simp add: word_less_nat_alt PART_SIZE_def)
  show "unat (word_of_nat n :: u32) = n" by (rule u[OF n(2)])
  have s: "sint (word_of_nat k :: u32) = int k" if "k < 2 ^ 31" for k
    using that by (simp add: signed_of_nat signed_take_bit_int_eq_self)
  then show "sint (word_of_nat n :: u32) \<ge> 0" using n(2) by simp
  show "dev_offset ef_part (word_of_nat a) = int a" using s[OF n(1)] by (simp add: dev_offset_def ef_part_fields)
  show "0 + word_of_int (int a) = (word_of_nat a :: u32)" by simp
qed

context ef_system
begin

lemma device: "find_device devs (flash_name ef_part) = Some (nor_flash0 d)"
  by (simp add: ef_part_fields has_device)

lemma world_reads:
  assumes "addr + length buf \<le> PART_SIZE"
  shows "port_read (system_world devs J fs) addr buf f = Inr (bytes_at (cell f) addr (length buf))"
proof -
  have c: "addr + length buf \<le> CHIP_SIZE" using assms by (simp add: PART_SIZE_def CHIP_SIZE_def)
  show ?thesis
    using small_word[OF assms] fal_ready chip_reads[OF c]
    by (simp add: system_world_def ef_part_world_def ef_port_read_def fal_partition_read_def fal_flash_device_find_def device ef_part_fields(2)
        nor_flash0_def nor_read_def overlay_full)
qed

lemma world_writes:
  assumes "addr + length bs \<le> PART_SIZE"
  shows "\<exists>f'. port_write (system_world devs J fs) addr bs f = Inr (EF_NO_ERR, f') \<and> cell f' = burn addr bs (cell f)"
proof -
  have c: "addr + length bs \<le> CHIP_SIZE" using assms by (simp add: PART_SIZE_def CHIP_SIZE_def)
  obtain f' where "sfud_write d (word_of_nat addr) bs f = (True, f')" "cell f' = burn addr bs (cell f)"
    using chip_writes[OF c] by blast
  then show ?thesis
    using small_word[OF assms] fal_ready
    by (simp add: system_world_def ef_part_world_def ef_port_write_def fal_partition_write_def fal_flash_device_find_def device ef_part_fields(2)
        nor_flash0_def nor_write_def not_less)
qed

lemma world_erases:
  assumes "addr mod SECTOR_SIZE = 0" "addr + SECTOR_SIZE \<le> PART_SIZE"
  shows "\<exists>f'. port_erase (system_world devs J fs) addr SECTOR_SIZE f = Inr (EF_NO_ERR, f') \<and> cell f' = wipe addr SECTOR_SIZE (cell f)"
proof -
  have c: "addr mod 4096 = 0" "addr + 4096 \<le> CHIP_SIZE" using assms by (simp_all add: PART_SIZE_def CHIP_SIZE_def SECTOR_SIZE_def)
  obtain f' where "sfud_erase d (word_of_nat addr) 4096 f = (True, f')" "cell f' = wipe addr 4096 (cell f)"
    using chip_erases[OF c] by blast
  then show ?thesis
    using small_word[OF assms(2)] fal_ready assms(1)
    by (simp add: system_world_def ef_part_world_def ef_port_erase_def fal_partition_erase_def fal_flash_device_find_def device ef_part_fields(2)
        nor_flash0_def nor_erase_def not_less SECTOR_SIZE_def)
qed

end

sublocale ef_system \<subseteq> nor_port "system_world devs J fs" cell
proof
  show "length (env_name (raw_node (system_world devs J fs))) = EF_ENV_NAME_MAX" using local_name by (simp add: system_world_def ef_part_world_def)
qed (use world_reads world_writes world_erases in simp_all)

context ef_system
begin

lemma is_nor_port: "nor_port (system_world devs J fs) cell"
  by (rule nor_port_axioms)

end

section \<open>The start of the port\<close>

lemma ef_port_init_finds:
  assumes "part_init_ok fs" "partition_table fs = partition_table_def" "partition_table_len fs = 7"
  shows "ef_port_init fs = Inr (EF_NO_ERR, port_default_env_set, ef_part)"
proof -
  have "\<exists>n. partition_table_len fs = Suc (Suc (Suc n))" using assms(3) by (intro exI[of _ 4]) simp
  then obtain n where "partition_table_len fs = Suc (Suc (Suc n))" by blast
  then show ?thesis
    using assms(1,2)
    by (simp add: ef_port_init_def fal_partition_find_def FAL_EF_PART_NAME_def partition_table_def_def partition_def ef_part_def
        cstr_def lit_def)
qed

section \<open>A serial flash in memory\<close>

text \<open>For the examples: a chip whose cells are a function, and the system on it.\<close>

definition ram_sfud :: "(nat \<Rightarrow> byte) sfud" where
  "ram_sfud = \<lparr>sfud_find = Some, sfud_read = (\<lambda>a n f. bytes_at f (unat a) (unat n)),
     sfud_write = (\<lambda>a bs f. (True, burn (unat a) bs f)), sfud_erase = (\<lambda>a n f. (True, wipe (unat a) (unat n) f))\<rparr>"

definition zero_locals :: locals where
  "zero_locals = \<lparr>raw_bytes = (\<lambda>_. 0), local_node = zero_node, local_sector = zero_sector\<rparr>"

definition ram_fal :: "(nat \<Rightarrow> byte) fal" where
  "ram_fal = \<lparr>flash_init_ok = True, part_init_ok = True, fal_init_ok = True, partition_table = partition_table_def,
     partition_table_len = 7, flash = (\<lambda>_. 0xFF)\<rparr>"

lemma unat_small: "k < 2 ^ 32 \<Longrightarrow> unat (word_of_nat k :: u32) = k"
  unfolding unsigned_of_nat by (simp add: take_bit_nat_eq_self)

interpretation ram: ef_system ram_sfud "\<lambda>f. f" "[nor_flash0 ram_sfud]" zero_locals ram_fal
  by unfold_locales
    (auto simp: ram_sfud_def CHIP_SIZE_def unat_small nor_flash0_def same_name_def ram_fal_def zero_locals_def zero_node_def EF_ENV_NAME_MAX_def)

lemma ram_system: "ef_system ram_sfud (\<lambda>f. f) [nor_flash0 ram_sfud] zero_locals ram_fal"
  by (rule ram.ef_system_axioms)

end
