(* ===== verification/Easyflash_Api.thy ===== *)
theory Easyflash_Api
  imports Easyflash_Boot
begin

text \<open>
  The interface of the environment store to its clients: the calls on a state that represents a map, with results as
  values.
\<close>

section \<open>The map a state represents\<close>

text \<open>\<open>env_readable\<close> is what reading needs; \<open>represents\<close> also has a sector to spare and no collection pending.\<close>

definition env_readable :: "('s \<Rightarrow> nat \<Rightarrow> byte) \<Rightarrow> 's ef \<Rightarrow> (byte list \<rightharpoonup> byte list) \<Rightarrow> bool" where
  "env_readable cells st m \<longleftrightarrow> (\<exists>N. ef_inv (cells (flash_store st)) st N \<and> contents (live N) = m)"

definition represents :: "('s \<Rightarrow> nat \<Rightarrow> byte) \<Rightarrow> 's ef \<Rightarrow> (byte list \<rightharpoonup> byte list) \<Rightarrow> bool" where
  "represents cells st m \<longleftrightarrow> (\<exists>N. ready (cells (flash_store st)) st N \<and> contents (live N) = m)"

text \<open>No other name of the map has the 16 bits of the checksum that the cache compares.\<close>

definition clear_key :: "byte list \<Rightarrow> (byte list \<rightharpoonup> byte list) \<Rightarrow> bool" where
  "clear_key key m \<longleftrightarrow> (\<forall>k\<in>dom m. name_code k = name_code key \<longrightarrow> k = key)"

text \<open>The bytes that the nodes of the map take.\<close>

definition map_size :: "(byte list \<rightharpoonup> byte list) \<Rightarrow> nat" where
  "map_size m = (\<Sum>k\<in>dom m. node_size k (the (m k)))"

lemma represents_readable: "represents cells st m \<Longrightarrow> env_readable cells st m"
  by (auto simp: represents_def env_readable_def ready_def)

lemma clear_contents: "clear key L \<Longrightarrow> clear_key key (contents L)"
  unfolding clear_key_def clear_def contents_def by (force dest: map_of_SomeD)

lemma clear_live: "single (live N) \<Longrightarrow> clear_key key (contents (live N)) \<Longrightarrow> clear key (live N)"
  unfolding clear_key_def clear_def using contents_iff by fastforce

lemma live_from_sum: "sum_list (map (\<lambda>(a, k, v). node_size k v) (live_from b ns)) = span (filter is_live ns)"
  by (induction b ns rule: live_from.induct) (simp_all add: is_live_def)

lemma live_from_distinct: "distinct (map fst (live_from b ns))"
proof (induction b ns rule: live_from.induct)
  case (2 b k v s ns)
  have "b \<notin> fst ` set (live_from (b + node_size k v) ns)"
  proof
    assume "b \<in> fst ` set (live_from (b + node_size k v) ns)"
    then obtain k' v' where "(b, k', v') \<in> set (live_from (b + node_size k v) ns)" by force
    then show False using placed_bounds[of b k' v' ENV_WRITE "b + node_size k v" ns]
      by (simp add: live_from_iff node_size_def)
  qed
  then show ?case using 2 by auto
qed simp

lemma live_size_contents:
  assumes "store_ok c N" "single (live N)"
  shows "live_size N = map_size (contents (live N))"
proof -
  let ?L = "live N"
  have "span (N 0) \<le> 4080" using assms(1) by (simp add: store_ok_def sector_ok_def)
  then have bounds: "a < 4096" if "(a, k, v) \<in> set (live_from 16 (N 0))" for a k v
    using that placed_bounds[of a k v ENV_WRITE 16 "N 0"] by (simp add: live_from_iff node_size_def)
  have "4112 \<le> a" if "(a, k, v) \<in> set (live_from 4112 (N 4096))" for a k v
    using that placed_bounds[of a k v ENV_WRITE 4112 "N 4096"] by (simp add: live_from_iff)
  then have "fst ` set (live_from 16 (N 0)) \<inter> fst ` set (live_from 4112 (N 4096)) = {}" using bounds by fastforce
  then have "distinct (map fst ?L)" using live_from_distinct by (simp add: live_def)
  then have d: "distinct ?L" by (simp add: distinct_map)
  have "live_size N = sum_list (map (\<lambda>(a, k, v). node_size k v) ?L)" by (simp add: live_size_def live_def live_from_sum)
  also have "\<dots> = (\<Sum>(a, k, v)\<in>set ?L. node_size k v)" using d by (rule sum_list_distinct_conv_sum_set)
  also have "\<dots> = (\<Sum>x\<in>set ?L. node_size (fst (snd x)) (the (contents ?L (fst (snd x)))))"
    by (rule sum.cong) (auto simp: contents_iff[OF assms(2), THEN iffD2, OF exI])
  also have "\<dots> = (\<Sum>k\<in>dom (contents ?L). node_size k (the (contents ?L k)))"
  proof (rule sum.reindex_bij_betw)
    show "bij_betw (\<lambda>x. fst (snd x)) (set ?L) (dom (contents ?L))"
    proof (rule bij_betwI')
      fix x y assume xy: "x \<in> set ?L" "y \<in> set ?L"
      obtain a k v a' k' v' where e: "x = (a, k, v)" "y = (a', k', v')" by (cases x, cases y)
      have "a = a' \<and> v = v'" if "k = k'" using xy assms(2) that unfolding single_def e by blast
      then show "(fst (snd x) = fst (snd y)) = (x = y)" unfolding e by (cases "k = k'") simp_all
    next
      fix x assume x: "x \<in> set ?L"
      obtain a k v where e: "x = (a, k, v)" by (cases x)
      then have "contents ?L k = Some v" using x by (auto simp: contents_iff[OF assms(2)])
      then show "fst (snd x) \<in> dom (contents ?L)" by (simp add: e domI)
    next
      fix k assume "k \<in> dom (contents ?L)"
      then obtain v where "contents ?L k = Some v" by blast
      then obtain a where "(a, k, v) \<in> set ?L" by (auto simp: contents_iff[OF assms(2)])
      then show "\<exists>x\<in>set ?L. k = fst (snd x)" by (intro bexI) simp_all
    qed
  qed
  finally show ?thesis by (simp add: map_size_def)
qed

section \<open>The calls\<close>

context nor_port
begin

lemma get_total:
  assumes "env_readable cells st m" "clear_key key m" "0 \<notin> set key" "length key \<le> 32"
  shows "\<exists>st'. ef_get_env_blob W key buf st = Inr (blob (m key) buf, st') \<and> flash_store st' = flash_store st \<and>
    env_readable cells st' m \<and> (represents cells st m \<longrightarrow> represents cells st' m)"
proof -
  have *: "\<exists>st'. ef_get_env_blob W key buf st = Inr (blob (m key) buf, st') \<and> flash_store st' = flash_store st \<and> env_readable cells st' m \<and>
      (ready (cells (flash_store st)) st N \<longrightarrow> represents cells st' m)"
    if N: "ef_inv (cells (flash_store st)) st N" "contents (live N) = m" for N
  proof -
    have "single (live N)" using N(1) by (simp add: ef_inv_def)
    then have c: "clear key (live N)" using clear_live assms(2) N(2) by blast
    have "wp (\<lambda>_. False) (ef_get_env_blob W key buf) (\<lambda>x st'. x = blob (m key) buf \<and> flash_store st' = flash_store st \<and>
        env_readable cells st' m \<and> (ready (cells (flash_store st)) st N \<longrightarrow> represents cells st' m)) st"
    proof (rule wp_get_env[OF N(1)[folded mem_def] c assms(3,4)])
      fix t assume i: "ef_inv (mem st) (st\<lparr>env_cache_table := t\<rparr>) N"
      then have "env_readable cells (st\<lparr>env_cache_table := t\<rparr>) m" using N(2) by (auto simp: env_readable_def mem_def)
      moreover have "represents cells (st\<lparr>env_cache_table := t\<rparr>) m" if "ready (cells (flash_store st)) st N"
        using that i N(2) by (auto simp: represents_def ready_def mem_def)
      ultimately show "blob (contents (live N) key) buf = blob (m key) buf \<and> flash_store (st\<lparr>env_cache_table := t\<rparr>) = flash_store st \<and>
        env_readable cells (st\<lparr>env_cache_table := t\<rparr>) m \<and> (ready (cells (flash_store st)) st N \<longrightarrow> represents cells (st\<lparr>env_cache_table := t\<rparr>) m)"
        using N(2) by simp
    qed
    then show ?thesis unfolding wp_total by blast
  qed
  show ?thesis
  proof (cases "represents cells st m")
    case True
    then obtain N where N: "ready (cells (flash_store st)) st N" "contents (live N) = m" by (auto simp: represents_def)
    then have "ef_inv (cells (flash_store st)) st N" by (simp add: ready_def)
    from *[OF this N(2)] N(1) show ?thesis by blast
  next
    case False
    then show ?thesis using assms(1) * by (auto simp: env_readable_def)
  qed
qed

lemma set_total:
  assumes "represents cells st m" "clear_key key m" "fits key value" "0 \<notin> set key"
  shows "\<exists>r st'. ef_set_env_blob W key (Some value) st = Inr (r, st') \<and>
    (r = EF_NO_ERR \<and> represents cells st' (m(key \<mapsto> value)) \<or>
     r = EF_ENV_FULL \<and> env_readable cells st' m \<and> 4024 < map_size m + node_size key value)"
proof -
  obtain N where N: "ready (cells (flash_store st)) st N" "contents (live N) = m" using assms(1) by (auto simp: represents_def)
  then have s: "single (live N)" "store_ok (cells (flash_store st)) N" by (simp_all add: ready_def ef_inv_def)
  then have c: "clear key (live N)" using clear_live assms(2) N(2) by blast
  have "wp (\<lambda>_. False) (ef_set_env_blob W key (Some value)) (\<lambda>r st'. r = EF_NO_ERR \<and> represents cells st' (m(key \<mapsto> value)) \<or>
     r = EF_ENV_FULL \<and> env_readable cells st' m \<and> 4024 < map_size m + node_size key value) st"
  proof (rule wp_set_env[OF N(1)[folded mem_def] c assms(3,4)])
    fix st' N' assume "ready (mem st') st' N'" "contents (live N') = (contents (live N))(key \<mapsto> value)"
    then show "EF_NO_ERR = EF_NO_ERR \<and> represents cells st' (m(key \<mapsto> value)) \<or>
     EF_NO_ERR = EF_ENV_FULL \<and> env_readable cells st' m \<and> 4024 < map_size m + node_size key value"
      using N(2) by (auto simp: represents_def mem_def)
  next
    fix st' N' assume "ef_inv (mem st') st' N'" "contents (live N') = contents (live N)" "4024 < live_size N + node_size key value"
    then show "EF_ENV_FULL = EF_NO_ERR \<and> represents cells st' (m(key \<mapsto> value)) \<or>
     EF_ENV_FULL = EF_ENV_FULL \<and> env_readable cells st' m \<and> 4024 < map_size m + node_size key value"
      using N(2) live_size_contents[OF s(2,1)] by (auto simp: env_readable_def mem_def)
  qed
  then show ?thesis unfolding wp_total by blast
qed

lemma delete_total:
  assumes "represents cells st m" "clear_key key m" "0 \<notin> set key" "length key \<le> 32"
  shows "\<exists>st'. ef_del_env W key st = Inr (if m key = None then EF_ENV_NAME_ERR else EF_NO_ERR, st') \<and>
    represents cells st' (m(key := None))"
proof -
  obtain N where N: "ready (cells (flash_store st)) st N" "contents (live N) = m" using assms(1) by (auto simp: represents_def)
  then have i: "single (live N)" "ef_inv (mem st) st N" "known (mem st) N" "spare N" "\<not> gc_request st" "init_ok st"
    by (simp_all add: ready_def ef_inv_def mem_def)
  then have c: "clear key (live N)" using clear_live assms(2) N(2) by blast
  have "wp (\<lambda>_. False) (del_env W key) (\<lambda>r st'. r = (if m key = None then EF_ENV_NAME_ERR else EF_NO_ERR) \<and>
      represents cells st' (m(key := None))) st"
  proof (rule wp_delete[OF i(2) c assms(3,4)])
    fix st' N' assume "ef_inv (mem st') st' N'" "contents (live N') = (contents (live N))(key := None)"
      "\<And>x. (N' x = []) = (N x = [])" "gc_request st' = gc_request st" "known (mem st) N \<Longrightarrow> known (mem st') N'"
    then have "ready (mem st') st' N'" using i(3-5) by (simp add: ready_def spare_def)
    then have "represents cells st' (m(key := None))"
      using N(2) \<open>contents (live N') = _\<close> by (auto simp: represents_def mem_def)
    then show "(if contents (live N) key = None then EF_ENV_NAME_ERR else EF_NO_ERR) =
          (if m key = None then EF_ENV_NAME_ERR else EF_NO_ERR) \<and> represents cells st' (m(key := None))"
      using N(2) by simp
  qed
  then show ?thesis using i(6) by (auto simp: wp_total ef_del_env_def ebind_def eget_def)
qed

lemma collect_total:
  assumes "ef_inv (cells (flash_store st)) st N" "known (cells (flash_store st)) N" "spare N" "gc_request st"
  shows "\<exists>st'. gc_collect W st = Inr ((), st') \<and> represents cells st' (contents (live N)) \<and>
    (\<exists>N'. ready (cells (flash_store st')) st' N' \<and> pristine (cells (flash_store st')) N' \<and> contents (live N') = contents (live N))"
proof -
  have "wp (\<lambda>_. False) (gc_collect W) (\<lambda>_ st'. represents cells st' (contents (live N)) \<and>
    (\<exists>N'. ready (cells (flash_store st')) st' N' \<and> pristine (cells (flash_store st')) N' \<and> contents (live N') = contents (live N))) st"
  proof (rule wp_gc_collect[OF assms[folded mem_def]])
    fix st' N' assume N': "ef_inv (mem st') st' N'" "\<not> gc_request st'" "contents (live N') = contents (live N)" "spare N'" "pristine (mem st') N'"
    then have "ready (cells (flash_store st')) st' N'" using pristine_known by (simp add: ready_def mem_def)
    then show "represents cells st' (contents (live N)) \<and>
      (\<exists>N'. ready (cells (flash_store st')) st' N' \<and> pristine (cells (flash_store st')) N' \<and> contents (live N') = contents (live N))"
      using N'(3,5) by (auto simp: represents_def mem_def)
  qed
  then show ?thesis unfolding wp_total by simp
qed

lemma restart_total:
  assumes "represents cells st m"
  shows "\<exists>st'. ef_env_init (Suc fuel) W (ef_boot (flash_store st)) = Inr (EF_NO_ERR, st') \<and> represents cells st' m \<and>
    flash_store st' = flash_store st"
proof -
  obtain N where N: "ready (cells (flash_store st)) st N" "contents (live N) = m" using assms by (auto simp: represents_def)
  have f: "flash_store (ef_boot s) = s" for s :: 's by (simp add: ef_boot_def)
  have "wp (\<lambda>_. False) (ef_env_init (Suc fuel) W) (\<lambda>r st'. r = EF_NO_ERR \<and> represents cells st' m \<and> flash_store st' = flash_store st)
      (ef_boot (flash_store st))"
  proof (rule wp_init_used[OF fresh_boot])
    show "flash_ok (mem (ef_boot (flash_store st))) N" using ready_flash[OF N(1)] by (simp add: mem_def f)
    fix st' assume "ready (mem st') st' N" "flash_store st' = flash_store (ef_boot (flash_store st))"
    then show "EF_NO_ERR = EF_NO_ERR \<and> represents cells st' m \<and> flash_store st' = flash_store st"
      using N(2) by (auto simp: represents_def mem_def f)
  qed
  then show ?thesis unfolding wp_total by blast
qed

lemma first_start_total:
  assumes "headless (cells s) 0" "headless (cells s) 4096" "default_env_set W = [(k, v, 0)]" "fits k (cstr v)"
    and "node_size k (cstr v) < 4080" "0 \<notin> set k"
  shows "\<exists>st'. ef_env_init (Suc fuel) W (ef_boot s) = Inr (EF_NO_ERR, st') \<and> represents cells st' [k \<mapsto> cstr v]"
proof -
  have "wp (\<lambda>_. False) (ef_env_init (Suc fuel) W) (\<lambda>r st'. r = EF_NO_ERR \<and> represents cells st' [k \<mapsto> cstr v]) (ef_boot s)"
  proof (rule wp_init_blank[OF fresh_boot _ _ assms(3-6)])
    show "headless (mem (ef_boot s)) 0" "headless (mem (ef_boot s)) 4096" using assms(1,2) by (simp_all add: mem_def ef_boot_def)
    fix st' N assume "ready (mem st') st' N" "contents (live N) = [k \<mapsto> cstr v]"
    then show "EF_NO_ERR = EF_NO_ERR \<and> represents cells st' [k \<mapsto> cstr v]" by (auto simp: represents_def mem_def)
  qed
  then show ?thesis unfolding wp_total by blast
qed

end

end
