(* ===== verification/Easyflash_Spec.thy ===== *)
theory Easyflash_Spec
  imports Easyflash_Port Easyflash_Api
begin

text \<open>
  The environment store on the serial flash of the project as a map from names to values: reading, setting, deleting,
  collecting, restarting. \<open>represents\<close> relates a state with its flash to the map.
\<close>

section \<open>Examples\<close>

definition ram_world :: "(nat \<Rightarrow> byte) ef_world" where
  "ram_world = system_world [nor_flash0 ram_sfud] zero_locals ram_fal"

text \<open>An empty store: two formatted sectors and empty caches.\<close>

definition ram_empty :: "(nat \<Rightarrow> byte) ef" where
  "ram_empty = (cleared (ef_boot (formatted 4096 (formatted 0 (\<lambda>_. 0xFF)))))\<lparr>in_recovery_check := False, init_ok := True\<rparr>"

lemma ready_empty: "ready (flash_store ram_empty) ram_empty (\<lambda>_. [])"
proof -
  have e: "flash_store ram_empty = formatted 4096 (formatted 0 (\<lambda>_. 0xFF))" by (simp add: ram_empty_def cleared_def ef_boot_def)
  have n: "no_entries (cleared (ef_boot (formatted 4096 (formatted 0 (\<lambda>_. 0xFF)))))" by (intro cleared_no_entries fresh_boot)
  have k: "known (flash_store ram_empty) (\<lambda>_. [])" using both_fields(2) by (simp add: e known_def)
  have f: "\<not> gc_request ram_empty" "\<not> last_is_complete_del ram_empty" "\<not> in_recovery_check ram_empty" "init_ok ram_empty"
    "length (env_name (set_env_node ram_empty)) = 32" "sector_cache_table ram_empty = sector_cache_table (cleared (ef_boot (formatted 4096 (formatted 0 (\<lambda>_. 0xFF)))))"
    "env_cache_table ram_empty = env_cache_table (cleared (ef_boot (formatted 4096 (formatted 0 (\<lambda>_. 0xFF)))))"
    by (simp_all add: ram_empty_def cleared_def ef_boot_def zero_node_def EF_ENV_NAME_MAX_def)
  show ?thesis
    using both_formatted both_tidy k f no_sectors[OF n] no_names[OF n]
    by (simp add: ready_def ef_inv_def e settled_def single_def live_def spare_def)
qed

lemma represents_empty: "represents (\<lambda>f. f) ram_empty Map.empty"
  unfolding represents_def using ready_empty by (intro exI conjI) (assumption, simp add: live_def contents_def)

lemma boot_times_ok: "0 \<notin> set (lit ''boot_times'')" "length (lit ''boot_times'') \<le> 32" "fits (lit ''boot_times'') (lit ''7'')"
  by (simp_all add: lit_def fits_def node_size_def)

text \<open>An empty store in which a variable has been set.\<close>

lemma ram_with: "\<exists>st. represents (\<lambda>f. f) st [lit ''boot_times'' \<mapsto> lit ''7'']"
proof -
  have "\<exists>r st'. ef_set_env_blob ram_world (lit ''boot_times'') (Some (lit ''7'')) ram_empty = Inr (r, st') \<and>
    (r = EF_NO_ERR \<and> represents (\<lambda>f. f) st' (Map.empty(lit ''boot_times'' \<mapsto> lit ''7'')) \<or>
     r = EF_ENV_FULL \<and> env_readable (\<lambda>f. f) st' Map.empty \<and> 4024 < map_size Map.empty + node_size (lit ''boot_times'') (lit ''7''))"
    unfolding ram_world_def
    by (rule nor_port.set_total[OF ef_system.is_nor_port[OF ram_system] represents_empty])
      (simp_all add: boot_times_ok clear_key_def)
  then show ?thesis by (auto simp: map_size_def node_size_def)
qed

lemma headless_FF: "headless (\<lambda>_. 0xFF) sec"
proof -
  have "le_word 4 (bytes_at (\<lambda>_. 0xFF) sec 16) = 0xFFFFFFFF" by (rule le_word_FF) simp
  then show ?thesis by (simp add: headless_def SECTOR_MAGIC_WORD_def)
qed

section \<open>Properties\<close>

text \<open>C4. Setting a variable. On a serial flash that works, a call of \<open>ef_set_env_blob\<close> with a name and a value that fit a
  node returns, whatever collections it has to run: either \<open>EF_NO_ERR\<close>, and the flash and the caches represent the
  map with the new value, with one sector free again; or \<open>EF_ENV_FULL\<close>, only if the nodes of the map and the new one
  take more than 4024 bytes, and then every variable is still read with its old value.\<close>

theorem ef_set_updates:
  assumes "ef_system d cell devs J fs" "represents cell st m" "clear_key key m" "fits key value" "0 \<notin> set key"
  shows "\<exists>r st'. ef_set_env_blob (system_world devs J fs) key (Some value) st = Inr (r, st') \<and>
    (r = EF_NO_ERR \<and> represents cell st' (m(key \<mapsto> value)) \<or>
     r = EF_ENV_FULL \<and> env_readable cell st' m \<and> 4024 < map_size m + node_size key value)"
  by (rule nor_port.set_total[OF ef_system.is_nor_port[OF assms(1)] assms(2-5)])

lemma ef_set_updates_witness:
  "\<exists>st'. ef_set_env_blob ram_world (lit ''boot_times'') (Some (lit ''7'')) ram_empty = Inr (EF_NO_ERR, st') \<and>
     represents (\<lambda>f. f) st' [lit ''boot_times'' \<mapsto> lit ''7'']"
  using ef_set_updates[OF ram_system represents_empty, of "lit ''boot_times''" "lit ''7''"] boot_times_ok
  by (auto simp: clear_key_def map_size_def node_size_def ram_world_def)

text \<open>C12. Reading a variable. \<open>ef_get_env_blob\<close> gives as much of the value the map has as the buffer takes, its length, and
  leaves the rest of the buffer; for a name that is not in the map it writes neither the buffer nor the length. The
  flash is not changed and the map stays the same, whether the cache knew the name or the sectors were searched.\<close>

theorem ef_get_reads:
  assumes "ef_system d cell devs J fs" "env_readable cell st m" "clear_key key m" "0 \<notin> set key" "length key \<le> 32"
  shows "\<exists>st'. ef_get_env_blob (system_world devs J fs) key buf st = Inr (blob (m key) buf, st') \<and>
    flash_store st' = flash_store st \<and> env_readable cell st' m \<and> (represents cell st m \<longrightarrow> represents cell st' m)"
  by (rule nor_port.get_total[OF ef_system.is_nor_port[OF assms(1)] assms(2-5)])

lemma ef_get_reads_witness:
  "\<exists>st st'. represents (\<lambda>f. f) st [lit ''boot_times'' \<mapsto> lit ''7''] \<and>
     ef_get_env_blob ram_world (lit ''boot_times'') [0, 0, 0] st = Inr ((1, Some 1, [55, 0, 0]), st')"
proof -
  obtain st where st: "represents (\<lambda>f. f) st [lit ''boot_times'' \<mapsto> lit ''7'']" using ram_with by blast
  from ef_get_reads[where buf = "[0, 0, 0]" and key = "lit ''boot_times''", OF ram_system represents_readable[OF st]] boot_times_ok
  show ?thesis using st by (auto simp: clear_key_def ram_world_def blob_def lit_def)
qed

text \<open>C14. Deleting a variable. \<open>ef_del_env\<close> returns \<open>EF_NO_ERR\<close> and removes the variable from the map, or returns
  \<open>EF_ENV_NAME_ERR\<close> when there is none; no other variable changes.\<close>

theorem ef_del_removes:
  assumes "ef_system d cell devs J fs" "represents cell st m" "clear_key key m" "0 \<notin> set key" "length key \<le> 32"
  shows "\<exists>st'. ef_del_env (system_world devs J fs) key st = Inr (if m key = None then EF_ENV_NAME_ERR else EF_NO_ERR, st') \<and>
    represents cell st' (m(key := None))"
  by (rule nor_port.delete_total[OF ef_system.is_nor_port[OF assms(1)] assms(2-5)])

lemma ef_del_removes_witness:
  "\<exists>st st'. represents (\<lambda>f. f) st [lit ''boot_times'' \<mapsto> lit ''7''] \<and>
     ef_del_env ram_world (lit ''boot_times'') st = Inr (EF_NO_ERR, st') \<and> represents (\<lambda>f. f) st' Map.empty"
proof -
  obtain st where st: "represents (\<lambda>f. f) st [lit ''boot_times'' \<mapsto> lit ''7'']" using ram_with by blast
  from ef_del_removes[where key = "lit ''boot_times''", OF ram_system st] boot_times_ok
  show ?thesis using st by (auto simp: clear_key_def ram_world_def)
qed

text \<open>C13. A restart. When the station starts again on a flash that a store was left on, with its RAM lost, \<open>ef_env_init\<close>
  ends with \<open>EF_NO_ERR\<close>, changes nothing on the flash, and every variable is there with its value.\<close>

theorem ef_restart_keeps:
  assumes "ef_system d cell devs J fs" "represents cell st m"
  shows "\<exists>st'. ef_env_init (Suc fuel) (system_world devs J fs) (ef_boot (flash_store st)) = Inr (EF_NO_ERR, st') \<and>
    represents cell st' m \<and> flash_store st' = flash_store st"
  by (rule nor_port.restart_total[OF ef_system.is_nor_port[OF assms(1)] assms(2)])

lemma ef_restart_keeps_witness:
  "\<exists>st st'. represents (\<lambda>f. f) st [lit ''boot_times'' \<mapsto> lit ''7''] \<and>
     ef_env_init 1 ram_world (ef_boot (flash_store st)) = Inr (EF_NO_ERR, st') \<and> represents (\<lambda>f. f) st' [lit ''boot_times'' \<mapsto> lit ''7'']"
proof -
  obtain st where st: "represents (\<lambda>f. f) st [lit ''boot_times'' \<mapsto> lit ''7'']" using ram_with by blast
  from ef_restart_keeps[OF ram_system st, where fuel = 0] show ?thesis using st by (auto simp: ram_world_def)
qed

text \<open>C39. The first start. On a flash without the sector headers, \<open>easyflash_init\<close> finds its partition in the configured
  table, formats both sectors, creates the default variable and ends with \<open>EF_NO_ERR\<close>: the store holds
  \<open>boot_times\<close> with the value 0 and nothing else.\<close>

theorem easyflash_first_start:
  assumes "ef_system d cell devs J fs" "part_init_ok fs" "partition_table fs = partition_table_def" "partition_table_len fs = 7"
    and "headless (cell (flash fs)) 0" "headless (cell (flash fs)) 4096"
  shows "\<exists>st. easyflash_init (Suc fuel) devs J fs = Inr (EF_NO_ERR, system_world devs J fs, st) \<and>
    represents cell st [lit ''boot_times'' \<mapsto> lit ''0'']"
proof -
  have c: "cstr (lit ''0'') = lit ''0''" by (simp add: cstr_def lit_def)
  have d: "default_env_set (system_world devs J fs) = [(lit ''boot_times'', lit ''0'', 0)]"
    by (simp add: system_world_def ef_part_world_def port_default_env_set_def)
  from nor_port.first_start_total[OF ef_system.is_nor_port[OF assms(1)] assms(5,6) d, of fuel]
  obtain st where "ef_env_init (Suc fuel) (system_world devs J fs) (ef_boot (flash fs)) = Inr (EF_NO_ERR, st)"
    "represents cell st [lit ''boot_times'' \<mapsto> lit ''0'']"
    using boot_times_ok by (auto simp: c fits_def node_size_def)
  then show ?thesis
    by (simp add: easyflash_init_def ef_port_init_finds[OF assms(2-4)] Let_def system_world_def)
qed

lemma easyflash_first_start_witness:
  "\<exists>st. easyflash_init 1 [nor_flash0 ram_sfud] zero_locals ram_fal = Inr (EF_NO_ERR, ram_world, st) \<and>
    represents (\<lambda>f. f) st [lit ''boot_times'' \<mapsto> lit ''0'']"
  using easyflash_first_start[OF ram_system, where fuel = 0] headless_FF by (auto simp: ram_fal_def ram_world_def)

text \<open>C11. The collection. With a sector to spare, \<open>gc_collect\<close> moves every live variable and loses none, whatever was
  deleted before; afterwards no request is pending, a sector is empty, no sector is marked dirty and every node left
  on the flash is live.\<close>

theorem gc_collect_keeps:
  assumes "ef_system d cell devs J fs" "ef_inv (cell (flash_store st)) st N" "known (cell (flash_store st)) N" "spare N" "gc_request st"
  shows "\<exists>st'. gc_collect (system_world devs J fs) st = Inr ((), st') \<and> represents cell st' (contents (live N)) \<and>
    (\<exists>N'. ready (cell (flash_store st')) st' N' \<and> pristine (cell (flash_store st')) N' \<and> contents (live N') = contents (live N))"
  by (rule nor_port.collect_total[OF ef_system.is_nor_port[OF assms(1)] assms(2-5)])

lemma gc_collect_keeps_witness:
  "\<exists>st'. gc_collect ram_world (ram_empty\<lparr>gc_request := True\<rparr>) = Inr ((), st') \<and> represents (\<lambda>f. f) st' Map.empty"
proof -
  have "ef_inv (flash_store (ram_empty\<lparr>gc_request := True\<rparr>)) (ram_empty\<lparr>gc_request := True\<rparr>) (\<lambda>_. [])"
    "known (flash_store (ram_empty\<lparr>gc_request := True\<rparr>)) (\<lambda>_. [])" "spare (\<lambda>_. [])"
    using ready_empty by (simp_all add: ready_def ef_inv_def)
  then show ?thesis
    using gc_collect_keeps[where st = "ram_empty\<lparr>gc_request := True\<rparr>" and N = "\<lambda>_. []", OF ram_system]
    by (auto simp: ram_world_def live_def contents_def)
qed

text \<open>A status only advances. The table that \<open>set_status\<close> gives for a state is one byte, and when that byte is written
  over the byte of any earlier state, which on a NOR flash clears bits and sets none, \<open>get_status\<close> reads the later of
  the two states.\<close>

theorem status_advances:
  assumes "0 < k" "k < n" "n \<le> 9"
  shows "\<exists>table. set_status n k = (Some 0, table) \<and> get_status [b AND table ! 0] n = max (get_status [b] n) k \<and>
    get_status [table ! 0] n = k"
proof -
  have "0 < (n + 7) div 8" using assms by simp
  then show ?thesis using set_status_small[OF assms] get_status_write[OF assms] get_status_byte[OF assms] by simp
qed

lemma status_advances_witness:
  "\<exists>table. set_status ENV_STATUS_NUM ENV_PRE_DELETE = (Some 0, table) \<and>
     get_status [status_byte ENV_WRITE AND table ! 0] ENV_STATUS_NUM = ENV_PRE_DELETE"
  using status_advances[of ENV_PRE_DELETE ENV_STATUS_NUM "status_byte ENV_WRITE"] get_status_byte[of ENV_WRITE ENV_STATUS_NUM]
  by (auto simp: ef_states)

end
