(* ===== verification/Wifi_Config.thy ===== *)
theory Wifi_Config
  imports Kservice_Format
begin

text \<open>
  The persistent Wi-Fi configuration, \<open>ports/wifi/wifi_config.c\<close>: the three operations the Wi-Fi manager
  is given (read, length, write), over the environment store of EasyFlash, in the variant for the store before version
  4: as base64 text. The variant for the store the project ships is in \<open>Wifi_Store\<close>.
\<close>

section \<open>Base64\<close>

definition base64_table :: "byte list" where
  "base64_table = lit ''ABCDEFGHIJKLMNOPQRSTUVWXYZabcdefghijklmnopqrstuvwxyz0123456789+/''"

definition base64_decode_table :: "byte list" where
  "base64_decode_table =
    [0x00, 0x00, 0x00, 0x00, 0x00, 0x00, 0x00, 0x00, 0x00, 0x00, 0x00, 0x00, 0x00, 0x00, 0x00, 0x00,
     0x00, 0x00, 0x00, 0x00, 0x00, 0x00, 0x00, 0x00, 0x00, 0x00, 0x00, 0x00, 0x00, 0x00, 0x00, 0x00,
     0x00, 0x00, 0x00, 0x00, 0x00, 0x00, 0x00, 0x00, 0x00, 0x00, 0x00, 0x3E, 0x00, 0x00, 0x00, 0x3F,
     0x34, 0x35, 0x36, 0x37, 0x38, 0x39, 0x3A, 0x3B, 0x3C, 0x3D, 0x00, 0x00, 0x00, 0x00, 0x00, 0x00,
     0x00, 0x00, 0x01, 0x02, 0x03, 0x04, 0x05, 0x06, 0x07, 0x08, 0x09, 0x0A, 0x0B, 0x0C, 0x0D, 0x0E,
     0x0F, 0x10, 0x11, 0x12, 0x13, 0x14, 0x15, 0x16, 0x17, 0x18, 0x19, 0x00, 0x00, 0x00, 0x00, 0x00,
     0x00, 0x1A, 0x1B, 0x1C, 0x1D, 0x1E, 0x1F, 0x20, 0x21, 0x22, 0x23, 0x24, 0x25, 0x26, 0x27, 0x28,
     0x29, 0x2A, 0x2B, 0x2C, 0x2D, 0x2E, 0x2F, 0x30, 0x31, 0x32, 0x33, 0x00, 0x00, 0x00, 0x00, 0x00]
    @ replicate 128 0"

text \<open>\<open>*pos++ = base64_table[i]\<close>, and \<open>*pos++ = c\<close>; the state is the position and the buffer.\<close>

definition put_next :: "byte \<Rightarrow> nat \<times> byte list \<Rightarrow> (nat \<times> byte list) cres" where
  "put_next c st = (case st of (pos, out) \<Rightarrow> cbind (buf_put pos c out) (\<lambda>out. Inr (pos + 1, out)))"

definition put_code :: "byte \<Rightarrow> nat \<times> byte list \<Rightarrow> (nat \<times> byte list) cres" where
  "put_code i st = cbind (buf_get (unat i) base64_table) (\<lambda>c. put_next c st)"

fun encode_blocks :: "byte list \<Rightarrow> nat \<times> byte list \<Rightarrow> (nat \<times> byte list) cres" where
  "encode_blocks (a # b # c # rest) st =
     cbind (put_code (drop_bit 2 a) st) (\<lambda>st.
     cbind (put_code (push_bit 4 (a AND 0x03) OR drop_bit 4 b) st) (\<lambda>st.
     cbind (put_code (push_bit 2 (b AND 0x0f) OR drop_bit 6 c) st) (\<lambda>st.
     cbind (put_code (c AND 0x3f) st) (\<lambda>st.
     encode_blocks rest st))))"
| "encode_blocks [a] st =
     cbind (put_code (drop_bit 2 a) st) (\<lambda>st.
     cbind (put_code (push_bit 4 (a AND 0x03)) st) (\<lambda>st.
     cbind (put_next 61 st) (put_next 61)))"
| "encode_blocks [a, b] st =
     cbind (put_code (drop_bit 2 a) st) (\<lambda>st.
     cbind (put_code (push_bit 4 (a AND 0x03) OR drop_bit 4 b) st) (\<lambda>st.
     cbind (put_code (push_bit 2 (b AND 0x0f)) st) (put_next 61)))"
| "encode_blocks [] st = Inr st"

declare encode_blocks.simps [simp del]

definition str_base64_encode_len :: "byte list \<Rightarrow> byte list \<Rightarrow> byte list cres" where
  "str_base64_encode_len src out =
     cbind (encode_blocks src (0, out)) (\<lambda>(pos, out). buf_put pos 0 out)"

text \<open>\<open>data[i] == '=' ? 0 & i++ : base64_decode_table[data[i++]]\<close>\<close>

definition sextet :: "byte list \<Rightarrow> nat \<Rightarrow> u32 cres" where
  "sextet data i =
     cbind (buf_get i data) (\<lambda>c. if c = 61 then Inr 0
       else cbind (buf_get (unat c) base64_decode_table) (\<lambda>v. Inr (ucast v)))"

text \<open>\<open>if (j < out_len) decoded_data[j++] = ...\<close>\<close>

definition put_below :: "int \<Rightarrow> byte \<Rightarrow> nat \<times> byte list \<Rightarrow> (nat \<times> byte list) cres" where
  "put_below out_len b st =
     (case st of (j, out) \<Rightarrow>
      if int j < out_len then cbind (buf_put j b out) (\<lambda>out. Inr (j + 1, out)) else Inr (j, out))"

text \<open>One round reads four characters; the loop runs while \<open>i < input_length\<close>.\<close>

definition decode_round :: "byte list \<Rightarrow> int \<Rightarrow> nat \<Rightarrow> nat \<times> byte list \<Rightarrow> (nat \<times> byte list) cres" where
  "decode_round data out_len i st =
     cbind (sextet data i) (\<lambda>sextet_a.
     cbind (sextet data (i + 1)) (\<lambda>sextet_b.
     cbind (sextet data (i + 2)) (\<lambda>sextet_c.
     cbind (sextet data (i + 3)) (\<lambda>sextet_d.
     let triple = push_bit 18 sextet_a + push_bit 12 sextet_b + push_bit 6 sextet_c + sextet_d in
     cbind (put_below out_len (ucast (drop_bit 16 triple AND 0xFF)) st) (\<lambda>st.
     cbind (put_below out_len (ucast (drop_bit 8 triple AND 0xFF)) st) (\<lambda>st.
     put_below out_len (ucast (triple AND 0xFF)) st))))))"

definition str_base64_decode :: "byte list \<Rightarrow> nat \<Rightarrow> byte list \<Rightarrow> (int \<times> byte list) cres" where
  "str_base64_decode data input_length decoded_data =
     (if input_length mod 4 \<noteq> 0 then Inr (0, decoded_data)
      else if input_length = 0 then Inl Out_Of_Bounds
      else
        cbind (buf_get (input_length - 1) data) (\<lambda>c1.
        cbind (buf_get (input_length - 2) data) (\<lambda>c2.
        let out_len = int (input_length div 4 * 3) - (if c1 = 61 then 1 else 0) - (if c2 = 61 then 1 else 0) in
        cbind (cfor (map (\<lambda>k. 4 * k) [0..<input_length div 4]) (decode_round data out_len) (0, decoded_data))
          (\<lambda>(j, decoded_data). Inr (out_len, decoded_data)))))"

section \<open>The configuration in the environment store\<close>

text \<open>The EasyFlash calls, as far as this file uses them: the store is a parameter.\<close>

record 's ef_api =
  ef_get :: "'s \<Rightarrow> byte list \<Rightarrow> byte list option"
  ef_set :: "byte list \<Rightarrow> byte list \<Rightarrow> 's \<Rightarrow> 's"
  ef_save :: "'s \<Rightarrow> 's"

definition wlan_cfg_info :: "byte list" where "wlan_cfg_info = lit ''wlan_cfg_info''"
definition wlan_cfg_len :: "byte list" where "wlan_cfg_len = lit ''wlan_cfg_len''"

text \<open>Before EasyFlash 4: values are strings, and the configuration is stored as base64.\<close>

definition read_cfg_text :: "'s ef_api \<Rightarrow> 's \<Rightarrow> byte list \<Rightarrow> int \<Rightarrow> (int \<times> byte list) cres" where
  "read_cfg_text ef s buff len =
     (case ef_get ef s wlan_cfg_info of
        Some v \<Rightarrow> cbind (str_base64_decode (v @ [0]) (length v) buff) (\<lambda>(n, buff). Inr (len, buff))
      | None \<Rightarrow> Inr (0, buff))"

definition get_len_text :: "'s ef_api \<Rightarrow> 's \<Rightarrow> int" where
  "get_len_text ef s = (case ef_get ef s wlan_cfg_len of None \<Rightarrow> 0 | Some v \<Rightarrow> atoi v)"

definition write_cfg_text ::
  "'s ef_api \<Rightarrow> (nat \<Rightarrow> byte list option) \<Rightarrow> byte list \<Rightarrow> nat \<Rightarrow> 's \<Rightarrow> (int \<times> 's) cres" where
  "write_cfg_text ef malloc buff len s =
     (case malloc (len * 4 div 3 + 4) of
        None \<Rightarrow> Inr (- 5, s)
      | Some base64_buf \<Rightarrow>
          if length base64_buf < len then Inl Out_Of_Bounds
          else
            (let base64_buf = overlay 0 (replicate len 0) base64_buf;
                 s = ef_set ef wlan_cfg_len (dec_text (-1) (word_of_nat len)) s
             in if length buff < len then Inl Out_Of_Bounds
                else cbind (str_base64_encode_len (take len buff) base64_buf) (\<lambda>base64_buf.
                     let s = ef_set ef wlan_cfg_info (cstr base64_buf) s
                     in Inr (int len, ef_save ef s))))"

text \<open>From EasyFlash 4 on the values are blobs (the operations are in \<open>Wifi_Store\<close>). An \<open>int\<close> is stored as its four bytes.\<close>

definition int_bytes :: "u32 \<Rightarrow> byte list" where
  "int_bytes n = map (\<lambda>k. ucast (drop_bit (8 * k) n)) [0..<4]"

definition bytes_int :: "byte list \<Rightarrow> u32" where
  "bytes_int bs = word_of_nat (\<Sum>k<4. unat (bs ! k) * 256 ^ k)"

section \<open>What is encoded\<close>

text \<open>The base64 text of some bytes, by numbers.\<close>

fun sextets :: "byte list \<Rightarrow> nat list" where
  "sextets (a # b # c # rest) =
     [unat a div 4, unat a mod 4 * 16 + unat b div 16, unat b mod 16 * 4 + unat c div 64, unat c mod 64]
     @ sextets rest"
| "sextets [a] = [unat a div 4, unat a mod 4 * 16]"
| "sextets [a, b] = [unat a div 4, unat a mod 4 * 16 + unat b div 16, unat b mod 16 * 4]"
| "sextets [] = []"

definition base64 :: "byte list \<Rightarrow> byte list" where
  "base64 bs = map (\<lambda>i. base64_table ! i) (sextets bs) @
     replicate (if length bs mod 3 = 1 then 2 else if length bs mod 3 = 2 then 1 else 0) 61"

lemma length_base64_table [simp]: "length base64_table = 64"
  by (simp add: base64_table_def)

lemma length_decode_table [simp]: "length base64_decode_table = 256"
  by (simp add: base64_decode_table_def)

lemma table_inverse:
  "\<forall>i \<in> set [0..<64]. unat (base64_table ! i) < 128 \<and> base64_table ! i \<noteq> 61 \<and> base64_table ! i \<noteq> 0 \<and>
     base64_decode_table ! unat (base64_table ! i) = word_of_nat i"
  by (simp add: base64_table_def base64_decode_table_def lit_def upt_conv_Cons)

lemma unat_sextets:
  fixes a b c :: byte
  shows "unat (drop_bit 2 a) = unat a div 4"
    and "unat (push_bit 4 (a AND 0x03)) = unat a mod 4 * 16"
    and "unat (push_bit 4 (a AND 0x03) OR drop_bit 4 b) = unat a mod 4 * 16 + unat b div 16"
    and "unat (push_bit 2 (b AND 0x0f)) = unat b mod 16 * 4"
    and "unat (push_bit 2 (b AND 0x0f) OR drop_bit 6 c) = unat b mod 16 * 4 + unat c div 64"
    and "unat (c AND 0x3f) = unat c mod 64"
proof -
  have m: "(0x03 :: byte) = mask 2" "(0x0f :: byte) = mask 4" "(0x3f :: byte) = mask 6"
    by (simp_all add: mask_eq_exp_minus_1)
  have lim: "unat v < 256" for v :: byte using unsigned_less[of v, where 'a = nat] by simp
  show "unat (drop_bit 2 a) = unat a div 4" unfolding unat_drop by simp
  have a: "unat (a AND 0x03) = unat a mod 4" and b: "unat (b AND 0x0f) = unat b mod 16"
    unfolding m unat_and_mask by simp_all
  show pa: "unat (push_bit 4 (a AND 0x03)) = unat a mod 4 * 16"
    by (subst unat_push) (simp_all add: a)
  show pb: "unat (push_bit 2 (b AND 0x0f)) = unat b mod 16 * 4"
    by (subst unat_push) (simp_all add: b)
  have db: "unat (drop_bit 4 b) = unat b div 16" and dc: "unat (drop_bit 6 c) = unat c div 64"
    unfolding unat_drop by simp_all
  have "unat b div 16 < 2 ^ 4" "unat c div 64 < 2 ^ 2" using lim[of b] lim[of c] by simp_all
  then show "unat (push_bit 4 (a AND 0x03) OR drop_bit 4 b) = unat a mod 4 * 16 + unat b div 16"
    "unat (push_bit 2 (b AND 0x0f) OR drop_bit 6 c) = unat b mod 16 * 4 + unat c div 64"
    unfolding unsigned_or_eq pa pb db dc
    using or_field[of "unat b div 16" 4 "unat a mod 4"] or_field[of "unat c div 64" 2 "unat b mod 16"]
    by simp_all
  show "unat (c AND 0x3f) = unat c mod 64" unfolding m unat_and_mask by simp
qed

lemma sextets_below: "list_all (\<lambda>i. i < 64) (sextets bs)"
proof (induction bs rule: sextets.induct)
  case (1 a b c rest)
  have "unat a < 256" "unat b < 256" "unat c < 256"
    using unsigned_less[of a, where 'a = nat] unsigned_less[of b, where 'a = nat]
      unsigned_less[of c, where 'a = nat] by simp_all
  then have "unat a div 4 < 64" "unat b div 16 < 16" "unat c div 64 < 4" by simp_all
  moreover have "unat a mod 4 < 4" "unat b mod 16 < 16" by simp_all
  ultimately have "unat a mod 4 * 16 + unat b div 16 < 64" "unat b mod 16 * 4 + unat c div 64 < 64"
    "unat a div 4 < 64" by linarith+
  with 1 show ?case by simp
next
  case (2 a)
  have "unat a mod 4 < 4" by simp
  then have "unat a mod 4 * 16 < 64" by linarith
  then show ?case using unsigned_less[of a, where 'a = nat] by simp
next
  case (3 a b)
  have "unat a < 256" "unat b < 256"
    using unsigned_less[of a, where 'a = nat] unsigned_less[of b, where 'a = nat] by simp_all
  then have "unat a div 4 < 64" "unat b div 16 < 16" by simp_all
  moreover have "unat a mod 4 < 4" "unat b mod 16 < 16" by simp_all
  ultimately have "unat a mod 4 * 16 + unat b div 16 < 64" "unat b mod 16 * 4 < 64" "unat a div 4 < 64"
    by linarith+
  then show ?case by simp
qed simp

lemma put_next_eq:
  "n = length acc \<Longrightarrow> n < length out \<Longrightarrow>
   put_next c (n, overlay 0 acc out) = Inr (Suc n, overlay 0 (acc @ [c]) out)"
  using overlay_snoc[of 0 acc out c] by (simp add: put_next_def)

lemma put_code_eq:
  "n = length acc \<Longrightarrow> n < length out \<Longrightarrow> unat i < 64 \<Longrightarrow>
   put_code i (n, overlay 0 acc out) = Inr (Suc n, overlay 0 (acc @ [base64_table ! unat i]) out)"
  by (simp add: put_code_def put_next_eq)

lemma length_sextets: "length (sextets bs) = (4 * length bs + 2) div 3"
proof (induction bs rule: sextets.induct)
  case (1 a b c rest)
  have "4 * length (a # b # c # rest) + 2 = (4 * length rest + 2) + 3 * 4" by simp
  then show ?case using 1 by simp
qed simp_all

lemma length_base64: "length (base64 bs) = (length bs + 2) div 3 * 4"
proof -
  define q r where "q = length bs div 3" and "r = length bs mod 3"
  have n: "length bs = 3 * q + r" and r: "r = 0 \<or> r = 1 \<or> r = 2" by (auto simp: q_def r_def)
  have "(4 * (3 * q) + 2) div 3 = 4 * q" "(4 * (3 * q + 1) + 2) div 3 = 4 * q + 2"
    "(4 * (3 * q + 2) + 2) div 3 = 4 * q + 3" "(3 * q + 2) div 3 = q" "(3 * q + 1 + 2) div 3 = q + 1"
    "(3 * q + 2 + 2) div 3 = q + 1" by presburger+
  then show ?thesis unfolding base64_def using r n by (auto simp: length_sextets r_def[symmetric])
qed

lemma base64_step:
  "base64 (a # b # c # rest) = map (\<lambda>i. base64_table ! i)
     [unat a div 4, unat a mod 4 * 16 + unat b div 16, unat b mod 16 * 4 + unat c div 64, unat c mod 64]
     @ base64 rest"
  by (simp add: base64_def)

lemma encode_blocks_eq:
  "length acc + length (base64 bs) \<le> length out \<Longrightarrow>
   encode_blocks bs (length acc, overlay 0 acc out) =
     Inr (length (acc @ base64 bs), overlay 0 (acc @ base64 bs) out)"
proof (induction bs arbitrary: acc rule: sextets.induct)
  case (1 a b c rest)
  define w1 w2 w3 w4 where "w1 = drop_bit 2 a" and "w2 = push_bit 4 (a AND 0x03) OR drop_bit 4 b"
    and "w3 = push_bit 2 (b AND 0x0f) OR drop_bit 6 c" and "w4 = c AND 0x3f"
  note w_def = w1_def w2_def w3_def w4_def
  have u: "unat w1 = unat a div 4" "unat w2 = unat a mod 4 * 16 + unat b div 16"
    "unat w3 = unat b mod 16 * 4 + unat c div 64" "unat w4 = unat c mod 64"
    unfolding w_def unat_sextets by (rule refl)+
  have lim: "unat w1 < 64" "unat w2 < 64" "unat w3 < 64" "unat w4 < 64"
    using sextets_below[of "a # b # c # rest"] by (simp_all add: u)
  have "encode_blocks (a # b # c # rest) st = cbind (put_code w1 st) (\<lambda>st. cbind (put_code w2 st)
      (\<lambda>st. cbind (put_code w3 st) (\<lambda>st. cbind (put_code w4 st) (\<lambda>st. encode_blocks rest st))))" for st
    unfolding encode_blocks.simps w_def ..
  then show ?case
    using 1(1)[of "acc @ map (\<lambda>i. base64_table ! i) [unat w1, unat w2, unat w3, unat w4]"] 1(2) lim
    by (simp add: put_code_eq base64_step u[symmetric])
next
  case (2 a)
  define w1 w2 where "w1 = drop_bit 2 a" and "w2 = push_bit 4 (a AND 0x03)"
  have u: "unat w1 = unat a div 4" "unat w2 = unat a mod 4 * 16"
    unfolding w1_def w2_def unat_sextets by (rule refl)+
  have lim: "unat w1 < 64" "unat w2 < 64" using sextets_below[of "[a]"] by (simp_all add: u)
  have "encode_blocks [a] st = cbind (put_code w1 st) (\<lambda>st. cbind (put_code w2 st)
      (\<lambda>st. cbind (put_next 61 st) (put_next 61)))" for st
    unfolding encode_blocks.simps w1_def w2_def ..
  then show ?case
    using 2 lim by (simp add: put_code_eq put_next_eq base64_def u[symmetric]
        numeral_2_eq_2)
next
  case (3 a b)
  define w1 w2 w3 where "w1 = drop_bit 2 a" and "w2 = push_bit 4 (a AND 0x03) OR drop_bit 4 b"
    and "w3 = push_bit 2 (b AND 0x0f)"
  have u: "unat w1 = unat a div 4" "unat w2 = unat a mod 4 * 16 + unat b div 16"
    "unat w3 = unat b mod 16 * 4"
    unfolding w1_def w2_def w3_def unat_sextets by (rule refl)+
  have lim: "unat w1 < 64" "unat w2 < 64" "unat w3 < 64" using sextets_below[of "[a, b]"] by (simp_all add: u)
  have "encode_blocks [a, b] st = cbind (put_code w1 st) (\<lambda>st. cbind (put_code w2 st)
      (\<lambda>st. cbind (put_code w3 st) (put_next 61)))" for st
    unfolding encode_blocks.simps w1_def w2_def w3_def ..
  then show ?case
    using 3 lim by (simp add: put_code_eq put_next_eq base64_def u[symmetric])
qed (simp add: base64_def encode_blocks.simps)

section \<open>Decoding what was encoded\<close>

lemma sextet_code:
  assumes "n < 64" "i < length data" "data ! i = base64_table ! n"
  shows "sextet data i = Inr (word_of_nat n)"
proof -
  have "unat (base64_table ! n) < 128" "base64_table ! n \<noteq> 61"
    "base64_decode_table ! unat (base64_table ! n) = word_of_nat n"
    using table_inverse assms(1) by simp_all
  moreover have "(ucast (word_of_nat n :: byte) :: u32) = word_of_nat n"
    using assms(1) by (simp add: word_unat_eq_iff unsigned_ucast_eq take_bit_eq_mod of_nat_inverse unat_of_nat)
  ultimately show ?thesis using assms by (simp add: sextet_def)
qed

lemma sextet_pad: "i < length data \<Longrightarrow> data ! i = 61 \<Longrightarrow> sextet data i = Inr 0"
  by (simp add: sextet_def)

lemma low_byte: "(ucast ((t :: u32) AND 0xFF) :: byte) = word_of_nat (unat t)"
proof -
  have "(0xFF :: u32) = mask 8" by (simp add: mask_eq_exp_minus_1)
  then have "unat (ucast (t AND 0xFF) :: byte) = unat t mod 256"
    by (simp only: unsigned_ucast_eq unat_and_mask take_bit_eq_mod) simp
  also have "\<dots> = unat (word_of_nat (unat t) :: byte)"
    by (simp only: unsigned_of_nat take_bit_eq_mod of_nat_id) simp
  finally show ?thesis by (simp only: word_unat_eq_iff)
qed

lemma decode_round_eq:
  assumes "sextet data i = Inr (word_of_nat s1)" "sextet data (i + 1) = Inr (word_of_nat s2)"
    and "sextet data (i + 2) = Inr (word_of_nat s3)" "sextet data (i + 3) = Inr (word_of_nat s4)"
    and "s1 < 64" "s2 < 64" "s3 < 64" "s4 < 64"
    and "N = s1 * 262144 + s2 * 4096 + s3 * 64 + s4"
  shows "decode_round data out_len i st =
    cbind (put_below out_len (word_of_nat (N div 65536)) st) (\<lambda>st.
    cbind (put_below out_len (word_of_nat (N div 256)) st) (put_below out_len (word_of_nat N)))"
proof -
  define t :: u32 where "t = push_bit 18 (word_of_nat s1) + push_bit 12 (word_of_nat s2) +
    push_bit 6 (word_of_nat s3) + word_of_nat s4"
  have "t = word_of_nat N"
    unfolding t_def assms(9) by (simp add: push_bit_eq_mult)
  moreover have "N < 2 ^ 32" using assms(5-9) by simp
  ultimately have "unat t = N" by (simp add: of_nat_inverse)
  then have "(ucast (drop_bit 16 t AND 0xFF) :: byte) = word_of_nat (N div 65536)"
    "(ucast (drop_bit 8 t AND 0xFF) :: byte) = word_of_nat (N div 256)"
    "(ucast (t AND 0xFF) :: byte) = word_of_nat N"
    unfolding low_byte unat_drop by simp_all
  then show ?thesis
    unfolding decode_round_def assms(1-4) cbind_Inr Let_def t_def[symmetric] by simp
qed

lemma put_below_eq:
  "n = length acc \<Longrightarrow> n < length out \<Longrightarrow> int n < out_len \<Longrightarrow>
   put_below out_len b (n, overlay 0 acc out) = Inr (Suc n, overlay 0 (acc @ [b]) out)"
  using overlay_snoc[of 0 acc out b] by (simp add: put_below_def)

lemma put_below_stop: "\<not> int j < out_len \<Longrightarrow> put_below out_len b (j, out) = Inr (j, out)"
  by (simp add: put_below_def)

lemma four_codes:
  assumes "data = pre @ w @ rest" "length w = 4" "i = length pre"
  shows "i < length data" "i + 1 < length data" "i + 2 < length data" "i + 3 < length data"
    "data ! i = w ! 0" "data ! (i + 1) = w ! 1" "data ! (i + 2) = w ! 2" "data ! (i + 3) = w ! 3"
  using assms by (simp_all add: nth_append)

text \<open>The bytes of a block, from its sextets.\<close>

lemma block_number:
  fixes a b c :: nat
  shows "a div 4 * 262144 + (a mod 4 * 16 + b div 16) * 4096 + (b mod 16 * 4 + c div 64) * 64 + c mod 64 =
    a * 65536 + b * 256 + c"
proof -
  have "q1 * 262144 + (r1 * 16 + q2) * 4096 + (r2 * 4 + q3) * 64 + r3 =
      (q1 * 4 + r1) * 65536 + (q2 * 16 + r2) * 256 + (q3 * 64 + r3)" for q1 r1 q2 r2 q3 r3 :: nat
    by (simp add: algebra_simps)
  from this[of "a div 4" "a mod 4" "b div 16" "b mod 16" "c div 64" "c mod 64"] show ?thesis
    unfolding div_mult_mod_eq .
qed

lemma byte_cases: "unat (a :: byte) < 256" "word_of_nat (unat a) = a"
  using unsigned_less[of a, where 'a = nat] by simp_all

lemma word_of_bytes:
  fixes a b c :: byte
  defines "N \<equiv> unat a * 65536 + unat b * 256 + unat c"
  shows "(word_of_nat (N div 65536) :: byte) = a" "(word_of_nat (N div 256) :: byte) = b"
    "(word_of_nat N :: byte) = c"
proof -
  have "N div 65536 = unat a" "N div 256 mod 256 = unat b" "N mod 256 = unat c"
  proof -
    have "N = (unat b * 256 + unat c) + unat a * 65536" "N = unat c + (unat a * 256 + unat b) * 256"
      by (simp_all add: N_def)
    then have "N div 65536 = unat a + (unat b * 256 + unat c) div 65536"
      "N div 256 = (unat a * 256 + unat b) + unat c div 256" "N mod 256 = unat c mod 256"
      by (metis div_mult_self1 zero_neq_numeral, metis div_mult_self1 zero_neq_numeral, metis mod_mult_self1)
    then show "N div 65536 = unat a" "N div 256 mod 256 = unat b" "N mod 256 = unat c"
      using byte_cases(1)[of a] byte_cases(1)[of b] byte_cases(1)[of c] by simp_all
  qed
  then show "(word_of_nat (N div 65536) :: byte) = a" "(word_of_nat (N div 256) :: byte) = b"
    "(word_of_nat N :: byte) = c"
    by (simp_all add: word_unat_eq_iff unsigned_of_nat take_bit_eq_mod)
qed

lemma decode_blocks_eq:
  assumes "data = pre @ base64 bs @ rest" "length pre = 4 * m" "out_len = int (length acc + length bs)"
    and "length acc + length bs \<le> length out"
  shows "cfor (map (\<lambda>k. 4 * k) [m..<m + length (base64 bs) div 4]) (decode_round data out_len)
      (length acc, overlay 0 acc out) = Inr (length (acc @ bs), overlay 0 (acc @ bs) out)"
  using assms
proof (induction bs arbitrary: acc m pre rule: sextets.induct)
  case (1 a b c bs)
  define ns where "ns = [unat a div 4, unat a mod 4 * 16 + unat b div 16,
    unat b mod 16 * 4 + unat c div 64, unat c mod 64]"
  define w where "w = map (\<lambda>i. base64_table ! i) ns"
  have d: "data = pre @ w @ (base64 bs @ rest)" using 1(2) by (simp add: base64_step w_def ns_def)
  have lim: "list_all (\<lambda>i. i < 64) ns"
    using sextets_below[of "a # b # c # bs"] by (simp add: ns_def)
  have len: "length (base64 (a # b # c # bs)) div 4 = Suc (length (base64 bs) div 4)"
    by (simp add: base64_step)
  have four: "length w = 4" by (simp add: w_def ns_def)
  note at = four_codes[OF d four 1(3)[symmetric]]
  have lims: "ns ! 0 < 64" "ns ! 1 < 64" "ns ! 2 < 64" "ns ! 3 < 64"
    using lim by (simp_all add: ns_def)
  have wk: "w ! 0 = base64_table ! (ns ! 0)" "w ! 1 = base64_table ! (ns ! 1)"
    "w ! 2 = base64_table ! (ns ! 2)" "w ! 3 = base64_table ! (ns ! 3)"
    by (simp_all add: w_def ns_def)
  note sx = sextet_code[OF lims(1) at(1) at(5)[unfolded wk(1)]] sextet_code[OF lims(2) at(2) at(6)[unfolded wk(2)]]
    sextet_code[OF lims(3) at(3) at(7)[unfolded wk(3)]] sextet_code[OF lims(4) at(4) at(8)[unfolded wk(4)]]
  have N: "unat a * 65536 + unat b * 256 + unat c =
      ns ! 0 * 262144 + ns ! 1 * 4096 + ns ! 2 * 64 + ns ! 3"
    unfolding block_number[symmetric] by (simp add: ns_def)
  have "decode_round data out_len (4 * m) (length acc, overlay 0 acc out) =
      Inr (Suc (Suc (Suc (length acc))), overlay 0 (acc @ [a, b, c]) out)"
    unfolding decode_round_eq[OF sx lims N] word_of_bytes using 1(4,5)
    by (simp add: put_below_eq)
  moreover have "[m..<m + Suc (length (base64 bs) div 4)] = m # [Suc m..<Suc m + length (base64 bs) div 4]"
    by (simp add: upt_conv_Cons)
  moreover have "cfor (map (\<lambda>k. 4 * k) [Suc m..<Suc m + length (base64 bs) div 4]) (decode_round data out_len)
      (length (acc @ [a, b, c]), overlay 0 (acc @ [a, b, c]) out) =
      Inr (length ((acc @ [a, b, c]) @ bs), overlay 0 ((acc @ [a, b, c]) @ bs) out)"
    using 1(3-5) four by (intro 1(1)[of "pre @ w"]) (simp_all add: d)
  ultimately show ?case by (simp add: len)
next
  case (2 a)
  define n0 n1 where "n0 = unat a div 4" and "n1 = unat a mod 4 * 16"
  define w where "w = [base64_table ! n0, base64_table ! n1, 61, 61]"
  have b: "base64 [a] = w" by (simp add: base64_def w_def n0_def n1_def numeral_2_eq_2)
  have d: "data = pre @ w @ rest" and four: "length w = 4" using 2(1) by (simp_all add: b w_def)
  note at = four_codes[OF d four 2(2)[symmetric]]
  have lims: "n0 < 64" "n1 < 64" "(0 :: nat) < 64" using sextets_below[of "[a]"] by (simp_all add: n0_def n1_def)
  have wk: "w ! 0 = base64_table ! n0" "w ! 1 = base64_table ! n1" "w ! 2 = 61" "w ! 3 = 61"
    by (simp_all add: w_def)
  have pad: "sextet data (4 * m + 2) = Inr (word_of_nat 0)" "sextet data (4 * m + 3) = Inr (word_of_nat 0)"
    using sextet_pad[OF at(3) at(7)[unfolded wk(3)]] sextet_pad[OF at(4) at(8)[unfolded wk(4)]] by simp_all
  note sx = sextet_code[OF lims(1) at(1) at(5)[unfolded wk(1)]] sextet_code[OF lims(2) at(2) at(6)[unfolded wk(2)]] pad
  have N: "unat a * 65536 + unat (0 :: byte) * 256 + unat (0 :: byte) = n0 * 262144 + n1 * 4096 + 0 * 64 + 0"
    unfolding block_number[symmetric] by (simp add: n0_def n1_def)
  have "decode_round data out_len (4 * m) (length acc, overlay 0 acc out) =
      Inr (Suc (length acc), overlay 0 (acc @ [a]) out)"
    unfolding decode_round_eq[OF sx lims(1,2,3,3) N] word_of_bytes using 2(3,4)
    by (simp add: put_below_eq put_below_stop)
  then show ?case using four by (simp add: b)
next
  case (3 a b)
  define n0 n1 n2 where "n0 = unat a div 4" and "n1 = unat a mod 4 * 16 + unat b div 16" and "n2 = unat b mod 16 * 4"
  define w where "w = [base64_table ! n0, base64_table ! n1, base64_table ! n2, 61]"
  have b: "base64 [a, b] = w" by (simp add: base64_def w_def n0_def n1_def n2_def)
  have d: "data = pre @ w @ rest" and four: "length w = 4" using 3(1) by (simp_all add: b w_def)
  note at = four_codes[OF d four 3(2)[symmetric]]
  have lims: "n0 < 64" "n1 < 64" "n2 < 64" "(0 :: nat) < 64"
    using sextets_below[of "[a, b]"] by (simp_all add: n0_def n1_def n2_def)
  have wk: "w ! 0 = base64_table ! n0" "w ! 1 = base64_table ! n1" "w ! 2 = base64_table ! n2" "w ! 3 = 61"
    by (simp_all add: w_def)
  have pad: "sextet data (4 * m + 3) = Inr (word_of_nat 0)"
    using sextet_pad[OF at(4) at(8)[unfolded wk(4)]] by simp
  note sx = sextet_code[OF lims(1) at(1) at(5)[unfolded wk(1)]] sextet_code[OF lims(2) at(2) at(6)[unfolded wk(2)]]
    sextet_code[OF lims(3) at(3) at(7)[unfolded wk(3)]] pad
  have N: "unat a * 65536 + unat b * 256 + unat (0 :: byte) = n0 * 262144 + n1 * 4096 + n2 * 64 + 0"
    unfolding block_number[symmetric] by (simp add: n0_def n1_def n2_def)
  have "decode_round data out_len (4 * m) (length acc, overlay 0 acc out) =
      Inr (Suc (Suc (length acc)), overlay 0 (acc @ [a, b]) out)"
    unfolding decode_round_eq[OF sx lims N] word_of_bytes using 3(3,4)
    by (simp add: put_below_eq put_below_stop)
  then show ?case using four by (simp add: b)
qed (simp add: base64_def)

section \<open>Round trips\<close>

lemma base64_no_nul: "0 \<notin> set (base64 bs)"
proof -
  have "\<forall>i \<in> set (sextets bs). base64_table ! i \<noteq> 0"
    using sextets_below[of bs] table_inverse by (auto simp: list_all_iff)
  then show ?thesis by (auto simp: base64_def)
qed

lemma str_base64_encode_len_eq:
  "length (base64 bs) < length out \<Longrightarrow> str_base64_encode_len bs out = Inr (overlay 0 (base64 bs @ [0]) out)"
  using encode_blocks_eq[of "[]" bs out] overlay_snoc[of 0 "base64 bs" out 0]
  by (simp add: str_base64_encode_len_def)

text \<open>The heap block of \<open>write_cfg\<close> is exactly large enough.\<close>

lemma base64_fits: "length (base64 bs) < length bs * 4 div 3 + 4"
  unfolding length_base64 by presburger

lemma sextets_Nil_iff: "sextets bs = [] \<longleftrightarrow> bs = []"
  by (cases bs rule: sextets.cases) simp_all

lemma str_base64_decode_eq:
  assumes "bs \<noteq> []" "length bs \<le> length out"
  shows "str_base64_decode (base64 bs @ rest) (length (base64 bs)) out = Inr (int (length bs), overlay 0 bs out)"
proof -
  define q where "q = (length bs + 2) div 3"
  have L: "length (base64 bs) = q * 4" by (simp add: length_base64 q_def)
  have q: "0 < q" using assms(1) by (cases bs) (simp_all add: q_def)
  define p where "p = (if length bs mod 3 = 1 then 2 else if length bs mod 3 = 2 then 1 else 0 :: nat)"
  have p: "q * 3 = length bs + p"
    unfolding q_def p_def by presburger
  define cs where "cs = map (\<lambda>i. base64_table ! i) (sextets bs)"
  have b: "base64 bs = cs @ replicate p 61" by (simp add: base64_def cs_def p_def)
  have cs: "length cs + p = q * 4" using L by (simp add: b)
  have no: "cs ! k \<noteq> 61" if "k < length cs" for k
    using that sextets_below[of bs] table_inverse by (auto simp: cs_def list_all_length)
  have p2: "p = 0 \<or> p = 1 \<or> p = 2" by (simp add: p_def)
  have q4: "4 \<le> q * 4" using q by simp
  have last1: "((base64 bs @ rest) ! (q * 4 - 1) = 61) = (1 \<le> p)"
    using p2 cs q4 no[of "q * 4 - 1"] by (auto simp: b nth_append)
  have last2: "((base64 bs @ rest) ! (q * 4 - 2) = 61) = (2 \<le> p)"
  proof (cases "p = 2")
    case True
    then have "q * 4 - 2 = length cs" using cs by simp
    then show ?thesis using True by (simp add: b nth_append)
  next
    case False
    then have "p \<le> 1" using p2 by auto
    then have k: "q * 4 - 2 < length cs" using cs q4 by linarith
    then show ?thesis using \<open>p \<le> 1\<close> no[OF k] by (simp add: b nth_append)
  qed
  have out_len: "int (q * 4 div 4 * 3) - (if 1 \<le> p then 1 else 0) - (if 2 \<le> p then 1 else 0) = int (length bs)"
    using p p2 by auto
  have gets: "buf_get (q * 4 - 1) (base64 bs @ rest) = Inr ((base64 bs @ rest) ! (q * 4 - 1))"
    "buf_get (q * 4 - 2) (base64 bs @ rest) = Inr ((base64 bs @ rest) ! (q * 4 - 2))"
    using q L by (auto intro!: buf_get_ok)
  have "cfor (map (\<lambda>k. 4 * k) [0..<q]) (decode_round (base64 bs @ rest) (int (length bs))) (0, out) =
      Inr (length bs, overlay 0 bs out)"
    using decode_blocks_eq[of "base64 bs @ rest" "[]" bs rest 0 "int (length bs)" "[]" out] assms(2) L
    by simp
  then show ?thesis
    unfolding str_base64_decode_def L using q
    by (simp add: gets[simplified] last1[simplified] last2[simplified] out_len[simplified])
qed

lemma overlay_text: "length t < length out \<Longrightarrow> 0 \<notin> set t \<Longrightarrow> cstr (overlay 0 (t @ [0]) out) = t"
  by (simp add: overlay_def)

lemma int_bytes_inverse: "bytes_int (int_bytes n) = n"
proof -
  have b: "unat (int_bytes n ! k) = unat n div 256 ^ k mod 256" if "k < 4" for k
  proof -
    have "unat (ucast (drop_bit (8 * k) n) :: byte) = unat n div 2 ^ (8 * k) mod 256"
      by (simp only: unsigned_ucast_eq take_bit_eq_mod unat_drop) simp
    moreover have "(2 :: nat) ^ (8 * k) = 256 ^ k" by (simp add: power_mult)
    ultimately show ?thesis using that by (simp add: int_bytes_def)
  qed
  have s: "(\<Sum>k<4. f k) = f 0 + f 1 + f 2 + f (3 :: nat)" for f :: "nat \<Rightarrow> nat"
    by (simp add: eval_nat_numeral)
  define N where "N = unat n"
  have "N < 2 ^ 32" using unsigned_less[of n, where 'a = nat] by (simp add: N_def)
  then have top: "N div 16777216 mod 256 = N div 16777216" by simp
  have dd: "N div 65536 = N div 256 div 256" "N div 16777216 = N div 65536 div 256"
    by (simp_all add: div_mult2_eq[symmetric])
  have "N = N mod 256 + N div 256 mod 256 * 256 + N div 65536 mod 256 * 65536 + N div 16777216 * 16777216"
    using div_mult_mod_eq[of N 256] div_mult_mod_eq[of "N div 256" 256] div_mult_mod_eq[of "N div 65536" 256]
    unfolding dd[symmetric] by linarith
  moreover have "(\<Sum>k<4. unat (int_bytes n ! k) * 256 ^ k) =
      N mod 256 + N div 256 mod 256 * 256 + N div 65536 mod 256 * 65536 + N div 16777216 mod 256 * 16777216"
    unfolding s b[of 0, simplified] by (simp add: b N_def del: One_nat_def)
  ultimately have "(\<Sum>k<4. unat (int_bytes n ! k) * 256 ^ k) = N" by (simp only: top)
  then show ?thesis by (simp add: bytes_int_def N_def)
qed

text \<open>What the operations need of the store: a value set is the value read, other keys keep theirs, and
  saving changes no value.\<close>

definition ef_store :: "'s ef_api \<Rightarrow> bool" where
  "ef_store ef \<longleftrightarrow> (\<forall>s k v. ef_get ef (ef_set ef k v s) k = Some v) \<and>
     (\<forall>s k k' v. k \<noteq> k' \<longrightarrow> ef_get ef (ef_set ef k v s) k' = ef_get ef s k') \<and>
     (\<forall>s k. ef_get ef (ef_save ef s) k = ef_get ef s k)"

lemma keys_differ: "wlan_cfg_len \<noteq> wlan_cfg_info"
  by (simp add: wlan_cfg_len_def wlan_cfg_info_def lit_def)

section \<open>Properties\<close>

text \<open>Base64: every non-empty byte string, encoded into the heap block \<open>write_cfg\<close> gets for it
  (\<open>len * 4 / 3 + 4\<close> bytes, which is always enough) and decoded again, is itself.\<close>

theorem base64_roundtrip:
  assumes "bs \<noteq> []" "length buf = length bs * 4 div 3 + 4" "length bs \<le> length out"
  shows "\<exists>buf'. str_base64_encode_len bs buf = Inr buf' \<and>
    str_base64_decode buf' (length (cstr buf')) out = Inr (int (length bs), overlay 0 bs out)"
proof -
  have fits: "length (base64 bs) < length buf" using base64_fits assms(2) by metis
  then have "overlay 0 (base64 bs @ [0]) buf = base64 bs @ 0 # drop (length (base64 bs) + 1) buf"
    by (simp add: overlay_def)
  then show ?thesis
    using str_base64_encode_len_eq[OF fits] str_base64_decode_eq[OF assms(1,3)] overlay_text[OF fits base64_no_nul]
    by simp
qed

lemma base64_roundtrip_witness:
  "\<exists>buf'. str_base64_encode_len [77, 97] (replicate 6 9) = Inr buf' \<and>
    str_base64_decode buf' (length (cstr buf')) [0, 0, 0] = Inr (2, [77, 97, 0])"
  using base64_roundtrip[of "[77, 97]" "replicate 6 9" "[0, 0, 0]"] by (simp add: overlay_def)

definition map_store :: "(byte list \<Rightarrow> byte list option) ef_api" where
  "map_store = \<lparr>ef_get = (\<lambda>s k. s k), ef_set = (\<lambda>k v s. s(k \<mapsto> v)), ef_save = (\<lambda>s. s)\<rparr>"

lemma ef_store_map: "ef_store map_store"
  by (simp add: ef_store_def map_store_def)

lemma sint_of_len: "len < 2 ^ 31 \<Longrightarrow> sint (word_of_nat len :: u32) = int len"
  by (simp add: signed_of_nat signed_take_bit_int_eq_self)

text \<open>The text operations of the older store: the same, through the decimal text of the length and the
  base64 text of the contents.\<close>

theorem wlan_cfg_text_roundtrip:
  assumes "ef_store ef" "0 < len" "len < 2 ^ 31" "len \<le> length cfg" "len \<le> length out"
    and "malloc (len * 4 div 3 + 4) = Some buf" "length buf = len * 4 div 3 + 4"
  shows "\<exists>s'. write_cfg_text ef malloc cfg len s = Inr (int len, s') \<and> get_len_text ef s' = int len \<and>
    read_cfg_text ef s' out n = Inr (n, overlay 0 (take len cfg) out)"
proof -
  define bs where "bs = take len cfg"
  have bs: "length bs = len" "bs \<noteq> []" using assms(2,4) by (auto simp: bs_def)
  define buf1 where "buf1 = overlay 0 (replicate len 0) buf"
  have fits: "length (base64 bs) < length buf1"
    using base64_fits[of bs] assms(7) by (simp add: bs buf1_def)
  define s1 where "s1 = ef_set ef wlan_cfg_len (dec_text (-1) (word_of_nat len)) s"
  define s2 where "s2 = ef_save ef (ef_set ef wlan_cfg_info (base64 bs) s1)"
  have "\<not> length buf < len" using assms(7) by simp
  then have w: "write_cfg_text ef malloc cfg len s = Inr (int len, s2)"
    unfolding write_cfg_text_def assms(6) option.case Let_def buf1_def[symmetric] s1_def[symmetric]
      bs_def[symmetric] str_base64_encode_len_eq[OF fits]
    using assms(4) overlay_text[OF fits base64_no_nul] by (simp add: s2_def)
  have l: "ef_get ef s2 wlan_cfg_len = Some (dec_text (-1) (word_of_nat len))"
    and i: "ef_get ef s2 wlan_cfg_info = Some (base64 bs)"
    using assms(1) keys_differ by (simp_all add: s2_def s1_def ef_store_def)
  have "get_len_text ef s2 = int len"
    using assms(3) by (simp add: get_len_text_def l atoi_dec_text sint_of_len)
  moreover have "read_cfg_text ef s2 out n = Inr (n, overlay 0 bs out)"
    using str_base64_decode_eq[OF bs(2), of out "[0]"] assms(5) bs by (simp add: read_cfg_text_def i)
  ultimately show ?thesis using w by (auto simp: bs_def)
qed

lemma wlan_cfg_text_roundtrip_witness:
  "\<exists>s'. write_cfg_text map_store (\<lambda>n. Some (replicate n 1)) [7, 8, 9] 3 (\<lambda>k. None) = Inr (3, s') \<and>
     get_len_text map_store s' = 3 \<and> read_cfg_text map_store s' [0, 0, 0, 0] 3 = Inr (3, [7, 8, 9, 0])"
  using wlan_cfg_text_roundtrip[OF ef_store_map, of 3 "[7, 8, 9]" "[0, 0, 0, 0]"
      "\<lambda>n. Some (replicate n 1)" "replicate 8 1" "\<lambda>k. None" 3]
  by (simp add: overlay_def)

end
