(* ===== verification/Wifi_Store.thy ===== *)
theory Wifi_Store
  imports Easyflash_Spec Wifi_Config
begin

text \<open>
  The Wi-Fi configuration in the environment store, the operations of \<open>ports/wifi/wifi_config.c\<close> for EasyFlash 4:
  they are written against an interface to the store, and the store on the serial flash provides it.
\<close>

section \<open>The operations\<close>

type_synonym 's get_blob = "byte list \<Rightarrow> byte list \<Rightarrow> (nat \<times> nat option \<times> byte list, 's) run"
type_synonym 's set_blob = "byte list \<Rightarrow> byte list \<Rightarrow> (EfErrCode, 's) run"

text \<open>The length is that of the buffer. \<open>saved_len\<close> is not initialised, and the store does not write it when there is no
  such variable.\<close>

definition read_cfg :: "'s get_blob \<Rightarrow> byte list \<Rightarrow> nat \<Rightarrow> (int \<times> byte list, 's) run" where
  "read_cfg get_blob buff uninit =
     ebind (get_blob wlan_cfg_info buff) (\<lambda>(_, saved, buff).
     let saved_len = (case saved of None \<Rightarrow> uninit | Some n \<Rightarrow> n)
     in if saved_len = 0 then eret (0, buff) else eret (int (length buff), buff))"

definition get_len :: "'s get_blob \<Rightarrow> byte list \<Rightarrow> nat \<Rightarrow> (int, 's) run" where
  "get_len get_blob len uninit =
     ebind (get_blob wlan_cfg_len len) (\<lambda>(_, saved, len).
     let saved_len = (case saved of None \<Rightarrow> uninit | Some n \<Rightarrow> n)
     in if saved_len = 0 then eret 0 else eret (sint (bytes_int len)))"

definition write_cfg :: "'s set_blob \<Rightarrow> byte list \<Rightarrow> (int, 's) run" where
  "write_cfg set_blob buff =
     ebind (set_blob wlan_cfg_len (int_bytes (word_of_nat (length buff)))) (\<lambda>_.
     ebind (set_blob wlan_cfg_info buff) (\<lambda>_.
     eret (int (length buff))))"

text \<open>\<open>wlan_autoconnect_init\<close> up to the hooks it gives to the Wi-Fi manager.\<close>

definition wlan_autoconnect_init ::
  "nat \<Rightarrow> 'f fal_flash_dev list \<Rightarrow> locals \<Rightarrow> 'f fal \<Rightarrow> (EfErrCode \<times> 'f ef_world \<times> 'f ef) cres" where
  "wlan_autoconnect_init fuel devs J s =
     cbind (fal_init devs s) (\<lambda>(_, s). easyflash_init fuel devs J s)"

section \<open>The interface to the store\<close>

text \<open>Names the program uses; no two have the same 16 bits of checksum.\<close>

definition project_keys :: "byte list set" where
  "project_keys = {lit ''boot_times'', wlan_cfg_info, wlan_cfg_len}"

lemma map_size_upd: "finite (dom m) \<Longrightarrow> map_size (m(k \<mapsto> v)) \<le> map_size m + node_size k v"
proof -
  assume f: "finite (dom m)"
  have "map_size (m(k \<mapsto> v)) = node_size k v + (\<Sum>x\<in>dom m - {k}. node_size x (the (m x)))"
    using f by (simp add: map_size_def sum.insert_remove)
  also have "(\<Sum>x\<in>dom m - {k}. node_size x (the (m x))) \<le> map_size m"
    unfolding map_size_def using f by (intro sum_mono2) auto
  finally show ?thesis by simp
qed

locale key_store =
  fixes get_blob :: "'s get_blob" and set_blob :: "'s set_blob" and holds :: "'s ef \<Rightarrow> (byte list \<rightharpoonup> byte list) \<Rightarrow> bool"
  assumes get_law: "holds st m \<Longrightarrow> key \<in> project_keys \<Longrightarrow> \<exists>st'. get_blob key buf st = Inr (blob (m key) buf, st') \<and> holds st' m"
    and set_law: "holds st m \<Longrightarrow> key \<in> project_keys \<Longrightarrow> map_size m + node_size key v \<le> 4024 \<Longrightarrow>
      \<exists>st'. set_blob key v st = Inr (EF_NO_ERR, st') \<and> holds st' (m(key \<mapsto> v))"
    and finite_law: "holds st m \<Longrightarrow> finite (dom m)"
begin

lemma read_cfg_found:
  assumes "holds st m" "m wlan_cfg_info = Some v" "v \<noteq> []"
  shows "\<exists>st'. read_cfg get_blob buff u st = Inr ((int (length buff), take (length buff) v @ drop (length v) buff), st') \<and> holds st' m"
proof -
  have "wlan_cfg_info \<in> project_keys" by (simp add: project_keys_def)
  from get_law[OF assms(1) this, of buff] obtain st' where
    "get_blob wlan_cfg_info buff st = Inr (blob (Some v) buff, st')" "holds st' m" by (auto simp: assms(2))
  then show ?thesis using assms(3) by (simp add: read_cfg_def ebind_def eret_def blob_def Let_def)
qed

lemma get_len_found:
  assumes "holds st m" "m wlan_cfg_len = Some (int_bytes n)" "length len = 4"
  shows "\<exists>st'. get_len get_blob len u st = Inr (sint n, st') \<and> holds st' m"
proof -
  have "wlan_cfg_len \<in> project_keys" by (simp add: project_keys_def)
  from get_law[OF assms(1) this, of len] obtain st' where
    "get_blob wlan_cfg_len len st = Inr (blob (Some (int_bytes n)) len, st')" "holds st' m" by (auto simp: assms(2))
  moreover have "length (int_bytes n) = 4" by (simp add: int_bytes_def)
  ultimately show ?thesis
    using assms(3) by (simp add: get_len_def ebind_def eret_def blob_def Let_def int_bytes_inverse)
qed

text \<open>No configuration: the uninitialised length decides.\<close>

lemma get_len_missing:
  assumes "holds st m" "m wlan_cfg_len = None"
  shows "\<exists>st'. get_len get_blob len u st = Inr (if u = 0 then 0 else sint (bytes_int len), st') \<and> holds st' m"
proof -
  have "wlan_cfg_len \<in> project_keys" by (simp add: project_keys_def)
  from get_law[OF assms(1) this, of len] obtain st' where
    "get_blob wlan_cfg_len len st = Inr (blob None len, st')" "holds st' m" by (auto simp: assms(2))
  then show ?thesis by (simp add: get_len_def ebind_def eret_def blob_def Let_def)
qed

lemma write_cfg_stores:
  assumes "holds st m" "map_size m + 40 + node_size wlan_cfg_info cfg \<le> 4024"
  shows "\<exists>st'. write_cfg set_blob cfg st = Inr (int (length cfg), st') \<and>
    holds st' (m(wlan_cfg_len \<mapsto> int_bytes (word_of_nat (length cfg)), wlan_cfg_info \<mapsto> cfg))"
proof -
  have k: "wlan_cfg_len \<in> project_keys" "wlan_cfg_info \<in> project_keys" by (simp_all add: project_keys_def)
  let ?l = "int_bytes (word_of_nat (length cfg))"
  have n: "node_size wlan_cfg_len ?l = 40" by (simp add: node_size_def wlan_cfg_len_def int_bytes_def)
  then obtain st1 where 1: "set_blob wlan_cfg_len ?l st = Inr (EF_NO_ERR, st1)" "holds st1 (m(wlan_cfg_len \<mapsto> ?l))"
    using set_law[OF assms(1) k(1), of ?l] assms(2) by auto
  have "map_size (m(wlan_cfg_len \<mapsto> ?l)) + node_size wlan_cfg_info cfg \<le> 4024"
    using map_size_upd[OF finite_law[OF assms(1)], of wlan_cfg_len ?l] n assms(2) by simp
  then obtain st2 where "set_blob wlan_cfg_info cfg st1 = Inr (EF_NO_ERR, st2)" "holds st2 (m(wlan_cfg_len \<mapsto> ?l, wlan_cfg_info \<mapsto> cfg))"
    using set_law[OF 1(2) k(2), of cfg] by auto
  then show ?thesis using 1(1) by (simp add: write_cfg_def ebind_def eret_def)
qed

end

section \<open>The environment store provides it\<close>

lemma project_codes: "distinct (map name_code [lit ''boot_times'', wlan_cfg_info, wlan_cfg_len])"
  by code_simp

lemma project_key_ok: "key \<in> project_keys \<Longrightarrow> 0 \<notin> set key \<and> length key \<le> 32"
  by (auto simp: project_keys_def wlan_cfg_info_def wlan_cfg_len_def lit_def)

lemma project_clear: "key \<in> project_keys \<Longrightarrow> dom m \<subseteq> project_keys \<Longrightarrow> clear_key key m"
proof -
  assume k: "key \<in> project_keys" "dom m \<subseteq> project_keys"
  have "k = k'" if "k \<in> project_keys" "k' \<in> project_keys" "name_code k = name_code k'" for k k'
    using that project_codes by (auto simp: project_keys_def)
  then show ?thesis using k by (auto simp: clear_key_def)
qed

lemma finite_contents: "finite (dom (contents L))"
  by (simp add: contents_def finite_dom_map_of)

definition in_use :: "('s \<Rightarrow> nat \<Rightarrow> byte) \<Rightarrow> 's ef \<Rightarrow> (byte list \<rightharpoonup> byte list) \<Rightarrow> bool" where
  "in_use cells st m \<longleftrightarrow> represents cells st m \<and> dom m \<subseteq> project_keys"

sublocale nor_port \<subseteq> store: key_store "ef_get_env_blob W" "\<lambda>k v. ef_set_env_blob W k (Some v)" "in_use cells"
proof
  fix st m key buf assume h: "in_use cells st m" and k: "key \<in> project_keys"
  then have r: "represents cells st m" "clear_key key m" using project_clear by (auto simp: in_use_def)
  from get_total[where buf = buf, OF represents_readable[OF r(1)] r(2)] project_key_ok[OF k] r(1) h
  show "\<exists>st'. ef_get_env_blob W key buf st = Inr (blob (m key) buf, st') \<and> in_use cells st' m"
    unfolding in_use_def by blast
  fix v assume s: "map_size m + node_size key v \<le> 4024"
  have "fits key v" using s project_key_ok[OF k] by (simp add: fits_def)
  from set_total[OF r this] project_key_ok[OF k] s h k
  show "\<exists>st'. ef_set_env_blob W key (Some v) st = Inr (EF_NO_ERR, st') \<and> in_use cells st' (m(key \<mapsto> v))"
    by (auto simp: in_use_def)
next
  fix st m assume "in_use cells st m"
  then show "finite (dom m)" using finite_contents by (auto simp: in_use_def represents_def)
qed

context nor_port
begin

lemma cfg_total:
  assumes "in_use cells st m" "cfg \<noteq> []" "length cfg < 2 ^ 31" "map_size m + 40 + node_size wlan_cfg_info cfg \<le> 4024" "length len = 4"
  shows "\<exists>st1 st2 st3 st4. write_cfg (\<lambda>k v. ef_set_env_blob W k (Some v)) cfg st = Inr (int (length cfg), st1) \<and>
    ef_env_init (Suc fuel) W (ef_boot (flash_store st1)) = Inr (EF_NO_ERR, st2) \<and>
    get_len (ef_get_env_blob W) len u st2 = Inr (int (length cfg), st3) \<and>
    read_cfg (ef_get_env_blob W) buff u' st3 = Inr ((int (length buff), take (length buff) cfg @ drop (length cfg) buff), st4)"
proof -
  let ?m = "m(wlan_cfg_len \<mapsto> int_bytes (word_of_nat (length cfg)), wlan_cfg_info \<mapsto> cfg)"
  obtain st1 where 1: "write_cfg (\<lambda>k v. ef_set_env_blob W k (Some v)) cfg st = Inr (int (length cfg), st1)" "in_use cells st1 ?m"
    using store.write_cfg_stores[OF assms(1,4)] by blast
  then obtain st2 where 2: "ef_env_init (Suc fuel) W (ef_boot (flash_store st1)) = Inr (EF_NO_ERR, st2)" "in_use cells st2 ?m"
    using restart_total[of st1 ?m fuel] unfolding in_use_def by blast
  have l: "?m wlan_cfg_len = Some (int_bytes (word_of_nat (length cfg)))" using keys_differ by simp
  obtain st3 where 3: "get_len (ef_get_env_blob W) len u st2 = Inr (int (length cfg), st3)" "in_use cells st3 ?m"
    using store.get_len_found[OF 2(2) l assms(5), of u] unfolding sint_of_len[OF assms(3)] by metis
  have i: "?m wlan_cfg_info = Some cfg" by simp
  from store.read_cfg_found[OF 3(2) i assms(2), of buff u'] show ?thesis using 1(1) 2(1) 3(1) by blast
qed

lemma cfg_missing:
  assumes "in_use cells st m" "m wlan_cfg_len = None"
  shows "\<exists>st'. get_len (ef_get_env_blob W) len u st = Inr (if u = 0 then 0 else sint (bytes_int len), st')"
  using store.get_len_missing[OF assms, of len u] by blast

end

section \<open>Properties\<close>

text \<open>C6. The Wi-Fi configuration survives a restart. What \<open>write_cfg\<close> stores in an environment store with room for it
  is, after the station has lost its RAM and started again on the same flash, what \<open>get_len\<close> and \<open>read_cfg\<close> give:
  the length and the bytes.\<close>

theorem wlan_cfg_roundtrip:
  assumes "ef_system d cell devs J fs" "in_use cell st m" "cfg \<noteq> []" "length cfg < 2 ^ 31"
    and "map_size m + 40 + node_size wlan_cfg_info cfg \<le> 4024" "length len = 4"
  shows "\<exists>st1 st2 st3 st4.
    write_cfg (\<lambda>k v. ef_set_env_blob (system_world devs J fs) k (Some v)) cfg st = Inr (int (length cfg), st1) \<and>
    ef_env_init (Suc fuel) (system_world devs J fs) (ef_boot (flash_store st1)) = Inr (EF_NO_ERR, st2) \<and>
    get_len (ef_get_env_blob (system_world devs J fs)) len u st2 = Inr (int (length cfg), st3) \<and>
    read_cfg (ef_get_env_blob (system_world devs J fs)) buff u' st3 =
      Inr ((int (length buff), take (length buff) cfg @ drop (length cfg) buff), st4)"
  by (rule nor_port.cfg_total[OF ef_system.is_nor_port[OF assms(1)] assms(2-6)])

lemma in_use_empty: "in_use (\<lambda>f. f) ram_empty Map.empty"
  using represents_empty by (simp add: in_use_def)

lemma wlan_cfg_roundtrip_witness:
  "\<exists>st1 st2 st3 st4. write_cfg (\<lambda>k v. ef_set_env_blob ram_world k (Some v)) [7, 8, 9] ram_empty = Inr (3, st1) \<and>
    ef_env_init 1 ram_world (ef_boot (flash_store st1)) = Inr (EF_NO_ERR, st2) \<and>
    get_len (ef_get_env_blob ram_world) [1, 1, 1, 1] 5 st2 = Inr (3, st3) \<and>
    read_cfg (ef_get_env_blob ram_world) [0, 0, 0, 0] 5 st3 = Inr ((4, [7, 8, 9, 0]), st4)"
  using wlan_cfg_roundtrip[OF ram_system in_use_empty, where cfg = "[7, 8, 9]" and len = "[1, 1, 1, 1]" and buff = "[0, 0, 0, 0]"
      and fuel = 0 and u = 5 and u' = 5]
  by (simp add: ram_world_def map_size_def node_size_def wlan_cfg_info_def)

text \<open>C37. No configuration. Before a configuration has been stored, \<open>get_len\<close> returns 0 only when its uninitialised local
  \<open>saved_len\<close> happens to be 0: the store writes the length of a variable only when there is one, so otherwise the code
  returns what its other uninitialised local holds.\<close>

theorem get_len_uninitialised:
  assumes "ef_system d cell devs J fs" "in_use cell st m" "m wlan_cfg_len = None"
  shows "\<exists>st'. get_len (ef_get_env_blob (system_world devs J fs)) len u st =
    Inr (if u = 0 then 0 else sint (bytes_int len), st')"
  by (rule nor_port.cfg_missing[OF ef_system.is_nor_port[OF assms(1)] assms(2,3)])

lemma get_len_uninitialised_witness:
  "\<exists>st'. get_len (ef_get_env_blob ram_world) (int_bytes 513) 5 ram_empty = Inr (513, st')"
  using get_len_uninitialised[OF ram_system in_use_empty, where len = "int_bytes 513" and u = 5]
  by (simp add: ram_world_def int_bytes_inverse)

end
