(* ===== verification/CJson.thy ===== *)
theory CJson
  imports Kservice_Format
begin

text \<open>
  The JSON package, \<open>packages/cJSON-v1.0.2/cJSON.c\<close>: the tree, its accessors and the parser. A pointer
  into a text is the list of the bytes from there to the end of the object the text lies in. The chains
  of \<open>next\<close> and \<open>prev\<close> pointers are lists. The arithmetic of \<open>double\<close> and \<open>malloc\<close> are parameters.
\<close>

section \<open>The tree\<close>

datatype 'd cJSON = CJSON
  (jtype: u32) (valuestring: "byte list option") (valueint: u32) (valuedouble: 'd)
  (jname: "byte list option") (jchild: "'d cJSON list")

definition cJSON_False :: u32 where "cJSON_False = 0"
definition cJSON_True :: u32 where "cJSON_True = 1"
definition cJSON_NULL :: u32 where "cJSON_NULL = 2"
definition cJSON_Number :: u32 where "cJSON_Number = 3"
definition cJSON_String :: u32 where "cJSON_String = 4"
definition cJSON_Array :: u32 where "cJSON_Array = 5"
definition cJSON_Object :: u32 where "cJSON_Object = 6"
definition cJSON_IsReference :: u32 where "cJSON_IsReference = 256"
definition cJSON_StringIsConst :: u32 where "cJSON_StringIsConst = 512"

lemmas type_codes = cJSON_False_def cJSON_True_def cJSON_NULL_def cJSON_Number_def cJSON_String_def
  cJSON_Array_def cJSON_Object_def

primrec set_type :: "u32 \<Rightarrow> 'd cJSON \<Rightarrow> 'd cJSON" where
  "set_type t (CJSON _ s i d n ch) = CJSON t s i d n ch"

primrec set_valuestring :: "byte list option \<Rightarrow> 'd cJSON \<Rightarrow> 'd cJSON" where
  "set_valuestring s (CJSON t _ i d n ch) = CJSON t s i d n ch"

primrec set_valueint :: "u32 \<Rightarrow> 'd cJSON \<Rightarrow> 'd cJSON" where
  "set_valueint i (CJSON t s _ d n ch) = CJSON t s i d n ch"

primrec set_valuedouble :: "'d \<Rightarrow> 'd cJSON \<Rightarrow> 'd cJSON" where
  "set_valuedouble d (CJSON t s i _ n ch) = CJSON t s i d n ch"

primrec set_name :: "byte list option \<Rightarrow> 'd cJSON \<Rightarrow> 'd cJSON" where
  "set_name n (CJSON t s i d _ ch) = CJSON t s i d n ch"

primrec set_child :: "'d cJSON list \<Rightarrow> 'd cJSON \<Rightarrow> 'd cJSON" where
  "set_child ch (CJSON t s i d n _) = CJSON t s i d n ch"

text \<open>What the code does with values of type \<open>double\<close>: zero, \<open>n * 10.0 + (c - '0')\<close>,
  \<open>sign * n * pow(10.0, e)\<close>, the conversions from and to \<open>int\<close>, the test against 0, the test that
  it is the given integer, and the text of \<open>%.0f\<close>, \<open>%e\<close> or \<open>%f\<close>.\<close>

record 'd fp =
  fp_zero :: 'd
  fp_digit :: "'d \<Rightarrow> byte \<Rightarrow> 'd"
  fp_scale :: "int \<Rightarrow> 'd \<Rightarrow> int \<Rightarrow> 'd"
  fp_of_int :: "int \<Rightarrow> 'd"
  fp_int :: "'d \<Rightarrow> u32"
  fp_is_zero :: "'d \<Rightarrow> bool"
  fp_near :: "u32 \<Rightarrow> 'd \<Rightarrow> bool"
  fp_text :: "'d \<Rightarrow> byte list"

section \<open>The state: allocations and the error pointer\<close>

record jstate =
  allocs :: nat
  ep :: "byte list option"

type_synonym 'a jm = "jstate \<Rightarrow> ('a \<times> jstate) cres"

definition jret :: "'a \<Rightarrow> 'a jm" where
  "jret x s = Inr (x, s)"

definition jbind :: "'a jm \<Rightarrow> ('a \<Rightarrow> 'b jm) \<Rightarrow> 'b jm" where
  "jbind m f s = cbind (m s) (\<lambda>(x, s). f x s)"

text \<open>A computation that only reads memory.\<close>

definition jlift :: "'a cres \<Rightarrow> 'a jm" where
  "jlift m s = cbind m (\<lambda>x. Inr (x, s))"

text \<open>\<open>if (!p) return 0;\<close>\<close>

definition jtry :: "'a option jm \<Rightarrow> ('a \<Rightarrow> 'b option jm) \<Rightarrow> 'b option jm" where
  "jtry m f = jbind m (\<lambda>r. case r of None \<Rightarrow> jret None | Some x \<Rightarrow> f x)"

text \<open>\<open>ep=p; return 0;\<close>\<close>

definition jfail :: "byte list \<Rightarrow> 'a option jm" where
  "jfail p s = Inr (None, s\<lparr>ep := Some p\<rparr>)"

text \<open>The \<open>k\<close>-th allocation gives the contents of a block, or nothing.\<close>

type_synonym mallocs = "nat \<Rightarrow> (nat \<Rightarrow> byte) option"

definition cJSON_malloc :: "mallocs \<Rightarrow> nat \<Rightarrow> byte list option jm" where
  "cJSON_malloc m sz s =
     (let r = map_option (\<lambda>g. map g [0..<sz]) (m (allocs s)) in Inr (r, s\<lparr>allocs := Suc (allocs s)\<rparr>))"

definition new_item :: "'d fp \<Rightarrow> 'd cJSON" where
  "new_item fp = CJSON 0 None 0 (fp_zero fp) None []"

definition cJSON_New_Item :: "mallocs \<Rightarrow> 'd fp \<Rightarrow> 'd cJSON option jm" where
  "cJSON_New_Item m fp = jtry (cJSON_malloc m 40) (\<lambda>_. jret (Some (new_item fp)))"

section \<open>Reading text\<close>

fun peek :: "byte list \<Rightarrow> byte cres" where
  "peek [] = Inl Out_Of_Bounds"
| "peek (c # _) = Inr c"

text \<open>\<open>!strncmp(value, word, length of word)\<close>\<close>

fun starts :: "byte list \<Rightarrow> byte list \<Rightarrow> bool cres" where
  "starts [] value = Inr True"
| "starts (p # ps) value = cbind (peek value) (\<lambda>c. if c = p then starts ps (tl value) else Inr False)"

fun skip :: "byte list \<Rightarrow> byte list cres" where
  "skip [] = Inl Out_Of_Bounds"
| "skip (c # cs) = (if c \<noteq> 0 \<and> c \<le> 32 then skip cs else Inr (c # cs))"

subsection \<open>Numbers\<close>

fun int_digits :: "'d fp \<Rightarrow> 'd \<Rightarrow> byte list \<Rightarrow> ('d \<times> byte list) cres" where
  "int_digits fp n [] = Inl Out_Of_Bounds"
| "int_digits fp n (c # cs) = (if isdigit c then int_digits fp (fp_digit fp n c) cs else Inr (n, c # cs))"

fun frac_digits :: "'d fp \<Rightarrow> 'd \<Rightarrow> int \<Rightarrow> byte list \<Rightarrow> ('d \<times> int \<times> byte list) cres" where
  "frac_digits fp n scale [] = Inl Out_Of_Bounds"
| "frac_digits fp n scale (c # cs) =
     (if isdigit c then frac_digits fp (fp_digit fp n c) (scale - 1) cs else Inr (n, scale, c # cs))"

fun exp_digits :: "u32 \<Rightarrow> byte list \<Rightarrow> (u32 \<times> byte list) cres" where
  "exp_digits subscale [] = Inl Out_Of_Bounds"
| "exp_digits subscale (c # cs) =
     (if isdigit c then exp_digits (subscale * 10 + ucast (c - 48)) cs else Inr (subscale, c # cs))"

definition parse_exponent :: "byte list \<Rightarrow> (int \<times> byte list) cres" where
  "parse_exponent num =
     cbind (peek num) (\<lambda>c.
     if c = 101 \<or> c = 69 then
       (let num = tl num in
        cbind (peek num) (\<lambda>c.
        let (signsubscale, num) = (if c = 43 then (1, tl num) else if c = 45 then (-1, tl num) else (1, num))
        in cbind (exp_digits 0 num) (\<lambda>(subscale, num). Inr (sint subscale * signsubscale, num))))
     else Inr (0, num))"

definition parse_fraction :: "'d fp \<Rightarrow> 'd \<Rightarrow> byte list \<Rightarrow> ('d \<times> int \<times> byte list) cres" where
  "parse_fraction fp n num =
     cbind (peek num) (\<lambda>c.
     if c = 46 then
       cbind (peek (tl num)) (\<lambda>d. if isdigit d then frac_digits fp n 0 (tl num) else Inr (n, 0, num))
     else Inr (n, 0, num))"

definition parse_number :: "'d fp \<Rightarrow> 'd cJSON \<Rightarrow> byte list \<Rightarrow> ('d cJSON \<times> byte list) cres" where
  "parse_number fp item num =
     cbind (peek num) (\<lambda>c.
     let (sign, num) = (if c = 45 then (-1, tl num) else (1, num)) in
     cbind (peek num) (\<lambda>c.
     let num = (if c = 48 then tl num else num) in
     cbind (peek num) (\<lambda>c.
     cbind (if 49 \<le> c \<and> c \<le> 57 then int_digits fp (fp_zero fp) num else Inr (fp_zero fp, num)) (\<lambda>(n, num).
     cbind (parse_fraction fp n num) (\<lambda>(n, scale, num).
     cbind (parse_exponent num) (\<lambda>(subscale, num).
     let n = fp_scale fp sign n (scale + subscale) in
     Inr (set_type cJSON_Number (set_valueint (fp_int fp n) (set_valuedouble n item)), num)))))))"

subsection \<open>Strings\<close>

definition hex_digit :: "byte \<Rightarrow> u32 option" where
  "hex_digit c = (if 48 \<le> c \<and> c \<le> 57 then Some (ucast (c - 48))
     else if 65 \<le> c \<and> c \<le> 70 then Some (10 + ucast (c - 65))
     else if 97 \<le> c \<and> c \<le> 102 then Some (10 + ucast (c - 97)) else None)"

fun hex_digits :: "nat \<Rightarrow> u32 \<Rightarrow> byte list \<Rightarrow> u32 cres" where
  "hex_digits 0 h str = Inr h"
| "hex_digits (Suc k) h str =
     cbind (peek str) (\<lambda>c. case hex_digit c of None \<Rightarrow> Inr 0
       | Some d \<Rightarrow> hex_digits k (push_bit 4 h + d) (tl str))"

definition parse_hex4 :: "byte list \<Rightarrow> u32 cres" where
  "parse_hex4 str = hex_digits 4 0 str"

text \<open>The first loop: the number of characters, an escaped one counted once.\<close>

fun string_len :: "byte list \<Rightarrow> nat \<Rightarrow> nat cres" where
  "string_len [] len = Inl Out_Of_Bounds"
| "string_len (c # cs) len =
     (if c \<noteq> 34 \<and> c \<noteq> 0 then
        if c = 92 then (case cs of [] \<Rightarrow> Inl Out_Of_Bounds | _ # cs' \<Rightarrow> string_len cs' (len + 1))
        else string_len cs (len + 1)
      else Inr len)"

text \<open>\<open>*ptr2++ = ...\<close> of some bytes.\<close>

definition store :: "byte list \<Rightarrow> nat \<times> byte list \<Rightarrow> (nat \<times> byte list) cres" where
  "store bs st = (case st of (pos, out) \<Rightarrow>
     if pos + length bs \<le> length out then Inr (pos + length bs, overlay pos bs out) else Inl Out_Of_Bounds)"

definition firstByteMark :: "byte list" where
  "firstByteMark = [0x00, 0x00, 0xC0, 0xE0, 0xF0, 0xF8, 0xFC]"

text \<open>The bytes of \<open>uc\<close>, the last one first, as the fall-through switch stores them.\<close>

fun utf8_tail :: "nat \<Rightarrow> u32 \<Rightarrow> byte list \<Rightarrow> u32 \<times> byte list" where
  "utf8_tail (Suc (Suc k)) uc bs = utf8_tail (Suc k) (drop_bit 6 uc) (ucast ((uc OR 0x80) AND 0xBF) # bs)"
| "utf8_tail k uc bs = (uc, bs)"

definition utf8 :: "u32 \<Rightarrow> byte list" where
  "utf8 uc =
     (let len = (if uc < 0x80 then 1 else if uc < 0x800 then 2 else if uc < 0x10000 then 3 else 4);
          (uc, bs) = utf8_tail len uc []
      in ucast (uc OR ucast (firstByteMark ! len)) # bs)"

text \<open>The case of \<open>\u\<close>, with \<open>ptr\<close> at the \<open>u\<close>: what is stored and by how much \<open>ptr\<close> moves.\<close>

definition unicode_escape :: "byte list \<Rightarrow> (byte list \<times> nat) cres" where
  "unicode_escape ptr =
     cbind (parse_hex4 (drop 1 ptr)) (\<lambda>uc.
     if (0xDC00 \<le> uc \<and> uc \<le> 0xDFFF) \<or> uc = 0 then Inr ([], 4)
     else if 0xD800 \<le> uc \<and> uc \<le> 0xDBFF then
       cbind (peek (drop 5 ptr)) (\<lambda>c1.
       if c1 \<noteq> 92 then Inr ([], 4)
       else cbind (peek (drop 6 ptr)) (\<lambda>c2.
         if c2 \<noteq> 117 then Inr ([], 4)
         else cbind (parse_hex4 (drop 7 ptr)) (\<lambda>uc2.
           if uc2 < 0xDC00 \<or> 0xDFFF < uc2 then Inr ([], 10)
           else Inr (utf8 (0x10000 + (push_bit 10 (uc AND 0x3FF) OR (uc2 AND 0x3FF))), 10))))
     else Inr (utf8 uc, 4))"

definition escape :: "byte list \<Rightarrow> (byte list \<times> nat) cres" where
  "escape ptr =
     cbind (peek ptr) (\<lambda>c.
     if c = 98 then Inr ([8], 0) else if c = 102 then Inr ([12], 0) else if c = 110 then Inr ([10], 0)
     else if c = 114 then Inr ([13], 0) else if c = 116 then Inr ([9], 0)
     else if c = 117 then unicode_escape ptr
     else Inr ([c], 0))"

function unescape :: "byte list \<Rightarrow> nat \<times> byte list \<Rightarrow> (byte list \<times> nat \<times> byte list) cres" where
  "unescape [] st = Inl Out_Of_Bounds"
| "unescape (c # cs) st =
     (if c \<noteq> 34 \<and> c \<noteq> 0 then
        if c \<noteq> 92 then cbind (store [c] st) (unescape cs)
        else cbind (escape cs) (\<lambda>(bs, k). cbind (store bs st) (unescape (drop (k + 1) cs)))
      else Inr (c # cs, st))"
  by pat_completeness auto
termination by (relation "measure (\<lambda>(ptr, st). length ptr)") auto

definition parse_string :: "mallocs \<Rightarrow> 'd cJSON \<Rightarrow> byte list \<Rightarrow> ('d cJSON \<times> byte list) option jm" where
  "parse_string m item str =
     jbind (jlift (peek str)) (\<lambda>c.
     if c \<noteq> 34 then jfail str
     else
       jbind (jlift (string_len (tl str) 0)) (\<lambda>len.
       jtry (cJSON_malloc m (len + 1)) (\<lambda>out.
       jbind (jlift (unescape (tl str) (0, out))) (\<lambda>(ptr, pos, out).
       jbind (jlift (store [0] (pos, out))) (\<lambda>(pos, out).
       jbind (jlift (peek ptr)) (\<lambda>c.
       let ptr = (if c = 34 then tl ptr else ptr) in
       jret (Some (set_type cJSON_String (set_valuestring (Some out) item), ptr))))))))"

section \<open>The parser\<close>

text \<open>The functions of the parser call each other; each takes the parser of values as an argument, with
  one unit of fuel for each nested value and each round of the two loops.\<close>

type_synonym 'd value_parser = "'d cJSON \<Rightarrow> byte list \<Rightarrow> ('d cJSON \<times> byte list) option jm"

primrec parse_elements ::
  "nat \<Rightarrow> 'd value_parser \<Rightarrow> mallocs \<Rightarrow> 'd fp \<Rightarrow> 'd cJSON list \<Rightarrow> byte list \<Rightarrow>
     ('d cJSON list \<times> byte list) option jm" where
  "parse_elements 0 pv m fp ch value = jlift (Inl Diverges)"
| "parse_elements (Suc n) pv m fp ch value =
     jbind (jlift (peek value)) (\<lambda>c.
     if c = 44 then
       jtry (cJSON_New_Item m fp) (\<lambda>child.
       jbind (jlift (skip (tl value))) (\<lambda>value.
       jtry (pv child value) (\<lambda>(child, value).
       jbind (jlift (skip value)) (\<lambda>value.
       parse_elements n pv m fp (ch @ [child]) value))))
     else if c = 93 then jret (Some (ch, tl value))
     else jfail value)"

definition parse_array :: "nat \<Rightarrow> 'd value_parser \<Rightarrow> mallocs \<Rightarrow> 'd fp \<Rightarrow> 'd value_parser" where
  "parse_array n pv m fp item value =
     jbind (jlift (peek value)) (\<lambda>c.
     if c \<noteq> 91 then jfail value
     else
       jbind (jlift (skip (tl value))) (\<lambda>value.
       jbind (jlift (peek value)) (\<lambda>c.
       if c = 93 then jret (Some (set_type cJSON_Array item, tl value))
       else
         jtry (cJSON_New_Item m fp) (\<lambda>child.
         jbind (jlift (skip value)) (\<lambda>value.
         jtry (pv child value) (\<lambda>(child, value).
         jbind (jlift (skip value)) (\<lambda>value.
         jtry (parse_elements n pv m fp [child] value) (\<lambda>(ch, value).
         jret (Some (set_child ch (set_type cJSON_Array item), value))))))))))"

text \<open>One member of an object: its name, the colon and its value.\<close>

definition parse_member :: "'d value_parser \<Rightarrow> mallocs \<Rightarrow> 'd value_parser" where
  "parse_member pv m child value =
     jbind (jlift (skip value)) (\<lambda>value.
     jtry (parse_string m child value) (\<lambda>(child, value).
     jbind (jlift (skip value)) (\<lambda>value.
     let child = set_valuestring None (set_name (valuestring child) child) in
     jbind (jlift (peek value)) (\<lambda>c.
     if c \<noteq> 58 then jfail value
     else
       jbind (jlift (skip (tl value))) (\<lambda>value.
       jtry (pv child value) (\<lambda>(child, value).
       jbind (jlift (skip value)) (\<lambda>value.
       jret (Some (child, value)))))))))"

primrec parse_members ::
  "nat \<Rightarrow> 'd value_parser \<Rightarrow> mallocs \<Rightarrow> 'd fp \<Rightarrow> 'd cJSON list \<Rightarrow> byte list \<Rightarrow>
     ('d cJSON list \<times> byte list) option jm" where
  "parse_members 0 pv m fp ch value = jlift (Inl Diverges)"
| "parse_members (Suc n) pv m fp ch value =
     jbind (jlift (peek value)) (\<lambda>c.
     if c = 44 then
       jtry (cJSON_New_Item m fp) (\<lambda>child.
       jtry (parse_member pv m child (tl value)) (\<lambda>(child, value).
       parse_members n pv m fp (ch @ [child]) value))
     else if c = 125 then jret (Some (ch, tl value))
     else jfail value)"

definition parse_object :: "nat \<Rightarrow> 'd value_parser \<Rightarrow> mallocs \<Rightarrow> 'd fp \<Rightarrow> 'd value_parser" where
  "parse_object n pv m fp item value =
     jbind (jlift (peek value)) (\<lambda>c.
     if c \<noteq> 123 then jfail value
     else
       jbind (jlift (skip (tl value))) (\<lambda>value.
       jbind (jlift (peek value)) (\<lambda>c.
       if c = 125 then jret (Some (set_type cJSON_Object item, tl value))
       else
         jtry (cJSON_New_Item m fp) (\<lambda>child.
         jtry (parse_member pv m child value) (\<lambda>(child, value).
         jtry (parse_members n pv m fp [child] value) (\<lambda>(ch, value).
         jret (Some (set_child ch (set_type cJSON_Object item), value))))))))"

primrec parse_value :: "nat \<Rightarrow> mallocs \<Rightarrow> 'd fp \<Rightarrow> 'd value_parser" where
  "parse_value 0 m fp item value = jlift (Inl Diverges)"
| "parse_value (Suc n) m fp item value =
     jbind (jlift (starts (lit ''null'') value)) (\<lambda>b.
     if b then jret (Some (set_type cJSON_NULL item, drop 4 value)) else
     jbind (jlift (starts (lit ''false'') value)) (\<lambda>b.
     if b then jret (Some (set_type cJSON_False item, drop 5 value)) else
     jbind (jlift (starts (lit ''true'') value)) (\<lambda>b.
     if b then jret (Some (set_valueint 1 (set_type cJSON_True item), drop 4 value)) else
     jbind (jlift (peek value)) (\<lambda>c.
     if c = 34 then parse_string m item value
     else if c = 45 \<or> 48 \<le> c \<and> c \<le> 57 then jbind (jlift (parse_number fp item value)) (\<lambda>r. jret (Some r))
     else if c = 91 then parse_array n (parse_value n m fp) m fp item value
     else if c = 123 then parse_object n (parse_value n m fp) m fp item value
     else jfail value))))"

definition cJSON_ParseWithOpts ::
  "mallocs \<Rightarrow> 'd fp \<Rightarrow> byte list \<Rightarrow> bool \<Rightarrow> ('d cJSON \<times> byte list) option jm" where
  "cJSON_ParseWithOpts m fp value require_null_terminated =
     jbind (cJSON_New_Item m fp) (\<lambda>c. jbind (\<lambda>s. Inr ((), s\<lparr>ep := None\<rparr>)) (\<lambda>_.
     jtry (jret c) (\<lambda>c.
     jbind (jlift (skip value)) (\<lambda>value.
     jtry (parse_value (Suc (length value)) m fp c value) (\<lambda>(c, rest).
     if require_null_terminated then
       jbind (jlift (skip rest)) (\<lambda>rest.
       jbind (jlift (peek rest)) (\<lambda>b. if b \<noteq> 0 then jfail rest else jret (Some (c, rest))))
     else jret (Some (c, rest)))))))"

definition cJSON_Parse :: "mallocs \<Rightarrow> 'd fp \<Rightarrow> byte list \<Rightarrow> 'd cJSON option jm" where
  "cJSON_Parse m fp value = jbind (cJSON_ParseWithOpts m fp value False) (\<lambda>r. jret (map_option fst r))"

section \<open>Looking into the tree\<close>

fun strcasecmp_loop :: "byte list \<Rightarrow> byte list \<Rightarrow> int cres" where
  "strcasecmp_loop (a # s1) (b # s2) =
     (if tolower a = tolower b then (if a = 0 then Inr 0 else strcasecmp_loop s1 s2)
      else Inr (uint (tolower a) - uint (tolower b)))"
| "strcasecmp_loop s1 s2 = Inl Out_Of_Bounds"

definition cJSON_strcasecmp :: "byte list option \<Rightarrow> byte list option \<Rightarrow> int cres" where
  "cJSON_strcasecmp s1 s2 =
     (case s1 of None \<Rightarrow> Inr (if s2 = None then 0 else 1)
      | Some s1 \<Rightarrow> (case s2 of None \<Rightarrow> Inr 1 | Some s2 \<Rightarrow> strcasecmp_loop s1 s2))"

definition deref :: "'a option \<Rightarrow> 'a cres" where
  "deref p = (case p of None \<Rightarrow> Inl Null_Deref | Some x \<Rightarrow> Inr x)"

definition cJSON_GetArraySize :: "'d cJSON option \<Rightarrow> nat cres" where
  "cJSON_GetArraySize array = cbind (deref array) (\<lambda>a. Inr (length (jchild a)))"

fun array_item :: "'d cJSON list \<Rightarrow> int \<Rightarrow> 'd cJSON option" where
  "array_item [] item = None"
| "array_item (c # cs) item = (if item > 0 then array_item cs (item - 1) else Some c)"

definition cJSON_GetArrayItem :: "'d cJSON option \<Rightarrow> int \<Rightarrow> 'd cJSON option cres" where
  "cJSON_GetArrayItem array item = cbind (deref array) (\<lambda>a. Inr (array_item (jchild a) item))"

fun object_item :: "'d cJSON list \<Rightarrow> byte list \<Rightarrow> 'd cJSON option cres" where
  "object_item [] string = Inr None"
| "object_item (c # cs) string =
     cbind (cJSON_strcasecmp (jname c) (Some string)) (\<lambda>r. if r \<noteq> 0 then object_item cs string else Inr (Some c))"

definition cJSON_GetObjectItem :: "'d cJSON option \<Rightarrow> byte list \<Rightarrow> 'd cJSON option cres" where
  "cJSON_GetObjectItem object string = cbind (deref object) (\<lambda>a. object_item (jchild a) string)"

end
