(* ===== verification/CJson_Text.thy ===== *)
theory CJson_Text
  imports CJson
begin

text \<open>
  What the parser of JSON promises: the values a tree stands for, the text of a value, and that parsing the
  text gives the value back; and that the parser always ends.
\<close>

section \<open>Values\<close>

datatype json = JNull | JBool bool | JNum u32 | JStr "byte list" | JArr "json list" | JObj "(byte list \<times> json) list"

text \<open>The value a tree stands for, its strings read up to their terminators.\<close>

fun json_of :: "'d cJSON \<Rightarrow> json" where
  "json_of (CJSON t s i d nm ch) =
     (let k = t AND 255 in
      if k = cJSON_False then JBool False else if k = cJSON_True then JBool True
      else if k = cJSON_Number then JNum i else if k = cJSON_String then JStr (cstr (the s))
      else if k = cJSON_Array then JArr (map json_of ch)
      else if k = cJSON_Object then JObj (map (\<lambda>c. (cstr (the (jname c)), json_of c)) ch)
      else JNull)"

text \<open>Its text, with or without white space, at a depth.\<close>

definition hex_char :: "nat \<Rightarrow> byte" where
  "hex_char n = (if n < 10 then 48 + word_of_nat n else 87 + word_of_nat n)"

definition escaped :: "byte \<Rightarrow> byte list" where
  "escaped c = (if 31 < c \<and> c \<noteq> 34 \<and> c \<noteq> 92 then [c]
     else if c = 92 then [92, 92] else if c = 34 then [92, 34] else if c = 8 then [92, 98]
     else if c = 12 then [92, 102] else if c = 10 then [92, 110] else if c = 13 then [92, 114]
     else if c = 9 then [92, 116]
     else [92, 117, 48, 48, hex_char (unat c div 16), hex_char (unat c mod 16)])"

definition quote :: "byte list \<Rightarrow> byte list" where
  "quote bs = 34 # concat (map escaped bs) @ [34]"

definition tabs :: "bool \<Rightarrow> nat \<Rightarrow> byte list" where
  "tabs fmt k = (if fmt then replicate k 9 else [])"

definition nl :: "bool \<Rightarrow> byte list" where
  "nl fmt = (if fmt then [10] else [])"

fun separated :: "byte list \<Rightarrow> byte list list \<Rightarrow> byte list" where
  "separated sep [] = []"
| "separated sep [x] = x"
| "separated sep (x # xs) = x @ sep @ separated sep xs"

fun json_text :: "bool \<Rightarrow> nat \<Rightarrow> json \<Rightarrow> byte list" where
  "json_text fmt depth JNull = lit ''null''"
| "json_text fmt depth (JBool b) = (if b then lit ''true'' else lit ''false'')"
| "json_text fmt depth (JNum i) = dec_text (-1) i"
| "json_text fmt depth (JStr bs) = quote bs"
| "json_text fmt depth (JArr js) =
     91 # separated (44 # (if fmt then [32] else [])) (map (json_text fmt (depth + 1)) js) @ [93]"
| "json_text fmt depth (JObj ms) =
     (if ms = [] then 123 # nl fmt @ tabs fmt (depth - 1) @ [125]
      else 123 # nl fmt @
        separated (44 # nl fmt)
          (map (\<lambda>(k, j). tabs fmt (depth + 1) @ quote k @ 58 # tabs fmt 1 @ json_text fmt (depth + 1) j) ms)
        @ nl fmt @ tabs fmt depth @ [125])"

text \<open>Values whose strings can be C strings.\<close>

fun c_json :: "json \<Rightarrow> bool" where
  "c_json (JStr bs) = (0 \<notin> set bs)"
| "c_json (JArr js) = (\<forall>j\<in>set js. c_json j)"
| "c_json (JObj ms) = (\<forall>(k, j)\<in>set ms. 0 \<notin> set k \<and> c_json j)"
| "c_json _ = True"

section \<open>Running the parser\<close>

lemma jbind_run [simp]: "m s = Inr (x, s') \<Longrightarrow> jbind m f s = f x s'"
  by (simp add: jbind_def)

lemma jlift_run [simp]: "jbind (jlift (Inr x)) f = f x"
  by (rule ext) (simp add: jbind_def jlift_def)

lemma jret_run [simp]: "jbind (jret x) f = f x"
  by (rule ext) (simp add: jbind_def jret_def)

lemma jtry_run: "m s = Inr (Some x, s') \<Longrightarrow> jtry m f s = f x s'"
  by (simp add: jtry_def jbind_def)

lemma jtry_ret [simp]: "jtry (jret (Some x)) f s = f x s"
  by (simp add: jtry_def)

definition total_malloc :: "mallocs \<Rightarrow> bool" where
  "total_malloc m \<longleftrightarrow> (\<forall>k. m k \<noteq> None)"

lemma malloc_run:
  assumes "total_malloc m"
  shows "\<exists>out. length out = n \<and> cJSON_malloc m n s = Inr (Some out, s\<lparr>allocs := Suc (allocs s)\<rparr>)"
proof -
  obtain g where "m (allocs s) = Some g" using assms by (auto simp: total_malloc_def)
  then show ?thesis by (intro exI[of _ "map g [0..<n]"]) (simp add: cJSON_malloc_def)
qed

lemma new_item_run:
  assumes "total_malloc m"
  shows "cJSON_New_Item m fp s = Inr (Some (new_item fp), s\<lparr>allocs := Suc (allocs s)\<rparr>)"
proof -
  obtain out where "cJSON_malloc m 40 s = Inr (Some out, s\<lparr>allocs := Suc (allocs s)\<rparr>)"
    using malloc_run[OF assms] by blast
  then show ?thesis by (simp add: cJSON_New_Item_def jtry_run jret_def)
qed

section \<open>Strings\<close>

text \<open>What \<open>string_len\<close> counts for a character.\<close>

definition units :: "byte \<Rightarrow> nat" where
  "units c = (if length (escaped c) = 6 then 5 else 1)"

lemma hex_chars:
  "\<forall>n\<in>set [0..<16]. hex_digit (hex_char n) = Some (word_of_nat n) \<and>
     hex_char n \<noteq> 34 \<and> hex_char n \<noteq> 0 \<and> hex_char n \<noteq> 92"
  by (simp add: upt_rec hex_digit_def hex_char_def)

lemma hex_digit_char: "n < 16 \<Longrightarrow> hex_digit (hex_char n) = Some (word_of_nat n)"
  using hex_chars by simp

lemma hex_char_plain: "n < 16 \<Longrightarrow> hex_char n \<noteq> 34 \<and> hex_char n \<noteq> 0 \<and> hex_char n \<noteq> 92"
  using hex_chars by simp

lemma parse_hex4_chars:
  assumes "a < 16" "b < 16"
  shows "parse_hex4 (48 # 48 # hex_char a # hex_char b # cs) = Inr (word_of_nat (16 * a + b))"
proof -
  have z: "hex_digit 48 = Some 0" by (simp add: hex_digit_def)
  show ?thesis
    using assms
    by (simp add: parse_hex4_def eval_nat_numeral z hex_digit_char push_bit_eq_mult)
qed

lemma escaped_cases:
  obtains "31 < c" "c \<noteq> 34" "c \<noteq> 92" "escaped c = [c]"
  | e where "escaped c = [92, e]" "(c, e) \<in> {(92, 92), (34, 34), (8, 98), (12, 102), (10, 110), (13, 114), (9, 116)}"
  | a b where "escaped c = [92, 117, 48, 48, hex_char a, hex_char b]" "a < 16" "b < 16" "unat c = 16 * a + b" "unat c < 32"
proof -
  consider (plain) "31 < c" "c \<noteq> 34" "c \<noteq> 92" | (short) "c \<in> {92, 34, 8, 12, 10, 13, 9}"
    | (long) "\<not> 31 < c" "c \<notin> {92, 34, 8, 12, 10, 13, 9}" by blast
  then show ?thesis
  proof cases
    case plain
    then show ?thesis using that(1) by (simp add: escaped_def)
  next
    case short
    then show ?thesis using that(2) by (auto simp: escaped_def)
  next
    case long
    then have "unat c < 32" by (simp add: word_less_nat_alt)
    moreover from this have "unat c div 16 < 16" by linarith
    moreover have "escaped c = [92, 117, 48, 48, hex_char (unat c div 16), hex_char (unat c mod 16)]"
      using long by (simp add: escaped_def)
    ultimately show ?thesis using that(3)[of "unat c div 16" "unat c mod 16"] by simp
  qed
qed

lemma string_len_escaped:
  assumes "c \<noteq> 0"
  shows "string_len (escaped c @ cs) len = string_len cs (len + units c)"
proof (cases c rule: escaped_cases)
  case 1
  then show ?thesis using assms by (simp add: units_def)
next
  case (2 e)
  then show ?thesis by (auto simp: units_def)
next
  case (3 a b)
  show ?thesis by (simp add: 3(1) hex_char_plain[OF 3(2)] hex_char_plain[OF 3(3)] units_def) (simp add: numeral_eq_Suc)
qed

lemma string_len_text:
  "0 \<notin> set bs \<Longrightarrow> string_len (concat (map escaped bs) @ 34 # rest) len = Inr (len + sum_list (map units bs))"
  by (induction bs arbitrary: len) (auto simp: string_len_escaped)

lemma utf8_small:
  assumes "uc < 0x80"
  shows "utf8 uc = [ucast uc]"
  using assms by (simp add: utf8_def firstByteMark_def)

lemma escape_unicode:
  assumes "a < 16" "b < 16" "unat c = 16 * a + b" "unat c < 32" "c \<noteq> 0"
  shows "escape (117 # 48 # 48 # hex_char a # hex_char b # cs) = Inr ([c], 4)"
proof -
  define uc :: u32 where "uc = ucast c"
  have "word_of_nat (16 * a + b) = uc" using assms(3)[symmetric] by (simp add: uc_def)
  then have hex: "parse_hex4 (48 # 48 # hex_char a # hex_char b # cs) = Inr uc"
    using parse_hex4_chars[OF assms(1,2)] by metis
  have n: "unat uc = unat c" using unsigned_less[of c, where 'a = nat] by (simp add: uc_def unsigned_ucast_eq take_bit_nat_eq_self_iff)
  have "uc \<noteq> 0" using assms(5) n by (metis unat_0 unat_eq_zero)
  moreover have "\<not> 0xDC00 \<le> uc" "\<not> 0xD800 \<le> uc" "uc < 0x80"
    using n assms(4) by (simp_all add: word_le_nat_alt word_less_nat_alt)
  moreover have "ucast uc = c" by (rule bit_word_eqI) (simp add: bit_unsigned_iff uc_def)
  ultimately show ?thesis
    by (simp add: escape_def unicode_escape_def hex utf8_small)
qed

lemma unescape_escaped:
  assumes "c \<noteq> 0"
  shows "unescape (escaped c @ cs) st = cbind (store [c] st) (unescape cs)"
proof (cases c rule: escaped_cases)
  case 1
  then show ?thesis using assms by simp
next
  case (2 e)
  then show ?thesis by (auto simp: escape_def)
next
  case (3 a b)
  show ?thesis using escape_unicode[OF 3(2-5) assms, of cs] by (simp add: 3(1))
qed

lemma unescape_text:
  "0 \<notin> set bs \<Longrightarrow> pos + length bs \<le> length out \<Longrightarrow>
   unescape (concat (map escaped bs) @ 34 # rest) (pos, out) = Inr (34 # rest, pos + length bs, overlay pos bs out)"
proof (induction bs arbitrary: pos out)
  case (Cons b bs)
  then show ?case
    using overlay_append[of pos "[b]" bs out] by (simp add: unescape_escaped store_def)
qed simp

lemma units_ge: "length bs \<le> sum_list (map units bs)"
  by (induction bs) (auto simp: units_def)

lemma parse_string_text:
  assumes "total_malloc m" "0 \<notin> set bs"
  shows "\<exists>out. parse_string m item (quote bs @ rest) s =
    Inr (Some (set_type cJSON_String (set_valuestring (Some out) item), rest), s\<lparr>allocs := Suc (allocs s)\<rparr>) \<and>
    cstr out = bs"
proof -
  obtain out where out: "length out = sum_list (map units bs) + 1"
    "cJSON_malloc m (sum_list (map units bs) + 1) s = Inr (Some out, s\<lparr>allocs := Suc (allocs s)\<rparr>)"
    using malloc_run[OF assms(1)] by blast
  have e: "unescape (concat (map escaped bs) @ 34 # rest) (0, out) = Inr (34 # rest, length bs, overlay 0 bs out)"
    "store [0] (length bs, overlay 0 bs out) = Inr (Suc (length bs), overlay 0 (bs @ [0]) out)"
    using out(1) units_ge[of bs] overlay_append[of 0 bs "[0]" out] assms(2)
    by (simp_all add: store_def unescape_text)
  have "overlay 0 (bs @ [0]) out = bs @ 0 # drop (Suc (length bs)) out"
    using out(1) units_ge[of bs] by (simp add: overlay_def)
  then have "cstr (overlay 0 (bs @ [0]) out) = bs" using assms(2) by simp
  moreover have "parse_string m item (quote bs @ rest) s =
    Inr (Some (set_type cJSON_String (set_valuestring (Some (overlay 0 (bs @ [0]) out)) item), rest), s\<lparr>allocs := Suc (allocs s)\<rparr>)"
    using assms(2) out(2) e
    by (simp add: parse_string_def quote_def string_len_text jtry_run) (simp add: jret_def)
  ultimately show ?thesis by blast
qed

section \<open>Numbers\<close>

text \<open>The arithmetic of \<open>double\<close> is exact on integers below 10 to the 15th.\<close>

definition fp_exact :: "'d fp \<Rightarrow> bool" where
  "fp_exact fp \<longleftrightarrow> fp_zero fp = fp_of_int fp 0 \<and>
     (\<forall>n c. 0 \<le> n \<and> n < 10 ^ 14 \<and> isdigit c \<longrightarrow> fp_digit fp (fp_of_int fp n) c = fp_of_int fp (n * 10 + (uint c - 48))) \<and>
     (\<forall>n. 0 \<le> n \<and> n < 10 ^ 15 \<longrightarrow> fp_scale fp 1 (fp_of_int fp n) 0 = fp_of_int fp n \<and>
        fp_scale fp (-1) (fp_of_int fp n) 0 = fp_of_int fp (- n)) \<and>
     (\<forall>i. fp_int fp (fp_of_int fp (sint i)) = i)"

text \<open>The byte after a value: the end, a comma, a closing bracket or a line feed.\<close>

definition stop :: "byte list \<Rightarrow> bool" where
  "stop rest \<longleftrightarrow> (\<exists>c cs. rest = c # cs \<and> c \<in> {0, 10, 44, 93, 125})"

lemma isdigit_iff: "isdigit b \<longleftrightarrow> 48 \<le> b \<and> b \<le> 57"
  using unsigned_less[of b, where 'a = nat]
  by (auto simp: isdigit_def word_less_nat_alt word_le_nat_alt unat_sub_if_size word_size)

lemma int_digits_text:
  assumes "fp_exact fp" "\<forall>d\<in>set ds. 48 \<le> d \<and> d \<le> 57" "0 \<le> n" "n < 10 ^ (15 - length ds)" "length ds \<le> 14" "stop rest"
  shows "int_digits fp (fp_of_int fp n) (ds @ rest) = Inr (fp_of_int fp (atoi_digits ds n), rest)"
  using assms(2-5)
proof (induction ds arbitrary: n)
  case Nil
  then show ?case using assms(6) by (auto simp: stop_def isdigit_def)
next
  case (Cons d ds)
  have d: "48 \<le> uint d" "uint d \<le> 57" "isdigit d"
    using Cons.prems(1) by (auto simp: word_le_def isdigit_iff)
  have "n < 10 ^ (14 - length ds)" using Cons.prems(3) by simp
  moreover have "(10::int) ^ (15 - length ds) = 10 * 10 ^ (14 - length ds)"
    using Cons.prems(4) by (simp add: Suc_diff_le flip: power_Suc)
  ultimately have "n * 10 + (uint d - 48) < 10 ^ (15 - length ds)" using d by linarith
  moreover have "(10::int) ^ (14 - length ds) \<le> 10 ^ 14" by (intro power_increasing) simp_all
  then have "n < 10 ^ 14" using \<open>n < 10 ^ (14 - length ds)\<close> by linarith
  then have "fp_digit fp (fp_of_int fp n) d = fp_of_int fp (n * 10 + (uint d - 48))"
    using assms(1) d(3) Cons.prems(2) unfolding fp_exact_def by blast
  moreover have "0 \<le> n * 10 + (uint d - 48)" using d Cons.prems(2) by linarith
  ultimately show ?case using Cons d by simp
qed

lemma leading_digit:
  "n \<noteq> 0 \<Longrightarrow> \<exists>d ds. rev (tmp_digits l 10 n) = d # ds \<and> 49 \<le> d \<and> d \<le> 57"
proof (induction "unat n" arbitrary: n rule: less_induct)
  case less
  have step: "rev (tmp_digits l 10 n) = rev (tmp_digits l 10 (n div 10)) @ [digit l (n mod 10)]"
    using less.prems by (simp add: tmp_digits.simps[of l 10 n] divide_10)
  show ?case
  proof (cases "n div 10 = 0")
    case True
    moreover have "unat (n div 10) = unat n div 10" by (simp add: unat_div)
    ultimately have "unat n div 10 = 0" by simp
    then have "unat (n mod 10) = unat n" "unat n \<noteq> 0" "unat n < 10"
      using less.prems by (simp_all add: unat_mod unat_eq_zero)
    then have "49 \<le> digit l (n mod 10)" "digit l (n mod 10) \<le> 57"
      using unat_digit[of "n mod 10" l] by (simp_all add: word_le_nat_alt)
    then show ?thesis using step True by (simp add: tmp_digits.simps)
  next
    case False
    have "unat (n div 10) < unat n" using divide_less[OF less.prems, of 10] by (simp add: divide_10)
    from less.hyps[OF this False] show ?thesis using step by auto
  qed
qed

lemma number_shape:
  fixes i :: u32
  defines "ds \<equiv> (if i = 0 then [48] else rev (tmp_digits False 10 (if sint i < 0 then - i else i)))"
  shows "dec_text (-1) i = (if sint i < 0 then [45] else []) @ ds" "\<forall>d\<in>set ds. 48 \<le> d \<and> d \<le> 57"
    "length ds \<le> 10" "atoi_digits ds 0 = \<bar>sint i\<bar>"
    "i \<noteq> 0 \<Longrightarrow> \<exists>d ds'. ds = d # ds' \<and> 49 \<le> d \<and> d \<le> 57"
proof -
  define k where "k = (if sint i < 0 then - i else i)"
  have ds: "ds = (if i = 0 then [48] else rev (tmp_digits False 10 k))" by (simp add: ds_def k_def)
  have k0: "k = 0 \<longleftrightarrow> i = 0" by (simp add: k_def)
  have val: "int (unat k) = \<bar>sint i\<bar>"
  proof (cases "sint i < 0")
    case True
    then show ?thesis using neg_u32[OF True] by (simp add: k_def)
  next
    case False
    then have "sint i = uint i" using uint_lt2p[of i] by (simp add: sint_u32 not_less split: if_splits)
    then show ?thesis using False by (simp add: k_def)
  qed
  show "dec_text (-1) i = (if sint i < 0 then [45] else []) @ ds"
    by (simp add: dec_text_eq ds_def Let_def)
  show "\<forall>d\<in>set ds. 48 \<le> d \<and> d \<le> 57" using tmp_digits_range[of _ False k] by (auto simp: ds)
  have "unat k < 10 ^ 10" using unsigned_less[of k, where 'a = nat] by simp
  then show "length ds \<le> 10" using tmp_digits_length[of k 10 False] by (auto simp: ds)
  show "atoi_digits ds 0 = \<bar>sint i\<bar>"
    using atoi_digits_tmp[of False k "[]"] val k0 by (auto simp: ds)
  show "\<exists>d ds'. ds = d # ds' \<and> 49 \<le> d \<and> d \<le> 57" if "i \<noteq> 0"
    using leading_digit[of k False] that k0 by (simp add: ds)
qed

lemma parse_number_text:
  assumes "fp_exact fp" "stop rest"
  shows "parse_number fp item (dec_text (-1) i @ rest) =
    Inr (set_type cJSON_Number (set_valueint i (set_valuedouble (fp_of_int fp (sint i)) item)), rest)"
proof -
  define ds where "ds = (if i = 0 then [48] else rev (tmp_digits False 10 (if sint i < 0 then - i else i)))"
  note shape = number_shape[of i, folded ds_def]
  define sgn :: int where "sgn = (if sint i < 0 then -1 else 1)"
  obtain c cs where rest: "rest = c # cs" "c \<in> {0, 10, 44, 93, 125}" using assms(2) by (auto simp: stop_def)
  have tail: "parse_fraction fp x rest = Inr (x, 0, rest)" "parse_exponent rest = Inr (0, rest)" for x
    using rest by (auto simp: parse_fraction_def parse_exponent_def)
  have abs: "0 \<le> \<bar>sint i\<bar>" "\<bar>sint i\<bar> < 10 ^ 15" "sgn * \<bar>sint i\<bar> = sint i"
    using sint_less[of i] sint_ge[of i] by (simp_all add: sgn_def)
  have "fp_scale fp sgn (fp_of_int fp \<bar>sint i\<bar>) 0 = fp_of_int fp (sgn * \<bar>sint i\<bar>)"
    using assms(1) abs(1,2) unfolding fp_exact_def sgn_def by auto
  then have val: "fp_scale fp sgn (fp_of_int fp \<bar>sint i\<bar>) 0 = fp_of_int fp (sint i)" "fp_int fp (fp_of_int fp (sint i)) = i"
    using abs(3) assms(1) unfolding fp_exact_def by auto
  have pre: "parse_number fp item (dec_text (-1) i @ rest) =
      cbind (peek (ds @ rest)) (\<lambda>c. let num = (if c = 48 then tl (ds @ rest) else ds @ rest) in
      cbind (peek num) (\<lambda>c.
      cbind (if 49 \<le> c \<and> c \<le> 57 then int_digits fp (fp_zero fp) num else Inr (fp_zero fp, num)) (\<lambda>(n, num).
      cbind (parse_fraction fp n num) (\<lambda>(n, scale, num).
      cbind (parse_exponent num) (\<lambda>(subscale, num).
      let n = fp_scale fp sgn n (scale + subscale) in
      Inr (set_type cJSON_Number (set_valueint (fp_int fp n) (set_valuedouble n item)), num))))))"
    (is "_ = ?body")
  proof -
    obtain d ds' where ds': "ds = d # ds'" using shape(5) by (cases "i = 0") (auto simp: ds_def)
    then have "48 \<le> d" using shape(2) by simp
    then have "d \<noteq> 45" by auto
    with ds' have "ds = d # ds'" "d \<noteq> 45" by simp_all
    then show ?thesis using shape(1) by (simp add: parse_number_def sgn_def)
  qed
  show ?thesis
  proof (cases "i = 0")
    case True
    then have "ds = [48]" "sgn = 1" by (simp_all add: ds_def sgn_def)
    then show ?thesis
      unfolding pre using rest tail val assms(1) True by (auto simp: fp_exact_def)
  next
    case False
    then obtain d ds' where d: "ds = d # ds'" "49 \<le> d" "d \<le> 57" using shape(5) by blast
    then have "d \<noteq> 48" by (auto simp: word_le_nat_alt)
    have "int_digits fp (fp_of_int fp 0) (ds @ rest) = Inr (fp_of_int fp \<bar>sint i\<bar>, rest)"
      using int_digits_text[OF assms(1) shape(2), of 0 rest] shape(3,4) assms(2) by simp
    moreover have "fp_zero fp = fp_of_int fp 0" using assms(1) by (simp add: fp_exact_def)
    ultimately show ?thesis
      unfolding pre using d \<open>d \<noteq> 48\<close> tail val by simp
  qed
qed

section \<open>Arrays and objects\<close>

lemma separated_Cons: "separated sep (x # xs) = x @ concat (map (\<lambda>y. sep @ y) xs)"
  by (induction xs arbitrary: x) simp_all

definition white :: "byte list \<Rightarrow> bool" where
  "white ws \<longleftrightarrow> (\<forall>c\<in>set ws. c \<noteq> 0 \<and> c \<le> 32)"

lemma white_simps [simp]: "white []" "white (a # ws) \<longleftrightarrow> (a \<noteq> 0 \<and> a \<le> 32) \<and> white ws" "white (nl fmt)" "white (tabs fmt k)"
  "white (ws @ vs) \<longleftrightarrow> white ws \<and> white vs"
  by (auto simp: white_def nl_def tabs_def)

lemma skip_white: "white ws \<Longrightarrow> \<not> (c \<noteq> 0 \<and> c \<le> 32) \<Longrightarrow> skip (ws @ c # cs) = Inr (c # cs)"
  by (induction ws) (auto simp: white_def)

text \<open>The parser \<open>pv\<close> reads the text of \<open>j\<close> at a depth.\<close>

definition reads :: "'d value_parser \<Rightarrow> bool \<Rightarrow> nat \<Rightarrow> json \<Rightarrow> bool" where
  "reads pv fmt d j \<longleftrightarrow> (\<forall>item rest s. stop rest \<and> jchild item = [] \<longrightarrow>
     (\<exists>t s'. pv item (json_text fmt d j @ rest) s = Inr (Some (t, rest), s') \<and> json_of t = j \<and> jname t = jname item))"

lemma readsD:
  assumes "reads pv fmt d j" "stop rest" "jchild item = []"
  obtains t s' where "pv item (json_text fmt d j @ rest) s = Inr (Some (t, rest), s')" "json_of t = j" "jname t = jname item"
  using assms unfolding reads_def by blast

lemma new_item_child [simp]: "jchild (new_item fp) = []"
  by (simp add: new_item_def)

lemma dec_text_head: "\<exists>c cs. dec_text (-1) i = c # cs \<and> (c = 45 \<or> 48 \<le> c \<and> c \<le> 57)"
proof (cases "i = 0")
  case False
  from number_shape(5)[OF this] obtain d ds' where
    "rev (tmp_digits False 10 (if sint i < 0 then - i else i)) = d # ds'" "49 \<le> d" "d \<le> 57"
    using False by auto
  then show ?thesis using False number_shape(1)[of i] by (auto simp: word_le_nat_alt)
qed (use number_shape(1)[of 0] in simp)

lemma text_head:
  "\<exists>c cs. json_text fmt d j = c # cs \<and> 32 < c \<and> c \<noteq> 93 \<and> c \<noteq> 125"
proof (cases j)
  case (JNum i)
  have "\<exists>c cs. dec_text (-1) i = c # cs \<and> (c = 45 \<or> 48 \<le> c \<and> c \<le> 57)" by (rule dec_text_head)
  then show ?thesis using JNum by (auto simp: word_less_nat_alt word_le_nat_alt)
qed (auto simp: lit_def quote_def)

lemma stop_cases [simp]: "stop (44 # cs)" "stop (93 # cs)" "stop (125 # cs)" "stop (10 # cs)" "stop (0 # cs)"
  by (simp_all add: stop_def)

lemma parse_elements_text:
  assumes "total_malloc m" "white ws"
  shows "\<forall>j\<in>set js. reads pv fmt d j \<Longrightarrow> length js < n \<Longrightarrow>
    \<exists>ts s'. parse_elements n pv m fp ch (concat (map (\<lambda>j. 44 # ws @ json_text fmt d j) js) @ 93 # rest) s =
      Inr (Some (ch @ ts, rest), s') \<and> map json_of ts = js"
proof (induction js arbitrary: n ch s)
  case Nil
  then obtain k where "n = Suc k" by (cases n) auto
  then show ?case by (simp add: jret_def)
next
  case (Cons j js)
  then obtain k where n: "n = Suc k" by (cases n) auto
  define rest1 where "rest1 = concat (map (\<lambda>j. 44 # ws @ json_text fmt d j) js) @ 93 # rest"
  have st: "stop rest1" unfolding rest1_def by (cases js) simp_all
  obtain c cs where h: "json_text fmt d j = c # cs" "32 < c" using text_head[of fmt d j] by blast
  obtain t s1 where t: "pv (new_item fp) (json_text fmt d j @ rest1) (s\<lparr>allocs := Suc (allocs s)\<rparr>) = Inr (Some (t, rest1), s1)"
    "json_of t = j" by (rule readsD[OF _ st new_item_child, of pv fmt d j fp]) (use Cons.prems(1) in auto)
  have "\<exists>ts s'. parse_elements k pv m fp (ch @ [t]) rest1 s1 = Inr (Some ((ch @ [t]) @ ts, rest), s') \<and>
      map json_of ts = js"
    unfolding rest1_def by (rule Cons.IH) (use Cons.prems n in auto)
  then obtain ts s2 where ts: "parse_elements k pv m fp (ch @ [t]) rest1 s1 = Inr (Some ((ch @ [t]) @ ts, rest), s2)"
    "map json_of ts = js" by blast
  have sk: "skip (ws @ json_text fmt d j @ rest1) = Inr (json_text fmt d j @ rest1)"
    using skip_white[OF assms(2), of c "cs @ rest1"] h by (simp add: not_le)
  have sk1: "skip rest1 = Inr rest1" unfolding rest1_def by (cases js) simp_all
  have "parse_elements n pv m fp ch (44 # ws @ json_text fmt d j @ rest1) s = Inr (Some (ch @ t # ts, rest), s2)"
    using t(1) ts(1) sk sk1 by (simp add: n jtry_run new_item_run[OF assms(1)])
  then have "parse_elements n pv m fp ch (concat (map (\<lambda>j. 44 # ws @ json_text fmt d j) (j # js)) @ 93 # rest) s =
      Inr (Some (ch @ t # ts, rest), s2)"
    by (simp add: rest1_def)
  moreover have "map json_of (t # ts) = j # js" using t(2) ts(2) by simp
  ultimately show ?case by (intro exI conjI)
qed

definition member_text :: "bool \<Rightarrow> nat \<Rightarrow> byte list \<times> json \<Rightarrow> byte list" where
  "member_text fmt d = (\<lambda>(k, j). tabs fmt d @ quote k @ 58 # tabs fmt 1 @ json_text fmt d j)"

lemma quote_head: "quote k = 34 # concat (map escaped k) @ [34]"
  by (simp add: quote_def)

lemma parse_member_text:
  assumes "total_malloc m" "reads pv fmt d j" "0 \<notin> set k" "white ws" "white vs" "stop (vs @ rest)"
    "\<exists>c cs. rest = c # cs \<and> (32 < c \<or> c = 0)"
  shows "\<exists>t s'. parse_member pv m (new_item fp) (ws @ member_text fmt d (k, j) @ vs @ rest) s =
    Inr (Some (t, rest), s') \<and> (cstr (the (jname t)), json_of t) = (k, j)"
proof -
  define val where "val = json_text fmt d j @ vs @ rest"
  define after where "after = 58 # tabs fmt 1 @ val"
  obtain c cs where h: "json_text fmt d j = c # cs" "32 < c" using text_head[of fmt d j] by blast
  have sk1: "skip (ws @ tabs fmt d @ quote k @ after) = Inr (quote k @ after)"
    using skip_white[of "ws @ tabs fmt d" 34 "concat (map escaped k) @ [34] @ after"] assms(4)
    by (simp add: quote_head)
  have sk2: "skip after = Inr after" by (simp add: after_def)
  have sk3: "skip (tabs fmt 1 @ val) = Inr val"
    using skip_white[of "tabs fmt 1" c "cs @ vs @ rest"] h by (simp add: val_def not_le)
  have sk4: "skip (vs @ rest) = Inr rest"
    using skip_white[OF assms(5)] assms(7) by (auto simp: not_le)
  obtain out where str: "parse_string m (new_item fp) (quote k @ after) s =
      Inr (Some (set_type cJSON_String (set_valuestring (Some out) (new_item fp)), after), s\<lparr>allocs := Suc (allocs s)\<rparr>)"
    "cstr out = k" using parse_string_text[OF assms(1,3)] by blast
  define child where "child = set_valuestring None (set_name (Some out) (set_type cJSON_String (set_valuestring (Some out) (new_item fp))))"
  have no_child: "jchild child = []" by (simp add: child_def new_item_def)
  obtain t s' where t: "pv child val (s\<lparr>allocs := Suc (allocs s)\<rparr>) = Inr (Some (t, vs @ rest), s')" "json_of t = j"
    "jname t = jname child"
    using assms(2,6) no_child unfolding reads_def val_def by blast
  have "jname t = Some out" using t(3) by (simp add: child_def new_item_def)
  moreover have "parse_member pv m (new_item fp) (ws @ tabs fmt d @ quote k @ after) s = Inr (Some (t, rest), s')"
    using sk1 sk2 sk3 sk4 str(1) t(1)
    by (simp add: parse_member_def jtry_run Let_def after_def child_def new_item_def jret_def)
  ultimately show ?thesis using t(2) str(2)
    by (intro exI[of _ t] exI[of _ s']) (simp add: member_text_def after_def val_def)
qed

lemma parse_members_text:
  assumes "total_malloc m"
  shows "\<forall>(k, j)\<in>set ms. reads pv fmt d j \<and> 0 \<notin> set k \<Longrightarrow> length ms < n \<Longrightarrow> white vs \<Longrightarrow> (ms \<noteq> [] \<Longrightarrow> stop (vs @ [125])) \<Longrightarrow>
    \<exists>ts s'. parse_members n pv m fp ch (concat (map (\<lambda>y. 44 # nl fmt @ member_text fmt d y) ms) @ (if ms = [] then [] else vs) @ 125 # rest) s =
      Inr (Some (ch @ ts, rest), s') \<and> map (\<lambda>t. (cstr (the (jname t)), json_of t)) ts = ms"
proof (induction ms arbitrary: n ch s)
  case Nil
  then obtain k where "n = Suc k" by (cases n) auto
  then show ?case by (simp add: jret_def)
next
  case (Cons y ms)
  obtain k j where y: "y = (k, j)" by fastforce
  obtain n' where n: "n = Suc n'" using Cons.prems by (cases n) auto
  define vs1 where "vs1 = (if ms = [] then vs else [])"
  define rest1 where "rest1 = concat (map (\<lambda>y. 44 # nl fmt @ member_text fmt d y) ms) @ (if ms = [] then [] else vs) @ 125 # rest"
  have st: "stop (vs1 @ rest1)" "white vs1" "\<exists>c cs. rest1 = c # cs \<and> (32 < c \<or> c = 0)"
    using Cons.prems(3,4) unfolding rest1_def vs1_def by (cases ms; cases vs; auto simp: stop_def)+
  obtain t s1 where t: "parse_member pv m (new_item fp) (nl fmt @ member_text fmt d (k, j) @ vs1 @ rest1) (s\<lparr>allocs := Suc (allocs s)\<rparr>) = Inr (Some (t, rest1), s1)"
    "(cstr (the (jname t)), json_of t) = (k, j)"
    using parse_member_text[OF assms _ _ _ st(2,1,3), of pv fmt d j k "nl fmt" fp "s\<lparr>allocs := Suc (allocs s)\<rparr>"] Cons.prems(1) y by auto
  have "\<exists>ts s'. parse_members n' pv m fp (ch @ [t]) rest1 s1 = Inr (Some ((ch @ [t]) @ ts, rest), s') \<and>
      map (\<lambda>t. (cstr (the (jname t)), json_of t)) ts = ms"
    unfolding rest1_def by (rule Cons.IH) (use Cons.prems n in auto)
  then obtain ts s2 where ts: "parse_members n' pv m fp (ch @ [t]) rest1 s1 = Inr (Some ((ch @ [t]) @ ts, rest), s2)"
    "map (\<lambda>t. (cstr (the (jname t)), json_of t)) ts = ms" by blast
  have "parse_members n pv m fp ch (44 # nl fmt @ member_text fmt d (k, j) @ vs1 @ rest1) s = Inr (Some (ch @ t # ts, rest), s2)"
    using t(1) ts(1) by (simp add: n jtry_run new_item_run[OF assms(1)])
  moreover have "concat (map (\<lambda>y. 44 # nl fmt @ member_text fmt d y) (y # ms)) @ (if y # ms = [] then [] else vs) @ 125 # rest =
      44 # nl fmt @ member_text fmt d (k, j) @ vs1 @ rest1"
    by (simp add: y vs1_def rest1_def)
  moreover have "map (\<lambda>t. (cstr (the (jname t)), json_of t)) (t # ts) = y # ms" using t(2) ts(2) y by simp
  ultimately show ?case by metis
qed

section \<open>Values\<close>

lemma skip_idem: "skip v = Inr v' \<Longrightarrow> skip v' = Inr v'"
  by (induction v) (auto split: if_splits)

lemma parse_member_skip: "skip v = Inr v' \<Longrightarrow> parse_member pv m child v' = parse_member pv m child v"
  by (rule ext) (simp add: parse_member_def skip_idem)

lemma separated_length: "x \<in> set xs \<Longrightarrow> length x + length xs \<le> length (separated (c # sep) xs) + 1"
proof (induction xs)
  case (Cons y ys)
  have "length zs \<le> length (concat (map (\<lambda>y. (c # sep) @ y) zs))" for zs :: "byte list list"
    by (induction zs) simp_all
  from this[of ys] Cons show ?case by (cases ys) (auto simp: separated_Cons)
qed simp

lemma map_eq_concat: "concat (map (\<lambda>y. (c # sep) @ y) (map f xs)) = concat (map (\<lambda>x. c # sep @ f x) xs)"
  by (induction xs) simp_all

lemma obj_text:
  "ms \<noteq> [] \<Longrightarrow> json_text fmt d (JObj ms) = 123 # nl fmt @ separated (44 # nl fmt) (map (member_text fmt (d + 1)) ms)
     @ nl fmt @ tabs fmt d @ [125]"
  by (simp add: member_text_def)

lemma parse_array_text:
  assumes "total_malloc m" "\<forall>j\<in>set js. reads pv fmt (d + 1) j" "length js \<le> n" "jchild item = []"
  shows "\<exists>t s'. parse_array n pv m fp item (json_text fmt d (JArr js) @ rest) s = Inr (Some (t, rest), s') \<and>
    json_of t = JArr js \<and> jname t = jname item"
proof (cases js)
  case Nil
  have "parse_array n pv m fp item (json_text fmt d (JArr js) @ rest) s = Inr (Some (set_type cJSON_Array item, rest), s)"
    by (simp add: parse_array_def Nil) (simp add: jret_def)
  then show ?thesis using assms(4) by (cases item) (simp add: Nil type_codes)
next
  case (Cons j js')
  define sp :: "byte list" where "sp = (if fmt then [32] else [])"
  define rest1 where "rest1 = concat (map (\<lambda>j. 44 # sp @ json_text fmt (d + 1) j) js') @ 93 # rest"
  have shape: "json_text fmt d (JArr js) @ rest = 91 # json_text fmt (d + 1) j @ rest1"
    by (simp add: Cons separated_Cons sp_def rest1_def comp_def)
  have w: "white sp" by (simp add: sp_def)
  obtain c cs where h: "json_text fmt (d + 1) j = c # cs" "32 < c" "c \<noteq> 93" using text_head[of fmt "d + 1" j] by blast
  have st: "stop rest1" "skip rest1 = Inr rest1" unfolding rest1_def by (cases js'; simp)+
  obtain t s1 where t: "pv (new_item fp) (json_text fmt (d + 1) j @ rest1) (s\<lparr>allocs := Suc (allocs s)\<rparr>) = Inr (Some (t, rest1), s1)"
    "json_of t = j" by (rule readsD[OF _ st(1) new_item_child, of pv fmt "d + 1" j fp]) (use assms(2) Cons in auto)
  obtain ts s2 where ts: "parse_elements n pv m fp [t] rest1 s1 = Inr (Some ([t] @ ts, rest), s2)" "map json_of ts = js'"
    using parse_elements_text[OF assms(1) w, of js' pv fmt "d + 1" n fp "[t]" rest s1] assms(2,3) Cons
    unfolding rest1_def by auto
  have sk: "skip (json_text fmt (d + 1) j @ rest1) = Inr (json_text fmt (d + 1) j @ rest1)"
    using skip_white[of "[]" c "cs @ rest1"] h by (simp add: not_le)
  have pk: "peek (json_text fmt (d + 1) j @ rest1) = Inr c" using h by simp
  have "parse_array n pv m fp item (json_text fmt d (JArr js) @ rest) s =
      Inr (Some (set_child (t # ts) (set_type cJSON_Array item), rest), s2)"
    unfolding shape using sk pk h(3) t(1) ts(1) st(2)
    by (simp add: parse_array_def jtry_run new_item_run[OF assms(1)]) (simp add: jret_def)
  then show ?thesis using t(2) ts(2) by (cases item) (simp add: Cons type_codes)
qed

lemma parse_object_text:
  assumes "total_malloc m" "\<forall>(k, j)\<in>set ms. reads pv fmt (d + 1) j \<and> 0 \<notin> set k" "length ms \<le> n" "jchild item = []"
  shows "\<exists>t s'. parse_object n pv m fp item (json_text fmt d (JObj ms) @ rest) s = Inr (Some (t, rest), s') \<and>
    json_of t = JObj ms \<and> jname t = jname item"
proof (cases ms)
  case Nil
  have "skip (nl fmt @ tabs fmt (d - 1) @ 125 # rest) = Inr (125 # rest)"
    using skip_white[of "nl fmt @ tabs fmt (d - 1)" 125 rest] by simp
  then have "parse_object n pv m fp item (json_text fmt d (JObj ms) @ rest) s = Inr (Some (set_type cJSON_Object item, rest), s)"
    by (simp add: parse_object_def Nil) (simp add: jret_def)
  then show ?thesis using assms(4) by (cases item) (simp add: Nil type_codes)
next
  case (Cons y ms')
  obtain k j where y: "y = (k, j)" by fastforce
  define vs where "vs = nl fmt @ tabs fmt d"
  define vs1 where "vs1 = (if ms' = [] then vs else [])"
  define rest1 where "rest1 = concat (map (\<lambda>y. 44 # nl fmt @ member_text fmt (d + 1) y) ms') @ (if ms' = [] then [] else vs) @ 125 # rest"
  have shape: "json_text fmt d (JObj ms) @ rest = 123 # nl fmt @ member_text fmt (d + 1) y @ vs1 @ rest1"
    using obj_text[of ms fmt d]
    by (simp add: Cons separated_Cons vs1_def rest1_def vs_def comp_def del: json_text.simps)
  have w: "white vs" by (simp add: vs_def)
  have sv: "stop (vs @ [125])" by (simp add: vs_def nl_def tabs_def)
  have st: "stop (vs1 @ rest1)" "white vs1" "\<exists>c cs. rest1 = c # cs \<and> (32 < c \<or> c = 0)"
    using w sv unfolding rest1_def vs1_def by (cases ms'; cases vs; auto simp: stop_def)+
  define body where "body = nl fmt @ member_text fmt (d + 1) (k, j) @ vs1 @ rest1"
  define start where "start = quote k @ 58 # tabs fmt 1 @ json_text fmt (d + 1) j @ vs1 @ rest1"
  have sk: "skip body = Inr start"
    using skip_white[of "nl fmt @ tabs fmt (d + 1)" 34] unfolding body_def start_def
    by (simp add: member_text_def quote_head)
  have pk: "peek start = Inr 34" by (simp add: start_def quote_head)
  obtain t s1 where t: "parse_member pv m (new_item fp) body (s\<lparr>allocs := Suc (allocs s)\<rparr>) = Inr (Some (t, rest1), s1)"
    "(cstr (the (jname t)), json_of t) = (k, j)"
    using parse_member_text[OF assms(1) _ _ _ st(2,1,3), of pv fmt "d + 1" j k "nl fmt" fp "s\<lparr>allocs := Suc (allocs s)\<rparr>"]
      assms(2) Cons y unfolding body_def by auto
  obtain ts s2 where ts: "parse_members n pv m fp [t] rest1 s1 = Inr (Some ([t] @ ts, rest), s2)"
    "map (\<lambda>t. (cstr (the (jname t)), json_of t)) ts = ms'"
    using parse_members_text[OF assms(1), of ms' pv fmt "d + 1" n vs fp "[t]" rest s1] assms(2,3) Cons w sv
    unfolding rest1_def by auto
  have "parse_object n pv m fp item (123 # body) s = Inr (Some (set_child (t # ts) (set_type cJSON_Object item), rest), s2)"
    using sk pk t(1) ts(1) parse_member_skip[OF sk, of pv m]
    by (simp add: parse_object_def jtry_run new_item_run[OF assms(1)]) (simp add: jret_def)
  then show ?thesis unfolding shape using t(2) ts(2)
    by (cases item) (simp add: Cons type_codes body_def y)
qed

lemma json_text_length:
  "j \<in> set js \<Longrightarrow> length (json_text fmt (d + 1) j) + length js < length (json_text fmt d (JArr js))"
  "(k, j) \<in> set ms \<Longrightarrow> length (json_text fmt (d + 1) j) + length ms < length (json_text fmt d (JObj ms))"
proof -
  assume "j \<in> set js"
  then show "length (json_text fmt (d + 1) j) + length js < length (json_text fmt d (JArr js))"
    using separated_length[of "json_text fmt (d + 1) j" "map (json_text fmt (d + 1)) js" 44 "if fmt then [32] else []"]
    by simp
next
  assume kj: "(k, j) \<in> set ms"
  then have "member_text fmt (d + 1) (k, j) \<in> set (map (member_text fmt (d + 1)) ms)" by simp
  have nonempty: "ms \<noteq> []" using kj by auto
  from \<open>member_text fmt (d + 1) (k, j) \<in> _\<close> have "length (member_text fmt (d + 1) (k, j)) + length ms \<le>
      length (separated (44 # nl fmt) (map (member_text fmt (d + 1)) ms)) + 1"
    using separated_length[of _ _ 44 "nl fmt"] by (metis length_map)
  then
  show "length (json_text fmt (d + 1) j) + length ms < length (json_text fmt d (JObj ms))"
    using obj_text[OF nonempty, of fmt d] by (simp add: member_text_def del: json_text.simps)
qed

theorem parse_value_text:
  assumes "total_malloc m" "fp_exact fp"
  shows "length (json_text fmt d j) < n \<Longrightarrow> c_json j \<Longrightarrow> reads (parse_value n m fp) fmt d j"
proof (induction n arbitrary: d j)
  case (Suc n)
  have run: "\<exists>t s'. parse_value (Suc n) m fp item (json_text fmt d j @ rest) s = Inr (Some (t, rest), s') \<and>
      json_of t = j \<and> jname t = jname item" if "stop rest" "jchild item = []" for item rest s
  proof (cases j)
    case JNull
    then show ?thesis by (cases item) (simp add: lit_def jret_def type_codes)
  next
    case (JBool b)
    then show ?thesis by (cases item; cases b) (simp_all add: lit_def jret_def type_codes)
  next
    case (JNum i)
    obtain c cs where c: "dec_text (-1) i = c # cs" "c = 45 \<or> 48 \<le> c \<and> c \<le> 57" using dec_text_head by blast
    then have ne: "c \<noteq> 110" "c \<noteq> 102" "c \<noteq> 116" "c \<noteq> 34" by auto
    show ?thesis using parse_number_text[OF assms(2) that(1), of item i] c ne JNum
      by (cases item) (simp add: lit_def jret_def type_codes)
  next
    case (JStr bs)
    then have "0 \<notin> set bs" using Suc.prems(2) by simp
    from parse_string_text[OF assms(1) this] obtain out where "parse_string m item (quote bs @ rest) s =
      Inr (Some (set_type cJSON_String (set_valuestring (Some out) item), rest), s\<lparr>allocs := Suc (allocs s)\<rparr>)"
      "cstr out = bs" by blast
    then show ?thesis using JStr by (cases item) (simp add: lit_def quote_head type_codes)
  next
    case (JArr js)
    have "\<forall>j\<in>set js. reads (parse_value n m fp) fmt (d + 1) j"
      using Suc.IH Suc.prems json_text_length(1)[of _ js fmt d] JArr by fastforce
    moreover have "length js \<le> n" using Suc.prems(1) json_text_length(1)[of "hd js" js fmt d] JArr by (cases js) auto
    ultimately show ?thesis using parse_array_text[OF assms(1), of js "parse_value n m fp" fmt d n item fp rest s] that(2)
      by (simp add: JArr lit_def)
  next
    case (JObj ms)
    have "\<forall>(k, j)\<in>set ms. reads (parse_value n m fp) fmt (d + 1) j \<and> 0 \<notin> set k"
      using Suc.IH Suc.prems json_text_length(2)[of _ _ ms fmt d] JObj by fastforce
    moreover have "length ms \<le> n" using Suc.prems(1) json_text_length(2)[of "fst (hd ms)" "snd (hd ms)" ms fmt d] JObj by (cases ms) auto
    ultimately show ?thesis using parse_object_text[OF assms(1), of ms "parse_value n m fp" fmt d n item fp rest s] that(2)
      by (auto simp: JObj lit_def)
  qed
  then show ?case unfolding reads_def by blast
qed simp

lemma skip_text: "skip (json_text fmt d j @ rest) = Inr (json_text fmt d j @ rest)"
proof -
  obtain c cs where "json_text fmt d j = c # cs" "32 < c" using text_head[of fmt d j] by blast
  then show ?thesis using skip_white[of "[]" c "cs @ rest"] by (simp add: not_le)
qed

lemma cJSON_Parse_text:
  assumes "total_malloc m" "fp_exact fp" "c_json j"
  shows "\<exists>t s'. cJSON_Parse m fp (json_text fmt d j @ 0 # junk) s = Inr (Some t, s') \<and> json_of t = j"
proof -
  define v where "v = json_text fmt d j @ 0 # junk"
  define n where "n = Suc (length v)"
  have "reads (parse_value n m fp) fmt d j"
    by (rule parse_value_text[OF assms(1,2) _ assms(3)]) (simp add: n_def v_def)
  then obtain t s' where t: "parse_value n m fp (new_item fp) v (s\<lparr>allocs := Suc (allocs s), ep := None\<rparr>) =
      Inr (Some (t, 0 # junk), s')" "json_of t = j"
    unfolding v_def by (rule readsD[OF _ _ new_item_child, of _ _ _ _ "0 # junk"]) auto
  have sk: "skip v = Inr v" unfolding v_def by (rule skip_text)
  have set: "jbind (\<lambda>s. Inr ((), s\<lparr>ep := None\<rparr>)) f s = f () (s\<lparr>ep := None\<rparr>)" for f :: "unit \<Rightarrow> 'b jm" and s
    by (simp add: jbind_def)
  have "cJSON_ParseWithOpts m fp v False s = Inr (Some (t, 0 # junk), s')"
    unfolding cJSON_ParseWithOpts_def
    using t(1) by (simp add: new_item_run[OF assms(1)] set jtry_run sk del: parse_value.simps flip: n_def)
      (simp add: jret_def)
  then have "cJSON_Parse m fp v s = Inr (Some t, s')" by (simp add: cJSON_Parse_def) (simp add: jret_def)
  then show ?thesis using t(2) unfolding v_def by blast
qed
declare parse_value.simps [simp del]

end
