(* ===== verification/CJson_Safe.thy ===== *)
theory CJson_Safe
  imports CJson_Text
begin

text \<open>
  What the parser of JSON does on texts that are not the text of a value: it always ends, it builds
  well-formed trees only, and it stays inside the text and its blocks when the text has no backslash. One
  proof serves the three: it is over the faults \<open>E\<close> that are allowed.
\<close>

section \<open>Computations with the faults they may have\<close>

definition cends :: "(c_fault \<Rightarrow> bool) \<Rightarrow> 'a cres \<Rightarrow> ('a \<Rightarrow> bool) \<Rightarrow> bool" where
  "cends E r Q \<longleftrightarrow> (case r of Inl e \<Rightarrow> E e | Inr x \<Rightarrow> Q x)"

definition ends :: "(c_fault \<Rightarrow> bool) \<Rightarrow> 'a jm \<Rightarrow> ('a \<Rightarrow> bool) \<Rightarrow> bool" where
  "ends E m Q \<longleftrightarrow> (\<forall>s. cends E (m s) (\<lambda>(x, s'). Q x))"

lemma cends_simps [simp]: "cends E (Inl e) Q \<longleftrightarrow> E e" "cends E (Inr x) Q \<longleftrightarrow> Q x"
  by (simp_all add: cends_def)

lemma cends_bind: "cends E r (\<lambda>x. cends E (f x) Q) \<Longrightarrow> cends E (cbind r f) Q"
  by (cases r) simp_all

lemma cends_mono: "cends E r P \<Longrightarrow> (\<And>x. P x \<Longrightarrow> Q x) \<Longrightarrow> cends E r Q"
  by (cases r) simp_all

lemma cends_then: "cends E r P \<Longrightarrow> (\<And>x. P x \<Longrightarrow> cends E (f x) Q) \<Longrightarrow> cends E (cbind r f) Q"
  by (cases r) simp_all

lemma cends_run: "cends E r P \<Longrightarrow> (\<And>x. r = Inr x \<Longrightarrow> cends E (f x) Q) \<Longrightarrow> cends E (cbind r f) Q"
  by (cases r) simp_all

lemma ends_ret [intro]: "Q x \<Longrightarrow> ends E (jret x) Q"
  by (simp add: ends_def jret_def)

lemma ends_fail [intro]: "Q None \<Longrightarrow> ends E (jfail p) Q"
  by (simp add: ends_def jfail_def)

lemma ends_bind: "ends E m (\<lambda>x. ends E (f x) Q) \<Longrightarrow> ends E (jbind m f) Q"
  unfolding ends_def jbind_def cends_def cbind_def by (fastforce split: sum.splits)

lemma ends_lift: "cends E r P \<Longrightarrow> (\<And>x. r = Inr x \<Longrightarrow> P x \<Longrightarrow> ends E (f x) Q) \<Longrightarrow> ends E (jbind (jlift r) f) Q"
  by (cases r) (auto simp: ends_def jbind_def jlift_def)

lemma ends_mono: "ends E m P \<Longrightarrow> (\<And>x. P x \<Longrightarrow> Q x) \<Longrightarrow> ends E m Q"
  unfolding ends_def cends_def by (fastforce split: sum.splits)

lemma ends_try:
  assumes "ends E m (\<lambda>r. case r of None \<Rightarrow> Q None | Some x \<Rightarrow> ends E (f x) Q)"
  shows "ends E (jtry m f) Q"
  unfolding jtry_def by (rule ends_bind, rule ends_mono[OF assms]) (auto split: option.splits)

lemma ends_if: "(b \<Longrightarrow> ends E x Q) \<Longrightarrow> (\<not> b \<Longrightarrow> ends E y Q) \<Longrightarrow> ends E (if b then x else y) Q"
  by simp

text \<open>A text in which the parser may go on: faults at its end are allowed, or it has a terminator and no
  backslash.\<close>

definition sound :: "(c_fault \<Rightarrow> bool) \<Rightarrow> byte list \<Rightarrow> bool" where
  "sound E v \<longleftrightarrow> E Out_Of_Bounds \<or> 0 \<in> set v \<and> 92 \<notin> set v"

lemma sound_tl: "sound E (c # cs) \<Longrightarrow> c \<noteq> 0 \<Longrightarrow> sound E cs"
  by (auto simp: sound_def)

lemma sound_Nil: "sound E [] \<longleftrightarrow> E Out_Of_Bounds"
  by (simp add: sound_def)

text \<open>A parser that leaves less text than it got, and a result with a property.\<close>

definition leaves :: "(c_fault \<Rightarrow> bool) \<Rightarrow> ('a \<Rightarrow> bool) \<Rightarrow> byte list \<Rightarrow> ('a \<times> byte list) option \<Rightarrow> bool" where
  "leaves E W v r \<longleftrightarrow> (case r of None \<Rightarrow> True | Some (t, rest) \<Rightarrow> W t \<and> length rest < length v \<and> sound E rest)"

lemma leaves_simps [simp]: "leaves E W v None"
  "leaves E W v (Some (t, rest)) \<longleftrightarrow> W t \<and> length rest < length v \<and> sound E rest"
  by (simp_all add: leaves_def)

lemma ends_then:
  "ends E m (leaves E W v) \<Longrightarrow>
   (\<And>t rest. W t \<Longrightarrow> length rest < length v \<Longrightarrow> sound E rest \<Longrightarrow> ends E (f (t, rest)) Q) \<Longrightarrow> Q None \<Longrightarrow> ends E (jtry m f) Q"
  by (rule ends_try, erule ends_mono) (auto simp: leaves_def split: option.splits)

lemma ends_weaken: "ends E p (leaves E W w) \<Longrightarrow> length w \<le> length v \<Longrightarrow> ends E p (leaves E W v)"
  by (erule ends_mono) (auto simp: leaves_def split: option.splits)

section \<open>Reading\<close>

lemma peek_Inr: "peek v = Inr c \<longleftrightarrow> (\<exists>cs. v = c # cs)"
  by (cases v) auto

lemma peek_ends: "sound E v \<Longrightarrow> cends E (peek v) (\<lambda>c. \<exists>cs. v = c # cs)"
  by (cases v) (simp_all add: sound_Nil)

lemma cends_peek: "sound E v \<Longrightarrow> (\<And>c cs. v = c # cs \<Longrightarrow> cends E (f c) Q) \<Longrightarrow> cends E (cbind (peek v) f) Q"
  by (cases v) (simp_all add: sound_Nil)

lemma ends_peek: "sound E v \<Longrightarrow> (\<And>c cs. v = c # cs \<Longrightarrow> ends E (f c) Q) \<Longrightarrow> ends E (jbind (jlift (peek v)) f) Q"
  by (rule ends_lift[OF peek_ends]) (auto simp: peek_Inr)

lemma skip_ends: "sound E v \<Longrightarrow> cends E (skip v) (\<lambda>w. length w \<le> length v \<and> sound E w)"
proof (induction v)
  case (Cons c v)
  show ?case
  proof (cases "c \<noteq> 0 \<and> c \<le> 32")
    case True
    then have "cends E (skip v) (\<lambda>w. length w \<le> length v \<and> sound E w)"
      using Cons sound_tl[of E c v] by blast
    then show ?thesis using True by (auto elim: cends_mono)
  qed (use Cons.prems in auto)
qed (simp add: sound_Nil)

lemma ends_skip:
  "sound E v \<Longrightarrow> (\<And>u. length u \<le> length v \<Longrightarrow> sound E u \<Longrightarrow> ends E (f u) Q) \<Longrightarrow> ends E (jbind (jlift (skip v)) f) Q"
  by (rule ends_lift[OF skip_ends]) auto

lemma starts_ends:
  "sound E v \<Longrightarrow> 0 \<notin> set ps \<Longrightarrow>
   cends E (starts ps v) (\<lambda>b. b \<longrightarrow> length ps \<le> length v \<and> sound E (drop (length ps) v))"
proof (induction ps arbitrary: v)
  case (Cons p ps)
  show ?case
    unfolding starts.simps
  proof (rule cends_peek[OF Cons.prems(1)])
    fix c cs
    assume v: "v = c # cs"
    show "cends E (if c = p then starts ps (tl v) else Inr False)
        (\<lambda>b. b \<longrightarrow> length (p # ps) \<le> length v \<and> sound E (drop (length (p # ps)) v))"
    proof (cases "c = p")
      case True
      then have "sound E cs" using Cons.prems sound_tl[of E c cs] v by auto
      from Cons.IH[OF this] show ?thesis using Cons.prems True v by simp
    qed simp
  qed
qed simp

lemma ends_starts:
  assumes "sound E v" "0 \<notin> set ps" "ps \<noteq> []"
    "\<And>b. (b \<Longrightarrow> length (drop (length ps) v) < length v \<and> sound E (drop (length ps) v)) \<Longrightarrow> ends E (f b) Q"
  shows "ends E (jbind (jlift (starts ps v)) f) Q"
proof (rule ends_lift[OF starts_ends[OF assms(1,2)]])
  fix b
  assume "b \<longrightarrow> length ps \<le> length v \<and> sound E (drop (length ps) v)"
  then show "ends E (f b) Q" by (intro assms(4)) (use assms(3) in \<open>cases ps; auto\<close>)
qed

lemma malloc_ends:
  "(\<And>out. length out = n \<Longrightarrow> ends E (f out) Q) \<Longrightarrow> Q None \<Longrightarrow> ends E (jtry (cJSON_malloc m n) f) Q"
  by (rule ends_try) (auto simp: ends_def cJSON_malloc_def Let_def split: option.splits)

lemma new_item_ends: "ends E (f (new_item fp)) Q \<Longrightarrow> Q None \<Longrightarrow> ends E (jtry (cJSON_New_Item m fp) f) Q"
  by (rule ends_try, unfold cJSON_New_Item_def, rule malloc_ends) (simp_all add: ends_ret)

section \<open>Numbers\<close>

lemma digit_not_nul: "isdigit c \<Longrightarrow> c \<noteq> 0"
  by (auto simp: isdigit_def)

lemma int_digits_ends:
  "sound E v \<Longrightarrow> cends E (int_digits fp n v) (\<lambda>(_, rest). length rest \<le> length v \<and> sound E rest)"
proof (induction fp n v rule: int_digits.induct)
  case (2 fp n c cs)
  then show ?case
    using sound_tl[of E c cs] digit_not_nul[of c] by (cases "isdigit c") (auto elim!: cends_mono)
qed (simp add: sound_Nil)

lemma frac_digits_ends:
  "sound E v \<Longrightarrow> cends E (frac_digits fp n k v) (\<lambda>(_, _, rest). length rest \<le> length v \<and> sound E rest)"
proof (induction fp n k v rule: frac_digits.induct)
  case (2 fp n k c cs)
  then show ?case
    using sound_tl[of E c cs] digit_not_nul[of c] by (cases "isdigit c") (auto elim!: cends_mono)
qed (simp add: sound_Nil)

lemma exp_digits_ends:
  "sound E v \<Longrightarrow> cends E (exp_digits n v) (\<lambda>(_, rest). length rest \<le> length v \<and> sound E rest)"
proof (induction n v rule: exp_digits.induct)
  case (2 n c cs)
  then show ?case
    using sound_tl[of E c cs] digit_not_nul[of c] by (cases "isdigit c") (auto elim!: cends_mono)
qed (simp add: sound_Nil)

lemma parse_fraction_ends:
  assumes "sound E v"
  shows "cends E (parse_fraction fp n v) (\<lambda>(_, _, rest). length rest \<le> length v \<and> sound E rest)"
  unfolding parse_fraction_def
proof (rule cends_peek[OF assms])
  fix c cs
  assume v: "v = c # cs"
  show "cends E (if c = 46 then cbind (peek (tl v)) (\<lambda>d. if isdigit d then frac_digits fp n 0 (tl v) else Inr (n, 0, v))
      else Inr (n, 0, v)) (\<lambda>(_, _, rest). length rest \<le> length v \<and> sound E rest)"
  proof (cases "c = 46")
    case True
    then have cs: "sound E cs" using assms sound_tl[of E c cs] v by simp
    have "cends E (frac_digits fp n 0 cs) (\<lambda>(_, _, rest). length rest \<le> length v \<and> sound E rest)"
      by (rule cends_mono[OF frac_digits_ends[OF cs]]) (auto simp: v)
    then show ?thesis using True v assms cs
      by (auto intro!: cends_peek simp del: frac_digits.simps)
  qed (use assms in simp)
qed

lemma parse_exponent_ends:
  assumes "sound E v"
  shows "cends E (parse_exponent v) (\<lambda>(_, rest). length rest \<le> length v \<and> sound E rest)"
  unfolding parse_exponent_def
proof (rule cends_peek[OF assms])
  fix c cs
  assume v: "v = c # cs"
  have run: "cends E (cbind (exp_digits 0 w) (\<lambda>(subscale, num). Inr (sint subscale * sg, num)))
      (\<lambda>(_, rest). length rest \<le> l \<and> sound E rest)" if "sound E w" "length w \<le> l" for w l and sg :: int
    by (rule cends_then[OF exp_digits_ends[OF that(1)]]) (use that in auto)
  show "cends E (if c = 101 \<or> c = 69 then
        let num = tl v in cbind (peek num) (\<lambda>c.
          let (signsubscale, num) = if c = 43 then (1, tl num) else if c = 45 then (- 1, tl num) else (1, num)
          in cbind (exp_digits 0 num) (\<lambda>(subscale, num). Inr (sint subscale * signsubscale, num)))
      else Inr (0, v)) (\<lambda>(_, rest). length rest \<le> length v \<and> sound E rest)"
  proof (cases "c = 101 \<or> c = 69")
    case True
    then have cs: "sound E cs" using assms sound_tl[of E c cs] v by auto
    show ?thesis
      unfolding if_P[OF True] Let_def v list.sel
    proof (rule cends_peek[OF cs])
      fix d ds
      assume cs': "cs = d # ds"
      show "cends E (case if d = 43 then (1, tl cs) else if d = 45 then (- 1, tl cs) else (1, cs) of
          (signsubscale, num) \<Rightarrow> cbind (exp_digits 0 num) (\<lambda>(subscale, num). Inr (sint subscale * signsubscale, num)))
          (\<lambda>(_, rest). length rest \<le> length (c # cs) \<and> sound E rest)"
        using run[of ds "length (c # cs)" 1] run[of ds "length (c # cs)" "-1"] run[of cs "length (c # cs)" 1]
          cs sound_tl[of E d ds] cs' by (cases "d = 43"; cases "d = 45") (simp_all del: exp_digits.simps)
    qed
  qed (use assms in simp)
qed

text \<open>\<open>parse_number\<close> in two parts: after the sign, and after the digits.\<close>

definition number_end :: "'d fp \<Rightarrow> 'd cJSON \<Rightarrow> int \<Rightarrow> 'd \<times> byte list \<Rightarrow> ('d cJSON \<times> byte list) cres" where
  "number_end fp item sign = (\<lambda>(n, num). cbind (parse_fraction fp n num) (\<lambda>(n, scale, num).
     cbind (parse_exponent num) (\<lambda>(subscale, num).
     let n = fp_scale fp sign n (scale + subscale) in
     Inr (set_type cJSON_Number (set_valueint (fp_int fp n) (set_valuedouble n item)), num))))"

definition number_body :: "'d fp \<Rightarrow> 'd cJSON \<Rightarrow> int \<Rightarrow> byte list \<Rightarrow> ('d cJSON \<times> byte list) cres" where
  "number_body fp item sign num =
     cbind (peek num) (\<lambda>c. let num = (if c = 48 then tl num else num) in
     cbind (peek num) (\<lambda>c.
     cbind (if 49 \<le> c \<and> c \<le> 57 then int_digits fp (fp_zero fp) num else Inr (fp_zero fp, num))
       (number_end fp item sign)))"

lemma parse_number_parts:
  "parse_number fp item (c # cs) = (if c = 45 then number_body fp item (-1) cs else number_body fp item 1 (c # cs))"
  by (simp add: parse_number_def number_body_def number_end_def Let_def)

definition numbered :: "'d cJSON \<Rightarrow> 'd cJSON \<Rightarrow> bool" where
  "numbered item t \<longleftrightarrow> (\<exists>i d. t = set_type cJSON_Number (set_valueint i (set_valuedouble d item)))"

lemma numberedI [intro]: "numbered item (set_type cJSON_Number (set_valueint i (set_valuedouble d item)))"
  by (auto simp: numbered_def)

lemma number_end_ends:
  assumes "sound E w" "length w < l"
  shows "cends E (number_end fp item sign (n, w)) (\<lambda>(t, rest). numbered item t \<and> length rest < l \<and> sound E rest)"
  unfolding number_end_def prod.case
  by (rule cends_then[OF parse_fraction_ends[OF assms(1)]])
    (use assms(2) in \<open>auto intro!: cends_then[OF parse_exponent_ends] simp: Let_def\<close>)

lemma some_digits_ends:
  assumes "sound E w" "w = e # es" "length w < l \<or> 49 \<le> e \<and> e \<le> 57 \<and> length w \<le> l"
  shows "cends E (if 49 \<le> e \<and> e \<le> 57 then int_digits fp n w else Inr (n, w))
    (\<lambda>(_, rest). length rest < l \<and> sound E rest)"
proof (cases "49 \<le> e \<and> e \<le> 57")
  case True
  then have e: "isdigit e" "e \<noteq> 0" by (auto simp: isdigit_iff word_le_nat_alt)
  have "sound E es" using sound_tl[of E e es] assms(1,2) e by simp
  then have "cends E (int_digits fp n w) (\<lambda>(_, rest). length rest \<le> length es \<and> sound E rest)"
    using int_digits_ends[of E es fp "fp_digit fp n e"] e assms(2) by simp
  then show ?thesis using True assms by (auto elim!: cends_mono)
qed (use assms in auto)

lemma number_body_ends:
  assumes "sound E num" "length num < l \<or> (\<exists>c cs. num = c # cs \<and> 48 \<le> c \<and> c \<le> 57 \<and> length num \<le> l)"
  shows "cends E (number_body fp item sign num) (\<lambda>(t, rest). numbered item t \<and> length rest < l \<and> sound E rest)"
  unfolding number_body_def
proof (rule cends_peek[OF assms(1)], unfold Let_def)
  fix d ds
  assume d: "num = d # ds"
  define w where "w = (if d = 48 then tl num else num)"
  have w: "sound E w" using assms(1) sound_tl[of E d ds] d by (auto simp: w_def)
  show "cends E (cbind (peek (if d = 48 then tl num else num)) (\<lambda>c.
      cbind (if 49 \<le> c \<and> c \<le> 57 then int_digits fp (fp_zero fp) (if d = 48 then tl num else num)
        else Inr (fp_zero fp, if d = 48 then tl num else num)) (number_end fp item sign)))
      (\<lambda>(t, rest). numbered item t \<and> length rest < l \<and> sound E rest)"
    unfolding w_def[symmetric]
  proof (rule cends_peek[OF w])
    fix e es
    assume e: "w = e # es"
    have "length w < l \<or> 49 \<le> e \<and> e \<le> 57 \<and> length w \<le> l"
      using assms(2) d e by (auto simp: w_def word_le_nat_alt word_unat_eq_iff split: if_splits)
    from some_digits_ends[OF w e this]
    show "cends E (cbind (if 49 \<le> e \<and> e \<le> 57 then int_digits fp (fp_zero fp) w else Inr (fp_zero fp, w))
        (number_end fp item sign)) (\<lambda>(t, rest). numbered item t \<and> length rest < l \<and> sound E rest)"
      by (rule cends_then) (auto intro: number_end_ends)
  qed
qed

lemma parse_number_ends:
  assumes "sound E v" "v = c # cs" "c = 45 \<or> 48 \<le> c \<and> c \<le> 57"
  shows "cends E (parse_number fp item v)
    (\<lambda>(t, rest). numbered item t \<and> length rest < length v \<and> sound E rest)"
  using assms sound_tl[of E c cs] by (auto simp: parse_number_parts intro!: number_body_ends)

section \<open>Strings\<close>

text \<open>Up to its closing quote or terminator a text without a backslash is copied as it is.\<close>

definition quoted :: "byte list \<Rightarrow> byte list" where
  "quoted v = takeWhile (\<lambda>c. c \<noteq> 34 \<and> c \<noteq> 0) v"

lemma string_len_plain:
  "0 \<in> set v \<Longrightarrow> 92 \<notin> set v \<Longrightarrow> string_len v n = Inr (n + length (quoted v))"
  by (induction v arbitrary: n) (auto simp: quoted_def)

lemma unescape_plain:
  "0 \<in> set v \<Longrightarrow> 92 \<notin> set v \<Longrightarrow> pos + length (quoted v) \<le> length out \<Longrightarrow>
   \<exists>out'. unescape v (pos, out) = Inr (drop (length (quoted v)) v, pos + length (quoted v), out') \<and> length out' = length out"
proof (induction v arbitrary: pos out)
  case (Cons c v)
  show ?case
  proof (cases "c \<noteq> 34 \<and> c \<noteq> 0")
    case True
    then have q: "quoted (c # v) = c # quoted v" by (simp add: quoted_def)
    then have "store [c] (pos, out) = Inr (Suc pos, overlay pos [c] out)" "Suc pos + length (quoted v) \<le> length (overlay pos [c] out)"
      using Cons.prems by (simp_all add: store_def)
    then show ?thesis using Cons.IH[of "Suc pos" "overlay pos [c] out"] Cons.prems True q by auto
  qed (auto simp: quoted_def)
qed simp

lemma quoted_rest:
  "0 \<in> set v \<Longrightarrow> drop (length (quoted v)) v \<noteq> [] \<and> 0 \<in> set (drop (length (quoted v)) v)"
  by (induction v) (auto simp: quoted_def)

text \<open>The string that is built is terminated.\<close>

definition named_string :: "'d cJSON \<Rightarrow> 'd cJSON \<Rightarrow> bool" where
  "named_string item t \<longleftrightarrow> (\<exists>out. 0 \<in> set out \<and> t = set_type cJSON_String (set_valuestring (Some out) item))"

lemma store_nul_in: "store [0] st = Inr (pos, out) \<Longrightarrow> 0 \<in> set out"
  by (cases st) (auto simp: store_def overlay_def split: if_splits)

lemma unescape_length: "unescape v st = Inr (rest, out) \<Longrightarrow> length rest \<le> length v"
  by (induction v st rule: unescape.induct) (fastforce simp: cbind_eq_Inr split: if_splits)+

lemma bounded_faults:
  assumes "E Out_Of_Bounds"
  shows "cends E (string_len v n) (\<lambda>_. True)" "cends E (store bs st) (\<lambda>_. True)"
    "cends E (hex_digits k h v) (\<lambda>_. True)"
proof -
  show "cends E (string_len v n) (\<lambda>_. True)"
    using assms by (induction v n rule: string_len.induct) (auto split: list.splits)
  show "cends E (store bs st) (\<lambda>_. True)"
    using assms by (cases st) (simp add: store_def)
  show "cends E (hex_digits k h v) (\<lambda>_. True)"
    using assms
  proof (induction k h v rule: hex_digits.induct)
    case (2 k h v)
    then show ?case by (cases v) (auto split: option.splits)
  qed simp
qed

lemma escape_faults:
  assumes "E Out_Of_Bounds"
  shows "cends E (escape v) (\<lambda>_. True)"
proof -
  have p: "cends E (peek w) (\<lambda>_. True)" for w using assms by (cases w) simp_all
  have "cends E (unicode_escape v) (\<lambda>_. True)"
    unfolding unicode_escape_def parse_hex4_def
    by (rule cends_then[OF bounded_faults(3)[where E = E, OF assms]])
      (auto intro!: cends_then[OF p] cends_then[OF bounded_faults(3)[where E = E, OF assms]])
  then show ?thesis unfolding escape_def by (auto intro!: cends_then[OF p])
qed

lemma unescape_faults: "E Out_Of_Bounds \<Longrightarrow> cends E (unescape v st) (\<lambda>_. True)"
proof (induction v st rule: unescape.induct)
  case (2 c cs st)
  then show ?case
    by (cases "c = 92") (auto intro!: cends_run[OF escape_faults] cends_run[OF bounded_faults(2)[where E = E]])
qed simp

lemma string_len_ends:
  "sound E v \<Longrightarrow> cends E (string_len v 0) (\<lambda>len. E Out_Of_Bounds \<or> len = length (quoted v))"
  by (cases "E Out_Of_Bounds") (auto simp: sound_def string_len_plain elim: cends_mono[OF bounded_faults(1)])

lemma unescape_ends:
  assumes "sound E v" "E Out_Of_Bounds \<or> length out = length (quoted v) + 1"
  shows "cends E (unescape v (0, out)) (\<lambda>(ptr, pos, out). length ptr \<le> length v \<and> sound E ptr \<and> (E Out_Of_Bounds \<or> pos < length out))"
proof (cases "E Out_Of_Bounds")
  case True
  then show ?thesis
    using unescape_faults[of E v "(0, out)"] unescape_length[of v "(0, out)"]
    by (cases "unescape v (0, out)") (auto simp: sound_def)
next
  case False
  then have v: "0 \<in> set v" "92 \<notin> set v" "length out = length (quoted v) + 1" using assms by (auto simp: sound_def)
  then obtain out' where "unescape v (0, out) = Inr (drop (length (quoted v)) v, length (quoted v), out')" "length out' = length out"
    using unescape_plain[of v 0 out] by auto
  then show ?thesis using v quoted_rest[OF v(1)] by (auto simp: sound_def dest: in_set_dropD)
qed

lemma store_nul_ends: "E Out_Of_Bounds \<or> pos < length out \<Longrightarrow> cends E (store [0] (pos, out)) (\<lambda>(_, out). 0 \<in> set out)"
  using store_nul_in[of "(pos, out)"] by (auto simp: store_def)

lemma parse_string_ends:
  assumes "sound E v"
  shows "ends E (parse_string m item v) (leaves E (named_string item) v)"
  unfolding parse_string_def
proof (rule ends_peek[OF assms])
  fix c cs
  assume v: "v = c # cs"
  have run: "ends E (jbind (jlift (string_len cs 0)) (\<lambda>len. jtry (cJSON_malloc m (len + 1)) (\<lambda>out.
      jbind (jlift (unescape cs (0, out))) (\<lambda>(ptr, pos, out). jbind (jlift (store [0] (pos, out))) (\<lambda>(pos, out).
      jbind (jlift (peek ptr)) (\<lambda>c. let ptr = (if c = 34 then tl ptr else ptr) in
      jret (Some (set_type cJSON_String (set_valuestring (Some out) item), ptr)))))))) (leaves E (named_string item) v)"
    if cs: "sound E cs"
  proof (rule ends_lift[OF string_len_ends[OF cs]], rule malloc_ends)
    fix len and out :: "byte list"
    assume "E Out_Of_Bounds \<or> len = length (quoted cs)" "length out = len + 1"
    then have "E Out_Of_Bounds \<or> length out = length (quoted cs) + 1" by auto
    from unescape_ends[OF cs this]
    show "ends E (jbind (jlift (unescape cs (0, out))) (\<lambda>(ptr, pos, out). jbind (jlift (store [0] (pos, out))) (\<lambda>(pos, out).
      jbind (jlift (peek ptr)) (\<lambda>c. let ptr = (if c = 34 then tl ptr else ptr) in
      jret (Some (set_type cJSON_String (set_valuestring (Some out) item), ptr)))))) (leaves E (named_string item) v)"
      by (rule ends_lift)
        (auto intro!: ends_lift[OF store_nul_ends] ends_peek ends_ret sound_tl[of E 34] simp: Let_def v named_string_def)
  qed simp
  show "ends E (if c \<noteq> 34 then jfail v else jbind (jlift (string_len (tl v) 0)) (\<lambda>len. jtry (cJSON_malloc m (len + 1)) (\<lambda>out.
      jbind (jlift (unescape (tl v) (0, out))) (\<lambda>(ptr, pos, out). jbind (jlift (store [0] (pos, out))) (\<lambda>(pos, out).
      jbind (jlift (peek ptr)) (\<lambda>c. let ptr = (if c = 34 then tl ptr else ptr) in
      jret (Some (set_type cJSON_String (set_valuestring (Some out) item), ptr)))))))) (leaves E (named_string item) v)"
    using run sound_tl[of E c cs] assms v by (auto intro!: ends_fail)
qed

section \<open>Trees\<close>

definition terminated :: "byte list option \<Rightarrow> bool" where
  "terminated s \<longleftrightarrow> (case s of None \<Rightarrow> False | Some buf \<Rightarrow> 0 \<in> set buf)"

text \<open>The type is one of the seven, there is a terminated string in a string and none elsewhere, only arrays and objects have
  children; those of an object have names, those of an array have none.\<close>

fun well_formed :: "'d cJSON \<Rightarrow> bool" where
  "well_formed (CJSON t s i d nm ch) =
     (t \<le> 6 \<and> (if t = cJSON_String then terminated s else s = None) \<and> (t \<noteq> cJSON_Array \<and> t \<noteq> cJSON_Object \<longrightarrow> ch = []) \<and>
      (\<forall>c\<in>set ch. well_formed c \<and> (t = cJSON_Array \<longrightarrow> jname c = None) \<and> (t = cJSON_Object \<longrightarrow> terminated (jname c))))"

text \<open>The items the parser is given: without children and string.\<close>

definition fresh :: "'d cJSON \<Rightarrow> bool" where
  "fresh item \<longleftrightarrow> jchild item = [] \<and> valuestring item = None"

text \<open>What a parser makes of an item: a well-formed tree with the name the item had.\<close>

definition made :: "'d cJSON \<Rightarrow> 'd cJSON \<Rightarrow> bool" where
  "made item t \<longleftrightarrow> well_formed t \<and> jname t = jname item"

definition element_made :: "'d cJSON \<Rightarrow> bool" where
  "element_made t \<longleftrightarrow> well_formed t \<and> jname t = None"

definition member_made :: "'d cJSON \<Rightarrow> bool" where
  "member_made t \<longleftrightarrow> well_formed t \<and> terminated (jname t)"

lemma named_string_made: "fresh item \<Longrightarrow> named_string item t \<Longrightarrow> made item t"
  by (cases item) (auto simp: fresh_def named_string_def made_def type_codes terminated_def)

lemma numbered_made: "fresh item \<Longrightarrow> numbered item t \<Longrightarrow> made item t"
  by (cases item) (auto simp: fresh_def numbered_def made_def type_codes)

lemma array_made: "fresh item \<Longrightarrow> \<forall>c\<in>set ch. element_made c \<Longrightarrow> made item (set_child ch (set_type cJSON_Array item))"
  by (cases item) (auto simp: fresh_def made_def element_made_def type_codes)

lemma new_item_made: "made (new_item fp) t \<Longrightarrow> element_made t"
  by (simp add: made_def element_made_def new_item_def)

lemma object_made: "fresh item \<Longrightarrow> \<forall>c\<in>set ch. member_made c \<Longrightarrow> made item (set_child ch (set_type cJSON_Object item))"
  by (cases item) (auto simp: fresh_def made_def member_made_def type_codes)

lemma empty_made: "fresh item \<Longrightarrow> made item (set_type cJSON_Array item)"
  "fresh item \<Longrightarrow> made item (set_type cJSON_Object item)"
  "fresh item \<Longrightarrow> made item (set_type cJSON_NULL item)" "fresh item \<Longrightarrow> made item (set_type cJSON_False item)"
  "fresh item \<Longrightarrow> made item (set_valueint 1 (set_type cJSON_True item))"
  by (cases item; simp add: fresh_def made_def type_codes)+

lemma new_item_fresh [simp]: "fresh (new_item fp)"
  by (simp add: new_item_def fresh_def)

text \<open>What the parser of values does on texts of at most \<open>L\<close> bytes.\<close>

definition parses :: "(c_fault \<Rightarrow> bool) \<Rightarrow> nat \<Rightarrow> 'd value_parser \<Rightarrow> bool" where
  "parses E L pv \<longleftrightarrow> (\<forall>item w. fresh item \<and> length w \<le> L \<and> sound E w \<longrightarrow> ends E (pv item w) (leaves E (made item) w))"

lemma parsesD: "parses E L pv \<Longrightarrow> fresh item \<Longrightarrow> length w \<le> L \<Longrightarrow> sound E w \<Longrightarrow> ends E (pv item w) (leaves E (made item) w)"
  by (simp add: parses_def)

lemma parse_elements_ends:
  assumes "parses E L pv"
  shows "sound E v \<Longrightarrow> \<forall>c\<in>set ch. element_made c \<Longrightarrow> length v < n \<Longrightarrow> length v \<le> Suc L \<Longrightarrow>
    ends E (parse_elements n pv m fp ch v) (leaves E (\<lambda>ch. \<forall>c\<in>set ch. element_made c) v)"
proof (induction n arbitrary: ch v)
  case (Suc n)
  have next_element: "ends E (jbind (jlift (skip cs)) (\<lambda>value. jtry (pv (new_item fp) value) (\<lambda>(child, value).
      jbind (jlift (skip value)) (parse_elements n pv m fp (ch @ [child]))))) (leaves E (\<lambda>ch. \<forall>c\<in>set ch. element_made c) v)"
    if cs: "v = c # cs" "sound E cs" for c cs
  proof (rule ends_skip[OF cs(2)], rule ends_then[OF parsesD[OF assms]], unfold prod.case)
    fix w :: "byte list"
    assume w: "length w \<le> length cs" "sound E w"
    then show "length w \<le> L" "sound E w" using cs Suc.prems by simp_all
    fix t and rest :: "byte list"
    assume t: "made (new_item fp) t" "length rest < length w" "sound E rest"
    show "ends E (jbind (jlift (skip rest)) (parse_elements n pv m fp (ch @ [t]))) (leaves E (\<lambda>ch. \<forall>c\<in>set ch. element_made c) v)"
      by (rule ends_skip[OF t(3)], rule ends_weaken, rule Suc.IH)
        (use w(1) t cs Suc.prems in \<open>auto simp: new_item_made\<close>)
  qed simp_all
  show ?case
    unfolding parse_elements.simps
  proof (rule ends_peek[OF Suc.prems(1)])
    fix c cs
    assume v: "v = c # cs"
    then have "c \<noteq> 0 \<Longrightarrow> sound E cs" using Suc.prems(1) sound_tl[of E c cs] by simp
    then show "ends E (if c = 44 then jtry (cJSON_New_Item m fp) (\<lambda>child. jbind (jlift (skip (tl v))) (\<lambda>value.
        jtry (pv child value) (\<lambda>(child, value). jbind (jlift (skip value)) (\<lambda>value. parse_elements n pv m fp (ch @ [child]) value))))
      else if c = 93 then jret (Some (ch, tl v)) else jfail v) (leaves E (\<lambda>ch. \<forall>c\<in>set ch. element_made c) v)"
      using next_element[OF v] Suc.prems v by (auto intro!: new_item_ends ends_ret ends_fail)
  qed
qed simp

lemma parse_array_ends:
  assumes "parses E L pv" "sound E v" "fresh item" "length v \<le> n" "length v \<le> Suc L"
  shows "ends E (parse_array n pv m fp item v) (leaves E (made item) v)"
proof -
  have first: "ends E (jtry (pv (new_item fp) w) (\<lambda>(child, value). jbind (jlift (skip value)) (\<lambda>value.
      jtry (parse_elements n pv m fp [child] value) (\<lambda>(ch, value). jret (Some (set_child ch (set_type cJSON_Array item), value))))))
      (leaves E (made item) v)" if w: "length w < length v" "sound E w" for w
  proof (rule ends_then[OF parsesD[OF assms(1)]], unfold prod.case)
    show "length w \<le> L" using w assms(5) by simp
    fix t and r :: "byte list"
    assume t: "made (new_item fp) t" "length r < length w" "sound E r"
    show "ends E (jbind (jlift (skip r)) (\<lambda>value. jtry (parse_elements n pv m fp [t] value)
        (\<lambda>(ch, value). jret (Some (set_child ch (set_type cJSON_Array item), value))))) (leaves E (made item) v)"
      by (rule ends_skip[OF t(3)], rule ends_then[OF parse_elements_ends[OF assms(1)]])
        (use w(1) t assms(3,4,5) array_made in \<open>auto simp: new_item_made intro!: ends_ret\<close>)
  qed (use w in simp_all)
  show ?thesis
    unfolding parse_array_def
  proof (rule ends_peek[OF assms(2)])
    fix c cs
    assume v: "v = c # cs"
    show "ends E (if c \<noteq> 91 then jfail v else jbind (jlift (skip (tl v))) (\<lambda>value. jbind (jlift (peek value)) (\<lambda>c.
        if c = 93 then jret (Some (set_type cJSON_Array item, tl value))
        else jtry (cJSON_New_Item m fp) (\<lambda>child. jbind (jlift (skip value)) (\<lambda>value. jtry (pv child value) (\<lambda>(child, value).
          jbind (jlift (skip value)) (\<lambda>value. jtry (parse_elements n pv m fp [child] value) (\<lambda>(ch, value).
          jret (Some (set_child ch (set_type cJSON_Array item), value)))))))))) (leaves E (made item) v)"
    proof (cases "c = 91")
      case True
      then have cs: "sound E cs" using assms(2) sound_tl[of E c cs] v by auto
      show ?thesis
        unfolding v list.sel if_not_P[OF not_not[THEN iffD2, OF True]]
      proof (rule ends_skip[OF cs], rule ends_peek, assumption, rule ends_if)
        fix w d ds
        assume w: "length w \<le> length cs" "sound E w" "w = d # ds"
        show "ends E (jret (Some (set_type cJSON_Array item, tl w))) (leaves E (made item) (c # cs))" if "d = 93"
          by (rule ends_ret) (use w that empty_made(1)[OF assms(3)] sound_tl[of E d ds] in auto)
        show "ends E (jtry (cJSON_New_Item m fp) (\<lambda>child. jbind (jlift (skip w)) (\<lambda>value. jtry (pv child value) (\<lambda>(child, value).
            jbind (jlift (skip value)) (\<lambda>value. jtry (parse_elements n pv m fp [child] value) (\<lambda>(ch, value).
            jret (Some (set_child ch (set_type cJSON_Array item), value)))))))) (leaves E (made item) (c # cs))"
          by (rule new_item_ends, rule ends_skip[OF w(2)]) (use first w v in auto)
      qed
    qed (auto intro!: ends_fail)
  qed
qed

lemma parse_member_ends:
  assumes "parses E L pv" "sound E v" "length v \<le> L"
  shows "ends E (parse_member pv m (new_item fp) v) (leaves E member_made v)"
  unfolding parse_member_def
proof (rule ends_skip[OF assms(2)], rule ends_then[OF parse_string_ends], assumption, unfold prod.case Let_def)
  fix w :: "byte list" and t :: "'a cJSON" and r :: "byte list"
  assume w: "length w \<le> length v" "sound E w" and t: "named_string (new_item fp) t" "length r < length w" "sound E r"
  define child where "child = set_valuestring None (set_name (valuestring t) t)"
  have child: "fresh child" "terminated (jname child)"
    using t(1) by (auto simp: child_def named_string_def terminated_def new_item_def fresh_def)
  have after: "ends E (jtry (pv child u) (\<lambda>(child, value). jbind (jlift (skip value)) (\<lambda>value. jret (Some (child, value)))))
      (leaves E member_made v)" if u: "sound E u" "length u < length v" for u
    by (rule ends_then[OF parsesD[OF assms(1) child(1)]])
      (use u assms(3) child(2) in \<open>auto intro!: ends_skip ends_ret simp: made_def member_made_def\<close>)
  show "ends E (jbind (jlift (skip r)) (\<lambda>value. jbind (jlift (peek value)) (\<lambda>c. if c \<noteq> 58 then jfail value
      else jbind (jlift (skip (tl value))) (\<lambda>value. jtry (pv (set_valuestring None (set_name (valuestring t) t)) value)
        (\<lambda>(child, value). jbind (jlift (skip value)) (\<lambda>value. jret (Some (child, value)))))))) (leaves E member_made v)"
    unfolding child_def[symmetric]
  proof (rule ends_skip[OF t(3)], rule ends_peek, assumption, rule ends_if)
    fix x c cs
    assume x: "length x \<le> length r" "sound E x" "x = c # cs"
    show "ends E (jbind (jlift (skip (tl x))) (\<lambda>value. jtry (pv child value)
        (\<lambda>(child, value). jbind (jlift (skip value)) (\<lambda>value. jret (Some (child, value)))))) (leaves E member_made v)"
      if "\<not> c \<noteq> 58"
      by (rule ends_skip) (use after that x w t sound_tl[of E c cs] in auto)
  qed (auto intro!: ends_fail)
qed simp

lemma parse_members_ends:
  assumes "parses E L pv"
  shows "sound E v \<Longrightarrow> \<forall>c\<in>set ch. member_made c \<Longrightarrow> length v < n \<Longrightarrow> length v \<le> Suc L \<Longrightarrow>
    ends E (parse_members n pv m fp ch v) (leaves E (\<lambda>ch. \<forall>c\<in>set ch. member_made c) v)"
proof (induction n arbitrary: ch v)
  case (Suc n)
  show ?case
    unfolding parse_members.simps
  proof (rule ends_peek[OF Suc.prems(1)])
    fix c cs
    assume v: "v = c # cs"
    then have cs: "c \<noteq> 0 \<Longrightarrow> sound E cs" using Suc.prems(1) sound_tl[of E c cs] by simp
    have next_member: "ends E (jtry (parse_member pv m (new_item fp) cs) (\<lambda>(child, value). parse_members n pv m fp (ch @ [child]) value))
        (leaves E (\<lambda>ch. \<forall>c\<in>set ch. member_made c) v)" if "c \<noteq> 0"
    proof (rule ends_then[OF parse_member_ends[OF assms cs[OF that]]], unfold prod.case)
      show "length cs \<le> L" using Suc.prems v by simp
      fix t :: "'a cJSON" and rest :: "byte list"
      assume t: "member_made t" "length rest < length cs" "sound E rest"
      show "ends E (parse_members n pv m fp (ch @ [t]) rest) (leaves E (\<lambda>ch. \<forall>c\<in>set ch. member_made c) v)"
        by (rule ends_weaken, rule Suc.IH) (use t v Suc.prems in auto)
    qed simp
    show "ends E (if c = 44 then jtry (cJSON_New_Item m fp) (\<lambda>child. jtry (parse_member pv m child (tl v))
          (\<lambda>(child, value). parse_members n pv m fp (ch @ [child]) value))
        else if c = 125 then jret (Some (ch, tl v)) else jfail v) (leaves E (\<lambda>ch. \<forall>c\<in>set ch. member_made c) v)"
      using next_member cs Suc.prems v by (auto intro!: new_item_ends ends_ret ends_fail)
  qed
qed simp

lemma parse_object_ends:
  assumes "parses E L pv" "sound E v" "fresh item" "length v \<le> n" "length v \<le> Suc L"
  shows "ends E (parse_object n pv m fp item v) (leaves E (made item) v)"
proof -
  have first: "ends E (jtry (parse_member pv m (new_item fp) w) (\<lambda>(child, value). jtry (parse_members n pv m fp [child] value)
      (\<lambda>(ch, value). jret (Some (set_child ch (set_type cJSON_Object item), value))))) (leaves E (made item) v)"
    if w: "length w < length v" "sound E w" for w
  proof (rule ends_then[OF parse_member_ends[OF assms(1) w(2)]], unfold prod.case)
    show "length w \<le> L" using w assms(5) by simp
    fix t :: "'a cJSON" and r :: "byte list"
    assume t: "member_made t" "length r < length w" "sound E r"
    show "ends E (jtry (parse_members n pv m fp [t] r)
        (\<lambda>(ch, value). jret (Some (set_child ch (set_type cJSON_Object item), value)))) (leaves E (made item) v)"
      by (rule ends_then[OF parse_members_ends[OF assms(1) t(3)]])
        (use w(1) t assms(3,4,5) object_made in \<open>auto intro!: ends_ret\<close>)
  qed simp
  show ?thesis
    unfolding parse_object_def
  proof (rule ends_peek[OF assms(2)])
    fix c cs
    assume v: "v = c # cs"
    show "ends E (if c \<noteq> 123 then jfail v else jbind (jlift (skip (tl v))) (\<lambda>value. jbind (jlift (peek value)) (\<lambda>c.
        if c = 125 then jret (Some (set_type cJSON_Object item, tl value))
        else jtry (cJSON_New_Item m fp) (\<lambda>child. jtry (parse_member pv m child value) (\<lambda>(child, value).
          jtry (parse_members n pv m fp [child] value) (\<lambda>(ch, value).
          jret (Some (set_child ch (set_type cJSON_Object item), value)))))))) (leaves E (made item) v)"
    proof (cases "c = 123")
      case True
      then have cs: "sound E cs" using assms(2) sound_tl[of E c cs] v by auto
      show ?thesis
        unfolding v list.sel if_not_P[OF not_not[THEN iffD2, OF True]]
      proof (rule ends_skip[OF cs], rule ends_peek, assumption, rule ends_if)
        fix w d ds
        assume w: "length w \<le> length cs" "sound E w" "w = d # ds"
        show "ends E (jret (Some (set_type cJSON_Object item, tl w))) (leaves E (made item) (c # cs))" if "d = 125"
          by (rule ends_ret) (use w that empty_made(2)[OF assms(3)] sound_tl[of E d ds] in auto)
        show "ends E (jtry (cJSON_New_Item m fp) (\<lambda>child. jtry (parse_member pv m child w) (\<lambda>(child, value).
            jtry (parse_members n pv m fp [child] value) (\<lambda>(ch, value).
            jret (Some (set_child ch (set_type cJSON_Object item), value)))))) (leaves E (made item) (c # cs))"
          by (rule new_item_ends) (use first w v in auto)
      qed
    qed (auto intro!: ends_fail)
  qed
qed

lemma parse_value_ends:
  "fresh item \<Longrightarrow> length v < n \<Longrightarrow> sound E v \<Longrightarrow> ends E (parse_value n m fp item v) (leaves E (made item) v)"
proof (induction n arbitrary: item v)
  case (Suc n)
  note sound = Suc.prems(3) and item = Suc.prems(1)
  have pv: "parses E (n - 1) (parse_value n m fp)" if "0 < n"
    unfolding parses_def using Suc.IH that by auto
  have len: "0 < n \<and> length v \<le> n \<and> length v \<le> Suc (n - 1)" if "v = c # cs" for c cs
    using that Suc.prems(2) by auto
  have num: "ends E (jbind (jlift (parse_number fp item v)) (\<lambda>r. jret (Some r))) (leaves E (made item) v)"
    if "v = c # cs" "c = 45 \<or> 48 \<le> c \<and> c \<le> 57" for c cs
    by (rule ends_lift[OF parse_number_ends[OF sound that]]) (auto intro!: ends_ret numbered_made[OF item])
  have str: "ends E (parse_string m item v) (leaves E (made item) v)"
    by (rule ends_mono[OF parse_string_ends[OF sound]])
      (auto simp: leaves_def intro: named_string_made[OF item] split: option.splits)
  have rest: "ends E (jbind (jlift (peek v)) (\<lambda>c. if c = 34 then parse_string m item v
      else if c = 45 \<or> 48 \<le> c \<and> c \<le> 57 then jbind (jlift (parse_number fp item v)) (\<lambda>r. jret (Some r))
      else if c = 91 then parse_array n (parse_value n m fp) m fp item v
      else if c = 123 then parse_object n (parse_value n m fp) m fp item v else jfail v)) (leaves E (made item) v)"
  proof (rule ends_peek[OF sound], intro ends_if)
    fix c cs
    assume v: "v = c # cs"
    show "ends E (parse_array n (parse_value n m fp) m fp item v) (leaves E (made item) v)"
      "ends E (parse_object n (parse_value n m fp) m fp item v) (leaves E (made item) v)"
      using parse_array_ends[OF pv sound item, of n] parse_object_ends[OF pv sound item, of n] len[OF v] by simp_all
  qed (use str num in \<open>auto intro!: ends_fail\<close>)
  have four: "drop 4 v = drop (length (lit ''null'')) v" "drop 4 v = drop (length (lit ''true'')) v"
    and five: "drop 5 v = drop (length (lit ''false'')) v"
    by (simp_all add: lit_def eval_nat_numeral)
  show ?case
    unfolding parse_value.simps
  proof (intro ends_starts[OF sound] ends_if rest)
    show "0 \<notin> set (lit ''null'')" "0 \<notin> set (lit ''true'')" "0 \<notin> set (lit ''false'')"
      "lit ''null'' \<noteq> []" "lit ''true'' \<noteq> []" "lit ''false'' \<noteq> []" by (simp_all add: lit_def)
  qed (rule ends_ret, use empty_made[OF item] four five in \<open>simp only: leaves_simps simp_thms\<close>)+
qed simp

section \<open>The whole text\<close>

lemma cJSON_Parse_safe:
  assumes "sound E v"
  shows "cends E (cJSON_Parse m fp v s) (\<lambda>(r, s'). case r of None \<Rightarrow> True | Some t \<Rightarrow> well_formed t)"
proof -
  define Q :: "('a cJSON \<times> byte list) option \<Rightarrow> bool"
    where "Q r \<longleftrightarrow> (case r of None \<Rightarrow> True | Some (t, rest) \<Rightarrow> well_formed t)" for r
  have val: "ends E (jtry (jret c) (\<lambda>c. jbind (jlift (skip v)) (\<lambda>value.
      jtry (parse_value (Suc (length value)) m fp c value) (\<lambda>(c, rest). jret (Some (c, rest)))))) Q"
    if "c = None \<or> c = Some (new_item fp)" for c
  proof (cases c)
    case None
    then show ?thesis by (auto simp: jtry_def Q_def intro!: ends_ret)
  next
    case (Some x)
    then have x: "x = new_item fp" using that by simp
    have "ends E (jbind (jlift (skip v)) (\<lambda>value.
        jtry (parse_value (Suc (length value)) m fp x value) (\<lambda>(c, rest). jret (Some (c, rest))))) Q"
      by (rule ends_skip[OF assms], rule ends_then[OF parse_value_ends]) (auto simp: x Q_def made_def intro!: ends_ret)
    then show ?thesis by (simp add: Some ends_def)
  qed
  have item: "ends E (cJSON_New_Item m fp) (\<lambda>c. c = None \<or> c = Some (new_item fp))"
    unfolding cJSON_New_Item_def by (rule malloc_ends) (auto intro!: ends_ret)
  have "ends E (jbind (\<lambda>s. Inr ((), s\<lparr>ep := None\<rparr>)) (\<lambda>_. f)) Q" if "ends E f Q" for f :: "('a cJSON \<times> byte list) option jm"
    using that by (simp add: ends_def jbind_def)
  then have "ends E (cJSON_ParseWithOpts m fp v False) Q"
    unfolding cJSON_ParseWithOpts_def if_False
    by (intro ends_bind[OF ends_mono[OF item]]) (use val in simp)
  then have "ends E (cJSON_Parse m fp v) (\<lambda>r. case r of None \<Rightarrow> True | Some t \<Rightarrow> well_formed t)"
    unfolding cJSON_Parse_def
    by (rule ends_bind[OF ends_mono]) (auto simp: Q_def intro!: ends_ret split: option.splits)
  then show ?thesis by (auto simp: ends_def split: prod.splits)
qed

section \<open>Looking into well-formed trees\<close>

text \<open>\<open>cJSON_strcasecmp\<close> is 0 for C strings that are equal up to the case of their letters.\<close>

definition same_key :: "byte list \<Rightarrow> byte list \<Rightarrow> bool" where
  "same_key a b \<longleftrightarrow> map tolower (cstr a) = map tolower (cstr b)"

lemma tolower_nul [simp]: "tolower 0 = 0" "tolower a = 0 \<longleftrightarrow> a = 0"
proof -
  have "65 \<le> a \<Longrightarrow> a \<le> 90 \<Longrightarrow> unat (a + 32) = unat a + 32"
    by (simp add: unat_word_ariths word_le_nat_alt)
  then show "tolower a = 0 \<longleftrightarrow> a = 0"
    by (auto simp: tolower_def word_unat_eq_iff word_le_nat_alt)
qed (simp add: tolower_def)

lemma strcasecmp_same:
  "0 \<in> set a \<Longrightarrow> 0 \<in> set b \<Longrightarrow> \<exists>r. strcasecmp_loop a b = Inr r \<and> (r = 0 \<longleftrightarrow> map tolower (cstr a) = map tolower (cstr b))"
proof (induction a b rule: strcasecmp_loop.induct)
  case (1 a s1 b s2)
  show ?case
  proof (cases "tolower a = tolower b")
    case True
    then show ?thesis using 1 tolower_nul(2)[of a] tolower_nul(2)[of b] by (cases "a = 0") (auto simp: cstr_def)
  next
    case False
    then have "uint (tolower a) - uint (tolower b) \<noteq> 0" by (simp add: word_uint_eq_iff)
    moreover have "map tolower (cstr (a # s1)) \<noteq> map tolower (cstr (b # s2))"
      using False tolower_nul(2)[of a] tolower_nul(2)[of b] by (cases "a = 0"; cases "b = 0") (auto simp: cstr_def)
    ultimately show ?thesis using False by simp
  qed
qed auto

lemma object_item_find:
  assumes "\<forall>c\<in>set ch. terminated (jname c)" "0 \<in> set key"
  shows "object_item ch key = Inr (find (\<lambda>c. same_key (the (jname c)) key) ch)"
  using assms(1)
proof (induction ch)
  case (Cons c ch)
  then obtain nm where nm: "jname c = Some nm" "0 \<in> set nm" by (auto simp: terminated_def split: option.splits)
  obtain r where "strcasecmp_loop nm key = Inr r" "r = 0 \<longleftrightarrow> map tolower (cstr nm) = map tolower (cstr key)"
    using strcasecmp_same[OF nm(2) assms(2)] by blast
  then show ?case using Cons nm by (simp add: cJSON_strcasecmp_def same_key_def)
qed simp

lemma GetObjectItem_find:
  assumes "well_formed obj" "jtype obj = cJSON_Object" "0 \<in> set key"
  shows "cJSON_GetObjectItem (Some obj) key = Inr (find (\<lambda>c. same_key (the (jname c)) key) (jchild obj))"
  using assms by (cases obj) (simp add: cJSON_GetObjectItem_def deref_def object_item_find)

section \<open>Numerals\<close>

text \<open>A number of a JSON text: a sign, the digits before the point, those behind it, and an exponent with its letter,
  sign and digits.\<close>

record numeral =
  n_negative :: bool
  n_whole :: "byte list"
  n_fraction :: "byte list"
  n_exponent :: "(byte \<times> byte list \<times> byte list) option"

definition numeral_text :: "numeral \<Rightarrow> byte list" where
  "numeral_text x = (if n_negative x then [45] else []) @ n_whole x @ (if n_fraction x = [] then [] else 46 # n_fraction x) @
     (case n_exponent x of None \<Rightarrow> [] | Some (e, sg, ds) \<Rightarrow> e # sg @ ds)"

definition digits_value :: "byte list \<Rightarrow> int" where
  "digits_value ds = foldl (\<lambda>n d. n * 10 + (uint d - 48)) 0 ds"

text \<open>Without leading zeros, and with an exponent that an \<open>int\<close> holds.\<close>

definition numeral_ok :: "numeral \<Rightarrow> bool" where
  "numeral_ok x \<longleftrightarrow>
     (n_whole x = [48] \<or> (\<exists>d ds. n_whole x = d # ds \<and> 49 \<le> d \<and> d \<le> 57 \<and> list_all isdigit ds)) \<and>
     list_all isdigit (n_fraction x) \<and>
     (case n_exponent x of None \<Rightarrow> True | Some (e, sg, ds) \<Rightarrow>
        e \<in> {101, 69} \<and> sg \<in> {[], [43], [45]} \<and> ds \<noteq> [] \<and> list_all isdigit ds \<and> digits_value ds < 2 ^ 31)"

text \<open>Its value: the digits in order, times ten to the exponent less one for each digit behind the point, with the sign.\<close>

definition numeral_scale :: "numeral \<Rightarrow> int" where
  "numeral_scale x = (case n_exponent x of None \<Rightarrow> 0 | Some (e, sg, ds) \<Rightarrow> digits_value ds * (if sg = [45] then -1 else 1)) -
     int (length (n_fraction x))"

definition numeral_value :: "'d fp \<Rightarrow> numeral \<Rightarrow> 'd" where
  "numeral_value fp x = fp_scale fp (if n_negative x then -1 else 1)
     (foldl (fp_digit fp) (fp_zero fp) ((if n_whole x = [48] then [] else n_whole x) @ n_fraction x)) (numeral_scale x)"

lemma int_digits_run: "list_all isdigit ds \<Longrightarrow> \<not> isdigit c \<Longrightarrow> int_digits fp n (ds @ c # cs) = Inr (foldl (fp_digit fp) n ds, c # cs)"
  by (induction ds arbitrary: n) auto

lemma frac_digits_run: "list_all isdigit ds \<Longrightarrow> \<not> isdigit c \<Longrightarrow>
  frac_digits fp n k (ds @ c # cs) = Inr (foldl (fp_digit fp) n ds, k - int (length ds), c # cs)"
  by (induction ds arbitrary: n k) auto

lemma exp_digits_run: "list_all isdigit ds \<Longrightarrow> \<not> isdigit c \<Longrightarrow>
  exp_digits (word_of_int a) (ds @ c # cs) = Inr (word_of_int (foldl (\<lambda>n d. n * 10 + (uint d - 48)) a ds), c # cs)"
proof (induction ds arbitrary: a)
  case (Cons d ds)
  have "48 \<le> uint d" using Cons.prems(1) by (simp add: isdigit_iff word_le_def)
  then have "uint (d - 48) = uint d - 48" using uint_sub_lem[of 48 d] by simp
  then have "ucast (d - 48) = (word_of_int (uint d - 48) :: u32)" by (simp only: ucast_eq)
  then have "(word_of_int a :: u32) * 10 + ucast (d - 48) = word_of_int (a * 10 + (uint d - 48))"
    by (simp add: wi_hom_syms)
  then show ?case using Cons.IH[of "a * 10 + (uint d - 48)"] Cons.prems by simp
qed simp

lemma digits_value_pos: "list_all isdigit ds \<Longrightarrow> 0 \<le> a \<Longrightarrow> 0 \<le> foldl (\<lambda>n d. n * 10 + (uint (d :: byte) - 48)) (a :: int) ds"
  by (induction ds arbitrary: a) (auto simp: isdigit_iff word_le_def)

text \<open>The byte after a number.\<close>

definition after_number :: "byte list \<Rightarrow> bool" where
  "after_number rest \<longleftrightarrow> (\<exists>c cs. rest = c # cs \<and> \<not> isdigit c \<and> c \<notin> {46, 101, 69})"

lemma digit_codes: "isdigit c \<Longrightarrow> c \<notin> {43, 45, 46, 69, 101}"
  by (auto simp: isdigit_def)

lemma parse_exponent_run:
  assumes "after_number rest" "case ex of None \<Rightarrow> True | Some (e, sg, ds) \<Rightarrow>
    e \<in> {101, 69} \<and> sg \<in> {[], [43], [45]} \<and> ds \<noteq> [] \<and> list_all isdigit ds \<and> digits_value ds < 2 ^ 31"
  shows "parse_exponent ((case ex of None \<Rightarrow> [] | Some (e, sg, ds) \<Rightarrow> e # sg @ ds) @ rest) =
    Inr (case ex of None \<Rightarrow> 0 | Some (e, sg, ds) \<Rightarrow> digits_value ds * (if sg = [45] then -1 else 1), rest)"
proof -
  obtain c cs where rest: "rest = c # cs" "\<not> isdigit c" "c \<notin> {46, 101, 69}" using assms(1) by (auto simp: after_number_def)
  show ?thesis
  proof (cases ex)
    case None
    then show ?thesis using rest by (simp add: parse_exponent_def)
  next
    case (Some t)
    obtain e sg ds where t: "t = (e, sg, ds)" by (cases t)
    have ok: "e \<in> {101, 69}" "sg \<in> {[], [43], [45]}" "ds \<noteq> []" "list_all isdigit ds" "digits_value ds < 2 ^ 31"
      using assms(2) by (simp_all add: Some t)
    then obtain d ds' where d: "ds = d # ds'" "d \<notin> {43, 45}" using digit_codes by (cases ds) auto
    have "sint (word_of_int (digits_value ds) :: u32) = digits_value ds"
      using ok(4,5) digits_value_pos[of ds 0] by (simp add: digits_value_def signed_of_int signed_take_bit_int_eq_self)
    moreover have "exp_digits 0 (ds @ rest) = Inr (word_of_int (digits_value ds), rest)"
      using exp_digits_run[OF ok(4) rest(2), of 0 cs] by (simp add: rest(1) digits_value_def)
    ultimately show ?thesis using ok(1,2) d by (auto simp: Some t parse_exponent_def)
  qed
qed

lemma parse_fraction_run:
  assumes "list_all isdigit fr" "tl' = c # cs" "\<not> isdigit c" "c \<noteq> 46"
  shows "parse_fraction fp n ((if fr = [] then [] else 46 # fr) @ tl') = Inr (foldl (fp_digit fp) n fr, - int (length fr), tl')"
  using assms frac_digits_run[OF assms(1,3), of fp n 0 cs] by (cases fr) (auto simp: parse_fraction_def)

lemma parse_number_numeral:
  assumes "numeral_ok x" "after_number rest"
  shows "parse_number fp item (numeral_text x @ rest) =
    Inr (set_type cJSON_Number (set_valueint (fp_int fp (numeral_value fp x)) (set_valuedouble (numeral_value fp x) item)), rest)"
proof -
  define ex fr where "ex = (case n_exponent x of None \<Rightarrow> [] | Some (e, sg, ds) \<Rightarrow> e # sg @ ds) @ rest"
    and "fr = (if n_fraction x = [] then [] else 46 # n_fraction x) @ ex"
  have x: "list_all isdigit (n_fraction x)" and e: "case n_exponent x of None \<Rightarrow> True | Some (e, sg, ds) \<Rightarrow>
      e \<in> {101, 69} \<and> sg \<in> {[], [43], [45]} \<and> ds \<noteq> [] \<and> list_all isdigit ds \<and> digits_value ds < 2 ^ 31"
    using assms(1) by (auto simp: numeral_ok_def)
  obtain c cs where c: "ex = c # cs" "\<not> isdigit c" "c \<noteq> 46"
    using assms(2) e by (cases "n_exponent x") (auto simp: ex_def after_number_def isdigit_def)
  note fraction = parse_fraction_run[OF x c, of fp, folded fr_def]
  note expo = parse_exponent_run[OF assms(2) e, folded ex_def]
  obtain c2 cs2 where c2: "fr = c2 # cs2" "\<not> isdigit c2"
    using c by (cases "n_fraction x") (auto simp: fr_def isdigit_def)
  then have c2': "\<not> (49 \<le> c2 \<and> c2 \<le> 57)" by (auto simp: isdigit_iff word_le_nat_alt)
  have shown: "numeral_text x @ rest = (if n_negative x then [45] else []) @ n_whole x @ fr"
    by (simp add: numeral_text_def ex_def fr_def)
  from assms(1) consider "n_whole x = [48]"
    | d ds where "n_whole x = d # ds" "49 \<le> d" "d \<le> 57" "list_all isdigit ds" by (auto simp: numeral_ok_def)
  then show ?thesis
  proof cases
    case 1
    then show ?thesis unfolding shown using c2 c2' fraction expo
      by (auto simp: parse_number_def numeral_value_def numeral_scale_def Let_def)
  next
    case 2
    then have d: "d \<noteq> 45" "d \<noteq> 48" "isdigit d" by (auto simp: isdigit_iff word_le_nat_alt)
    then have "int_digits fp n ((d # ds) @ fr) = Inr (foldl (fp_digit fp) n (d # ds), fr)" for n
      using int_digits_run[of "d # ds" c2 fp n cs2] 2(4) c2 by simp
    then show ?thesis unfolding shown using 2 d fraction expo
      by (auto simp: parse_number_def numeral_value_def numeral_scale_def Let_def)
  qed
qed

section \<open>Concrete instances\<close>

text \<open>An allocator that always gives a block, and an arithmetic that is exact on integers.\<close>

definition filled_malloc :: mallocs where
  "filled_malloc k = Some (\<lambda>i. 0xAA)"

definition int_fp :: "int fp" where
  "int_fp = \<lparr>fp_zero = 0, fp_digit = (\<lambda>n c. n * 10 + (uint c - 48)), fp_scale = (\<lambda>s n e. s * n * 10 ^ nat e),
     fp_of_int = (\<lambda>i. i), fp_int = word_of_int, fp_is_zero = (\<lambda>d. d = 0), fp_near = (\<lambda>i d. sint i = d), fp_text = (\<lambda>_. [])\<rparr>"

lemma filled_malloc_total: "total_malloc filled_malloc"
  by (simp add: total_malloc_def filled_malloc_def)

lemma int_fp_exact: "fp_exact int_fp"
  by (simp add: fp_exact_def int_fp_def)

section \<open>Properties\<close>

text \<open>C16. Whatever the text, the allocator and the arithmetic: the parser returns or faults, it never runs for
  ever, and a tree it returns has one of the seven types in every node, a terminated string in the string nodes and in no other
  node, a terminated name in every member of an object, and children below arrays and objects only.\<close>

theorem cJSON_Parse_type:
  "case cJSON_Parse m fp v s of Inl e \<Rightarrow> e \<noteq> Diverges
   | Inr (r, s') \<Rightarrow> (case r of None \<Rightarrow> True | Some t \<Rightarrow> well_formed t)"
  using cJSON_Parse_safe[of "\<lambda>e. e \<noteq> Diverges" v m fp s] by (simp add: cends_def sound_def)

text \<open>C15. On a terminated text without a backslash, correct JSON or not, the parser never reads behind the text
  and never writes behind a block: it returns, with a tree or without.\<close>

theorem cJSON_Parse_plain_safe:
  assumes "0 \<in> set v" "92 \<notin> set v"
  shows "\<exists>r s'. cJSON_Parse m fp v s = Inr (r, s')"
  using cJSON_Parse_safe[of "\<lambda>_. False" v m fp s] assms by (auto simp: cends_def sound_def split: sum.splits)

theorem cJSON_Parse_plain_safe_witness:
  "\<exists>r s'. cJSON_Parse filled_malloc int_fp (lit ''{\"a\":[1,,'' @ [0]) \<lparr>allocs = 0, ep = None\<rparr> = Inr (r, s')"
  by (rule cJSON_Parse_plain_safe) (simp_all add: lit_def)

text \<open>A backslash as the last character before the terminator makes the parser step over the terminator: on
  a text that ends there it reads behind its end.\<close>

theorem cJSON_Parse_backslash_overruns:
  assumes "34 \<notin> set bs" "0 \<notin> set bs" "92 \<notin> set bs" "total_malloc m"
  shows "cJSON_Parse m fp (34 # bs @ [92, 0]) s = Inl Out_Of_Bounds"
proof -
  have "string_len (bs @ [92, 0]) n = Inl Out_Of_Bounds" for n
    using assms(1-3) by (induction bs arbitrary: n) auto
  then have "parse_value (Suc n) m fp item (34 # bs @ [92, 0]) s' = Inl Out_Of_Bounds" for n item s'
    by (simp add: parse_value.simps lit_def parse_string_def) (simp add: jbind_def jlift_def)
  then show ?thesis
    by (simp add: cJSON_Parse_def jbind_def[of "cJSON_ParseWithOpts m fp (34 # bs @ [92, 0]) False"]
        cJSON_ParseWithOpts_def new_item_run[OF assms(4)])
      (simp add: jbind_def jtry_def new_item_run[OF assms(4)])
qed

theorem cJSON_Parse_backslash_overruns_witness:
  "cJSON_Parse filled_malloc int_fp [34, 65, 92, 0] \<lparr>allocs = 0, ep = None\<rparr> = Inl Out_Of_Bounds"
  using cJSON_Parse_backslash_overruns[of "[65]" filled_malloc int_fp, OF _ _ _ filled_malloc_total] by simp

text \<open>C18. A number of JSON, with or without a fraction and an exponent, is read to its end and no further: the value is its digits
  in order, scaled by its exponent less one for each digit behind the point, with its sign, in whatever arithmetic,
  and the integer of the item is that value converted.\<close>

theorem parse_number_reads:
  assumes "numeral_ok x" "after_number rest"
  shows "parse_number fp item (numeral_text x @ rest) =
    Inr (set_type cJSON_Number (set_valueint (fp_int fp (numeral_value fp x)) (set_valuedouble (numeral_value fp x) item)), rest)"
  by (rule parse_number_numeral[OF assms])

theorem parse_number_reads_witness:
  "parse_number int_fp (new_item int_fp) (lit ''-12.50e+3,'') =
   Inr (CJSON cJSON_Number None (- 12500) (- 12500) None [], [44])"
proof -
  define x where "x = \<lparr>n_negative = True, n_whole = lit ''12'', n_fraction = lit ''50'', n_exponent = Some (101, [43], lit ''3'')\<rparr>"
  have "numeral_ok x" by (simp add: x_def numeral_ok_def lit_def isdigit_def digits_value_def)
  moreover have "after_number [44]" by (simp add: after_number_def isdigit_def)
  moreover have "numeral_text x @ [44] = lit ''-12.50e+3,''" by (simp add: x_def numeral_text_def lit_def)
  moreover have "numeral_value int_fp x = - 12500"
    by (simp add: x_def numeral_value_def numeral_scale_def digits_value_def lit_def int_fp_def)
  ultimately show ?thesis using parse_number_reads[of x "[44]" int_fp "new_item int_fp"]
    by (simp add: int_fp_def new_item_def)
qed

text \<open>Looking a key up in a well-formed object gives its first member whose name is the key up to the case of
  letters, and nothing when there is none; it never faults.\<close>

theorem cJSON_GetObjectItem_first:
  assumes "well_formed obj" "jtype obj = cJSON_Object" "0 \<in> set key"
  shows "cJSON_GetObjectItem (Some obj) key = Inr (find (\<lambda>c. same_key (the (jname c)) key) (jchild obj))"
  by (rule GetObjectItem_find[OF assms])

theorem cJSON_GetObjectItem_first_witness:
  "cJSON_GetObjectItem (Some (CJSON 6 None 0 (0 :: int) None [CJSON 3 None 7 7 (Some [107, 0]) [], CJSON 3 None 8 8 (Some [75, 0]) []])) [75, 0] =
   Inr (Some (CJSON 3 None 7 7 (Some [107, 0]) []))"
  using cJSON_GetObjectItem_first[of "CJSON 6 None 0 (0 :: int) None [CJSON 3 None 7 7 (Some [107, 0]) [], CJSON 3 None 8 8 (Some [75, 0]) []]" "[75, 0]"]
  by (simp add: type_codes terminated_def same_key_def tolower_def cstr_def)

end
