(* ===== verification/CJson_Print.thy ===== *)
theory CJson_Print
  imports CJson_Safe
begin

text \<open>
  The printer of \<open>cJSON.c\<close>, the variant that allocates a block for every part (\<open>cJSON_Print\<close> and
  \<open>cJSON_PrintUnformatted\<close>). Every block is allocated with a computed size and filled by pointer; the
  theorems show that the sizes suffice and that the text is that of the value, so that parsing gives it
  back.
\<close>

section \<open>The code\<close>

text \<open>Reading a C string to its end, as \<open>strlen\<close>, \<open>strcpy\<close> and the loops over \<open>*ptr\<close> do.\<close>

definition c_chars :: "byte list \<Rightarrow> byte list cres" where
  "c_chars buf = (if 0 \<in> set buf then Inr (cstr buf) else Inl Out_Of_Bounds)"

text \<open>Storing some bytes and a terminator that the next store goes over.\<close>

definition store_nul :: "byte list \<Rightarrow> nat \<times> byte list \<Rightarrow> (nat \<times> byte list) cres" where
  "store_nul bs st = cbind (store (bs @ [0]) st) (\<lambda>(pos, out). Inr (pos - 1, out))"

definition cJSON_strdup :: "mallocs \<Rightarrow> byte list \<Rightarrow> byte list option jm" where
  "cJSON_strdup m str =
     jbind (jlift (c_chars str)) (\<lambda>s.
     jtry (cJSON_malloc m (length s + 1)) (\<lambda>copy.
     jbind (jlift (store (s @ [0]) (0, copy))) (\<lambda>(pos, copy). jret (Some copy))))"

definition sprint :: "mallocs \<Rightarrow> nat \<Rightarrow> byte list \<Rightarrow> byte list option jm" where
  "sprint m n s =
     jtry (cJSON_malloc m n) (\<lambda>str. jbind (jlift (store (s @ [0]) (0, str))) (\<lambda>(pos, str). jret (Some str)))"

definition json_print_number :: "mallocs \<Rightarrow> 'd fp \<Rightarrow> 'd cJSON \<Rightarrow> byte list option jm" where
  "json_print_number m fp item =
     (let d = valuedouble item in
      if fp_is_zero fp d then sprint m 2 (lit ''0'')
      else if fp_near fp (valueint item) d then sprint m 21 (dec_text (-1) (valueint item))
      else sprint m 64 (fp_text fp d))"

definition needs_escape :: "byte \<Rightarrow> bool" where
  "needs_escape c \<longleftrightarrow> (0 < c \<and> c < 32) \<or> c = 34 \<or> c = 92"

fun print_len :: "byte list \<Rightarrow> nat \<Rightarrow> nat" where
  "print_len [] len = len"
| "print_len (token # ptr) len =
     (let len = len + 1 in
      if token \<in> {34, 92, 8, 12, 10, 13, 9} then print_len ptr (len + 1)
      else if token < 32 then print_len ptr (len + 5) else print_len ptr len)"

definition print_escape :: "byte \<Rightarrow> nat \<times> byte list \<Rightarrow> (nat \<times> byte list) cres" where
  "print_escape token st =
     cbind (store [92] st) (\<lambda>st.
     if token = 92 then store [92] st else if token = 34 then store [34] st
     else if token = 8 then store [98] st else if token = 12 then store [102] st
     else if token = 10 then store [110] st else if token = 13 then store [114] st
     else if token = 9 then store [116] st
     else store_nul [117, 48, 48, hex_char (unat token div 16), hex_char (unat token mod 16)] st)"

fun print_chars :: "byte list \<Rightarrow> nat \<times> byte list \<Rightarrow> (nat \<times> byte list) cres" where
  "print_chars [] st = Inr st"
| "print_chars (c # ptr) st =
     cbind (if 31 < c \<and> c \<noteq> 34 \<and> c \<noteq> 92 then store [c] st else print_escape c st) (print_chars ptr)"

text \<open>\<open>str\<close> is followed before it is compared with null.\<close>

definition print_string_ptr :: "mallocs \<Rightarrow> byte list option \<Rightarrow> byte list option jm" where
  "print_string_ptr m str =
     jbind (jlift (deref str)) (\<lambda>str.
     jbind (jlift (c_chars str)) (\<lambda>s.
     if \<not> list_ex needs_escape s then
       jtry (cJSON_malloc m (length s + 3)) (\<lambda>out.
       jbind (jlift (store [34] (0, out))) (\<lambda>(pos, out).
       jbind (jlift (store (s @ [0]) (pos, out))) (\<lambda>(_, out).
       jbind (jlift (store [34, 0] (pos + length s, out))) (\<lambda>(_, out). jret (Some out)))))
     else
       jtry (cJSON_malloc m (print_len s 0 + 3)) (\<lambda>out.
       jbind (jlift (store [34] (0, out))) (\<lambda>st.
       jbind (jlift (print_chars s st)) (\<lambda>st.
       jbind (jlift (store [34, 0] st)) (\<lambda>(_, out). jret (Some out)))))))"

text \<open>\<open>sep\<close> between the entries of an array: a comma, a space when formatted, and a terminator.\<close>

fun join_entries :: "bool \<Rightarrow> byte list list \<Rightarrow> nat \<times> byte list \<Rightarrow> (nat \<times> byte list) cres" where
  "join_entries fmt [] st = Inr st"
| "join_entries fmt (e # es) st =
     cbind (store e st) (\<lambda>st.
     if es = [] then Inr st
     else cbind (store_nul (44 # (if fmt then [32] else [])) st) (join_entries fmt es))"

definition compose_array :: "mallocs \<Rightarrow> bool \<Rightarrow> byte list list \<Rightarrow> byte list option jm" where
  "compose_array m fmt entries =
     jtry (cJSON_malloc m (5 + sum_list (map (\<lambda>e. length e + 2 + (if fmt then 1 else 0)) entries))) (\<lambda>out.
     jbind (jlift (store_nul [91] (0, out))) (\<lambda>st.
     jbind (jlift (join_entries fmt entries st)) (\<lambda>st.
     jbind (jlift (store [93, 0] st)) (\<lambda>(_, out). jret (Some out)))))"

fun join_members ::
  "bool \<Rightarrow> nat \<Rightarrow> (byte list \<times> byte list) list \<Rightarrow> nat \<times> byte list \<Rightarrow> (nat \<times> byte list) cres" where
  "join_members fmt depth [] st = Inr st"
| "join_members fmt depth ((name, e) # es) st =
     cbind (store (tabs fmt depth) st) (\<lambda>st.
     cbind (store name st) (\<lambda>st.
     cbind (store (58 # tabs fmt 1) st) (\<lambda>st.
     cbind (store_nul e st) (\<lambda>st.
     cbind (store_nul ((if es = [] then [] else [44]) @ nl fmt) st) (join_members fmt depth es)))))"

text \<open>\<open>depth\<close> is already that of the members.\<close>

definition compose_object :: "mallocs \<Rightarrow> bool \<Rightarrow> nat \<Rightarrow> (byte list \<times> byte list) list \<Rightarrow> byte list option jm" where
  "compose_object m fmt depth members =
     jtry (cJSON_malloc m (7 + (if fmt then depth else 0) +
         sum_list (map (\<lambda>(n, e). length e + length n + 2 + (if fmt then 2 + depth else 0)) members))) (\<lambda>out.
     jbind (jlift (store_nul (123 # nl fmt) (0, out))) (\<lambda>st.
     jbind (jlift (join_members fmt depth members st)) (\<lambda>st.
     jbind (jlift (store (tabs fmt (depth - 1) @ [125, 0]) st)) (\<lambda>(_, out). jret (Some out)))))"

definition print_empty_object :: "mallocs \<Rightarrow> bool \<Rightarrow> nat \<Rightarrow> byte list option jm" where
  "print_empty_object m fmt depth =
     jtry (cJSON_malloc m (if fmt then depth + 4 else 3)) (\<lambda>out.
     jbind (jlift (store (123 # nl fmt @ tabs fmt (depth - 1) @ [125, 0]) (0, out))) (\<lambda>(_, out). jret (Some out)))"

fun print_value :: "mallocs \<Rightarrow> 'd fp \<Rightarrow> nat \<Rightarrow> bool \<Rightarrow> 'd cJSON \<Rightarrow> byte list option jm"
and print_entries :: "mallocs \<Rightarrow> 'd fp \<Rightarrow> nat \<Rightarrow> bool \<Rightarrow> 'd cJSON list \<Rightarrow> byte list list option jm"
and print_members :: "mallocs \<Rightarrow> 'd fp \<Rightarrow> nat \<Rightarrow> bool \<Rightarrow> 'd cJSON list \<Rightarrow> (byte list \<times> byte list) list option jm" where
  "print_value m fp depth fmt (CJSON t s i d nm ch) =
     (let k = t AND 255 in
      if k = cJSON_NULL then cJSON_strdup m (lit ''null'' @ [0])
      else if k = cJSON_False then cJSON_strdup m (lit ''false'' @ [0])
      else if k = cJSON_True then cJSON_strdup m (lit ''true'' @ [0])
      else if k = cJSON_Number then json_print_number m fp (CJSON t s i d nm ch)
      else if k = cJSON_String then print_string_ptr m s
      else if k = cJSON_Array then
        (if ch = [] then sprint m 3 (lit ''[]'')
         else jbind (cJSON_malloc m (4 * length ch)) (\<lambda>p. if p = None then jret None else
           jtry (print_entries m fp (depth + 1) fmt ch) (compose_array m fmt)))
      else if k = cJSON_Object then
        (if ch = [] then print_empty_object m fmt depth
         else jbind (cJSON_malloc m (4 * length ch)) (\<lambda>p. if p = None then jret None else
           jbind (cJSON_malloc m (4 * length ch)) (\<lambda>p. if p = None then jret None else
           jtry (print_members m fp (depth + 1) fmt ch) (compose_object m fmt (depth + 1)))))
      else jret None)"
| "print_entries m fp depth fmt [] = jret (Some [])"
| "print_entries m fp depth fmt (c # cs) =
     jtry (print_value m fp depth fmt c) (\<lambda>e.
     jbind (jlift (c_chars e)) (\<lambda>e.
     jtry (print_entries m fp depth fmt cs) (\<lambda>es. jret (Some (e # es)))))"
| "print_members m fp depth fmt [] = jret (Some [])"
| "print_members m fp depth fmt (c # cs) =
     jbind (print_string_ptr m (jname c)) (\<lambda>str.
     jbind (print_value m fp depth fmt c) (\<lambda>e.
     jbind (jlift (case (str, e) of
         (Some str, Some e) \<Rightarrow> cbind (c_chars e) (\<lambda>e. cbind (c_chars str) (\<lambda>str. Inr (Some (str, e))))
       | _ \<Rightarrow> Inr None)) (\<lambda>r.
     jbind (print_members m fp depth fmt cs) (\<lambda>rest.
     jret (case (r, rest) of (Some x, Some xs) \<Rightarrow> Some (x # xs) | _ \<Rightarrow> None)))))"

definition cJSON_Print :: "mallocs \<Rightarrow> 'd fp \<Rightarrow> 'd cJSON \<Rightarrow> byte list option jm" where
  "cJSON_Print m fp item = print_value m fp 0 True item"

definition cJSON_PrintUnformatted :: "mallocs \<Rightarrow> 'd fp \<Rightarrow> 'd cJSON \<Rightarrow> byte list option jm" where
  "cJSON_PrintUnformatted m fp item = print_value m fp 0 False item"

section \<open>Filling a block\<close>

text \<open>The block of size \<open>n\<close> starts with \<open>pre\<close>, and the pointer is behind it.\<close>

definition holds :: "byte list \<Rightarrow> nat \<Rightarrow> nat \<times> byte list \<Rightarrow> bool" where
  "holds pre n st \<longleftrightarrow> fst st = length pre \<and> length (snd st) = n \<and> take (length pre) (snd st) = pre \<and> length pre \<le> n"

lemma holds_start: "length out = n \<Longrightarrow> holds [] n (0, out)"
  by (simp add: holds_def)

lemma store_holds:
  assumes "holds pre n st" "length pre + length bs \<le> n"
  obtains st' where "store bs st = Inr st'" "holds (pre @ bs) n st'"
proof -
  obtain out where st: "st = (length pre, out)" and out: "length out = n" "take (length pre) out = pre"
    using assms(1) by (cases st) (auto simp: holds_def)
  then have "store bs st = Inr (length pre + length bs, overlay (length pre) bs out)"
    using assms(2) by (simp add: store_def)
  moreover have "take (length pre + length bs) (overlay (length pre) bs out) = pre @ bs"
    using take_overlay[of "length pre" bs out] out assms(2) by simp
  ultimately show ?thesis using that out assms(2) by (simp add: holds_def)
qed

lemma store_nul_holds:
  assumes "holds pre n st" "length pre + length bs < n"
  obtains st' where "store_nul bs st = Inr st'" "holds (pre @ bs) n st'"
proof -
  obtain pos out where e: "store (bs @ [0]) st = Inr (pos, out)" "holds (pre @ bs @ [0]) n (pos, out)"
    by (rule store_holds[OF assms(1), of "bs @ [0]"]) (use assms(2) in auto)
  have "take (length pre + length bs) out = pre @ bs"
  proof -
    have "take (length pre + length bs) out = take (length pre + length bs) (take (length (pre @ bs @ [0])) out)"
      by (simp add: min_def)
    also have "\<dots> = pre @ bs" using e(2) by (simp add: holds_def)
    finally show ?thesis .
  qed
  then have "holds (pre @ bs) n (pos - 1, out)" using e(2) by (simp add: holds_def)
  moreover have "store_nul bs st = Inr (pos - 1, out)" using e(1) by (simp add: store_nul_def)
  ultimately show ?thesis using that by blast
qed

lemma holds_end: "holds (pre @ [0]) n (pos, out) \<Longrightarrow> \<exists>junk. out = pre @ 0 # junk"
proof -
  assume "holds (pre @ [0]) n (pos, out)"
  then have "out = (pre @ [0]) @ drop (Suc (length pre)) out"
    by (metis append_take_drop_id fst_conv holds_def length_append_singleton snd_conv)
  then show ?thesis by (metis append.assoc append_Cons append_Nil)
qed

section \<open>Running the printer\<close>

text \<open>The computation does not fault; it gives nothing only when an allocation failed.\<close>

definition runs :: "mallocs \<Rightarrow> 'a option jm \<Rightarrow> ('a \<Rightarrow> bool) \<Rightarrow> bool" where
  "runs m p Q \<longleftrightarrow> (\<forall>s. \<exists>r s'. p s = Inr (r, s') \<and> (case r of None \<Rightarrow> \<not> total_malloc m | Some x \<Rightarrow> Q x))"

lemma runs_ret [intro]: "Q x \<Longrightarrow> runs m (jret (Some x)) Q"
  by (simp add: runs_def jret_def)

lemma runs_lift: "r = Inr x \<Longrightarrow> runs m (f x) Q \<Longrightarrow> runs m (jbind (jlift r) f) Q"
  by (simp add: runs_def)

lemma runs_try:
  assumes "runs m p P" "\<And>x. P x \<Longrightarrow> runs m (f x) Q"
  shows "runs m (jtry p f) Q"
  unfolding runs_def
proof
  fix s
  obtain r s' where r: "p s = Inr (r, s')" "case r of None \<Rightarrow> \<not> total_malloc m | Some x \<Rightarrow> P x"
    using assms(1) unfolding runs_def by blast
  show "\<exists>r s'. jtry p f s = Inr (r, s') \<and> (case r of None \<Rightarrow> \<not> total_malloc m | Some x \<Rightarrow> Q x)"
  proof (cases r)
    case None
    then show ?thesis using r by (simp add: jtry_def) (simp add: jret_def)
  next
    case (Some x)
    then show ?thesis using r assms(2)[of x] by (auto simp: jtry_run runs_def)
  qed
qed

lemma runs_malloc: "(\<And>out. length out = n \<Longrightarrow> runs m (f out) Q) \<Longrightarrow> runs m (jtry (cJSON_malloc m n) f) Q"
proof (rule runs_try)
  show "runs m (cJSON_malloc m n) (\<lambda>out. length out = n)"
    by (auto simp: runs_def cJSON_malloc_def total_malloc_def Let_def split: option.splits)
qed simp

text \<open>What \<open>print_value\<close> must leave in the block.\<close>

definition text_block :: "byte list \<Rightarrow> byte list \<Rightarrow> bool" where
  "text_block body out \<longleftrightarrow> (\<exists>junk. out = body @ 0 # junk)"

lemma sprint_runs:
  assumes "length body < n"
  shows "runs m (sprint m n body) (text_block body)"
  unfolding sprint_def
proof (rule runs_malloc)
  fix out :: "byte list"
  assume out: "length out = n"
  obtain st where "store (body @ [0]) (0, out) = Inr st" "holds ([] @ body @ [0]) n st"
    by (rule store_holds[OF holds_start[OF out], of "body @ [0]"]) (use assms in auto)
  then show "runs m (jbind (jlift (store (body @ [0]) (0, out))) (\<lambda>(pos, str). jret (Some str))) (text_block body)"
    using holds_end[of body n] by (cases st) (auto intro!: runs_lift runs_ret simp: text_block_def)
qed

lemma c_chars_text [simp]: "0 \<notin> set body \<Longrightarrow> c_chars (body @ 0 # junk) = Inr body"
  by (simp add: c_chars_def)

lemma strdup_runs: "0 \<notin> set body \<Longrightarrow> runs m (cJSON_strdup m (body @ [0])) (text_block body)"
  using sprint_runs[of body "length body + 1" m] by (simp add: cJSON_strdup_def sprint_def)

section \<open>Strings\<close>

lemma escaped_print:
  assumes "c \<noteq> 0"
  shows "print_len (c # s) len = print_len s (len + length (escaped c))"
    and "needs_escape c \<longleftrightarrow> escaped c \<noteq> [c]"
proof -
  consider "31 < c" "c \<noteq> 34" "c \<noteq> 92" | "c \<in> {34, 92, 8, 12, 10, 13, 9}"
    | "\<not> 31 < c" "c \<notin> {34, 92, 8, 12, 10, 13, 9}" by blast
  then have "print_len (c # s) len = print_len s (len + length (escaped c)) \<and> (needs_escape c \<longleftrightarrow> escaped c \<noteq> [c])"
  proof cases
    case 1
    then have "\<not> c < 32" by (simp add: word_less_nat_alt)
    with 1 have "c \<noteq> 8" "c \<noteq> 12" "c \<noteq> 10" "c \<noteq> 13" "c \<noteq> 9" by auto
    with 1 \<open>\<not> c < 32\<close> show ?thesis by (simp add: escaped_def needs_escape_def)
  next
    case 2
    then show ?thesis by (auto simp: escaped_def needs_escape_def)
  next
    case 3
    then have "c < 32" "0 < c" using assms by (simp_all add: not_less word_neq_0_conv) (simp add: word_less_nat_alt word_le_nat_alt)
    with 3 show ?thesis by (simp add: escaped_def needs_escape_def Let_def) (simp add: numeral_eq_Suc)
  qed
  then show "print_len (c # s) len = print_len s (len + length (escaped c))" "needs_escape c \<longleftrightarrow> escaped c \<noteq> [c]"
    by blast+
qed

lemma print_len_eq: "0 \<notin> set s \<Longrightarrow> print_len s len = len + length (concat (map escaped s))"
proof (induction s arbitrary: len)
  case (Cons c s)
  then show ?case using escaped_print(1)[of c s len] by simp
qed simp

lemma plain_chars: "\<not> list_ex needs_escape s \<Longrightarrow> 0 \<notin> set s \<Longrightarrow> concat (map escaped s) = s"
  using escaped_print(2) by (induction s) auto

lemma print_char_holds:
  assumes "c \<noteq> 0" "holds pre n st" "length pre + length (escaped c) < n"
  obtains st' where "(if 31 < c \<and> c \<noteq> 34 \<and> c \<noteq> 92 then store [c] st else print_escape c st) = Inr st'"
    "holds (pre @ escaped c) n st'"
proof (cases "31 < c \<and> c \<noteq> 34 \<and> c \<noteq> 92")
  case True
  then have "escaped c = [c]" by (simp add: escaped_def)
  then show ?thesis using store_holds[OF assms(2), of "[c]"] assms(3) True that by auto
next
  case False
  have "\<exists>e. escaped c = 92 # e \<and> e \<noteq> []" using False by (simp add: escaped_def)
  then obtain e where e: "escaped c = 92 # e" "e \<noteq> []" by blast
  obtain st1 where st1: "store [92] st = Inr st1" "holds (pre @ [92]) n st1"
    by (rule store_holds[OF assms(2), of "[92]"]) (use assms(3) e in auto)
  have len: "length (pre @ [92]) + length e < n" using assms(3) e by simp
  have "\<exists>st2. print_escape c st = Inr st2 \<and> holds ((pre @ [92]) @ e) n st2"
  proof (cases "c \<in> {92, 34, 8, 12, 10, 13, 9}")
    case True
    then have "print_escape c st = store e st1" using st1(1) e False by (auto simp: print_escape_def escaped_def)
    then show ?thesis using store_holds[OF st1(2), of e] len by (metis less_imp_le)
  next
    case short: False
    then have "print_escape c st = store_nul e st1" using st1(1) e False by (auto simp: print_escape_def escaped_def)
    then show ?thesis using store_nul_holds[OF st1(2) len] by metis
  qed
  then show ?thesis using that False e by auto
qed

lemma print_chars_holds:
  "0 \<notin> set s \<Longrightarrow> holds pre n st \<Longrightarrow> length pre + length (concat (map escaped s)) < n \<Longrightarrow>
   \<exists>st'. print_chars s st = Inr st' \<and> holds (pre @ concat (map escaped s)) n st'"
proof (induction s arbitrary: pre st)
  case (Cons c s)
  obtain st1 where st1: "(if 31 < c \<and> c \<noteq> 34 \<and> c \<noteq> 92 then store [c] st else print_escape c st) = Inr st1"
    "holds (pre @ escaped c) n st1"
    by (rule print_char_holds[of c pre n st]) (use Cons.prems in auto)
  from Cons.IH[OF _ st1(2)] Cons.prems show ?case using st1(1) by (auto split del: if_split)
qed auto

lemma print_string_runs:
  assumes "0 \<in> set buf"
  shows "runs m (print_string_ptr m (Some buf)) (text_block (quote (cstr buf)))"
proof -
  define s where "s = cstr buf"
  have s: "0 \<notin> set s" "c_chars buf = Inr s" using assms by (simp_all add: s_def c_chars_def)
  show ?thesis
  proof (cases "list_ex needs_escape s")
    case True
    have "runs m (jtry (cJSON_malloc m (print_len s 0 + 3)) (\<lambda>out. jbind (jlift (store [34] (0, out))) (\<lambda>st.
        jbind (jlift (print_chars s st)) (\<lambda>st. jbind (jlift (store [34, 0] st)) (\<lambda>(_, out). jret (Some out))))))
        (text_block (quote s))"
    proof (rule runs_malloc)
      fix out :: "byte list"
      let ?n = "print_len s 0 + 3"
      assume out: "length out = ?n"
      note len = print_len_eq[OF s(1), of 0]
      obtain st1 where 1: "store [34] (0, out) = Inr st1" "holds ([] @ [34]) ?n st1"
        by (rule store_holds[OF holds_start[OF out], of "[34]"]) auto
      obtain st2 where 2: "print_chars s st1 = Inr st2" "holds (([] @ [34]) @ concat (map escaped s)) ?n st2"
        using print_chars_holds[OF s(1) 1(2)] len by auto
      obtain st3 where 3: "store [34, 0] st2 = Inr st3" "holds ((([] @ [34]) @ concat (map escaped s)) @ [34, 0]) ?n st3"
        by (rule store_holds[OF 2(2), of "[34, 0]"]) (use len in auto)
      have "text_block (quote s) (snd st3)"
        using holds_end[of "quote s" ?n "fst st3" "snd st3"] 3(2) by (simp add: text_block_def quote_def)
      then show "runs m (jbind (jlift (store [34] (0, out))) (\<lambda>st. jbind (jlift (print_chars s st)) (\<lambda>st.
          jbind (jlift (store [34, 0] st)) (\<lambda>(_, out). jret (Some out))))) (text_block (quote s))"
        using 1(1) 2(1) 3(1) by (cases st3) (simp add: runs_ret)
    qed
    then show ?thesis using True s by (simp add: print_string_ptr_def deref_def runs_lift flip: s_def)
  next
    case False
    have "runs m (jtry (cJSON_malloc m (length s + 3)) (\<lambda>out. jbind (jlift (store [34] (0, out))) (\<lambda>(pos, out).
        jbind (jlift (store (s @ [0]) (pos, out))) (\<lambda>(_, out).
        jbind (jlift (store [34, 0] (pos + length s, out))) (\<lambda>(_, out). jret (Some out))))))
        (text_block (quote s))"
    proof (rule runs_malloc)
      fix out :: "byte list"
      let ?n = "length s + 3"
      assume out: "length out = ?n"
      define out1 where "out1 = overlay 0 [34] out"
      have e1: "store [34] (0, out) = Inr (1, out1)" using out by (simp add: store_def out1_def)
      obtain st1 where "store [34] (0, out) = Inr st1" "holds ([] @ [34]) ?n st1"
        by (rule store_holds[OF holds_start[OF out], of "[34]"]) auto
      with e1 have 1: "store [34] (0, out) = Inr (1, out1)" "holds [34] ?n (1, out1)" by simp_all
      define out2 where "out2 = overlay 1 (s @ [0]) out1"
      have "length out1 = ?n" using 1(2) by (simp add: holds_def)
      then have 2: "store (s @ [0]) (1, out1) = Inr (length s + 2, out2)" by (simp add: store_def out2_def)
      then have "store_nul s (1, out1) = Inr (1 + length s, out2)" by (simp add: store_nul_def)
      moreover obtain st2 where "store_nul s (1, out1) = Inr st2" "holds ([34] @ s) ?n st2"
        by (rule store_nul_holds[OF 1(2), of s]) simp
      ultimately have h2: "holds (34 # s) ?n (1 + length s, out2)" by simp
      obtain st3 where 3: "store [34, 0] (1 + length s, out2) = Inr st3" "holds ((34 # s) @ [34, 0]) ?n st3"
        by (rule store_holds[OF h2, of "[34, 0]"]) auto
      have "quote s = 34 # s @ [34]" using plain_chars[OF False s(1)] by (simp add: quote_def)
      then have "text_block (quote s) (snd st3)"
        using holds_end[of "quote s" ?n "fst st3" "snd st3"] 3(2) by (simp add: text_block_def)
      then show "runs m (jbind (jlift (store [34] (0, out))) (\<lambda>(pos, out).
          jbind (jlift (store (s @ [0]) (pos, out))) (\<lambda>(_, out).
          jbind (jlift (store [34, 0] (pos + length s, out))) (\<lambda>(_, out). jret (Some out))))) (text_block (quote s))"
        using 1(1) 2 3(1) by (cases st3) (simp add: runs_ret)
    qed
    then show ?thesis using False s by (simp add: print_string_ptr_def deref_def runs_lift flip: s_def)
  qed
qed

section \<open>Arrays and objects\<close>

lemma separated_size: "length (separated sep es) \<le> sum_list (map (\<lambda>e. length e + length sep) es)"
  by (induction sep es rule: separated.induct) simp_all

lemma join_entries_holds:
  "holds pre n st \<Longrightarrow> length pre + length (separated (44 # (if fmt then [32] else [])) es) < n \<Longrightarrow>
   \<exists>st'. join_entries fmt es st = Inr st' \<and> holds (pre @ separated (44 # (if fmt then [32] else [])) es) n st'"
proof (induction es arbitrary: pre st)
  case (Cons e es)
  define sp :: "byte list" where "sp = 44 # (if fmt then [32] else [])"
  obtain st1 where 1: "store e st = Inr st1" "holds (pre @ e) n st1"
    by (rule store_holds[OF Cons.prems(1), of e]) (use Cons.prems(2) in \<open>cases es; auto\<close>)
  show ?case
  proof (cases es)
    case Nil
    then show ?thesis using 1 by simp
  next
    case (Cons x xs)
    then have sep: "separated sp (e # es) = e @ sp @ separated sp es" by simp
    have len: "length (pre @ e) + length sp + length (separated sp es) < n"
      using Cons.prems(2)[folded sp_def] unfolding sep by simp
    obtain st2 where 2: "store_nul sp st1 = Inr st2" "holds ((pre @ e) @ sp) n st2"
      by (rule store_nul_holds[OF 1(2), of sp]) (use len in auto)
    obtain st3 where 3: "join_entries fmt es st2 = Inr st3" "holds (((pre @ e) @ sp) @ separated sp es) n st3"
      using Cons.IH[OF 2(2)] len unfolding sp_def[symmetric] by auto
    have "join_entries fmt (e # es) st = Inr st3" using 1(1) 2(1) 3(1) Cons by (simp add: sp_def)
    then show ?thesis using 3(2) sep by (simp flip: sp_def)
  qed
qed simp

lemma compose_array_runs:
  "runs m (compose_array m fmt es) (text_block (91 # separated (44 # (if fmt then [32] else [])) es @ [93]))"
  unfolding compose_array_def
proof (rule runs_malloc)
  fix out :: "byte list"
  define sp :: "byte list" where "sp = 44 # (if fmt then [32] else [])"
  define n where "n = 5 + sum_list (map (\<lambda>e. length e + 2 + (if fmt then 1 else 0)) es)"
  assume "length out = 5 + sum_list (map (\<lambda>e. length e + 2 + (if fmt then 1 else 0)) es)"
  then have out: "length out = n" by (simp add: n_def)
  have "sum_list (map (\<lambda>e. length e + length sp) es) \<le> sum_list (map (\<lambda>e. length e + 2 + (if fmt then 1 else 0)) es)"
    by (rule sum_list_mono) (simp add: sp_def)
  then have len: "length (separated sp es) + 5 \<le> n" using separated_size[of sp es] by (simp add: n_def)
  obtain st1 where 1: "store_nul [91] (0, out) = Inr st1" "holds ([] @ [91]) n st1"
    by (rule store_nul_holds[OF holds_start[OF out], of "[91]"]) (use len in auto)
  obtain st2 where 2: "join_entries fmt es st1 = Inr st2" "holds (([] @ [91]) @ separated sp es) n st2"
    using join_entries_holds[OF 1(2), of fmt es] len unfolding sp_def by auto
  obtain st3 where 3: "store [93, 0] st2 = Inr st3" "holds ((([] @ [91]) @ separated sp es) @ [93, 0]) n st3"
    by (rule store_holds[OF 2(2), of "[93, 0]"]) (use len in auto)
  have "text_block (91 # separated sp es @ [93]) (snd st3)"
    using holds_end[of "91 # separated sp es @ [93]" n "fst st3" "snd st3"] 3(2) by (simp add: text_block_def)
  then show "runs m (jbind (jlift (store_nul [91] (0, out))) (\<lambda>st. jbind (jlift (join_entries fmt es st)) (\<lambda>st.
      jbind (jlift (store [93, 0] st)) (\<lambda>(_, out). jret (Some out)))))
      (text_block (91 # separated (44 # (if fmt then [32] else [])) es @ [93]))"
    using 1(1) 2(1) 3(1) by (cases st3) (simp add: runs_ret flip: sp_def)
qed

text \<open>A printed member.\<close>

definition line :: "bool \<Rightarrow> nat \<Rightarrow> byte list \<times> byte list \<Rightarrow> byte list" where
  "line fmt depth = (\<lambda>(name, e). tabs fmt depth @ name @ 58 # tabs fmt 1 @ e)"

lemma join_members_holds:
  "holds pre n st \<Longrightarrow> ms \<noteq> [] \<Longrightarrow>
   length pre + length (separated (44 # nl fmt) (map (line fmt depth) ms) @ nl fmt) < n \<Longrightarrow>
   \<exists>st'. join_members fmt depth ms st = Inr st' \<and>
     holds (pre @ separated (44 # nl fmt) (map (line fmt depth) ms) @ nl fmt) n st'"
proof (induction ms arbitrary: pre st)
  case (Cons x ms)
  obtain name e where x: "x = (name, e)" by fastforce
  define tail where "tail = (if ms = [] then nl fmt else 44 # nl fmt @ separated (44 # nl fmt) (map (line fmt depth) ms) @ nl fmt)"
  have all: "separated (44 # nl fmt) (map (line fmt depth) (x # ms)) @ nl fmt = line fmt depth x @ tail"
    by (cases ms) (simp_all add: tail_def)
  have len: "length pre + length (tabs fmt depth) + length name + Suc (length (tabs fmt 1)) + length e + length tail < n"
    using Cons.prems(3) unfolding all by (simp add: line_def x)
  obtain st1 where 1: "store (tabs fmt depth) st = Inr st1" "holds (pre @ tabs fmt depth) n st1"
    by (rule store_holds[OF Cons.prems(1), of "tabs fmt depth"]) (use len in auto)
  obtain st2 where 2: "store name st1 = Inr st2" "holds ((pre @ tabs fmt depth) @ name) n st2"
    by (rule store_holds[OF 1(2), of name]) (use len in auto)
  obtain st3 where 3: "store (58 # tabs fmt 1) st2 = Inr st3" "holds (((pre @ tabs fmt depth) @ name) @ 58 # tabs fmt 1) n st3"
    by (rule store_holds[OF 2(2), of "58 # tabs fmt 1"]) (use len in auto)
  obtain st4 where 4: "store_nul e st3 = Inr st4" "holds ((((pre @ tabs fmt depth) @ name) @ 58 # tabs fmt 1) @ e) n st4"
    by (rule store_nul_holds[OF 3(2), of e]) (use len in auto)
  define last where "last = (if ms = [] then [] else [44 :: byte]) @ nl fmt"
  have "length last \<le> length tail" by (auto simp: last_def tail_def)
  then have "length ((((pre @ tabs fmt depth) @ name) @ 58 # tabs fmt 1) @ e) + length last < n" using len by simp
  then obtain st5 where 5: "store_nul last st4 = Inr st5"
    "holds (((((pre @ tabs fmt depth) @ name) @ 58 # tabs fmt 1) @ e) @ last) n st5"
    by (rule store_nul_holds[OF 4(2)])
  have run: "join_members fmt depth (x # ms) st = join_members fmt depth ms st5"
    using 1(1) 2(1) 3(1) 4(1) 5(1) by (simp add: x last_def)
  show ?case
  proof (cases "ms = []")
    case True
    then show ?thesis unfolding run all using 5(2) by (simp add: line_def x tail_def last_def)
  next
    case False
    obtain st6 where "join_members fmt depth ms st5 = Inr st6"
      "holds ((((((pre @ tabs fmt depth) @ name) @ 58 # tabs fmt 1) @ e) @ last) @
        separated (44 # nl fmt) (map (line fmt depth) ms) @ nl fmt) n st6"
      using Cons.IH[OF 5(2) False] len False by (auto simp: last_def tail_def)
    then show ?thesis unfolding run all using False by (simp add: line_def x tail_def last_def)
  qed
qed simp

lemma compose_object_runs:
  assumes "ms \<noteq> []"
  shows "runs m (compose_object m fmt (Suc d) ms)
    (text_block (123 # nl fmt @ separated (44 # nl fmt) (map (line fmt (Suc d)) ms) @ nl fmt @ tabs fmt d @ [125]))"
  unfolding compose_object_def
proof (rule runs_malloc)
  fix out :: "byte list"
  define body where "body = separated (44 # nl fmt) (map (line fmt (Suc d)) ms) @ nl fmt"
  define n where "n = 7 + (if fmt then Suc d else 0) +
      sum_list (map (\<lambda>(n, e). length e + length n + 2 + (if fmt then 2 + Suc d else 0)) ms)"
  assume "length out = 7 + (if fmt then Suc d else 0) +
      sum_list (map (\<lambda>(n, e). length e + length n + 2 + (if fmt then 2 + Suc d else 0)) ms)"
  then have out: "length out = n" by (simp add: n_def)
  have "sum_list (map (\<lambda>x. length (line fmt (Suc d) x) + length (44 # nl fmt)) ms) \<le>
      sum_list (map (\<lambda>(n, e). length e + length n + 2 + (if fmt then 2 + Suc d else 0)) ms)"
    by (rule sum_list_mono) (auto simp: line_def tabs_def nl_def)
  then have "length (separated (44 # nl fmt) (map (line fmt (Suc d)) ms)) \<le>
      sum_list (map (\<lambda>(n, e). length e + length n + 2 + (if fmt then 2 + Suc d else 0)) ms)"
    using separated_size[of "44 # nl fmt" "map (line fmt (Suc d)) ms"] by (simp add: comp_def)
  then have len: "length body + length (nl fmt) + length (tabs fmt d) + 4 \<le> n"
    by (auto simp: body_def n_def tabs_def nl_def)
  obtain st1 where 1: "store_nul (123 # nl fmt) (0, out) = Inr st1" "holds ([] @ 123 # nl fmt) n st1"
    by (rule store_nul_holds[OF holds_start[OF out], of "123 # nl fmt"]) (use len in auto)
  obtain st2 where 2: "join_members fmt (Suc d) ms st1 = Inr st2" "holds (([] @ 123 # nl fmt) @ body) n st2"
    using join_members_holds[OF 1(2) assms, of fmt "Suc d"] len unfolding body_def by auto
  obtain st3 where 3: "store (tabs fmt d @ [125, 0]) st2 = Inr st3"
    "holds ((([] @ 123 # nl fmt) @ body) @ tabs fmt d @ [125, 0]) n st3"
    by (rule store_holds[OF 2(2), of "tabs fmt d @ [125, 0]"]) (use len in auto)
  have "text_block (123 # nl fmt @ body @ tabs fmt d @ [125]) (snd st3)"
    using holds_end[of "123 # nl fmt @ body @ tabs fmt d @ [125]" n "fst st3" "snd st3"] 3(2)
    by (simp add: text_block_def)
  then show "runs m (jbind (jlift (store_nul (123 # nl fmt) (0, out))) (\<lambda>st.
      jbind (jlift (join_members fmt (Suc d) ms st)) (\<lambda>st.
      jbind (jlift (store (tabs fmt (Suc d - 1) @ [125, 0]) st)) (\<lambda>(_, out). jret (Some out)))))
      (text_block (123 # nl fmt @ separated (44 # nl fmt) (map (line fmt (Suc d)) ms) @ nl fmt @ tabs fmt d @ [125]))"
    using 1(1) 2(1) 3(1) by (cases st3) (simp add: runs_ret body_def)
qed

section \<open>Trees\<close>

text \<open>A tree the printer expects: the strings and names that are printed are there and terminated.\<close>

fun printable_tree :: "'d cJSON \<Rightarrow> bool" where
  "printable_tree (CJSON t s i d nm ch) =
     (let k = t AND 255 in
      k \<le> 6 \<and>
      (k = cJSON_String \<longrightarrow> (case s of None \<Rightarrow> False | Some buf \<Rightarrow> 0 \<in> set buf)) \<and>
      (k = cJSON_Array \<longrightarrow> (\<forall>c\<in>set ch. printable_tree c)) \<and>
      (k = cJSON_Object \<longrightarrow>
         (\<forall>c\<in>set ch. (case jname c of None \<Rightarrow> False | Some buf \<Rightarrow> 0 \<in> set buf) \<and> printable_tree c)))"

text \<open>A tree all of whose numbers are 32-bit integers.\<close>

fun integer_tree :: "'d fp \<Rightarrow> 'd cJSON \<Rightarrow> bool" where
  "integer_tree fp (CJSON t s i d nm ch) =
     ((t AND 255 = cJSON_Number \<longrightarrow> d = fp_of_int fp (sint i)) \<and> (\<forall>c\<in>set ch. integer_tree fp c))"

text \<open>The text of a tree, with any number: zero, an integer, or what \<open>%.0f\<close>, \<open>%e\<close> or \<open>%f\<close> makes of it.\<close>

definition double_text :: "'d fp \<Rightarrow> u32 \<Rightarrow> 'd \<Rightarrow> byte list" where
  "double_text fp i d = (if fp_is_zero fp d then lit ''0'' else if fp_near fp i d then dec_text (-1) i else fp_text fp d)"

fun tree_text :: "'d fp \<Rightarrow> bool \<Rightarrow> nat \<Rightarrow> 'd cJSON \<Rightarrow> byte list" where
  "tree_text fp fmt depth (CJSON t s i d nm ch) =
     (let k = t AND 255 in
      if k = cJSON_False then lit ''false'' else if k = cJSON_True then lit ''true''
      else if k = cJSON_Number then double_text fp i d else if k = cJSON_String then quote (cstr (the s))
      else if k = cJSON_Array then
        91 # separated (44 # (if fmt then [32] else [])) (map (tree_text fp fmt (depth + 1)) ch) @ [93]
      else if k = cJSON_Object then
        (if ch = [] then 123 # nl fmt @ tabs fmt (depth - 1) @ [125]
         else 123 # nl fmt @
           separated (44 # nl fmt)
             (map (\<lambda>c. tabs fmt (depth + 1) @ quote (cstr (the (jname c))) @ 58 # tabs fmt 1 @ tree_text fp fmt (depth + 1) c) ch)
           @ nl fmt @ tabs fmt depth @ [125])
      else lit ''null'')"

text \<open>The texts that \<open>sprintf\<close> makes of a \<open>double\<close> with these formats have less than 64 bytes: \<open>%.0f\<close> is used below
  \<open>10^60\<close> only, and \<open>%f\<close> up to \<open>10^9\<close>.\<close>

definition fp_prints :: "'d fp \<Rightarrow> bool" where
  "fp_prints fp \<longleftrightarrow> (\<forall>d. 0 \<notin> set (fp_text fp d) \<and> length (fp_text fp d) < 64)"

text \<open>Comparing a \<open>double\<close> that holds an \<open>int\<close> with 0 and with that \<open>int\<close>.\<close>

definition fp_compares :: "'d fp \<Rightarrow> bool" where
  "fp_compares fp \<longleftrightarrow>
     (\<forall>i. (fp_is_zero fp (fp_of_int fp (sint i)) \<longleftrightarrow> i = 0) \<and> fp_near fp i (fp_of_int fp (sint i)))"

lemma c_json_of: "c_json (json_of t)"
proof (induction t rule: json_of.induct)
  case (1 t s i d nm ch)
  then show ?case by (auto simp: Let_def)
qed

lemma escaped_no_nul: "c \<noteq> 0 \<Longrightarrow> 0 \<notin> set (escaped c)"
  by (cases c rule: escaped_cases) (auto simp: hex_char_plain)

lemma quote_no_nul: "0 \<notin> set k \<Longrightarrow> 0 \<notin> set (quote k)"
  unfolding quote_def by (auto dest: escaped_no_nul) (metis escaped_no_nul)

lemma separated_no_nul: "0 \<notin> set sep \<Longrightarrow> \<forall>e\<in>set es. 0 \<notin> set e \<Longrightarrow> (0 :: byte) \<notin> set (separated sep es)"
  by (induction sep es rule: separated.induct) auto

lemma dec_text_no_nul: "0 \<notin> set (dec_text (-1) i)"
proof -
  have "\<forall>d\<in>set (dec_text (-1) i). d = 45 \<or> 48 \<le> d \<and> d \<le> 57"
    using number_shape(1,2)[of i] by (auto split: if_splits)
  then show ?thesis by (auto simp: word_le_nat_alt)
qed

lemma tree_text_no_nul: "fp_prints fp \<Longrightarrow> 0 \<notin> set (tree_text fp fmt d t)"
proof (induction fp fmt d t rule: tree_text.induct)
  case (1 fp fmt depth t s i d nm ch)
  define f where "f = (\<lambda>c. tabs fmt (depth + 1) @ quote (cstr (the (jname c))) @ 58 # tabs fmt 1 @ tree_text fp fmt (depth + 1) c)"
  define k where "k = t AND 255"
  have sub: "0 \<notin> set (tree_text fp fmt (depth + 1) c)" if "c \<in> set ch" "k = cJSON_Array \<or> k = cJSON_Object" for c
    using 1(1)[OF k_def, of c] 1(2)[OF k_def, of c] 1(3) that by (cases "k = cJSON_Array"; cases "ch = []") (auto simp: type_codes)
  have "0 \<notin> set (double_text fp i d)" using 1(3) dec_text_no_nul by (simp add: double_text_def fp_prints_def lit_def)
  moreover have "0 \<notin> set (separated (44 # (if fmt then [32] else [])) (map (tree_text fp fmt (depth + 1)) ch))" if "k = cJSON_Array"
    by (rule separated_no_nul) (use sub that in auto)
  moreover have "0 \<notin> set (separated (44 # nl fmt) (map f ch))" if "k = cJSON_Object"
    by (rule separated_no_nul) (use sub that quote_no_nul[OF nul_notin_cstr] in \<open>auto simp: f_def nl_def tabs_def\<close>)
  moreover have "0 \<notin> set (tabs fmt n)" "0 \<notin> set (nl fmt)" for n by (simp_all add: tabs_def nl_def)
  ultimately show ?case using quote_no_nul[OF nul_notin_cstr]
    unfolding tree_text.simps Let_def k_def[symmetric] f_def[symmetric] by (simp add: lit_def)
qed

text \<open>On a tree of integers it is the text of its value.\<close>

lemma tree_text_json:
  assumes "fp_compares fp"
  shows "integer_tree fp t \<Longrightarrow> tree_text fp fmt d t = json_text fmt d (json_of t)"
proof (induction t arbitrary: d)
  case (CJSON t s i v nm ch)
  define k where "k = t AND 255"
  have sub: "tree_text fp fmt d c = json_text fmt d (json_of c)" if "c \<in> set ch" for c d
    using CJSON that by simp
  have "double_text fp i v = dec_text (-1) i" if "k = cJSON_Number"
  proof (cases "i = 0")
    case True
    then have "dec_text (-1) i = lit ''0''" by (simp add: number_shape(1)[of 0, simplified] lit_def)
    moreover have "fp_is_zero fp v" using assms CJSON.prems that True unfolding fp_compares_def k_def integer_tree.simps by blast
    ultimately show ?thesis by (simp add: double_text_def)
  next
    case False
    have "\<not> fp_is_zero fp v \<and> fp_near fp i v"
      using assms CJSON.prems that False unfolding fp_compares_def k_def integer_tree.simps by blast
    then show ?thesis by (simp add: double_text_def)
  qed
  moreover have "map (tree_text fp fmt (d + 1)) ch = map (\<lambda>c. json_text fmt (d + 1) (json_of c)) ch" for d
    using sub by simp
  ultimately show ?case using sub
    by (auto simp: Let_def comp_def type_codes simp flip: k_def cong: map_cong)
qed

lemma number_runs:
  assumes "fp_prints fp"
  shows "runs m (json_print_number m fp t) (text_block (double_text fp (valueint t) (valuedouble t)))"
proof -
  have "length (dec_text (-1) (valueint t)) < 21"
    using number_shape(1,3)[of "valueint t"] by (simp split: if_splits)
  then show ?thesis
    using assms sprint_runs[of "lit ''0''" 2 m] sprint_runs[of "dec_text (-1) (valueint t)" 21 m] sprint_runs[of "fp_text fp (valuedouble t)" 64 m]
    by (simp add: json_print_number_def double_text_def fp_prints_def Let_def)
qed

lemma runs_opt:
  assumes "runs m p P" "\<And>x. P x \<Longrightarrow> runs m (f (Some x)) Q" "\<not> total_malloc m \<Longrightarrow> runs m (f None) Q"
  shows "runs m (jbind p f) Q"
  unfolding runs_def
proof
  fix s
  obtain r s' where r: "p s = Inr (r, s')" "case r of None \<Rightarrow> \<not> total_malloc m | Some x \<Rightarrow> P x"
    using assms(1) unfolding runs_def by blast
  then show "\<exists>r s'. jbind p f s = Inr (r, s') \<and> (case r of None \<Rightarrow> \<not> total_malloc m | Some x \<Rightarrow> Q x)"
    using assms(2,3) by (cases r) (auto simp: runs_def)
qed

lemma runs_none: "\<not> total_malloc m \<Longrightarrow> runs m (jret None) Q"
  by (simp add: runs_def jret_def)

lemma runs_malloc_null:
  assumes "runs m p Q"
  shows "runs m (jbind (cJSON_malloc m n) (\<lambda>q. if q = None then jret None else p)) Q"
proof (rule runs_opt)
  show "runs m (cJSON_malloc m n) (\<lambda>_. True)"
    by (auto simp: runs_def cJSON_malloc_def total_malloc_def Let_def split: option.splits)
qed (use assms in \<open>auto intro: runs_none\<close>)

lemma type_code_cases:
  fixes k :: u32
  assumes "k \<le> 6"
  obtains "k = 0" | "k = 1" | "k = 2" | "k = 3" | "k = 4" | "k = 5" | "k = 6"
proof -
  have "unat k \<le> 6" using assms by (simp add: word_le_nat_alt)
  then consider "unat k = 0" | "unat k = 1" | "unat k = 2" | "unat k = 3" | "unat k = 4" | "unat k = 5" | "unat k = 6"
    by linarith
  then show ?thesis using that by cases (simp_all add: word_unat_eq_iff)
qed

lemma print_words:
  "runs m (cJSON_strdup m (lit ''null'' @ [0])) (text_block (lit ''null''))"
  "runs m (cJSON_strdup m (lit ''true'' @ [0])) (text_block (lit ''true''))"
  "runs m (cJSON_strdup m (lit ''false'' @ [0])) (text_block (lit ''false''))"
  by (rule strdup_runs, simp add: lit_def)+

lemma empty_object_runs: "runs m (print_empty_object m fmt depth) (text_block (123 # nl fmt @ tabs fmt (depth - 1) @ [125]))"
  unfolding print_empty_object_def
proof (rule runs_malloc)
  fix out :: "byte list"
  define n where "n = (if fmt then depth + 4 else 3)"
  assume "length out = (if fmt then depth + 4 else 3)"
  then have out: "length out = n" by (simp add: n_def)
  define body where "body = 123 # nl fmt @ tabs fmt (depth - 1) @ [125]"
  obtain st where st: "store (body @ [0]) (0, out) = Inr st" "holds ([] @ body @ [0]) n st"
    by (rule store_holds[OF holds_start[OF out], of "body @ [0]"]) (auto simp: n_def body_def tabs_def nl_def)
  have "text_block body (snd st)" using holds_end[of body n "fst st" "snd st"] st(2) by (simp add: text_block_def)
  then show "runs m (jbind (jlift (store (123 # nl fmt @ tabs fmt (depth - 1) @ [125, 0]) (0, out))) (\<lambda>(_, out). jret (Some out)))
      (text_block (123 # nl fmt @ tabs fmt (depth - 1) @ [125]))"
    using st(1) by (cases st) (simp add: runs_ret body_def)
qed

lemma print_runs:
  shows "fp_prints fp \<Longrightarrow> printable_tree t \<Longrightarrow>
      runs m (print_value m fp depth fmt t) (text_block (tree_text fp fmt depth t))"
    and "fp_prints fp \<Longrightarrow> \<forall>c\<in>set cs. printable_tree c \<Longrightarrow>
      runs m (print_entries m fp depth fmt cs) (\<lambda>es. es = map (\<lambda>c. tree_text fp fmt depth c) cs)"
    and "fp_prints fp \<Longrightarrow>
      \<forall>c\<in>set cs. (case jname c of None \<Rightarrow> False | Some buf \<Rightarrow> 0 \<in> set buf) \<and> printable_tree c \<Longrightarrow>
      runs m (print_members m fp depth fmt cs)
        (\<lambda>ms. ms = map (\<lambda>c. (quote (cstr (the (jname c))), tree_text fp fmt depth c)) cs)"
proof (induction m fp depth fmt t and m fp depth fmt cs and m fp depth fmt cs
    rule: print_value_print_entries_print_members.induct)
  case (1 m fp depth fmt t s i d nm ch)
  define k where "k = t AND 255"
  have "k \<le> 6" using 1(4) by (simp add: Let_def k_def)
  then show ?case
  proof (cases rule: type_code_cases)
    case 4
    then show ?thesis using number_runs[OF 1(3), of m "CJSON t s i d nm ch"]
      by (simp add: Let_def type_codes flip: k_def)
  next
    case 5
    then obtain buf where "s = Some buf" "0 \<in> set buf" using 1(4)
      by (auto simp: Let_def type_codes simp flip: k_def split: option.splits)
    then show ?thesis using print_string_runs[of buf m] 5 by (simp add: Let_def type_codes flip: k_def)
  next
    case 6
    then have ch: "\<forall>c\<in>set ch. printable_tree c" and j: "tree_text fp fmt depth (CJSON t s i d nm ch) =
        91 # separated (44 # (if fmt then [32] else [])) (map (tree_text fp fmt (depth + 1)) ch) @ [93]"
      using 1(4) by (simp_all add: Let_def type_codes flip: k_def)
    show ?thesis
    proof (cases "ch = []")
      case True
      then show ?thesis using 6 j sprint_runs[of "lit ''[]''" 3 m]
        by (simp add: Let_def type_codes lit_def del: tree_text.simps flip: k_def)
    next
      case False
      have "runs m (print_entries m fp (depth + 1) fmt ch) (\<lambda>es. es = map (\<lambda>c. tree_text fp fmt (depth + 1) c) ch)"
        using 1(1)[OF k_def, of "Some []"] 6 False 1(3) ch by (simp add: type_codes)
      then have "runs m (jtry (print_entries m fp (depth + 1) fmt ch) (compose_array m fmt))
          (text_block (tree_text fp fmt depth (CJSON t s i d nm ch)))"
        unfolding j by (rule runs_try) (use compose_array_runs[of m fmt] in simp)
      from runs_malloc_null[OF this, of "4 * length ch"] show ?thesis using False 6
        by (simp add: Let_def type_codes del: tree_text.simps flip: k_def)
    qed
  next
    case 7
    then have ch: "\<forall>c\<in>set ch. (case jname c of None \<Rightarrow> False | Some buf \<Rightarrow> 0 \<in> set buf) \<and> printable_tree c"
      using 1(4) by (simp_all add: Let_def type_codes flip: k_def)
    show ?thesis
    proof (cases "ch = []")
      case True
      then show ?thesis using 7 empty_object_runs[of m fmt depth]
        by (simp add: Let_def type_codes flip: k_def)
    next
      case False
      have "runs m (print_members m fp (depth + 1) fmt ch)
          (\<lambda>ms. ms = map (\<lambda>c. (quote (cstr (the (jname c))), tree_text fp fmt (depth + 1) c)) ch)"
        using 1(2)[OF k_def, of "Some []" "Some []"] 7 False 1(3) ch by (simp add: type_codes)
      then have "runs m (jtry (print_members m fp (depth + 1) fmt ch) (compose_object m fmt (depth + 1)))
          (text_block (tree_text fp fmt depth (CJSON t s i d nm ch)))"
        by (rule runs_try)
          (use compose_object_runs[of "map (\<lambda>c. (quote (cstr (the (jname c))), tree_text fp fmt (depth + 1) c)) ch" m fmt depth] False 7
           in \<open>simp add: comp_def line_def Let_def type_codes flip: k_def\<close>)
      from runs_malloc_null[OF runs_malloc_null[OF this, of "4 * length ch"], of "4 * length ch"] show ?thesis using False 7
        by (simp add: Let_def type_codes del: tree_text.simps flip: k_def)
    qed
  qed (use print_words[of m] in \<open>simp_all add: Let_def type_codes flip: k_def\<close>)
next
  case (2 m fp depth fmt)
  then show ?case by (simp add: runs_ret)
next
  case (3 m fp depth fmt c cs)
  have "runs m (print_value m fp depth fmt c) (text_block (tree_text fp fmt depth c))" using 3 by simp
  then show ?case
    unfolding print_entries.simps
  proof (rule runs_try)
    fix e
    assume "text_block (tree_text fp fmt depth c) e"
    then have "c_chars e = Inr (tree_text fp fmt depth c)"
      using tree_text_no_nul[OF "3.prems"(1), of fmt depth c] by (auto simp: text_block_def)
    then show "runs m (jbind (jlift (c_chars e)) (\<lambda>e. jtry (print_entries m fp depth fmt cs) (\<lambda>es. jret (Some (e # es)))))
        (\<lambda>es. es = map (\<lambda>c. tree_text fp fmt depth c) (c # cs))"
      using 3 by (auto intro!: runs_try runs_ret)
  qed
next
  case (4 m fp depth fmt)
  then show ?case by (simp add: runs_ret)
next
  case (5 m fp depth fmt c cs)
  then obtain buf where buf: "jname c = Some buf" "0 \<in> set buf" by (auto split: option.splits)
  define out where "out = (quote (cstr buf), tree_text fp fmt depth c)"
  have pv: "runs m (print_value m fp depth fmt c) (text_block (tree_text fp fmt depth c))" using 5 by simp
  have members: "runs m (print_members m fp depth fmt cs)
      (\<lambda>ms. ms = map (\<lambda>c. (quote (cstr (the (jname c))), tree_text fp fmt depth c)) cs)" using 5 by simp
  have all: "runs m (jbind (print_members m fp depth fmt cs) (\<lambda>rest.
      jret (case rest of None \<Rightarrow> None | Some xs \<Rightarrow> Some (out # xs))))
      (\<lambda>ms. ms = map (\<lambda>c. (quote (cstr (the (jname c))), tree_text fp fmt depth c)) (c # cs))"
    by (rule runs_opt[OF members]) (auto intro: runs_ret runs_none simp: out_def buf)
  have failed: "runs m (jbind (print_members m fp depth fmt cs) (\<lambda>rest. jret None)) Q" if "\<not> total_malloc m" for Q :: "(byte list \<times> byte list) list \<Rightarrow> bool"
    by (rule runs_opt[OF members]) (use that in \<open>auto intro: runs_none\<close>)
  have read: "c_chars e = Inr (tree_text fp fmt depth c)" if "text_block (tree_text fp fmt depth c) e" for e
    using that tree_text_no_nul[OF "5.prems"(1), of fmt depth c] by (auto simp: text_block_def)
  have read2: "c_chars e = Inr (quote (cstr buf))" if "text_block (quote (cstr buf)) e" for e
    using that quote_no_nul[of "cstr buf"] by (auto simp: text_block_def)
  show ?case
    unfolding print_members.simps buf
    by (rule runs_opt[OF print_string_runs[OF buf(2)]]; rule runs_opt[OF pv])
      (use all[unfolded out_def] failed in \<open>auto simp: read read2 buf\<close>)
qed

lemma int_fp_compares: "fp_compares int_fp"
proof -
  have "sint i = 0 \<longleftrightarrow> i = 0" for i :: u32 by (rule signed_eq_0_iff)
  then show ?thesis by (simp add: fp_compares_def int_fp_def)
qed

section \<open>Properties\<close>


text \<open>C10. For a tree all of whose numbers are 32-bit integers, parsing what the printer printed gives the value back, with and
  without formatting. (Other numbers do not come back: the printer gives six digits of their fraction.)\<close>

theorem cJSON_roundtrip:
  assumes "total_malloc m" "fp_exact fp" "fp_compares fp" "fp_prints fp" "printable_tree t" "integer_tree fp t"
  shows "\<exists>out s1 t' s2. print_value m fp 0 fmt t s = Inr (Some out, s1) \<and>
    cJSON_Parse m fp out s1 = Inr (Some t', s2) \<and> json_of t' = json_of t"
proof -
  obtain r s1 where r: "print_value m fp 0 fmt t s = Inr (r, s1)"
    "case r of None \<Rightarrow> \<not> total_malloc m | Some out \<Rightarrow> \<exists>junk. out = tree_text fp fmt 0 t @ 0 # junk"
    using print_runs(1)[OF assms(4,5), of m 0 fmt] unfolding runs_def text_block_def by blast
  then obtain junk where out: "r = Some (json_text fmt 0 (json_of t) @ 0 # junk)"
    using assms(1) tree_text_json[OF assms(3,6)] by (auto split: option.splits)
  from cJSON_Parse_text[OF assms(1,2) c_json_of, of fmt 0 t junk s1] show ?thesis
    using r(1) out by metis
qed


theorem cJSON_roundtrip_witness:
  "\<exists>out s1 t' s2. print_value filled_malloc int_fp 0 False (CJSON 5 None 0 0 None [CJSON 3 None 42 42 None []])
     \<lparr>allocs = 0, ep = None\<rparr> = Inr (Some out, s1) \<and>
   cJSON_Parse filled_malloc int_fp out s1 = Inr (Some t', s2) \<and>
   json_of t' = json_of (CJSON 5 None 0 (0 :: int) None [CJSON 3 None 42 42 None []])"
  by (rule cJSON_roundtrip[OF filled_malloc_total int_fp_exact int_fp_compares])
    (simp_all add: type_codes int_fp_def fp_prints_def)

end
