(* ===== verification/Weather.thy ===== *)
theory Weather
  imports CJson_Print "HOL-Library.Monad_Syntax"
begin

text \<open>
  The weather service, \<open>applications/weather.c\<close>: the reply of the server is parsed as JSON and copied into
  the reports \<open>rt\<close> (now) and \<open>wt\<close> (today and the next two days) the user interface shows. The conversion
  of UTF-8 to GBK (the package gbk2utf8, not in the repository) and the HTTP client are parameters.
\<close>

section \<open>The reports\<close>

record Realtime =
  area_1 :: "byte list"
  area_2 :: "byte list"
  wtId :: byte
  wtNm :: "byte list"
  aqi :: u32
  temp :: u32
  humi :: byte

record Weather =
  D_wtId :: byte
  N_wtId :: byte
  Temp_L :: u32
  Temp_H :: u32

record weather_state =
  rt :: Realtime
  wt :: "Weather list"
  area_id :: u32
  json_state :: jstate

definition weather_boot :: weather_state where
  "weather_boot =
     \<lparr>rt = \<lparr>area_1 = replicate 10 0, area_2 = replicate 10 0, wtId = 0, wtNm = replicate 10 0, aqi = 0, temp = 0, humi = 0\<rparr>,
      wt = replicate 3 \<lparr>D_wtId = 0, N_wtId = 0, Temp_L = 0, Temp_H = 0\<rparr>, area_id = 265,
      json_state = \<lparr>allocs = 0, ep = None\<rparr>\<rparr>"

text \<open>\<open>utf82gbk(&dst, src, len)\<close> leaves the null pointer in \<open>dst\<close> or a new string. The two addresses are those
  of \<open>rt\<close> and of the new strings; only their alignment is looked at.\<close>

record 'd weather_env =
  w_malloc :: mallocs
  w_fp :: "'d fp"
  utf82gbk :: "byte list \<Rightarrow> nat \<Rightarrow> byte list option"
  rt_addr :: nat
  gbk_addr :: nat

section \<open>Parsing the reply\<close>

definition get_item :: "'d cJSON option \<Rightarrow> string \<Rightarrow> 'd cJSON option cres" where
  "get_item object key = cJSON_GetObjectItem object (lit key @ [0])"

text \<open>\<open>item->valuestring\<close>, where its text is read.\<close>

definition item_string :: "'d cJSON option \<Rightarrow> byte list cres" where
  "item_string item = cbind (deref item) (\<lambda>i. deref (valuestring i))"

text \<open>\<open>atoi(item->valuestring)\<close> of the item with a key.\<close>

definition item_atoi :: "'d cJSON option \<Rightarrow> string \<Rightarrow> int cres" where
  "item_atoi object key =
     cbind (get_item object key) (\<lambda>item.
     cbind (item_string item) (\<lambda>s.
     cbind (rt_strlen s) (\<lambda>n. Inr (atoi (take n s)))))"

text \<open>A name: the field is cleared, the string is converted and copied with its own length.\<close>

definition item_name :: "'d weather_env \<Rightarrow> nat \<Rightarrow> byte list \<Rightarrow> 'd cJSON option \<Rightarrow> string \<Rightarrow> byte list cres" where
  "item_name env addr field object key =
     cbind (rt_memset addr field 0 10) (\<lambda>field.
     cbind (get_item object key) (\<lambda>item.
     cbind (item_string item) (\<lambda>s.
     cbind (rt_strlen s) (\<lambda>n.
     cbind (deref (utf82gbk env s n)) (\<lambda>name.
     cbind (rt_strlen name) (\<lambda>k.
     rt_memcpy addr (gbk_addr env) field name k))))))"

definition parse_day :: "'d cJSON option \<Rightarrow> Weather \<Rightarrow> Weather cres" where
  "parse_day item w =
     cbind (item_atoi item ''wtId1'') (\<lambda>i. let w = w\<lparr>D_wtId := word_of_int i\<rparr> in
     cbind (item_atoi item ''wtId2'') (\<lambda>i. let w = w\<lparr>N_wtId := word_of_int i\<rparr> in
     cbind (item_atoi item ''wtTemp1'') (\<lambda>i. let w = w\<lparr>Temp_H := word_of_int i\<rparr> in
     cbind (item_atoi item ''wtTemp2'') (\<lambda>i. Inr (w\<lparr>Temp_L := word_of_int i\<rparr>)))))"

definition parse_realtime :: "'d weather_env \<Rightarrow> 'd cJSON option \<Rightarrow> Realtime \<Rightarrow> Realtime cres" where
  "parse_realtime env item r =
     cbind (item_atoi item ''wtAqi'') (\<lambda>i. let r = r\<lparr>aqi := word_of_int i\<rparr> in
     cbind (item_atoi item ''wtId'') (\<lambda>i. let r = r\<lparr>wtId := word_of_int i\<rparr> in
     cbind (item_name env (rt_addr env + 21) (wtNm r) item ''wtNm'') (\<lambda>name. let r = r\<lparr>wtNm := name\<rparr> in
     cbind (item_atoi item ''wtTemp'') (\<lambda>i. let r = r\<lparr>temp := word_of_int i\<rparr> in
     cbind (item_atoi item ''wtHumi'') (\<lambda>i. Inr (r\<lparr>humi := word_of_int i\<rparr>))))))"

text \<open>\<open>for (int i=0;i<2;i++)\<close> over the array of the next days.\<close>

definition parse_future :: "'d cJSON option \<Rightarrow> nat \<Rightarrow> Weather list \<Rightarrow> Weather list cres" where
  "parse_future item i days =
     cbind (cJSON_GetArrayItem item (int i)) (\<lambda>sub_item.
     cbind (parse_day sub_item (days ! (i + 1))) (\<lambda>w. Inr (days[i + 1 := w])))"

definition parse_result :: "'d weather_env \<Rightarrow> 'd cJSON option \<Rightarrow> Realtime \<Rightarrow> Weather list \<Rightarrow> (Realtime \<times> Weather list) cres" where
  "parse_result env object r days =
     cbind (item_name env (rt_addr env) (area_1 r) object ''area_1'') (\<lambda>name. let r = r\<lparr>area_1 := name\<rparr> in
     cbind (item_name env (rt_addr env + 10) (area_2 r) object ''area_2'') (\<lambda>name. let r = r\<lparr>area_2 := name\<rparr> in
     cbind (get_item object ''realTime'') (\<lambda>item.
     cbind (parse_realtime env item r) (\<lambda>r.
     cbind (get_item object ''today'') (\<lambda>item.
     cbind (parse_day item (days ! 0)) (\<lambda>w. let days = days[0 := w] in
     cbind (get_item object ''futureDay'') (\<lambda>item.
     cbind (cfor [0, 1] (parse_future item) days) (\<lambda>days. Inr (r, days)))))))))"

definition weather_data_parse :: "'d weather_env \<Rightarrow> byte list \<Rightarrow> weather_state \<Rightarrow> weather_state cres" where
  "weather_data_parse env data s =
     cbind (cJSON_Parse (w_malloc env) (w_fp env) data (json_state s)) (\<lambda>(root, j). let s = s\<lparr>json_state := j\<rparr> in
     case root of
       None \<Rightarrow> Inr s
     | Some root \<Rightarrow>
         cbind (get_item (Some root) ''success'') (\<lambda>object.
         cbind (item_string object) (\<lambda>v.
         cbind (rt_strlen v) (\<lambda>n.
         if rt_strcmp (lit ''1'') (take n v) \<noteq> 0 then Inr s
         else
           cbind (get_item (Some root) ''result'') (\<lambda>object.
           cbind (parse_result env object (rt s) (wt s)) (\<lambda>(r, w).
           Inr (s\<lparr>rt := r, wt := w\<rparr>)))))))"

section \<open>Fetching\<close>

text \<open>The HTTP client: a session for headers of a size, a GET request with its status, the length of the
  body (negative when it comes in pieces), a read of at most some bytes, where no bytes stand for a
  result of 0 or less, and the end of the session.\<close>

record 'c client =
  client_create :: "nat \<Rightarrow> 'c option"
  client_get :: "'c \<Rightarrow> byte list \<Rightarrow> (int \<times> 'c) cres"
  client_length :: "'c \<Rightarrow> int"
  client_read :: "'c \<Rightarrow> nat \<Rightarrow> (byte list \<times> 'c) cres"
  client_close :: "'c \<Rightarrow> unit cres"

text \<open>The two blocks of \<open>rt_calloc\<close>: the address of the first and whether there is one, and whether there is
  the second.\<close>

record ('d, 'c) service =
  weather_env :: "'d weather_env"
  webclient :: "'c client"
  url_block :: "nat option"
  resp_block :: bool

definition GET_HEADER_BUFSZ :: nat where "GET_HEADER_BUFSZ = 1024"
definition GET_RESP_BUFSZ :: nat where "GET_RESP_BUFSZ = 4096"
definition GET_URL_LEN_MAX :: nat where "GET_URL_LEN_MAX = 256"

definition GET_URI :: "byte list" where
  "GET_URI = lit ''http://api.k780.com/?app=weather.realtime&weaid=%d&ag=today,futureDay&appkey=47100&sign=be87b72e50497b2700d2bc963cb7c973&format=json''"

text \<open>What \<open>webclient_read\<close> stores into the buffer, from its start every time.\<close>

definition receive :: "'c client \<Rightarrow> 'c \<Rightarrow> byte list \<Rightarrow> nat \<Rightarrow> (nat \<times> byte list \<times> 'c) cres" where
  "receive wc c buffer n =
     cbind (client_read wc c n) (\<lambda>(data, c).
     if length data \<le> length buffer then Inr (length data, overlay 0 data buffer, c) else Inl Out_Of_Bounds)"

text \<open>The two loops, with one unit of fuel for every read.\<close>

primrec read_chunked :: "nat \<Rightarrow> 'c client \<Rightarrow> 'c \<Rightarrow> byte list \<Rightarrow> (byte list \<times> 'c) cres" where
  "read_chunked 0 wc c buffer = Inl Diverges"
| "read_chunked (Suc fuel) wc c buffer =
     cbind (receive wc c buffer GET_RESP_BUFSZ) (\<lambda>(bytes_read, buffer, c).
     if bytes_read = 0 then Inr (buffer, c) else read_chunked fuel wc c buffer)"

primrec read_length :: "nat \<Rightarrow> 'c client \<Rightarrow> int \<Rightarrow> int \<Rightarrow> 'c \<Rightarrow> byte list \<Rightarrow> (byte list \<times> 'c) cres" where
  "read_length 0 wc content_length content_pos c buffer = Inl Diverges"
| "read_length (Suc fuel) wc content_length content_pos c buffer =
     cbind (receive wc c buffer
         (if content_length - content_pos > int GET_RESP_BUFSZ then GET_RESP_BUFSZ else nat (content_length - content_pos)))
       (\<lambda>(bytes_read, buffer, c).
     if bytes_read = 0 then Inr (buffer, c)
     else let content_pos = content_pos + int bytes_read in
          if content_pos < content_length then read_length fuel wc content_length content_pos c buffer
          else Inr (buffer, c))"

definition read_body :: "nat \<Rightarrow> 'c client \<Rightarrow> 'c \<Rightarrow> byte list \<Rightarrow> (byte list \<times> 'c) cres" where
  "read_body fuel wc c buffer =
     (let content_length = client_length wc c
      in if content_length < 0 then read_chunked fuel wc c buffer else read_length fuel wc content_length 0 c buffer)"

definition fetch_weather :: "nat \<Rightarrow> ('d, 'c) service \<Rightarrow> weather_state \<Rightarrow> weather_state cres" where
  "fetch_weather fuel sv s =
     (case url_block sv of
       None \<Rightarrow> Inr s
     | Some addr \<Rightarrow>
         cbind (rt_snprintf addr (replicate GET_URL_LEN_MAX 0) GET_URL_LEN_MAX GET_URI [A_Int (area_id s)]) (\<lambda>(_, weather_url).
         case client_create (webclient sv) GET_HEADER_BUFSZ of
           None \<Rightarrow> Inr s
         | Some session \<Rightarrow>
             cbind (client_get (webclient sv) session (cstr weather_url)) (\<lambda>(resp_status, session).
             cbind (if resp_status \<noteq> 200 \<or> \<not> resp_block sv then Inr (s, session)
                    else cbind (read_body fuel (webclient sv) session (replicate GET_RESP_BUFSZ 0)) (\<lambda>(buffer, session).
                         cbind (weather_data_parse (weather_env sv) buffer s) (\<lambda>s. Inr (s, session)))) (\<lambda>(s, session).
             cbind (client_close (webclient sv) session) (\<lambda>_. Inr s)))))"

definition city_id :: "u32 list" where
  "city_id = [0,0,0,0,0,0,0,0,0,0,1,36,48,59,77,94,105,141,147,165,169,186,200,209,225,248,265,286,291,299,316,
     326,337,353,363,384,399,401,402,403,405,406,408,410,412,425,434,2628,2631,2743]"

section \<open>What a reply says\<close>

text \<open>The report in a JSON value, with a conversion of names.\<close>

fun member :: "json \<Rightarrow> string \<Rightarrow> json option" where
  "member (JObj ms) key = map_option snd (find (\<lambda>(k, j). map tolower k = map tolower (lit key)) ms)"
| "member _ key = None"

fun element :: "json \<Rightarrow> nat \<Rightarrow> json option" where
  "element (JArr js) i = (if i < length js then Some (js ! i) else None)"
| "element (JObj ms) i = (if i < length ms then Some (snd (ms ! i)) else None)"
| "element _ i = None"

fun string_of :: "json \<Rightarrow> byte list option" where
  "string_of (JStr bs) = Some bs"
| "string_of _ = None"

definition string_at :: "json \<Rightarrow> string \<Rightarrow> byte list option" where
  "string_at j key = Option.bind (member j key) string_of"

definition number_at :: "json \<Rightarrow> string \<Rightarrow> int option" where
  "number_at j key = map_option atoi (string_at j key)"

text \<open>A name is padded to the ten bytes of its field, and must not be longer.\<close>

definition name_at :: "(byte list \<Rightarrow> byte list) \<Rightarrow> json \<Rightarrow> string \<Rightarrow> byte list option" where
  "name_at gbk j key = Option.bind (string_at j key) (\<lambda>bs.
     if length (gbk bs) \<le> 10 then Some (gbk bs @ replicate (10 - length (gbk bs)) 0) else None)"

definition day_report :: "json \<Rightarrow> Weather option" where
  "day_report j = do {
     d \<leftarrow> number_at j ''wtId1'';
     n \<leftarrow> number_at j ''wtId2'';
     h \<leftarrow> number_at j ''wtTemp1'';
     l \<leftarrow> number_at j ''wtTemp2'';
     Some \<lparr>D_wtId = word_of_int d, N_wtId = word_of_int n, Temp_L = word_of_int l, Temp_H = word_of_int h\<rparr> }"

definition realtime_report :: "(byte list \<Rightarrow> byte list) \<Rightarrow> byte list \<Rightarrow> byte list \<Rightarrow> json \<Rightarrow> Realtime option" where
  "realtime_report gbk a1 a2 now = do {
     q \<leftarrow> number_at now ''wtAqi'';
     i \<leftarrow> number_at now ''wtId'';
     nm \<leftarrow> name_at gbk now ''wtNm'';
     t \<leftarrow> number_at now ''wtTemp'';
     h \<leftarrow> number_at now ''wtHumi'';
     Some \<lparr>area_1 = a1, area_2 = a2, wtId = word_of_int i, wtNm = nm, aqi = word_of_int q,
       temp = word_of_int t, humi = word_of_int h\<rparr> }"

definition reply_report :: "(byte list \<Rightarrow> byte list) \<Rightarrow> json \<Rightarrow> (Realtime \<times> Weather list) option" where
  "reply_report gbk j = do {
     a1 \<leftarrow> name_at gbk j ''area_1'';
     a2 \<leftarrow> name_at gbk j ''area_2'';
     now \<leftarrow> member j ''realTime'';
     r \<leftarrow> realtime_report gbk a1 a2 now;
     today \<leftarrow> Option.bind (member j ''today'') day_report;
     future \<leftarrow> member j ''futureDay'';
     d1 \<leftarrow> Option.bind (element future 0) day_report;
     d2 \<leftarrow> Option.bind (element future 1) day_report;
     Some (r, [today, d1, d2]) }"

section \<open>Trees and their values\<close>

text \<open>An item is a well-formed tree of a value.\<close>

definition holds_json :: "'d cJSON option \<Rightarrow> json \<Rightarrow> bool" where
  "holds_json item j \<longleftrightarrow> (\<exists>t. item = Some t \<and> well_formed t \<and> json_of t = j)"

lemma well_formed_type: "well_formed (CJSON ty s i d nm ch) \<Longrightarrow> ty AND 255 = ty"
proof -
  assume "well_formed (CJSON ty s i d nm ch)"
  then have "ty \<le> 6" by simp
  then show ?thesis by (cases ty rule: type_code_cases) simp_all
qed

lemma json_of_object:
  assumes "well_formed t" "json_of t = JObj ms"
  obtains s i d nm ch where "t = CJSON cJSON_Object s i d nm ch" "ms = map (\<lambda>c. (cstr (the (jname c)), json_of c)) ch"
  using assms by (cases t) (auto simp: well_formed_type Let_def simp del: well_formed.simps split: if_splits)

lemma json_of_string:
  assumes "well_formed t" "json_of t = JStr bs"
  obtains buf where "valuestring t = Some buf" "0 \<in> set buf" "bs = cstr buf"
proof (cases t)
  case (CJSON ty s i d nm ch)
  then have "ty = cJSON_String" "bs = cstr (the s)"
    using assms by (auto simp: well_formed_type Let_def simp del: well_formed.simps split: if_splits)
  then show ?thesis using assms(1) that by (auto simp: CJSON terminated_def split: option.splits)
qed

lemma json_of_array:
  assumes "well_formed t" "json_of t = JArr js"
  obtains s i d nm ch where "t = CJSON cJSON_Array s i d nm ch" "js = map json_of ch"
  using assms by (cases t) (auto simp: well_formed_type Let_def simp del: well_formed.simps split: if_splits)

lemma get_item_member:
  assumes "holds_json item j" "member j key = Some v" "0 \<notin> set (lit key)"
  obtains c where "get_item item key = Inr c" "holds_json c v"
proof -
  obtain t where t: "item = Some t" "well_formed t" "json_of t = j" using assms(1) by (auto simp: holds_json_def)
  obtain ms where ms: "j = JObj ms" using assms(2) by (cases j) auto
  obtain s i d nm ch where tt: "t = CJSON cJSON_Object s i d nm ch" and m: "ms = map (\<lambda>c. (cstr (the (jname c)), json_of c)) ch"
    by (rule json_of_object[OF t(2)]) (use t(3) ms in simp)
  obtain c where c: "find (\<lambda>c. same_key (the (jname c)) (lit key @ [0])) ch = Some c" "json_of c = v"
  proof -
    have "cstr (lit key @ [0]) = lit key" using assms(3) by simp
    then have "find (\<lambda>(k, j). map tolower k = map tolower (lit key)) ms =
        map_option (\<lambda>c. (cstr (the (jname c)), json_of c)) (find (\<lambda>c. same_key (the (jname c)) (lit key @ [0])) ch)"
      by (simp add: m find_map comp_def same_key_def)
    moreover have "map_option snd (find (\<lambda>(k, j). map tolower k = map tolower (lit key)) ms) = Some v"
      using assms(2) ms by simp
    ultimately show ?thesis using that by (auto simp: option.map_comp comp_def)
  qed
  have "well_formed c" using c(1) t(2) by (auto simp: tt find_Some_iff)
  moreover have "get_item item key = Inr (Some c)"
    unfolding get_item_def t(1) using GetObjectItem_find[OF t(2), of "lit key @ [0]"] c(1) by (simp add: tt)
  ultimately show ?thesis using that c(2) by (auto simp: holds_json_def)
qed

lemma item_string_of:
  assumes "holds_json item j" "string_of j = Some bs"
  obtains junk where "item_string item = Inr (bs @ 0 # junk)" "0 \<notin> set bs"
proof -
  obtain t where t: "item = Some t" "well_formed t" "json_of t = JStr bs"
    using assms by (cases j) (auto simp: holds_json_def)
  obtain buf where buf: "valuestring t = Some buf" "0 \<in> set buf" "bs = cstr buf" by (rule json_of_string[OF t(2,3)])
  obtain ys zs where "buf = ys @ 0 # zs" "0 \<notin> set ys" using split_list_first[OF buf(2)] by blast
  then show ?thesis using that t(1) buf by (simp add: item_string_def deref_def)
qed

text \<open>What the code holds for a member that may be missing: the null pointer, or an item of its value.\<close>

definition item_for :: "'d cJSON option \<Rightarrow> json option \<Rightarrow> bool" where
  "item_for item v \<longleftrightarrow> (case v of None \<Rightarrow> item = None | Some j \<Rightarrow> holds_json item j)"

lemma item_for_simps [simp]: "item_for item None \<longleftrightarrow> item = None" "item_for item (Some j) \<longleftrightarrow> holds_json item j"
  by (simp_all add: item_for_def)

lemma nameless_items: "\<forall>c\<in>set ch. jname c = None \<Longrightarrow> object_item ch key = Inr None"
  by (induction ch) (auto simp: cJSON_strcasecmp_def)

lemma get_item_none:
  assumes "holds_json item j" "member j key = None" "0 \<notin> set (lit key)"
  shows "get_item item key = Inr None"
proof -
  obtain t where t: "item = Some t" "well_formed t" "json_of t = j" using assms(1) by (auto simp: holds_json_def)
  show ?thesis
  proof (cases "\<exists>ms. j = JObj ms")
    case True
    then obtain ms where ms: "j = JObj ms" by blast
    obtain s i d nm ch where tt: "t = CJSON cJSON_Object s i d nm ch" and m: "ms = map (\<lambda>c. (cstr (the (jname c)), json_of c)) ch"
      by (rule json_of_object[OF t(2)]) (use t(3) ms in simp)
    have "cstr (lit key @ [0]) = lit key" using assms(3) by simp
    then have "find (\<lambda>c. same_key (the (jname c)) (lit key @ [0])) ch = None"
      using assms(2) by (simp add: ms m find_map comp_def same_key_def)
    then show ?thesis
      unfolding get_item_def t(1) using GetObjectItem_find[OF t(2), of "lit key @ [0]"] by (simp add: tt)
  next
    case False
    obtain ty s i d nm ch where tt: "t = CJSON ty s i d nm ch" by (cases t)
    have "ty \<noteq> cJSON_Object" using False t(3) well_formed_type[of ty s i d nm ch] t(2)[unfolded tt]
      by (auto simp: tt type_codes Let_def simp del: well_formed.simps)
    then have "\<forall>c\<in>set ch. jname c = None" using t(2) by (cases "ty = cJSON_Array") (auto simp: tt)
    then show ?thesis by (simp add: get_item_def cJSON_GetObjectItem_def t(1) tt deref_def nameless_items)
  qed
qed

lemma get_item_for:
  assumes "holds_json item j" "0 \<notin> set (lit key)"
  obtains c where "get_item item key = Inr c" "item_for c (member j key)"
proof (cases "member j key")
  case None
  then show ?thesis using that get_item_none[OF assms(1) _ assms(2)] by simp
next
  case (Some v)
  then show ?thesis using that get_item_member[OF assms(1) Some assms(2)] by (metis item_for_simps(2))
qed

text \<open>The code gives what the value says, and faults when it says nothing.\<close>

definition agrees :: "'a cres \<Rightarrow> 'a option \<Rightarrow> bool" where
  "agrees m v \<longleftrightarrow> (case v of None \<Rightarrow> \<exists>e. m = Inl e | Some x \<Rightarrow> m = Inr x)"

lemma agrees_simps [simp]: "agrees m (Some x) \<longleftrightarrow> m = Inr x" "agrees (Inl e) None"
  by (simp_all add: agrees_def)

lemma agrees_bind: "agrees m v \<Longrightarrow> (\<And>x. v = Some x \<Longrightarrow> agrees (f x) (g x)) \<Longrightarrow> agrees (cbind m f) (Option.bind v g)"
  by (cases v) (auto simp: agrees_def)

lemma agrees_bind2:
  assumes "agrees m (Option.bind v h)" "\<And>x. agrees (f x) (g x)"
  shows "agrees (cbind m f) (Option.bind v (\<lambda>j. Option.bind (h j) g))"
  using agrees_bind[OF assms(1), of f g] assms(2) by simp

lemma get_item_null [simp]: "get_item None key = Inl Null_Deref"
  by (simp add: get_item_def cJSON_GetObjectItem_def deref_def)

lemma agrees_item:
  assumes "holds_json item j" "0 \<notin> set (lit key)" "\<And>c. item_for c (member j key) \<Longrightarrow> agrees (f c) v"
  shows "agrees (cbind (get_item item key) f) v"
  by (rule get_item_for[OF assms(1,2)]) (simp add: assms(3))

lemma item_string_at:
  assumes "item_for item v"
  shows "(\<exists>bs junk. Option.bind v string_of = Some bs \<and> 0 \<notin> set bs \<and> item_string item = Inr (bs @ 0 # junk)) \<or>
    (Option.bind v string_of = None \<and> (\<exists>e. item_string item = Inl e))"
proof (cases "Option.bind v string_of")
  case None
  show ?thesis
  proof (cases v)
    case (Some j)
    then obtain t where t: "item = Some t" "well_formed t" "json_of t = j" using assms by (auto simp: holds_json_def)
    obtain ty s i d nm ch where tt: "t = CJSON ty s i d nm ch" by (cases t)
    have "ty \<noteq> cJSON_String" using None Some t(3) well_formed_type[of ty s i d nm ch] t(2)[unfolded tt]
      by (auto simp: tt type_codes Let_def simp del: well_formed.simps)
    then have "valuestring t = None" using t(2) by (simp add: tt)
    then show ?thesis using t None by (simp add: item_string_def deref_def)
  qed (use assms in \<open>simp add: item_string_def deref_def\<close>)
next
  case (Some bs)
  then obtain j where "v = Some j" "string_of j = Some bs" by (auto simp: bind_eq_Some_conv)
  then show ?thesis using item_string_of[of item j bs] assms by (metis Some item_for_simps(2))
qed

lemma agrees_string:
  assumes "item_for item v"
    "\<And>bs junk. Option.bind v string_of = Some bs \<Longrightarrow> 0 \<notin> set bs \<Longrightarrow> agrees (f (bs @ 0 # junk)) (g bs)"
  shows "agrees (cbind (item_string item) f) (Option.bind (Option.bind v string_of) g)"
  using item_string_at[OF assms(1)] assms(2) by fastforce

lemma item_null [simp]: "item_atoi None key = Inl Null_Deref"
  by (simp add: item_atoi_def)

lemma item_atoi_agrees:
  assumes "holds_json item j" "0 \<notin> set (lit key)"
  shows "agrees (item_atoi item key) (number_at j key)"
proof -
  have "agrees (cbind (item_string c) (\<lambda>s. cbind (rt_strlen s) (\<lambda>n. Inr (atoi (take n s)))))
      (Option.bind (Option.bind (member j key) string_of) (\<lambda>bs. Some (atoi bs)))"
    if "item_for c (member j key)" for c
    by (rule agrees_string[OF that]) simp
  then show ?thesis
    unfolding item_atoi_def number_at_def string_at_def map_conv_bind_option comp_def by (rule agrees_item[OF assms])
qed

text \<open>The converter gives a new terminated string.\<close>

definition converts :: "'d weather_env \<Rightarrow> (byte list \<Rightarrow> byte list) \<Rightarrow> bool" where
  "converts env gbk \<longleftrightarrow>
     (\<forall>bs junk. 0 \<notin> set bs \<longrightarrow> 0 \<notin> set (gbk bs) \<and> utf82gbk env (bs @ 0 # junk) (length bs) = Some (gbk bs @ [0]))"

lemma item_name_agrees:
  assumes "converts env gbk" "holds_json item j" "0 \<notin> set (lit key)" "length field = 10"
  shows "agrees (item_name env addr field item key) (name_at gbk j key)"
proof -
  have zero: "cbind (rt_memset addr field 0 10) f = f (replicate 10 0)" for f :: "byte list \<Rightarrow> byte list cres"
    using assms(4) overlay_full[of "replicate 10 0" field] by (simp add: rt_memset_eq)
  have "agrees (cbind (item_string c) (\<lambda>s. cbind (rt_strlen s) (\<lambda>n. cbind (deref (utf82gbk env s n)) (\<lambda>name.
      cbind (rt_strlen name) (\<lambda>k. rt_memcpy addr (gbk_addr env) (replicate 10 0) name k)))))
      (Option.bind (Option.bind (member j key) string_of) (\<lambda>bs.
        if length (gbk bs) \<le> 10 then Some (gbk bs @ replicate (10 - length (gbk bs)) 0) else None))"
    if "item_for c (member j key)" for c
  proof (rule agrees_string[OF that])
    fix bs junk :: "byte list"
    assume "0 \<notin> set bs"
    then have g: "utf82gbk env (bs @ 0 # junk) (length bs) = Some (gbk bs @ [0])" "0 \<notin> set (gbk bs)"
      using assms(1) by (auto simp: converts_def)
    then show "agrees (cbind (rt_strlen (bs @ 0 # junk)) (\<lambda>n. cbind (deref (utf82gbk env (bs @ 0 # junk) n)) (\<lambda>name.
        cbind (rt_strlen name) (\<lambda>k. rt_memcpy addr (gbk_addr env) (replicate 10 0) name k))))
        (if length (gbk bs) \<le> 10 then Some (gbk bs @ replicate (10 - length (gbk bs)) 0) else None)"
      using \<open>0 \<notin> set bs\<close> by (simp add: rt_memcpy_eq deref_def) (simp add: overlay_def)
  qed
  then show ?thesis
    unfolding item_name_def name_at_def string_at_def zero by (rule agrees_item[OF assms(2,3)])
qed

lemma item_name_null: "length field = 10 \<Longrightarrow> item_name env addr field None key = Inl Null_Deref"
  by (simp add: item_name_def rt_memset_eq)

lemma parse_day_agrees:
  assumes "item_for item v"
  shows "agrees (parse_day item w) (Option.bind v day_report)"
proof (cases v)
  case (Some j)
  then have j: "holds_json item j" using assms by simp
  show ?thesis
    unfolding parse_day_def day_report_def Some Option.bind.simps Let_def
    by (intro agrees_bind item_atoi_agrees[OF j]) (simp_all add: lit_def)
qed (use assms in \<open>simp add: parse_day_def\<close>)

lemma parse_realtime_agrees:
  assumes "converts env gbk" "item_for item v" "length (wtNm r) = 10"
  shows "agrees (parse_realtime env item r) (Option.bind v (realtime_report gbk (area_1 r) (area_2 r)))"
proof (cases v)
  case (Some j)
  then have j: "holds_json item j" using assms by simp
  show ?thesis
    unfolding parse_realtime_def realtime_report_def Some Option.bind.simps Let_def
    by (intro agrees_bind item_atoi_agrees[OF j] item_name_agrees[OF assms(1) j]) (simp_all add: lit_def assms(3))
qed (use assms in \<open>simp add: parse_realtime_def\<close>)

lemma array_item_nth: "array_item ch (int i) = (if i < length ch then Some (ch ! i) else None)"
  by (induction ch "int i" arbitrary: i rule: array_item.induct) (auto simp: nth_Cons split: nat.splits)

lemma get_element:
  assumes "holds_json item j"
  obtains c where "cJSON_GetArrayItem item (int i) = Inr c" "item_for c (element j i)"
proof -
  obtain t where t: "item = Some t" "well_formed t" "json_of t = j" using assms by (auto simp: holds_json_def)
  obtain ty s v d nm ch where tt: "t = CJSON ty s v d nm ch" by (cases t)
  have e: "element j i = (if i < length ch then Some (json_of (ch ! i)) else None)"
    using t(2,3) well_formed_type[of ty s v d nm ch]
    by (cases "ty = cJSON_Array"; cases "ty = cJSON_Object") (auto simp: tt type_codes Let_def)
  have "well_formed (ch ! i)" if "i < length ch" using t(2) that by (simp add: tt)
  then have "item_for (array_item ch (int i)) (element j i)"
    unfolding e array_item_nth by (simp add: holds_json_def)
  then show ?thesis using that t(1) by (simp add: cJSON_GetArrayItem_def deref_def tt)
qed

lemma parse_future_agrees:
  assumes "item_for item v"
  shows "agrees (parse_future item i days)
    (Option.bind v (\<lambda>j. Option.bind (element j i) (\<lambda>e. Option.bind (day_report e) (\<lambda>w. Some (days[i + 1 := w])))))"
proof (cases v)
  case (Some j)
  then have "holds_json item j" using assms by simp
  then obtain c where c: "cJSON_GetArrayItem item (int i) = Inr c" "item_for c (element j i)" by (rule get_element)
  show ?thesis
    unfolding parse_future_def c(1) Some Option.bind.simps cbind_Inr Option.bind_assoc[symmetric]
    by (rule agrees_bind[OF parse_day_agrees[OF c(2)]]) simp
qed (use assms in \<open>simp add: parse_future_def cJSON_GetArrayItem_def deref_def\<close>)

lemma names_length: "name_at gbk j key = Some nm \<Longrightarrow> length nm = 10"
  by (auto simp: name_at_def bind_eq_Some_conv split: if_splits)

lemma parse_result_agrees:
  assumes "converts env gbk" "item_for item v" "length (area_1 r) = 10" "length (area_2 r) = 10" "length (wtNm r) = 10" "length days = 3"
  shows "agrees (parse_result env item r days) (Option.bind v (reply_report gbk))"
proof (cases v)
  case (Some j)
  then have j: "holds_json item j" using assms(2) by simp
  have future: "agrees (cbind (cfor [0, 1] (parse_future c) (days[0 := w])) (\<lambda>wt. Inr (q, wt)))
      (Option.bind (member j ''futureDay'') (\<lambda>f. Option.bind (Option.bind (element f 0) day_report) (\<lambda>d1.
       Option.bind (Option.bind (element f 1) day_report) (\<lambda>d2. Some (q, [w, d1, d2])))))"
    if "item_for c (member j ''futureDay'')" for c q w
  proof -
    obtain x y z where days: "days = [x, y, z]" using assms(6) by (auto simp: numeral_eq_Suc length_Suc_conv)
    show ?thesis
    proof (cases "member j ''futureDay''")
      case (Some f)
      define future_day where "future_day i = Option.bind (element f i) day_report" for i
      have step: "agrees (parse_future c i ds) (Option.bind (future_day i) (\<lambda>w. Some (ds[i + 1 := w])))" for i ds
        using parse_future_agrees[OF that, of i ds] Some by (simp add: future_day_def)
      have "agrees (cbind (parse_future c 0 [w, y, z]) (\<lambda>ds. cbind (parse_future c 1 ds) (\<lambda>ds. Inr (q, ds))))
          (Option.bind (Option.bind (future_day 0) (\<lambda>w'. Some ([w, y, z][0 + 1 := w'])))
            (\<lambda>ds. Option.bind (Option.bind (future_day 1) (\<lambda>w. Some (ds[1 + 1 := w]))) (\<lambda>ds. Some (q, ds))))"
        by (intro agrees_bind step) simp
      also have "Option.bind (Option.bind (future_day 0) (\<lambda>w'. Some ([w, y, z][0 + 1 := w'])))
            (\<lambda>ds. Option.bind (Option.bind (future_day 1) (\<lambda>w. Some (ds[1 + 1 := w]))) (\<lambda>ds. Some (q, ds))) =
          Option.bind (future_day 0) (\<lambda>d1. Option.bind (future_day 1) (\<lambda>d2. Some (q, [w, d1, d2])))"
        by (cases "future_day 0"; cases "future_day 1") simp_all
      finally show ?thesis unfolding Some by (simp add: days future_day_def cbind_assoc)
    qed (use that in \<open>simp add: parse_future_def cJSON_GetArrayItem_def deref_def\<close>)
  qed
  have real: "agrees (parse_realtime env c (r\<lparr>area_1 := x, area_2 := y\<rparr>)) (Option.bind (member j ''realTime'') (realtime_report gbk x y))"
    if "item_for c (member j ''realTime'')" for c x y
    using parse_realtime_agrees[OF assms(1) that, of "r\<lparr>area_1 := x, area_2 := y\<rparr>"] assms(5) by simp
  show ?thesis
    unfolding parse_result_def reply_report_def Some Option.bind.simps Let_def
  proof (intro agrees_bind item_name_agrees[OF assms(1) j] agrees_item[OF j] agrees_bind2 real parse_day_agrees future)
  qed (simp_all add: lit_def assms)
qed (use assms(2,3) in \<open>simp add: parse_result_def item_name_null\<close>)

section \<open>The whole reply\<close>

text \<open>What a reply makes of the reports: nothing when the service refuses, otherwise what its result says;
  \<open>None\<close> when the code faults.\<close>

definition reply_outcome :: "(byte list \<Rightarrow> byte list) \<Rightarrow> json \<Rightarrow> Realtime \<times> Weather list \<Rightarrow> (Realtime \<times> Weather list) option" where
  "reply_outcome gbk j old = do {
     v \<leftarrow> string_at j ''success'';
     if v \<noteq> lit ''1'' then Some old
     else Option.bind (member j ''result'') (reply_report gbk) }"

definition report_fields :: "weather_state \<Rightarrow> bool" where
  "report_fields s \<longleftrightarrow> length (area_1 (rt s)) = 10 \<and> length (area_2 (rt s)) = 10 \<and> length (wtNm (rt s)) = 10 \<and> length (wt s) = 3"

lemma weather_boot_fields: "report_fields weather_boot"
  by (simp add: weather_boot_def report_fields_def)

lemma weather_data_parse_agrees:
  assumes "total_malloc (w_malloc env)" "fp_exact (w_fp env)" "converts env gbk" "c_json j" "report_fields s"
  shows "\<exists>js'. agrees (weather_data_parse env (json_text fmt d j @ 0 # junk) s)
    (map_option (\<lambda>(r, w). s\<lparr>rt := r, wt := w, json_state := js'\<rparr>) (reply_outcome gbk j (rt s, wt s)))"
proof -
  obtain t js' where t: "cJSON_Parse (w_malloc env) (w_fp env) (json_text fmt d j @ 0 # junk) (json_state s) = Inr (Some t, js')" "json_of t = j"
    using cJSON_Parse_text[OF assms(1,2,4)] by blast
  have "well_formed t"
    using cJSON_Parse_safe[of "\<lambda>e. e \<noteq> Diverges" "json_text fmt d j @ 0 # junk" "w_malloc env" "w_fp env" "json_state s"] t(1)
    by (simp add: cends_def sound_def)
  then have j: "holds_json (Some t) j" using t(2) by (simp add: holds_json_def)
  have result: "agrees (cbind (parse_result env c (rt s) (wt s)) (\<lambda>(r, w). Inr (s\<lparr>json_state := js', rt := r, wt := w\<rparr>)))
      (Option.bind (Option.bind (member j ''result'') (reply_report gbk)) (\<lambda>(r, w). Some (s\<lparr>rt := r, wt := w, json_state := js'\<rparr>)))"
    if "item_for c (member j ''result'')" for c
    by (rule agrees_bind[OF parse_result_agrees[OF assms(3) that]]) (use assms(5) in \<open>auto simp: report_fields_def\<close>)
  have checked: "agrees (cbind (item_string c) (\<lambda>v. cbind (rt_strlen v) (\<lambda>n.
      if rt_strcmp (lit ''1'') (take n v) \<noteq> 0 then Inr (s\<lparr>json_state := js'\<rparr>)
      else cbind (get_item (Some t) ''result'') (\<lambda>object. cbind (parse_result env object (rt s) (wt s)) (\<lambda>(r, w).
        Inr (s\<lparr>json_state := js', rt := r, wt := w\<rparr>))))))
      (Option.bind (Option.bind (member j ''success'') string_of) (\<lambda>v.
        Option.bind (if v \<noteq> lit ''1'' then Some (rt s, wt s) else Option.bind (member j ''result'') (reply_report gbk))
          (\<lambda>(r, w). Some (s\<lparr>rt := r, wt := w, json_state := js'\<rparr>))))"
    if "item_for c (member j ''success'')" for c
  proof (rule agrees_string[OF that])
    fix v rest :: "byte list"
    assume "0 \<notin> set v"
    then have "rt_strcmp (lit ''1'') v \<noteq> 0 \<longleftrightarrow> v \<noteq> lit ''1''" by (auto simp: rt_strcmp_eq_0 lit_def)
    moreover have "agrees (cbind (get_item (Some t) ''result'') (\<lambda>object. cbind (parse_result env object (rt s) (wt s))
        (\<lambda>(r, w). Inr (s\<lparr>json_state := js', rt := r, wt := w\<rparr>))))
        (Option.bind (Option.bind (member j ''result'') (reply_report gbk)) (\<lambda>(r, w). Some (s\<lparr>rt := r, wt := w, json_state := js'\<rparr>)))"
      by (rule agrees_item[OF j _ result]) (simp add: lit_def)
    ultimately show "agrees (cbind (rt_strlen (v @ 0 # rest)) (\<lambda>n.
        if rt_strcmp (lit ''1'') (take n (v @ 0 # rest)) \<noteq> 0 then Inr (s\<lparr>json_state := js'\<rparr>)
        else cbind (get_item (Some t) ''result'') (\<lambda>object. cbind (parse_result env object (rt s) (wt s)) (\<lambda>(r, w).
          Inr (s\<lparr>json_state := js', rt := r, wt := w\<rparr>)))))
        (Option.bind (if v \<noteq> lit ''1'' then Some (rt s, wt s) else Option.bind (member j ''result'') (reply_report gbk))
          (\<lambda>(r, w). Some (s\<lparr>rt := r, wt := w, json_state := js'\<rparr>)))"
      using \<open>0 \<notin> set v\<close> by (cases "v = lit ''1''") simp_all
  qed
  have code: "weather_data_parse env (json_text fmt d j @ 0 # junk) s =
      cbind (get_item (Some t) ''success'') (\<lambda>c. cbind (item_string c) (\<lambda>v. cbind (rt_strlen v) (\<lambda>n.
      if rt_strcmp (lit ''1'') (take n v) \<noteq> 0 then Inr (s\<lparr>json_state := js'\<rparr>)
      else cbind (get_item (Some t) ''result'') (\<lambda>object. cbind (parse_result env object (rt s) (wt s)) (\<lambda>(r, w).
        Inr (s\<lparr>json_state := js', rt := r, wt := w\<rparr>))))))"
    by (simp add: weather_data_parse_def t(1) Let_def cong: if_cong)
  have "map_option (\<lambda>(r, w). s\<lparr>rt := r, wt := w, json_state := js'\<rparr>) (reply_outcome gbk j (rt s, wt s)) =
      Option.bind (Option.bind (member j ''success'') string_of) (\<lambda>v.
        Option.bind (if v \<noteq> lit ''1'' then Some (rt s, wt s) else Option.bind (member j ''result'') (reply_report gbk))
          (\<lambda>(r, w). Some (s\<lparr>rt := r, wt := w, json_state := js'\<rparr>)))"
    unfolding reply_outcome_def string_at_def map_conv_bind_option
    by (cases "Option.bind (member j ''success'') string_of")
      (auto simp: comp_def map_conv_bind_option case_prod_unfold)
  then have "agrees (weather_data_parse env (json_text fmt d j @ 0 # junk) s)
      (map_option (\<lambda>(r, w). s\<lparr>rt := r, wt := w, json_state := js'\<rparr>) (reply_outcome gbk j (rt s, wt s)))"
    unfolding code by (simp only:) (rule agrees_item[OF j _ checked], simp add: lit_def)
  then show ?thesis by blast
qed

section \<open>What is fetched\<close>

definition weather_url :: "u32 \<Rightarrow> byte list" where
  "weather_url city = lit ''http://api.k780.com/?app=weather.realtime&weaid='' @ dec_text (-1) city @
     lit ''&ag=today,futureDay&appkey=47100&sign=be87b72e50497b2700d2bc963cb7c973&format=json''"

lemma GET_URI_parts:
  "GET_URI = lit ''http://api.k780.com/?app=weather.realtime&weaid='' @ 37 # 100 #
     lit ''&ag=today,futureDay&appkey=47100&sign=be87b72e50497b2700d2bc963cb7c973&format=json''"
  by (simp add: GET_URI_def lit_def)

lemma format_text_plain: "37 \<notin> set t \<Longrightarrow> format_text (t @ fmt) args = cbind (format_text fmt args) (\<lambda>u. Inr (t @ u))"
  by (induction t) (auto simp: cbind_assoc)

lemma GET_URI_text: "format_text GET_URI [A_Int city] = Inr (weather_url city)"
proof -
  define a where "a = lit ''http://api.k780.com/?app=weather.realtime&weaid=''"
  define b where "b = lit ''&ag=today,futureDay&appkey=47100&sign=be87b72e50497b2700d2bc963cb7c973&format=json''"
  have "37 \<notin> set a" "37 \<notin> set b" by (simp_all add: a_def b_def lit_def)
  then show ?thesis
    using format_text_plain[of b "[]" "[]"]
    by (simp add: GET_URI_parts weather_url_def format_text_plain convert_text_d flip: a_def b_def)
qed

text \<open>A client that hands the body over in some pieces, one for each read with room for it, and then ends.\<close>

fun feeds :: "'c client \<Rightarrow> 'c \<Rightarrow> byte list list \<Rightarrow> bool" where
  "feeds wc c [] \<longleftrightarrow> client_close wc c = Inr () \<and> (\<forall>n. \<exists>c'. client_read wc c n = Inr ([], c') \<and> client_close wc c' = Inr ())"
| "feeds wc c (d # ds) \<longleftrightarrow>
     d \<noteq> [] \<and> (\<forall>n. length d \<le> n \<longrightarrow> (\<exists>c'. client_read wc c n = Inr (d, c') \<and> feeds wc c' ds))"

lemma receive_piece:
  assumes "feeds wc c (d # ds)" "length d \<le> n" "length d \<le> length buffer"
  obtains c' where "receive wc c buffer n = Inr (length d, overlay 0 d buffer, c')" "feeds wc c' ds" "d \<noteq> []"
proof -
  obtain c' where "client_read wc c n = Inr (d, c')" "feeds wc c' ds" "d \<noteq> []"
    using assms(1,2) by auto
  then show ?thesis using that assms(3) by (simp add: receive_def)
qed

lemma receive_nothing:
  assumes "feeds wc c []"
  obtains c' where "receive wc c buffer n = Inr (0, buffer, c')" "client_close wc c' = Inr ()"
proof -
  obtain c' where "client_read wc c n = Inr ([], c')" "client_close wc c' = Inr ()" using assms by (auto dest: spec[of _ n])
  then show ?thesis using that by (simp add: receive_def)
qed

lemma read_chunked_pieces:
  "feeds wc c ds \<Longrightarrow> \<forall>d\<in>set ds. length d \<le> GET_RESP_BUFSZ \<Longrightarrow> length buffer = GET_RESP_BUFSZ \<Longrightarrow> length ds < fuel \<Longrightarrow>
   \<exists>c'. read_chunked fuel wc c buffer = Inr (fold (overlay 0) ds buffer, c') \<and> client_close wc c' = Inr ()"
proof (induction ds arbitrary: fuel c buffer)
  case Nil
  then obtain f where "fuel = Suc f" by (cases fuel) auto
  moreover obtain c' where "receive wc c buffer GET_RESP_BUFSZ = Inr (0, buffer, c')" "client_close wc c' = Inr ()"
    by (rule receive_nothing[OF Nil(1)])
  ultimately show ?case by simp
next
  case (Cons d ds)
  then obtain f where f: "fuel = Suc f" by (cases fuel) auto
  obtain c' where r: "receive wc c buffer GET_RESP_BUFSZ = Inr (length d, overlay 0 d buffer, c')" "feeds wc c' ds" "d \<noteq> []"
    by (rule receive_piece[OF Cons.prems(1), of GET_RESP_BUFSZ buffer]) (use Cons.prems in auto)
  have "\<exists>c''. read_chunked f wc c' (overlay 0 d buffer) = Inr (fold (overlay 0) ds (overlay 0 d buffer), c'') \<and> client_close wc c'' = Inr ()"
    by (rule Cons.IH[OF r(2)]) (use Cons.prems f in auto)
  then show ?case using r f by simp
qed

lemma read_length_pieces:
  "feeds wc c ds \<Longrightarrow> \<forall>d\<in>set ds. length d \<le> GET_RESP_BUFSZ \<Longrightarrow> length buffer = GET_RESP_BUFSZ \<Longrightarrow> length ds < fuel \<Longrightarrow>
   n = p + int (sum_list (map length ds)) \<Longrightarrow>
   \<exists>c'. read_length fuel wc n p c buffer = Inr (fold (overlay 0) ds buffer, c') \<and> client_close wc c' = Inr ()"
proof (induction ds arbitrary: fuel c buffer p)
  case Nil
  then obtain f where "fuel = Suc f" by (cases fuel) auto
  moreover obtain c' where "receive wc c buffer 0 = Inr (0, buffer, c')" "client_close wc c' = Inr ()"
    by (rule receive_nothing[OF Nil(1)])
  ultimately show ?case using Nil by simp
next
  case (Cons d ds)
  then obtain f where f: "fuel = Suc f" by (cases fuel) auto
  define k where "k = (if n - p > int GET_RESP_BUFSZ then GET_RESP_BUFSZ else nat (n - p))"
  have "length d \<le> k" using Cons.prems by (auto simp: k_def)
  then obtain c' where r: "receive wc c buffer k = Inr (length d, overlay 0 d buffer, c')" "feeds wc c' ds" "d \<noteq> []"
    by (rule receive_piece[OF Cons.prems(1), of k buffer]) (use Cons.prems in auto)
  have step: "read_length fuel wc n p c buffer =
      (if p + int (length d) < n then read_length f wc n (p + int (length d)) c' (overlay 0 d buffer) else Inr (overlay 0 d buffer, c'))"
    using r by (simp add: f Let_def flip: k_def)
  show ?case
  proof (cases ds)
    case Nil
    then show ?thesis using step Cons.prems r(2) by simp
  next
    case (Cons e es)
    then have "e \<noteq> []" using r(2) by simp
    then have "p + int (length d) < n" using Cons.prems(5) Cons by (cases e) auto
    moreover have "\<exists>c''. read_length f wc n (p + int (length d)) c' (overlay 0 d buffer) = Inr (fold (overlay 0) ds (overlay 0 d buffer), c'') \<and>
        client_close wc c'' = Inr ()"
      by (rule Cons.IH[OF r(2)]) (use Cons.prems f in auto)
    ultimately show ?thesis using step by simp
  qed
qed

text \<open>The request succeeds and the body is announced without a length, or with its length.\<close>

definition serves :: "('d, 'c) service \<Rightarrow> u32 \<Rightarrow> byte list list \<Rightarrow> bool" where
  "serves sv city ds \<longleftrightarrow> (\<exists>addr c c'.
     url_block sv = Some addr \<and> addr + GET_URL_LEN_MAX < 2 ^ 32 \<and> resp_block sv \<and>
     client_create (webclient sv) GET_HEADER_BUFSZ = Some c \<and>
     client_get (webclient sv) c (weather_url city) = Inr (200, c') \<and>
     (client_length (webclient sv) c' < 0 \<or>
      client_length (webclient sv) c' = int (sum_list (map length ds))) \<and>
     feeds (webclient sv) c' ds)"

lemma weather_url_no_nul: "0 \<notin> set (weather_url city)"
proof -
  have "\<forall>d\<in>set (dec_text (-1) city). d = 45 \<or> 48 \<le> d \<and> d \<le> 57"
    using number_shape(1,2)[of city] by (auto split: if_splits)
  then have "0 \<notin> set (dec_text (-1) city)" by (auto simp: word_le_nat_alt)
  then show ?thesis by (simp add: weather_url_def) (simp add: lit_def)
qed

lemma weather_url_length: "length (weather_url city) < 255"
proof -
  have "length (dec_text (-1) city) \<le> 11" using number_shape(1,3)[of city] by (simp split: if_splits)
  then show ?thesis by (simp add: weather_url_def)
qed

lemma weather_request:
  assumes "addr + GET_URL_LEN_MAX < 2 ^ 32"
  obtains n buf where "rt_snprintf addr (replicate GET_URL_LEN_MAX 0) GET_URL_LEN_MAX GET_URI [A_Int city] = Inr (n, buf)"
    "cstr buf = weather_url city"
proof -
  define url where "url = weather_url city"
  define buf where "buf = replicate GET_URL_LEN_MAX (0 :: byte)"
  have "length buf = GET_URL_LEN_MAX" by (simp add: buf_def)
  then have fmt: "rt_snprintf addr buf GET_URL_LEN_MAX GET_URI [A_Int city] =
      Inr (length url, overlay 0 (take (GET_URL_LEN_MAX - 1) url @ [0]) buf)"
    unfolding rt_snprintf_def url_def
    by (intro rt_vsnprintf_eq[OF GET_URI_text]) (use assms in \<open>simp_all add: GET_URL_LEN_MAX_def\<close>)
  have "take (GET_URL_LEN_MAX - 1) url = url" using weather_url_length[of city] by (simp add: url_def GET_URL_LEN_MAX_def)
  then have "overlay 0 (take (GET_URL_LEN_MAX - 1) url @ [0]) buf = url @ 0 # drop (Suc (length url)) buf"
    using weather_url_length[of city] by (simp add: overlay_def buf_def url_def GET_URL_LEN_MAX_def)
  then have "cstr (overlay 0 (take (GET_URL_LEN_MAX - 1) url @ [0]) buf) = url"
    using weather_url_no_nul by (simp add: url_def)
  then show ?thesis using that fmt by (simp add: buf_def url_def)
qed

text \<open>A request that gives nothing: there is no memory for the address, the session or the body, or the answer is not
  a success.\<close>

definition unanswered :: "('d, 'c) service \<Rightarrow> u32 \<Rightarrow> bool" where
  "unanswered sv city \<longleftrightarrow> url_block sv = None \<or> (\<exists>addr. url_block sv = Some addr \<and> addr + GET_URL_LEN_MAX < 2 ^ 32 \<and>
     (client_create (webclient sv) GET_HEADER_BUFSZ = None \<or>
      (\<exists>c status c'. client_create (webclient sv) GET_HEADER_BUFSZ = Some c \<and>
         client_get (webclient sv) c (weather_url city) = Inr (status, c') \<and> (status \<noteq> 200 \<or> \<not> resp_block sv) \<and>
         client_close (webclient sv) c' = Inr ())))"

lemma fetch_weather_unanswered:
  assumes "unanswered sv (area_id s)"
  shows "fetch_weather fuel sv s = Inr s"
proof (cases "url_block sv")
  case (Some addr)
  then have ends: "addr + GET_URL_LEN_MAX < 2 ^ 32" using assms by (auto simp: unanswered_def)
  obtain n buf where "rt_snprintf addr (replicate GET_URL_LEN_MAX 0) GET_URL_LEN_MAX GET_URI [A_Int (area_id s)] = Inr (n, buf)"
    "cstr buf = weather_url (area_id s)" by (rule weather_request[OF ends])
  then show ?thesis using assms Some by (auto simp: unanswered_def fetch_weather_def)
qed (simp add: fetch_weather_def)

lemma fetch_weather_eq:
  assumes "serves sv (area_id s) ds" "\<forall>d\<in>set ds. length d \<le> GET_RESP_BUFSZ" "length ds < fuel"
  shows "fetch_weather fuel sv s = weather_data_parse (weather_env sv) (fold (overlay 0) ds (replicate GET_RESP_BUFSZ 0)) s"
proof -
  obtain addr c c' where sv: "url_block sv = Some addr" "addr + GET_URL_LEN_MAX < 2 ^ 32" "resp_block sv"
    "client_create (webclient sv) GET_HEADER_BUFSZ = Some c"
    "client_get (webclient sv) c (weather_url (area_id s)) = Inr (200, c')"
    "client_length (webclient sv) c' < 0 \<or>
      client_length (webclient sv) c' = int (sum_list (map length ds))"
    "feeds (webclient sv) c' ds"
    using assms(1) unfolding serves_def by blast
  obtain n buf where "rt_snprintf addr (replicate GET_URL_LEN_MAX 0) GET_URL_LEN_MAX GET_URI [A_Int (area_id s)] = Inr (n, buf)"
    "cstr buf = weather_url (area_id s)" by (rule weather_request[OF sv(2)])
  moreover have "\<exists>c''. read_body fuel (webclient sv) c' (replicate GET_RESP_BUFSZ 0) = Inr (fold (overlay 0) ds (replicate GET_RESP_BUFSZ 0), c'') \<and>
      client_close (webclient sv) c'' = Inr ()"
    using sv(6) read_chunked_pieces[OF sv(7) assms(2) _ assms(3)] read_length_pieces[OF sv(7) assms(2) _ assms(3), of _ _ 0]
    by (auto simp: read_body_def Let_def)
  ultimately show ?thesis
    using sv unfolding fetch_weather_def by (auto simp: cbind_assoc)
qed

lemma fetch_weather_text:
  assumes "serves sv (area_id s) [json_text fmt d j]" "length (json_text fmt d j) < GET_RESP_BUFSZ" "1 < fuel"
    and "total_malloc (w_malloc (weather_env sv))" "fp_exact (w_fp (weather_env sv))" "converts (weather_env sv) gbk"
    and "c_json j" "report_fields s"
  shows "\<exists>js'. agrees (fetch_weather fuel sv s)
    (map_option (\<lambda>(r, w). s\<lparr>rt := r, wt := w, json_state := js'\<rparr>) (reply_outcome gbk j (rt s, wt s)))"
proof -
  obtain k where k: "GET_RESP_BUFSZ = length (json_text fmt d j) + Suc k" using assms(2) by (metis less_imp_Suc_add add_Suc_right)
  have "fold (overlay 0) [json_text fmt d j] (replicate GET_RESP_BUFSZ 0) = json_text fmt d j @ 0 # replicate k 0"
    unfolding k replicate_add by (simp add: overlay_def)
  then have "fetch_weather fuel sv s = weather_data_parse (weather_env sv) (json_text fmt d j @ 0 # replicate k 0) s"
    using fetch_weather_eq[OF assms(1) _ , of fuel] assms(2,3) by simp
  then show ?thesis using weather_data_parse_agrees[OF assms(4-8)] by simp
qed

section \<open>Concrete instances\<close>

text \<open>A client with the pieces of its answer, and a converter that keeps names as they are.\<close>

definition scripted :: "int \<Rightarrow> byte list list \<Rightarrow> byte list list client" where
  "scripted n ds = \<lparr>client_create = (\<lambda>_. Some ds), client_get = (\<lambda>c url. Inr (200, c)), client_length = (\<lambda>_. n),
     client_read = (\<lambda>c k. Inr (case c of [] \<Rightarrow> ([], []) | d # ds \<Rightarrow> if length d \<le> k then (d, ds) else ([], c))),
     client_close = (\<lambda>_. Inr ())\<rparr>"

definition plain_weather_env :: "int weather_env" where
  "plain_weather_env = \<lparr>w_malloc = filled_malloc, w_fp = int_fp, utf82gbk = (\<lambda>s n. Some (take n s @ [0])), rt_addr = 0, gbk_addr = 0\<rparr>"

definition scripted_service :: "int \<Rightarrow> byte list list \<Rightarrow> (int, byte list list) service" where
  "scripted_service n ds = \<lparr>weather_env = plain_weather_env, webclient = scripted n ds, url_block = Some 64, resp_block = True\<rparr>"

lemma plain_weather_env_laws:
  "total_malloc (w_malloc plain_weather_env)" "fp_exact (w_fp plain_weather_env)" "converts plain_weather_env (\<lambda>bs. bs)"
  by (simp_all add: plain_weather_env_def filled_malloc_total int_fp_exact converts_def)

lemma scripted_feeds: "[] \<notin> set ds \<Longrightarrow> feeds (scripted n ds') ds ds"
proof (induction ds)
  case Nil
  then show ?case by (simp add: scripted_def)
next
  case (Cons d ds)
  then show ?case by (auto simp: scripted_def)
qed

lemma scripted_serves: "[] \<notin> set ds \<Longrightarrow> n < 0 \<Longrightarrow> serves (scripted_service n ds) city ds"
  using scripted_feeds[of ds n ds] unfolding serves_def
  by (simp add: scripted_service_def GET_URL_LEN_MAX_def) (simp add: scripted_def)

text \<open>A report as the service gives it, and what it says.\<close>

definition text_members :: "(string \<times> string) list \<Rightarrow> json" where
  "text_members ms = JObj (map (\<lambda>(k, v). (lit k, JStr (lit v))) ms)"

definition sample_day :: json where
  "sample_day = text_members [(''wtId1'', ''1''), (''wtId2'', ''2''), (''wtTemp1'', ''25''), (''wtTemp2'', ''-3'')]"

definition sample_result :: json where
  "sample_result = JObj [(lit ''area_1'', JStr (lit ''north'')), (lit ''area_2'', JStr (lit ''town'')),
     (lit ''realTime'', text_members [(''wtAqi'', ''40''), (''wtId'', ''1''), (''wtNm'', ''fair''), (''wtTemp'', ''-2''), (''wtHumi'', ''55'')]),
     (lit ''today'', sample_day), (lit ''futureDay'', JArr [sample_day, sample_day])]"

definition sample_report :: json where
  "sample_report = JObj [(lit ''success'', JStr (lit ''1'')), (lit ''result'', sample_result)]"

definition sample_weather :: Weather where
  "sample_weather = \<lparr>D_wtId = 1, N_wtId = 2, Temp_L = -3, Temp_H = 25\<rparr>"

definition sample_now :: Realtime where
  "sample_now = \<lparr>area_1 = lit ''north'' @ replicate 5 0, area_2 = lit ''town'' @ replicate 6 0, wtId = 1,
     wtNm = lit ''fair'' @ replicate 6 0, aqi = 40, temp = -2, humi = 55\<rparr>"

lemma sample_report_says:
  "string_at sample_report ''success'' = Some (lit ''1'')"
  "Option.bind (member sample_report ''result'') (reply_report (\<lambda>bs. bs)) = Some (sample_now, [sample_weather, sample_weather, sample_weather])"
  by code_simp+

lemma sample_report_text:
  "c_json sample_report" "[] \<notin> set [json_text False 0 sample_report]" "length (json_text False 0 sample_report) < GET_RESP_BUFSZ"
  by code_simp+

section \<open>Properties\<close>

text \<open>C7. A reply that comes in one piece shorter than the buffer: when the service refuses, nothing changes; when
  its result has every field and the names fit, the reports are exactly what it says; in all other cases,
  a key that is missing, a value that is not a string, a name of more than ten bytes, the code faults.\<close>

theorem fetch_weather_reply:
  assumes "serves sv (area_id s) [json_text fmt d j]" "length (json_text fmt d j) < GET_RESP_BUFSZ" "1 < fuel"
    and "total_malloc (w_malloc (weather_env sv))" "fp_exact (w_fp (weather_env sv))" "converts (weather_env sv) gbk"
    and "c_json j" "report_fields s"
  shows "case reply_outcome gbk j (rt s, wt s) of
      None \<Rightarrow> \<exists>e. fetch_weather fuel sv s = Inl e
    | Some (r, w) \<Rightarrow> \<exists>js'. fetch_weather fuel sv s = Inr (s\<lparr>rt := r, wt := w, json_state := js'\<rparr>)"
  using fetch_weather_text[OF assms] by (auto simp: agrees_def split: option.splits)

theorem fetch_weather_reply_witness:
  "\<exists>js'. fetch_weather 2 (scripted_service (-1) [json_text False 0 (JObj [(lit ''success'', JStr (lit ''0''))])]) weather_boot =
     Inr (weather_boot\<lparr>json_state := js'\<rparr>)"
proof -
  define j where "j = JObj [(lit ''success'', JStr (lit ''0''))]"
  have shown: "json_text False 0 j = lit ''{\"success\":\"0\"}''"
    by (simp add: j_def quote_def escaped_def lit_def nl_def tabs_def)
  then have ne: "[] \<notin> set [json_text False 0 j]" by (simp add: lit_def)
  have "reply_outcome (\<lambda>bs. bs) j (rt weather_boot, wt weather_boot) = Some (rt weather_boot, wt weather_boot)"
    by (simp add: reply_outcome_def string_at_def j_def lit_def)
  moreover have "c_json j" by (simp add: j_def lit_def)
  moreover have "length (json_text False 0 j) < GET_RESP_BUFSZ" by (simp add: shown GET_RESP_BUFSZ_def)
  ultimately show ?thesis
    using fetch_weather_reply[OF scripted_serves[OF ne, of "-1"], where fuel = 2 and gbk = "\<lambda>bs. bs" and s = weather_boot] plain_weather_env_laws weather_boot_fields
    by (simp add: scripted_service_def[of "-1"] j_def[symmetric])
qed

text \<open>When the body comes in several pieces each one is stored at the start of the buffer, over the ones
  before: what is parsed is the last piece, followed by what is left of longer ones.\<close>

theorem fetch_weather_pieces:
  assumes "serves sv (area_id s) ds" "\<forall>d\<in>set ds. length d \<le> GET_RESP_BUFSZ" "length ds < fuel"
  shows "fetch_weather fuel sv s = weather_data_parse (weather_env sv) (fold (overlay 0) ds (replicate GET_RESP_BUFSZ 0)) s"
  by (rule fetch_weather_eq[OF assms])

theorem fetch_weather_pieces_witness:
  "fetch_weather 3 (scripted_service (-1) [lit ''{\"success\"'', lit '':\"0\"}'']) weather_boot =
   weather_data_parse plain_weather_env (lit '':\"0\"}cess\"'' @ replicate (GET_RESP_BUFSZ - 10) 0) weather_boot"
proof -
  have "fold (overlay 0) [lit ''{\"success\"'', lit '':\"0\"}''] (replicate GET_RESP_BUFSZ 0) =
      lit '':\"0\"}cess\"'' @ replicate (GET_RESP_BUFSZ - 10) 0"
    by (simp add: overlay_def lit_def GET_RESP_BUFSZ_def)
  then show ?thesis
    using fetch_weather_pieces[OF scripted_serves[of "[lit ''{\"success\"'', lit '':\"0\"}'']" "-1"], where s = weather_boot and fuel = 3]
    by (simp add: GET_RESP_BUFSZ_def lit_def) (simp add: scripted_service_def)
qed

end
