(* ===== verification/Webclient.thy ===== *)
theory Webclient
  imports Runs Kservice_Format
begin

text \<open>
  The HTTP client, \<open>packages/webclient-v2.1.2/src/webclient.c\<close>, without TLS, as the project compiles it. The socket layer
  and the allocator are parameters. Strings are lists of bytes without their terminator, buffers have it in them.
\<close>

section \<open>The socket layer\<close>

text \<open>\<open>recv\<close> has stored some bytes, or gives the result \<open>- n\<close>, which is 0 when the peer has closed the connection.\<close>

datatype received = Got "byte list" | Failed nat

record ('n, 'a) sockets =
  web_alloc :: "nat \<Rightarrow> 'n \<Rightarrow> bool \<times> 'n"
  getaddrinfo :: "byte list \<Rightarrow> byte list \<Rightarrow> 'n \<Rightarrow> (int \<times> 'a option) \<times> 'n"
  socket_open :: "'a \<Rightarrow> 'n \<Rightarrow> int \<times> 'n"
  setsockopt_timeo :: "int \<Rightarrow> int \<Rightarrow> 'n \<Rightarrow> 'n"
  socket_connect :: "int \<Rightarrow> 'a \<Rightarrow> 'n \<Rightarrow> int \<times> 'n"
  socket_send :: "int \<Rightarrow> byte list \<Rightarrow> 'n \<Rightarrow> int \<times> 'n"
  socket_recv :: "int \<Rightarrow> nat \<Rightarrow> 'n \<Rightarrow> received \<times> 'n"
  would_block :: "'n \<Rightarrow> bool"
  socket_close :: "int \<Rightarrow> 'n \<Rightarrow> 'n"
  header_addr :: nat
  stack_bytes :: "nat \<Rightarrow> byte"

section \<open>The session\<close>

definition WEBCLIENT_OK :: int where "WEBCLIENT_OK = 0"
definition WEBCLIENT_ERROR :: int where "WEBCLIENT_ERROR = 1"
definition WEBCLIENT_TIMEOUT :: int where "WEBCLIENT_TIMEOUT = 2"
definition WEBCLIENT_NOMEM :: int where "WEBCLIENT_NOMEM = 3"
definition WEBCLIENT_NOSOCKET :: int where "WEBCLIENT_NOSOCKET = 4"
definition WEBCLIENT_NOBUFFER :: int where "WEBCLIENT_NOBUFFER = 5"
definition WEBCLIENT_CONNECT_FAILED :: int where "WEBCLIENT_CONNECT_FAILED = 6"
definition WEBCLIENT_DISCONNECT :: int where "WEBCLIENT_DISCONNECT = 7"
definition WEBCLIENT_DEFAULT_TIMEO :: int where "WEBCLIENT_DEFAULT_TIMEO = 6"
definition WEBCLIENT_RESPONSE_BUFSZ :: nat where "WEBCLIENT_RESPONSE_BUFSZ = 4096"
definition WEBCLIENT_HEADER_BUFSZ :: nat where "WEBCLIENT_HEADER_BUFSZ = 4096"

datatype webclient_method = WEBCLIENT_USER_METHOD | WEBCLIENT_GET | WEBCLIENT_POST

text \<open>A pointer to a string on the heap, also after the string has been released.\<close>

datatype heap_string = Null | Block "byte list" | Dangling

text \<open>\<open>header\<close> is the block that \<open>session->header\<close> points to; the state of the socket layer goes with the session.\<close>

record webclient_header =
  header_buffer :: "byte list"
  header_length :: nat
  header_size :: nat

record 'n web =
  header :: webclient_header
  sock :: int
  resp_status :: int
  host :: heap_string
  req_url :: heap_string
  chunk_sz :: int
  chunk_offset :: int
  content_length :: int
  content_remainder :: nat
  is_tls :: bool
  link :: 'n

type_synonym ('a, 'n) wrun = "('a, 'n web) crun"

text \<open>A call of the socket layer.\<close>

definition on_link :: "('n \<Rightarrow> 'b \<times> 'n) \<Rightarrow> ('b, 'n) wrun" where
  "on_link f st = (let (r, n) = f (link st) in Inr (r, st\<lparr>link := n\<rparr>))"

text \<open>What a pointer to a string gives \<open>%s\<close>, and its release.\<close>

fun heap_text :: "heap_string \<Rightarrow> byte list option cres" where
  "heap_text Null = Inr None"
| "heap_text (Block s) = Inr (Some s)"
| "heap_text Dangling = Inl Released"

fun web_free :: "heap_string \<Rightarrow> unit cres" where
  "web_free Dangling = Inl Released"
| "web_free _ = Inr ()"

definition closesocket :: "('n, 'a) sockets \<Rightarrow> (unit, 'n) wrun" where
  "closesocket W = emod (\<lambda>st. st\<lparr>link := socket_close W (sock st) (link st), sock := -1\<rparr>)"

section \<open>Strings\<close>

text \<open>Where the code reads a string from a buffer, the terminator has to be in it.\<close>

definition str_in :: "byte list \<Rightarrow> byte list cres" where
  "str_in buf = (if 0 \<in> set buf then Inr (cstr buf) else Inl Out_Of_Bounds)"

text \<open>A string read past its end gives its terminator.\<close>

definition char_of :: "byte list \<Rightarrow> byte" where
  "char_of s = (case s of [] \<Rightarrow> 0 | c # _ \<Rightarrow> c)"

fun webclient_strncasecmp :: "byte list \<Rightarrow> byte list \<Rightarrow> nat \<Rightarrow> int" where
  "webclient_strncasecmp a b 0 = 0"
| "webclient_strncasecmp a b (Suc n) =
     (let c1 = tolower (char_of a); c2 = tolower (char_of b)
      in if n \<noteq> 0 \<and> c1 \<noteq> 0 \<and> c1 = c2 then webclient_strncasecmp (tl a) (tl b) n else uint c1 - uint c2)"

fun strstri_loop :: "byte list \<Rightarrow> byte list \<Rightarrow> byte list option" where
  "strstri_loop [] sub = None"
| "strstri_loop (c # s) sub =
     (if webclient_strncasecmp (c # s) sub (length sub) = 0 then Some (c # s) else strstri_loop s sub)"

definition webclient_strstri :: "byte list \<Rightarrow> byte list \<Rightarrow> byte list option" where
  "webclient_strstri str sub = (if length sub = 0 then None else strstri_loop str sub)"

text \<open>\<open>strtol\<close> of the C library, over the memory it reads: white space, a sign, \<open>0x\<close> in base 16, digits; the value is
  cut to the range of \<open>long\<close>. \<open>atoi\<close> is \<open>strtol\<close> in base 10.\<close>

definition digit_value :: "byte \<Rightarrow> int" where
  "digit_value b =
     (if 48 \<le> b \<and> b \<le> 57 then uint b - 48
      else if 65 \<le> b \<and> b \<le> 90 then uint b - 55
      else if 97 \<le> b \<and> b \<le> 122 then uint b - 87
      else 36)"

fun strtol_digits :: "int \<Rightarrow> byte list \<Rightarrow> int \<Rightarrow> int cres" where
  "strtol_digits base [] acc = Inl Out_Of_Bounds"
| "strtol_digits base (b # s) acc =
     (if digit_value b < base then strtol_digits base s (acc * base + digit_value b) else Inr acc)"

fun skip_space :: "byte list \<Rightarrow> byte list cres" where
  "skip_space [] = Inl Out_Of_Bounds"
| "skip_space (b # s) = (if is_space b then skip_space s else Inr (b # s))"

definition skip_prefix :: "int \<Rightarrow> byte list \<Rightarrow> byte list" where
  "skip_prefix base s =
     (case s of
        a # b # c # t \<Rightarrow> if base = 16 \<and> a = 48 \<and> (b = 120 \<or> b = 88) \<and> digit_value c < 16 then c # t else s
      | _ \<Rightarrow> s)"

definition strtol_value :: "int \<Rightarrow> byte list \<Rightarrow> int cres" where
  "strtol_value base s = strtol_digits base (skip_prefix base s) 0"

definition clamp_long :: "int \<Rightarrow> int" where "clamp_long v = max (- (2 ^ 31)) (min (2 ^ 31 - 1) v)"

definition strtol :: "int \<Rightarrow> byte list \<Rightarrow> int cres" where
  "strtol base mem =
     cbind (skip_space mem) (\<lambda>s.
     case s of
       [] \<Rightarrow> Inl Out_Of_Bounds
     | b # t \<Rightarrow>
         cbind (strtol_value base (if b = 45 \<or> b = 43 then t else s)) (\<lambda>v.
         Inr (clamp_long (if b = 45 then - v else v))))"

section \<open>Sending and receiving\<close>

definition webclient_send :: "('n, 'a) sockets \<Rightarrow> byte list \<Rightarrow> (int, 'n) wrun" where
  "webclient_send W bs = ebind (eget sock) (\<lambda>s. on_link (socket_send W s bs))"

text \<open>The result and the bytes; more of them than were asked for would overrun the buffer.\<close>

definition webclient_recv :: "('n, 'a) sockets \<Rightarrow> nat \<Rightarrow> (int \<times> byte list, 'n) wrun" where
  "webclient_recv W len =
     ebind (eget sock) (\<lambda>s.
     ebind (on_link (socket_recv W s len)) (\<lambda>r.
     case r of
       Got bs \<Rightarrow> elift (if length bs \<le> len then Inr (int (length bs), bs) else Inl Out_Of_Bounds)
     | Failed n \<Rightarrow> eret (- int n, [])))"

text \<open>The loop has one round for each byte that is left of the size.\<close>

primrec read_line_loop :: "('n, 'a) sockets \<Rightarrow> nat \<Rightarrow> nat \<Rightarrow> byte \<Rightarrow> byte list \<Rightarrow> (int \<times> byte list, 'n) wrun" where
  "read_line_loop W 0 count last_ch buffer = eret (int count, buffer)"
| "read_line_loop W (Suc n) count last_ch buffer =
     ebind (webclient_recv W 1) (\<lambda>(rc, bs).
     if rc \<le> 0 then eret (rc, buffer)
     else if hd bs = 10 \<and> last_ch = 13 then eret (int count, buffer)
     else ebind (elift (buf_put count (hd bs) buffer)) (\<lambda>buffer. read_line_loop W n (Suc count) (hd bs) buffer))"

definition webclient_read_line :: "('n, 'a) sockets \<Rightarrow> byte list \<Rightarrow> int \<Rightarrow> (int \<times> byte list, 'n) wrun" where
  "webclient_read_line W buffer n = read_line_loop W (nat n) 0 0 buffer"

text \<open>\<open>continue\<close> after a timeout goes on without progress, so the loop takes fuel.\<close>

primrec write_loop :: "nat \<Rightarrow> ('n, 'a) sockets \<Rightarrow> byte list \<Rightarrow> int \<Rightarrow> int \<Rightarrow> (int, 'n) wrun" where
  "write_loop 0 W buffer total_write left = elift (Inl Diverges)"
| "write_loop (Suc fuel) W buffer total_write left =
     ebind (webclient_send W (take (nat left) (drop (nat total_write) buffer))) (\<lambda>bytes_write.
     if bytes_write \<le> 0 then
       ebind (eget (\<lambda>st. would_block W (link st))) (\<lambda>again.
       if again then
         (if total_write \<noteq> 0 then eret total_write
          else if left \<noteq> 0 then write_loop fuel W buffer total_write left else eret total_write)
       else
         ebind (closesocket W) (\<lambda>_. eret (if total_write = 0 then - WEBCLIENT_DISCONNECT else total_write)))
     else if left - bytes_write \<noteq> 0 then write_loop fuel W buffer (total_write + bytes_write) (left - bytes_write)
     else eret (total_write + bytes_write))"

definition webclient_write :: "nat \<Rightarrow> ('n, 'a) sockets \<Rightarrow> byte list \<Rightarrow> (int, 'n) wrun" where
  "webclient_write fuel W buffer =
     ebind (eget sock) (\<lambda>s.
     if s < 0 then eret (- WEBCLIENT_DISCONNECT)
     else if length buffer = 0 then eret 0
     else write_loop fuel W buffer 0 (int (length buffer)))"

section \<open>Connecting\<close>

text \<open>The text of a URL: host, port and request, or nothing. \<open>port_str\<close> is an array of six bytes. A position in the URL is
  the rest of the text from there.\<close>

definition strip_protocol :: "byte list \<Rightarrow> (byte list \<times> byte list) option cres" where
  "strip_protocol url =
     (if take 7 url = lit ''http://'' then Inr (Some (drop 7 url, lit ''80'' @ [0, 0, 0, 0]))
      else if take 8 url = lit ''https://'' then
        cbind (rt_strncpy (lit ''80'' @ [0, 0, 0, 0]) (lit ''443'') 4) (\<lambda>port_str. Inr (Some (drop 8 url, port_str)))
      else Inr None)"

definition url_port :: "byte list option \<Rightarrow> byte list option \<Rightarrow> byte list \<Rightarrow> byte list cres" where
  "url_port port_ptr path_ptr port_str =
     (case port_ptr of
        None \<Rightarrow> Inr port_str
      | Some port \<Rightarrow>
          (case path_ptr of
             Some path \<Rightarrow>
               (if length port > length path then
                  (let port_len = length port - length path - 1
                   in cbind (rt_strncpy port_str (tl port) port_len) (buf_put port_len 0))
                else Inr port_str)
           | None \<Rightarrow> if length port \<le> length port_str then Inr (overlay 0 (tl port @ [0]) port_str) else Inl Out_Of_Bounds))"

definition url_parts :: "byte list \<Rightarrow> (byte list \<times> byte list \<times> byte list) option cres" where
  "url_parts url =
     cbind (strip_protocol url) (\<lambda>p.
     case p of
       None \<Rightarrow> Inr None
     | Some (host_addr, port_str) \<Rightarrow>
         cbind (if take 1 host_addr = [91]
                then cbind (rt_strstr (tl host_addr) [93]) (\<lambda>ptr.
                     Inr (map_option (\<lambda>ptr. (tl host_addr, length (tl host_addr) - length ptr)) ptr))
                else Inr (Some (host_addr, 0))) (\<lambda>q.
         case q of
           None \<Rightarrow> Inr None
         | Some (host_addr, host_addr_len) \<Rightarrow>
             cbind (rt_strstr host_addr [47]) (\<lambda>path_ptr.
             cbind (rt_strstr (drop host_addr_len host_addr) [58]) (\<lambda>port_ptr.
             cbind (url_port port_ptr path_ptr port_str) (\<lambda>port_str.
             let host_addr_len =
                   (if host_addr_len \<noteq> 0 then host_addr_len
                    else case port_ptr of
                           Some port \<Rightarrow> length host_addr - length port
                         | None \<Rightarrow> (case path_ptr of Some path \<Rightarrow> length host_addr - length path | None \<Rightarrow> length host_addr))
             in if host_addr_len < 1 \<or> host_addr_len > length url then Inr None
                else Inr (Some (take host_addr_len host_addr, cstr port_str,
                       case path_ptr of Some path \<Rightarrow> path | None \<Rightarrow> [47])))))))"

text \<open>The address and the request; on an error the host is released.\<close>

definition webclient_resolve_address ::
  "('n, 'a) sockets \<Rightarrow> byte list \<Rightarrow> (int \<times> 'a option \<times> byte list option, 'n) wrun" where
  "webclient_resolve_address W url =
     ebind (elift (url_parts url)) (\<lambda>parts.
     ebind (case parts of
              None \<Rightarrow> eret (- WEBCLIENT_ERROR, None, None)
            | Some (host_addr, port_str, request) \<Rightarrow>
                ebind (on_link (web_alloc W (length host_addr + 1))) (\<lambda>ok.
                if \<not> ok then eret (- WEBCLIENT_ERROR, None, Some request)
                else
                  ebind (emod (\<lambda>st. st\<lparr>host := Block host_addr\<rparr>)) (\<lambda>_.
                  ebind (on_link (getaddrinfo W host_addr port_str)) (\<lambda>(ret, res).
                  eret (if ret \<noteq> 0 then (- WEBCLIENT_ERROR, None, Some request) else (WEBCLIENT_OK, res, Some request)))))) (\<lambda>(rc, res, request).
     ebind (if rc \<noteq> WEBCLIENT_OK then
              ebind (eget host) (\<lambda>h.
              ebind (elift (web_free h)) (\<lambda>_. emod (\<lambda>st. st\<lparr>host := Null\<rparr>)))
            else eret ()) (\<lambda>_.
     eret (rc, res, request))))"

definition webclient_connect :: "('n, 'a) sockets \<Rightarrow> byte list \<Rightarrow> (int, 'n) wrun" where
  "webclient_connect W URI =
     (if take 8 URI = lit ''https://'' then eret (- WEBCLIENT_ERROR)
      else
        ebind (webclient_resolve_address W URI) (\<lambda>(rc, res, request).
        if rc \<noteq> WEBCLIENT_OK then eret rc
        else
          ebind (eget is_tls) (\<lambda>tls.
          case res of
            None \<Rightarrow> if \<not> tls then eret (- WEBCLIENT_ERROR) else elift (Inl Null_Deref)
          | Some addr \<Rightarrow>
              (case request of
                 None \<Rightarrow> eret (- WEBCLIENT_ERROR)
               | Some request \<Rightarrow>
                   ebind (on_link (web_alloc W (length request + 1))) (\<lambda>ok.
                   ebind (emod (\<lambda>st. st\<lparr>req_url := (if ok then Block request else Null)\<rparr>)) (\<lambda>_.
                   ebind (on_link (socket_open W addr)) (\<lambda>socket_handle.
                   if socket_handle < 0 then eret (- WEBCLIENT_NOSOCKET)
                   else
                     ebind (emod (\<lambda>st. st\<lparr>link := setsockopt_timeo W socket_handle WEBCLIENT_DEFAULT_TIMEO (link st)\<rparr>)) (\<lambda>_.
                     ebind (on_link (socket_connect W socket_handle addr)) (\<lambda>r.
                     if r \<noteq> 0 then
                       ebind (emod (\<lambda>st. st\<lparr>link := socket_close W socket_handle (link st)\<rparr>)) (\<lambda>_.
                       eret (- WEBCLIENT_CONNECT_FAILED))
                     else ebind (emod (\<lambda>st. st\<lparr>sock := socket_handle\<rparr>)) (\<lambda>_. eret WEBCLIENT_OK))))))))))"

section \<open>Header fields\<close>

definition set_buffer :: "byte list \<Rightarrow> (unit, 'n) wrun" where
  "set_buffer buf = emod (\<lambda>st. st\<lparr>header := (header st)\<lparr>header_buffer := buf\<rparr>\<rparr>)"

definition set_length :: "nat \<Rightarrow> (unit, 'n) wrun" where
  "set_length n = emod (\<lambda>st. st\<lparr>header := (header st)\<lparr>header_length := n\<rparr>\<rparr>)"

text \<open>\<open>rt_snprintf\<close> into the header from a position; the size is a \<open>size_t\<close>.\<close>

definition header_print :: "('n, 'a) sockets \<Rightarrow> nat \<Rightarrow> nat \<Rightarrow> byte list \<Rightarrow> fmt_arg list \<Rightarrow> (nat, 'n) wrun" where
  "header_print W pos n fmt args =
     ebind (eget (\<lambda>st. header_buffer (header st))) (\<lambda>buf.
     ebind (elift (rt_vsnprintf (header_addr W + pos) (drop pos buf) n fmt args)) (\<lambda>(len, rest).
     ebind (set_buffer (take pos buf @ rest)) (\<lambda>_. eret len)))"

definition webclient_header_fields_add :: "('n, 'a) sockets \<Rightarrow> byte list \<Rightarrow> fmt_arg list \<Rightarrow> (int, 'n) wrun" where
  "webclient_header_fields_add W fmt args =
     ebind (eget header) (\<lambda>h.
     ebind (header_print W (header_length h) ((header_size h + 2 ^ 32 - header_length h) mod 2 ^ 32) fmt args) (\<lambda>len.
     ebind (set_length (header_length h + len)) (\<lambda>_.
     eret (if header_length h + len \<ge> header_size h then - WEBCLIENT_ERROR else int len))))"

definition is_blank :: "byte \<Rightarrow> bool" where "is_blank b \<longleftrightarrow> b = 32 \<or> b = 9"

text \<open>The strings of the header one after the other, from a position; \<open>len\<close> is the counter of the loop, which takes the
  length of the string it goes to, not of the one it leaves.\<close>

function fields_loop :: "byte list \<Rightarrow> nat \<Rightarrow> byte list \<Rightarrow> nat \<Rightarrow> byte list option cres" where
  "fields_loop resp_buf len name n =
     (if len < n then
        cbind (str_in resp_buf) (\<lambda>s.
        cbind (if webclient_strstri s name \<noteq> None then rt_strstr s [58] else Inr None) (\<lambda>mime_ptr.
        case mime_ptr of
          Some m \<Rightarrow> Inr (Some (dropWhile is_blank (tl m)))
        | None \<Rightarrow>
            if s = [] then Inr None
            else
              (let resp_buf = drop (length s + 1) resp_buf
               in cbind (str_in resp_buf) (\<lambda>t. fields_loop resp_buf (len + length t + 1) name n))))
      else Inr None)"
  by pat_completeness auto
termination
  by (relation "measure (\<lambda>(resp_buf, _). length resp_buf)") (auto simp: str_in_def split: if_splits intro: diff_less)

declare fields_loop.simps [simp del]

definition webclient_header_fields_get :: "byte list \<Rightarrow> (byte list option, 'n) wrun" where
  "webclient_header_fields_get name =
     ebind (eget header) (\<lambda>h. elift (fields_loop (header_buffer h) 0 name (header_length h)))"

section \<open>The request\<close>

definition GET_LINE :: "byte list" where "GET_LINE = lit ''GET %s HTTP/1.1'' @ [13, 10]"
definition POST_LINE :: "byte list" where "POST_LINE = lit ''POST %s HTTP/1.1'' @ [13, 10]"
definition HOST_LINE :: "byte list" where "HOST_LINE = lit ''Host: %s'' @ [13, 10]"
definition AGENT_LINE :: "byte list" where "AGENT_LINE = lit ''User-Agent: RT-Thread HTTP Agent'' @ [13, 10]"
definition ACCEPT_LINE :: "byte list" where "ACCEPT_LINE = lit ''Accept: */*'' @ [13, 10]"

text \<open>A field is added, or the request is given up.\<close>

definition add_or_fail :: "('n, 'a) sockets \<Rightarrow> byte list \<Rightarrow> fmt_arg list \<Rightarrow> (int, 'n) wrun \<Rightarrow> (int, 'n) wrun" where
  "add_or_fail W fmt args next =
     ebind (webclient_header_fields_add W fmt args) (\<lambda>r. if r < 0 then eret (- WEBCLIENT_NOMEM) else next)"

definition add_missing :: "('n, 'a) sockets \<Rightarrow> byte list \<Rightarrow> byte list \<Rightarrow> fmt_arg list \<Rightarrow> (int, 'n) wrun \<Rightarrow> (int, 'n) wrun" where
  "add_missing W name fmt args next =
     ebind (eget (\<lambda>st. header_buffer (header st))) (\<lambda>buf.
     ebind (elift (str_in buf)) (\<lambda>s.
     ebind (elift (rt_strstr s name)) (\<lambda>hit.
     if hit = None then add_or_fail W fmt args next else next)))"

definition send_buffer :: "nat \<Rightarrow> ('n, 'a) sockets \<Rightarrow> (int, 'n) wrun" where
  "send_buffer fuel W =
     ebind (eget header) (\<lambda>h.
     ebind (webclient_write fuel W (take (header_length h) (header_buffer h))) (\<lambda>_. eret WEBCLIENT_OK))"

text \<open>The request line in front of the fields that are there, unless there is one.\<close>

definition splice_request :: "('n, 'a) sockets \<Rightarrow> webclient_method \<Rightarrow> (int, 'n) wrun" where
  "splice_request W method =
     ebind (eget header) (\<lambda>h.
     if take 7 (header_buffer h) = lit ''HTTP/1.'' then eret WEBCLIENT_OK
     else
       ebind (elift (str_in (header_buffer h))) (\<lambda>header_buf.
       ebind (on_link (web_alloc W (length header_buf + 1))) (\<lambda>ok.
       if \<not> ok then eret (- WEBCLIENT_NOMEM)
       else
         ebind (eget req_url) (\<lambda>u.
         ebind (elift (heap_text u)) (\<lambda>url.
         ebind (header_print W 0 (header_size h) ((if method = WEBCLIENT_GET then GET_LINE else POST_LINE) @ lit ''%s'')
             [A_Str (Some (case url of Some u \<Rightarrow> u | None \<Rightarrow> [47])), A_Str (Some header_buf)]) (\<lambda>len.
         ebind (set_length len) (\<lambda>_. eret WEBCLIENT_OK)))))))"

definition webclient_send_header :: "nat \<Rightarrow> ('n, 'a) sockets \<Rightarrow> webclient_method \<Rightarrow> (int, 'n) wrun" where
  "webclient_send_header fuel W method =
     ebind (eget header) (\<lambda>h.
     if header_length h = 0 then
       ebind (eget req_url) (\<lambda>u.
       ebind (elift (heap_text u)) (\<lambda>url.
       add_or_fail W GET_LINE [A_Str url]
         (ebind (eget host) (\<lambda>hp.
          ebind (elift (heap_text hp)) (\<lambda>host_name.
          add_or_fail W HOST_LINE [A_Str host_name]
            (add_or_fail W (AGENT_LINE @ [13, 10]) [] (send_buffer fuel W)))))))
     else if method = WEBCLIENT_USER_METHOD then send_buffer fuel W
     else
       ebind (splice_request W method) (\<lambda>rc.
       if rc \<noteq> WEBCLIENT_OK then eret rc
       else
         ebind (eget host) (\<lambda>hp.
         ebind (elift (heap_text hp)) (\<lambda>host_name.
         add_missing W (lit ''Host:'') HOST_LINE [A_Str host_name]
           (add_missing W (lit ''User-Agent:'') AGENT_LINE []
             (add_missing W (lit ''Accept:'') ACCEPT_LINE []
               (ebind (eget header) (\<lambda>h.
                ebind (header_print W (header_length h) (header_size h) [13, 10] []) (\<lambda>_.
                ebind (set_length (header_length h + 2)) (\<lambda>_.
                if header_length h + 2 > header_size h then eret (- WEBCLIENT_NOBUFFER) else send_buffer fuel W))))))))))"

section \<open>The response\<close>

text \<open>The header is read line by line; each line takes a byte of the buffer or more. \<open>None\<close> stands for the return inside
  of the loop.\<close>

primrec header_lines :: "nat \<Rightarrow> ('n, 'a) sockets \<Rightarrow> (int option, 'n) wrun" where
  "header_lines 0 W = elift (Inl Diverges)"
| "header_lines (Suc fuel) W =
     ebind (eget header) (\<lambda>h.
     let pos = header_length h
     in ebind (webclient_read_line W (drop pos (header_buffer h)) (int (header_size h) - int pos)) (\<lambda>(rc, mime_buffer).
        ebind (set_buffer (take pos (header_buffer h) @ mime_buffer)) (\<lambda>_.
        if rc \<le> 0 then eret (Some rc)
        else if rc = 1 \<and> take 1 mime_buffer = [13] then
          ebind (set_buffer (take pos (header_buffer h) @ mime_buffer[0 := 0])) (\<lambda>_. eret (Some rc))
        else
          ebind (set_buffer (take pos (header_buffer h) @ mime_buffer[nat rc - 1 := 0])) (\<lambda>_.
          ebind (set_length (pos + nat rc)) (\<lambda>_.
          if pos + nat rc \<ge> header_size h then eret None else header_lines fuel W)))))"

text \<open>The number in the status line. The end of the number is searched without regard to the end of the string.\<close>

fun skip_blanks :: "byte list \<Rightarrow> byte list cres" where
  "skip_blanks [] = Inl Out_Of_Bounds"
| "skip_blanks (b # s) = (if is_blank b then skip_blanks s else Inr (b # s))"

fun until_blank :: "byte list \<Rightarrow> byte list cres" where
  "until_blank [] = Inl Out_Of_Bounds"
| "until_blank (b # s) = (if is_blank b then Inr [] else cbind (until_blank s) (\<lambda>t. Inr (b # t)))"

definition status_code :: "byte list \<Rightarrow> int option cres" where
  "status_code mime =
     cbind (rt_strstr mime (lit ''HTTP/1.'')) (\<lambda>hit.
     if hit = None then Inr None
     else
       cbind (skip_blanks (drop 8 (mime @ [0]))) (\<lambda>ptr.
       cbind (until_blank ptr) (\<lambda>number.
       cbind (strtol 10 (number @ [0])) (\<lambda>v. Inr (Some v)))))"

definition read_content_length :: "(unit, 'n) wrun" where
  "read_content_length =
     ebind (webclient_header_fields_get (lit ''Content-Length'')) (\<lambda>v.
     ebind (case v of
              None \<Rightarrow> eret ()
            | Some v \<Rightarrow> ebind (elift (strtol 10 (v @ [0]))) (\<lambda>n. emod (\<lambda>st. st\<lparr>content_length := n\<rparr>))) (\<lambda>_.
     emod (\<lambda>st. st\<lparr>content_remainder :=
       (if content_length st \<noteq> 0 then nat (content_length st mod 2 ^ 32) else 0xFFFFFFFF)\<rparr>)))"

text \<open>The first chunk size is read into an array of 16 bytes, with the size of the header as the bound.\<close>

definition first_chunk :: "('n, 'a) sockets \<Rightarrow> (unit, 'n) wrun" where
  "first_chunk W =
     ebind (webclient_header_fields_get (lit ''Transfer-Encoding'')) (\<lambda>v.
     if v \<noteq> None \<and> rt_strcmp (the v) (lit ''chunked'') = 0 then
       ebind (eget header) (\<lambda>h.
       ebind (webclient_read_line W (map (stack_bytes W) [0..<16]) (int (header_size h))) (\<lambda>(_, line).
       ebind (elift (strtol 16 line)) (\<lambda>n.
       emod (\<lambda>st. st\<lparr>chunk_sz := n, chunk_offset := 0\<rparr>))))
     else eret ())"

definition webclient_handle_response :: "('n, 'a) sockets \<Rightarrow> (int, 'n) wrun" where
  "webclient_handle_response W =
     ebind (eget header) (\<lambda>h.
     ebind (set_buffer (replicate (header_size h) 0)) (\<lambda>_.
     ebind (set_length 0) (\<lambda>_.
     ebind (header_lines (Suc (header_size h)) W) (\<lambda>rc.
     case rc of
       None \<Rightarrow> eret (- WEBCLIENT_NOMEM)
     | Some rc \<Rightarrow>
         ebind (eget (\<lambda>st. header_buffer (header st))) (\<lambda>buf.
         ebind (elift (str_in buf)) (\<lambda>mime.
         ebind (on_link (web_alloc W (length mime + 1))) (\<lambda>ok.
         if \<not> ok then eret (- WEBCLIENT_NOMEM)
         else
           ebind (elift (status_code mime)) (\<lambda>code.
           ebind (case code of None \<Rightarrow> eret () | Some v \<Rightarrow> emod (\<lambda>st. st\<lparr>resp_status := v\<rparr>)) (\<lambda>_.
           ebind read_content_length (\<lambda>_.
           ebind (first_chunk W) (\<lambda>_.
           if rc < 0 then eret rc else eget resp_status)))))))))))"

section \<open>Sessions\<close>

text \<open>Three blocks are allocated.\<close>

definition webclient_session_create :: "('n, 'a) sockets \<Rightarrow> nat \<Rightarrow> 'n \<Rightarrow> 'n web option \<times> 'n" where
  "webclient_session_create W header_sz n =
     (let (ok1, n) = web_alloc W 56 n
      in if \<not> ok1 then (None, n)
         else let (ok2, n) = web_alloc W 12 n
           in if \<not> ok2 then (None, n)
              else let (ok3, n) = web_alloc W header_sz n
                in if \<not> ok3 then (None, n)
                   else (Some \<lparr>header = \<lparr>header_buffer = replicate header_sz 0, header_length = 0, header_size = header_sz\<rparr>,
                          sock = -1, resp_status = 0, host = Null, req_url = Null, chunk_sz = 0, chunk_offset = 0,
                          content_length = -1, content_remainder = 0, is_tls = False, link = n\<rparr>, n))"

text \<open>\<open>webclient_clean\<close> releases the two strings and keeps the pointers.\<close>

fun after_free :: "heap_string \<Rightarrow> heap_string" where
  "after_free Null = Null"
| "after_free _ = Dangling"

definition webclient_clean :: "('n, 'a) sockets \<Rightarrow> (unit, 'n) wrun" where
  "webclient_clean W =
     ebind (eget sock) (\<lambda>s.
     ebind (if s \<ge> 0 then closesocket W else eret ()) (\<lambda>_.
     ebind (eget host) (\<lambda>h.
     ebind (elift (web_free h)) (\<lambda>_.
     ebind (emod (\<lambda>st. st\<lparr>host := after_free (host st)\<rparr>)) (\<lambda>_.
     ebind (eget req_url) (\<lambda>u.
     ebind (elift (web_free u)) (\<lambda>_.
     ebind (emod (\<lambda>st. st\<lparr>req_url := after_free (req_url st)\<rparr>)) (\<lambda>_.
     emod (\<lambda>st. st\<lparr>content_length := -1\<rparr>)))))))))"

text \<open>The session ends with its close: what is left is the socket layer.\<close>

definition webclient_close :: "('n, 'a) sockets \<Rightarrow> 'n web \<Rightarrow> 'n cres" where
  "webclient_close W st = cbind (webclient_clean W st) (\<lambda>(_, st). Inr (link st))"

definition webclient_resp_status_get :: "'n web \<Rightarrow> int" where "webclient_resp_status_get st = resp_status st"
definition webclient_content_length_get :: "'n web \<Rightarrow> int" where "webclient_content_length_get st = content_length st"

text \<open>The redirection of a response, and starting again with its URL.\<close>

definition relocation :: "('n, 'a) sockets \<Rightarrow> int \<Rightarrow> (byte list \<Rightarrow> (int, 'n) wrun) \<Rightarrow> (int, 'n) wrun" where
  "relocation W status again =
     (if status > 0 then
        ebind (webclient_header_fields_get (lit ''Location'')) (\<lambda>location.
        if (status = 302 \<or> status = 301) \<and> location \<noteq> None then
          ebind (on_link (web_alloc W (length (the location) + 1))) (\<lambda>ok.
          if \<not> ok then eret (- WEBCLIENT_NOMEM)
          else
            ebind (webclient_clean W) (\<lambda>_.
            ebind (set_length 0) (\<lambda>_.
            ebind (eget header) (\<lambda>h.
            ebind (set_buffer (replicate (header_size h) 0)) (\<lambda>_.
            again (the location))))))
        else eret status)
      else eret status)"

primrec webclient_get :: "nat \<Rightarrow> ('n, 'a) sockets \<Rightarrow> byte list \<Rightarrow> (int, 'n) wrun" where
  "webclient_get 0 W URI = elift (Inl Diverges)"
| "webclient_get (Suc fuel) W URI =
     ebind (webclient_connect W URI) (\<lambda>rc.
     if rc \<noteq> WEBCLIENT_OK then eret rc
     else
       ebind (webclient_send_header (Suc fuel) W WEBCLIENT_GET) (\<lambda>rc.
       if rc \<noteq> WEBCLIENT_OK then eret rc
       else
         ebind (webclient_handle_response W) (\<lambda>status.
         relocation W status (webclient_get fuel W))))"

definition RANGE_LINE :: "byte list" where "RANGE_LINE = lit ''Range: bytes=%d-'' @ [13, 10]"

primrec webclient_get_position :: "nat \<Rightarrow> ('n, 'a) sockets \<Rightarrow> byte list \<Rightarrow> int \<Rightarrow> (int, 'n) wrun" where
  "webclient_get_position 0 W URI position = elift (Inl Diverges)"
| "webclient_get_position (Suc fuel) W URI position =
     ebind (webclient_connect W URI) (\<lambda>rc.
     if rc \<noteq> WEBCLIENT_OK then eret rc
     else
       ebind (webclient_header_fields_add W RANGE_LINE [A_Int (word_of_int position)]) (\<lambda>r.
       if r \<le> 0 then eret (- WEBCLIENT_ERROR)
       else
         ebind (webclient_send_header (Suc fuel) W WEBCLIENT_GET) (\<lambda>rc.
         if rc \<noteq> WEBCLIENT_OK then eret rc
         else
           ebind (webclient_handle_response W) (\<lambda>status.
           relocation W status (\<lambda>url. webclient_get_position fuel W url position)))))"

definition webclient_post :: "nat \<Rightarrow> ('n, 'a) sockets \<Rightarrow> byte list \<Rightarrow> byte list option \<Rightarrow> (int, 'n) wrun" where
  "webclient_post fuel W URI post_data =
     ebind (webclient_connect W URI) (\<lambda>rc.
     if rc \<noteq> WEBCLIENT_OK then eret rc
     else
       ebind (webclient_send_header fuel W WEBCLIENT_POST) (\<lambda>rc.
       if rc \<noteq> WEBCLIENT_OK then eret rc
       else
         case post_data of
           None \<Rightarrow> eret 0
         | Some d \<Rightarrow> ebind (webclient_write fuel W d) (\<lambda>_. webclient_handle_response W)))"

text \<open>The timeout of a session, in whole seconds; the ticks of the kernel are unsigned, so a negative time is a long one.\<close>

definition rt_tick_from_millisecond :: "int \<Rightarrow> int" where
  "rt_tick_from_millisecond ms = (if ms < 0 then 2 ^ 32 - 1 else 1000 * (ms div 1000) + (1000 * (ms mod 1000) + 999) div 1000)"

definition webclient_set_timeout :: "('n, 'a) sockets \<Rightarrow> int \<Rightarrow> (int, 'n) wrun" where
  "webclient_set_timeout W millisecond =
     ebind (eget sock) (\<lambda>s.
     ebind (emod (\<lambda>st. st\<lparr>link := setsockopt_timeo W s (rt_tick_from_millisecond millisecond div 1000) (link st)\<rparr>)) (\<lambda>_.
     eret 0))"

section \<open>Reading the body\<close>

definition webclient_next_chunk :: "('n, 'a) sockets \<Rightarrow> (int, 'n) wrun" where
  "webclient_next_chunk W =
     ebind (webclient_read_line W (replicate 64 0) 64) (\<lambda>(len, line).
     if len \<le> 0 then ebind (closesocket W) (\<lambda>_. eret len)
     else
       ebind (if rt_strcmp (cstr line) [13] = 0 then webclient_read_line W line 64 else eret (len, line)) (\<lambda>(len, line).
       if len \<le> 0 then ebind (closesocket W) (\<lambda>_. eret len)
       else
         ebind (elift (strtol 16 line)) (\<lambda>n.
         ebind (emod (\<lambda>st. st\<lparr>chunk_sz := n, chunk_offset := 0\<rparr>)) (\<lambda>_.
         ebind (if n = 0 then ebind (closesocket W) (\<lambda>_. emod (\<lambda>st. st\<lparr>chunk_sz := -1\<rparr>)) else eret ()) (\<lambda>_.
         eget chunk_sz)))))"

text \<open>What both kinds of reading do when nothing comes.\<close>

definition nothing_read :: "('n, 'a) sockets \<Rightarrow> (int, 'n) wrun" where
  "nothing_read W =
     ebind (eget (\<lambda>st. would_block W (link st))) (\<lambda>again.
     if again then eret (- WEBCLIENT_TIMEOUT) else ebind (closesocket W) (\<lambda>_. eret 0))"

text \<open>The bytes are stored at a position of the buffer.\<close>

definition store_at :: "nat \<Rightarrow> byte list \<Rightarrow> byte list \<Rightarrow> byte list cres" where
  "store_at pos bs buf = (if pos + length bs \<le> length buf then Inr (overlay pos bs buf) else Inl Out_Of_Bounds)"

text \<open>Every round but the last stores a byte or more. The first component says whether the result is returned at once.\<close>

primrec read_loop :: "nat \<Rightarrow> ('n, 'a) sockets \<Rightarrow> nat \<Rightarrow> nat \<Rightarrow> byte list \<Rightarrow> (bool \<times> int \<times> byte list, 'n) wrun" where
  "read_loop 0 W left total_read buffer = elift (Inl Diverges)"
| "read_loop (Suc fuel) W left total_read buffer =
     ebind (webclient_recv W left) (\<lambda>(bytes_read, bs).
     if bytes_read \<le> 0 then
       (if total_read > 0 then eret (False, int total_read, buffer)
        else ebind (nothing_read W) (\<lambda>rc. eret (True, rc, buffer)))
     else
       ebind (elift (store_at total_read bs buffer)) (\<lambda>buffer.
       if left - length bs \<noteq> 0 then read_loop fuel W (left - length bs) (total_read + length bs) buffer
       else eret (False, int (total_read + length bs), buffer)))"

definition read_chunk :: "('n, 'a) sockets \<Rightarrow> nat \<Rightarrow> byte list \<Rightarrow> (int \<times> byte list, 'n) wrun" where
  "read_chunk W len buffer =
     ebind (eget (\<lambda>st. chunk_sz st - chunk_offset st)) (\<lambda>rest.
     ebind (webclient_recv W (if int len > rest then nat rest else len)) (\<lambda>(bytes_read, bs).
     if bytes_read \<le> 0 then ebind (nothing_read W) (\<lambda>rc. eret (rc, buffer))
     else
       ebind (elift (store_at 0 bs buffer)) (\<lambda>buffer.
       ebind (emod (\<lambda>st. st\<lparr>chunk_offset := chunk_offset st + bytes_read\<rparr>)) (\<lambda>_.
       ebind (eget (\<lambda>st. chunk_offset st \<ge> chunk_sz st)) (\<lambda>done_with.
       ebind (if done_with then ebind (webclient_next_chunk W) (\<lambda>_. eret ()) else eret ()) (\<lambda>_.
       eret (bytes_read, buffer)))))))"

definition read_plain :: "('n, 'a) sockets \<Rightarrow> nat \<Rightarrow> byte list \<Rightarrow> (int \<times> byte list, 'n) wrun" where
  "read_plain W len buffer =
     ebind (read_loop (Suc len) W len 0 buffer) (\<lambda>(at_once, total_read, buffer).
     if at_once then eret (total_read, buffer)
     else
       ebind (emod (\<lambda>st. if content_length st > 0
           then st\<lparr>content_remainder := nat ((int (content_remainder st) - total_read) mod 2 ^ 32)\<rparr> else st)) (\<lambda>_.
       eret (total_read, buffer)))"

definition webclient_read :: "('n, 'a) sockets \<Rightarrow> byte list \<Rightarrow> nat \<Rightarrow> (int \<times> byte list, 'n) wrun" where
  "webclient_read W buffer len =
     ebind (eget (\<lambda>st. st)) (\<lambda>st.
     if chunk_sz st < 0 then eret (0, buffer)
     else if sock st < 0 then eret (- WEBCLIENT_DISCONNECT, buffer)
     else if len = 0 then eret (0, buffer)
     else if chunk_sz st \<noteq> 0 then read_chunk W len buffer
     else
       (let len = (if content_length st > 0 \<and> len > content_remainder st then content_remainder st else len)
        in if content_length st > 0 \<and> len = 0 then eret (0, buffer) else read_plain W len buffer))"

section \<open>The whole response\<close>

text \<open>The block grows with the response; what \<open>rt_realloc\<close> adds to it is not initialised. Without a length there is no
  bound, so the loop takes fuel.\<close>

primrec response_chunks :: "nat \<Rightarrow> ('n, 'a) sockets \<Rightarrow> nat \<Rightarrow> byte list option \<Rightarrow> (nat \<times> byte list option, 'n) wrun" where
  "response_chunks 0 W total_read response_buf = elift (Inl Diverges)"
| "response_chunks (Suc fuel) W total_read response_buf =
     (let result_sz = total_read + WEBCLIENT_RESPONSE_BUFSZ
      in ebind (on_link (web_alloc W (result_sz + 1))) (\<lambda>ok.
         if \<not> ok then eret (total_read, response_buf)
         else
           (let old = (case response_buf of None \<Rightarrow> [] | Some b \<Rightarrow> b);
                buf = old @ map (stack_bytes W) [length old..<result_sz + 1]
            in ebind (webclient_read W (drop total_read buf) (result_sz - total_read)) (\<lambda>(len, part).
               if len \<le> 0 then eret (total_read, Some (take total_read buf @ part))
               else response_chunks fuel W (total_read + nat len) (Some (take total_read buf @ part))))))"

primrec response_length :: "nat \<Rightarrow> ('n, 'a) sockets \<Rightarrow> nat \<Rightarrow> nat \<Rightarrow> byte list \<Rightarrow> (nat \<times> byte list, 'n) wrun" where
  "response_length 0 W result_sz total_read buf = elift (Inl Diverges)"
| "response_length (Suc fuel) W result_sz total_read buf =
     (if total_read < result_sz then
        ebind (webclient_read W (drop total_read buf) (result_sz - total_read)) (\<lambda>(len, part).
        if len \<le> 0 then eret (total_read, take total_read buf @ part)
        else response_length fuel W result_sz (total_read + nat len) (take total_read buf @ part))
      else eret (total_read, buf))"

definition webclient_response :: "nat \<Rightarrow> ('n, 'a) sockets \<Rightarrow> (int \<times> byte list option, 'n) wrun" where
  "webclient_response fuel W =
     ebind (eget content_length) (\<lambda>n.
     ebind (if n < 0 then ebind (response_chunks fuel W 0 None) (\<lambda>r. eret (Some r))
            else
              ebind (on_link (web_alloc W (nat n + 1))) (\<lambda>ok.
              if \<not> ok then eret None
              else ebind (response_length (Suc (nat n)) W (nat n) 0 (replicate (nat n + 1) 0)) (\<lambda>(total_read, buf).
                   eret (Some (total_read, Some buf))))) (\<lambda>r.
     case r of
       None \<Rightarrow> eret (- WEBCLIENT_NOMEM, None)
     | Some (total_read, None) \<Rightarrow> eret (int total_read, None)
     | Some (total_read, Some buf) \<Rightarrow>
         if total_read = 0 then eret (0, None)
         else ebind (elift (buf_put total_read 0 buf)) (\<lambda>buf. eret (int total_read, Some buf))))"

text \<open>The fields of a header given by the user, line by line; the rest without an end of line is dropped.\<close>

function add_lines :: "('n, 'a) sockets \<Rightarrow> byte list \<Rightarrow> (unit, 'n) wrun" where
  "add_lines W header_str =
     (case rt_strstr header_str [13, 10] of
        Inl e \<Rightarrow> elift (Inl e)
      | Inr None \<Rightarrow> eret ()
      | Inr (Some header_ptr) \<Rightarrow>
          (let n = length header_str - length header_ptr + 2
           in ebind (webclient_header_fields_add W (lit ''%.*s'') [A_Int (word_of_nat n), A_Str (Some header_str)]) (\<lambda>_.
              if n \<le> length header_str then add_lines W (drop n header_str) else elift (Inl Out_Of_Bounds))))"
  by pat_completeness auto
termination by (relation "measure (\<lambda>(_, s). length s)") auto

declare add_lines.simps [simp del]

definition add_unless :: "('n, 'a) sockets \<Rightarrow> byte list \<Rightarrow> byte list \<Rightarrow> fmt_arg list \<Rightarrow> (unit, 'n) wrun" where
  "add_unless W name fmt args =
     ebind (eget (\<lambda>st. header_buffer (header st))) (\<lambda>buf.
     ebind (elift (str_in buf)) (\<lambda>s.
     ebind (elift (rt_strstr s name)) (\<lambda>hit.
     if hit = None then ebind (webclient_header_fields_add W fmt args) (\<lambda>_. eret ()) else eret ())))"

definition LENGTH_LINE :: "byte list" where "LENGTH_LINE = lit ''Content-Length: %d'' @ [13, 10]"
definition TYPE_LINE :: "byte list" where "TYPE_LINE = lit ''Content-Type: application/octet-stream'' @ [13, 10]"

definition request_run ::
  "nat \<Rightarrow> ('n, 'a) sockets \<Rightarrow> byte list \<Rightarrow> byte list option \<Rightarrow> byte list option \<Rightarrow> bool \<Rightarrow> (int \<times> byte list option, 'n) wrun" where
  "request_run fuel W URI hdr post_data want =
     ebind (case hdr of None \<Rightarrow> eret () | Some h \<Rightarrow> add_lines W h) (\<lambda>_.
     ebind (case post_data of
              None \<Rightarrow> webclient_get fuel W URI
            | Some d \<Rightarrow>
                ebind (add_unless W (lit ''Content-Length'') LENGTH_LINE [A_Int (word_of_nat (length d))]) (\<lambda>_.
                ebind (add_unless W (lit ''Content-Type'') TYPE_LINE []) (\<lambda>_.
                webclient_post fuel W URI (Some d)))) (\<lambda>status.
     if status \<noteq> 200 then eret (- WEBCLIENT_ERROR, None)
     else
       ebind (eassert want) (\<lambda>_.
       ebind (webclient_response fuel W) (\<lambda>(totle_length, response).
       eret (if totle_length \<le> 0 then - WEBCLIENT_ERROR else totle_length, response)))))"

text \<open>\<open>want\<close> says whether there is a pointer for the response; the session is closed on every way out.\<close>

definition webclient_request ::
  "nat \<Rightarrow> ('n, 'a) sockets \<Rightarrow> byte list \<Rightarrow> byte list option \<Rightarrow> byte list option \<Rightarrow> bool \<Rightarrow> 'n \<Rightarrow> ((int \<times> byte list option) \<times> 'n) cres" where
  "webclient_request fuel W URI hdr post_data want n =
     (if post_data = None \<and> \<not> want then Inr ((- WEBCLIENT_ERROR, None), n)
      else
        (case webclient_session_create W WEBCLIENT_HEADER_BUFSZ n of
           (None, n) \<Rightarrow> Inr ((- WEBCLIENT_NOMEM, None), n)
         | (Some session, _) \<Rightarrow>
             cbind (request_run fuel W URI hdr post_data want session) (\<lambda>(r, session).
             cbind (webclient_close W session) (\<lambda>n. Inr (r, n)))))"

text \<open>A header of \<open>WEBCLIENT_HEADER_BUFSZ\<close> bytes on the heap, to which fields are added.\<close>

definition webclient_request_header_add ::
  "('n, 'a) sockets \<Rightarrow> nat \<Rightarrow> byte list option \<Rightarrow> byte list \<Rightarrow> fmt_arg list \<Rightarrow> 'n \<Rightarrow> ((int \<times> byte list option) \<times> 'n) cres" where
  "webclient_request_header_add W addr request_header fmt args n =
     (let (ok, n) = (if request_header = None then web_alloc W WEBCLIENT_HEADER_BUFSZ n else (True, n));
          hdr = (case request_header of Some h \<Rightarrow> h | None \<Rightarrow> replicate WEBCLIENT_HEADER_BUFSZ 0)
      in if \<not> ok then Inr ((0, None), n)
         else
           cbind (str_in hdr) (\<lambda>s.
           cbind (rt_vsnprintf (addr + length s) (drop (length s) hdr) (WEBCLIENT_HEADER_BUFSZ - length s) fmt args) (\<lambda>(len, rest).
           let hdr = take (length s) hdr @ rest
           in cbind (str_in hdr) (\<lambda>s.
              Inr ((if length s \<ge> WEBCLIENT_HEADER_BUFSZ then - WEBCLIENT_ERROR else int len, Some hdr), n)))))"

end
