(* ===== verification/Webclient_Stream.thy ===== *)
theory Webclient_Stream
  imports Webclient
begin

text \<open>
  The client over a connection that works: the bytes of the server arrive in order, in pieces of any size, and what is
  sent goes out in order. A line, the lines of a header, and the bytes of a body are read from it.
\<close>

section \<open>A connection\<close>

text \<open>\<open>inbox\<close> is what has not been received yet, \<open>outbox\<close> what has been sent. At the end of the stream \<open>recv\<close> gives 0.\<close>

locale stream =
  fixes W :: "('n, 'a) sockets" and inbox :: "'n \<Rightarrow> byte list" and outbox :: "'n \<Rightarrow> byte list"
  assumes recv_law: "inbox n \<noteq> [] \<Longrightarrow> 0 < k \<Longrightarrow>
      \<exists>j n'. 0 < j \<and> j \<le> k \<and> j \<le> length (inbox n) \<and> socket_recv W s k n = (Got (take j (inbox n)), n') \<and>
        inbox n' = drop j (inbox n) \<and> outbox n' = outbox n"
    and end_law: "inbox n = [] \<Longrightarrow> \<exists>n'. socket_recv W s k n = (Failed 0, n') \<and> \<not> would_block W n' \<and> inbox n' = [] \<and> outbox n' = outbox n"
    and send_law: "bs \<noteq> [] \<Longrightarrow>
      \<exists>j n'. 0 < j \<and> j \<le> length bs \<and> socket_send W s bs n = (int j, n') \<and> inbox n' = inbox n \<and> outbox n' = outbox n @ take j bs"
    and alloc_law: "\<exists>n'. web_alloc W k n = (True, n') \<and> inbox n' = inbox n \<and> outbox n' = outbox n"
begin

lemma wp_alloc:
  assumes "\<And>n. inbox n = inbox (link st) \<Longrightarrow> outbox n = outbox (link st) \<Longrightarrow> P True (st\<lparr>link := n\<rparr>)"
  shows "wp F (on_link (web_alloc W k)) P st"
  using alloc_law[of k "link st"] assms by (auto simp: wp_def on_link_def)

lemma wp_recv:
  assumes "inbox (link st) \<noteq> []" "0 < k"
    and "\<And>j n. 0 < j \<Longrightarrow> j \<le> k \<Longrightarrow> j \<le> length (inbox (link st)) \<Longrightarrow> inbox n = drop j (inbox (link st)) \<Longrightarrow>
      outbox n = outbox (link st) \<Longrightarrow> P (int j, take j (inbox (link st))) (st\<lparr>link := n\<rparr>)"
  shows "wp F (webclient_recv W k) P st"
proof -
  obtain j n where "0 < j" "j \<le> k" "j \<le> length (inbox (link st))" "socket_recv W (sock st) k (link st) = (Got (take j (inbox (link st))), n)"
    "inbox n = drop j (inbox (link st))" "outbox n = outbox (link st)"
    using recv_law[OF assms(1,2), of "sock st"] by blast
  then show ?thesis using assms(3)[of j n] by (simp add: webclient_recv_def on_link_def wp_def ebind_def eget_def elift_def)
qed

lemma wp_recv_end:
  assumes "inbox (link st) = []"
    and "\<And>n. inbox n = [] \<Longrightarrow> outbox n = outbox (link st) \<Longrightarrow> \<not> would_block W n \<Longrightarrow> P (0, []) (st\<lparr>link := n\<rparr>)"
  shows "wp F (webclient_recv W k) P st"
proof -
  obtain n where "socket_recv W (sock st) k (link st) = (Failed 0, n)" "\<not> would_block W n" "inbox n = []" "outbox n = outbox (link st)"
    using end_law[OF assms(1), of "sock st" k] by blast
  then show ?thesis using assms(2) by (simp add: webclient_recv_def on_link_def wp_def ebind_def eget_def eret_def)
qed

text \<open>One byte.\<close>

lemma wp_recv_one:
  assumes i: "inbox (link st) = b # i"
    and P: "\<And>n. inbox n = i \<Longrightarrow> outbox n = outbox (link st) \<Longrightarrow> P (1, [b]) (st\<lparr>link := n\<rparr>)"
  shows "wp F (webclient_recv W 1) P st"
proof (rule wp_recv)
  fix j n assume j: "0 < j" "j \<le> 1" and n: "inbox n = drop j (inbox (link st))" "outbox n = outbox (link st)"
  from j have "j = 1" by simp
  then show "P (int j, take j (inbox (link st))) (st\<lparr>link := n\<rparr>)" using P[of n] n i by simp
qed (use i in simp_all)

section \<open>Lines\<close>

lemma wp_line_byte:
  assumes "inbox (link st) = b # i"
    and "\<And>n. inbox n = i \<Longrightarrow> outbox n = outbox (link st) \<Longrightarrow>
      if b = 10 \<and> last_ch = 13 then P (int count, buffer) (st\<lparr>link := n\<rparr>)
      else count < length buffer \<and> wp F (read_line_loop W k (Suc count) b (buffer[count := b])) P (st\<lparr>link := n\<rparr>)"
  shows "wp F (read_line_loop W (Suc k) count last_ch buffer) P st"
  unfolding read_line_loop.simps wp_ebind
proof (rule wp_recv_one[OF assms(1)])
  fix n assume "inbox n = i" "outbox n = outbox (link st)"
  from assms(2)[OF this] show "wp F (case (1, [b]) of (rc, bs) \<Rightarrow>
      if rc \<le> 0 then eret (rc, buffer)
      else if hd bs = 10 \<and> last_ch = 13 then eret (int count, buffer)
      else ebind (elift (buf_put count (hd bs) buffer)) (\<lambda>buffer. read_line_loop W k (Suc count) (hd bs) buffer))
      P (st\<lparr>link := n\<rparr>)"
    by (auto simp: buf_put_def wp_simps split: if_splits)
qed

text \<open>A line ends at its line feed; the carriage return in front of it stays in the buffer.\<close>

lemma wp_line_loop:
  assumes "inbox (link st) = l @ [13, 10] @ i" "10 \<notin> set l" "length l + 1 < k" "count + length l + 1 \<le> length buffer"
    and "\<And>n. inbox n = i \<Longrightarrow> outbox n = outbox (link st) \<Longrightarrow>
      P (int (count + length l + 1), overlay count (l @ [13]) buffer) (st\<lparr>link := n\<rparr>)"
  shows "wp F (read_line_loop W k count last_ch buffer) P st"
  using assms
proof (induction l arbitrary: st k count last_ch buffer)
  case Nil
  obtain k' where k: "k = Suc (Suc k')" using Nil(3) by (cases k; cases "k - 1") auto
  have o: "overlay count [13] buffer = buffer[count := 13]" using overlay_Cons[of count buffer "[]" 13] Nil(4) by simp
  show ?case unfolding k
  proof (rule wp_line_byte)
    show "inbox (link st) = 13 # 10 # i" using Nil(1) by simp
    fix n assume n: "inbox n = 10 # i" "outbox n = outbox (link st)"
    have "wp F (read_line_loop W (Suc k') (Suc count) 13 (buffer[count := 13])) P (st\<lparr>link := n\<rparr>)"
      by (rule wp_line_byte) (use n Nil(5) o in auto)
    then show "if (13 :: byte) = 10 \<and> last_ch = 13 then P (int count, buffer) (st\<lparr>link := n\<rparr>)
      else count < length buffer \<and> wp F (read_line_loop W (Suc k') (Suc count) 13 (buffer[count := 13])) P (st\<lparr>link := n\<rparr>)"
      using Nil(4) by simp
  qed
next
  case (Cons b l)
  obtain k' where k: "k = Suc k'" using Cons(4) by (cases k) auto
  show ?case unfolding k
  proof (rule wp_line_byte)
    show "inbox (link st) = b # l @ [13, 10] @ i" using Cons(2) by simp
    fix n assume n: "inbox n = l @ [13, 10] @ i" "outbox n = outbox (link st)"
    have "wp F (read_line_loop W k' (Suc count) b (buffer[count := b])) P (st\<lparr>link := n\<rparr>)"
    proof (rule Cons.IH)
      fix n' assume "inbox n' = i" "outbox n' = outbox (link (st\<lparr>link := n\<rparr>))"
      then show "P (int (Suc count + length l + 1), overlay (Suc count) (l @ [13]) (buffer[count := b])) (st\<lparr>link := n, link := n'\<rparr>)"
        using Cons(6)[of n'] n Cons(5) by (simp add: overlay_Cons)
    qed (use Cons n k in auto)
    then show "if b = 10 \<and> last_ch = 13 then P (int count, buffer) (st\<lparr>link := n\<rparr>)
      else count < length buffer \<and> wp F (read_line_loop W k' (Suc count) b (buffer[count := b])) P (st\<lparr>link := n\<rparr>)"
      using Cons(3,5) by simp
  qed
qed

lemma wp_read_line:
  assumes "inbox (link st) = l @ [13, 10] @ i" "10 \<notin> set l" "int (length l) + 1 < k" "length l + 1 \<le> length buffer"
    and "\<And>n. inbox n = i \<Longrightarrow> outbox n = outbox (link st) \<Longrightarrow>
      P (int (length l) + 1, overlay 0 (l @ [13]) buffer) (st\<lparr>link := n\<rparr>)"
  shows "wp F (webclient_read_line W buffer k) P st"
  unfolding webclient_read_line_def
  by (rule wp_line_loop[of st l i]) (use assms in \<open>auto simp: add.commute\<close>)

section \<open>Sending\<close>

lemma wp_write_loop:
  assumes "k \<le> fuel" "done_n + k = length buffer" "0 < k"
    and "\<And>n. inbox n = inbox (link st) \<Longrightarrow> outbox n = outbox (link st) @ drop done_n buffer \<Longrightarrow> P (int (length buffer)) (st\<lparr>link := n\<rparr>)"
  shows "wp F (write_loop fuel W buffer (int done_n) (int k)) P st"
  using assms
proof (induction fuel arbitrary: st done_n k)
  case (Suc fuel)
  define bs where "bs = take k (drop done_n buffer)"
  have bs: "bs \<noteq> []" "length bs = k" "bs = drop done_n buffer" using Suc.prems by (auto simp: bs_def)
  obtain j n where j: "0 < j" "j \<le> k" "socket_send W (sock st) bs (link st) = (int j, n)" and n: "inbox n = inbox (link st)"
    "outbox n = outbox (link st) @ take j bs"
    using send_law[OF bs(1), of "sock st" "link st"] bs(2) by auto
  have s: "wp F (webclient_send W bs) Q st = Q (int j) (st\<lparr>link := n\<rparr>)" for Q
    using j(3) by (simp add: webclient_send_def on_link_def wp_def ebind_def eget_def)
  show ?case
  proof (cases "j = k")
    case True
    then have "P (int (length buffer)) (st\<lparr>link := n\<rparr>)" using Suc.prems(4)[of n] n bs by simp
    moreover have "int (length buffer) = int done_n + int k" using Suc.prems(2) by simp
    ultimately show ?thesis using j(1) True by (simp add: wp_simps s flip: bs_def)
  next
    case False
    have d: "take j bs @ drop (done_n + j) buffer = drop done_n buffer"
      using append_take_drop_id[of j "drop done_n buffer"] by (simp add: bs(3) add.commute)
    have "wp F (write_loop fuel W buffer (int (done_n + j)) (int (k - j))) P (st\<lparr>link := n\<rparr>)"
    proof (rule Suc.IH)
      fix n' assume "inbox n' = inbox (link (st\<lparr>link := n\<rparr>))" "outbox n' = outbox (link (st\<lparr>link := n\<rparr>)) @ drop (done_n + j) buffer"
      then show "P (int (length buffer)) (st\<lparr>link := n, link := n'\<rparr>)" using Suc.prems(4)[of n'] n d by simp
    qed (use Suc.prems j False in auto)
    then show ?thesis using j(1,2) False by (simp add: wp_simps s of_nat_diff flip: bs_def)
  qed
qed simp

lemma wp_write:
  assumes "0 \<le> sock st" "length buffer \<le> fuel"
    and "\<And>n. inbox n = inbox (link st) \<Longrightarrow> outbox n = outbox (link st) @ buffer \<Longrightarrow> P (int (length buffer)) (st\<lparr>link := n\<rparr>)"
  shows "wp F (webclient_write fuel W buffer) P st"
proof (cases "buffer = []")
  case True
  then show ?thesis using assms(1) assms(3)[of "link st"] by (simp add: webclient_write_def wp_simps)
next
  case False
  have "wp F (write_loop fuel W buffer (int 0) (int (length buffer))) P st"
    by (rule wp_write_loop) (use assms False in auto)
  then show ?thesis using assms(1) False by (simp add: webclient_write_def wp_simps)
qed

section \<open>Reading a number of bytes\<close>

text \<open>However small the pieces are, the loop goes on until the number of bytes is reached.\<close>

lemma wp_read_loop:
  assumes "0 < left" "left \<le> fuel" "left \<le> length (inbox (link st))" "done_n + left \<le> length buffer"
    and "\<And>n. inbox n = drop left (inbox (link st)) \<Longrightarrow> outbox n = outbox (link st) \<Longrightarrow>
      P (False, int (done_n + left), overlay done_n (take left (inbox (link st))) buffer) (st\<lparr>link := n\<rparr>)"
  shows "wp F (read_loop fuel W left done_n buffer) P st"
  using assms
proof (induction fuel arbitrary: st left done_n buffer)
  case (Suc fuel)
  define i where "i = inbox (link st)"
  show ?case unfolding read_loop.simps wp_ebind
  proof (rule wp_recv)
    show "inbox (link st) \<noteq> []" using Suc.prems by auto
    fix j n assume j: "0 < j" "j \<le> left" "j \<le> length (inbox (link st))" and n: "inbox n = drop j (inbox (link st))" "outbox n = outbox (link st)"
    have st: "store_at done_n (take j i) buffer = Inr (overlay done_n (take j i) buffer)"
      using Suc.prems j by (simp add: store_at_def)
    have t: "min (length i) j = j" using j by (simp add: i_def)
    have w: "wp F (if left - j \<noteq> 0 then read_loop fuel W (left - j) (done_n + j) (overlay done_n (take j i) buffer)
        else eret (False, int (done_n + j), overlay done_n (take j i) buffer)) P (st\<lparr>link := n\<rparr>)"
    proof (cases "j = left")
      case True
      then show ?thesis using Suc.prems(5)[of n] n by (simp add: wp_simps i_def)
    next
      case False
      have o: "overlay (done_n + j) (take (left - j) (drop j i)) (overlay done_n (take j i) buffer) = overlay done_n (take left i) buffer"
        using overlay_append[of done_n "take j i" "take (left - j) (drop j i)" buffer] j t
        by (simp add: take_add[symmetric])
      have "wp F (read_loop fuel W (left - j) (done_n + j) (overlay done_n (take j i) buffer)) P (st\<lparr>link := n\<rparr>)"
      proof (rule Suc.IH)
        fix n' assume "inbox n' = drop (left - j) (inbox (link (st\<lparr>link := n\<rparr>)))" "outbox n' = outbox (link (st\<lparr>link := n\<rparr>))"
        then show "P (False, int (done_n + j + (left - j)), overlay (done_n + j) (take (left - j) (inbox (link (st\<lparr>link := n\<rparr>)))) (overlay done_n (take j i) buffer))
            (st\<lparr>link := n, link := n'\<rparr>)"
          using Suc.prems(5)[of n'] n o j(2) by (simp add: i_def)
      qed (use Suc.prems j n False in auto)
      then show ?thesis using False j(2) by simp
    qed
    show "wp F (case (int j, take j (inbox (link st))) of (bytes_read, bs) \<Rightarrow>
        if bytes_read \<le> 0 then
          (if done_n > 0 then eret (False, int done_n, buffer) else ebind (nothing_read W) (\<lambda>rc. eret (True, rc, buffer)))
        else
          ebind (elift (store_at done_n bs buffer)) (\<lambda>buffer.
          if left - length bs \<noteq> 0 then read_loop fuel W (left - length bs) (done_n + length bs) buffer
          else eret (False, int (done_n + length bs), buffer))) P (st\<lparr>link := n\<rparr>)"
      using w j(1) st t by (cases "left \<le> j") (simp_all add: wp_simps flip: i_def)
  qed (use Suc.prems in simp)
qed simp

end

end
