(* ===== verification/Webclient_Text.thy ===== *)
theory Webclient_Text
  imports Webclient
begin

text \<open>
  What the client reads out of texts: numbers, the fields of a header, the status, the parts of a URL.
\<close>

section \<open>Numbers\<close>

definition number :: "int \<Rightarrow> byte list \<Rightarrow> int" where
  "number base ds = fold (\<lambda>b a. a * base + digit_value b) ds 0"

definition digits :: "int \<Rightarrow> byte list \<Rightarrow> bool" where
  "digits base ds \<longleftrightarrow> ds \<noteq> [] \<and> (\<forall>b\<in>set ds. digit_value b < base) \<and> number base ds < 2 ^ 31"

lemma digit_value_ge: "0 \<le> digit_value b"
  by (simp add: digit_value_def word_le_def)

lemma strtol_digits_eq:
  "\<forall>b\<in>set ds. digit_value b < base \<Longrightarrow> base \<le> digit_value c \<Longrightarrow>
   strtol_digits base (ds @ c # t) acc = Inr (fold (\<lambda>b a. a * base + digit_value b) ds acc)"
  by (induction ds arbitrary: acc) auto

lemma number_ge: "0 \<le> base \<Longrightarrow> 0 \<le> number base ds"
proof -
  assume "0 \<le> base"
  then have "0 \<le> acc \<Longrightarrow> 0 \<le> fold (\<lambda>b a. a * base + digit_value b) ds acc" for acc
    by (induction ds arbitrary: acc) (auto simp: digit_value_ge)
  then show ?thesis by (simp add: number_def)
qed

lemma skip_prefix_digits:
  "ds \<noteq> [] \<Longrightarrow> \<forall>b\<in>set ds. digit_value b < base \<Longrightarrow> base \<le> 16 \<Longrightarrow> c \<noteq> 120 \<Longrightarrow> c \<noteq> 88 \<Longrightarrow> skip_prefix base (ds @ c # t) = ds @ c # t"
proof (cases ds)
  case (Cons a e)
  assume a: "\<forall>b\<in>set ds. digit_value b < base" "base \<le> 16" "c \<noteq> 120" "c \<noteq> 88"
  have x: "digit_value 120 = 33" "digit_value 88 = 33" by (simp_all add: digit_value_def)
  obtain b u where u: "e @ c # t = b # u" by (cases e) auto
  have "b = c \<or> b \<in> set e" using u by (cases e) auto
  then have "b \<noteq> 120 \<and> b \<noteq> 88" using a x Cons by auto
  then show ?thesis using u Cons by (cases u) (auto simp: skip_prefix_def)
qed simp

lemma strtol_number:
  assumes "digits base ds" "base \<le> digit_value c" "0 \<le> base" "base \<le> 16" "c \<noteq> 120" "c \<noteq> 88"
  shows "strtol base (ds @ c # t) = Inr (number base ds)"
proof -
  obtain a e where ds: "ds = a # e" using assms(1) by (cases ds) (auto simp: digits_def)
  have ne: "ds \<noteq> []" and lt: "\<forall>b\<in>set ds. digit_value b < base" using assms(1) by (simp_all add: digits_def)
  then have a: "digit_value a < 36" using assms(4) ds by auto
  then have "(48 \<le> a \<and> a \<le> 57) \<or> (65 \<le> a \<and> a \<le> 90) \<or> (97 \<le> a \<and> a \<le> 122)" by (simp add: digit_value_def split: if_splits)
  then have "\<not> is_space a" "a \<noteq> 45" "a \<noteq> 43" by (auto simp: is_space_def word_le_nat_alt)
  moreover have "strtol_value base (ds @ c # t) = Inr (number base ds)"
    unfolding strtol_value_def skip_prefix_digits[OF ne lt assms(4,5,6)] using strtol_digits_eq[OF lt assms(2)] by (simp add: number_def)
  moreover have "clamp_long (number base ds) = number base ds"
    using assms(1) number_ge[OF assms(3), of ds] by (simp add: clamp_long_def digits_def)
  ultimately show ?thesis by (simp add: strtol_def ds)
qed

section \<open>Fields\<close>

text \<open>The strings of a buffer, each with its terminator, and what the look-up gives: the text behind the colon of the
  first string in which the name occurs, wherever it does.\<close>

definition strings_in :: "byte list list \<Rightarrow> byte list" where "strings_in ls = concat (map (\<lambda>l. l @ [0]) ls)"

definition mentions :: "byte list \<Rightarrow> byte list \<Rightarrow> bool" where
  "mentions name l \<longleftrightarrow> webclient_strstri l name \<noteq> None \<and> 58 \<in> set l"

definition field :: "byte list \<Rightarrow> byte list list \<Rightarrow> byte list option" where
  "field name ls = map_option (\<lambda>l. dropWhile is_blank (tl (dropWhile (\<lambda>b. b \<noteq> 58) l))) (find (mentions name) ls)"

lemma strings_in_simps [simp]: "strings_in [] = []" "strings_in (l # ls) = l @ 0 # strings_in ls"
  by (simp_all add: strings_in_def)

lemma str_in_append: "0 \<notin> set s \<Longrightarrow> str_in (s @ 0 # t) = Inr s"
  by (simp add: str_in_def)

lemma rt_strstr_char: "rt_strstr s [c] = Inr (if c \<in> set s then Some (dropWhile (\<lambda>b. b \<noteq> c) s) else None)"
proof -
  have "strstr_loop s [c] = Inr (if c \<in> set s then Some (dropWhile (\<lambda>b. b \<noteq> c) s) else None)"
  proof (induction s)
    case (Cons a s)
    have "strstr_loop (a # s) [c] = (if a = c then Inr (Some (a # s)) else strstr_loop s [c])"
      by (subst strstr_loop.simps) (simp add: numeral_eq_Suc Let_def word_uint_eq_iff)
    then show ?case using Cons by auto
  qed (simp add: strstr_loop.simps)
  then show ?thesis by (simp add: rt_strstr_def)
qed

lemma rt_strstr_prefix: "rt_strstr (p @ s) p = Inr (Some (p @ s))"
proof (cases "p = []")
  case False
  then obtain r where "rt_memcmp (p @ s) p (length p) = Inr r" "r = 0 \<longleftrightarrow> take (length p) (p @ s) = take (length p) p"
    using rt_memcmp_eq[of "length p" "p @ s" p] by auto
  then show ?thesis using False by (subst rt_strstr_def, subst strstr_loop.simps) simp
qed (simp add: rt_strstr_def)

lemma fields_loop_packed:
  assumes "\<forall>l\<in>set ls. l \<noteq> [] \<and> 0 \<notin> set l" "len + length (strings_in (tl ls)) < n" "ls \<noteq> []"
  shows "fields_loop (strings_in ls @ 0 # z) len name n = Inr (field name ls)"
  using assms
proof (induction ls arbitrary: len)
  case (Cons l ls)
  have l: "l \<noteq> []" "str_in (l @ 0 # t) = Inr l" for t using Cons.prems by (auto intro: str_in_append)
  have after: "fields_loop (strings_in ls @ 0 # z) (len + length (cstr (strings_in ls @ 0 # z)) + 1) name n = Inr (field name ls)"
  proof (cases ls)
    case Nil
    have "webclient_strstri [] name = None" by (simp add: webclient_strstri_def)
    then show ?thesis using Nil by (subst fields_loop.simps) (simp add: str_in_def cstr_def field_def)
  next
    case c: (Cons m ms)
    then have m: "cstr (strings_in ls @ 0 # z) = m" "m \<noteq> []" using Cons.prems by simp_all
    show ?thesis using Cons.IH[of "len + length m + 1"] Cons.prems c m by simp
  qed
  have s: "str_in (strings_in ls @ 0 # z) = Inr (cstr (strings_in ls @ 0 # z))" by (simp add: str_in_def)
  show ?case
  proof (cases "mentions name l")
    case True
    then show ?thesis using l Cons.prems
      by (subst fields_loop.simps) (simp add: rt_strstr_char mentions_def field_def)
  next
    case False
    then have "cbind (if webclient_strstri l name \<noteq> None then rt_strstr l [58] else Inr None)
        (\<lambda>m. case m of Some m \<Rightarrow> Inr (Some (dropWhile is_blank (tl m))) | None \<Rightarrow> f) = f" for f
      by (auto simp: rt_strstr_char mentions_def)
    then show ?thesis using l Cons.prems after s False
      by (subst fields_loop.simps) (simp add: field_def Let_def)
  qed
qed simp

lemma digits_no_blank: "digits 10 ds \<Longrightarrow> b \<in> set ds \<Longrightarrow> \<not> is_blank b"
proof -
  assume "digits 10 ds" "b \<in> set ds"
  then have "digit_value b < 10" by (simp add: digits_def)
  moreover have "digit_value 32 = 36" "digit_value 9 = 36" by (simp_all add: digit_value_def)
  ultimately show ?thesis by (auto simp: is_blank_def)
qed

lemma skip_blanks_digits: "digits 10 ds \<Longrightarrow> skip_blanks (32 # ds @ t) = Inr (ds @ t)"
  using digits_no_blank[of ds "hd ds"] by (cases ds) (simp_all add: digits_def is_blank_def)

lemma until_blank_nonblank: "\<forall>b\<in>set ds. \<not> is_blank b \<Longrightarrow> until_blank (ds @ t) = cbind (until_blank t) (\<lambda>u. Inr (ds @ u))"
  by (induction ds) (auto simp: cbind_assoc)

text \<open>The number of a status line that has a reason behind it.\<close>

lemma status_code_line:
  assumes "digits 10 ds" "v \<noteq> 0"
  shows "status_code (lit ''HTTP/1.'' @ v # 32 # ds @ 32 # reason) = Inr (Some (number 10 ds))"
proof -
  have d: "drop 8 ((lit ''HTTP/1.'' @ v # 32 # ds @ 32 # reason) @ [0]) = 32 # ds @ 32 # reason @ [0]" by (simp add: lit_def)
  have until: "until_blank (ds @ 32 # t) = Inr ds" for t
    using until_blank_nonblank[of ds "32 # t"] digits_no_blank[OF assms(1)] by (simp add: is_blank_def)
  have "strtol 10 (ds @ 0 # []) = Inr (number 10 ds)"
    by (rule strtol_number[OF assms(1)]) (simp_all add: digit_value_def)
  then show ?thesis
    unfolding status_code_def rt_strstr_prefix d cbind_Inr skip_blanks_digits[OF assms(1)] until by simp
qed

text \<open>Without a blank behind the number the search leaves the string.\<close>

lemma status_code_unterminated:
  assumes "digits 10 ds" "v \<noteq> 0"
  shows "status_code (lit ''HTTP/1.'' @ v # 32 # ds) = Inl Out_Of_Bounds"
proof -
  have d: "drop 8 ((lit ''HTTP/1.'' @ v # 32 # ds) @ [0]) = 32 # ds @ [0]" by (simp add: lit_def)
  have "until_blank (ds @ [0]) = Inl Out_Of_Bounds"
    using until_blank_nonblank[of ds "[0]"] digits_no_blank[OF assms(1)] by (simp add: is_blank_def)
  then show ?thesis
    unfolding status_code_def rt_strstr_prefix d cbind_Inr skip_blanks_digits[OF assms(1)] by simp
qed

section \<open>URLs\<close>

text \<open>A URL without a port: the host up to the first slash, and the rest.\<close>

lemma url_parts_plain:
  assumes "hn \<noteq> []" "47 \<notin> set hn" "58 \<notin> set hn" "58 \<notin> set path" "hd hn \<noteq> 91"
  shows "url_parts (lit ''http://'' @ hn @ 47 # path) = Inr (Some (hn, lit ''80'', 47 # path))"
proof -
  have p: "strip_protocol (lit ''http://'' @ hn @ 47 # path) = Inr (Some (hn @ 47 # path, lit ''80'' @ [0, 0, 0, 0]))"
    by (simp add: strip_protocol_def lit_def)
  have w: "dropWhile (\<lambda>b. b \<noteq> 47) (hn @ 47 # path) = 47 # path" using assms(2) by (subst dropWhile_append2) auto
  have t: "take 1 (hn @ 47 # path) \<noteq> [91]" using assms(1,5) by (cases hn) auto
  have c: "cstr (lit ''80'' @ [0, 0, 0, 0]) = lit ''80''" by (simp add: lit_def cstr_def)
  have r: "rt_strstr (hn @ 47 # path) [47] = Inr (Some (47 # path))" "rt_strstr (hn @ 47 # path) [58] = Inr None"
    using assms(3,4) w by (simp_all add: rt_strstr_char)
  show ?thesis using t assms(1) unfolding url_parts_def p
    by (simp add: r url_port_def c Let_def)
qed

end
