(* ===== verification/Webclient_Reply.thy ===== *)
theory Webclient_Reply
  imports Webclient_Stream Webclient_Text
begin

text \<open>
  A reply of the server: its header as the lines of the buffer, and the two ways its body is delivered, with a length
  or in chunks.
\<close>

section \<open>The header\<close>

definition on_wire :: "byte list list \<Rightarrow> byte list" where
  "on_wire ls = concat (map (\<lambda>l. l @ [13, 10]) ls) @ [13, 10]"

definition header_ok :: "byte list list \<Rightarrow> bool" where
  "header_ok ls \<longleftrightarrow> (\<forall>l\<in>set ls. l \<noteq> [] \<and> 0 \<notin> set l \<and> 10 \<notin> set l)"

lemma on_wire_simps: "on_wire [] = [] @ [13, 10] @ []" "on_wire (l # ls) = l @ [13, 10] @ on_wire ls"
  by (simp_all add: on_wire_def)

lemma wp_set_buffer [wp_simps]: "wp F (set_buffer b) P st = P () (st\<lparr>header := (header st)\<lparr>header_buffer := b\<rparr>\<rparr>)"
  by (simp add: set_buffer_def wp_simps)

lemma wp_set_length [wp_simps]: "wp F (set_length n) P st = P () (st\<lparr>header := (header st)\<lparr>header_length := n\<rparr>\<rparr>)"
  by (simp add: set_length_def wp_simps)

lemma overlay_line: "length l < k \<Longrightarrow> (overlay 0 (l @ [c]) (replicate k 0))[length l := 0] = l @ 0 # replicate (k - length l - 1) 0"
  by (rule nth_equalityI) (auto simp: overlay_nth nth_append nth_list_update nth_Cons')

context stream
begin

lemma wp_header_lines:
  assumes "inbox (link st) = on_wire ls @ i" "header_ok ls"
    and "header st = \<lparr>header_buffer = B @ replicate k 0, header_length = length B, header_size = length B + k\<rparr>"
    and "length (strings_in ls) + 1 < k" "length ls < fuel"
    and "\<And>n. inbox n = i \<Longrightarrow> outbox n = outbox (link st) \<Longrightarrow>
      P (Some 1) (st\<lparr>link := n, header := \<lparr>header_buffer = B @ strings_in ls @ replicate (k - length (strings_in ls)) 0,
        header_length = length B + length (strings_in ls), header_size = length B + k\<rparr>\<rparr>)"
  shows "wp F (header_lines fuel W) P st"
  using assms
proof (induction ls arbitrary: st B k fuel)
  case Nil
  obtain f where f: "fuel = Suc f" using Nil(5) by (cases fuel) auto
  have b: "(overlay 0 [13] (replicate k (0 :: byte)))[0 := 0] = replicate k 0" "take 1 (overlay 0 [13] (replicate k (0 :: byte))) = [13]"
    using Nil(4) overlay_line[of "[]" k 13] by (auto simp: overlay_def Cons_replicate_eq)
  show ?case unfolding f header_lines.simps wp_ebind wp_eget Let_def
  proof (rule wp_read_line)
    show "inbox (link st) = [] @ [13, 10] @ i" using Nil(1) by (simp add: on_wire_def)
    fix n assume n: "inbox n = i" "outbox n = outbox (link st)"
    show "wp F (case (int (length []) + 1, overlay 0 ([] @ [13]) (drop (header_length (header st)) (header_buffer (header st)))) of
        (rc, mime_buffer) \<Rightarrow> ebind (set_buffer (take (header_length (header st)) (header_buffer (header st)) @ mime_buffer)) (\<lambda>_.
          if rc \<le> 0 then eret (Some rc)
          else if rc = 1 \<and> take 1 mime_buffer = [13] then
            ebind (set_buffer (take (header_length (header st)) (header_buffer (header st)) @ mime_buffer[0 := 0])) (\<lambda>_. eret (Some rc))
          else
            ebind (set_buffer (take (header_length (header st)) (header_buffer (header st)) @ mime_buffer[nat rc - 1 := 0])) (\<lambda>_.
            ebind (set_length (header_length (header st) + nat rc)) (\<lambda>_.
            if header_length (header st) + nat rc \<ge> header_size (header st) then eret None else header_lines f W)))) P (st\<lparr>link := n\<rparr>)"
      using Nil(6)[of n] n b by (simp add: Nil(3) wp_simps)
  qed (use Nil in simp_all)
next
  case (Cons l ls)
  obtain f where f: "fuel = Suc f" using Cons(6) by (cases fuel) auto
  have l: "l \<noteq> []" "0 \<notin> set l" "10 \<notin> set l" "header_ok ls" using Cons(3) by (auto simp: header_ok_def)
  define k' where "k' = k - length l - 1"
  have lk: "length l + 1 < k" using Cons(5) by simp
  then have k: "k = length l + 1 + k'" unfolding k'_def by linarith
  have b: "(overlay 0 (l @ [13]) (replicate k (0 :: byte)))[length l := 0] = l @ 0 # replicate k' 0"
    using overlay_line[of l k 13] lk by (simp add: k'_def)
  show ?case unfolding f header_lines.simps wp_ebind wp_eget Let_def
  proof (rule wp_read_line)
    show "inbox (link st) = l @ [13, 10] @ on_wire ls @ i" using Cons(2) by (simp add: on_wire_simps)
    fix n assume n: "inbox n = on_wire ls @ i" "outbox n = outbox (link st)"
    define st' where "st' = st\<lparr>link := n, header := \<lparr>header_buffer = (B @ l @ [0]) @ replicate k' 0, header_length = length (B @ l @ [0]),
      header_size = length (B @ l @ [0]) + k'\<rparr>\<rparr>"
    have step: "wp F (header_lines f W) P st'"
    proof (rule Cons.IH[where B = "B @ l @ [0]" and k = k'])
      fix n' assume "inbox n' = i" "outbox n' = outbox (link st')"
      then show "P (Some 1) (st'\<lparr>link := n', header := \<lparr>header_buffer = (B @ l @ [0]) @ strings_in ls @ replicate (k' - length (strings_in ls)) 0,
          header_length = length (B @ l @ [0]) + length (strings_in ls), header_size = length (B @ l @ [0]) + k'\<rparr>\<rparr>)"
        using Cons(7)[of n'] n by (simp add: st'_def k add.assoc)
    qed (use Cons n l k f in \<open>auto simp: st'_def\<close>)
    show "wp F (case (int (length l) + 1, overlay 0 (l @ [13]) (drop (header_length (header st)) (header_buffer (header st)))) of
        (rc, mime_buffer) \<Rightarrow> ebind (set_buffer (take (header_length (header st)) (header_buffer (header st)) @ mime_buffer)) (\<lambda>_.
          if rc \<le> 0 then eret (Some rc)
          else if rc = 1 \<and> take 1 mime_buffer = [13] then
            ebind (set_buffer (take (header_length (header st)) (header_buffer (header st)) @ mime_buffer[0 := 0])) (\<lambda>_. eret (Some rc))
          else
            ebind (set_buffer (take (header_length (header st)) (header_buffer (header st)) @ mime_buffer[nat rc - 1 := 0])) (\<lambda>_.
            ebind (set_length (header_length (header st) + nat rc)) (\<lambda>_.
            if header_length (header st) + nat rc \<ge> header_size (header st) then eret None else header_lines f W)))) P (st\<lparr>link := n\<rparr>)"
      using step l(1) lk b k by (simp add: Cons(4) wp_simps st'_def nat_add_distrib add.assoc)
  qed (use Cons l lk in simp_all)
qed

end

text \<open>The header as it is kept after it has been read.\<close>

definition kept :: "byte list list \<Rightarrow> nat \<Rightarrow> webclient_header" where
  "kept ls k = \<lparr>header_buffer = strings_in ls @ replicate (k - length (strings_in ls)) 0, header_length = length (strings_in ls), header_size = k\<rparr>"

lemma kept_buffer: "length (strings_in ls) + 1 < k \<Longrightarrow> \<exists>z. header_buffer (kept ls k) = strings_in ls @ 0 # z"
  by (intro exI[of _ "replicate (k - length (strings_in ls) - 1) 0"]) (simp add: kept_def Suc_diff_Suc replicate_Suc[symmetric] del: replicate_Suc)

lemma wp_field:
  assumes "header st = kept ls k" "length (strings_in ls) + 1 < k" "header_ok ls" "ls \<noteq> []"
  shows "wp F (webclient_header_fields_get name) P st = P (field name ls) st"
proof -
  obtain z where z: "header_buffer (header st) = strings_in ls @ 0 # z" using kept_buffer[OF assms(2)] assms(1) by auto
  have l: "header_length (header st) = length (strings_in ls)" using assms(1) by (simp add: kept_def)
  have "fields_loop (strings_in ls @ 0 # z) 0 name (length (strings_in ls)) = Inr (field name ls)"
  proof (rule fields_loop_packed)
    show "0 + length (strings_in (tl ls)) < length (strings_in ls)" using assms(4) by (cases ls) simp_all
  qed (use assms(3,4) in \<open>auto simp: header_ok_def\<close>)
  then show ?thesis by (simp add: webclient_header_fields_get_def wp_simps z l)
qed

text \<open>The status line, and a first line in the buffer.\<close>

definition status_line :: "byte \<Rightarrow> byte list \<Rightarrow> byte list \<Rightarrow> byte list" where
  "status_line v ds reason = lit ''HTTP/1.'' @ v # 32 # ds @ 32 # reason"

lemma status_line_code: "digits 10 ds \<Longrightarrow> v \<noteq> 0 \<Longrightarrow> status_code (status_line v ds reason) = Inr (Some (number 10 ds))"
  unfolding status_line_def by (rule status_code_line)

definition CONTENT_LENGTH :: "byte list" where "CONTENT_LENGTH = lit ''Content-Length''"
definition TRANSFER_ENCODING :: "byte list" where "TRANSFER_ENCODING = lit ''Transfer-Encoding''"

text \<open>The two kinds of body.\<close>

definition by_length :: "byte list list \<Rightarrow> nat \<Rightarrow> bool" where
  "by_length ls n \<longleftrightarrow> (\<exists>c. field CONTENT_LENGTH ls = Some c \<and> digits 10 c \<and> number 10 c = int n) \<and> field TRANSFER_ENCODING ls = None \<and> 0 < n"

definition by_chunks :: "byte list list \<Rightarrow> bool" where
  "by_chunks ls \<longleftrightarrow> field CONTENT_LENGTH ls = None \<and> field TRANSFER_ENCODING ls = Some (lit ''chunked'')"

lemma wp_read_content_length:
  assumes "header st = kept ls k" "length (strings_in ls) + 1 < k" "header_ok ls" "ls \<noteq> []" "by_length ls n"
  shows "wp F read_content_length P st = P () (st\<lparr>content_length := int n, content_remainder := n\<rparr>)"
proof -
  obtain c where c: "field CONTENT_LENGTH ls = Some c" "digits 10 c" "number 10 c = int n" using assms(5) by (auto simp: by_length_def)
  have "strtol 10 (c @ 0 # []) = Inr (number 10 c)"
    by (rule strtol_number[OF c(2)]) (simp_all add: digit_value_def)
  then have v: "strtol 10 (c @ [0]) = Inr (int n)" using c(3) by simp
  have "n < 2 ^ 31" using c(2,3) by (simp add: digits_def)
  then have m: "nat (int n mod 2 ^ 32) = n" by (simp add: nat_mod_distrib)
  show ?thesis using assms(5) m
    by (simp add: read_content_length_def wp_simps wp_field[OF assms(1-4)] c(1) v by_length_def flip: CONTENT_LENGTH_def)
qed

context stream
begin

lemma wp_response_head:
  assumes "inbox (link st) = on_wire ls @ i" "header_ok ls" "length (strings_in ls) + 1 < header_size (header st)"
    and "ls = status_line v ds reason # fs" "digits 10 ds" "v \<noteq> 0"
    and "\<And>n. inbox n = i \<Longrightarrow> outbox n = outbox (link st) \<Longrightarrow>
      wp F (ebind read_content_length (\<lambda>_. ebind (first_chunk W) (\<lambda>_. eget resp_status))) P
        (st\<lparr>header := kept ls (header_size (header st)), link := n, resp_status := number 10 ds\<rparr>)"
  shows "wp F (webclient_handle_response W) P st"
proof -
  define K where "K = header_size (header st)"
  define l where "l = status_line v ds reason"
  obtain z where z: "header_buffer (kept ls K) = strings_in ls @ 0 # z" using kept_buffer assms(3) by (auto simp: K_def)
  have l: "0 \<notin> set l" using assms(2,4) by (simp add: header_ok_def l_def)
  then have s: "str_in (header_buffer (kept ls K)) = Inr l"
    unfolding z using assms(4) by (simp add: l_def[symmetric] str_in_append)
  have code: "status_code l = Inr (Some (number 10 ds))" unfolding l_def by (rule status_line_code[OF assms(5,6)])
  have fuel: "length ls < Suc K"
  proof -
    have "length ls \<le> length (strings_in ls)" by (induction ls) simp_all
    then show ?thesis using assms(3) by (simp add: K_def)
  qed
  define st0 where "st0 = st\<lparr>header := \<lparr>header_buffer = replicate K 0, header_length = 0, header_size = K\<rparr>\<rparr>"
  define C where "C = (\<lambda>rc :: int option. case rc of
       None \<Rightarrow> eret (- WEBCLIENT_NOMEM)
     | Some rc \<Rightarrow>
         ebind (eget (\<lambda>st. header_buffer (header st))) (\<lambda>buf.
         ebind (elift (str_in buf)) (\<lambda>mime.
         ebind (on_link (web_alloc W (length mime + 1))) (\<lambda>ok.
         if \<not> ok then eret (- WEBCLIENT_NOMEM)
         else
           ebind (elift (status_code mime)) (\<lambda>code.
           ebind (case code of None \<Rightarrow> eret () | Some v \<Rightarrow> emod (\<lambda>st. st\<lparr>resp_status := v\<rparr>)) (\<lambda>_.
           ebind read_content_length (\<lambda>_.
           ebind (first_chunk W) (\<lambda>_.
           if rc < 0 then eret rc else eget resp_status))))))))"
  have def: "webclient_handle_response W = ebind (eget header) (\<lambda>h. ebind (set_buffer (replicate (header_size h) 0)) (\<lambda>_.
      ebind (set_length 0) (\<lambda>_. ebind (header_lines (Suc (header_size h)) W) C)))"
    by (simp add: webclient_handle_response_def C_def)
  have st0: "(st\<lparr>header := (header st)\<lparr>header_buffer := replicate K 0\<rparr>\<rparr>)
      \<lparr>header := (header (st\<lparr>header := (header st)\<lparr>header_buffer := replicate K 0\<rparr>\<rparr>))\<lparr>header_length := 0\<rparr>\<rparr> = st0"
    by (cases "header st") (simp add: st0_def K_def)
  have start: "wp F (webclient_handle_response W) P st = wp F (header_lines (Suc K) W) (\<lambda>rc. wp F (C rc) P) st0"
    unfolding def wp_ebind wp_eget wp_set_buffer wp_set_length K_def[symmetric] st0 by simp
  show ?thesis unfolding start
  proof (rule wp_header_lines[where B = "[]" and k = K])
    fix n assume n: "inbox n = i" "outbox n = outbox (link st0)"
    let ?st = "st0\<lparr>link := n, header := \<lparr>header_buffer = [] @ strings_in ls @ replicate (K - length (strings_in ls)) 0,
        header_length = length ([] :: byte list) + length (strings_in ls), header_size = length ([] :: byte list) + K\<rparr>\<rparr>"
    have h: "?st = st\<lparr>link := n, header := kept ls K\<rparr>" by (simp add: st0_def kept_def)
    have "wp F (on_link (web_alloc W (length l + 1))) (\<lambda>ok. wp F (if \<not> ok then eret (- WEBCLIENT_NOMEM)
         else
           ebind (elift (status_code l)) (\<lambda>code.
           ebind (case code of None \<Rightarrow> eret () | Some v \<Rightarrow> emod (\<lambda>st. st\<lparr>resp_status := v\<rparr>)) (\<lambda>_.
           ebind read_content_length (\<lambda>_.
           ebind (first_chunk W) (\<lambda>_.
           if (1 :: int) < 0 then eret 1 else eget resp_status))))) P) (st\<lparr>link := n, header := kept ls K\<rparr>)"
    proof (rule wp_alloc)
      fix n' assume "inbox n' = inbox (link (st\<lparr>link := n, header := kept ls K\<rparr>))" "outbox n' = outbox (link (st\<lparr>link := n, header := kept ls K\<rparr>))"
      then have "inbox n' = i" "outbox n' = outbox (link st)" using n by (simp_all add: st0_def)
      from assms(7)[OF this] show "wp F (if \<not> True then eret (- WEBCLIENT_NOMEM)
         else
           ebind (elift (status_code l)) (\<lambda>code.
           ebind (case code of None \<Rightarrow> eret () | Some v \<Rightarrow> emod (\<lambda>st. st\<lparr>resp_status := v\<rparr>)) (\<lambda>_.
           ebind read_content_length (\<lambda>_.
           ebind (first_chunk W) (\<lambda>_.
           if (1 :: int) < 0 then eret 1 else eget resp_status))))) P (st\<lparr>link := n, header := kept ls K, link := n'\<rparr>)"
        by (simp add: wp_simps code K_def)
    qed
    then show "wp F (C (Some 1)) P ?st"
      unfolding h C_def option.case wp_ebind wp_eget by (simp add: s wp_elift_Inr)
  qed (use assms(1-3) fuel in \<open>simp_all add: st0_def K_def\<close>)
qed

end

section \<open>Chunks\<close>

text \<open>The text of a chunk size, and what follows the data of a chunk: the other chunks, the last with the size 0.\<close>

definition size_line :: "nat \<Rightarrow> byte list \<Rightarrow> nat \<Rightarrow> bool" where
  "size_line m h n \<longleftrightarrow> digits 16 h \<and> 10 \<notin> set h \<and> length h < m \<and> number 16 h = int n"

fun later :: "(byte list \<times> byte list) list \<Rightarrow> byte list \<Rightarrow> byte list" where
  "later [] z = [13, 10] @ z @ [13, 10]"
| "later ((h, d) # cs) z = [13, 10] @ h @ [13, 10] @ d @ later cs z"

definition chunks_ok :: "(byte list \<times> byte list) list \<Rightarrow> bool" where
  "chunks_ok cs \<longleftrightarrow> (\<forall>(h, d)\<in>set cs. size_line 63 h (length d) \<and> d \<noteq> [])"

text \<open>A session in a chunk, with what is left of the body.\<close>

definition pending :: "('n \<Rightarrow> byte list) \<Rightarrow> 'n web \<Rightarrow> byte list \<Rightarrow> bool" where
  "pending inbox st body \<longleftrightarrow> body = [] \<and> chunk_sz st < 0 \<or>
     (\<exists>cur cs z i. cur \<noteq> [] \<and> body = cur @ concat (map snd cs) \<and> chunks_ok cs \<and> size_line 63 z 0 \<and> 0 \<le> sock st \<and>
        0 < chunk_sz st \<and> chunk_sz st - chunk_offset st = int (length cur) \<and> inbox (link st) = cur @ later cs z @ i)"

lemma strtol_line:
  assumes "size_line m h n" "length h + 1 \<le> length buf"
  shows "strtol 16 (overlay 0 (h @ [13]) buf) = Inr (int n)"
proof -
  have "overlay 0 (h @ [13]) buf = h @ 13 # drop (length h + 1) buf" using assms(2) by (simp add: overlay_def)
  moreover have "strtol 16 (h @ 13 # drop (length h + 1) buf) = Inr (number 16 h)"
    by (rule strtol_number) (use assms(1) in \<open>simp_all add: size_line_def digit_value_def\<close>)
  ultimately show ?thesis using assms(1) by (simp add: size_line_def)
qed

lemma wp_closesocket [wp_simps]:
  "wp F (closesocket W) P st = P () (st\<lparr>link := socket_close W (sock st) (link st), sock := -1\<rparr>)"
  by (simp add: closesocket_def wp_simps)

context stream
begin

text \<open>The line end behind the data, then the next size.\<close>

lemma wp_next_size:
  assumes "inbox (link st) = [13, 10] @ h @ [13, 10] @ i" "size_line 63 h m"
    and "\<And>n. inbox n = i \<Longrightarrow> outbox n = outbox (link st) \<Longrightarrow>
      if m = 0 then P (-1) (st\<lparr>chunk_offset := 0, link := socket_close W (sock st) n, sock := -1, chunk_sz := -1\<rparr>)
      else P (int m) (st\<lparr>link := n, chunk_sz := int m, chunk_offset := 0\<rparr>)"
  shows "wp F (webclient_next_chunk W) P st"
  unfolding webclient_next_chunk_def wp_ebind
proof (rule wp_read_line)
  show "inbox (link st) = [] @ [13, 10] @ (h @ [13, 10] @ i)" using assms(1) by simp
  fix n assume n: "inbox n = h @ [13, 10] @ i" "outbox n = outbox (link st)"
  define line where "line = overlay 0 [13] (replicate 64 (0 :: byte))"
  have len: "length line = 64" by (simp add: line_def)
  have cr: "rt_strcmp (cstr line) [13] = 0"
    by (simp add: line_def overlay_def cstr_def)
  have h: "10 \<notin> set h" "length h < 63" using assms(2) by (simp_all add: size_line_def)
  have v: "strtol 16 (overlay 0 (h @ [13]) line) = Inr (int m)" by (rule strtol_line[OF assms(2)]) (use h len in simp)
  have "wp F (webclient_read_line W line 64) (\<lambda>(len, line). wp F (if len \<le> 0 then ebind (closesocket W) (\<lambda>_. eret len)
        else ebind (elift (strtol 16 line)) (\<lambda>n. ebind (emod (\<lambda>st. st\<lparr>chunk_sz := n, chunk_offset := 0\<rparr>)) (\<lambda>_.
          ebind (if n = 0 then ebind (closesocket W) (\<lambda>_. emod (\<lambda>st. st\<lparr>chunk_sz := -1\<rparr>)) else eret ()) (\<lambda>_. eget chunk_sz)))) P)
      (st\<lparr>link := n\<rparr>)"
  proof (rule wp_read_line)
    show "inbox (link (st\<lparr>link := n\<rparr>)) = h @ [13, 10] @ i" using n by simp
    fix n' assume "inbox n' = i" "outbox n' = outbox (link (st\<lparr>link := n\<rparr>))"
    then have "inbox n' = i" "outbox n' = outbox (link st)" using n by simp_all
    from assms(3)[OF this] show "(case (int (length h) + 1, overlay 0 (h @ [13]) line) of (len, line) \<Rightarrow>
        wp F (if len \<le> 0 then ebind (closesocket W) (\<lambda>_. eret len)
        else ebind (elift (strtol 16 line)) (\<lambda>n. ebind (emod (\<lambda>st. st\<lparr>chunk_sz := n, chunk_offset := 0\<rparr>)) (\<lambda>_.
          ebind (if n = 0 then ebind (closesocket W) (\<lambda>_. emod (\<lambda>st. st\<lparr>chunk_sz := -1\<rparr>)) else eret ()) (\<lambda>_. eget chunk_sz)))) P)
      (st\<lparr>link := n, link := n'\<rparr>)"
      by (simp add: wp_simps v split: if_splits)
  qed (use h len in simp_all)
  then show "wp F (case (int (length []) + 1, overlay 0 ([] @ [13]) (replicate 64 0)) of (len, line) \<Rightarrow>
      if len \<le> 0 then ebind (closesocket W) (\<lambda>_. eret len)
      else ebind (if rt_strcmp (cstr line) [13] = 0 then webclient_read_line W line 64 else eret (len, line)) (\<lambda>(len, line).
        if len \<le> 0 then ebind (closesocket W) (\<lambda>_. eret len)
        else ebind (elift (strtol 16 line)) (\<lambda>n. ebind (emod (\<lambda>st. st\<lparr>chunk_sz := n, chunk_offset := 0\<rparr>)) (\<lambda>_.
          ebind (if n = 0 then ebind (closesocket W) (\<lambda>_. emod (\<lambda>st. st\<lparr>chunk_sz := -1\<rparr>)) else eret ()) (\<lambda>_. eget chunk_sz))))) P
      (st\<lparr>link := n\<rparr>)"
    by (simp add: wp_ebind cr case_prod_beta' flip: line_def)
qed simp_all

lemma wp_next_chunk:
  assumes "inbox (link st) = later cs z @ i" "chunks_ok cs" "size_line 63 z 0" "0 \<le> sock st"
    and "\<And>st' x. pending inbox st' (concat (map snd cs)) \<Longrightarrow> P x st'"
  shows "wp F (webclient_next_chunk W) P st"
proof (cases cs)
  case Nil
  show ?thesis
  proof (rule wp_next_size)
    show "inbox (link st) = [13, 10] @ z @ [13, 10] @ i" using assms(1) Nil by simp
  qed (rule assms(3), use assms(5) Nil in \<open>simp add: pending_def\<close>)
next
  case (Cons c cs')
  obtain h d where c: "c = (h, d)" by (cases c)
  then have ok: "size_line 63 h (length d)" "d \<noteq> []" "chunks_ok cs'" using assms(2) Cons by (auto simp: chunks_ok_def)
  show ?thesis
  proof (rule wp_next_size)
    show "inbox (link st) = [13, 10] @ h @ [13, 10] @ (d @ later cs' z @ i)" using assms(1) Cons c by simp
    fix n assume n: "inbox n = d @ later cs' z @ i"
    have "pending inbox (st\<lparr>link := n, chunk_sz := int (length d), chunk_offset := 0\<rparr>) (concat (map snd cs))"
      unfolding pending_def
      by (rule disjI2, intro exI[of _ d] exI[of _ cs'] exI[of _ z] exI[of _ i]) (use n ok assms(3,4) Cons c in simp)
    then show "if length d = 0 then P (-1) (st\<lparr>chunk_offset := 0, link := socket_close W (sock st) n, sock := -1, chunk_sz := -1\<rparr>)
        else P (int (length d)) (st\<lparr>link := n, chunk_sz := int (length d), chunk_offset := 0\<rparr>)"
      using ok(2) by (simp add: assms(5))
  qed (rule ok(1))
qed

text \<open>A read gives some bytes of the body, and no others.\<close>

lemma wp_read_pending:
  assumes "pending inbox st body" "body \<noteq> []" "0 < len" "len \<le> length buffer"
    and "\<And>st' j. 0 < j \<Longrightarrow> j \<le> len \<Longrightarrow> j \<le> length body \<Longrightarrow> pending inbox st' (drop j body) \<Longrightarrow>
      P (int j, overlay 0 (take j body) buffer) st'"
  shows "wp F (webclient_read W buffer len) P st"
proof -
  obtain cur cs z i where c: "cur \<noteq> []" "body = cur @ concat (map snd cs)" "chunks_ok cs" "size_line 63 z 0" "0 \<le> sock st"
    "0 < chunk_sz st" "chunk_sz st - chunk_offset st = int (length cur)" "inbox (link st) = cur @ later cs z @ i"
    using assms(1,2) by (auto simp: pending_def)
  define k where "k = (if int len > int (length cur) then nat (int (length cur)) else len)"
  have k: "0 < k" "k \<le> len" "k \<le> length cur" using c(1) assms(3) by (auto simp: k_def)
  have "wp F (read_chunk W len buffer) P st" unfolding read_chunk_def wp_ebind wp_eget c(7) k_def[symmetric]
  proof (rule wp_recv)
    show "inbox (link st) \<noteq> []" using c(1,8) by simp
    fix j n assume j: "0 < j" "j \<le> k" "inbox n = drop j (inbox (link st))"
    have t: "take j (inbox (link st)) = take j body" "inbox n = drop j cur @ later cs z @ i" "j \<le> length body" "length (take j body) = j" "j \<le> length buffer"
      using j k c(2,8) assms(4) by auto
    have p: "P (int j, overlay 0 (take j body) buffer) st'" if "pending inbox st' (drop j body)" for st'
      by (rule assms(5)) (use j k t that in auto)
    show "wp F (case (int j, take j (inbox (link st))) of (bytes_read, bs) \<Rightarrow>
        if bytes_read \<le> 0 then ebind (nothing_read W) (\<lambda>rc. eret (rc, buffer))
        else ebind (elift (store_at 0 bs buffer)) (\<lambda>buffer.
          ebind (emod (\<lambda>st. st\<lparr>chunk_offset := chunk_offset st + bytes_read\<rparr>)) (\<lambda>_.
          ebind (eget (\<lambda>st. chunk_offset st \<ge> chunk_sz st)) (\<lambda>done_with.
          ebind (if done_with then ebind (webclient_next_chunk W) (\<lambda>_. eret ()) else eret ()) (\<lambda>_.
          eret (bytes_read, buffer)))))) P (st\<lparr>link := n\<rparr>)"
    proof (cases "j = length cur")
      case True
      have "wp F (webclient_next_chunk W) (\<lambda>_. P (int j, overlay 0 (take j body) buffer))
          (st\<lparr>link := n, chunk_offset := chunk_offset st + int j\<rparr>)"
        by (rule wp_next_chunk[where cs = cs and z = z and i = i]) (use t(2) c True p in simp_all)
      then show ?thesis using j(1) t c(7) True by (simp add: wp_simps wp_eret_fun store_at_def)
    next
      case False
      have "pending inbox (st\<lparr>link := n, chunk_offset := chunk_offset st + int j\<rparr>) (drop j body)"
        unfolding pending_def
        by (rule disjI2, intro exI[of _ "drop j cur"] exI[of _ cs] exI[of _ z] exI[of _ i]) (use t(2) c False j k in auto)
      from p[OF this] show ?thesis using j k t c(7) False by (simp add: wp_simps store_at_def)
    qed
  qed (use k in simp)
  then show ?thesis using c(5,6) assms(3) by (simp add: webclient_read_def wp_simps)
qed

lemma wp_read_done: "pending inbox st [] \<Longrightarrow> wp F (webclient_read W buffer len) P st = P (0, buffer) st"
  by (auto simp: pending_def webclient_read_def wp_simps)

end

end
