(* ===== verification/Webclient_Body.thy ===== *)
theory Webclient_Body
  imports Webclient_Reply
begin

text \<open>
  The body of a reply: what reading gives after the header, and the whole of it.
\<close>

section \<open>A body with a length\<close>

definition counted :: "('n \<Rightarrow> byte list) \<Rightarrow> 'n web \<Rightarrow> byte list \<Rightarrow> bool" where
  "counted inbox st body \<longleftrightarrow> chunk_sz st = 0 \<and> 0 \<le> sock st \<and> 0 < content_length st \<and> content_remainder st = length body \<and>
     length body < 2 ^ 32 \<and> (\<exists>i. inbox (link st) = body @ i)"

text \<open>The session hands out a body.\<close>

definition delivers :: "('n \<Rightarrow> byte list) \<Rightarrow> 'n web \<Rightarrow> byte list \<Rightarrow> bool" where
  "delivers inbox st body \<longleftrightarrow> counted inbox st body \<or> pending inbox st body"

context stream
begin

lemma wp_read_counted:
  assumes "counted inbox st body" "body \<noteq> []" "0 < len" "k = min len (length body)" "k \<le> length buffer"
    and "\<And>st'. counted inbox st' (drop k body) \<Longrightarrow> outbox (link st') = outbox (link st) \<Longrightarrow> content_length st' = content_length st \<Longrightarrow>
      host st' = host st \<Longrightarrow> req_url st' = req_url st \<Longrightarrow> P (int k, overlay 0 (take k body) buffer) st'"
  shows "wp F (webclient_read W buffer len) P st"
proof -
  obtain i where c: "chunk_sz st = 0" "0 \<le> sock st" "0 < content_length st" "content_remainder st = length body" "inbox (link st) = body @ i"
    "length body < 2 ^ 32" using assms(1) by (auto simp: counted_def)
  have k: "0 < k" "k \<le> length body" using assms(2-4) by auto
  have "wp F (read_plain W k buffer) P st" unfolding read_plain_def wp_ebind
  proof (rule wp_read_loop)
    fix n assume n: "inbox n = drop k (inbox (link st))" "outbox n = outbox (link st)"
    have m: "(int (length body) - int k) mod 4294967296 = int (length body - k)"
      using k c(6) by (simp add: of_nat_diff)
    have m': "nat (int (length body) - int k) = length body - k" by linarith
    have "counted inbox (st\<lparr>link := n, content_remainder := length body - k\<rparr>) (drop k body)"
      using c n k by (auto simp: counted_def)
    from assms(6)[OF this] show "wp F (case (False, int (0 + k), overlay 0 (take k (inbox (link st))) buffer) of (at_once, total_read, buffer) \<Rightarrow>
        if at_once then eret (total_read, buffer)
        else ebind (emod (\<lambda>st. if content_length st > 0 then st\<lparr>content_remainder := nat ((int (content_remainder st) - total_read) mod 2 ^ 32)\<rparr> else st))
          (\<lambda>_. eret (total_read, buffer))) P (st\<lparr>link := n\<rparr>)"
      using c n k by (simp add: wp_simps m m')
  qed (use k c assms(5) in auto)
  then show ?thesis using c assms(2-4) by (auto simp: webclient_read_def wp_simps Let_def min_def split: if_splits)
qed

lemma wp_read_counted_done: "counted inbox st [] \<Longrightarrow> wp F (webclient_read W buffer len) P st = P (0, buffer) st"
  by (auto simp: counted_def webclient_read_def wp_simps Let_def)

section \<open>Both kinds\<close>

lemma wp_read_delivers:
  assumes "delivers inbox st body" "body \<noteq> []" "0 < len" "len \<le> length buffer"
    and "\<And>st' j. 0 < j \<Longrightarrow> j \<le> len \<Longrightarrow> j \<le> length body \<Longrightarrow> delivers inbox st' (drop j body) \<Longrightarrow>
      P (int j, overlay 0 (take j body) buffer) st'"
  shows "wp F (webclient_read W buffer len) P st"
proof (cases "pending inbox st body")
  case True
  then show ?thesis by (rule wp_read_pending[OF _ assms(2-4)]) (simp add: assms(5) delivers_def)
next
  case False
  then have c: "counted inbox st body" using assms(1) by (simp add: delivers_def)
  show ?thesis
    by (rule wp_read_counted[OF c assms(2,3) refl]) (use assms(2-4) in \<open>auto intro!: assms(5) simp: delivers_def\<close>)
qed

lemma wp_read_empty: "delivers inbox st [] \<Longrightarrow> wp F (webclient_read W buffer len) P st = P (0, buffer) st"
  using wp_read_done wp_read_counted_done by (auto simp: delivers_def)

text \<open>The two loops of \<open>webclient_response\<close>.\<close>

lemma wp_response_length:
  assumes "delivers inbox st body" "length body < fuel" "done_n + length body = size_n" "length buf = size_n + 1"
    and "\<And>st'. P (size_n, take done_n buf @ body @ drop size_n buf) st'"
  shows "wp F (response_length fuel W size_n done_n buf) P st"
  using assms
proof (induction fuel arbitrary: st body done_n buf)
  case (Suc fuel)
  show ?case
  proof (cases "body = []")
    case True
    then show ?thesis using Suc.prems(3) Suc.prems(5)[of st] by (simp add: wp_simps)
  next
    case False
    have "wp F (webclient_read W (drop done_n buf) (size_n - done_n)) (\<lambda>(len, part). wp F (if len \<le> 0 then eret (done_n, take done_n buf @ part)
        else response_length fuel W size_n (done_n + nat len) (take done_n buf @ part)) P) st"
    proof (rule wp_read_delivers[OF Suc.prems(1) False])
      fix st' j assume j: "0 < j" "j \<le> size_n - done_n" "j \<le> length body" "delivers inbox st' (drop j body)"
      define buf' where "buf' = take done_n buf @ overlay 0 (take j body) (drop done_n buf)"
      have b: "take (done_n + j) buf' = take done_n buf @ take j body" "drop size_n buf' = drop size_n buf" "length buf' = length buf"
        using Suc.prems(3,4) j by (auto simp: buf'_def overlay_def)
      have "wp F (response_length fuel W size_n (done_n + j) buf') P st'"
      proof (rule Suc.IH[OF j(4)])
        have "take (done_n + j) buf' @ drop j body @ drop size_n buf' = take done_n buf @ body @ drop size_n buf"
          unfolding b by simp
        then show "\<And>st'. P (size_n, take (done_n + j) buf' @ drop j body @ drop size_n buf') st'" using Suc.prems(5) by simp
      qed (use Suc.prems(2-4) j b in auto)
      then show "(case (int j, overlay 0 (take j body) (drop done_n buf)) of (len, part) \<Rightarrow>
          wp F (if len \<le> 0 then eret (done_n, take done_n buf @ part)
            else response_length fuel W size_n (done_n + nat len) (take done_n buf @ part)) P) st'"
        using j(1) by (simp add: buf'_def)
    qed (use Suc.prems(3,4) False in auto)
    moreover have "done_n < size_n" using Suc.prems(3) False by (cases body) simp_all
    ultimately show ?thesis by (simp add: wp_ebind case_prod_beta')
  qed
qed simp

definition text_of :: "byte list option \<Rightarrow> byte list" where "text_of b = (case b of None \<Rightarrow> [] | Some b \<Rightarrow> b)"

lemma wp_response_chunks:
  assumes "delivers inbox st body" "length body < fuel" "done_n \<le> length (text_of old)" "length (text_of old) \<le> done_n + WEBCLIENT_RESPONSE_BUFSZ + 1"
    and "\<And>st' z. z \<noteq> [] \<Longrightarrow> P (done_n + length body, Some (take done_n (text_of old) @ body @ z)) st'"
  shows "wp F (response_chunks fuel W done_n old) P st"
  using assms
proof (induction fuel arbitrary: st body done_n old)
  case (Suc fuel)
  define buf where "buf = text_of old @ map (stack_bytes W) [length (text_of old)..<done_n + WEBCLIENT_RESPONSE_BUFSZ + 1]"
  have len: "length buf = done_n + WEBCLIENT_RESPONSE_BUFSZ + 1" "take done_n buf = take done_n (text_of old)"
    using Suc.prems(3,4) by (simp_all add: buf_def)
  let ?K = "\<lambda>(len, part). if len \<le> (0 :: int) then eret (done_n, Some (take done_n buf @ part))
      else response_chunks fuel W (done_n + nat len) (Some (take done_n buf @ part))"
  have read: "wp F (webclient_read W (drop done_n buf) WEBCLIENT_RESPONSE_BUFSZ) (\<lambda>x. wp F (?K x) P) st'"
    if d: "delivers inbox st' body" for st'
  proof (cases "body = []")
    case True
    have "drop done_n buf \<noteq> []" using len(1) by simp
    then show ?thesis using Suc.prems(5) d True by (simp add: wp_read_empty wp_simps len(2))
  next
    case False
    show ?thesis
    proof (rule wp_read_delivers[OF d False])
      fix st' j assume j: "0 < j" "j \<le> WEBCLIENT_RESPONSE_BUFSZ" "j \<le> length body" "delivers inbox st' (drop j body)"
      define new where "new = take done_n buf @ overlay 0 (take j body) (drop done_n buf)"
      have n: "length new = done_n + WEBCLIENT_RESPONSE_BUFSZ + 1" using len Suc.prems(3) by (simp add: new_def)
      have t: "take (done_n + j) new = take done_n (text_of old) @ take j body"
        using j len Suc.prems(3) by (simp add: new_def overlay_def)
      have "wp F (response_chunks fuel W (done_n + j) (Some new)) P st'"
      proof (rule Suc.IH[OF j(4)])
        fix st'' z assume z: "z \<noteq> ([] :: byte list)"
        have e: "take (done_n + j) (text_of (Some new)) @ drop j body @ z = take done_n (text_of old) @ body @ z"
          using t by (simp add: text_of_def)
        show "P (done_n + j + length (drop j body), Some (take (done_n + j) (text_of (Some new)) @ drop j body @ z)) st''"
          unfolding e using Suc.prems(5)[OF z, of st''] j by simp
      qed (use Suc.prems(2) j n in \<open>auto simp: text_of_def\<close>)
      then show "wp F (?K (int j, overlay 0 (take j body) (drop done_n buf))) P st'" using j(1) by (simp add: new_def)
    qed (use len in \<open>simp_all add: WEBCLIENT_RESPONSE_BUFSZ_def\<close>)
  qed
  have bc: "(case old of None \<Rightarrow> [] | Some b \<Rightarrow> b) @ map (stack_bytes W) [length (case old of None \<Rightarrow> [] | Some b \<Rightarrow> b)..<
      done_n + WEBCLIENT_RESPONSE_BUFSZ + 1] = buf"
    by (simp add: buf_def text_of_def)
  show ?case unfolding response_chunks.simps Let_def bc wp_ebind
  proof (rule wp_alloc)
    fix n assume n: "inbox n = inbox (link st)" "outbox n = outbox (link st)"
    have "delivers inbox (st\<lparr>link := n\<rparr>) body" using Suc.prems(1) n by (simp add: delivers_def counted_def pending_def)
    from read[OF this] show "wp F (if \<not> True then eret (done_n, old)
        else ebind (webclient_read W (drop done_n buf) (done_n + WEBCLIENT_RESPONSE_BUFSZ - done_n)) (\<lambda>(len, part).
          if len \<le> 0 then eret (done_n, Some (take done_n buf @ part))
          else response_chunks fuel W (done_n + nat len) (Some (take done_n buf @ part)))) P (st\<lparr>link := n\<rparr>)"
      by (simp add: wp_ebind)
  qed
qed simp

lemma wp_webclient_response:
  assumes "delivers inbox st body" "body \<noteq> []" "length body < fuel" "content_length st = int (length body) \<or> content_length st < 0"
    and "\<And>st' z. P (int (length body), Some (body @ 0 # z)) st'"
  shows "wp F (webclient_response fuel W) P st"
proof -
  let ?K = "\<lambda>r :: (nat \<times> byte list option) option. case r of
       None \<Rightarrow> eret (- WEBCLIENT_NOMEM, None)
     | Some (total_read, None) \<Rightarrow> eret (int total_read, None)
     | Some (total_read, Some buf) \<Rightarrow>
         if total_read = 0 then eret (0, None)
         else ebind (elift (buf_put total_read 0 buf)) (\<lambda>buf. eret (int total_read, Some buf))"
  have fin: "wp F (?K (Some (length body, Some (body @ z)))) P st'" if z: "z \<noteq> []" for z st'
  proof -
    obtain b y where "z = b # y" using z by (cases z) auto
    then show ?thesis using assms(2,5) by (simp add: wp_simps buf_put_def list_update_append)
  qed
  show ?thesis
  proof (cases "content_length st < 0")
    case True
    have "wp F (response_chunks fuel W 0 None) (\<lambda>r. wp F (?K (Some r)) P) st"
      by (rule wp_response_chunks[OF assms(1,3)]) (use fin in \<open>auto simp: text_of_def\<close>)
    then show ?thesis using True by (simp add: webclient_response_def wp_ebind wp_eget wp_eret_fun wp_eret)
  next
    case False
    then have n: "nat (content_length st) = length body" "\<not> content_length st < 0" using assms(4) by auto
    define N where "N = length body"
    have d: "drop N (replicate (N + 1) (0 :: byte)) = [0]" by (subst drop_replicate) simp
    have "wp F (response_length (Suc N) W N 0 (replicate (N + 1) 0)) (\<lambda>(total_read, buf). wp F (?K (Some (total_read, Some buf))) P) st'"
      if "delivers inbox st' body" for st'
            by (rule wp_response_length[OF that]) (use fin[of "[0]"] d in \<open>auto simp: N_def simp del: replicate_Suc\<close>)
    note resp = this
    have "wp F (ebind (on_link (web_alloc W (N + 1))) (\<lambda>ok. if \<not> ok then eret None
        else ebind (response_length (Suc N) W N 0 (replicate (N + 1) 0)) (\<lambda>(total_read, buf). eret (Some (total_read, Some buf)))))
        (\<lambda>r. wp F (?K r) P) st"
      unfolding wp_ebind
    proof (rule wp_alloc)
      fix n assume "inbox n = inbox (link st)" "outbox n = outbox (link st)"
      then have "delivers inbox (st\<lparr>link := n\<rparr>) body" using assms(1) by (simp add: delivers_def counted_def pending_def)
      from resp[OF this] show "wp F (if \<not> True then eret None
          else ebind (response_length (Suc N) W N 0 (replicate (N + 1) 0)) (\<lambda>(total_read, buf). eret (Some (total_read, Some buf))))
          (\<lambda>r. wp F (?K r) P) (st\<lparr>link := n\<rparr>)"
        unfolding wp_ebind not_True_eq_False if_False case_prod_beta' wp_eret .
    qed
    then have "wp F (if content_length st < 0 then ebind (response_chunks fuel W 0 None) (\<lambda>r. eret (Some r))
        else ebind (on_link (web_alloc W (nat (content_length st) + 1))) (\<lambda>ok. if \<not> ok then eret None
          else ebind (response_length (Suc (nat (content_length st))) W (nat (content_length st)) 0 (replicate (nat (content_length st) + 1) 0))
            (\<lambda>(total_read, buf). eret (Some (total_read, Some buf))))) (\<lambda>r. wp F (?K r) P) st"
      unfolding n(1) N_def[symmetric] using n(2) by (simp only: if_False)
    then show ?thesis unfolding webclient_response_def wp_ebind wp_eget .
  qed
qed

end

end
