(* ===== verification/Webclient_Client.thy ===== *)
theory Webclient_Client
  imports Webclient_Body
begin

text \<open>
  A request from the connection to the reply: the parts of the session that a GET sets, what it sends, and the body it is
  ready to deliver.
\<close>

section \<open>The reply\<close>

text \<open>A header and what follows it, with the body that they stand for. The array for the first chunk size has 16 bytes.\<close>

definition stands_for :: "bool \<Rightarrow> byte list list \<Rightarrow> byte list \<Rightarrow> byte list \<Rightarrow> bool" where
  "stands_for chunked ls i body \<longleftrightarrow> body \<noteq> [] \<and>
     (if chunked
      then by_chunks ls \<and> (\<exists>h d cs z j. size_line 16 h (length d) \<and> d \<noteq> [] \<and> chunks_ok cs \<and> size_line 63 z 0 \<and>
        i = h @ [13, 10] @ d @ later cs z @ j \<and> body = d @ concat (map snd cs))
      else by_length ls (length body) \<and> (\<exists>z. i = body @ z))"

text \<open>The session after the header.\<close>

definition opened :: "bool \<Rightarrow> ('n \<Rightarrow> byte list) \<Rightarrow> 'n web \<Rightarrow> byte list \<Rightarrow> bool" where
  "opened chunked inbox st body \<longleftrightarrow>
     (if chunked then pending inbox st body \<and> content_length st < 0
      else counted inbox st body \<and> content_length st = int (length body))"

lemma opened_delivers: "opened chunked inbox st body \<Longrightarrow> delivers inbox st body"
  "opened chunked inbox st body \<Longrightarrow> content_length st = int (length body) \<or> content_length st < 0"
  by (auto simp: opened_def delivers_def split: if_splits)

context stream
begin

lemma wp_first_chunk:
  assumes "header st = kept ls k" "length (strings_in ls) + 1 < k" "header_ok ls" "ls \<noteq> []" "16 < k"
    and "field TRANSFER_ENCODING ls = Some (lit ''chunked'')" "size_line 16 h m" "inbox (link st) = h @ [13, 10] @ i"
    and "\<And>n. inbox n = i \<Longrightarrow> outbox n = outbox (link st) \<Longrightarrow> P () (st\<lparr>link := n, chunk_sz := int m, chunk_offset := 0\<rparr>)"
  shows "wp F (first_chunk W) P st"
proof -
  have c: "rt_strcmp (lit ''chunked'') (lit ''chunked'') = 0" by (simp add: lit_def)
  have h: "10 \<notin> set h" "length h < 16" "header_size (header st) = k" using assms(1,7) by (simp_all add: size_line_def kept_def)
  have v: "strtol 16 (overlay 0 (h @ [13]) (map (stack_bytes W) [0..<16])) = Inr (int m)"
    by (rule strtol_line[OF assms(7)]) (use h in simp)
  have "wp F (webclient_read_line W (map (stack_bytes W) [0..<16]) (int k)) (\<lambda>(_, line).
      wp F (elift (strtol 16 line)) (\<lambda>n. wp F (emod (\<lambda>st. st\<lparr>chunk_sz := n, chunk_offset := 0\<rparr>)) P)) st"
  proof (rule wp_read_line[OF assms(8)])
    fix n assume "inbox n = i" "outbox n = outbox (link st)"
    from assms(9)[OF this] show "(case (int (length h) + 1, overlay 0 (h @ [13]) (map (stack_bytes W) [0..<16])) of (_, line) \<Rightarrow>
        wp F (elift (strtol 16 line)) (\<lambda>n. wp F (emod (\<lambda>st. st\<lparr>chunk_sz := n, chunk_offset := 0\<rparr>)) P)) (st\<lparr>link := n\<rparr>)"
      by (simp add: wp_simps v)
  qed (use h assms(5) in simp_all)
  then show ?thesis
    unfolding first_chunk_def wp_ebind wp_field[OF assms(1-4)] TRANSFER_ENCODING_def[symmetric] assms(6)
    using c h(3) by (simp add: wp_ebind_fun wp_eget case_prod_beta')
qed

lemma wp_first_chunk_none:
  assumes "header st = kept ls k" "length (strings_in ls) + 1 < k" "header_ok ls" "ls \<noteq> []" "field TRANSFER_ENCODING ls = None"
  shows "wp F (first_chunk W) P st = P () st"
  unfolding first_chunk_def wp_ebind wp_field[OF assms(1-4)] TRANSFER_ENCODING_def[symmetric] assms(5) by (simp add: wp_eret)

lemma wp_handle_response:
  assumes "inbox (link st) = on_wire ls @ i" "header_ok ls" "length (strings_in ls) + 1 < header_size (header st)" "16 < header_size (header st)"
    and "ls = status_line v ds reason # fs" "digits 10 ds" "v \<noteq> 0"
    and "stands_for chunked ls i body" "0 \<le> sock st" "chunk_sz st = 0" "content_length st < 0"
    and "\<And>st'. opened chunked inbox st' body \<Longrightarrow> outbox (link st') = outbox (link st) \<Longrightarrow> header st' = kept ls (header_size (header st)) \<Longrightarrow>
      host st' = host st \<Longrightarrow> req_url st' = req_url st \<Longrightarrow>
      P (number 10 ds) st'"
  shows "wp F (webclient_handle_response W) P st"
proof (rule wp_response_head[OF assms(1-3,5-7)])
  fix n assume n: "inbox n = i" "outbox n = outbox (link st)"
  define k where "k = header_size (header st)"
  define st' where "st' = st\<lparr>header := kept ls k, link := n, resp_status := number 10 ds\<rparr>"
  have h: "header st' = kept ls k" "length (strings_in ls) + 1 < k" "header_ok ls" "ls \<noteq> []" using assms(2,3,5) by (simp_all add: st'_def k_def)
  note f = h(1)[unfolded st'_def] h(2-4)
  show "wp F (ebind read_content_length (\<lambda>_. ebind (first_chunk W) (\<lambda>_. eget resp_status))) P
      (st\<lparr>header := kept ls (header_size (header st)), link := n, resp_status := number 10 ds\<rparr>)"
    unfolding k_def[symmetric] st'_def[symmetric]
  proof (cases chunked)
    case False
    then obtain z where b: "by_length ls (length body)" "i = body @ z" using assms(8) by (auto simp: stands_for_def)
    then have te: "field TRANSFER_ENCODING ls = None" "length body < 2 ^ 31" by (auto simp: by_length_def digits_def)
    define st'' where "st'' = st'\<lparr>content_length := int (length body), content_remainder := length body\<rparr>"
    have h': "header st'' = kept ls k" using h(1) by (simp add: st''_def)
    have "counted inbox st'' body"
      using assms(8-10) te(2) n b(2) by (auto simp: counted_def st''_def st'_def stands_for_def)
    then have "P (number 10 ds) st''"
      by (intro assms(12)) (use n False in \<open>simp_all add: opened_def st''_def st'_def k_def\<close>)
    then show "wp F (ebind read_content_length (\<lambda>_. ebind (first_chunk W) (\<lambda>_. eget resp_status))) P st'"
      unfolding wp_ebind wp_read_content_length[OF h b(1)] st''_def[symmetric] wp_first_chunk_none[OF h' h(2-4) te(1)]
      by (simp add: wp_eget) (simp add: st''_def st'_def)
  next
    case True
    then have "by_chunks ls" "stands_for True ls i body" using assms(8) by (simp_all add: stands_for_def)
    from this(2) obtain hx d cs z j where c: "size_line 16 hx (length d)" "d \<noteq> []" "chunks_ok cs" "size_line 63 z 0"
      "i = hx @ [13, 10] @ d @ later cs z @ j" "body = d @ concat (map snd cs)"
      unfolding stands_for_def if_True by blast
    have te: "field TRANSFER_ENCODING ls = Some (lit ''chunked'')" "field CONTENT_LENGTH ls = None" using \<open>by_chunks ls\<close> by (simp_all add: by_chunks_def)
    define m where "m = (if content_length st' \<noteq> 0 then nat (content_length st' mod 2 ^ 32) else 0xFFFFFFFF)"
    define st'' where "st'' = st'\<lparr>content_remainder := m\<rparr>"
    have cl: "wp F read_content_length Q st' = Q () st''" for Q
      unfolding read_content_length_def wp_ebind wp_field[OF h] CONTENT_LENGTH_def[symmetric] te(2)
      by (simp add: wp_simps m_def st''_def)
    show "wp F (ebind read_content_length (\<lambda>_. ebind (first_chunk W) (\<lambda>_. eget resp_status))) P st'"
      unfolding wp_ebind cl
    proof (rule wp_first_chunk)
      show "header st'' = kept ls k" using h(1) by (simp add: st''_def)
      show "inbox (link st'') = hx @ [13, 10] @ (d @ later cs z @ j)" using n(1) c(5) by (simp add: st''_def st'_def)
      fix n' assume n': "inbox n' = d @ later cs z @ j" "outbox n' = outbox (link st'')"
      let ?s = "st''\<lparr>link := n', chunk_sz := int (length d), chunk_offset := 0\<rparr>"
      have "pending inbox ?s body"
        unfolding pending_def
        by (rule disjI2, intro exI[of _ d] exI[of _ cs] exI[of _ z] exI[of _ j]) (use c n' assms(9) in \<open>simp add: st''_def st'_def\<close>)
      then have "P (number 10 ds) ?s"
        by (intro assms(12)) (use n n' assms(11) True in \<open>simp_all add: opened_def st''_def st'_def k_def\<close>)
      then show "wp F (eget resp_status) P ?s" by (simp add: wp_eget) (simp add: st''_def st'_def)
    qed (use h assms(4) te(1) c(1) in \<open>simp_all add: k_def\<close>)
  qed
qed

end

section \<open>The request\<close>

text \<open>What a GET sends when the caller has added no fields.\<close>

definition get_request :: "byte list \<Rightarrow> byte list \<Rightarrow> byte list" where
  "get_request hn path = lit ''GET '' @ path @ lit '' HTTP/1.1'' @ [13, 10] @ lit ''Host: '' @ hn @ [13, 10] @
     lit ''User-Agent: RT-Thread HTTP Agent'' @ [13, 10, 13, 10]"

lemma line_texts:
  "format_text GET_LINE [A_Str (Some u)] = Inr (lit ''GET '' @ u @ lit '' HTTP/1.1'' @ [13, 10])"
  "format_text HOST_LINE [A_Str (Some h)] = Inr (lit ''Host: '' @ h @ [13, 10])"
  "format_text (AGENT_LINE @ [13, 10]) [] = Inr (lit ''User-Agent: RT-Thread HTTP Agent'' @ [13, 10, 13, 10])"
  by (simp_all add: GET_LINE_def HOST_LINE_def AGENT_LINE_def lit_def convert_text_def fmt_spec_simps letter_text_def
      no_flags_def string_text_def)

text \<open>A header with some text in its buffer, and room behind it.\<close>

definition written :: "byte list \<Rightarrow> nat \<Rightarrow> webclient_header \<Rightarrow> bool" where
  "written t k h \<longleftrightarrow> take (length t) (header_buffer h) = t \<and> length (header_buffer h) = k \<and> header_length h = length t \<and> header_size h = k \<and>
     length t < k"

lemma wp_fields_add:
  assumes "written t k (header st)" "format_text fmt args = Inr u" "length t + length u < k" "header_addr W + k < 2 ^ 32"
    and "\<And>h. written (t @ u) k h \<Longrightarrow> P (int (length u)) (st\<lparr>header := h\<rparr>)"
  shows "wp F (webclient_header_fields_add W fmt args) P st"
proof -
  define h where "h = header st"
  define rest where "rest = overlay 0 (u @ [0]) (drop (length t) (header_buffer h))"
  have h: "take (length t) (header_buffer h) = t" "length (header_buffer h) = k" "header_length h = length t" "header_size h = k"
    using assms(1) by (simp_all add: h_def written_def)
  have room: "(k + 2 ^ 32 - length t) mod 2 ^ 32 = k - length t" using assms(3,4) by (simp add: nat_mod_eq_iff mod_if)
  have "rt_vsnprintf (header_addr W + length t) (drop (length t) (header_buffer h)) (k - length t) fmt args =
      Inr (length u, overlay 0 (take (k - length t - 1) u @ [0]) (drop (length t) (header_buffer h)))"
    by (rule rt_vsnprintf_eq[OF assms(2)]) (use assms(3,4) h in simp_all)
  then have pr: "rt_vsnprintf (header_addr W + length t) (drop (length t) (header_buffer h)) (k - length t) fmt args = Inr (length u, rest)"
    using assms(3) by (simp add: rest_def)
  define h' where "h' = h\<lparr>header_buffer := t @ rest, header_length := length t + length u\<rparr>"
  have len: "length rest = k - length t" using h(2) by (simp add: rest_def)
  have "take (length u) rest = u" using assms(3) h(2) by (simp add: rest_def overlay_def)
  then have "written (t @ u) k h'" using len assms(3) h by (simp add: written_def h'_def)
  from assms(5)[OF this] show ?thesis using room pr h assms(3)
    by (simp add: webclient_header_fields_add_def header_print_def wp_simps h'_def flip: h_def)
qed

context stream
begin

lemma wp_send_header:
  assumes "written [] k (header st)" "req_url st = Block u" "host st = Block hn" "0 \<le> sock st"
    and "length (get_request hn u) < k" "header_addr W + k < 2 ^ 32" "k \<le> fuel"
    and "\<And>n h. inbox n = inbox (link st) \<Longrightarrow> outbox n = outbox (link st) @ get_request hn u \<Longrightarrow> header_size h = k \<Longrightarrow>
      P WEBCLIENT_OK (st\<lparr>header := h, link := n\<rparr>)"
  shows "wp F (webclient_send_header fuel W WEBCLIENT_GET) P st"
proof -
  define a where "a = lit ''GET '' @ u @ lit '' HTTP/1.1'' @ [13, 10 :: byte]"
  define b where "b = lit ''Host: '' @ hn @ [13, 10 :: byte]"
  define c where "c = lit ''User-Agent: RT-Thread HTTP Agent'' @ [13, 10, 13, 10 :: byte]"
  have r: "get_request hn u = a @ b @ c" by (simp add: get_request_def a_def b_def c_def)
  have len: "length a + length b + length c < k" using assms(5) by (simp add: r)
  have send: "wp F (send_buffer fuel W) P (st\<lparr>header := h\<rparr>)" if h: "written ((a @ b) @ c) k h" for h
    unfolding send_buffer_def wp_ebind wp_eget
  proof (rule wp_write)
    have t: "take (header_length h) (header_buffer h) = get_request hn u" using h by (simp add: written_def r)
    show "length (take (header_length (header (st\<lparr>header := h\<rparr>))) (header_buffer (header (st\<lparr>header := h\<rparr>)))) \<le> fuel"
      using assms(5,7) t by simp
    fix n assume n: "inbox n = inbox (link (st\<lparr>header := h\<rparr>))"
      "outbox n = outbox (link (st\<lparr>header := h\<rparr>)) @ take (header_length (header (st\<lparr>header := h\<rparr>))) (header_buffer (header (st\<lparr>header := h\<rparr>)))"
    show "wp F (eret WEBCLIENT_OK) P (st\<lparr>header := h, link := n\<rparr>)"
      using assms(8)[of n h] n t h by (simp add: wp_eret written_def)
  qed (simp add: assms(4))
  have agent: "wp F (add_or_fail W (AGENT_LINE @ [13, 10]) [] (send_buffer fuel W)) P (st\<lparr>header := h\<rparr>)" if h: "written (a @ b) k h" for h
    unfolding add_or_fail_def wp_ebind
  proof (rule wp_fields_add)
    show "written (a @ b) k (header (st\<lparr>header := h\<rparr>))" using h by simp
    show "format_text (AGENT_LINE @ [13, 10]) [] = Inr c" unfolding c_def by (rule line_texts(3))
  qed (use len assms(6) send in simp_all)
  have host_l: "wp F (ebind (eget host) (\<lambda>hp. ebind (elift (heap_text hp)) (\<lambda>host_name.
      add_or_fail W HOST_LINE [A_Str host_name] (add_or_fail W (AGENT_LINE @ [13, 10]) [] (send_buffer fuel W))))) P (st\<lparr>header := h\<rparr>)"
    if h: "written ([] @ a) k h" for h
  proof -
    have "wp F (add_or_fail W HOST_LINE [A_Str (Some hn)] (add_or_fail W (AGENT_LINE @ [13, 10]) [] (send_buffer fuel W))) P (st\<lparr>header := h\<rparr>)"
      unfolding add_or_fail_def[of W HOST_LINE] wp_ebind
    proof (rule wp_fields_add)
      show "written a k (header (st\<lparr>header := h\<rparr>))" using h by simp
      show "format_text HOST_LINE [A_Str (Some hn)] = Inr b" unfolding b_def by (rule line_texts(2))
    qed (use len assms(6) agent in simp_all)
    then show ?thesis using assms(3) by (simp add: wp_ebind wp_eget wp_elift_Inr)
  qed
  have "wp F (add_or_fail W GET_LINE [A_Str (Some u)] (ebind (eget host) (\<lambda>hp. ebind (elift (heap_text hp)) (\<lambda>host_name.
      add_or_fail W HOST_LINE [A_Str host_name] (add_or_fail W (AGENT_LINE @ [13, 10]) [] (send_buffer fuel W)))))) P st"
    unfolding add_or_fail_def[of W GET_LINE] wp_ebind[of _ "webclient_header_fields_add W GET_LINE [A_Str (Some u)]"]
  proof (rule wp_fields_add[OF assms(1)])
    show "format_text GET_LINE [A_Str (Some u)] = Inr a" unfolding a_def by (rule line_texts(1))
    fix h assume "written ([] @ a) k h"
    from host_l[OF this] show "wp F (if int (length a) < 0 then eret (- WEBCLIENT_NOMEM) else ebind (eget host) (\<lambda>hp. ebind (elift (heap_text hp)) (\<lambda>host_name.
      add_or_fail W HOST_LINE [A_Str host_name] (add_or_fail W (AGENT_LINE @ [13, 10]) [] (send_buffer fuel W))))) P (st\<lparr>header := h\<rparr>)"
      by simp
  qed (use len assms(6) in simp_all)
  then show ?thesis using assms(1,2) by (simp add: webclient_send_header_def wp_ebind wp_eget wp_elift_Inr written_def)
qed

end

text \<open>The host name resolves and the server accepts the connection.\<close>

locale reachable = stream W inbox outbox
  for W :: "('n, 'a) sockets" and inbox :: "'n \<Rightarrow> byte list" and outbox :: "'n \<Rightarrow> byte list" +
  assumes resolve_law: "\<exists>a n'. getaddrinfo W h p n = ((0, Some a), n') \<and> inbox n' = inbox n \<and> outbox n' = outbox n"
    and open_law: "\<exists>s n'. 0 \<le> s \<and> socket_open W a n = (s, n') \<and> inbox n' = inbox n \<and> outbox n' = outbox n"
    and timeo_law: "inbox (setsockopt_timeo W s t n) = inbox n \<and> outbox (setsockopt_timeo W s t n) = outbox n"
    and connect_law: "\<exists>n'. socket_connect W s a n = (0, n') \<and> inbox n' = inbox n \<and> outbox n' = outbox n"
    and quiet_law: "outbox (snd (socket_recv W s k n)) = outbox n"
    and close_law: "outbox (socket_close W s n) = outbox n"
begin

lemma wp_connect:
  assumes "hn \<noteq> []" "47 \<notin> set hn" "58 \<notin> set hn" "58 \<notin> set path" "hd hn \<noteq> 91" "\<not> is_tls st"
    and "\<And>n s. inbox n = inbox (link st) \<Longrightarrow> outbox n = outbox (link st) \<Longrightarrow> 0 \<le> s \<Longrightarrow>
      P WEBCLIENT_OK (st\<lparr>host := Block hn, req_url := Block (47 # path), sock := s, link := n\<rparr>)"
  shows "wp F (webclient_connect W (lit ''http://'' @ hn @ 47 # path)) P st"
proof -
  define url where "url = lit ''http://'' @ hn @ 47 # path"
  have nh: "take 8 url \<noteq> lit ''https://''" by (simp add: url_def lit_def)
  have parts: "url_parts url = Inr (Some (hn, lit ''80'', 47 # path))"
    unfolding url_def by (rule url_parts_plain[OF assms(1-5)])
  obtain n1 where n1: "web_alloc W (length hn + 1) (link st) = (True, n1)" "inbox n1 = inbox (link st)" "outbox n1 = outbox (link st)"
    using alloc_law by metis
  obtain a n2 where n2: "getaddrinfo W hn (lit ''80'') n1 = ((0, Some a), n2)" "inbox n2 = inbox (link st)" "outbox n2 = outbox (link st)"
    using resolve_law[of hn "lit ''80''" n1] n1 by auto
  obtain n3 where n3: "web_alloc W (length (47 # path) + 1) n2 = (True, n3)" "inbox n3 = inbox (link st)" "outbox n3 = outbox (link st)"
    using alloc_law n2 by metis
  obtain s n4 where n4: "0 \<le> s" "socket_open W a n3 = (s, n4)" "inbox n4 = inbox (link st)" "outbox n4 = outbox (link st)"
    using open_law[of a n3] n3 by auto
  obtain n5 where n5: "socket_connect W s a (setsockopt_timeo W s WEBCLIENT_DEFAULT_TIMEO n4) = (0, n5)" "inbox n5 = inbox (link st)" "outbox n5 = outbox (link st)"
    using connect_law[of s a "setsockopt_timeo W s WEBCLIENT_DEFAULT_TIMEO n4"] n4 timeo_law by auto
  have st: "st\<lparr>link := n1, host := Block hn, link := n2, link := n3, req_url := Block (47 # path), link := n4,
      link := setsockopt_timeo W s WEBCLIENT_DEFAULT_TIMEO n4, link := n5, sock := s\<rparr> =
    st\<lparr>host := Block hn, req_url := Block (47 # path), sock := s, link := n5\<rparr>"
    by (cases st) simp
  have "webclient_connect W url st = Inr (WEBCLIENT_OK, st\<lparr>host := Block hn, req_url := Block (47 # path), sock := s, link := n5\<rparr>)"
    using n1(1) n2(1) n3(1) n4(1,2) n5(1) assms(6) nh st
    by (simp add: webclient_connect_def webclient_resolve_address_def parts ebind_def eret_def eget_def emod_def elift_def on_link_def WEBCLIENT_OK_def)
  then show ?thesis using assms(7)[OF n5(2,3) n4(1)] by (simp add: wp_def url_def)
qed

end

section \<open>The whole exchange\<close>

text \<open>A host and a path without a port, and what a server answers to a session with a header of \<open>k\<close> bytes: a status, the
  fields, and the body.\<close>

definition plain_url :: "byte list \<Rightarrow> byte list \<Rightarrow> bool" where
  "plain_url hn path \<longleftrightarrow> hn \<noteq> [] \<and> hd hn \<noteq> 91 \<and> 47 \<notin> set hn \<and> 58 \<notin> set hn \<and> 58 \<notin> set path"

definition url_of :: "byte list \<Rightarrow> byte list \<Rightarrow> byte list" where
  "url_of hn path = lit ''http://'' @ hn @ 47 # path"

definition answers :: "bool \<Rightarrow> nat \<Rightarrow> byte list \<Rightarrow> int \<Rightarrow> byte list \<Rightarrow> bool" where
  "answers chunked k bs status body \<longleftrightarrow>
     (\<exists>v ds reason fs i. let ls = status_line v ds reason # fs in
        bs = on_wire ls @ i \<and> header_ok ls \<and> length (strings_in ls) + 1 < k \<and> v \<noteq> 0 \<and> digits 10 ds \<and> status = number 10 ds \<and>
        stands_for chunked ls i body \<and> (status \<noteq> 301 \<and> status \<noteq> 302 \<or> field (lit ''Location'') ls = None))"

text \<open>A session that has not been used.\<close>

definition unused :: "nat \<Rightarrow> 'n web \<Rightarrow> bool" where
  "unused k st \<longleftrightarrow> written [] k (header st) \<and> \<not> is_tls st \<and> chunk_sz st = 0 \<and> content_length st < 0"

text \<open>The end of a session: its strings must not have been released already.\<close>

lemma webclient_clean_eq:
  "webclient_clean W st =
     (if host st = Dangling \<or> req_url st = Dangling then Inl Released
      else Inr ((), st\<lparr>link := (if 0 \<le> sock st then socket_close W (sock st) (link st) else link st), sock := min (sock st) (-1),
        host := after_free (host st), req_url := after_free (req_url st), content_length := -1\<rparr>))"
proof -
  have s: "(if 0 \<le> sock st then closesocket W else eret ()) st =
      Inr ((), st\<lparr>link := (if 0 \<le> sock st then socket_close W (sock st) (link st) else link st), sock := min (sock st) (-1)\<rparr>)"
    by (auto simp: closesocket_def emod_def eret_def min_def)
  show ?thesis unfolding webclient_clean_def ebind_def eget_def emod_def elift_def cbind_Inr prod.case s
    by (cases "host st"; cases "req_url st") simp_all
qed

context reachable
begin

lemma wp_webclient_get:
  assumes "unused k st" "plain_url hn path" "length (get_request hn (47 # path)) < k" "header_addr W + k < 2 ^ 32" "16 < k" "k \<le> fuel"
    and "answers chunked k (inbox (link st)) status body"
    and "\<And>st'. opened chunked inbox st' body \<Longrightarrow> outbox (link st') = outbox (link st) @ get_request hn (47 # path) \<Longrightarrow> host st' = Block hn \<Longrightarrow> req_url st' = Block (47 # path) \<Longrightarrow>
      P status st'"
  shows "wp F (webclient_get fuel W (url_of hn path)) P st"
proof -
  obtain v ds reason fs i ls where a: "ls = status_line v ds reason # fs" "inbox (link st) = on_wire ls @ i" "header_ok ls" "length (strings_in ls) + 1 < k" "v \<noteq> 0"
    "digits 10 ds" "status = number 10 ds" "stands_for chunked ls i body" "status \<noteq> 301 \<and> status \<noteq> 302 \<or> field (lit ''Location'') ls = None"
    using assms(7) unfolding answers_def Let_def by metis
  obtain f where f: "fuel = Suc f" using assms(5,6) by (cases fuel) auto
  have loc: "wp F (relocation W status again) P st'" if h: "header st' = kept ls k" and P: "P status st'" for st' again
  proof -
    have fd: "wp F (webclient_header_fields_get (lit ''Location'')) Q st' = Q (field (lit ''Location'') ls) st'" for Q
      by (rule wp_field[OF h a(4,3)]) (simp add: a(1))
    show ?thesis using a(9) P unfolding relocation_def by (auto simp: wp_ebind wp_eret fd)
  qed
  show ?thesis unfolding f webclient_get.simps url_of_def wp_ebind
  proof (rule wp_connect)
    fix n and s :: int
    assume n: "inbox n = inbox (link st)" "outbox n = outbox (link st)" and s: "0 \<le> s"
    define st1 where "st1 = st\<lparr>host := Block hn, req_url := Block (47 # path), sock := s, link := n\<rparr>"
    have "wp F (webclient_send_header (Suc f) W WEBCLIENT_GET) (\<lambda>rc. wp F (if rc \<noteq> WEBCLIENT_OK then eret rc
        else ebind (webclient_handle_response W) (\<lambda>status. relocation W status (webclient_get f W))) P) st1"
    proof (rule wp_send_header)
      fix n' and h :: webclient_header
      assume n': "inbox n' = inbox (link st1)" "outbox n' = outbox (link st1) @ get_request hn (47 # path)" and h: "header_size h = k"
      have "wp F (webclient_handle_response W) (\<lambda>status. wp F (relocation W status (webclient_get f W)) P) (st1\<lparr>header := h, link := n'\<rparr>)"
      proof (rule wp_handle_response[OF _ a(3) _ _ a(1,6,5,8)])
        fix st' assume st': "opened chunked inbox st' body" "outbox (link st') = outbox (link (st1\<lparr>header := h, link := n'\<rparr>))"
          "header st' = kept ls (header_size (header (st1\<lparr>header := h, link := n'\<rparr>)))"
          "host st' = host (st1\<lparr>header := h, link := n'\<rparr>)" "req_url st' = req_url (st1\<lparr>header := h, link := n'\<rparr>)"
        have "P status st'" using assms(8)[of st'] st' n n' by (simp add: st1_def)
        then show "wp F (relocation W (number 10 ds) (webclient_get f W)) P st'" using loc[of st'] st'(3) h a(7) by simp
      qed (use a(2,4) n n' h s assms(1,5) in \<open>simp_all add: st1_def unused_def\<close>)
      then show "wp F (if WEBCLIENT_OK \<noteq> WEBCLIENT_OK then eret WEBCLIENT_OK
        else ebind (webclient_handle_response W) (\<lambda>status. relocation W status (webclient_get f W))) P (st1\<lparr>header := h, link := n'\<rparr>)"
        by (simp add: wp_ebind)
    qed (use assms(1,3,4,6) s f in \<open>simp_all add: st1_def unused_def\<close>)
    then show "wp F (if WEBCLIENT_OK \<noteq> WEBCLIENT_OK then eret WEBCLIENT_OK
        else ebind (webclient_send_header (Suc f) W WEBCLIENT_GET) (\<lambda>rc. if rc \<noteq> WEBCLIENT_OK then eret rc
        else ebind (webclient_handle_response W) (\<lambda>status. relocation W status (webclient_get f W)))) P
        (st\<lparr>host := Block hn, req_url := Block (47 # path), sock := s, link := n\<rparr>)"
      by (simp add: wp_ebind st1_def)
  qed (use assms(1,2) in \<open>simp_all add: plain_url_def unused_def\<close>)
qed

text \<open>The sessions that are created have not been used.\<close>

lemma session_create_fresh:
  assumes "0 < k"
  shows "\<exists>st n'. webclient_session_create W k n = (Some st, n') \<and> unused k st \<and> inbox (link st) = inbox n \<and> outbox (link st) = outbox n"
proof -
  obtain n1 where n1: "web_alloc W 56 n = (True, n1)" "inbox n1 = inbox n" "outbox n1 = outbox n" using alloc_law by metis
  obtain n2 where n2: "web_alloc W 12 n1 = (True, n2)" "inbox n2 = inbox n" "outbox n2 = outbox n" using alloc_law n1 by metis
  obtain n3 where n3: "web_alloc W k n2 = (True, n3)" "inbox n3 = inbox n" "outbox n3 = outbox n" using alloc_law n2 by metis
  show ?thesis using n1 n2 n3 assms by (simp add: webclient_session_create_def unused_def written_def)
qed

text \<open>Reading sends nothing, and leaves the two strings of the session alone.\<close>

definition quiet :: "('b, 'n web) crun \<Rightarrow> bool" where
  "quiet m \<longleftrightarrow> (\<forall>st x st'. m st = Inr (x, st') \<longrightarrow> host st' = host st \<and> req_url st' = req_url st \<and> outbox (link st') = outbox (link st))"

lemma quiet_ebind: "quiet m \<Longrightarrow> (\<And>x. quiet (f x)) \<Longrightarrow> quiet (ebind m f)"
  by (fastforce simp: quiet_def ebind_def cbind_def split: sum.splits)

lemma quiet_steps:
  "quiet (eret x)" "quiet (elift r)" "quiet (eget g)" "quiet (on_link (web_alloc W k))" "quiet (closesocket W)"
  "quiet (webclient_recv W k)" "quiet (emod (\<lambda>st. st\<lparr>chunk_sz := c, chunk_offset := d\<rparr>))" "quiet (emod (\<lambda>st. st\<lparr>chunk_sz := c\<rparr>))"
  "quiet (emod (\<lambda>st. st\<lparr>chunk_offset := chunk_offset st + e\<rparr>))"
  "quiet (emod (\<lambda>st. if content_length st > 0 then st\<lparr>content_remainder := q st\<rparr> else st))"
proof -
  show "quiet (eret x)" "quiet (elift r)" "quiet (eget g)" "quiet (emod (\<lambda>st. st\<lparr>chunk_sz := c, chunk_offset := d\<rparr>))"
    "quiet (emod (\<lambda>st. st\<lparr>chunk_sz := c\<rparr>))" "quiet (emod (\<lambda>st. st\<lparr>chunk_offset := chunk_offset st + e\<rparr>))"
    "quiet (emod (\<lambda>st. if content_length st > 0 then st\<lparr>content_remainder := q st\<rparr> else st))"
    by (auto simp: quiet_def eret_def elift_def eget_def emod_def cbind_def split: sum.splits)
  show "quiet (closesocket W)" by (auto simp: quiet_def closesocket_def emod_def close_law)
  have "outbox (snd (web_alloc W k n)) = outbox n" for n using alloc_law[of k n] by auto
  then show "quiet (on_link (web_alloc W k))" by (auto simp: quiet_def on_link_def split: prod.splits) (metis snd_conv)
  have "outbox (link st') = outbox (link st) \<and> host st' = host st \<and> req_url st' = req_url st"
    if "webclient_recv W k st = Inr (x, st')" for st x st'
    using that quiet_law[of "sock st" k "link st"]
    by (auto simp: webclient_recv_def ebind_def eget_def on_link_def eret_def elift_def split: prod.splits received.splits if_splits)
  then show "quiet (webclient_recv W k)" by (auto simp: quiet_def)
qed

lemma quiet_read_line: "quiet (webclient_read_line W buffer n)"
proof -
  have "quiet (read_line_loop W n count last_ch buffer)" for n count last_ch buffer
    by (induction n arbitrary: count last_ch buffer) (auto intro!: quiet_ebind quiet_steps simp: case_prod_beta')
  then show ?thesis by (simp add: webclient_read_line_def)
qed

lemma quiet_next_chunk: "quiet (webclient_next_chunk W)"
  unfolding webclient_next_chunk_def
  by (auto intro!: quiet_ebind quiet_steps quiet_read_line simp: case_prod_beta')

lemma quiet_read: "quiet (webclient_read W buffer len)"
proof -
  have none: "quiet (nothing_read W)" unfolding nothing_read_def by (auto intro!: quiet_ebind quiet_steps)
  have loop: "quiet (read_loop fuel W left total_read buffer)" for fuel left total_read buffer
    by (induction fuel arbitrary: left total_read buffer) (auto intro!: quiet_ebind quiet_steps none simp: case_prod_beta')
  have plain: "quiet (read_plain W k buffer)" for k
    unfolding read_plain_def by (auto intro!: quiet_ebind quiet_steps loop simp: case_prod_beta' simp del: read_loop.simps)
  have chunk: "quiet (read_chunk W k buffer)" for k
    unfolding read_chunk_def by (auto intro!: quiet_ebind quiet_steps none quiet_next_chunk simp: case_prod_beta')
  show ?thesis unfolding webclient_read_def Let_def by (auto intro!: quiet_ebind quiet_steps plain chunk)
qed

lemma quiet_response: "quiet (webclient_response fuel W)"
proof -
  have chunks: "quiet (response_chunks fuel W k b)" for k b
    by (induction fuel arbitrary: k b) (auto intro!: quiet_ebind quiet_steps quiet_read simp: case_prod_beta' Let_def)
  have len: "quiet (response_length fuel W n k b)" for fuel n k b
    by (induction fuel arbitrary: k b) (auto intro!: quiet_ebind quiet_steps quiet_read simp: case_prod_beta' Let_def)
  show ?thesis unfolding webclient_response_def
    by (auto intro!: quiet_ebind quiet_steps chunks len simp: case_prod_beta' simp del: response_length.simps split: option.splits)
qed

lemma wp_quiet:
  "quiet m \<Longrightarrow> wp F m (\<lambda>x st'. host st' = host st \<longrightarrow> req_url st' = req_url st \<longrightarrow> outbox (link st') = outbox (link st) \<longrightarrow> P x st') st \<Longrightarrow>
   wp F m P st"
  by (fastforce simp: quiet_def wp_def split: sum.splits)

text \<open>A request without fields of its own and without data, with its session from the creation to the close.\<close>

lemma request_runs:
  assumes "answers chunked WEBCLIENT_HEADER_BUFSZ (inbox n) status body" "plain_url hn path"
    and "length (get_request hn (47 # path)) < WEBCLIENT_HEADER_BUFSZ" "header_addr W + WEBCLIENT_HEADER_BUFSZ < 2 ^ 32"
    and "WEBCLIENT_HEADER_BUFSZ \<le> fuel" "length body < fuel"
  shows "\<exists>r n'. webclient_request fuel W (url_of hn path) None None True n = Inr (r, n') \<and>
      outbox n' = outbox n @ get_request hn (47 # path) \<and>
      (if status = 200 then \<exists>z. r = (int (length body), Some (body @ 0 # z)) else r = (- WEBCLIENT_ERROR, None))"
proof -
  obtain st n1 where c: "webclient_session_create W WEBCLIENT_HEADER_BUFSZ n = (Some st, n1)" "unused WEBCLIENT_HEADER_BUFSZ st"
    "inbox (link st) = inbox n" "outbox (link st) = outbox n"
    using session_create_fresh[of WEBCLIENT_HEADER_BUFSZ n] by (auto simp: WEBCLIENT_HEADER_BUFSZ_def)
  define Q where "Q = (\<lambda>r (st' :: 'n web). host st' = Block hn \<and> req_url st' = Block (47 # path) \<and> outbox (link st') = outbox n @ get_request hn (47 # path) \<and>
      (if status = 200 then \<exists>z. r = (int (length body), Some (body @ 0 # z)) else r = (- WEBCLIENT_ERROR, None :: byte list option)))"
  have "wp (\<lambda>_. False) (request_run fuel W (url_of hn path) None None True) Q st"
    unfolding request_run_def option.case wp_ebind wp_eret
  proof (rule wp_webclient_get[OF c(2) assms(2-4) _ assms(5)])
    show "16 < WEBCLIENT_HEADER_BUFSZ" by (simp add: WEBCLIENT_HEADER_BUFSZ_def)
    show "answers chunked WEBCLIENT_HEADER_BUFSZ (inbox (link st)) status body" using assms(1) c(3) by simp
    fix st' assume r: "opened chunked inbox st' body" and st': "outbox (link st') = outbox (link st) @ get_request hn (47 # path)" "host st' = Block hn" "req_url st' = Block (47 # path)"
    have ne: "body \<noteq> []" using assms(1) by (auto simp: answers_def stands_for_def Let_def)
    show "wp (\<lambda>_. False) (if status \<noteq> 200 then eret (- WEBCLIENT_ERROR, None)
        else ebind (eassert True) (\<lambda>_. ebind (webclient_response fuel W) (\<lambda>(totle_length, response).
          eret (if totle_length \<le> 0 then - WEBCLIENT_ERROR else totle_length, response)))) Q st'"
    proof (cases "status = 200")
      case False
      then show ?thesis using st' c(4) by (simp add: wp_eret Q_def)
    next
      case True
      have "wp (\<lambda>_. False) (webclient_response fuel W) (\<lambda>x. wp (\<lambda>_. False) (case x of (totle_length, response) \<Rightarrow>
          eret (if totle_length \<le> 0 then - WEBCLIENT_ERROR else totle_length, response)) Q) st'"
        by (rule wp_quiet[OF quiet_response wp_webclient_response[OF opened_delivers(1)[OF r] ne assms(6) opened_delivers(2)[OF r]]])
          (use st' c(4) True ne in \<open>simp add: wp_eret Q_def\<close>)
      then show ?thesis using True by (simp add: wp_ebind wp_eassert)
    qed
  qed
  then obtain r st' where r: "request_run fuel W (url_of hn path) None None True st = Inr (r, st')" "Q r st'"
    unfolding wp_total by auto
  then obtain n' where n': "webclient_close W st' = Inr n'" "outbox n' = outbox (link st')"
    by (auto simp: webclient_close_def webclient_clean_eq Q_def close_law)
  then have "webclient_request fuel W (url_of hn path) None None True n = Inr (r, n')"
    using c(1) r(1) by (cases r) (simp add: webclient_request_def)
  then show ?thesis using r(2) n'(2) unfolding Q_def by auto
qed

end

end
