(* ===== verification/Webclient_Redirect.thy ===== *)
theory Webclient_Redirect
  imports Webclient_Client
begin

text \<open>
  A reply that sends the client to another URL: the session that is cleaned keeps the pointers to the strings it has
  released, and a URL that cannot be connected to releases them again.
\<close>

section \<open>The reply\<close>

definition LOCATION :: "byte list" where "LOCATION = lit ''Location''"

definition sends_to :: "nat \<Rightarrow> byte list \<Rightarrow> byte list \<Rightarrow> bool" where
  "sends_to k bs url \<longleftrightarrow>
     (\<exists>v ds reason fs i. let ls = status_line v ds reason # fs in
        bs = on_wire ls @ i \<and> header_ok ls \<and> length (strings_in ls) + 1 < k \<and> v \<noteq> 0 \<and> digits 10 ds \<and> number 10 ds \<in> {301, 302} \<and>
        field LOCATION ls = Some url \<and> field TRANSFER_ENCODING ls = None \<and>
        (case field CONTENT_LENGTH ls of None \<Rightarrow> True | Some c \<Rightarrow> digits 10 c))"

lemma wp_read_content_length_any:
  assumes "header st = kept ls k" "length (strings_in ls) + 1 < k" "header_ok ls" "ls \<noteq> []"
    and "case field CONTENT_LENGTH ls of None \<Rightarrow> True | Some c \<Rightarrow> digits 10 c"
    and "\<And>m r. P () (st\<lparr>content_length := m, content_remainder := r\<rparr>)"
  shows "wp F read_content_length P st"
proof (cases "field CONTENT_LENGTH ls")
  case None
  have "P () (st\<lparr>content_remainder := r\<rparr>)" for r using assms(6)[of r "content_length st"] by (cases st) simp
  then show ?thesis using None
    by (simp add: read_content_length_def wp_simps wp_field[OF assms(1-4)] flip: CONTENT_LENGTH_def)
next
  case (Some c)
  then have "digits 10 c" using assms(5) by simp
  from strtol_number[OF this, of 0 "[]"] have "strtol 10 (c @ [0]) = Inr (number 10 c)" by (simp add: digit_value_def)
  then show ?thesis using assms(6) Some
    by (simp add: read_content_length_def wp_simps wp_field[OF assms(1-4)] flip: CONTENT_LENGTH_def)
qed

context stream
begin

lemma wp_handle_other:
  assumes "inbox (link st) = on_wire ls @ i" "header_ok ls" "length (strings_in ls) + 1 < header_size (header st)"
    and "ls = status_line v ds reason # fs" "digits 10 ds" "v \<noteq> 0" "field TRANSFER_ENCODING ls = None"
    and "case field CONTENT_LENGTH ls of None \<Rightarrow> True | Some c \<Rightarrow> digits 10 c"
    and "\<And>st'. header st' = kept ls (header_size (header st)) \<Longrightarrow> host st' = host st \<Longrightarrow> req_url st' = req_url st \<Longrightarrow> sock st' = sock st \<Longrightarrow>
      is_tls st' = is_tls st \<Longrightarrow> P (number 10 ds) st'"
  shows "wp F (webclient_handle_response W) P st"
proof (rule wp_response_head[OF assms(1-6)])
  fix n
  define k where "k = header_size (header st)"
  define st' where "st' = st\<lparr>header := kept ls k, link := n, resp_status := number 10 ds\<rparr>"
  have h: "length (strings_in ls) + 1 < k" "header_ok ls" "ls \<noteq> []" using assms(2,3,4) by (simp_all add: k_def)
  have "wp F read_content_length (\<lambda>_. wp F (first_chunk W) (\<lambda>_. wp F (eget resp_status) P)) st'"
  proof (rule wp_read_content_length_any[where ls = ls and k = k])
    fix m r
    let ?s = "st'\<lparr>content_length := m, content_remainder := r\<rparr>"
    have hs: "header ?s = kept ls k" by (simp add: st'_def)
    have "P (number 10 ds) ?s" by (rule assms(9)) (simp_all add: st'_def k_def)
    then show "wp F (first_chunk W) (\<lambda>_. wp F (eget resp_status) P) ?s"
      unfolding wp_first_chunk_none[OF hs h assms(7)] wp_eget by (simp add: st'_def)
  qed (use h assms(8) in \<open>simp_all add: st'_def\<close>)
  then show "wp F (ebind read_content_length (\<lambda>_. ebind (first_chunk W) (\<lambda>_. eget resp_status))) P
      (st\<lparr>header := kept ls (header_size (header st)), link := n, resp_status := number 10 ds\<rparr>)"
    by (simp add: wp_ebind_fun st'_def k_def)
qed

end

section \<open>Starting again\<close>

text \<open>A URL without the protocol the client speaks.\<close>

lemma connect_foreign:
  assumes "take 7 url \<noteq> lit ''http://''" "host st = Dangling" "F Released"
    and "P (- WEBCLIENT_ERROR) st"
  shows "wp F (webclient_connect W url) P st"
proof (cases "take 8 url = lit ''https://''")
  case True
  then show ?thesis using assms(4) by (simp add: webclient_connect_def wp_eret)
next
  case False
  then have "url_parts url = Inr None" using assms(1) by (simp add: url_parts_def strip_protocol_def)
  then show ?thesis using False assms(2,3)
    by (simp add: webclient_connect_def webclient_resolve_address_def wp_simps WEBCLIENT_OK_def WEBCLIENT_ERROR_def)
qed

context reachable
begin

lemma wp_get_redirect:
  assumes "unused k st" "plain_url hn path" "length (get_request hn (47 # path)) < k" "header_addr W + k < 2 ^ 32" "k < fuel" "0 < k"
    and "sends_to k (inbox (link st)) url" "take 7 url \<noteq> lit ''http://''"
  shows "wp (\<lambda>e. e = Released) (webclient_get fuel W (url_of hn path)) (\<lambda>rc st'. rc = - WEBCLIENT_ERROR \<and> host st' = Dangling) st"
    (is "wp ?F _ ?P st")
proof -
  obtain v ds reason fs i ls where a: "ls = status_line v ds reason # fs" "inbox (link st) = on_wire ls @ i" "header_ok ls" "length (strings_in ls) + 1 < k" "v \<noteq> 0"
    "digits 10 ds" "number 10 ds \<in> {301, 302}" "field LOCATION ls = Some url" "field TRANSFER_ENCODING ls = None"
    "case field CONTENT_LENGTH ls of None \<Rightarrow> True | Some c \<Rightarrow> digits 10 c"
    using assms(7) unfolding sends_to_def Let_def by metis
  obtain f where f: "fuel = Suc f" "0 < f" using assms(5,6) by (cases fuel) auto
  obtain g where g: "f = Suc g" using f(2) by (cases f) auto
  define again where "again = webclient_get f W"
  have again: "wp ?F (again url) ?P st'" if "host st' = Dangling" for st'
    unfolding again_def g webclient_get.simps wp_ebind
    by (rule connect_foreign[OF assms(8) that]) (use that in \<open>simp_all add: wp_eret WEBCLIENT_OK_def WEBCLIENT_ERROR_def\<close>)
  have loc: "wp ?F (relocation W (number 10 ds) again) ?P st'"
    if h: "header st' = kept ls k" and s: "host st' = Block x" "req_url st' = Block y" for st' x y
  proof -
    have fd: "wp ?F (webclient_header_fields_get (lit ''Location'')) Q st' = Q (Some url) st'" for Q
      using wp_field[OF h a(4,3), of ?F LOCATION Q] a(1,8) by (simp add: LOCATION_def)
    have "wp ?F (on_link (web_alloc W (length url + 1))) (\<lambda>ok. wp ?F (if \<not> ok then eret (- WEBCLIENT_NOMEM)
          else ebind (webclient_clean W) (\<lambda>_. ebind (set_length 0) (\<lambda>_. ebind (eget header) (\<lambda>h.
            ebind (set_buffer (replicate (header_size h) 0)) (\<lambda>_. again url))))) ?P) st'"
    proof (rule wp_alloc)
      fix n
      obtain st2 where c: "webclient_clean W (st'\<lparr>link := n\<rparr>) = Inr ((), st2)" "host st2 = Dangling"
        using s by (simp add: webclient_clean_eq)
      have "wp ?F (webclient_clean W) Q (st'\<lparr>link := n\<rparr>) = Q () st2" for Q by (simp add: wp_def c(1))
      then show "wp ?F (if \<not> True then eret (- WEBCLIENT_NOMEM)
          else ebind (webclient_clean W) (\<lambda>_. ebind (set_length 0) (\<lambda>_. ebind (eget header) (\<lambda>h.
            ebind (set_buffer (replicate (header_size h) 0)) (\<lambda>_. again url))))) ?P (st'\<lparr>link := n\<rparr>)"
        using again c(2) by (simp add: wp_ebind wp_eget wp_set_buffer wp_set_length)
    qed
    then show ?thesis using a(7) unfolding relocation_def by (auto simp: wp_ebind fd cong: if_cong)
  qed
  show ?thesis unfolding f(1) webclient_get.simps url_of_def wp_ebind
  proof (rule wp_connect)
    fix n and s :: int
    assume n: "inbox n = inbox (link st)" "outbox n = outbox (link st)" and s: "0 \<le> s"
    define st1 where "st1 = st\<lparr>host := Block hn, req_url := Block (47 # path), sock := s, link := n\<rparr>"
    have "wp ?F (webclient_send_header (Suc f) W WEBCLIENT_GET) (\<lambda>rc. wp ?F (if rc \<noteq> WEBCLIENT_OK then eret rc
        else ebind (webclient_handle_response W) (\<lambda>status. relocation W status again)) ?P) st1"
    proof (rule wp_send_header)
      fix n' and h :: webclient_header
      assume n': "inbox n' = inbox (link st1)" "outbox n' = outbox (link st1) @ get_request hn (47 # path)" and h: "header_size h = k"
      have "wp ?F (webclient_handle_response W) (\<lambda>status. wp ?F (relocation W status again) ?P) (st1\<lparr>header := h, link := n'\<rparr>)"
      proof (rule wp_handle_other[OF _ a(3) _ a(1,6,5,9,10)])
        fix st' :: "'n web"
        assume "header st' = kept ls (header_size (header (st1\<lparr>header := h, link := n'\<rparr>)))"
          "host st' = host (st1\<lparr>header := h, link := n'\<rparr>)" "req_url st' = req_url (st1\<lparr>header := h, link := n'\<rparr>)"
        then show "wp ?F (relocation W (number 10 ds) again) ?P st'" using loc[of st'] h by (simp add: st1_def)
      qed (use a(2,4) n n' h in \<open>simp_all add: st1_def\<close>)
      then show "wp ?F (if WEBCLIENT_OK \<noteq> WEBCLIENT_OK then eret WEBCLIENT_OK
        else ebind (webclient_handle_response W) (\<lambda>status. relocation W status again)) ?P (st1\<lparr>header := h, link := n'\<rparr>)"
        by (simp add: wp_ebind)
    qed (use assms(1,3,4,5) s f(1) in \<open>simp_all add: st1_def unused_def\<close>)
    then show "wp ?F (if WEBCLIENT_OK \<noteq> WEBCLIENT_OK then eret WEBCLIENT_OK
        else ebind (webclient_send_header (Suc f) W WEBCLIENT_GET) (\<lambda>rc. if rc \<noteq> WEBCLIENT_OK then eret rc
        else ebind (webclient_handle_response W) (\<lambda>status. relocation W status (webclient_get f W)))) ?P
        (st\<lparr>host := Block hn, req_url := Block (47 # path), sock := s, link := n\<rparr>)"
      unfolding again_def by (simp add: wp_ebind st1_def del: webclient_get.simps)
  qed (use assms(1,2) in \<open>simp_all add: plain_url_def unused_def\<close>)
qed

text \<open>The request ends in a second release, in the call that follows the redirection or in the close of the session.\<close>

lemma request_redirected:
  assumes "sends_to WEBCLIENT_HEADER_BUFSZ (inbox n) url" "take 7 url \<noteq> lit ''http://''" "plain_url hn path"
    and "length (get_request hn (47 # path)) < WEBCLIENT_HEADER_BUFSZ" "header_addr W + WEBCLIENT_HEADER_BUFSZ < 2 ^ 32"
    and "WEBCLIENT_HEADER_BUFSZ < fuel"
  shows "webclient_request fuel W (url_of hn path) None None True n = Inl Released"
proof -
  obtain st n1 where c: "webclient_session_create W WEBCLIENT_HEADER_BUFSZ n = (Some st, n1)" "unused WEBCLIENT_HEADER_BUFSZ st" "inbox (link st) = inbox n"
    using session_create_fresh[of WEBCLIENT_HEADER_BUFSZ n] by (auto simp: WEBCLIENT_HEADER_BUFSZ_def)
  have "wp (\<lambda>e. e = Released) (webclient_get fuel W (url_of hn path)) (\<lambda>rc st'. rc = - WEBCLIENT_ERROR \<and> host st' = Dangling) st"
    by (rule wp_get_redirect[OF c(2) assms(3-6), where url = url]) (use assms(1,2) c(3) in \<open>simp_all add: WEBCLIENT_HEADER_BUFSZ_def\<close>)
  then have "wp (\<lambda>e. e = Released) (request_run fuel W (url_of hn path) None None True) (\<lambda>_ st'. host st' = Dangling) st"
    unfolding request_run_def option.case wp_ebind wp_eret
    by (rule wp_mono) (simp add: wp_eret WEBCLIENT_ERROR_def)
  then have "cbind (request_run fuel W (url_of hn path) None None True st) (\<lambda>(r, session).
      cbind (webclient_close W session) (\<lambda>n. Inr (r, n))) = Inl Released"
    by (auto simp: wp_def webclient_close_def webclient_clean_eq cbind_def split: sum.splits)
  then show ?thesis using c(1) by (simp add: webclient_request_def)
qed

end

end
