(* ===== verification/Webclient_Spec.thy ===== *)
theory Webclient_Spec
  imports Webclient_Redirect
begin

text \<open>
  A network that brings the bytes of a server in given pieces, and the properties of the HTTP client.
\<close>

section \<open>A network\<close>

text \<open>The pieces in which the bytes arrive, and what has been sent; a send takes at most some number of bytes.\<close>

record net =
  pieces :: "byte list list"
  went_out :: "byte list"

fun recv_pieces :: "nat \<Rightarrow> byte list list \<Rightarrow> received \<times> byte list list" where
  "recv_pieces k [] = (Failed 0, [])"
| "recv_pieces k (p # ps) =
     (if p = [] then recv_pieces k ps
      else if length p \<le> k then (Got p, ps)
      else (Got (take k p), drop k p # ps))"

definition piecewise :: "nat \<Rightarrow> (net, unit) sockets" where
  "piecewise m =
     \<lparr>web_alloc = (\<lambda>_ n. (True, n)),
      getaddrinfo = (\<lambda>_ _ n. ((0, Some ()), n)),
      socket_open = (\<lambda>_ n. (0, n)),
      setsockopt_timeo = (\<lambda>_ _ n. n),
      socket_connect = (\<lambda>_ _ n. (0, n)),
      socket_send = (\<lambda>_ bs n. let j = min (Suc m) (length bs) in (int j, n\<lparr>went_out := went_out n @ take j bs\<rparr>)),
      socket_recv = (\<lambda>_ k n. let (r, ps) = recv_pieces k (pieces n) in (r, n\<lparr>pieces := ps\<rparr>)),
      would_block = (\<lambda>_. False),
      socket_close = (\<lambda>_ n. n),
      header_addr = 0x20001000,
      stack_bytes = (\<lambda>_. 0xA5)\<rparr>"

lemma recv_pieces_some:
  "concat ps \<noteq> [] \<Longrightarrow> 0 < k \<Longrightarrow>
   \<exists>j ps'. 0 < j \<and> j \<le> k \<and> j \<le> length (concat ps) \<and> recv_pieces k ps = (Got (take j (concat ps)), ps') \<and> concat ps' = drop j (concat ps)"
proof (induction ps)
  case (Cons p ps)
  consider "p = []" | "p \<noteq> []" "length p \<le> k" | "k < length p" "p \<noteq> []" by force
  then show ?case
  proof cases
    case 1
    then have "concat (p # ps) = concat ps" "recv_pieces k (p # ps) = recv_pieces k ps" by simp_all
    then show ?thesis using Cons.IH Cons.prems by simp
  next
    case 2
    then show ?thesis by (intro exI[of _ "length p"]) simp
  next
    case 3
    then show ?thesis using Cons(3) by (intro exI[of _ k]) simp
  qed
qed simp

lemma recv_pieces_none: "concat ps = [] \<Longrightarrow> \<exists>ps'. recv_pieces k ps = (Failed 0, ps') \<and> concat ps' = []"
  by (induction ps) auto

interpretation piecewise_net: reachable "piecewise m" "\<lambda>n. concat (pieces n)" went_out for m
proof
  fix n :: net and k :: nat and s :: int and bs :: "byte list" and a h p and t :: int
  show "\<exists>n'. web_alloc (piecewise m) k n = (True, n') \<and> concat (pieces n') = concat (pieces n) \<and> went_out n' = went_out n"
    "\<exists>a n'. getaddrinfo (piecewise m) h p n = ((0, Some a), n') \<and> concat (pieces n') = concat (pieces n) \<and> went_out n' = went_out n"
    "\<exists>s n'. 0 \<le> s \<and> socket_open (piecewise m) a n = (s, n') \<and> concat (pieces n') = concat (pieces n) \<and> went_out n' = went_out n"
    "concat (pieces (setsockopt_timeo (piecewise m) s t n)) = concat (pieces n) \<and> went_out (setsockopt_timeo (piecewise m) s t n) = went_out n"
    "\<exists>n'. socket_connect (piecewise m) s a n = (0, n') \<and> concat (pieces n') = concat (pieces n) \<and> went_out n' = went_out n"
    "went_out (snd (socket_recv (piecewise m) s k n)) = went_out n" "went_out (socket_close (piecewise m) s n) = went_out n"
    by (simp_all add: piecewise_def Let_def case_prod_beta')
  show "\<exists>j n'. 0 < j \<and> j \<le> k \<and> j \<le> length (concat (pieces n)) \<and> socket_recv (piecewise m) s k n = (Got (take j (concat (pieces n))), n') \<and>
        concat (pieces n') = drop j (concat (pieces n)) \<and> went_out n' = went_out n" if "concat (pieces n) \<noteq> []" "0 < k"
    using recv_pieces_some[OF that] by (auto simp: piecewise_def Let_def)
  show "\<exists>n'. socket_recv (piecewise m) s k n = (Failed 0, n') \<and> \<not> would_block (piecewise m) n' \<and> concat (pieces n') = [] \<and> went_out n' = went_out n"
    if "concat (pieces n) = []"
    using recv_pieces_none[OF that, of k] by (auto simp: piecewise_def Let_def)
  show "\<exists>j n'. 0 < j \<and> j \<le> length bs \<and> socket_send (piecewise m) s bs n = (int j, n') \<and> concat (pieces n') = concat (pieces n) \<and>
        went_out n' = went_out n @ take j bs" if "bs \<noteq> []"
    using that by (auto simp: piecewise_def Let_def min_def)
qed

section \<open>Properties\<close>

text \<open>A server that answers with a length, and one that sends the body in chunks.\<close>

definition hello_length :: "byte list list" where
  "hello_length = [status_line 49 (lit ''200'') (lit ''OK''), lit ''Content-Length: 5'']"

definition hello_chunked :: "byte list list" where
  "hello_chunked = [status_line 49 (lit ''200'') (lit ''OK''), lit ''Transfer-Encoding: chunked'']"

lemma hello_fields:
  "field CONTENT_LENGTH hello_length = Some (lit ''5'')" "field TRANSFER_ENCODING hello_length = None"
  "field CONTENT_LENGTH hello_chunked = None" "field TRANSFER_ENCODING hello_chunked = Some (lit ''chunked'')"
  by code_simp+

definition hello :: "byte list" where "hello = lit ''hello''"

lemma hello_status: "digits 10 (lit ''200'')" "number 10 (lit ''200'') = 200" "digits 10 (lit ''301'')" "number 10 (lit ''301'') = 301"
  by (simp_all add: digits_def number_def lit_def digit_value_def)

lemma hello_headers:
  "header_ok hello_length" "header_ok hello_chunked" "length (strings_in hello_length) + 1 < 4096" "length (strings_in hello_chunked) + 1 < 4096"
  by (simp_all add: hello_length_def hello_chunked_def header_ok_def status_line_def lit_def)

lemma hello_answers:
  "answers False WEBCLIENT_HEADER_BUFSZ (on_wire hello_length @ hello) 200 hello"
  "answers True WEBCLIENT_HEADER_BUFSZ (on_wire hello_chunked @ lit ''5'' @ [13, 10] @ hello @ later [] (lit ''0'')) 200 hello"
proof -
  have l: "by_length hello_length (length hello)"
    using hello_fields by (simp add: by_length_def hello_def) (simp add: digits_def number_def lit_def digit_value_def)
  show "answers False WEBCLIENT_HEADER_BUFSZ (on_wire hello_length @ hello) 200 hello"
    unfolding answers_def Let_def
    by (rule exI[of _ 49], rule exI[of _ "lit ''200''"], rule exI[of _ "lit ''OK''"], rule exI[of _ "[lit ''Content-Length: 5'']"], rule exI[of _ hello])
      (use l hello_status hello_headers in \<open>simp add: stands_for_def WEBCLIENT_HEADER_BUFSZ_def flip: hello_length_def\<close>, simp add: hello_def lit_def)
  have sz: "size_line 16 (lit ''5'') (length hello)" "size_line 63 (lit ''0'') 0"
    by (simp_all add: size_line_def digits_def number_def lit_def digit_value_def hello_def)
  have c: "stands_for True hello_chunked (lit ''5'' @ [13, 10] @ hello @ later [] (lit ''0'')) hello"
    unfolding stands_for_def if_True
  proof (intro conjI)
    show "\<exists>h d cs z j. size_line 16 h (length d) \<and> d \<noteq> [] \<and> chunks_ok cs \<and> size_line 63 z 0 \<and>
        lit ''5'' @ [13, 10] @ hello @ later [] (lit ''0'') = h @ [13, 10] @ d @ later cs z @ j \<and> hello = d @ concat (map snd cs)"
      by (rule exI[of _ "lit ''5''"], rule exI[of _ hello], rule exI[of _ "[]"], rule exI[of _ "lit ''0''"], rule exI[of _ "[]"])
        (use sz in \<open>simp add: chunks_ok_def\<close>, simp add: hello_def lit_def)
  qed (use hello_fields in \<open>simp_all add: by_chunks_def hello_def lit_def\<close>)
  show "answers True WEBCLIENT_HEADER_BUFSZ (on_wire hello_chunked @ lit ''5'' @ [13, 10] @ hello @ later [] (lit ''0'')) 200 hello"
    unfolding answers_def Let_def
    by (rule exI[of _ 49], rule exI[of _ "lit ''200''"], rule exI[of _ "lit ''OK''"], rule exI[of _ "[lit ''Transfer-Encoding: chunked'']"],
        rule exI[of _ "lit ''5'' @ [13, 10] @ hello @ later [] (lit ''0'')"])
      (use c hello_status hello_headers in \<open>simp add: WEBCLIENT_HEADER_BUFSZ_def flip: hello_chunked_def\<close>)
qed

lemma hello_url: "plain_url (lit ''h'') (lit ''x'')" "length (get_request (lit ''h'') (47 # lit ''x'')) < WEBCLIENT_HEADER_BUFSZ"
  "header_addr (piecewise m) + WEBCLIENT_HEADER_BUFSZ < 2 ^ 32"
  by (simp_all add: plain_url_def get_request_def lit_def WEBCLIENT_HEADER_BUFSZ_def piecewise_def)

text \<open>C3. A GET over a connection that works: whatever the pieces are in which the bytes arrive and go out, the server gets
  exactly the request for the host and the path, and for the status 200 the caller gets exactly the body, with a
  terminator behind it, whether it is sent with a length or in chunks; for another status it gets an error and nothing. The
  session is created, used and released without a fault.\<close>

theorem webclient_request_get:
  assumes "reachable W inbox outbox" "answers chunked WEBCLIENT_HEADER_BUFSZ (inbox n) status body" "plain_url hn path"
    and "length (get_request hn (47 # path)) < WEBCLIENT_HEADER_BUFSZ" "header_addr W + WEBCLIENT_HEADER_BUFSZ < 2 ^ 32"
    and "WEBCLIENT_HEADER_BUFSZ \<le> fuel" "length body < fuel"
  shows "\<exists>r n'. webclient_request fuel W (url_of hn path) None None True n = Inr (r, n') \<and>
      outbox n' = outbox n @ get_request hn (47 # path) \<and>
      (if status = 200 then \<exists>z. r = (int (length body), Some (body @ 0 # z)) else r = (- WEBCLIENT_ERROR, None))"
  by (rule reachable.request_runs[OF assms])

theorem webclient_request_get_witness:
  "\<exists>r n' z. webclient_request 4096 (piecewise 2) (url_of (lit ''h'') (lit ''x'')) None None True
       \<lparr>pieces = map (\<lambda>b. [b]) (on_wire hello_chunked @ lit ''5'' @ [13, 10] @ hello @ later [] (lit ''0'')), went_out = []\<rparr> = Inr (r, n') \<and>
     went_out n' = get_request (lit ''h'') (lit ''/x'') \<and> r = (5, Some (lit ''hello'' @ 0 # z))"
proof -
  define n where "n = \<lparr>pieces = map (\<lambda>b. [b]) (on_wire hello_chunked @ lit ''5'' @ [13, 10] @ hello @ later [] (lit ''0'')), went_out = [] :: byte list\<rparr>"
  have c: "concat (map (\<lambda>b. [b]) bs) = bs" for bs :: "byte list" by (induction bs) auto
  have i: "answers True WEBCLIENT_HEADER_BUFSZ (concat (pieces n)) 200 hello" using hello_answers(2) unfolding n_def net.select_convs c .
  obtain r n' where "webclient_request 4096 (piecewise 2) (url_of (lit ''h'') (lit ''x'')) None None True n = Inr (r, n')"
    "went_out n' = went_out n @ get_request (lit ''h'') (47 # lit ''x'')" "\<exists>z. r = (int (length hello), Some (hello @ 0 # z))"
    using webclient_request_get[OF piecewise_net.reachable_axioms i hello_url(1,2) hello_url(3)[of 2], of 4096]
    by (auto simp: WEBCLIENT_HEADER_BUFSZ_def hello_def lit_def)
  moreover have "lit ''/x'' = 47 # lit ''x''" "int (length hello) = 5" by (simp_all add: hello_def lit_def)
  ultimately show ?thesis unfolding n_def[symmetric] by (auto simp: n_def hello_def)
qed

text \<open>C5. A reply that moves the resource to a URL that the client cannot connect to, as one with https, makes the request
  release the strings of its session twice: the clean-up after the first reply keeps the pointers.\<close>

theorem webclient_request_redirected:
  assumes "reachable W inbox outbox" "sends_to WEBCLIENT_HEADER_BUFSZ (inbox n) url" "take 7 url \<noteq> lit ''http://''" "plain_url hn path"
    and "length (get_request hn (47 # path)) < WEBCLIENT_HEADER_BUFSZ" "header_addr W + WEBCLIENT_HEADER_BUFSZ < 2 ^ 32"
    and "WEBCLIENT_HEADER_BUFSZ < fuel"
  shows "webclient_request fuel W (url_of hn path) None None True n = Inl Released"
  by (rule reachable.request_redirected[OF assms])

definition moved :: "byte list list" where
  "moved = [status_line 49 (lit ''301'') (lit ''Moved''), lit ''Location: https://h/x'']"

lemma moved_sends:
  "sends_to WEBCLIENT_HEADER_BUFSZ (on_wire moved) (lit ''https://h/x'')"
proof -
  have f: "field LOCATION moved = Some (lit ''https://h/x'')" "field TRANSFER_ENCODING moved = None" "field CONTENT_LENGTH moved = None"
    by code_simp+
  have h: "header_ok moved" "length (strings_in moved) + 1 < 4096"
    by (simp_all add: moved_def header_ok_def status_line_def lit_def)
  show ?thesis unfolding sends_to_def Let_def
    by (rule exI[of _ 49], rule exI[of _ "lit ''301''"], rule exI[of _ "lit ''Moved''"], rule exI[of _ "[lit ''Location: https://h/x'']"], rule exI[of _ "[]"])
      (use f h hello_status in \<open>simp add: WEBCLIENT_HEADER_BUFSZ_def flip: moved_def\<close>)
qed

theorem webclient_request_redirected_witness:
  "webclient_request 4097 (piecewise 9) (url_of (lit ''h'') (lit ''x'')) None None True \<lparr>pieces = [on_wire moved], went_out = []\<rparr> = Inl Released"
proof (rule webclient_request_redirected[OF piecewise_net.reachable_axioms])
  show "sends_to WEBCLIENT_HEADER_BUFSZ (concat (pieces \<lparr>pieces = [on_wire moved], went_out = []\<rparr>)) (lit ''https://h/x'')" using moved_sends by simp
  show "take 7 (lit ''https://h/x'') \<noteq> lit ''http://''" by (simp add: lit_def)
qed (rule hello_url hello_url(3)[of 9] | simp add: WEBCLIENT_HEADER_BUFSZ_def)+

text \<open>C40. A status line that ends with its number, without a blank and a reason, makes the client read past the end of its copy
  of the line.\<close>

theorem status_code_without_reason:
  assumes "digits 10 ds" "v \<noteq> 0"
  shows "status_code (lit ''HTTP/1.'' @ v # 32 # ds) = Inl Out_Of_Bounds"
  by (rule status_code_unterminated[OF assms])

theorem status_code_without_reason_witness: "status_code (lit ''HTTP/1.1 200'') = Inl Out_Of_Bounds"
  using status_code_without_reason[of "lit ''200''" 49] hello_status(1) by (simp add: lit_def)

end
