(* ===== verification/Weather_Http.thy ===== *)
theory Weather_Http
  imports Weather Webclient_Spec
begin

text \<open>
  The weather service on the HTTP client: the functions that \<open>weather.c\<close> calls are those of \<open>webclient.c\<close>, over a network.
\<close>

section \<open>The client\<close>

text \<open>A read with a result that is not positive has stored nothing: what was received before an error is the result.\<close>

lemma wp_recv_size: "wp (\<lambda>_. True) (webclient_recv W k) (\<lambda>(r, bs) st'. 0 < r \<longrightarrow> r = int (length bs)) st"
  by (auto simp: webclient_recv_def wp_def ebind_def eget_def on_link_def cbind_def elift_def eret_def
      split: sum.splits prod.splits received.splits if_splits)

lemma wp_store_any: "(\<And>b. P b st) \<Longrightarrow> wp (\<lambda>_. True) (elift (store_at k bs buf)) P st"
  by (auto simp: wp_def elift_def cbind_def split: sum.splits)

lemma wp_read_loop_stores:
  "wp (\<lambda>_. True) (read_loop fuel W left n buf) (\<lambda>(at_once, r, b) st'. if at_once then n = 0 \<and> b = buf else 0 < r) st"
proof (induction fuel arbitrary: left n buf st)
  case (Suc fuel)
  have quiet: "wp (\<lambda>_. True) (nothing_read W) (\<lambda>_ _. True) st'" for st' by (auto simp: wp_def split: sum.splits)
  have more: "wp (\<lambda>_. True) (read_loop fuel W l k b) (\<lambda>(at_once, r, b'). \<lambda>st'. if at_once then n = 0 \<and> b' = buf else 0 < r) st'"
    if "0 < k" for l k b st'
    by (rule wp_mono[OF Suc.IH[of l k b]]) (use that in auto)
  show ?case unfolding read_loop.simps wp_ebind
  proof (rule wp_mono[OF wp_recv_size], clarify)
    fix r and bs :: "byte list" and st' assume r: "0 < r \<longrightarrow> r = int (length bs)"
    show "wp (\<lambda>_. True) (if r \<le> 0 then if 0 < n then eret (False, int n, buf) else ebind (nothing_read W) (\<lambda>rc. eret (True, rc, buf))
        else ebind (elift (store_at n bs buf)) (\<lambda>buffer.
          if left - length bs \<noteq> 0 then read_loop fuel W (left - length bs) (n + length bs) buffer
          else eret (False, int (n + length bs), buffer)))
        (\<lambda>(at_once, r, b) st'. if at_once then n = 0 \<and> b = buf else 0 < r) st'"
    proof (cases "r \<le> 0")
      case True
      then show ?thesis using wp_mono[OF quiet] by (auto simp: wp_simps)
    next
      case False
      then have pos: "0 < n + length bs" using r by auto
      then have "0 < int n + int (length bs)" by linarith
      then show ?thesis using False more[OF pos] by (simp add: wp_ebind) (intro wp_store_any, auto simp: wp_simps)
    qed
  qed
qed (simp add: wp_simps)

lemma read_stores_nothing:
  assumes "webclient_read W buf len st = Inr ((r, buf'), st')" "r \<le> 0"
  shows "buf' = buf"
proof -
  let ?P = "\<lambda>(r, b) (st' :: 'a web). r \<le> 0 \<longrightarrow> b = buf"
  have quiet: "wp (\<lambda>_. True) m (\<lambda>_ _. True) st'" for m :: "('x, 'a) wrun" and st' by (auto simp: wp_def split: sum.splits)
  have chunk: "wp (\<lambda>_. True) (read_chunk W k buf) ?P st'" for k st'
    unfolding read_chunk_def wp_ebind wp_eget
  proof (rule wp_mono[OF wp_recv_size], clarify)
    fix r and bs :: "byte list" and st'' assume "0 < r \<longrightarrow> r = int (length bs)"
    show "wp (\<lambda>_. True) (if r \<le> 0 then ebind (nothing_read W) (\<lambda>rc. eret (rc, buf))
        else ebind (elift (store_at 0 bs buf)) (\<lambda>buffer.
          ebind (emod (\<lambda>st. st\<lparr>chunk_offset := chunk_offset st + r\<rparr>)) (\<lambda>_.
          ebind (eget (\<lambda>st. chunk_sz st \<le> chunk_offset st)) (\<lambda>done_with.
          ebind (if done_with then ebind (webclient_next_chunk W) (\<lambda>_. eret ()) else eret ()) (\<lambda>_.
          eret (r, buffer)))))) ?P st''"
    proof (cases "r \<le> 0")
      case True
      then show ?thesis by (simp add: wp_ebind) (rule wp_mono[OF quiet], simp add: wp_simps)
    next
      case False
      then show ?thesis by (simp add: wp_ebind) (intro wp_store_any, auto simp: wp_simps intro!: wp_mono[OF quiet[of "webclient_next_chunk W"]])
    qed
  qed
  have plain: "wp (\<lambda>_. True) (read_plain W k buf) ?P st'" for k st'
    unfolding read_plain_def wp_ebind
    by (rule wp_mono[OF wp_read_loop_stores]) (auto simp: wp_simps split: if_splits)
  have "wp (\<lambda>_. True) (webclient_read W buf len) ?P st"
    using chunk plain by (simp add: webclient_read_def wp_simps Let_def)
  then show ?thesis using assms by (simp add: wp_def)
qed

text \<open>The session is created on a network; what a read gives is what it has put into a buffer of the size, and nothing
  when its result is not positive (\<open>read_stores_nothing\<close>).\<close>

definition rt_client :: "nat \<Rightarrow> ('n, 'a) sockets \<Rightarrow> 'n \<Rightarrow> 'n web client" where
  "rt_client fuel W n =
     \<lparr>client_create = (\<lambda>header_sz. fst (webclient_session_create W header_sz n)),
      client_get = (\<lambda>session url. webclient_get fuel W url session),
      client_length = webclient_content_length_get,
      client_read = (\<lambda>session len. cbind (webclient_read W (replicate len 0) len session)
        (\<lambda>((bytes_read, buffer), session). Inr (take (nat bytes_read) buffer, session))),
      client_close = (\<lambda>session. cbind (webclient_close W session) (\<lambda>_. Inr ()))\<rparr>"

definition weather_host :: "byte list" where "weather_host = lit ''api.k780.com''"

definition weather_path :: "u32 \<Rightarrow> byte list" where
  "weather_path city = lit ''?app=weather.realtime&weaid='' @ dec_text (-1) city @
     lit ''&ag=today,futureDay&appkey=47100&sign=be87b72e50497b2700d2bc963cb7c973&format=json''"

lemma weather_url_of: "weather_url city = url_of weather_host (weather_path city)"
  by (simp add: weather_url_def url_of_def weather_host_def weather_path_def) (simp add: lit_def)

lemma weather_url_plain: "plain_url weather_host (weather_path city)"
proof -
  have "\<forall>d\<in>set (dec_text (-1) city). d = 45 \<or> 48 \<le> d \<and> d \<le> 57"
    using number_shape(1,2)[of city] by (auto split: if_splits)
  then have "58 \<notin> set (dec_text (-1) city)" by (auto simp: word_le_nat_alt)
  then show ?thesis by (simp add: plain_url_def weather_host_def weather_path_def) (simp add: lit_def)
qed

lemma weather_request_fits: "length (get_request weather_host (47 # weather_path city)) < GET_HEADER_BUFSZ"
proof -
  have "length (dec_text (-1) city) \<le> 11" using number_shape(1,3)[of city] by (simp split: if_splits)
  then show ?thesis by (simp add: get_request_def weather_host_def weather_path_def GET_HEADER_BUFSZ_def lit_def)
qed

context reachable
begin

lemma rt_client_feeds:
  assumes "counted inbox st body" "body \<noteq> []" "host st = Block a" "req_url st = Block b"
  shows "feeds (rt_client fuel W n) st [body]"
proof -
  have close: "client_close (rt_client fuel W n) st' = Inr ()" if "host st' = Block a" "req_url st' = Block b" for st'
    using that by (simp add: rt_client_def webclient_close_def webclient_clean_eq)
  have ended: "feeds (rt_client fuel W n) st' []" if c: "counted inbox st' []" and s: "host st' = Block a" "req_url st' = Block b" for st'
  proof -
    have "\<exists>c'. client_read (rt_client fuel W n) st' k = Inr ([], c') \<and> client_close (rt_client fuel W n) c' = Inr ()" for k
    proof -
      have "wp (\<lambda>_. False) (webclient_read W (replicate k 0) k) (\<lambda>(r, _) st''. r = 0 \<and> host st'' = Block a \<and> req_url st'' = Block b) st'"
        using wp_read_counted_done[OF c] s by simp
      then show ?thesis unfolding wp_total by (auto simp: rt_client_def intro!: close[unfolded rt_client_def client.select_convs])
    qed
    then show ?thesis using close[OF s] by simp
  qed
  have "\<exists>c'. client_read (rt_client fuel W n) st k = Inr (body, c') \<and> feeds (rt_client fuel W n) c' []" if k: "length body \<le> k" for k
  proof -
    have "0 < k" using k assms(2) by (cases body) auto
    have "wp (\<lambda>_. False) (webclient_read W (replicate k 0) k)
        (\<lambda>(r, buf) st'. take (nat r) buf = body \<and> counted inbox st' [] \<and> host st' = Block a \<and> req_url st' = Block b) st"
      by (rule wp_read_counted[OF assms(1,2), where k = "length body"]) (use assms k \<open>0 < k\<close> in \<open>auto simp: overlay_def\<close>)
    then obtain r buf st' where "webclient_read W (replicate k 0) k st = Inr ((r, buf), st')" "take (nat r) buf = body" "counted inbox st' []"
      "host st' = Block a" "req_url st' = Block b" unfolding wp_total by auto
    then show ?thesis using ended by (auto simp: rt_client_def[of fuel W n] simp del: feeds.simps)
  qed
  then show ?thesis using assms(2) by (simp del: feeds.simps(1))
qed

lemma rt_client_serves:
  assumes "answers False GET_HEADER_BUFSZ (inbox n) 200 body" "header_addr W + GET_HEADER_BUFSZ < 2 ^ 32" "GET_HEADER_BUFSZ \<le> fuel"
    and "addr + GET_URL_LEN_MAX < 2 ^ 32"
  shows "serves \<lparr>weather_env = env, webclient = rt_client fuel W n, url_block = Some addr, resp_block = True\<rparr> city [body]"
proof -
  obtain st n1 where c: "webclient_session_create W GET_HEADER_BUFSZ n = (Some st, n1)" "unused GET_HEADER_BUFSZ st" "inbox (link st) = inbox n"
    using session_create_fresh[of GET_HEADER_BUFSZ n] by (auto simp: GET_HEADER_BUFSZ_def)
  have ne: "body \<noteq> []" using assms(1) by (auto simp: answers_def stands_for_def Let_def)
  have "wp (\<lambda>_. False) (webclient_get fuel W (weather_url city)) (\<lambda>r st'. r = 200 \<and> counted inbox st' body \<and> content_length st' = int (length body) \<and>
      host st' = Block weather_host \<and> req_url st' = Block (47 # weather_path city)) st"
    unfolding weather_url_of
    by (rule wp_webclient_get[OF c(2) weather_url_plain weather_request_fits assms(2) _ assms(3)])
      (use assms(1) c(3) in \<open>auto simp: GET_HEADER_BUFSZ_def opened_def\<close>)
  then obtain st' where st': "webclient_get fuel W (weather_url city) st = Inr (200, st')" "counted inbox st' body" "content_length st' = int (length body)"
      "host st' = Block weather_host" "req_url st' = Block (47 # weather_path city)" unfolding wp_total by auto
  have "feeds (rt_client fuel W n) st' [body]" by (rule rt_client_feeds[OF st'(2) ne st'(4,5)])
  then show ?thesis using c(1) st' assms(4) unfolding serves_def
    by (intro exI[of _ addr] exI[of _ st] exI[of _ st'])
      (simp add: rt_client_def webclient_content_length_get_def del: feeds.simps)
qed

end

section \<open>Properties\<close>

definition plain_service :: "nat \<Rightarrow> ('n, 'a) sockets \<Rightarrow> 'n \<Rightarrow> 'd weather_env \<Rightarrow> nat \<Rightarrow> ('d, 'n web) service" where
  "plain_service fuel W n env addr = \<lparr>weather_env = env, webclient = rt_client fuel W n, url_block = Some addr, resp_block = True\<rparr>"

text \<open>C2. The service from the bytes of the network to the reports: over a connection that works, a reply with status 200, a
  length and a JSON text that is shorter than the buffer sets the reports to what it says, however the bytes are cut into
  pieces; the HTTP client, the parser and the look-ups are those of the program.\<close>

theorem fetch_weather_http:
  assumes "reachable W inbox outbox" "answers False GET_HEADER_BUFSZ (inbox n) 200 (json_text fmt d j)"
    and "header_addr W + GET_HEADER_BUFSZ < 2 ^ 32" "GET_HEADER_BUFSZ \<le> fuel" "addr + GET_URL_LEN_MAX < 2 ^ 32"
    and "length (json_text fmt d j) < GET_RESP_BUFSZ"
    and "total_malloc (w_malloc env)" "fp_exact (w_fp env)" "converts env gbk" "c_json j" "report_fields s"
  shows "case reply_outcome gbk j (rt s, wt s) of
      None \<Rightarrow> \<exists>e. fetch_weather fuel (plain_service fuel W n env addr) s = Inl e
    | Some (r, w) \<Rightarrow> \<exists>js'. fetch_weather fuel (plain_service fuel W n env addr) s = Inr (s\<lparr>rt := r, wt := w, json_state := js'\<rparr>)"
proof -
  let ?sv = "plain_service fuel W n env addr"
  have sv: "serves ?sv (area_id s) [json_text fmt d j]"
    unfolding plain_service_def by (rule reachable.rt_client_serves[OF assms(1-5)])
  have "\<exists>js'. agrees (fetch_weather fuel ?sv s) (map_option (\<lambda>(r, w). s\<lparr>rt := r, wt := w, json_state := js'\<rparr>) (reply_outcome gbk j (rt s, wt s)))"
    by (rule fetch_weather_text[OF sv assms(6) _ _ _ _ assms(10,11)]) (use assms(4,7-9) in \<open>simp_all add: plain_service_def GET_HEADER_BUFSZ_def\<close>)
  then show ?thesis by (auto simp: agrees_def split: option.splits)
qed

text \<open>A refusal of the service, byte by byte.\<close>

definition refusing :: "byte list list" where
  "refusing = [status_line 49 (lit ''200'') (lit ''OK''), lit ''Content-Length: 15'']"

lemma refusing_answers:
  "answers False GET_HEADER_BUFSZ (on_wire refusing @ lit ''{\"success\":\"0\"}'') 200 (lit ''{\"success\":\"0\"}'')"
proof -
  have f: "field CONTENT_LENGTH refusing = Some (lit ''15'')" "field TRANSFER_ENCODING refusing = None"
    by code_simp+
  have ne: "lit ''{\"success\":\"0\"}'' \<noteq> []" by (simp add: lit_def)
  have h: "header_ok refusing" "length (strings_in refusing) + 1 < 1024"
    by (simp_all add: refusing_def header_ok_def status_line_def lit_def)
  have l: "by_length refusing (length (lit ''{\"success\":\"0\"}''))"
    using f by (simp add: by_length_def) (simp add: digits_def number_def lit_def digit_value_def)
  show ?thesis unfolding answers_def Let_def
    by (rule exI[of _ 49], rule exI[of _ "lit ''200''"], rule exI[of _ "lit ''OK''"], rule exI[of _ "[lit ''Content-Length: 15'']"],
        rule exI[of _ "lit ''{\"success\":\"0\"}''"])
      (use l ne hello_status h in \<open>simp add: stands_for_def GET_HEADER_BUFSZ_def flip: refusing_def\<close>)
qed

theorem fetch_weather_http_witness:
  "\<exists>js'. fetch_weather 1024 (plain_service 1024 (piecewise 0)
      \<lparr>pieces = map (\<lambda>b. [b]) (on_wire refusing @ lit ''{\"success\":\"0\"}''), went_out = []\<rparr> plain_weather_env 64) weather_boot =
     Inr (weather_boot\<lparr>json_state := js'\<rparr>)"
proof -
  define j where "j = JObj [(lit ''success'', JStr (lit ''0''))]"
  define n where "n = \<lparr>pieces = map (\<lambda>b. [b]) (on_wire refusing @ lit ''{\"success\":\"0\"}''), went_out = [] :: byte list\<rparr>"
  have shown: "json_text False 0 j = lit ''{\"success\":\"0\"}''"
    by (simp add: j_def quote_def escaped_def lit_def nl_def tabs_def)
  have c: "concat (map (\<lambda>b. [b]) bs) = bs" for bs :: "byte list" by (induction bs) auto
  have a: "answers False GET_HEADER_BUFSZ (concat (pieces n)) 200 (json_text False 0 j)"
    using refusing_answers unfolding n_def net.select_convs c shown .
  have o: "reply_outcome (\<lambda>bs. bs) j (rt weather_boot, wt weather_boot) = Some (rt weather_boot, wt weather_boot)"
    by (simp add: reply_outcome_def string_at_def j_def lit_def)
  have "c_json j" by (simp add: j_def lit_def)
  moreover have "length (json_text False 0 j) < GET_RESP_BUFSZ" "header_addr (piecewise 0) + GET_HEADER_BUFSZ < 2 ^ 32"
    by (simp_all add: shown lit_def GET_RESP_BUFSZ_def GET_HEADER_BUFSZ_def piecewise_def)
  ultimately show ?thesis
    using fetch_weather_http[OF piecewise_net.reachable_axioms a, where fuel = 1024 and addr = 64 and env = plain_weather_env and gbk = "\<lambda>bs. bs" and s = weather_boot] plain_weather_env_laws weather_boot_fields o
    by (simp add: GET_HEADER_BUFSZ_def GET_URL_LEN_MAX_def n_def)
qed

end
