(* ===== verification/Ui.thy ===== *)
theory Ui
  imports Weather Display_Ch Bmp Lcd_Text Lcd_Draw
begin

text \<open>
  The user interface, \<open>applications/ui.c\<close>: the screen with the weather, and the minute tick that chooses
  the light or the dark theme. It puts together the weather reports, the kernel's formatting and string
  routines, the display driver, the Chinese text and the picture viewer.
\<close>

section \<open>State\<close>

text \<open>\<open>LIGHT\<close> is true. The colours start at -1.\<close>

record ui_state =
  display_mode :: bool
  fore_color_curr :: u32
  back_color_curr :: u32
  view :: viewer

definition ui_boot :: "viewer \<Rightarrow> ui_state" where
  "ui_boot v = \<lparr>display_mode = True, fore_color_curr = -1, back_color_curr = -1, view = v\<rparr>"

text \<open>The font and picture files, the display, the text of \<open>ctime\<close>, the address of the local arrays, and what
  the arrays hold before they are written.\<close>

record ui_env =
  ui_ch :: ch_env
  ctime_text :: "byte list"
  ui_stack :: nat
  ui_local :: "nat \<Rightarrow> byte"

definition local_array :: "ui_env \<Rightarrow> nat \<Rightarrow> byte list" where
  "local_array env n = map (ui_local env) [0..<n]"

definition fore_color :: "u32 list" where "fore_color = [0xdedb, 0x0000]"
definition back_color :: "u32 list" where "back_color = [0x2945, 0xf7be]"

section \<open>Names and paths\<close>

definition get_weather_name_by_id :: "byte \<Rightarrow> byte list" where
  "get_weather_name_by_id i =
     (if i = 1 then lit ''sunny'' else if i = 2 then lit ''cloudy'' else if i = 3 then lit ''overcast''
      else if i \<in> {4, 7, 8, 9, 10, 11, 12, 13, 20, 22, 23, 24, 25, 26, 41, 5, 6} then lit ''rain''
      else if i \<in> {19, 21, 30, 31, 32, 33, 34, 35, 36, 37, 38, 39, 40} then lit ''foggy''
      else if i \<in> {14, 15, 16, 17, 18, 27, 28, 29, 42} then lit ''snow''
      else lit ''unknow'')"

definition get_weather_icon_path :: "ui_env \<Rightarrow> bool \<Rightarrow> byte list \<Rightarrow> byte \<Rightarrow> bool \<Rightarrow> byte list cres" where
  "get_weather_icon_path env mode path i big =
     cbind (rt_strlen path) (\<lambda>n.
     cbind (rt_memset (ui_stack env) path 0 n) (\<lambda>path.
     cbind (rt_sprintf (ui_stack env) (local_array env 30) (lit ''/%s%s/%s.bmp'')
       [A_Str (Some (if mode then lit ''day'' else lit ''night'')), A_Str (Some (if big then [] else lit ''_small'')),
        A_Str (Some (get_weather_name_by_id i))]) (\<lambda>(_, res_path).
     cbind (rt_strlen res_path) (\<lambda>n.
     rt_strncpy path (cstr res_path) n))))"

section \<open>The screen\<close>

definition on_disp :: "(lcd \<Rightarrow> lcd cres) \<Rightarrow> ui_state \<Rightarrow> ui_state cres" where
  "on_disp f u = cbind (f (disp (view u))) (\<lambda>s. Inr (u\<lparr>view := (view u)\<lparr>disp := s\<rparr>\<rparr>))"

definition pnl :: "ui_env \<Rightarrow> lcd_env" where
  "pnl env = panel (ui_ch env)"

text \<open>\<open>rt_sprintf(buf, fmt, ...); lcd_disp_str_en_ch(x, y, buf, bg, fg)\<close> with a local array of \<open>n\<close> bytes.\<close>

definition show_line ::
  "ui_env \<Rightarrow> nat \<Rightarrow> u16 \<Rightarrow> u16 \<Rightarrow> byte list \<Rightarrow> fmt_arg list \<Rightarrow> u16 \<Rightarrow> u16 \<Rightarrow> ui_state \<Rightarrow> ui_state cres" where
  "show_line env n x y fmt args bg fg u =
     cbind (rt_sprintf (ui_stack env) (local_array env n) fmt args) (\<lambda>(_, buf).
     on_disp (lcd_disp_str_en_ch (ui_ch env) x y buf bg fg) u)"

text \<open>\<open>get_weather_icon_path(bmp_path, wtId, big); Show_BMP(x, y, bmp_path)\<close>\<close>

definition show_icon ::
  "ui_env \<Rightarrow> u32 \<Rightarrow> u32 \<Rightarrow> byte \<Rightarrow> bool \<Rightarrow> byte list \<times> ui_state \<Rightarrow> (byte list \<times> ui_state) cres" where
  "show_icon env x y i big = (\<lambda>(bmp_path, u).
     cbind (get_weather_icon_path env (display_mode u) bmp_path i big) (\<lambda>bmp_path.
     cbind (c_chars bmp_path) (\<lambda>path.
     cbind (Show_BMP (pnl env) (files (ui_ch env)) x y path (view u)) (\<lambda>v.
     Inr (bmp_path, u\<lparr>view := v\<rparr>)))))"

definition set_theme :: "ui_env \<Rightarrow> ui_state \<Rightarrow> ui_state cres" where
  "set_theme env u =
     (let i = (if display_mode u then 1 else 0) in
      if back_color_curr u \<noteq> back_color ! i then
        (let u = u\<lparr>back_color_curr := back_color ! i, fore_color_curr := fore_color ! i\<rparr>
         in cbind (on_disp (\<lambda>s. Inr (lcd_set_color (ucast (back_color_curr u)) (ucast (fore_color_curr u)) s)) u)
              (on_disp (lcd_clear (pnl env) (ucast (back_color_curr u)))))
      else Inr u)"

text \<open>The labels of the three days, the city, the name of the weather and the time.\<close>

definition show_header :: "ui_env \<Rightarrow> Realtime \<Rightarrow> ui_state \<Rightarrow> ui_state cres" where
  "show_header env r u =
     (let bg = ucast (back_color_curr u); fg = ucast (fore_color_curr u) in
      cbind (on_disp (lcd_draw_line (pnl env) 18 130 224 130) u) (\<lambda>u.
      cbind (on_disp (lcd_disp_str_ch (ui_ch env) 31 140 [189, 241, 204, 236, 0] bg fg) u) (\<lambda>u.
      cbind (on_disp (lcd_disp_str_ch (ui_ch env) 105 140 [195, 247, 204, 236, 0] bg fg) u) (\<lambda>u.
      cbind (on_disp (lcd_disp_str_ch (ui_ch env) 175 140 [186, 243, 204, 236, 0] bg fg) u) (\<lambda>u.
      cbind (c_chars (area_1 r)) (\<lambda>a1. cbind (c_chars (area_2 r)) (\<lambda>a2.
      cbind (show_line env 30 10 5 (lit ''%s %s     '') [A_Str (Some a1), A_Str (Some a2)] bg fg u) (\<lambda>u.
      cbind (c_chars (wtNm r)) (\<lambda>nm.
      cbind (show_line env 10 115 40 (lit ''%s     '') [A_Str (Some nm)] bg fg u) (\<lambda>u.
      cbind (rt_strncpy (local_array env 20) (drop 11 (ctime_text env)) 5) (\<lambda>time_str.
      cbind (buf_put 5 0 time_str) (\<lambda>time_str.
      cbind (c_chars time_str) (\<lambda>t.
      on_disp (\<lambda>s. cbind (lcd_show_string (pnl env) 180 5 16 t [] s) (\<lambda>(_, s). Inr s)) u)))))))))))))"

text \<open>The air, the temperature and the humidity.\<close>

definition show_now :: "ui_env \<Rightarrow> Realtime \<Rightarrow> ui_state \<Rightarrow> ui_state cres" where
  "show_now env r u =
     (let bg = ucast (back_color_curr u); fg = ucast (fore_color_curr u) in
      cbind (if sint (aqi r) \<le> 50 then
               show_line env 15 115 60 (lit ''%3d  '' @ [211, 197, 208, 227, 32]) [A_Int (aqi r)] 0x9628 0xffff u
             else if sint (aqi r) \<le> 100 then
               show_line env 15 115 60 (lit ''%3d  '' @ [193, 188, 186, 195, 32]) [A_Int (aqi r)] 0xffe 0xffff u
             else
               show_line env 15 115 60 (lit ''%3d  '' @ [206, 219, 200, 190, 32]) [A_Int (aqi r)] 0xf800 0xffff u) (\<lambda>u.
      cbind (show_line env 10 115 80 ([206, 194, 182, 200] @ lit '':  %d'') [A_Int (temp r)] bg fg u) (\<lambda>u.
      show_line env 10 115 100 ([202, 170, 182, 200] @ lit '':  %d'') [A_Int (ucast (humi r))] bg fg u)))"

definition show_temps :: "ui_env \<Rightarrow> u16 \<Rightarrow> Weather \<Rightarrow> ui_state \<Rightarrow> ui_state cres" where
  "show_temps env x w =
     on_disp (\<lambda>s. cbind (lcd_show_string (pnl env) x 209 16 (lit ''%d /%d  '') [A_Int (Temp_L w), A_Int (Temp_H w)] s) (\<lambda>(_, s). Inr s))"

definition show_weather :: "ui_env \<Rightarrow> weather_state \<Rightarrow> ui_state \<Rightarrow> ui_state cres" where
  "show_weather env ws u =
     cbind (set_theme env u) (\<lambda>u.
     cbind (show_header env (rt ws) u) (\<lambda>u.
     cbind (show_icon env 11 24 (wtId (rt ws)) True (local_array env 25, u)) (\<lambda>(bmp_path, u).
     cbind (show_now env (rt ws) u) (\<lambda>u.
     let icon = (if display_mode u then D_wtId else N_wtId) in
     cbind (show_icon env 20 160 (icon (wt ws ! 0)) False (bmp_path, u)) (\<lambda>(bmp_path, u).
     cbind (show_icon env 95 160 (icon (wt ws ! 1)) False (bmp_path, u)) (\<lambda>(bmp_path, u).
     cbind (show_icon env 168 160 (icon (wt ws ! 2)) False (bmp_path, u)) (\<lambda>(bmp_path, u).
     cbind (show_temps env 21 (wt ws ! 0) u) (\<lambda>u.
     cbind (show_temps env 98 (wt ws ! 1) u) (\<lambda>u.
     show_temps env 170 (wt ws ! 2) u)))))))))"

section \<open>The theme\<close>

text \<open>\<open>atoi\<close> on memory: it reads up to the first byte that does not belong to the number.\<close>

definition atoi_mem :: "byte list \<Rightarrow> int cres" where
  "atoi_mem buf =
     (let r = dropWhile is_space buf;
          r = (case r of [] \<Rightarrow> [] | c # cs \<Rightarrow> if c = 45 \<or> c = 43 then cs else r)
      in if dropWhile isdigit r = [] then Inl Out_Of_Bounds else Inr (atoi buf))"

text \<open>One round of the minute loop; \<open>buf\<close> keeps its contents from round to round.\<close>

definition time_tick :: "ui_env \<Rightarrow> byte list \<times> ui_state \<Rightarrow> (byte list \<times> ui_state) cres" where
  "time_tick env = (\<lambda>(buf, u).
     cbind (rt_strncpy buf (drop 11 (ctime_text env)) 2) (\<lambda>buf.
     cbind (atoi_mem buf) (\<lambda>h.
     let hour = word_of_int h :: byte;
         u = (if \<not> display_mode u \<and> hour > 5 then u\<lparr>display_mode := True\<rparr> else u);
         u = (if display_mode u \<and> hour > 17 then u\<lparr>display_mode := False\<rparr> else u)
     in Inr (buf, u))))"

definition change_display_mode :: "ui_env \<Rightarrow> weather_state \<Rightarrow> ui_state \<Rightarrow> ui_state cres" where
  "change_display_mode env ws u =
     (let u = (if \<not> display_mode u then u\<lparr>display_mode := True\<rparr> else u\<lparr>display_mode := False\<rparr>)
      in show_weather env ws u)"

section \<open>Paths\<close>

definition icon_path :: "bool \<Rightarrow> bool \<Rightarrow> byte \<Rightarrow> byte list" where
  "icon_path mode big i =
     lit ''/'' @ (if mode then lit ''day'' else lit ''night'') @ (if big then [] else lit ''_small'') @ lit ''/'' @
     get_weather_name_by_id i @ lit ''.bmp''"

lemma icon_path_chars: "0 \<notin> set (icon_path mode big i)"
  by (auto simp: icon_path_def get_weather_name_by_id_def lit_def)

lemma icon_path_length:
  "length (icon_path mode big i) \<le> 25 \<and> (length (icon_path mode big i) = 25 \<longleftrightarrow> \<not> mode \<and> \<not> big \<and> i = 3)"
  by (auto simp: icon_path_def get_weather_name_by_id_def)

lemma icon_text:
  "format_text (lit ''/%s%s/%s.bmp'') [A_Str (Some a), A_Str (Some b), A_Str (Some c)] =
   Inr (lit ''/'' @ a @ b @ lit ''/'' @ c @ lit ''.bmp'')"
  by (simp add: lit_def c_simps)

lemma get_weather_icon_path_eq:
  assumes "path = t @ 0 # replicate k 0" "0 \<notin> set t" "length path = 25" "ui_stack env + 30 < 2 ^ 32 - 1"
  shows "get_weather_icon_path env mode path i big =
    Inr (icon_path mode big i @ replicate (25 - length (icon_path mode big i)) 0)"
proof -
  define p where "p = icon_path mode big i"
  have p: "0 \<notin> set p" "length p \<le> 25" using icon_path_chars icon_path_length by (auto simp: p_def)
  have "overlay 0 (replicate (length t) 0) path = replicate 25 0"
    using assms(1,3) by (simp add: overlay_def flip: replicate_Suc replicate_add)
  then have clear: "rt_memset (ui_stack env) path 0 (length t) = Inr (replicate 25 0)"
    using assms(1) by (simp add: rt_memset_eq)
  have len: "length (local_array env 30) = 30" by (simp add: local_array_def)
  have fmt: "format_text (lit ''/%s%s/%s.bmp'')
       [A_Str (Some (if mode then lit ''day'' else lit ''night'')), A_Str (Some (if big then [] else lit ''_small'')),
        A_Str (Some (get_weather_name_by_id i))] = Inr p"
    by (simp only: icon_text p_def icon_path_def)
  have "overlay 0 (p @ [0]) (local_array env 30) = p @ 0 # drop (length p + 1) (local_array env 30)"
    using p by (simp add: overlay_def len)
  then have sp: "rt_sprintf (ui_stack env) (local_array env 30) (lit ''/%s%s/%s.bmp'')
       [A_Str (Some (if mode then lit ''day'' else lit ''night'')), A_Str (Some (if big then [] else lit ''_small'')),
        A_Str (Some (get_weather_name_by_id i))] = Inr (length p, p @ 0 # drop (length p + 1) (local_array env 30))"
    using rt_sprintf_eq[OF fmt, of "ui_stack env" "local_array env 30"] p assms(4) by (simp add: len)
  have cp: "rt_strncpy (replicate 25 0) p (length p) = Inr (p @ replicate (25 - length p) 0)"
    using p by (simp add: rt_strncpy_eq overlay_def)
  show ?thesis
    unfolding get_weather_icon_path_def p_def[symmetric]
    using p assms(1,2) clear by (simp add: sp cp)
qed

section \<open>Texts\<close>

text \<open>Text of printable ASCII and of the characters of rows 0xB0 to 0xF7 of the code, and its characters. A font
  file of \<open>FONT_BYTES\<close> bytes has all those rows.\<close>

definition FONT_BYTES :: nat where "FONT_BYTES = 216576"

fun toks :: "byte list \<Rightarrow> tok list" where
  "toks [] = []"
| "toks (c # cs) = (if c \<le> 126 then En c # toks cs else case cs of [] \<Rightarrow> [] | d # ds \<Rightarrow> Ch c d # toks ds)"

fun readable :: "byte list \<Rightarrow> bool" where
  "readable [] = True"
| "readable (c # cs) =
     (if c \<le> 126 then 32 \<le> c \<and> readable cs
      else case cs of [] \<Rightarrow> False | d # ds \<Rightarrow> 0xB0 \<le> c \<and> c \<le> 0xF7 \<and> 0xA1 \<le> d \<and> d \<le> 0xFE \<and> readable ds)"

lemma drawable_hanzi:
  assumes "0xB0 \<le> a" "a \<le> 0xF7" "0xA1 \<le> b" "b \<le> 0xFE" "FONT_BYTES \<le> length font"
  shows "drawable font (Ch a b)"
proof -
  have u: "0xB0 \<le> uint a" "uint a \<le> 0xF7" "0xA1 \<le> uint b" "uint b \<le> 0xFE" using assms(1-4) by (simp_all add: word_le_def)
  then have "0 \<le> font_offset a b" "font_offset a b + 32 \<le> 216576" by (simp_all add: font_offset_def)
  moreover have "126 < a" using u(1) by (simp add: word_less_def)
  ultimately show ?thesis using assms(5) by (simp add: FONT_BYTES_def)
qed

lemma readable_induct [consumes 1, case_names Nil En Ch]:
  assumes "readable bs" "P []" "\<And>c cs. c \<le> 126 \<Longrightarrow> 32 \<le> c \<Longrightarrow> readable cs \<Longrightarrow> P cs \<Longrightarrow> P (c # cs)"
    and "\<And>c d ds. \<not> c \<le> 126 \<Longrightarrow> 0xB0 \<le> c \<Longrightarrow> c \<le> 0xF7 \<Longrightarrow> 0xA1 \<le> d \<Longrightarrow> d \<le> 0xFE \<Longrightarrow> readable ds \<Longrightarrow> P ds \<Longrightarrow> P (c # d # ds)"
  shows "P bs"
  using assms(1)
proof (induction bs rule: readable.induct)
  case 1
  show ?case by (rule assms(2))
next
  case (2 c cs)
  show ?case
  proof (cases "c \<le> 126")
    case True
    then show ?thesis using 2 by (intro assms(3)) simp_all
  next
    case False
    then obtain d ds where cs: "cs = d # ds" using "2.prems" by (cases cs) simp_all
    show ?thesis unfolding cs using 2(2)[OF False cs] 2(3) False by (intro assms(4)) (simp_all add: cs)
  qed
qed

lemma toks_append: "readable a \<Longrightarrow> toks (a @ b) = toks a @ toks b"
  by (induction a rule: readable_induct) simp_all

lemma readable_append: "readable a \<Longrightarrow> readable (a @ b) = readable b"
  by (induction a rule: readable_induct) simp_all

lemma readable_toks:
  assumes "readable bs" "FONT_BYTES \<le> length font"
  shows "concat (map tok_bytes (toks bs)) = bs \<and> list_all (drawable font) (toks bs) \<and> 0 \<notin> set bs"
  using assms(1)
proof (induction bs rule: readable_induct)
  case (Ch c d ds)
  moreover have "drawable font (Ch c d)" using Ch(2-5) assms(2) by (rule drawable_hanzi)
  moreover have "c \<noteq> 0" "d \<noteq> 0" using Ch(2,4) by auto
  ultimately show ?case by (simp del: drawable.simps)
qed auto

lemma readable_ascii: "\<forall>c\<in>set bs. 32 \<le> c \<and> c \<le> 126 \<Longrightarrow> readable bs"
  by (induction bs) auto

section \<open>Numbers\<close>

lemma dec_text_length:
  assumes "- (10 ^ k) < sint n" "sint n < 10 ^ Suc k"
  shows "length (dec_text (-1) n) \<le> Suc k"
proof (cases "sint n < 0")
  case True
  have "int (unat (- n)) = - sint n" using neg_u32[OF True] by simp
  then have "int (unat (- n)) < 10 ^ k" using assms(1) by linarith
  then have "unat (- n) < 10 ^ k" by (simp only: of_nat_less_numeral_power_cancel_iff)
  then show ?thesis using True tmp_digits_length[of "- n" k False] by (auto simp: dec_text_eq Let_def)
next
  case False
  then have "sint n = int (unat n)" using uint_lt2p[of n] by (simp add: sint_u32 not_less split: if_splits)
  then have "int (unat n) < 10 ^ Suc k" using assms(2) by linarith
  then have "unat n < 10 ^ Suc k" by (simp only: of_nat_less_numeral_power_cancel_iff)
  then show ?thesis using False tmp_digits_length[of n "Suc k" False] by (auto simp: dec_text_eq Let_def)
qed

lemma dec_text_width: "length (dec_text 3 n) = max 3 (length (dec_text (-1) n))"
  by (simp add: dec_text_eq Let_def)

lemma dec_text_readable: "readable (dec_text w n)"
proof (rule readable_ascii)
  define ds where "ds = (if n = 0 then [48] else rev (tmp_digits False 10 (if sint n < 0 then - n else n)))"
  have "32 \<le> d \<and> d \<le> 126" if "48 \<le> d \<and> d \<le> 57" for d :: byte
    using that by (simp add: word_le_nat_alt)
  then have "\<forall>d\<in>set ds. 32 \<le> d \<and> d \<le> 126" using number_shape(2)[of n] by (simp add: ds_def del: set_rev)
  then show "\<forall>c\<in>set (dec_text w n). 32 \<le> c \<and> c \<le> 126"
    unfolding dec_text_eq ds_def[symmetric] by (auto simp: Let_def)
qed

section \<open>What a screen shows\<close>

datatype widget =
    Fill u16
  | Rule u16 u16 u16
  | Label u16 u16 "byte list" u16 u16
  | Small u16 u16 "byte list"
  | Picture u32 u32 "byte list"

definition font_file :: "ui_env \<Rightarrow> byte list" where
  "font_file env = the (files (ui_ch env) file_location)"

fun widget_wire :: "ui_env \<Rightarrow> lcd \<Rightarrow> widget \<Rightarrow> (bool \<times> byte) list" where
  "widget_wire env s (Fill c) = window 0 0 239 239 @ pixel_run (240 * 240) c"
| "widget_wire env s (Rule x1 x2 y) = window x1 y x2 y @ pixel_run (unat x2 - unat x1) (FORE_COLOR s)"
| "widget_wire env s (Label x y t bg fg) = concat (map (tok_wire (font_file env) bg fg) (place x y (toks t)))"
| "widget_wire env s (Small x y t) = concat (map (cell_wire s 16) (layout 16 x y t))"
| "widget_wire env s (Picture x y path) =
     (let bs = the (files (ui_ch env) path); w = unat (pic_w_l bs); h = unat (pic_h_l bs)
      in window (ucast x) (ucast y) (ucast (x + word_of_nat w - 1)) (ucast (y + word_of_nat h - 1)) @
         pixels (concat (map (bmp_row bs (unat (pic_data_address_l bs)) w) [0..<h])))"

definition screen_wire :: "ui_env \<Rightarrow> lcd \<Rightarrow> widget list \<Rightarrow> (bool \<times> byte) list" where
  "screen_wire env s ws = concat (map (widget_wire env s) ws)"

text \<open>The files the screen needs, memory for the pictures, and room for the local arrays.\<close>

definition ui_ready :: "ui_env \<Rightarrow> bool" where
  "ui_ready env \<longleftrightarrow> ui_stack env + 30 < 2 ^ 32 - 1 \<and> stack (pnl env) + 100 < 2 ^ 32 \<and>
     (\<forall>b n. heap (pnl env) b n \<noteq> None) \<and>
     (\<exists>font. files (ui_ch env) file_location = Some font \<and> FONT_BYTES \<le> length font) \<and>
     (\<forall>mode big i. \<exists>bs off w h. files (ui_ch env) (icon_path mode big i) = Some bs \<and> picture bs off w h)"

section \<open>Drawing in sequence\<close>

text \<open>\<open>paints env a u ws\<close>: \<open>a\<close> gives a state in which the widgets \<open>ws\<close> have been drawn since \<open>u\<close>, and the theme is
  as before.\<close>

definition draws :: "ui_env \<Rightarrow> ui_state \<Rightarrow> widget list \<Rightarrow> ui_state \<Rightarrow> bool" where
  "draws env u ws u' \<longleftrightarrow> emits (disp (view u)) (screen_wire env (disp (view u)) ws) (disp (view u')) \<and>
     length (bmp (view u')) = length (bmp (view u)) \<and> display_mode u' = display_mode u \<and>
     back_color_curr u' = back_color_curr u \<and> fore_color_curr u' = fore_color_curr u"

definition paints :: "ui_env \<Rightarrow> ui_state cres \<Rightarrow> ui_state \<Rightarrow> widget list \<Rightarrow> bool" where
  "paints env a u ws \<longleftrightarrow> (\<exists>u'. a = Inr u' \<and> draws env u ws u')"

lemma widget_wire_cong: "emits s w t \<Longrightarrow> widget_wire env t = widget_wire env s"
proof (rule ext)
  fix c assume "emits s w t"
  then show "widget_wire env t c = widget_wire env s c"
    by (cases c) (simp_all add: cell_wire_cong[of s w t] emits_def)
qed

lemma draws_trans: "draws env u ws u1 \<Longrightarrow> draws env u1 vs u2 \<Longrightarrow> draws env u (ws @ vs) u2"
  using emits_trans widget_wire_cong by (fastforce simp: draws_def screen_wire_def)

lemma paints_bind:
  assumes "paints env a u ws" "\<And>u'. draws env u ws u' \<Longrightarrow> paints env (f u') u' vs"
  shows "paints env (cbind a f) u (ws @ vs)"
  using assms unfolding paints_def by (metis cbind_Inr draws_trans)

lemma paints_disp:
  assumes "\<exists>s'. f (disp (view u)) = Inr s' \<and> emits (disp (view u)) (screen_wire env (disp (view u)) ws) s'"
  shows "paints env (on_disp f u) u ws"
  using assms by (auto simp: paints_def on_disp_def draws_def)

lemma paints_line:
  assumes "ui_ready env" "format_text fmt args = Inr t" "readable t" "length t < n" "n \<le> 30"
  shows "paints env (show_line env n x y fmt args bg fg u) u [Label x y t bg fg]"
proof -
  obtain font where font: "files (ui_ch env) file_location = Some font" "FONT_BYTES \<le> length font"
    using assms(1) by (auto simp: ui_ready_def)
  have len: "length (local_array env n) = n" by (simp add: local_array_def)
  have "rt_sprintf (ui_stack env) (local_array env n) fmt args =
      Inr (length t, overlay 0 (t @ [0]) (local_array env n))"
    using rt_sprintf_eq[OF assms(2), of "ui_stack env" "local_array env n"] assms(1,4,5)
    by (simp add: len ui_ready_def)
  moreover have "overlay 0 (t @ [0]) (local_array env n) = concat (map tok_bytes (toks t)) @ 0 # drop (length t + 1) (local_array env n)"
    using assms(4) readable_toks[OF assms(3) font(2)] by (simp add: overlay_def len)
  ultimately show ?thesis
    using lcd_disp_str_en_ch_emits[OF font(1), of "toks t" x y "drop (length t + 1) (local_array env n)" bg fg "disp (view u)"]
      readable_toks[OF assms(3) font(2)]
    by (simp add: show_line_def paints_disp screen_wire_def font_file_def font(1))
qed

lemma paints_label:
  assumes "ui_ready env" "readable t" "\<forall>k\<in>set (toks t). \<exists>a b. k = Ch a b \<and> 126 < a"
  shows "paints env (on_disp (lcd_disp_str_ch (ui_ch env) x y (t @ [0]) bg fg) u) u [Label x y t bg fg]"
proof -
  obtain font where font: "files (ui_ch env) file_location = Some font" "FONT_BYTES \<le> length font"
    using assms(1) by (auto simp: ui_ready_def)
  have bytes: "concat (map tok_bytes (toks t)) = t" using readable_toks[OF assms(2) font(2)] by simp
  show ?thesis
    using lcd_disp_str_en_ch_emits[OF font(1), of "toks t" x y "[]" bg fg "disp (view u)"]
      lcd_disp_str_ch_eq[of "toks t" "ui_ch env" x y "[]" bg fg "disp (view u)"] readable_toks[OF assms(2) font(2)] assms(3)
    by (intro paints_disp) (simp add: bytes screen_wire_def font_file_def font(1) list_all_iff)
qed

lemma paints_small:
  assumes "ui_ready env" "format_text fmt args = Inr t" "list_all printable t" "length t \<le> 99"
  shows "paints env (on_disp (\<lambda>s. cbind (lcd_show_string (pnl env) x y 16 fmt args s) (\<lambda>(_, s). Inr s)) u) u [Small x y t]"
  using lcd_show_string_emits[of 16 fmt args t "pnl env" x y "disp (view u)"] assms
  by (intro paints_disp) (auto simp: ui_ready_def font_size_def screen_wire_def)

section \<open>The weather screen\<close>

definition theme_back :: "bool \<Rightarrow> u32" where "theme_back mode = back_color ! (if mode then 1 else 0)"
definition theme_fore :: "bool \<Rightarrow> u32" where "theme_fore mode = fore_color ! (if mode then 1 else 0)"

definition header_screen :: "u16 \<Rightarrow> u16 \<Rightarrow> Realtime \<Rightarrow> byte list \<Rightarrow> widget list" where
  "header_screen bg fg r clock =
     [Rule 18 224 130, Label 31 140 [189, 241, 204, 236] bg fg, Label 105 140 [195, 247, 204, 236] bg fg,
      Label 175 140 [186, 243, 204, 236] bg fg,
      Label 10 5 (cstr (area_1 r) @ lit '' '' @ cstr (area_2 r) @ lit ''     '') bg fg,
      Label 115 40 (cstr (wtNm r) @ lit ''     '') bg fg, Small 180 5 clock]"

definition aqi_label :: "u32 \<Rightarrow> widget" where
  "aqi_label q =
     (let (name, colour) = (if sint q \<le> 50 then ([211, 197, 208, 227], 0x9628)
        else if sint q \<le> 100 then ([193, 188, 186, 195], 0xffe) else ([206, 219, 200, 190], 0xf800))
      in Label 115 60 (dec_text 3 q @ lit ''  '' @ name @ lit '' '') colour 0xffff)"

definition now_screen :: "u16 \<Rightarrow> u16 \<Rightarrow> Realtime \<Rightarrow> widget list" where
  "now_screen bg fg r =
     [aqi_label (aqi r), Label 115 80 ([206, 194, 182, 200] @ lit '':  '' @ dec_text (-1) (temp r)) bg fg,
      Label 115 100 ([202, 170, 182, 200] @ lit '':  '' @ dec_text (-1) (ucast (humi r))) bg fg]"

definition day_icon :: "bool \<Rightarrow> Weather \<Rightarrow> byte" where
  "day_icon mode w = (if mode then D_wtId w else N_wtId w)"

definition temps_text :: "Weather \<Rightarrow> byte list" where
  "temps_text w = dec_text (-1) (Temp_L w) @ lit '' /'' @ dec_text (-1) (Temp_H w) @ lit ''  ''"

definition weather_screen :: "bool \<Rightarrow> weather_state \<Rightarrow> byte list \<Rightarrow> widget list" where
  "weather_screen mode ws clock =
     (let bg = ucast (theme_back mode); fg = ucast (theme_fore mode); r = rt ws
      in header_screen bg fg r clock @ [Picture 11 24 (icon_path mode True (wtId r))] @ now_screen bg fg r @
         [Picture 20 160 (icon_path mode False (day_icon mode (wt ws ! 0))),
          Picture 95 160 (icon_path mode False (day_icon mode (wt ws ! 1))),
          Picture 168 160 (icon_path mode False (day_icon mode (wt ws ! 2))),
          Small 21 209 (temps_text (wt ws ! 0)), Small 98 209 (temps_text (wt ws ! 1)),
          Small 170 209 (temps_text (wt ws ! 2))])"

text \<open>What fits the local arrays: names that are terminated and readable, a weather name of at most two
  characters, numbers of few digits; \<open>ctime\<close> gives a clock at offset 11.\<close>

definition name_fits :: "byte list \<Rightarrow> nat \<Rightarrow> bool" where
  "name_fits name n \<longleftrightarrow> 0 \<in> set name \<and> readable (cstr name) \<and> length (cstr name) \<le> n"

definition header_fits :: "Realtime \<Rightarrow> bool" where
  "header_fits r \<longleftrightarrow> name_fits (area_1 r) 10 \<and> name_fits (area_2 r) 10 \<and> name_fits (wtNm r) 4"

definition now_fits :: "Realtime \<Rightarrow> bool" where
  "now_fits r \<longleftrightarrow> - 1000000 < sint (aqi r) \<and> sint (aqi r) < 10000000 \<and> -10 < sint (temp r) \<and> sint (temp r) < 100 \<and> humi r < 100"

definition clock_of :: "byte list \<Rightarrow> byte list" where
  "clock_of t = take 5 (drop 11 t)"

definition clock_fits :: "byte list \<Rightarrow> bool" where
  "clock_fits t \<longleftrightarrow> 16 \<le> length t \<and> (\<forall>c\<in>set (clock_of t). 48 \<le> c \<and> c \<le> 58)"

lemma clock_text: "\<forall>c\<in>set t. 48 \<le> c \<and> c \<le> (58 :: byte) \<Longrightarrow>
  format_text t [] = Inr t \<and> list_all printable t \<and> 0 \<notin> set t"
proof -
  have b: "c \<noteq> 37 \<and> printable c \<and> c \<noteq> 0" if "48 \<le> c \<and> c \<le> 58" for c :: byte
    using that by (auto simp: printable_def word_le_nat_alt)
  assume "\<forall>c\<in>set t. 48 \<le> c \<and> c \<le> (58 :: byte)"
  then have "37 \<notin> set t" "list_all printable t" "0 \<notin> set t" using b by (auto simp: list_all_iff)
  then show ?thesis using format_text_plain[of t "[]" "[]"] by simp
qed

lemma paints_rule: "paints env (on_disp (lcd_draw_line (pnl env) 18 130 224 130) u) u [Rule 18 224 130]"
  using lcd_draw_line_horizontal_emits[of 18 224 "pnl env" 130 "disp (view u)"]
  by (intro paints_disp) (simp add: screen_wire_def)

lemma day_paints:
  assumes "ui_ready env" "d \<in> {[189, 241, 204, 236], [195, 247, 204, 236], [186, 243, 204, 236]}"
  shows "paints env (on_disp (lcd_disp_str_ch (ui_ch env) x 140 (d @ [0]) bg fg) u) u [Label x 140 d bg fg]"
  using assms(2) by (intro paints_label[OF assms(1)]) auto

lemmas days_paint = day_paints[of _ "[_, _, _, _]", unfolded append_Cons append_Nil]

lemma city_paints:
  assumes "ui_ready env" "readable a1" "readable a2" "length a1 \<le> 10" "length a2 \<le> 10"
  shows "paints env (show_line env 30 10 5 (lit ''%s %s     '') [A_Str (Some a1), A_Str (Some a2)] bg fg u) u
    [Label 10 5 (a1 @ lit '' '' @ a2 @ lit ''     '') bg fg]"
proof (rule paints_line[OF assms(1)])
  show "format_text (lit ''%s %s     '') [A_Str (Some a1), A_Str (Some a2)] = Inr (a1 @ lit '' '' @ a2 @ lit ''     '')"
    by (simp add: lit_def c_simps)
  show "readable (a1 @ lit '' '' @ a2 @ lit ''     '')" using assms by (simp add: readable_append lit_def)
qed (use assms in simp_all)

lemma name_text: "format_text (lit ''%s     '') [A_Str (Some nm)] = Inr (nm @ lit ''     '')"
  by (simp add: lit_def c_simps)

lemma header_paints:
  assumes "ui_ready env" "header_fits r" "clock_fits (ctime_text env)"
  shows "paints env (show_header env r u) u
    (header_screen (ucast (back_color_curr u)) (ucast (fore_color_curr u)) r (clock_of (ctime_text env)))"
proof -
  define bg fg :: u16 where "bg = ucast (back_color_curr u)" and "fg = ucast (fore_color_curr u)"
  define a1 a2 nm t where "a1 = cstr (area_1 r)" and "a2 = cstr (area_2 r)" and "nm = cstr (wtNm r)"
    and "t = clock_of (ctime_text env)"
  have f: "c_chars (area_1 r) = Inr a1" "c_chars (area_2 r) = Inr a2" "c_chars (wtNm r) = Inr nm"
    "readable a1" "readable a2" "readable nm" "length a1 \<le> 10" "length a2 \<le> 10" "length nm \<le> 4"
    using assms(2) by (simp_all add: header_fits_def name_fits_def c_chars_def a1_def a2_def nm_def)
  have t: "format_text t [] = Inr t" "list_all printable t" "0 \<notin> set t" "length t = 5"
    using assms(3) clock_text[of t] by (auto simp: clock_fits_def t_def clock_of_def)
  have tm: "rt_strncpy (local_array env 20) (drop 11 (ctime_text env)) 5 = Inr (t @ drop 5 (local_array env 20))"
  proof -
    have "min (length (ctime_text env) - 11) 5 = 5" using assms(3) by (auto simp: clock_fits_def)
    then show ?thesis by (simp add: rt_strncpy_eq local_array_def overlay_def t_def clock_of_def)
  qed
  have put: "buf_put 5 0 (t @ drop 5 (local_array env 20)) = Inr (t @ 0 # drop 6 (local_array env 20))"
    using t(4) by (simp add: local_array_def list_update_append upt_conv_Cons)
  have rd: "readable (nm @ lit ''     '')" using f by (simp add: readable_append lit_def)
  have name: "paints env (show_line env 10 115 40 (lit ''%s     '') [A_Str (Some nm)] bg fg u) u [Label 115 40 (nm @ lit ''     '') bg fg]"
    for u using paints_line[OF assms(1) name_text rd] f by simp
  have "paints env (show_header env r u) u
    ([Rule 18 224 130] @ [Label 31 140 [189, 241, 204, 236] bg fg] @ [Label 105 140 [195, 247, 204, 236] bg fg] @
     [Label 175 140 [186, 243, 204, 236] bg fg] @ [Label 10 5 (a1 @ lit '' '' @ a2 @ lit ''     '') bg fg] @
     [Label 115 40 (nm @ lit ''     '') bg fg] @ [Small 180 5 t])"
    unfolding show_header_def bg_def[symmetric] fg_def[symmetric] Let_def
    unfolding f cbind_Inr tm put c_chars_text[OF t(3)]
    using t f by (intro paints_bind paints_rule days_paint[OF assms(1)] city_paints[OF assms(1)] name paints_small[OF assms(1)]) simp_all
  then show ?thesis by (simp add: header_screen_def bg_def fg_def a1_def a2_def nm_def t_def)
qed

lemma sint_byte: "sint (ucast h :: u32) = uint (h :: byte)"
  using uint_lt2p[of h] by (simp add: sint_u32 unsigned_ucast_eq take_bit_int_eq_self)

lemma aqi_paints:
  assumes "ui_ready env" "- 1000000 < sint q" "sint q < 10000000"
  shows "paints env
     (if sint q \<le> 50 then show_line env 15 115 60 (lit ''%3d  '' @ [211, 197, 208, 227, 32]) [A_Int q] 0x9628 0xffff u
      else if sint q \<le> 100 then show_line env 15 115 60 (lit ''%3d  '' @ [193, 188, 186, 195, 32]) [A_Int q] 0xffe 0xffff u
      else show_line env 15 115 60 (lit ''%3d  '' @ [206, 219, 200, 190, 32]) [A_Int q] 0xf800 0xffff u) u [aqi_label q]"
proof -
  have len: "length (dec_text 3 q) \<le> 7" using dec_text_length[of 6 q] assms(2,3) by (simp add: dec_text_width)
  have step: "paints env (show_line env 15 115 60 (lit ''%3d  '' @ name @ [32]) [A_Int q] c 0xffff u) u
      [Label 115 60 (dec_text 3 q @ lit ''  '' @ name @ lit '' '') c 0xffff]"
    if "37 \<notin> set name" "readable name" "length name = 4" for name c
  proof (rule paints_line[OF assms(1)])
    have "37 \<notin> set (name @ [32])" using that by simp
    from format_text_plain[OF this, of "[]" "[]"]
    show "format_text (lit ''%3d  '' @ name @ [32]) [A_Int q] = Inr (dec_text 3 q @ lit ''  '' @ name @ lit '' '')"
      by (simp add: lit_def c_simps)
    show "readable (dec_text 3 q @ lit ''  '' @ name @ lit '' '')"
      using that by (simp add: readable_append dec_text_readable lit_def)
  qed (use len that in simp_all)
  show ?thesis
    using step[of "[211, 197, 208, 227]"] step[of "[193, 188, 186, 195]"] step[of "[206, 219, 200, 190]"]
    by (simp add: aqi_label_def)
qed

lemma degrees_paints:
  assumes "ui_ready env" "-10 < sint d" "sint d < 100" "name \<in> {[206, 194, 182, 200], [202, 170, 182, 200]}"
  shows "paints env (show_line env 10 115 y (name @ lit '':  %d'') [A_Int d] bg fg u) u
    [Label 115 y (name @ lit '':  '' @ dec_text (-1) d) bg fg]"
proof (rule paints_line[OF assms(1)])
  have n: "37 \<notin> set name" "readable name" "length name = 4" using assms(4) by auto
  show "format_text (name @ lit '':  %d'') [A_Int d] = Inr (name @ lit '':  '' @ dec_text (-1) d)"
    using format_text_plain[OF n(1), of "lit '':  %d''"] by (simp add: lit_def c_simps)
  show "readable (name @ lit '':  '' @ dec_text (-1) d)"
    using n by (simp add: readable_append dec_text_readable lit_def)
  show "length (name @ lit '':  '' @ dec_text (-1) d) < 10"
    using dec_text_length[of 1 d] assms(2,3) n by simp
qed simp

lemma now_paints:
  assumes "ui_ready env" "now_fits r"
  shows "paints env (show_now env r u) u (now_screen (ucast (back_color_curr u)) (ucast (fore_color_curr u)) r)"
proof -
  define bg fg :: u16 where "bg = ucast (back_color_curr u)" and "fg = ucast (fore_color_curr u)"
  have h: "- 10 < sint (ucast (humi r) :: u32)" "sint (ucast (humi r) :: u32) < 100"
  proof -
    have "-10 < uint (humi r)" by (rule less_le_trans[of _ 0]) simp_all
    then show "- 10 < sint (ucast (humi r) :: u32)" by (simp only: sint_byte)
    show "sint (ucast (humi r) :: u32) < 100" using assms(2) by (simp add: sint_byte now_fits_def word_less_def)
  qed
  have "paints env (show_now env r u) u
     ([aqi_label (aqi r)] @ [Label 115 80 ([206, 194, 182, 200] @ lit '':  '' @ dec_text (-1) (temp r)) bg fg] @
      [Label 115 100 ([202, 170, 182, 200] @ lit '':  '' @ dec_text (-1) (ucast (humi r))) bg fg])"
    unfolding show_now_def bg_def[symmetric] fg_def[symmetric] Let_def
    using assms(2) h by (intro paints_bind aqi_paints degrees_paints assms(1)) (simp_all add: now_fits_def)
  then show ?thesis by (simp add: now_screen_def bg_def fg_def)
qed

lemma temps_paints:
  assumes "ui_ready env"
  shows "paints env (show_temps env x w u) u [Small x 209 (temps_text w)]"
  unfolding show_temps_def
proof (rule paints_small[OF assms])
  have len: "length (dec_text (-1) n) \<le> 11" for n
    using number_shape(1,3)[of n] by (auto split: if_splits)
  have ok: "list_all printable (dec_text (-1) n)" for n
  proof -
    have "printable d" if "48 \<le> d \<and> d \<le> 57" for d using that by (simp add: printable_def word_le_nat_alt)
    then show ?thesis using number_shape(1,2)[of n] by (auto simp: list_all_iff printable_def simp del: set_rev)
  qed
  show "format_text (lit ''%d /%d  '') [A_Int (Temp_L w), A_Int (Temp_H w)] = Inr (temps_text w)"
    by (simp add: lit_def c_simps temps_text_def)
  show "list_all printable (temps_text w)" using ok by (simp add: temps_text_def lit_def printable_def)
  show "length (temps_text w) \<le> 99" using len[of "Temp_L w"] len[of "Temp_H w"] by (simp add: temps_text_def)
qed

section \<open>Icons and the theme\<close>

text \<open>\<open>show_icon\<close> on a path array that is zero behind its text.\<close>

definition path_array :: "byte list \<Rightarrow> bool" where
  "path_array path \<longleftrightarrow> (\<exists>t k. path = t @ 0 # replicate k 0 \<and> 0 \<notin> set t \<and> length path = 25)"

definition icon_fits :: "bool \<Rightarrow> bool \<Rightarrow> byte \<Rightarrow> bool" where
  "icon_fits mode big i \<longleftrightarrow> mode \<or> big \<or> i \<noteq> 3"

definition icon_paints :: "ui_env \<Rightarrow> (byte list \<times> ui_state) cres \<Rightarrow> ui_state \<Rightarrow> widget list \<Rightarrow> bool" where
  "icon_paints env a u ws \<longleftrightarrow> (\<exists>path u'. a = Inr (path, u') \<and> path_array path \<and> draws env u ws u')"

lemma show_icon_paints:
  assumes "ui_ready env" "path_array path" "length (bmp (view u)) = 70" "icon_fits (display_mode u) big i"
  shows "icon_paints env (show_icon env x y i big (path, u)) u [Picture x y (icon_path (display_mode u) big i)]"
proof -
  define p where "p = icon_path (display_mode u) big i"
  obtain t k where t: "path = t @ 0 # replicate k 0" "0 \<notin> set t" "length path = 25" using assms(2) by (auto simp: path_array_def)
  have p: "0 \<notin> set p" "length p < 25" using icon_path_chars icon_path_length[of "display_mode u" big i] assms(4)
    by (auto simp: p_def icon_fits_def)
  define new where "new = p @ 0 # replicate (24 - length p) 0"
  have "p @ replicate (25 - length p) 0 = new"
    using p(2) by (simp add: new_def flip: replicate_Suc Suc_diff_le)
  then have "get_weather_icon_path env (display_mode u) path i big = Inr new"
    using get_weather_icon_path_eq[OF t] assms(1) by (simp add: ui_ready_def p_def)
  moreover have "c_chars new = Inr p" unfolding new_def by (rule c_chars_text[OF p(1)])
  moreover have "path_array new" using p by (auto simp: path_array_def new_def intro!: exI[of _ p])
  moreover obtain bs off w h where pic: "files (ui_ch env) p = Some bs" "picture bs off w h"
    using assms(1) unfolding ui_ready_def p_def by blast
  moreover have "off = unat (pic_data_address_l bs)" "w = unat (pic_w_l bs)" "h = unat (pic_h_l bs)"
    using pic(2) by (simp_all add: picture_def)
  ultimately show ?thesis
    using Show_BMP_emits[where fs = "files (ui_ch env)" and path = p and env = "pnl env" and v = "view u" and ?x0.0 = x and ?y0.0 = y,
        OF pic assms(3)] assms(1,3)
    by (auto simp: icon_paints_def show_icon_def draws_def screen_wire_def p_def[symmetric] ui_ready_def)
qed

lemma icon_bind:
  assumes "icon_paints env a u ws" "\<And>path u'. path_array path \<Longrightarrow> draws env u ws u' \<Longrightarrow> paints env (f (path, u')) u' vs"
  shows "paints env (cbind a f) u (ws @ vs)"
  using assms unfolding paints_def icon_paints_def by (metis cbind_Inr draws_trans)

text \<open>The colours of the display follow those of the interface, once a theme has been set.\<close>

definition themed :: "bool \<Rightarrow> ui_state \<Rightarrow> bool" where
  "themed mode u \<longleftrightarrow> back_color_curr u = theme_back mode \<and> fore_color_curr u = theme_fore mode \<and>
     BACK_COLOR (disp (view u)) = ucast (theme_back mode) \<and> FORE_COLOR (disp (view u)) = ucast (theme_fore mode)"

definition ui_inv :: "ui_state \<Rightarrow> bool" where
  "ui_inv u \<longleftrightarrow> length (bmp (view u)) = 70 \<and> (back_color_curr u = -1 \<or> themed True u \<or> themed False u)"

lemma draws_inv: "draws env u ws u' \<Longrightarrow> ui_inv u \<Longrightarrow> ui_inv u'"
  by (auto simp: ui_inv_def draws_def themed_def emits_def)

lemma theme_colours: "theme_back True = 0xf7be" "theme_back False = 0x2945"
  by (simp_all add: theme_back_def back_color_def)

lemma set_theme_emits:
  assumes "ui_inv u"
  shows "\<exists>u'. set_theme env u = Inr u' \<and> themed (display_mode u) u' \<and> display_mode u' = display_mode u \<and>
    length (bmp (view u')) = 70 \<and> sent (disp (view u')) = sent (disp (view u)) @
      screen_wire env (disp (view u')) (if themed (display_mode u) u then [] else [Fill (ucast (theme_back (display_mode u)))])"
proof (cases "themed (display_mode u) u")
  case True
  then show ?thesis using assms
    by (auto simp: set_theme_def themed_def theme_back_def ui_inv_def screen_wire_def)
next
  case False
  define bg fg where "bg = theme_back (display_mode u)" and "fg = theme_fore (display_mode u)"
  define s where "s = lcd_set_color (ucast bg) (ucast fg) (disp (view u))"
  have ne: "back_color_curr u \<noteq> bg"
    using assms False by (cases "display_mode u") (auto simp: ui_inv_def bg_def themed_def theme_colours)
  obtain s' where s': "lcd_clear (pnl env) (ucast bg) s = Inr s'" "emits s (screen_wire env s [Fill (ucast bg)]) s'"
    using lcd_clear_emits[of "pnl env" "ucast bg" s] by (auto simp: screen_wire_def)
  define u' where "u' = u\<lparr>back_color_curr := bg, fore_color_curr := fg, view := (view u)\<lparr>disp := s'\<rparr>\<rparr>"
  have "set_theme env u = Inr u'"
    using ne s'(1) by (simp add: set_theme_def on_disp_def Let_def u'_def bg_def fg_def theme_back_def theme_fore_def s_def)
  moreover have "sent s = sent (disp (view u))" by (simp add: s_def lcd_set_color_def sent_def)
  moreover have "BACK_COLOR s = ucast bg" "FORE_COLOR s = ucast fg" by (simp_all add: s_def lcd_set_color_def)
  ultimately have "themed (display_mode u) u'" "sent (disp (view u')) = sent (disp (view u)) @ screen_wire env (disp (view u')) [Fill (ucast bg)]"
    using s'(2) emits_sent[OF s'(2)] by (simp_all add: u'_def themed_def bg_def fg_def emits_def screen_wire_def)
  moreover have "length (bmp (view u')) = 70" "display_mode u' = display_mode u" using assms by (simp_all add: u'_def ui_inv_def)
  moreover have "set_theme env u = Inr u'" by fact
  ultimately show ?thesis using False by (intro exI[of _ u']) (simp add: bg_def)
qed

text \<open>Everything the caller provides fits. What is not said here is how the local array \<open>bmp_path[25]\<close> of
  \<open>show_weather\<close> starts: the source does not initialise it and \<open>get_weather_icon_path\<close> searches its terminator, so the
  lemmas on \<open>show_weather\<close> name what they need of it. \<open>path_array\<close> is a text followed by zeros up to the end.\<close>

definition screen_fits :: "ui_env \<Rightarrow> bool \<Rightarrow> weather_state \<Rightarrow> bool" where
  "screen_fits env mode ws \<longleftrightarrow> ui_ready env \<and> clock_fits (ctime_text env) \<and>
     header_fits (rt ws) \<and> now_fits (rt ws) \<and> (\<forall>k<3. icon_fits mode False (day_icon mode (wt ws ! k)))"

definition ok :: "bool \<Rightarrow> ui_state \<Rightarrow> bool" where
  "ok m u \<longleftrightarrow> themed m u \<and> display_mode u = m \<and> length (bmp (view u)) = 70"

lemma draws_ok: "draws env u ws u' \<Longrightarrow> ok m u \<Longrightarrow> ok m u'"
  by (auto simp: ok_def draws_def themed_def emits_def)

lemma icon_step:
  assumes "ui_ready env" "ok m u" "path_array path" "icon_fits m big i" "j = i"
    and "\<And>path u'. path_array path \<Longrightarrow> ok m u' \<Longrightarrow> paints env (f path u') u' vs"
  shows "paints env (cbind (show_icon env x y j big (path, u)) (\<lambda>(path, u'). f path u')) u ([Picture x y (icon_path m big i)] @ vs)"
proof (rule icon_bind)
  show "icon_paints env (show_icon env x y j big (path, u)) u [Picture x y (icon_path m big i)]"
    using show_icon_paints[OF assms(1,3), of u big i x y] assms(2,4,5) by (auto simp: ok_def)
  show "paints env (case (path, u') of (path, u') \<Rightarrow> f path u') u' vs"
    if "path_array path" "draws env u [Picture x y (icon_path m big i)] u'" for path u'
    using assms(6)[OF that(1) draws_ok[OF that(2) assms(2)]] by simp
qed

lemma paint_step:
  assumes "ok m u" "paints env a u ws" "\<And>u'. ok m u' \<Longrightarrow> paints env (f u') u' vs"
  shows "paints env (cbind a f) u (ws @ vs)"
  using assms(2) by (rule paints_bind) (use assms(1,3) draws_ok in blast)

lemma path_array_zero: "(\<And>k. k < 25 \<Longrightarrow> ui_local env k = 0) \<Longrightarrow> path_array (local_array env 25)"
proof -
  assume "\<And>k. k < 25 \<Longrightarrow> ui_local env k = 0"
  then have "local_array env 25 = replicate 25 0" by (simp add: local_array_def list_eq_iff_nth_eq)
  then show ?thesis by (auto simp: path_array_def intro!: exI[of _ "[]"] exI[of _ 24] simp flip: replicate_Suc)
qed

lemma show_weather_eq:
  assumes "ui_inv u" "screen_fits env (display_mode u) ws" "path_array (local_array env 25)"
  shows "\<exists>u'. show_weather env ws u = Inr u' \<and> themed (display_mode u) u' \<and> display_mode u' = display_mode u \<and> ui_inv u' \<and>
    sent (disp (view u')) = sent (disp (view u)) @ screen_wire env (disp (view u'))
      ((if themed (display_mode u) u then [] else [Fill (ucast (theme_back (display_mode u)))]) @
       weather_screen (display_mode u) ws (clock_of (ctime_text env)))"
proof -
  define m where "m = display_mode u"
  define bg fg where "bg = (ucast (theme_back m) :: u16)" and "fg = (ucast (theme_fore m) :: u16)"
  obtain u1 where u1: "set_theme env u = Inr u1" "ok m u1"
    "sent (disp (view u1)) = sent (disp (view u)) @
      screen_wire env (disp (view u1)) (if themed m u then [] else [Fill bg])"
    using set_theme_emits[OF assms(1), of env] by (auto simp: m_def ok_def bg_def)
  note fits = assms(2)[unfolded screen_fits_def, folded m_def]
  have ready: "ui_ready env" using fits by simp
  note arr = assms(3)
  have header: "paints env (show_header env (rt ws) u) u (header_screen bg fg (rt ws) (clock_of (ctime_text env)))" if "ok m u" for u
    using header_paints[OF ready, of "rt ws" u] fits that by (simp add: ok_def themed_def bg_def fg_def)
  have now: "paints env (show_now env (rt ws) u) u (now_screen bg fg (rt ws))" if "ok m u" for u
    using now_paints[OF ready, of "rt ws" u] fits that by (simp add: ok_def themed_def bg_def fg_def)
  have icon: "(if display_mode u then D_wtId else N_wtId) w = day_icon m w" if "ok m u" for u w
    using that by (simp add: ok_def day_icon_def)
  have "paints env (show_weather env ws u) u1 (header_screen bg fg (rt ws) (clock_of (ctime_text env)) @
      [Picture 11 24 (icon_path m True (wtId (rt ws)))] @ now_screen bg fg (rt ws) @
      [Picture 20 160 (icon_path m False (day_icon m (wt ws ! 0)))] @
      [Picture 95 160 (icon_path m False (day_icon m (wt ws ! 1)))] @
      [Picture 168 160 (icon_path m False (day_icon m (wt ws ! 2)))] @
      [Small 21 209 (temps_text (wt ws ! 0))] @ [Small 98 209 (temps_text (wt ws ! 1))] @ [Small 170 209 (temps_text (wt ws ! 2))])"
    unfolding show_weather_def u1(1) cbind_Inr Let_def
    by (rule paint_step[OF u1(2) header[OF u1(2)]], rule icon_step[OF ready _ arr _ refl], assumption, simp add: icon_fits_def,
        rule paint_step, assumption, rule now, assumption,
        (rule icon_step[OF ready _ _ _ icon], assumption, assumption, use fits in simp, assumption)+,
        (rule paint_step, assumption, rule temps_paints[OF ready])+, rule temps_paints[OF ready])
  then have "paints env (show_weather env ws u) u1 (weather_screen m ws (clock_of (ctime_text env)))"
    by (simp add: weather_screen_def bg_def fg_def Let_def)
  then obtain u2 where "show_weather env ws u = Inr u2" "draws env u1 (weather_screen m ws (clock_of (ctime_text env))) u2"
    by (auto simp: paints_def)
  moreover from this have "ok m u2" "widget_wire env (disp (view u2)) = widget_wire env (disp (view u1))"
    "sent (disp (view u2)) = sent (disp (view u1)) @ screen_wire env (disp (view u1)) (weather_screen m ws (clock_of (ctime_text env)))"
    using u1(2) draws_ok by (auto simp: draws_def emits_sent dest: widget_wire_cong)
  moreover from this have "ui_inv u2" by (cases m) (auto simp: ok_def ui_inv_def)
  ultimately show ?thesis using u1(3) unfolding m_def[symmetric]
    by (intro exI[of _ u2]) (auto simp: ok_def screen_wire_def bg_def)
qed

section \<open>Faults\<close>

lemma tmp_digits_bound: "unat n < 10 ^ length (tmp_digits large 10 n)"
proof (induction "unat n" arbitrary: n rule: less_induct)
  case less
  show ?case
  proof (cases "n = 0")
    case False
    then have "unat (n div 10) < unat n" using divide_less[OF False, of 10] by (simp add: divide_10)
    from less[OF this] have "unat n div 10 < 10 ^ length (tmp_digits large 10 (n div 10))" by (simp add: unat_div)
    then show ?thesis using False by (simp add: tmp_digits.simps[of large 10 n] divide_10 div_less_iff_less_mult mult.commute)
  qed (simp add: tmp_digits.simps)
qed

lemma dec_text_bound:
  assumes "length (dec_text (-1) n) \<le> Suc k"
  shows "- (10 ^ k) < sint n \<and> sint n < 10 ^ Suc k"
proof -
  define v where "v = (if sint n < 0 then - n else n)"
  define j where "j = (if sint n < 0 then k else Suc k)"
  have v: "int (unat v) = \<bar>sint n\<bar>"
  proof (cases "sint n < 0")
    case True
    then show ?thesis using neg_u32[OF True] by (simp add: v_def)
  next
    case False
    then show ?thesis using uint_lt2p[of n] by (simp add: v_def sint_u32 not_less split: if_splits)
  qed
  have "unat v < 10 ^ j"
  proof (cases "n = 0")
    case False
    then have "length (tmp_digits False 10 v) \<le> j" using assms by (auto simp: dec_text_eq Let_def v_def j_def)
    then have "(10 :: nat) ^ length (tmp_digits False 10 v) \<le> 10 ^ j" by (intro power_increasing) simp_all
    then show ?thesis using tmp_digits_bound[of v False] by linarith
  qed (simp add: v_def)
  then have "int (unat v) < 10 ^ j" by (simp only: of_nat_less_numeral_power_cancel_iff)
  then have "\<bar>sint n\<bar> < 10 ^ j" using v by simp
  then show ?thesis by (auto simp: j_def split: if_splits intro: less_trans)
qed

lemma line_fault:
  assumes "ui_ready env" "format_text fmt args = Inr t" "n \<le> length t" "n \<le> 30"
  shows "show_line env n x y fmt args bg fg u = Inl Out_Of_Bounds"
proof -
  have len: "length (local_array env n) = n" by (simp add: local_array_def)
  show ?thesis using rt_sprintf_eq[OF assms(2), of "ui_stack env" "local_array env n"] assms
    by (simp add: show_line_def len ui_ready_def)
qed

lemma fault_step:
  assumes "ok m u" "paints env a u ws" "\<And>u'. ok m u' \<Longrightarrow> f u' = Inl e"
  shows "cbind a f = Inl e"
  using assms draws_ok unfolding paints_def by fastforce

lemma icon_fault_step:
  assumes "ui_ready env" "ok m u" "path_array path" "j = i"
    and "\<And>path u'. path_array path \<Longrightarrow> ok m u' \<Longrightarrow> icon_fits m big i \<Longrightarrow> f path u' = Inl Out_Of_Bounds"
  shows "cbind (show_icon env x y j big (path, u)) (\<lambda>(path, u'). f path u') = Inl Out_Of_Bounds"
proof (cases "icon_fits m big i")
  case True
  then obtain p u' where "show_icon env x y i big (path, u) = Inr (p, u')" "path_array p"
      "draws env u [Picture x y (icon_path (display_mode u) big i)] u'"
    using show_icon_paints[OF assms(1,3), of u big i x y] assms(2) by (auto simp: ok_def icon_paints_def)
  then show ?thesis using assms(4) assms(5)[OF _ draws_ok[OF _ assms(2)] True] by simp
next
  case False
  define p where "p = icon_path m big i"
  have p: "0 \<notin> set p" "length p = 25" using icon_path_chars icon_path_length[of m big i] False
    by (auto simp: p_def icon_fits_def)
  obtain t k where "path = t @ 0 # replicate k 0" "0 \<notin> set t" "length path = 25" using assms(3) by (auto simp: path_array_def)
  from get_weather_icon_path_eq[OF this] have "get_weather_icon_path env m path i big = Inr p"
    using assms(1) p(2) by (simp add: ui_ready_def p_def)
  then show ?thesis using assms(2,4) p by (simp add: show_icon_def ok_def c_chars_def)
qed

text \<open>What the caller provides in any case: terminated, readable names, a clock, and the files. What does not
  fit then is too long for its local array.\<close>

definition header_input :: "Realtime \<Rightarrow> bool" where
  "header_input r \<longleftrightarrow> name_fits (area_1 r) 10 \<and> name_fits (area_2 r) 10 \<and> 0 \<in> set (wtNm r) \<and> readable (cstr (wtNm r))"

definition screen_input :: "ui_env \<Rightarrow> weather_state \<Rightarrow> bool" where
  "screen_input env ws \<longleftrightarrow>
     ui_ready env \<and> clock_fits (ctime_text env) \<and> header_input (rt ws)"

lemma screen_fits_input:
  "screen_input env ws \<Longrightarrow> screen_fits env mode ws \<longleftrightarrow> length (cstr (wtNm (rt ws))) \<le> 4 \<and> now_fits (rt ws) \<and>
    icon_fits mode False (day_icon mode (wt ws ! 0)) \<and> icon_fits mode False (day_icon mode (wt ws ! 1)) \<and>
    icon_fits mode False (day_icon mode (wt ws ! 2))"
  by (auto simp: screen_input_def screen_fits_def header_input_def header_fits_def name_fits_def less_Suc_eq numeral_3_eq_3 numeral_2_eq_2)

lemma header_fault:
  assumes "ui_ready env" "ok m u" "header_input r" "4 < length (cstr (wtNm r))"
  shows "show_header env r u = Inl Out_Of_Bounds"
proof -
  define a1 a2 nm where "a1 = cstr (area_1 r)" and "a2 = cstr (area_2 r)" and "nm = cstr (wtNm r)"
  have f: "c_chars (area_1 r) = Inr a1" "c_chars (area_2 r) = Inr a2" "c_chars (wtNm r) = Inr nm"
    "readable a1" "readable a2" "length a1 \<le> 10" "length a2 \<le> 10"
    using assms(3) by (simp_all add: header_input_def name_fits_def c_chars_def a1_def a2_def nm_def)
  have nm: "show_line env 10 115 40 (lit ''%s     '') [A_Str (Some nm)] bg fg u = Inl Out_Of_Bounds" for bg fg u
    using line_fault[OF assms(1) name_text, of 10 nm] assms(4) by (simp add: nm_def)
  show ?thesis unfolding show_header_def Let_def f cbind_Inr nm cbind_Inl
    by (rule fault_step[OF assms(2)], rule paints_rule, (rule fault_step, assumption, rule days_paint[OF assms(1)], simp)+,
        rule fault_step, assumption, rule city_paints[OF assms(1) f(4-7)], rule refl)
qed

lemma degrees_fault:
  assumes "ui_ready env" "\<not> (-10 < sint d \<and> sint d < 100)" "name \<in> {[206, 194, 182, 200], [202, 170, 182, 200]}"
  shows "show_line env 10 115 y (name @ lit '':  %d'') [A_Int d] bg fg u = Inl Out_Of_Bounds"
proof (rule line_fault[OF assms(1)])
  have n: "37 \<notin> set name" "length name = 4" using assms(3) by auto
  show "format_text (name @ lit '':  %d'') [A_Int d] = Inr (name @ lit '':  '' @ dec_text (-1) d)"
    using format_text_plain[OF n(1), of "lit '':  %d''"] by (simp add: lit_def c_simps)
  have "\<not> length (dec_text (-1) d) \<le> Suc 1" using dec_text_bound[of d 1] assms(2) by auto
  then show "10 \<le> length (name @ lit '':  '' @ dec_text (-1) d)" using n by simp
qed simp

lemma aqi_fault:
  assumes "ui_ready env" "\<not> (- 1000000 < sint q \<and> sint q < 10000000)" "length name = 4" "37 \<notin> set name"
  shows "show_line env 15 115 60 (lit ''%3d  '' @ name @ [32]) [A_Int q] c d u = Inl Out_Of_Bounds"
proof (rule line_fault[OF assms(1)])
  have "37 \<notin> set (name @ [32])" using assms(4) by simp
  from format_text_plain[OF this, of "[]" "[]"]
  show "format_text (lit ''%3d  '' @ name @ [32]) [A_Int q] = Inr (dec_text 3 q @ lit ''  '' @ name @ lit '' '')"
    by (simp add: lit_def c_simps)
  have "\<not> length (dec_text (-1) q) \<le> Suc 6" using dec_text_bound[of q 6] assms(2) by auto
  then show "15 \<le> length (dec_text 3 q @ lit ''  '' @ name @ lit '' '')" using assms(3) by (simp add: dec_text_width)
qed simp

lemma now_fault:
  assumes "ui_ready env" "ok m u" "\<not> now_fits r"
  shows "show_now env r u = Inl Out_Of_Bounds"
proof (cases "- 1000000 < sint (aqi r) \<and> sint (aqi r) < 10000000")
  case False
  then show ?thesis
    using aqi_fault[OF assms(1) False, of "[211, 197, 208, 227]"] aqi_fault[OF assms(1) False, of "[193, 188, 186, 195]"]
      aqi_fault[OF assms(1) False, of "[206, 219, 200, 190]"]
    by (simp add: show_now_def Let_def)
next
  case aqi: True
  note step = fault_step[OF assms(2) aqi_paints[OF assms(1), of "aqi r"]]
  show ?thesis
  proof (cases "- 10 < sint (temp r) \<and> sint (temp r) < 100")
    case False
    then have cold: "show_line env 10 115 80 ([206, 194, 182, 200] @ lit '':  %d'') [A_Int (temp r)] bg fg u = Inl Out_Of_Bounds" for bg fg u
      by (intro degrees_fault[OF assms(1)]) simp_all
    show ?thesis unfolding show_now_def Let_def cold cbind_Inl using aqi by (intro step) simp_all
  next
    case True
    have "- 10 < uint (humi r)" by (rule less_le_trans[of _ 0]) simp_all
    then have "\<not> (- 10 < sint (ucast (humi r) :: u32) \<and> sint (ucast (humi r) :: u32) < 100)"
      using assms(3) aqi True by (auto simp: now_fits_def sint_byte word_less_def)
    then have damp: "show_line env 10 115 100 ([202, 170, 182, 200] @ lit '':  %d'') [A_Int (ucast (humi r))] bg fg u = Inl Out_Of_Bounds" for bg fg u
      by (intro degrees_fault[OF assms(1)]) simp_all
    show ?thesis unfolding show_now_def Let_def
      by (rule step[OF conjunct1[OF aqi] conjunct2[OF aqi]], rule fault_step, assumption,
          rule degrees_paints[OF assms(1) conjunct1[OF True] conjunct2[OF True]], simp, rule damp)
  qed
qed

lemma show_weather_faults:
  assumes "ui_inv u" "screen_input env ws" "\<not> screen_fits env (display_mode u) ws" "path_array (local_array env 25)"
  shows "show_weather env ws u = Inl Out_Of_Bounds"
proof -
  define m where "m = display_mode u"
  obtain u1 where u1: "set_theme env u = Inr u1" "ok m u1"
    using set_theme_emits[OF assms(1), of env] by (auto simp: m_def ok_def)
  note input = assms(2)[unfolded screen_input_def]
  have ready: "ui_ready env" using input by simp
  have not: "\<not> (length (cstr (wtNm (rt ws))) \<le> 4 \<and> now_fits (rt ws) \<and> icon_fits m False (day_icon m (wt ws ! 0)) \<and>
      icon_fits m False (day_icon m (wt ws ! 1)) \<and> icon_fits m False (day_icon m (wt ws ! 2)))"
    using assms(3) screen_fits_input[OF assms(2)] by (simp add: m_def)
  note arr = assms(4)
  have icon: "(if display_mode u then D_wtId else N_wtId) w = day_icon m w" if "ok m u" for u w
    using that by (simp add: ok_def day_icon_def)
  show ?thesis
  proof (cases "4 < length (cstr (wtNm (rt ws)))")
    case True
    then show ?thesis using header_fault[OF ready u1(2)] input by (simp add: show_weather_def u1(1))
  next
    case False
    then have "header_fits (rt ws)" using input by (simp add: header_input_def header_fits_def name_fits_def)
    note header = header_paints[OF ready this, of u1]
    show ?thesis
    proof (cases "now_fits (rt ws)")
      case nofit: False
      show ?thesis unfolding show_weather_def u1(1) cbind_Inr
        by (rule fault_step[OF u1(2) header], use input in simp, rule icon_fault_step[OF ready _ arr refl], assumption,
            simp add: now_fault[OF ready _ nofit])
    next
      case True
      show ?thesis unfolding show_weather_def u1(1) cbind_Inr Let_def
        by (rule fault_step[OF u1(2) header], use input in simp, rule icon_fault_step[OF ready _ arr refl], assumption,
            rule fault_step, assumption, rule now_paints[OF ready True],
            (rule icon_fault_step[OF ready _ _ icon], assumption, assumption, assumption)+, use not False True in simp)
    qed
  qed
qed

text \<open>A \<open>bmp_path\<close> without a terminator: \<open>rt_strlen\<close> of \<open>get_weather_icon_path\<close> reads past its end.\<close>

lemma icon_unterminated:
  assumes "0 \<notin> set path"
  shows "show_icon env x y i big (path, u) = Inl Out_Of_Bounds"
  using assms by (simp add: show_icon_def get_weather_icon_path_def rt_strlen_eq)

lemma show_weather_unterminated:
  assumes "ui_inv u" "screen_input env ws" "0 \<notin> set (local_array env 25)"
  shows "show_weather env ws u = Inl Out_Of_Bounds"
proof -
  obtain u1 where u1: "set_theme env u = Inr u1" "ok (display_mode u) u1"
    using set_theme_emits[OF assms(1), of env] by (auto simp: ok_def)
  note input = assms(2)[unfolded screen_input_def]
  show ?thesis
  proof (cases "4 < length (cstr (wtNm (rt ws)))")
    case True
    then show ?thesis using header_fault[OF _ u1(2)] input by (simp add: show_weather_def u1(1))
  next
    case False
    then have "header_fits (rt ws)" using input by (simp add: header_input_def header_fits_def name_fits_def)
    then have "\<exists>vs. paints env (show_header env (rt ws) u1) u1 vs" using header_paints[of env "rt ws" u1] input by blast
    then obtain vs where header: "paints env (show_header env (rt ws) u1) u1 vs" by blast
    show ?thesis unfolding show_weather_def u1(1) cbind_Inr
      by (rule fault_step[OF u1(2) header]) (simp add: icon_unterminated[OF assms(3)])
  qed
qed

section \<open>The hour\<close>

definition two_digits :: "nat \<Rightarrow> byte list" where
  "two_digits h = [word_of_nat (48 + h div 10), word_of_nat (48 + h mod 10)]"

text \<open>Day from 6 to 17 hours, night from 18 to 23, and before 6 the theme that was.\<close>

definition theme_at :: "nat \<Rightarrow> bool \<Rightarrow> bool" where
  "theme_at h mode = (if h \<le> 5 then mode else h \<le> 17)"

lemma isdigit_range: "isdigit c \<longleftrightarrow> 48 \<le> c \<and> c \<le> 57"
proof -
  have "uint (c - 48) = (uint c - 48) mod 256" by (simp add: uint_word_ariths)
  then have "c - 48 < 10 \<longleftrightarrow> (uint c - 48) mod 256 < 10" by (simp add: word_less_def)
  moreover have "(uint c - 48) mod 256 = (if uint c < 48 then uint c + 208 else uint c - 48)"
  proof (cases "uint c < 48")
    case True
    have "(uint c - 48) mod 256 = (uint c - 48 + 256) mod 256" by (rule mod_add_self2[symmetric])
    also have "\<dots> = uint c - 48 + 256" using True by (intro mod_pos_pos_trivial) (simp_all add: add_nonneg_nonneg)
    finally show ?thesis using True by simp
  next
    case False
    then show ?thesis using uint_lt2p[of c] by (simp add: mod_pos_pos_trivial)
  qed
  ultimately have "c - 48 < 10 \<longleftrightarrow> 48 \<le> uint c \<and> uint c \<le> 57"
    using uint_ge_0[of c] by (cases "uint c < 48") (simp_all only: if_True if_False, linarith+)
  then show ?thesis by (simp add: isdigit_def word_le_def)
qed

lemma digit_byte: "k < 10 \<Longrightarrow> uint (word_of_nat (48 + k) :: byte) = 48 + int k"
  unfolding unsigned_of_nat by (simp add: take_bit_nat_eq_self)

lemma atoi_mem_two_digits:
  assumes "h < 24" "\<not> isdigit c"
  shows "atoi_mem (two_digits h @ c # cs) = Inr (int h)"
proof -
  define a b :: byte where "a = word_of_nat (48 + h div 10)" and "b = word_of_nat (48 + h mod 10)"
  have u: "uint a = 48 + int (h div 10)" "uint b = 48 + int (h mod 10)" using assms(1) by (simp_all only: a_def b_def digit_byte)
  then have d: "isdigit a" "isdigit b" using assms(1) by (simp_all add: isdigit_range word_le_def)
  have ne: "\<not> is_space a" "a \<noteq> 45" "a \<noteq> 43" using d(1) by (auto simp: isdigit_range is_space_def word_le_def)
  have "atoi_digits (c # cs) acc = acc" for acc using assms(2) isdigit_range[of c] by auto
  then have "atoi (a # b # c # cs) = int (h div 10) * 10 + int (h mod 10)"
    using d u ne by (simp add: atoi_def isdigit_range del: atoi_digits.simps(2)) (simp add: atoi_digits.simps(2)[of a] atoi_digits.simps(2)[of b])
  also have "\<dots> = int h" by (metis mod_div_mult_eq add.commute of_nat_add of_nat_mult of_nat_numeral)
  finally have "atoi (a # b # c # cs) = int h" .
  moreover have "two_digits h = [a, b]" by (simp only: two_digits_def a_def b_def)
  ultimately show ?thesis using d ne assms(2) by (auto simp: atoi_mem_def)
qed

lemma time_tick_eq:
  assumes "h < 24" "drop 11 (ctime_text env) = two_digits h @ rest" "length buf = 5" "\<not> isdigit (buf ! 2)"
  shows "time_tick env (buf, u) = Inr (two_digits h @ drop 2 buf, u\<lparr>display_mode := theme_at h (display_mode u)\<rparr>)"
proof -
  obtain x y c cs where buf: "buf = x # y # c # cs" using assms(3) by (auto simp: length_Suc_conv numeral_eq_Suc)
  have len: "length (two_digits h) = 2" by (simp add: two_digits_def)
  have cp: "rt_strncpy buf (drop 11 (ctime_text env)) 2 = Inr (two_digits h @ c # cs)"
    using assms(3) len by (simp add: rt_strncpy_eq assms(2) overlay_def buf)
  have "unat (word_of_nat h :: byte) = h" using assms(1) unfolding unsigned_of_nat by (simp add: take_bit_nat_eq_self)
  then have "5 < (word_of_int (int h) :: byte) \<longleftrightarrow> 5 < h" "17 < (word_of_int (int h) :: byte) \<longleftrightarrow> 17 < h"
    by (simp_all add: word_less_nat_alt)
  moreover have "u = u\<lparr>display_mode := display_mode u\<rparr>" by simp
  ultimately show ?thesis
    using atoi_mem_two_digits[OF assms(1), of c cs] assms(4) cp
    by (auto simp: time_tick_def buf theme_at_def Let_def)
qed

section \<open>Properties\<close>

text \<open>C8. A report whose texts fit their local arrays is shown, when the uninitialised array \<open>bmp_path\<close> of
  \<open>show_weather\<close> happens to hold a text followed by zeros (an explicit hypothesis):
  the screen is cleared when the theme has changed, and then exactly the widgets of the report are drawn, in order, in
  the colours of the theme; the theme and the invariant of the interface are kept.\<close>

theorem show_weather_draws:
  assumes "ui_inv u" "screen_fits env (display_mode u) ws" "path_array (local_array env 25)"
  shows "\<exists>u'. show_weather env ws u = Inr u' \<and> themed (display_mode u) u' \<and> display_mode u' = display_mode u \<and> ui_inv u' \<and>
    sent (disp (view u')) = sent (disp (view u)) @ screen_wire env (disp (view u'))
      ((if themed (display_mode u) u then [] else [Fill (ucast (theme_back (display_mode u)))]) @
       weather_screen (display_mode u) ws (clock_of (ctime_text env)))"
  using assms by (rule show_weather_eq)

definition sample_file :: "byte list" where
  "sample_file = 66 # 77 # replicate 8 0 @ [54, 0] @ replicate 6 0 @ [2, 0, 0, 0, 1, 0] @ replicate FONT_BYTES 9"

definition sample_ui :: ui_env where
  "sample_ui = \<lparr>ui_ch = \<lparr>panel = plain_env, files = (\<lambda>p. Some sample_file), junk = (\<lambda>b i. 0)\<rparr>,
     ctime_text = lit ''Thu Jan  1 08:30:00 1970'', ui_stack = 4096, ui_local = (\<lambda>k. 0)\<rparr>"

lemma sample_ui_ready: "ui_ready sample_ui" "clock_fits (ctime_text sample_ui)" "path_array (local_array sample_ui 25)"
proof -
  have len: "length sample_file = FONT_BYTES + 24" by (simp add: sample_file_def)
  have "picture sample_file 54 2 1"
    by (simp add: picture_def len FONT_BYTES_def) (simp add: sample_file_def pic_data_address_l_def pic_data_address_h_def
        pic_w_l_def pic_h_l_def half_at_def nth_append)
  then show "ui_ready sample_ui" using len
    by (auto simp: ui_ready_def sample_ui_def pnl_def plain_env_def)
  show "clock_fits (ctime_text sample_ui)" by (simp add: sample_ui_def clock_fits_def clock_of_def lit_def)
  show "path_array (local_array sample_ui 25)" by (rule path_array_zero) (simp add: sample_ui_def)
qed

lemma show_weather_draws_witness:
  "\<exists>u'. show_weather sample_ui weather_boot (ui_boot (viewer_boot lcd_boot)) = Inr u' \<and> themed True u'"
proof -
  have "ui_inv (ui_boot (viewer_boot lcd_boot))" by (simp add: ui_inv_def ui_boot_def viewer_boot_def)
  moreover have "screen_fits sample_ui (display_mode (ui_boot (viewer_boot lcd_boot))) weather_boot"
    by (auto simp: screen_fits_def sample_ui_ready weather_boot_def ui_boot_def header_fits_def name_fits_def cstr_def now_fits_def icon_fits_def)
  ultimately show ?thesis using show_weather_draws[of "ui_boot (viewer_boot lcd_boot)" sample_ui weather_boot] sample_ui_ready(3)
    by (auto simp: ui_boot_def)
qed

text \<open>C9. With terminated, readable names, a clock and the files: when the uninitialised array \<open>bmp_path\<close> holds a text
  followed by zeros, \<open>show_weather\<close> stays inside its local arrays exactly when the name of the weather has at most four
  bytes, the temperature is between -9 and 99, the humidity below 100, the air index has at most seven characters, and
  no night icon is the one of an overcast sky; otherwise it runs off an array, as it does at a humidity of 100 percent
  and for a weather of three characters. When \<open>bmp_path\<close> starts without any zero byte, \<open>show_weather\<close> runs off it
  whatever the report. Nothing is said of an array that holds a text followed by a zero and then other bytes.\<close>

theorem show_weather_bounds:
  assumes "ui_inv u" "screen_input env ws"
  shows "(path_array (local_array env 25) \<longrightarrow>
     (if length (cstr (wtNm (rt ws))) \<le> 4 \<and>
         - 10 < sint (temp (rt ws)) \<and> sint (temp (rt ws)) < 100 \<and> humi (rt ws) < 100 \<and>
         - 1000000 < sint (aqi (rt ws)) \<and> sint (aqi (rt ws)) < 10000000 \<and>
         (display_mode u \<or> N_wtId (wt ws ! 0) \<noteq> 3 \<and> N_wtId (wt ws ! 1) \<noteq> 3 \<and> N_wtId (wt ws ! 2) \<noteq> 3)
       then \<exists>u'. show_weather env ws u = Inr u'
       else show_weather env ws u = Inl Out_Of_Bounds)) \<and>
    (0 \<notin> set (local_array env 25) \<longrightarrow> show_weather env ws u = Inl Out_Of_Bounds)"
proof (intro conjI impI)
  assume arr: "path_array (local_array env 25)"
  show "if length (cstr (wtNm (rt ws))) \<le> 4 \<and>
      - 10 < sint (temp (rt ws)) \<and> sint (temp (rt ws)) < 100 \<and> humi (rt ws) < 100 \<and>
      - 1000000 < sint (aqi (rt ws)) \<and> sint (aqi (rt ws)) < 10000000 \<and>
      (display_mode u \<or> N_wtId (wt ws ! 0) \<noteq> 3 \<and> N_wtId (wt ws ! 1) \<noteq> 3 \<and> N_wtId (wt ws ! 2) \<noteq> 3)
    then \<exists>u'. show_weather env ws u = Inr u'
    else show_weather env ws u = Inl Out_Of_Bounds"
  proof (cases "screen_fits env (display_mode u) ws")
    case True
    then show ?thesis using show_weather_eq[OF assms(1) True arr] screen_fits_input[OF assms(2), of "display_mode u"]
      by (auto simp: now_fits_def icon_fits_def day_icon_def split: if_splits)
  next
    case False
    then show ?thesis using show_weather_faults[OF assms False arr] screen_fits_input[OF assms(2), of "display_mode u"]
      by (auto simp: now_fits_def icon_fits_def day_icon_def split: if_splits)
  qed
qed (rule show_weather_unterminated[OF assms])

lemma show_weather_bounds_witness:
  "show_weather sample_ui (weather_boot\<lparr>rt := rt weather_boot\<lparr>humi := 100\<rparr>\<rparr>) (ui_boot (viewer_boot lcd_boot)) = Inl Out_Of_Bounds \<and>
   show_weather (sample_ui\<lparr>ui_local := (\<lambda>k. 65)\<rparr>) weather_boot (ui_boot (viewer_boot lcd_boot)) = Inl Out_Of_Bounds"
proof -
  have "ui_inv (ui_boot (viewer_boot lcd_boot))" by (simp add: ui_inv_def ui_boot_def viewer_boot_def)
  moreover have "screen_input sample_ui (weather_boot\<lparr>rt := rt weather_boot\<lparr>humi := 100\<rparr>\<rparr>)"
    by (simp add: screen_input_def sample_ui_ready weather_boot_def header_input_def name_fits_def cstr_def)
  moreover have "ui_ready (sample_ui\<lparr>ui_local := (\<lambda>k. 65)\<rparr>)" using sample_ui_ready(1) by (simp add: ui_ready_def pnl_def)
  then have "screen_input (sample_ui\<lparr>ui_local := (\<lambda>k. 65)\<rparr>) weather_boot"
    by (simp add: screen_input_def sample_ui_ready(2) weather_boot_def header_input_def name_fits_def cstr_def)
  moreover have "0 \<notin> set (local_array (sample_ui\<lparr>ui_local := (\<lambda>k. 65)\<rparr>) 25)" by (auto simp: local_array_def)
  ultimately show ?thesis
    using show_weather_bounds[of "ui_boot (viewer_boot lcd_boot)" sample_ui "weather_boot\<lparr>rt := rt weather_boot\<lparr>humi := 100\<rparr>\<rparr>"]
      show_weather_bounds[of "ui_boot (viewer_boot lcd_boot)" "sample_ui\<lparr>ui_local := (\<lambda>k. 65)\<rparr>" weather_boot] sample_ui_ready(3)
    by simp
qed

text \<open>A round of the minute loop at hour \<open>h\<close>: the light theme from 6 to 17, the dark theme from 18 to 23, and before
  6 the theme stays, so that after a start in the night it is the light one until the evening.\<close>

theorem time_tick_theme:
  assumes "h < 24" "drop 11 (ctime_text env) = two_digits h @ rest" "length buf = 5" "\<not> isdigit (buf ! 2)"
  shows "time_tick env (buf, u) = Inr (two_digits h @ drop 2 buf,
    u\<lparr>display_mode := (if h \<le> 5 then display_mode u else h \<le> 17)\<rparr>)"
  using time_tick_eq[OF assms] by (simp add: theme_at_def)

lemma time_tick_theme_witness:
  "time_tick (sample_ui\<lparr>ctime_text := lit ''Thu Jan  1 18:30:00 1970''\<rparr>) ([0, 0, 0, 0, 0], ui_boot (viewer_boot lcd_boot)) =
   Inr ([49, 56, 0, 0, 0], (ui_boot (viewer_boot lcd_boot))\<lparr>display_mode := False\<rparr>)"
  using time_tick_theme[of 18 "sample_ui\<lparr>ctime_text := lit ''Thu Jan  1 18:30:00 1970''\<rparr>" "lit '':30:00 1970''" "[0, 0, 0, 0, 0]"
      "ui_boot (viewer_boot lcd_boot)"]
  by (simp add: two_digits_def lit_def isdigit_def)

end
