(* ===== verification/Wifi.thy ===== *)
theory Wifi
  imports Lcd_Text
begin

text \<open>
  Going online, \<open>applications/wifi.c\<close>: the attempts to join the access point, the semaphore they wait on, and the
  flag \<open>net_state\<close> the other threads wait for.
\<close>

section \<open>State\<close>

text \<open>\<open>semaphores\<close> counts the semaphores that have been created and not deleted; \<open>net_ready\<close> says whether the
  variable is a semaphore; \<open>ready_handler\<close> is the handler of \<open>RT_WLAN_EVT_READY\<close>.\<close>

record wifi =
  net_state :: bool
  net_ready :: bool
  semaphores :: nat
  ready_handler :: bool
  synced :: nat

definition wifi_boot :: wifi where
  "wifi_boot = \<lparr>net_state = False, net_ready = False, semaphores = 0, ready_handler = False, synced = 0\<rparr>"

text \<open>What the rest of the system does in one round: whether the device is there, whether there is memory for a
  semaphore, the results of \<open>rt_wlan_connect\<close> and of \<open>rt_sem_take\<close> with its timeout.\<close>

record attempt =
  wlan0 :: bool
  sem_memory :: bool
  connect_result :: int
  take_result :: int

section \<open>Connecting\<close>

definition wifi_connect :: "attempt \<Rightarrow> wifi \<Rightarrow> (int \<times> wifi) cres" where
  "wifi_connect a w =
     (let w = w\<lparr>net_ready := sem_memory a, semaphores := semaphores w + (if sem_memory a then 1 else 0)\<rparr>;
          w = w\<lparr>ready_handler := True\<rparr>;
          result = connect_result a
      in if result = 0 then
           (if \<not> net_ready w then Inl Assert_Failed
            else let result = take_result a;
                     w = w\<lparr>ready_handler := False\<rparr>;
                     w = w\<lparr>semaphores := semaphores w - 1\<rparr>;
                     w = w\<lparr>synced := synced w + 1\<rparr>;
                     w = w\<lparr>net_state := True\<rparr>
                 in Inr (result, w))
         else Inr (result, w))"

text \<open>One round of the thread: whether it is over, and the new state.\<close>

definition wifi_round :: "lcd_env \<Rightarrow> attempt \<Rightarrow> wifi \<times> lcd \<Rightarrow> (bool \<times> wifi \<times> lcd) cres" where
  "wifi_round env a = (\<lambda>(w, s).
     if wlan0 a then
       cbind (lcd_show_string env 50 110 16 (lit ''connecting wifi...'') [] s) (\<lambda>(_, s).
       cbind (wifi_connect a w) (\<lambda>(ret, w).
       Inr (ret = 0, w, s)))
     else Inr (False, w, s))"

primrec wifi_thread :: "lcd_env \<Rightarrow> attempt list \<Rightarrow> wifi \<times> lcd \<Rightarrow> (bool \<times> wifi \<times> lcd) cres" where
  "wifi_thread env [] st = Inr (False, st)"
| "wifi_thread env (a # as) st =
     cbind (wifi_round env a st) (\<lambda>(over, st). if over then Inr (True, st) else wifi_thread env as st)"

section \<open>What the attempts come to\<close>

text \<open>The rounds that are run: those up to the first one that gets an address in time.\<close>

definition joined :: "attempt \<Rightarrow> bool" where "joined a \<longleftrightarrow> wlan0 a \<and> connect_result a = 0"
definition online :: "attempt \<Rightarrow> bool" where "online a \<longleftrightarrow> joined a \<and> take_result a = 0"
definition refused :: "attempt \<Rightarrow> bool" where "refused a \<longleftrightarrow> wlan0 a \<and> connect_result a \<noteq> 0"

primrec rounds :: "attempt list \<Rightarrow> attempt list" where
  "rounds [] = []"
| "rounds (a # as) = a # (if online a then [] else rounds as)"

lemma wifi_round_result:
  assumes "stack env + 100 < 2 ^ 32" "wlan0 a \<Longrightarrow> sem_memory a"
  shows "\<exists>w' s'. wifi_round env a (w, s) = Inr (online a, w', s') \<and>
    net_state w' = (net_state w \<or> joined a) \<and> semaphores w' = semaphores w + (if refused a then 1 else 0) \<and>
    ready_handler w' = (if wlan0 a then refused a else ready_handler w) \<and>
    synced w' = synced w + (if joined a then 1 else 0) \<and> (\<exists>bs. emits s bs s')"
proof (cases "wlan0 a")
  case True
  have "37 \<notin> set (lit ''connecting wifi...'')" "list_all printable (lit ''connecting wifi...'')"
    by (simp_all add: lit_def printable_def)
  moreover from this(1) have "format_text (lit ''connecting wifi...'') [] = Inr (lit ''connecting wifi...'')"
    by (simp add: lit_def)
  ultimately obtain s' bs where "lcd_show_string env 50 110 16 (lit ''connecting wifi...'') [] s = Inr (0, s')" "emits s bs s'"
    using lcd_show_string_emits[of 16 "lit ''connecting wifi...''" "[]" "lit ''connecting wifi...''" env 50 110 s] assms(1)
    by (auto simp: font_size_def)
  then show ?thesis using assms(2) True
    by (auto simp: wifi_round_def wifi_connect_def online_def joined_def refused_def Let_def)
qed (auto simp: wifi_round_def online_def joined_def refused_def)

lemma wifi_thread_result:
  assumes "stack env + 100 < 2 ^ 32" "\<forall>a\<in>set as. wlan0 a \<longrightarrow> sem_memory a"
  shows "\<exists>w' s'. wifi_thread env as (w, s) = Inr (list_ex online as, w', s') \<and>
    net_state w' = (net_state w \<or> list_ex joined (rounds as)) \<and>
    semaphores w' = semaphores w + length (filter refused (rounds as)) \<and>
    synced w' = synced w + length (filter joined (rounds as))"
  using assms(2)
proof (induction as arbitrary: w s)
  case (Cons a as)
  obtain w1 s1 where r: "wifi_round env a (w, s) = Inr (online a, w1, s1)"
    "net_state w1 = (net_state w \<or> joined a)" "semaphores w1 = semaphores w + (if refused a then 1 else 0)"
    "synced w1 = synced w + (if joined a then 1 else 0)"
    using wifi_round_result[OF assms(1), of a w s] Cons.prems by auto
  obtain w' s' where "wifi_thread env as (w1, s1) = Inr (list_ex online as, w', s')"
    "net_state w' = (net_state w1 \<or> list_ex joined (rounds as))"
    "semaphores w' = semaphores w1 + length (filter refused (rounds as))"
    "synced w' = synced w1 + length (filter joined (rounds as))"
    using Cons by fastforce
  then show ?case using r by (cases "online a") auto
qed simp

section \<open>Properties\<close>

text \<open>C26. The thread ends with the first round that gets an address in time. The flag the other threads wait for is
  set by any round that joins the access point, also when no address comes; every refused round leaves one
  semaphore behind.\<close>

theorem wifi_thread_outcome:
  assumes "stack env + 100 < 2 ^ 32" "\<forall>a\<in>set as. wlan0 a \<longrightarrow> sem_memory a"
  shows "\<exists>w s'. wifi_thread env as (wifi_boot, s) = Inr (list_ex online as, w, s') \<and>
    net_state w = list_ex joined (rounds as) \<and> semaphores w = length (filter refused (rounds as))"
  using wifi_thread_result[OF assms, of wifi_boot s] by (fastforce simp: wifi_boot_def)

theorem wifi_thread_outcome_witness:
  "\<exists>w s'. wifi_thread plain_env
      [\<lparr>wlan0 = True, sem_memory = True, connect_result = -1, take_result = 0\<rparr>,
       \<lparr>wlan0 = True, sem_memory = True, connect_result = 0, take_result = -2\<rparr>] (wifi_boot, lcd_boot) = Inr (False, w, s') \<and>
     net_state w \<and> semaphores w = 1"
  using wifi_thread_outcome[of plain_env "[\<lparr>wlan0 = True, sem_memory = True, connect_result = -1, take_result = 0\<rparr>,
       \<lparr>wlan0 = True, sem_memory = True, connect_result = 0, take_result = -2\<rparr>]" lcd_boot]
  by (simp add: plain_env_def online_def joined_def refused_def)

end
