(* ===== verification/Asr.thy ===== *)
theory Asr
  imports CJson_Print
begin

text \<open>
  The speech recognition module, \<open>applications/asr.c\<close>: the register protocol over I2C, the initialisation, and the
  commands the two input threads give, by voice and by key.
\<close>

section \<open>The bus\<close>

text \<open>What happens on the bus and the pins, in order; \<open>HAL_I2C_Master_Transmit\<close> and \<open>HAL_I2C_Master_Receive\<close> are
  observed by their arguments.\<close>

datatype asr_ev =
    I2C_Init
  | Transmit byte "byte list"
  | Receive byte nat
  | Wait nat
  | Key2_Irq

text \<open>What the module answers after some traffic, which is what the variable held when the transfer fails, and
  what local arrays hold before they are written.\<close>

record asr_env =
  answer :: "asr_ev list \<Rightarrow> byte"
  local_bytes :: "nat \<Rightarrow> byte"

definition ASR_ADDR :: byte where "ASR_ADDR = 0x1E"
definition ASR_ADD_WORD_ADDR :: byte where "ASR_ADD_WORD_ADDR = 0x01"
definition ASR_RGB_ADDR :: byte where "ASR_RGB_ADDR = 0x03"
definition ASR_REC_GAIN :: byte where "ASR_REC_GAIN = 0x04"
definition ASR_KEY_FLAG :: byte where "ASR_KEY_FLAG = 0x06"
definition ASR_VOICE_FLAG :: byte where "ASR_VOICE_FLAG = 0x07"
definition ASR_RESULT :: byte where "ASR_RESULT = 0x08"
definition ASR_NUM_CLECK :: byte where "ASR_NUM_CLECK = 0x0a"

definition asr_array :: "asr_env \<Rightarrow> nat \<Rightarrow> byte list" where
  "asr_array env n = map (local_bytes env) [0..<n]"

text \<open>\<open>memcpy(dst + off, src, n)\<close>\<close>

definition memcpy_at :: "nat \<Rightarrow> byte list \<Rightarrow> byte list \<Rightarrow> nat \<Rightarrow> byte list cres" where
  "memcpy_at off dst src n =
     (if n \<le> length src \<and> off + n \<le> length dst then Inr (overlay off (take n src) dst) else Inl Out_Of_Bounds)"

section \<open>Registers\<close>

definition I2C_Write :: "asr_env \<Rightarrow> byte list \<Rightarrow> byte \<Rightarrow> byte \<Rightarrow> u16 \<Rightarrow> asr_ev list \<Rightarrow> asr_ev list cres" where
  "I2C_Write env pBuffer DeviceAddr RegisterAddr NumByteToWrite tr =
     cbind (buf_put 0 RegisterAddr (asr_array env 100)) (\<lambda>buff.
     cbind (memcpy_at 1 buff pBuffer (unat NumByteToWrite)) (\<lambda>buff.
     Inr (tr @ [Transmit DeviceAddr (take (unat (NumByteToWrite + 1)) buff)])))"

text \<open>A read of one byte, into a variable.\<close>

definition I2C_Read :: "asr_env \<Rightarrow> byte \<Rightarrow> byte \<Rightarrow> asr_ev list \<Rightarrow> byte \<times> asr_ev list" where
  "I2C_Read env DeviceAddr RegisterAddr tr =
     (let tr = tr @ [Transmit DeviceAddr [RegisterAddr], Receive DeviceAddr 1] in (answer env tr, tr))"

definition rgb_set :: "asr_env \<Rightarrow> byte \<Rightarrow> byte \<Rightarrow> byte \<Rightarrow> asr_ev list \<Rightarrow> asr_ev list cres" where
  "rgb_set env r g b = I2C_Write env [r, g, b] ASR_ADDR ASR_RGB_ADDR 3"

text \<open>\<open>buf\<close> is printed with \<open>%s\<close>, so it is read up to a NUL.\<close>

definition asr_add_words :: "asr_env \<Rightarrow> byte \<Rightarrow> byte list \<Rightarrow> asr_ev list \<Rightarrow> asr_ev list cres" where
  "asr_add_words env i words tr =
     cbind (buf_put 0 i (asr_array env 80)) (\<lambda>buf.
     cbind (c_chars words) (\<lambda>s.
     cbind (memcpy_at 1 buf s (length s)) (\<lambda>buf.
     cbind (c_chars buf) (\<lambda>_.
     I2C_Write env buf ASR_ADDR ASR_ADD_WORD_ADDR (word_of_nat (length s + 1)) tr))))"

definition asr_get_result :: "asr_env \<Rightarrow> asr_ev list \<Rightarrow> byte \<times> asr_ev list" where
  "asr_get_result env = I2C_Read env ASR_ADDR ASR_RESULT"

definition asr_get_words_num :: "asr_env \<Rightarrow> asr_ev list \<Rightarrow> byte \<times> asr_ev list" where
  "asr_get_words_num env = I2C_Read env ASR_ADDR ASR_NUM_CLECK"

definition key_irq_entry :: "asr_env \<Rightarrow> asr_ev list \<Rightarrow> asr_ev list cres" where
  "key_irq_entry env = I2C_Write env [0x01] ASR_ADDR ASR_KEY_FLAG 1"

definition asr_init :: "asr_env \<Rightarrow> asr_ev list \<Rightarrow> asr_ev list cres" where
  "asr_init env tr =
     cbind (I2C_Write env [0x40] ASR_ADDR ASR_REC_GAIN 1 (tr @ [I2C_Init, Wait 100])) (\<lambda>tr.
     cbind (I2C_Write env [0x01] ASR_ADDR ASR_VOICE_FLAG 1 (tr @ [Wait 100])) (\<lambda>tr.
     cbind (rgb_set env 255 255 255 (tr @ [Wait 100])) (\<lambda>tr.
     cbind (rgb_set env 0 0 0 (tr @ [Wait 1000])) (\<lambda>tr.
     Inr (tr @ [Key2_Irq])))))"

section \<open>Commands\<close>

text \<open>The condition of the voice thread, and the counter of the key thread.\<close>

definition voice_city :: "byte \<Rightarrow> nat option" where
  "voice_city res = (if res \<noteq> 255 \<and> 10 \<le> res \<and> res \<le> 49 then Some (unat res) else None)"

definition next_key :: "u32 \<Rightarrow> u32" where
  "next_key i = (let i = i + 1 in if sint i > 49 then 10 else i)"

section \<open>Lemmas\<close>

lemma I2C_Write_eq:
  "I2C_Write env bs dev reg n tr =
     (if unat n \<le> length bs \<and> unat n < 100 then Inr (tr @ [Transmit dev (reg # take (unat n) bs)]) else Inl Out_Of_Bounds)"
proof (cases "unat n \<le> length bs \<and> unat n < 100")
  case True
  have len: "length (asr_array env 100) = 100" by (simp add: asr_array_def)
  then obtain x rest where arr: "asr_array env 100 = x # rest" "length rest = 99" by (cases "asr_array env 100") auto
  have "unat (n + 1) = unat n + 1" using True by (simp add: unat_word_ariths)
  then have "take (unat (n + 1)) (overlay 1 (take (unat n) bs) (reg # rest)) = reg # take (unat n) bs"
    using True arr(2) by (simp add: overlay_def)
  then show ?thesis using True arr by (simp add: I2C_Write_def memcpy_at_def)
next
  case False
  then show ?thesis by (auto simp: I2C_Write_def memcpy_at_def asr_array_def)
qed

lemma asr_add_words_eq:
  assumes "0 \<notin> set s"
  shows "asr_add_words env i (s @ 0 # rest) tr =
    (if length s \<le> 79 \<and> 0 \<in> set (i # s @ drop (length s + 1) (asr_array env 80))
     then Inr (tr @ [Transmit ASR_ADDR (ASR_ADD_WORD_ADDR # i # s)]) else Inl Out_Of_Bounds)"
proof -
  have "length (asr_array env 80) = 80" by (simp add: asr_array_def)
  then obtain x arr where arr: "asr_array env 80 = x # arr" "length arr = 79" by (cases "asr_array env 80") auto
  have ov: "overlay 1 s (i # arr) = i # s @ drop (length s) arr" if "length s \<le> 79"
    using that arr(2) by (simp add: overlay_def)
  define m :: u16 where "m = word_of_nat (length s + 1)"
  have cs: "c_chars (s @ 0 # rest) = Inr s" by (rule c_chars_text[OF assms])
  show ?thesis
  proof (cases "length s \<le> 79")
    case True
    then have m: "unat m = length s + 1" unfolding m_def unsigned_of_nat by (simp add: take_bit_nat_eq_self)
    have "asr_add_words env i (s @ 0 # rest) tr =
        cbind (c_chars (i # s @ drop (length s) arr)) (\<lambda>_. I2C_Write env (i # s @ drop (length s) arr) ASR_ADDR ASR_ADD_WORD_ADDR m tr)"
      using True arr ov[OF True] by (simp add: asr_add_words_def memcpy_at_def cs flip: m_def[simplified])
    then show ?thesis using True arr m by (simp add: c_chars_def I2C_Write_eq)
  next
    case False
    then show ?thesis using arr by (simp add: asr_add_words_def memcpy_at_def cs)
  qed
qed

lemma next_key_range: "10 \<le> sint i \<Longrightarrow> sint i \<le> 49 \<Longrightarrow> sint (next_key i) = (if sint i = 49 then 10 else sint i + 1)"
proof -
  assume r: "10 \<le> sint i" "sint i \<le> 49"
  then have "uint i = sint i" using uint_lt2p[of i] by (simp add: sint_u32 split: if_splits)
  then have "uint (i + 1) = sint i + 1" using r by (simp add: uint_word_ariths)
  then have "sint (i + 1) = sint i + 1" using r by (simp add: sint_u32)
  then show ?thesis using r by (auto simp: next_key_def Let_def)
qed

text \<open>The key after \<open>n\<close> presses.\<close>

lemma next_key_pow: "sint ((next_key ^^ n) 10) = 10 + int n mod 40"
proof (induction n)
  case (Suc n)
  define k where "k = int n mod 40"
  have k: "0 \<le> k" "k < 40" by (simp_all add: k_def)
  have "int (Suc n) mod 40 = (k + 1) mod 40" unfolding k_def by (simp add: mod_simps add.commute)
  also have "\<dots> = (if k = 39 then 0 else k + 1)" using k by (auto simp: mod_pos_pos_trivial)
  finally show ?case using Suc next_key_range[of "(next_key ^^ n) 10"] k by (simp flip: k_def)
qed simp

end
