(* ===== verification/System.thy ===== *)
theory System
  imports Main
begin

text \<open>
  Systems of steps: what holds in every state that steps lead to from a start. The threads of the application
  and the connection to the access point are such systems.
\<close>

text \<open>A start condition and an invariant that every step keeps.\<close>

locale step_system =
  fixes start :: "'s \<Rightarrow> bool" and step :: "'s \<Rightarrow> 's \<Rightarrow> bool" and inv :: "'s \<Rightarrow> bool"
  assumes start_inv: "start s \<Longrightarrow> inv s"
    and step_inv: "inv s \<Longrightarrow> step s s' \<Longrightarrow> inv s'"
begin

lemma steps_inv: "step\<^sup>*\<^sup>* s s' \<Longrightarrow> inv s \<Longrightarrow> inv s'"
  by (induction rule: rtranclp_induct) (auto intro: step_inv)

lemma reachable_inv: "start s \<Longrightarrow> step\<^sup>*\<^sup>* s s' \<Longrightarrow> inv s'"
  using steps_inv start_inv by blast

end

text \<open>A system in which, in addition, something grows or stays with every step.\<close>

locale monotone_system = step_system start step inv
  for start :: "'s \<Rightarrow> bool" and step :: "'s \<Rightarrow> 's \<Rightarrow> bool" and inv :: "'s \<Rightarrow> bool" +
  fixes level :: "'s \<Rightarrow> nat"
  assumes step_level: "inv s \<Longrightarrow> step s s' \<Longrightarrow> level s \<le> level s'"
begin

lemma steps_level: "step\<^sup>*\<^sup>* s s' \<Longrightarrow> inv s \<Longrightarrow> level s \<le> level s'"
proof (induction rule: rtranclp_induct)
  case (step t u)
  then have "inv t" using steps_inv by blast
  then show ?case using step step_level[of t u] by simp
qed simp

end

end
