(* ===== verification/App.thy ===== *)
theory App
  imports Ui Wifi Asr System
begin

text \<open>
  The application as a whole: its threads as a system of steps over the shared state (\<open>net_state\<close>, the reports
  and \<open>area_id\<close>, the screen and the theme). The model lets a thread give way at two kinds of
  points, while it waits for a reply of the server and between its rounds; so a round of a thread that fetches is three
  steps: it asks for a city, it stores the reply, it shows the reports. Each step is atomic: that a thread of a higher
  priority, or one that waits for a bus or a file, cuts into the middle of a step is not modelled.
\<close>

section \<open>What fetching keeps\<close>
lemma item_name_length: "item_name env addr field object key = Inr field' \<Longrightarrow> length field' = length field"
  by (auto simp: item_name_def cbind_eq_Inr rt_memset_eq rt_memcpy_eq split: if_splits)

lemma parse_realtime_names:
  "parse_realtime env item r = Inr r' \<Longrightarrow>
   length (area_1 r') = length (area_1 r) \<and> length (area_2 r') = length (area_2 r) \<and> length (wtNm r') = length (wtNm r)"
  by (auto simp: parse_realtime_def cbind_eq_Inr Let_def item_name_length)

lemma parse_future_length: "parse_future item i days = Inr days' \<Longrightarrow> length days' = length days"
  by (auto simp: parse_future_def cbind_eq_Inr)

lemma parse_result_fields:
  "parse_result env object r days = Inr (r', days') \<Longrightarrow>
   length (area_1 r') = length (area_1 r) \<and> length (area_2 r') = length (area_2 r) \<and> length (wtNm r') = length (wtNm r) \<and>
   length days' = length days"
  by (auto simp: parse_result_def cbind_eq_Inr Let_def dest!: item_name_length parse_realtime_names parse_future_length)

lemma weather_data_parse_fields:
  "weather_data_parse env data s = Inr s' \<Longrightarrow> report_fields s \<Longrightarrow> report_fields s' \<and> area_id s' = area_id s"
  by (auto simp: weather_data_parse_def cbind_eq_Inr Let_def report_fields_def split: option.splits if_splits dest!: parse_result_fields)

lemma fetch_weather_fields:
  "fetch_weather fuel sv s = Inr s' \<Longrightarrow> report_fields s \<Longrightarrow> report_fields s' \<and> area_id s' = area_id s"
  by (auto simp: fetch_weather_def cbind_eq_Inr Let_def case_prod_beta split: option.splits if_splits dest: weather_data_parse_fields)

section \<open>Changing the city\<close>

definition change_city ::
  "nat \<Rightarrow> ('d, 'c) service \<Rightarrow> ui_env \<Rightarrow> u32 \<Rightarrow> weather_state \<times> ui_state \<Rightarrow> (weather_state \<times> ui_state) cres" where
  "change_city fuel sv env i = (\<lambda>(w, u).
     let w = w\<lparr>area_id := i\<rparr> in
     cbind (fetch_weather fuel sv w) (\<lambda>w.
     cbind (show_weather env w u) (\<lambda>u. Inr (w, u))))"

section \<open>The state of the application\<close>

datatype thread = Wifi_T | Ui_T | Time_T | Weather_T | Asr_T | Key_T

text \<open>Where a thread is: before its first output, in the loop that waits for the net, between two rounds, waiting for a
  reply about a city, about to show the reports, or at its end.\<close>

datatype at = Starting | Waiting | Ready | Asking u32 | Showing | Over

record app =
  net :: wifi
  weather :: weather_state
  screen :: ui_state
  clock_buf :: "byte list"
  key_id :: u32
  asr_bus :: "asr_ev list"
  pc :: "thread \<Rightarrow> at"
  crashed :: "c_fault option"

definition app_boot :: "byte list \<Rightarrow> lcd \<Rightarrow> app" where
  "app_boot buf s =
     \<lparr>net = wifi_boot, weather = weather_boot, screen = ui_boot (viewer_boot s), clock_buf = buf, key_id = 10, asr_bus = [],
      pc = (\<lambda>t. case t of Wifi_T \<Rightarrow> Ready | Ui_T \<Rightarrow> Starting | _ \<Rightarrow> Waiting), crashed = None\<rparr>"

text \<open>What the rest of the world may do in a step.\<close>

record ('d, 'c) world =
  attempts :: "attempt set"
  replies :: "(nat \<times> ('d, 'c) service) set"
  screens :: "ui_env set"
  asr :: asr_env

text \<open>A fault stops the system.\<close>

definition outcome :: "app \<Rightarrow> 'a cres \<Rightarrow> ('a \<Rightarrow> app) \<Rightarrow> app" where
  "outcome a r f = (case r of Inl e \<Rightarrow> a\<lparr>crashed := Some e\<rparr> | Inr x \<Rightarrow> f x)"

definition goto :: "thread \<Rightarrow> at \<Rightarrow> app \<Rightarrow> app" where
  "goto t p a = a\<lparr>pc := (pc a)(t := p)\<rparr>"

text \<open>\<open>area_id = id\<close>, and the request with the value it has then.\<close>

definition ask :: "thread \<Rightarrow> u32 \<Rightarrow> app \<Rightarrow> app" where
  "ask t city a = goto t (Asking city) (a\<lparr>weather := (weather a)\<lparr>area_id := city\<rparr>\<rparr>)"

text \<open>The reply about a city that was asked for: \<open>fetch_weather\<close> reads \<open>area_id\<close> only for the request.\<close>

definition receive_reply :: "nat \<Rightarrow> ('d, 'c) service \<Rightarrow> thread \<Rightarrow> u32 \<Rightarrow> at \<Rightarrow> app \<Rightarrow> app" where
  "receive_reply fuel sv t city p a =
     outcome a (fetch_weather fuel sv ((weather a)\<lparr>area_id := city\<rparr>))
       (\<lambda>w. goto t p (a\<lparr>weather := w\<lparr>area_id := area_id (weather a)\<rparr>\<rparr>))"

definition show_reports :: "ui_env \<Rightarrow> thread \<Rightarrow> app \<Rightarrow> app" where
  "show_reports env t a = outcome a (show_weather env (weather a) (screen a)) (\<lambda>u. goto t Ready (a\<lparr>screen := u\<rparr>))"

definition voice_round :: "asr_env \<Rightarrow> app \<Rightarrow> app" where
  "voice_round env a =
     (let (res, tr) = asr_get_result env (asr_bus a); a = a\<lparr>asr_bus := tr\<rparr>
      in case voice_city res of None \<Rightarrow> a | Some k \<Rightarrow> outcome a (buf_get k city_id) (\<lambda>city. ask Asr_T city a))"

definition key_round :: "app \<Rightarrow> app" where
  "key_round a =
     outcome a (buf_get (unat (key_id a)) city_id) (\<lambda>city. ask Key_T city (a\<lparr>key_id := next_key (key_id a)\<rparr>))"

inductive app_step :: "('d, 'c) world \<Rightarrow> app \<Rightarrow> app \<Rightarrow> bool" for W where
  joining: "crashed a = None \<Longrightarrow> pc a Wifi_T = Ready \<Longrightarrow> at \<in> attempts W \<Longrightarrow> env \<in> screens W \<Longrightarrow>
    app_step W a (outcome a (wifi_round (pnl env) at (net a, disp (view (screen a)))) (\<lambda>(over, w, s).
      goto Wifi_T (if over then Over else Ready) (a\<lparr>net := w, screen := (screen a)\<lparr>view := (view (screen a))\<lparr>disp := s\<rparr>\<rparr>\<rparr>)))"
| starting: "crashed a = None \<Longrightarrow> pc a Ui_T = Starting \<Longrightarrow> env \<in> screens W \<Longrightarrow>
    app_step W a (outcome a (on_disp (\<lambda>s. cbind (lcd_show_string (pnl env) 50 110 16 (lit ''system starting...'') [] s) (\<lambda>(_, s). Inr s)) (screen a))
      (\<lambda>u. goto Ui_T Waiting (a\<lparr>screen := u\<rparr>)))"
| going_on: "crashed a = None \<Longrightarrow> pc a t = Waiting \<Longrightarrow> net_state (net a) \<Longrightarrow> app_step W a (goto t Ready a)"
| weather_asks: "crashed a = None \<Longrightarrow> pc a Weather_T = Ready \<Longrightarrow>
    app_step W a (goto Weather_T (Asking (area_id (weather a))) a)"
| weather_stores: "crashed a = None \<Longrightarrow> pc a Weather_T = Asking city \<Longrightarrow> (fuel, sv) \<in> replies W \<Longrightarrow>
    app_step W a (receive_reply fuel sv Weather_T city Ready a)"
| voice_asks: "crashed a = None \<Longrightarrow> pc a Asr_T = Ready \<Longrightarrow> app_step W a (voice_round (asr W) a)"
| key_asks: "crashed a = None \<Longrightarrow> pc a Key_T = Ready \<Longrightarrow> app_step W a (key_round a)"
| input_stores: "crashed a = None \<Longrightarrow> t \<in> {Asr_T, Key_T} \<Longrightarrow> pc a t = Asking city \<Longrightarrow> (fuel, sv) \<in> replies W \<Longrightarrow>
    app_step W a (receive_reply fuel sv t city Showing a)"
| input_shows: "crashed a = None \<Longrightarrow> t \<in> {Asr_T, Key_T} \<Longrightarrow> pc a t = Showing \<Longrightarrow> env \<in> screens W \<Longrightarrow>
    app_step W a (show_reports env t a)"
| ui_shows: "crashed a = None \<Longrightarrow> pc a Ui_T = Ready \<Longrightarrow> env \<in> screens W \<Longrightarrow> app_step W a (show_reports env Ui_T a)"
| ticking: "crashed a = None \<Longrightarrow> pc a Time_T = Ready \<Longrightarrow> env \<in> screens W \<Longrightarrow>
    app_step W a (outcome a (time_tick env (clock_buf a, screen a)) (\<lambda>(buf, u). a\<lparr>clock_buf := buf, screen := u\<rparr>))"
| switching: "crashed a = None \<Longrightarrow> env \<in> screens W \<Longrightarrow>
    app_step W a (outcome a (change_display_mode env (weather a) (screen a)) (\<lambda>u. a\<lparr>screen := u\<rparr>))"


section \<open>What holds in every state\<close>

definition cities :: "u32 set" where "cities = set (drop 10 city_id)"

definition reports_fit :: "weather_state \<Rightarrow> bool" where
  "reports_fit w \<longleftrightarrow> report_fields w \<and> header_fits (rt w) \<and> now_fits (rt w) \<and> (\<forall>k<3. N_wtId (wt w ! k) \<noteq> 3)"

text \<open>A screen with its files and a clock that goes. The local arrays of \<open>ui.c\<close> are not initialised, and its icons
  are drawn from one of 25 bytes whose terminator is searched first: here it starts as a text followed by zeros, as a stack
  that was not used before does. What else it may hold is not covered here; without any zero byte in it the icons fault.\<close>

definition screen_ok :: "ui_env \<Rightarrow> bool" where
  "screen_ok env \<longleftrightarrow> ui_ready env \<and> path_array (local_array env 25) \<and> clock_fits (ctime_text env) \<and>
     (\<exists>h<24. \<exists>rest. drop 11 (ctime_text env) = two_digits h @ rest)"

text \<open>What the server may say: a refusal, or a report with all its fields, whose texts have room on the screen.\<close>

definition report_says :: "(byte list \<Rightarrow> byte list) \<Rightarrow> json \<Rightarrow> Realtime \<Rightarrow> Weather list \<Rightarrow> bool" where
  "report_says gbk j r ds \<longleftrightarrow> string_at j ''success'' = Some (lit ''1'') \<and>
     Option.bind (member j ''result'') (reply_report gbk) = Some (r, ds) \<and>
     header_fits r \<and> now_fits r \<and> (\<forall>k<3. N_wtId (ds ! k) \<noteq> 3)"

definition refuses :: "json \<Rightarrow> bool" where
  "refuses j \<longleftrightarrow> (\<exists>v. string_at j ''success'' = Some v \<and> v \<noteq> lit ''1'')"

definition says :: "('d, 'c) service \<Rightarrow> u32 \<Rightarrow> json \<Rightarrow> bool" where
  "says sv city j \<longleftrightarrow> c_json j \<and>
     (\<exists>fmt d. serves sv city [json_text fmt d j] \<and> length (json_text fmt d j) < GET_RESP_BUFSZ)"

text \<open>What the code under it does: memory for the tree of the reply, the sums of small integers, and the conversion of names.\<close>

definition service_ok :: "nat \<Rightarrow> ('d, 'c) service \<Rightarrow> (byte list \<Rightarrow> byte list) \<Rightarrow> bool" where
  "service_ok fuel sv gbk \<longleftrightarrow> 1 < fuel \<and> total_malloc (w_malloc (weather_env sv)) \<and> fp_exact (w_fp (weather_env sv)) \<and>
     converts (weather_env sv) gbk"

text \<open>For each city the request fails, or it is refused, or it is answered with a report.\<close>

definition reply_ok :: "nat \<Rightarrow> ('d, 'c) service \<Rightarrow> bool" where
  "reply_ok fuel sv \<longleftrightarrow> (\<exists>gbk. service_ok fuel sv gbk \<and>
     (\<forall>city\<in>cities. unanswered sv city \<or> (\<exists>j. says sv city j \<and> (refuses j \<or> (\<exists>r ds. report_says gbk j r ds)))))"


definition app_ok :: "app \<Rightarrow> bool" where
  "app_ok a \<longleftrightarrow> crashed a = None \<and> area_id (weather a) \<in> cities \<and> reports_fit (weather a) \<and> ui_inv (screen a) \<and>
     10 \<le> sint (key_id a) \<and> sint (key_id a) \<le> 49 \<and> length (clock_buf a) = 5 \<and> \<not> isdigit (clock_buf a ! 2) \<and>
     (\<forall>t city. pc a t = Asking city \<longrightarrow> city \<in> cities)"

lemma area_id_fields [simp]:
  "reports_fit (w\<lparr>area_id := i\<rparr>) = reports_fit w"
  by (simp add: reports_fit_def report_fields_def)

lemma reports_fit_screen: "reports_fit w \<Longrightarrow> screen_ok env \<Longrightarrow> screen_fits env mode w"
  by (auto simp: reports_fit_def screen_ok_def screen_fits_def icon_fits_def day_icon_def)

lemma show_ok:
  assumes "reports_fit w" "screen_ok env" "ui_inv u"
  obtains u' where "show_weather env w u = Inr u'" "ui_inv u'"
  using show_weather_eq[OF assms(3) reports_fit_screen[OF assms(1,2)]] assms(2) by (auto simp: screen_ok_def)




lemma reply_report_length: "reply_report gbk j = Some (r, ds) \<Longrightarrow> length (area_1 r) = 10 \<and> length (area_2 r) = 10 \<and> length (wtNm r) = 10 \<and> length ds = 3"
  by (auto simp: reply_report_def realtime_report_def bind_eq_Some_conv dest: names_length)

text \<open>A report that is answered becomes the reports; a refusal leaves them.\<close>

lemma fetch_says:
  assumes "service_ok fuel sv gbk" "says sv (area_id s) j" "report_fields s"
  obtains js where "agrees (fetch_weather fuel sv s)
    (map_option (\<lambda>(r, ds). s\<lparr>rt := r, wt := ds, json_state := js\<rparr>) (reply_outcome gbk j (rt s, wt s)))"
  using assms fetch_weather_text[of sv s _ _ j fuel gbk] unfolding service_ok_def says_def by blast

lemma fetch_report:
  assumes "service_ok fuel sv gbk" "says sv (area_id s) j" "report_says gbk j r ds" "report_fields s"
  obtains js where "fetch_weather fuel sv s = Inr (s\<lparr>rt := r, wt := ds, json_state := js\<rparr>)"
    "reports_fit (s\<lparr>rt := r, wt := ds, json_state := js\<rparr>)"
proof -
  have out: "reply_outcome gbk j (rt s, wt s) = Some (r, ds)" using assms(3) by (simp add: report_says_def reply_outcome_def)
  obtain m where "reply_report gbk m = Some (r, ds)" using assms(3) by (auto simp: report_says_def bind_eq_Some_conv)
  then have fit: "reports_fit (s\<lparr>rt := r, wt := ds, json_state := js\<rparr>)" for js
    using assms(3) by (simp add: reply_report_length reports_fit_def report_fields_def report_says_def)
  obtain js where "fetch_weather fuel sv s = Inr (s\<lparr>rt := r, wt := ds, json_state := js\<rparr>)"
    by (rule fetch_says[OF assms(1,2,4)]) (simp add: out)
  then show ?thesis using that fit by blast
qed

lemma fetch_refused:
  assumes "service_ok fuel sv gbk" "says sv (area_id s) j" "refuses j" "report_fields s"
  obtains js where "fetch_weather fuel sv s = Inr (s\<lparr>json_state := js\<rparr>)"
proof -
  have out: "reply_outcome gbk j (rt s, wt s) = Some (rt s, wt s)" using assms(3) by (auto simp: refuses_def reply_outcome_def)
  obtain js where "fetch_weather fuel sv s = Inr (s\<lparr>rt := rt s, wt := wt s, json_state := js\<rparr>)"
    by (rule fetch_says[OF assms(1,2,4)]) (simp add: out)
  then show ?thesis using that by simp
qed

lemma fetch_ok:
  assumes "reply_ok fuel sv" "area_id w \<in> cities" "reports_fit w"
  obtains w' where "fetch_weather fuel sv w = Inr w'" "reports_fit w'"
proof -
  have f: "report_fields w" using assms(3) by (simp add: reports_fit_def)
  obtain gbk where g: "service_ok fuel sv gbk" and ans: "unanswered sv (area_id w) \<or>
      (\<exists>j. says sv (area_id w) j \<and> (refuses j \<or> (\<exists>r ds. report_says gbk j r ds)))"
    using assms(1,2) unfolding reply_ok_def by blast
  from ans consider "unanswered sv (area_id w)" | j where "says sv (area_id w) j" "refuses j"
    | j r ds where "says sv (area_id w) j" "report_says gbk j r ds" by blast
  then show ?thesis
  proof cases
    case 1
    then show ?thesis using that fetch_weather_unanswered assms(3) by blast
  next
    case 2
    then obtain js where "fetch_weather fuel sv w = Inr (w\<lparr>json_state := js\<rparr>)" by (rule fetch_refused[OF g _ _ f])
    moreover have "reports_fit (w\<lparr>json_state := js\<rparr>)" using assms(3) by (simp add: reports_fit_def report_fields_def)
    ultimately show ?thesis by (rule that)
  next
    case 3
    then show ?thesis using that by (rule fetch_report[OF g _ _ f])
  qed
qed













text \<open>Before the net is on, no thread is past its waiting loop, except the one that goes online.\<close>

definition net_first :: "app \<Rightarrow> bool" where
  "net_first a \<longleftrightarrow> net_state (net a) \<or> (\<forall>t. t \<noteq> Wifi_T \<longrightarrow> pc a t \<in> {Starting, Waiting})"

lemma pc_asking: "net_first a \<Longrightarrow> pc a t \<in> {Ready, Asking c, Showing} \<Longrightarrow> t \<noteq> Wifi_T \<Longrightarrow> net_state (net a)"
  by (auto simp: net_first_def)


text \<open>The application is a system of steps with this invariant, and the net stays on.\<close>

definition app_start :: "app \<Rightarrow> bool" where
  "app_start a \<longleftrightarrow> (\<exists>buf s. length buf = 5 \<and> \<not> isdigit (buf ! 2) \<and> a = app_boot buf s)"

lemma app_start_ok: "app_start a \<Longrightarrow> app_ok a"
proof -
  have "(265 :: u32) \<in> cities" by (simp add: cities_def city_id_def)
  moreover have "reports_fit weather_boot"
    by (auto simp: reports_fit_def weather_boot_fields) (auto simp: weather_boot_def header_fits_def name_fits_def cstr_def now_fits_def less_Suc_eq numeral_3_eq_3)
  moreover assume "app_start a"
  ultimately show ?thesis
    by (auto simp: app_start_def app_ok_def app_boot_def ui_inv_def ui_boot_def viewer_boot_def weather_boot_def split: thread.splits)
qed



section \<open>Runs\<close>

lemma key_run:
  assumes "pc a Key_T = Ready" "crashed a = None" "(fuel, sv) \<in> replies W" "env \<in> screens W" "report_fields (weather a)"
    and "unat (key_id a) < 50"
    and "change_city fuel sv env (city_id ! unat (key_id a)) (weather a, screen a) = Inr (w, u)"
  shows "(app_step W)\<^sup>*\<^sup>* a (a\<lparr>weather := w, screen := u, key_id := next_key (key_id a)\<rparr>)"
proof -
  define city where "city = city_id ! unat (key_id a)"
  define a1 where "a1 = goto Key_T (Asking city) (a\<lparr>key_id := next_key (key_id a), weather := (weather a)\<lparr>area_id := city\<rparr>\<rparr>)"
  have "length city_id = 50" by (simp add: city_id_def)
  then have "key_round a = a1" using assms(6) by (simp add: key_round_def outcome_def ask_def a1_def city_def)
  then have s1: "app_step W a a1" using app_step.key_asks[OF assms(2,1)] by simp
  obtain w: "fetch_weather fuel sv ((weather a)\<lparr>area_id := city\<rparr>) = Inr w" and u: "show_weather env w (screen a) = Inr u"
    using assms(7) by (auto simp: change_city_def cbind_eq_Inr city_def)
  have "area_id w = city" using fetch_weather_fields[OF w] assms(5) by (simp add: report_fields_def)
  define a2 where "a2 = goto Key_T Showing (a1\<lparr>weather := w\<rparr>)"
  have "receive_reply fuel sv Key_T city Showing a1 = a2"
    using w \<open>area_id w = city\<close> by (simp add: receive_reply_def a1_def a2_def goto_def outcome_def)
  then have s2: "app_step W a1 a2"
    using app_step.input_stores[of a1 Key_T city fuel sv W] assms(2,3) by (simp add: a1_def goto_def)
  have "show_reports env Key_T a2 = a\<lparr>weather := w, screen := u, key_id := next_key (key_id a)\<rparr>"
    using u assms(1) by (simp add: show_reports_def a2_def a1_def goto_def outcome_def fun_upd_idem)
  then have "app_step W a2 (a\<lparr>weather := w, screen := u, key_id := next_key (key_id a)\<rparr>)"
    using app_step.input_shows[of a2 Key_T env W] assms(2,4) by (simp add: a2_def a1_def goto_def)
  with s1 s2 show ?thesis by (meson converse_rtranclp_into_rtranclp rtranclp.rtrancl_refl)
qed

text \<open>Two services: one refuses every request, the other gives the same report for every city.\<close>

definition refusal :: "byte list" where
  "refusal = json_text False 0 (JObj [(lit ''success'', JStr (lit ''0''))])"

definition reporting :: "(int, byte list list) service" where
  "reporting = scripted_service (-1) [json_text False 0 sample_report]"

lemma scripted_ok: "service_ok 2 (scripted_service (-1) ds) (\<lambda>bs. bs)"
  using plain_weather_env_laws by (simp add: service_ok_def scripted_service_def[of "-1"])

lemma refusal_says: "says (scripted_service (-1) [refusal]) city (JObj [(lit ''success'', JStr (lit ''0''))])"
  "refuses (JObj [(lit ''success'', JStr (lit ''0''))])"
proof -
  have shown: "refusal = lit ''{\"success\":\"0\"}''"
    by (simp add: refusal_def quote_def escaped_def lit_def nl_def tabs_def)
  have "[] \<notin> set [refusal]" "length refusal < GET_RESP_BUFSZ" by (simp_all add: shown lit_def GET_RESP_BUFSZ_def)
  then show "says (scripted_service (-1) [refusal]) city (JObj [(lit ''success'', JStr (lit ''0''))])"
    using scripted_serves[of "[refusal]" "-1" city] by (auto simp: says_def refusal_def lit_def)
  show "refuses (JObj [(lit ''success'', JStr (lit ''0''))])" by (simp add: refuses_def string_at_def lit_def)
qed

lemma reporting_says: "says reporting city sample_report"
  "report_says (\<lambda>bs. bs) sample_report sample_now [sample_weather, sample_weather, sample_weather]"
proof -
  show "says reporting city sample_report"
    using scripted_serves[OF sample_report_text(2), of "-1" city] sample_report_text by (auto simp: says_def reporting_def)
  have "header_fits sample_now" "now_fits sample_now"
    by (auto simp: sample_now_def header_fits_def name_fits_def cstr_def lit_def now_fits_def)
  then show "report_says (\<lambda>bs. bs) sample_report sample_now [sample_weather, sample_weather, sample_weather]"
    using sample_report_says by (auto simp: report_says_def sample_weather_def less_Suc_eq numeral_3_eq_3)
qed

lemma refusal_ok: "reply_ok 2 (scripted_service (-1) [refusal])"
  unfolding reply_ok_def using scripted_ok refusal_says by blast


definition sample_world :: "(int, byte list list) world" where
  "sample_world = \<lparr>attempts = {\<lparr>wlan0 = True, sem_memory = True, connect_result = 0, take_result = 0\<rparr>},
     replies = {(2, scripted_service (-1) [refusal]), (2, reporting)}, screens = {sample_ui},
     asr = \<lparr>answer = (\<lambda>tr. 26), local_bytes = (\<lambda>k. 0)\<rparr>\<rparr>"

lemma sample_screen_ok: "screen_ok sample_ui"
proof -
  have "drop 11 (ctime_text sample_ui) = two_digits 8 @ lit '':30:00 1970''"
    by (simp add: sample_ui_def two_digits_def lit_def)
  moreover have "(8 :: nat) < 24" by simp
  ultimately show ?thesis unfolding screen_ok_def using sample_ui_ready by blast
qed


section \<open>Properties\<close>



text \<open>An example: all threads between two rounds, in a world with refusals only.\<close>

definition sample_app :: app where
  "sample_app = (app_boot [0, 0, 0, 0, 0] lcd_boot)\<lparr>net := wifi_boot\<lparr>net_state := True\<rparr>, pc := (\<lambda>t. Ready)\<rparr>"

lemma sample_app_facts: "pc sample_app t = Ready" "crashed sample_app = None" "(2, scripted_service (-1) [refusal]) \<in> replies sample_world"
  "sample_ui \<in> screens sample_world" "report_fields (weather sample_app)" "unat (key_id sample_app) < 50"
  "city_id ! unat (key_id sample_app) = 1" "area_id (weather sample_app) = 265"
  by (simp_all add: sample_app_def app_boot_def sample_world_def weather_boot_fields city_id_def) (simp add: weather_boot_def)

lemma sample_app_ok: "reports_fit (weather sample_app)" "ui_inv (screen sample_app)"
  using app_start_ok[of "app_boot [0, 0, 0, 0, 0] lcd_boot"] by (auto simp: app_start_def isdigit_def app_ok_def sample_app_def app_boot_def)

lemma sample_change:
  "\<exists>w u. change_city 2 (scripted_service (-1) [refusal]) sample_ui 1 (weather sample_app, screen sample_app) = Inr (w, u) \<and>
     reports_fit w"
proof -
  have "(1 :: u32) \<in> cities" by (simp add: cities_def city_id_def)
  then obtain w where w: "fetch_weather 2 (scripted_service (-1) [refusal]) ((weather sample_app)\<lparr>area_id := 1\<rparr>) = Inr w" "reports_fit w"
    using fetch_ok[OF refusal_ok, of "(weather sample_app)\<lparr>area_id := 1\<rparr>"] sample_app_ok by auto
  obtain u where "show_weather sample_ui w (screen sample_app) = Inr u" by (rule show_ok[OF w(2) sample_screen_ok sample_app_ok(2)])
  with w show ?thesis by (simp add: change_city_def)
qed

text \<open>C20. A key press that no other thread interrupts, from any point of the round of the key: the server is asked for the
  city at the position of the key, and when it answers with a report that has room on the screen, the reports become
  what it says, the screen is sent exactly the widgets of that report (and, when the theme has changed, is
  cleared before), the position moves on to the next city, from the last to the first, and all threads are where they
  were. As everywhere in this theory the stack array of the icons starts as a text followed by zeros (\<open>screen_ok\<close>).\<close>

theorem key_press_shows_city:
  assumes "pc a Key_T = Ready" "crashed a = None" "10 \<le> sint (key_id a)" "sint (key_id a) \<le> 49"
    and "report_fields (weather a)" "ui_inv (screen a)" "env \<in> screens W" "screen_ok env"
    and "(fuel, sv) \<in> replies W" "service_ok fuel sv gbk" "says sv (city_id ! nat (sint (key_id a))) j" "report_says gbk j r ds"
  shows "\<exists>a'. (app_step W)\<^sup>*\<^sup>* a a' \<and> crashed a' = None \<and> pc a' = pc a \<and>
    area_id (weather a') = city_id ! nat (sint (key_id a)) \<and> rt (weather a') = r \<and> wt (weather a') = ds \<and>
    sint (key_id a') = (if sint (key_id a) = 49 then 10 else sint (key_id a) + 1) \<and>
    (let m = display_mode (screen a); d = disp (view (screen a'))
     in display_mode (screen a') = m \<and> themed m (screen a') \<and>
        sent d = sent (disp (view (screen a))) @ screen_wire env d
          ((if themed m (screen a) then [] else [Fill (ucast (theme_back m))]) @
           weather_screen m (weather a') (clock_of (ctime_text env))))"
proof -
  have "sint (key_id a) = uint (key_id a)" using assms(3,4) uint_lt2p[of "key_id a"] by (simp add: sint_u32 split: if_splits)
  then have k: "nat (sint (key_id a)) = unat (key_id a)" "unat (key_id a) < 50" using assms(4) uint_nat[of "key_id a"] by linarith+
  define city where "city = city_id ! unat (key_id a)"
  define w0 where "w0 = (weather a)\<lparr>area_id := city\<rparr>"
  have "says sv (area_id w0) j" "report_fields w0" using assms(5,11) by (simp_all add: w0_def city_def k(1) report_fields_def)
  then obtain js where w: "fetch_weather fuel sv w0 = Inr (w0\<lparr>rt := r, wt := ds, json_state := js\<rparr>)"
      "reports_fit (w0\<lparr>rt := r, wt := ds, json_state := js\<rparr>)"
    using fetch_report[OF assms(10) _ assms(12)] by blast
  define w1 where "w1 = w0\<lparr>rt := r, wt := ds, json_state := js\<rparr>"
  note eq = show_weather_eq[OF assms(6) reports_fit_screen[OF w(2)[folded w1_def] assms(8)]]
  obtain u where u: "show_weather env w1 (screen a) = Inr u" "themed (display_mode (screen a)) u" "display_mode u = display_mode (screen a)"
    "sent (disp (view u)) = sent (disp (view (screen a))) @ screen_wire env (disp (view u))
      ((if themed (display_mode (screen a)) (screen a) then [] else [Fill (ucast (theme_back (display_mode (screen a))))]) @
       weather_screen (display_mode (screen a)) w1 (clock_of (ctime_text env)))"
    using eq assms(8) by (auto simp: screen_ok_def)
  have "change_city fuel sv env (city_id ! unat (key_id a)) (weather a, screen a) = Inr (w1, u)"
    using w(1) u(1) by (simp add: change_city_def flip: city_def w0_def w1_def)
  from key_run[OF assms(1,2,9,7,5) k(2) this]
  have run: "(app_step W)\<^sup>*\<^sup>* a (a\<lparr>weather := w1, screen := u, key_id := next_key (key_id a)\<rparr>)" .
  have "area_id w1 = city_id ! nat (sint (key_id a))" "rt w1 = r" "wt w1 = ds" by (simp_all add: w1_def w0_def city_def k(1))
  with run u(2-4) assms(2) next_key_range[OF assms(3,4)] show ?thesis
    by (intro exI[of _ "a\<lparr>weather := w1, screen := u, key_id := next_key (key_id a)\<rparr>"]) (simp add: Let_def)
qed

theorem key_press_shows_city_witness:
  "\<exists>a'. (app_step sample_world)\<^sup>*\<^sup>* sample_app a' \<and> area_id (weather a') = 1 \<and> rt (weather a') = sample_now \<and> sint (key_id a') = 11"
proof -
  have k: "sint (key_id sample_app) = 10" by (simp add: sample_app_def app_boot_def)
  have "(2, reporting) \<in> replies sample_world" by (simp add: sample_world_def)
  moreover have "service_ok 2 reporting (\<lambda>bs. bs)" unfolding reporting_def by (rule scripted_ok)
  moreover have "city_id ! nat (sint (key_id sample_app)) = 1" by (simp add: k city_id_def)
  ultimately show ?thesis
    using key_press_shows_city[of sample_app sample_ui sample_world 2 reporting "\<lambda>bs. bs" sample_report sample_now
        "[sample_weather, sample_weather, sample_weather]"]
      sample_app_facts(1,2,4,5) sample_app_ok(2) sample_screen_ok reporting_says k by auto
qed

text \<open>C19. A key press while the minute round of the weather thread waits for its reply: the new city is fetched and shown,
  then the reply about the old city is stored. With all threads between two rounds again, \<open>area_id\<close> is the new
  city and the reports are those of the old one.\<close>

theorem stale_report:
  assumes "pc a Weather_T = Ready" "pc a Key_T = Ready" "crashed a = None" "(fuel, sv) \<in> replies W" "env \<in> screens W"
    and "report_fields (weather a)" "unat (key_id a) < 50"
    and "change_city fuel sv env (city_id ! unat (key_id a)) (weather a, screen a) = Inr (w, u)"
    and "fetch_weather fuel sv (w\<lparr>area_id := area_id (weather a)\<rparr>) = Inr w'"
  shows "(app_step W)\<^sup>*\<^sup>* a
    (a\<lparr>weather := w'\<lparr>area_id := city_id ! unat (key_id a)\<rparr>, screen := u, key_id := next_key (key_id a)\<rparr>)"
proof -
  define c where "c = area_id (weather a)"
  define a0 where "a0 = goto Weather_T (Asking c) a"
  define a1 where "a1 = a0\<lparr>weather := w, screen := u, key_id := next_key (key_id a)\<rparr>"
  have s0: "app_step W a a0" using app_step.weather_asks[OF assms(3,1)] by (simp add: a0_def c_def)
  have same: "key_id a0 = key_id a" "weather a0 = weather a" "screen a0 = screen a" "crashed a0 = None" "pc a0 Key_T = Ready"
    using assms(2,3) by (simp_all add: a0_def goto_def)
  have s1: "(app_step W)\<^sup>*\<^sup>* a0 a1"
    using key_run[of a0 fuel sv W env w u] assms(4-8) same by (simp add: a1_def)
  obtain f: "fetch_weather fuel sv ((weather a)\<lparr>area_id := city_id ! unat (key_id a)\<rparr>) = Inr w"
    using assms(8) by (auto simp: change_city_def cbind_eq_Inr)
  have area: "area_id w = city_id ! unat (key_id a)" using fetch_weather_fields[OF f] assms(6) by (simp add: report_fields_def)
  have "receive_reply fuel sv Weather_T c Ready a1 =
      a\<lparr>weather := w'\<lparr>area_id := city_id ! unat (key_id a)\<rparr>, screen := u, key_id := next_key (key_id a)\<rparr>"
    using assms(1,9) area by (simp add: receive_reply_def a1_def a0_def c_def goto_def outcome_def fun_upd_idem)
  then have "app_step W a1 (a\<lparr>weather := w'\<lparr>area_id := city_id ! unat (key_id a)\<rparr>, screen := u, key_id := next_key (key_id a)\<rparr>)"
    using app_step.weather_stores[of a1 c fuel sv W] assms(3,4) by (simp add: a1_def a0_def goto_def)
  with s0 s1 show ?thesis by (meson converse_rtranclp_into_rtranclp rtranclp.rtrancl_into_rtrancl)
qed

theorem stale_report_witness:
  "\<exists>w' u. (app_step sample_world)\<^sup>*\<^sup>* sample_app
     (sample_app\<lparr>weather := w'\<lparr>area_id := 1\<rparr>, screen := u, key_id := next_key (key_id sample_app)\<rparr>) \<and> area_id w' = 265"
proof -
  obtain w u where w: "change_city 2 (scripted_service (-1) [refusal]) sample_ui 1 (weather sample_app, screen sample_app) = Inr (w, u)"
    "reports_fit w" using sample_change by blast
  have "(265 :: u32) \<in> cities" by (simp add: cities_def city_id_def)
  then obtain w' where w': "fetch_weather 2 (scripted_service (-1) [refusal]) (w\<lparr>area_id := 265\<rparr>) = Inr w'"
    using fetch_ok[OF refusal_ok, of "w\<lparr>area_id := 265\<rparr>"] w(2) by auto
  then have "area_id w' = 265" using fetch_weather_fields[OF w'] w(2) by (simp add: reports_fit_def report_fields_def)
  then show ?thesis
    using stale_report[OF sample_app_facts(1,1,2,3,4,5,6), unfolded sample_app_facts(7,8), OF w(1) w'] by blast
qed

text \<open>The key goes round the cities of the table: the press after \<open>n\<close> presses asks for the entry \<open>10 + n mod 40\<close>.\<close>

theorem key_visits_cities:
  "buf_get (unat ((next_key ^^ n) 10)) city_id = Inr (city_id ! (10 + n mod 40))"
proof -
  define k where "k = (next_key ^^ n) 10"
  have s: "sint k = 10 + int n mod 40" using next_key_pow[of n] by (simp add: k_def)
  then have "0 \<le> sint k" "sint k < 50" by (simp_all add: add_nonneg_nonneg)
  then have "sint k = uint k" using uint_lt2p[of k] by (simp add: sint_u32 split: if_splits)
  then have "int (unat k) = int (10 + n mod 40)" using s by (simp add: zmod_int)
  then have "unat k = 10 + n mod 40" by (simp only: of_nat_eq_iff)
  moreover have "length city_id = 50" by (simp add: city_id_def)
  moreover have "n mod 40 < 40" by simp
  ultimately show ?thesis by (simp flip: k_def)
qed

end
