(* ===== verification/Spec2Isabelle.thy ===== *)
theory Spec2Isabelle
  imports Lcd_Text Display_Ch Bmp Wifi_Store Fal_Port CJson_Print Weather_Http App
begin

text \<open>
  A verification of the firmware of a weather station on an STM32L4 with RT-Thread (the sources are under
  \<open>src/1. .../\<close>; paths below are relative to that directory).

  The program. Six threads share a few globals. The Wi-Fi thread joins the access point and sets
  \<open>net_state\<close>; the others wait for it. The weather thread asks a web service for a report every minute, parses the
  JSON reply into \<open>rt\<close> and \<open>wt\<close>, and voice and key threads do the same for another city (\<open>change_city\<close>). The
  screen thread draws the reports on a 240 by 240 panel: text from fonts in the code and in a file on the SD
  card, pictures from BMP files. The time thread chooses a light or a dark theme. Settings are stored in
  flash through the flash abstraction layer.

  Theories, from the bottom up.

    \<^item> \<open>Prelude\<close>: words, buffers, faults as values (\<open>cres\<close>), loops that may fault. \<open>Runs\<close>: functions of a state that may fault, in sequence, with their
      weakest preconditions \<open>wp\<close>.
    \<^item> \<open>Kservice_String\<close>, \<open>Kservice_Format\<close>: \<open>rt-thread/src/kservice.c\<close>, the memory and string routines with
      their word-wise loops, and the formatted output. The lemmas show that the loops are the plain operations, whatever
      the alignment, and that the formatter with its bounded stores gives the text of its format.
    \<^item> \<open>Panel\<close>, \<open>Lcd\<close>, \<open>Lcd_Draw\<close>, \<open>Lcd_Font\<close>, \<open>Lcd_Text\<close>: \<open>drivers/drv_lcd.c\<close> and its fonts. The state is the two
      colours and the trace of what the driver did to pins and bus; \<open>emits\<close> says which bytes, with the level of the
      data/command pin, an operation puts on the wire. The locales of \<open>Panel\<close> are the interface to everything that
      draws: a window and its pixels; \<open>Lcd\<close> interprets them.
    \<^item> \<open>Files\<close>, \<open>Display_Ch\<close>, \<open>Bmp\<close>: what is used of the file interface, \<open>drivers/display_ch.c\<close> (mixed Chinese and
      English text), \<open>applications/bmp.c\<close>.
    \<^item> \<open>Fal\<close>, \<open>Fal_Port\<close>: \<open>packages/fal-v0.5.0\<close> with the partition table of the project, and the two flash ports
      \<open>ports/fal\<close>. On the on-chip flash a write that does not report an error reads back, and a write at a multiple of
      eight, which the HAL asks for, does not touch other partitions although whole double words are programmed.
    \<^item> \<open>Easyflash\<close>: \<open>packages/EasyFlash-v4.1.0/src/ef_env.c\<close> and \<open>ef_utils.c\<close>, the environment store: named values in a
      log over two sectors of flash, with garbage collection, a cache of names and one of sectors, and recovery at the
      start. The state \<open>ef\<close> has the flash, the caches and the static variables; a run (\<open>('a, 's) run\<close>) is a function of
      it with a result, a new state or a fault. \<open>Easyflash_Port\<close> is \<open>ports/easyflash/ef_fal_port.c\<close> and \<open>easyflash.c\<close>.
    \<^item> \<open>Easyflash_Store\<close> to \<open>Easyflash_Boot\<close>: the proofs, by weakest preconditions \<open>wp\<close> over runs, in the locale \<open>nor_port\<close>,
      which says what a NOR flash does: reads give the bytes, writes clear bits, erasing sets them. \<open>Store\<close>: a node is
      created and read back. \<open>Cache\<close>, \<open>Walk\<close>: the two caches, a sector as the list of its nodes, the walks of the code
      over them. \<open>Map\<close>, \<open>Alloc\<close>, \<open>Update\<close>, \<open>Set\<close>: the contents of two sectors as a map, where the next node goes, nodes
      appended and their status advanced; \<open>ef_inv\<close> is the invariant of flash, nodes and caches. \<open>Ops\<close>, \<open>Gc\<close>, \<open>Collect\<close>,
      \<open>Kv\<close>, \<open>Boot\<close>: reading, deleting, moving, collecting, setting with the collections it starts, starting.
    \<^item> \<open>Easyflash_Api\<close>, \<open>Easyflash_Spec\<close>: \<open>represents\<close> relates a state and its flash to a map from names to values; the
      calls act on the map. \<open>Easyflash_Port\<close> states what the vendor library SFUD and the abstraction layer give
      (\<open>sfud_chip\<close>, \<open>ef_system\<close>), proves that this is a \<open>nor_port\<close>, and interprets it on a flash in memory.
    \<^item> \<open>Wifi_Config\<close>, \<open>Wifi_Store\<close>: \<open>ports/wifi/wifi_config.c\<close>. \<open>Wifi_Config\<close> has the base64 codec and the operations for
      old versions of the store. The compiled operations are in \<open>Wifi_Store\<close>, with the locale \<open>key_store\<close> for what they ask of
      the store; the store provides it (a sublocale), so the configuration survives a restart.
    \<^item> \<open>CJson\<close>, \<open>CJson_Text\<close>, \<open>CJson_Safe\<close>, \<open>CJson_Print\<close>: the JSON package: parser, lookup and printer with explicit
      allocation. The printer stays in its blocks for trees with any numbers (\<open>tree_text\<close>); for trees of 32-bit integers printing
      and parsing are inverse (\<open>json_text\<close>); any JSON number is read to its end with its value (\<open>numeral_value\<close>); the parser ends
      on every text, builds well-formed trees and stays inside a text without backslashes.
    \<^item> \<open>Weather\<close>: \<open>applications/weather.c\<close>. \<open>reply_report\<close> says what a JSON value reports; the code implements it, and
      faults where it gives nothing.
    \<^item> \<open>Webclient\<close>: \<open>packages/webclient-v2.1.2/src/webclient.c\<close>, the HTTP client without TLS. The state \<open>web\<close> is the session
      with its header buffer and the state of the socket layer, whose functions are the record \<open>sockets\<close>; the pointers to
      its strings are \<open>heap_string\<close>s, which can dangle. \<open>Webclient_Stream\<close> has the locale \<open>stream\<close>: bytes arrive in order in
      pieces of any size and go out in order; lines, blocks and sends are read and written whole over it. \<open>Webclient_Text\<close>:
      numbers, fields, status and URL out of texts. \<open>Webclient_Reply\<close>, \<open>Webclient_Body\<close>: the header of a reply, and its body
      with a length or in chunks (\<open>delivers\<close>). \<open>Webclient_Client\<close>: the locale \<open>reachable\<close> (the host resolves and accepts), the
      request that is sent, and \<open>webclient_request\<close> from the creation of the session to its close. \<open>Webclient_Redirect\<close>: what a
      redirection to a foreign URL does. \<open>Webclient_Spec\<close>: both locales interpreted on a network that brings given pieces.
    \<^item> \<open>Weather_Http\<close>: the weather service with that client in the place of its parameter \<open>client\<close>, from the bytes of the
      network to the reports.
    \<^item> \<open>Ui\<close>: \<open>applications/ui.c\<close>. \<open>weather_screen\<close> lists the widgets of a report, \<open>widget_wire\<close> what each is on the wire;
      \<open>show_weather\<close> draws exactly those when the texts fit their local arrays, and faults when they do not. Both are for a
      local array \<open>bmp_path\<close>, which the code reads without having initialised it, that starts as a text followed by zeros
      (\<open>path_array\<close>); when it has no zero byte, \<open>show_weather\<close> faults.
    \<^item> \<open>Asr\<close>, \<open>Wifi\<close>: \<open>applications/asr.c\<close> and \<open>applications/wifi.c\<close>.
    \<^item> \<open>System\<close>, \<open>App\<close>: the threads as a step relation over the shared state. The locales of \<open>System\<close> state what
      invariants of steps give; \<open>App\<close> interprets them on the application. The world of \<open>App\<close> is described by what the server
      may answer (\<open>reply_ok\<close>: for each city the request fails, is refused, or gives a complete report with room on the
      screen) and by the screen (\<open>screen_ok\<close>, with the \<open>path_array\<close> just mentioned); that fetching then succeeds is a lemma.

  Conventions. A global or static variable is a field of a record that is passed and returned; a buffer is the list
  of its bytes, and an access outside of it is the fault \<open>Out_Of_Bounds\<close>. The target is a 32-bit ARM: \<open>char\<close> is
  unsigned, \<open>int\<close> and \<open>long\<close> have 32 bits and are words read with \<open>sint\<close> where their sign matters; counters that cannot
  wrap are natural numbers. What is not code of the repository or lies below the modelled layers is a
  parameter: the results of the bus, the heap, the contents of files, of uninitialised local arrays and of
  blocks, floating-point arithmetic, the socket layer, the conversion to GBK (not in the repository), the HAL.

  Fuel. The two reading loops of \<open>fetch_weather\<close> take one unit of fuel for every read; the theorems ask for more fuel
  than the number of pieces of the body. In the HTTP client, redirections, sends that make no progress and a body without a
  length have no bound in the code and take fuel; the size of a header buffer and the length of the body are enough.
  The walks of the environment store take \<open>Suc SECTOR_SIZE\<close> for the nodes of a sector, since a node has at least 24 bytes, and \<open>Suc SECTOR_NUM\<close> for the sectors; the loop of its recovery needs
  one unit, as the theorems show. Every other loop is structural or has a termination proof; loops that may
  not end for some arguments give the fault \<open>Diverges\<close>.

  Two variables of the environment store whose names have the same 16 bits of checksum share a cache entry; the theorems ask
  that the names in use differ there (\<open>clear_key\<close>), and \<open>Wifi_Store\<close> shows it for the names of the program. Recovery
  from a loss of power is part of the model; the theorems about starting are about stores that were left between two calls
  and about a flash without headers.

  Interleaving. In \<open>App\<close> a thread gives way while it waits for a reply and between its rounds, and nowhere else. Waits for a
  bus or a file, and preemption by a thread of a higher priority inside a step, are not modelled.

  Idealised. The cursor and the result of the formatter are natural numbers; a text of \<open>2^31\<close> bytes or more, at which the
  32 bits of the code wrap, is not followed. A field width or precision wraps as the \<open>int\<close> of the code does.

  Not modelled: the thread that blinks an LED (\<open>applications/main.c\<close>), the kernel and the components of RT-Thread below the used routines, vendor HAL and board
  drivers, the NTP client, TLS and the download to a file of the HTTP client, the release of resolved addresses,
  the lock and the listing of the environment store, console output, the release of memory, and packages that are in the tree but not in the build.
\<close>

end
